(* ===== verification/Nmbm_Prelude.thy ===== *)
theory Nmbm_Prelude
  imports Main "HOL-Library.Word" "HOL-Library.Monad_Syntax"
begin

text \<open>
  Shared ground of the development: names for the machine integers of the C code, the byte
  level view of its structures (little endian, as on every CPU the images of this repository
  are built for), the C library calls on buffers, and the predicate \<open>wp\<close> with which the
  operations are specified.

  An operation of the code that contains a loop whose end depends on run time values is a
  function into \<open>option\<close>: \<open>None\<close> means that the operation does not return. \<open>wp m Q\<close> says
  that the run \<open>m\<close> returns and that its result satisfies \<open>Q\<close>, so every specification stated
  with it is one of total correctness.
\<close>

unbundle bit_operations_syntax

named_theorems wp_intro \<open>total correctness rules for the operations of the model\<close>
named_theorems frame_simps \<open>parts of the state an operation leaves alone\<close>

section \<open>Machine integers\<close>

type_synonym u8 = "8 word"
type_synonym u16 = "16 word"
type_synonym u32 = "32 word"
type_synonym u64 = "64 word"

text \<open>Loop counters: one step towards the limit does not wrap.\<close>

lemma word_less_Suc_nonzero: "(a::'a::len word) < b \<Longrightarrow> 1 + a \<noteq> 0"
proof
  assume "a < b" "1 + a = 0"
  then have "a = - 1" by (simp add: eq_neg_iff_add_eq_0 add.commute)
  with \<open>a < b\<close> show False by (metis word_not_simps(3))
qed

lemma unat_Suc_less: "(a::'a::len word) < b \<Longrightarrow> unat (a + 1) = Suc (unat a)"
  using word_less_Suc_nonzero [of a b] unatSuc [of a] by (simp add: add.commute)

lemma unat_up: "(a::'a::len word) < b \<Longrightarrow> unat b - unat (a + 1) < unat b - unat a"
  using unat_Suc_less [of a b] by (simp add: word_less_nat_alt)

lemma unat_pred: "(b::'a::len word) < a \<Longrightarrow> unat (a - 1) = unat a - 1"
  by (metis unat_minus_one word_not_simps(1))

lemma unat_down: "(b::'a::len word) < a \<Longrightarrow> unat (a - 1) < unat a"
  using unat_pred [of b a] by (simp add: word_less_nat_alt)

lemma unat_ucast_u64 [simp]: "unat (ucast (w :: u32) :: u64) = unat w"
proof -
  have "unat w < 2 ^ 64" using unsigned_less [of w, where ?'a = nat] by simp
  then show ?thesis by (simp add: unsigned_ucast_eq take_bit_nat_eq_self)
qed

section \<open>Powers of two\<close>

text \<open>\<open>ffs\<close>: one plus the position of the least significant set bit, 0 for 0.\<close>

definition ffs :: "u32 \<Rightarrow> nat" where
  "ffs w = (case filter (bit w) [0..<32] of [] \<Rightarrow> 0 | i # _ \<Rightarrow> Suc i)"

lemma filter_eq_upt: "filter (\<lambda>i. i = k) [0..<n] = (if k < n then [k] else [])"
  by (induction n) auto

lemma ffs_pow2: "k < 32 \<Longrightarrow> ffs (2 ^ k) = Suc k"
proof -
  assume k: "k < 32"
  have "bit (2 ^ k :: u32) = (\<lambda>i. i = k)" using k by (auto simp: bit_simps fun_eq_iff)
  then show ?thesis using k by (simp only: ffs_def filter_eq_upt) simp
qed

lemma unat_pow2:
  assumes "k < LENGTH('a)"
  shows "unat (2 ^ k :: 'a::len word) = 2 ^ k"
proof -
  have "unat (of_nat (2 ^ k) :: 'a word) = 2 ^ k mod 2 ^ LENGTH('a)" by (rule unat_of_nat)
  also have "\<dots> = 2 ^ k" using assms by (intro mod_less power_strict_increasing) simp_all
  finally show ?thesis by simp
qed

lemma shift_ffs: "k < 32 \<Longrightarrow> unat (of_nat (Suc k) - 1 :: u16) = k"
  by (simp add: unat_of_nat)

section \<open>Error numbers\<close>

text \<open>The values of the kernel's \<open>errno\<close> constants; a C \<open>int\<close> result is an \<open>int\<close>.\<close>

abbreviation (input) EIO :: int where "EIO \<equiv> 5"
abbreviation (input) ENOMEM :: int where "ENOMEM \<equiv> 12"
abbreviation (input) EINVAL :: int where "EINVAL \<equiv> 22"
abbreviation (input) ENODEV :: int where "ENODEV \<equiv> 19"
abbreviation (input) EROFS :: int where "EROFS \<equiv> 30"
abbreviation (input) EBADMSG :: int where "EBADMSG \<equiv> 74"
abbreviation (input) EUCLEAN :: int where "EUCLEAN \<equiv> 117"
abbreviation (input) ENOTSUPP :: int where "ENOTSUPP \<equiv> 524"

section \<open>Runs that may not return\<close>

definition wp :: "'a option \<Rightarrow> ('a \<Rightarrow> bool) \<Rightarrow> bool" where
  "wp m Q = (case m of None \<Rightarrow> False | Some x \<Rightarrow> Q x)"

lemma wp_Some [simp]: "wp (Some x) Q = Q x"
  by (simp add: wp_def)

lemma wp_None [simp]: "wp None Q = False"
  by (simp add: wp_def)

lemma wp_bind [simp]: "wp (Option.bind m f) Q = wp m (\<lambda>x. wp (f x) Q)"
  by (cases m) simp_all

lemma wp_mono: "wp m P \<Longrightarrow> (\<And>x. P x \<Longrightarrow> Q x) \<Longrightarrow> wp m Q"
  by (cases m) simp_all

lemma wp_conj: "wp m P \<Longrightarrow> wp m Q \<Longrightarrow> wp m (\<lambda>x. P x \<and> Q x)"
  by (cases m) simp_all

lemma wp_iff: "wp m Q \<longleftrightarrow> (\<exists>x. m = Some x \<and> Q x)"
  by (cases m) simp_all

lemma wp_if [simp]: "wp (if b then m else n) Q = (if b then wp m Q else wp n Q)"
  by simp

lemma wp_prod [simp]: "wp (case x of (a, b) \<Rightarrow> f a b) Q = (case x of (a, b) \<Rightarrow> wp (f a b) Q)"
  by (cases x) simp

lemma wp_option [simp]:
  "wp (case x of None \<Rightarrow> m | Some y \<Rightarrow> f y) Q = (case x of None \<Rightarrow> wp m Q | Some y \<Rightarrow> wp (f y) Q)"
  by (cases x) simp_all

lemma wp_pair: "wp m (\<lambda>(x, n). Q x n) \<Longrightarrow> (\<And>x n. Q x n \<Longrightarrow> R x n) \<Longrightarrow> wp m (\<lambda>(x, n). R x n)"
  by (cases m) auto

section \<open>Buffers\<close>

text \<open>\<open>memcpy (buf + off, src, length src)\<close> and \<open>memset (buf + off, c, n)\<close>.\<close>

definition memcpy_at :: "u8 list \<Rightarrow> nat \<Rightarrow> u8 list \<Rightarrow> u8 list" where
  "memcpy_at buf off src = take off buf @ src @ drop (off + length src) buf"

definition memset_at :: "u8 list \<Rightarrow> nat \<Rightarrow> u8 \<Rightarrow> nat \<Rightarrow> u8 list" where
  "memset_at buf off c n = memcpy_at buf off (replicate n c)"

text \<open>The bytes \<open>buf[off .. off + n)\<close>.\<close>

definition slice :: "nat \<Rightarrow> nat \<Rightarrow> 'a list \<Rightarrow> 'a list" where
  "slice off n buf = take n (drop off buf)"

lemma length_memcpy_at [simp]:
  "off + length src \<le> length buf \<Longrightarrow> length (memcpy_at buf off src) = length buf"
  by (simp add: memcpy_at_def)

lemma length_memset_at [simp]:
  "off + n \<le> length buf \<Longrightarrow> length (memset_at buf off c n) = length buf"
  by (simp add: memset_at_def)

lemma length_slice [simp]: "off + n \<le> length buf \<Longrightarrow> length (slice off n buf) = n"
  by (simp add: slice_def)

lemma slice_memcpy_same:
  "off + length src \<le> length buf \<Longrightarrow> slice off (length src) (memcpy_at buf off src) = src"
  by (simp add: slice_def memcpy_at_def)

lemma slice_memcpy_before:
  "o' + n \<le> off \<Longrightarrow> off + length src \<le> length buf \<Longrightarrow>
   slice o' n (memcpy_at buf off src) = slice o' n buf"
  by (simp add: slice_def memcpy_at_def drop_take)

lemma slice_memcpy_after:
  "off + length src \<le> o' \<Longrightarrow> off + length src \<le> length buf \<Longrightarrow>
   slice o' n (memcpy_at buf off src) = slice o' n buf"
  by (simp add: slice_def memcpy_at_def)

section \<open>Little endian integers in memory\<close>

definition le32 :: "u32 \<Rightarrow> u8 list" where
  "le32 w = [ucast w, ucast (drop_bit 8 w), ucast (drop_bit 16 w), ucast (drop_bit 24 w)]"

definition le64 :: "u64 \<Rightarrow> u8 list" where
  "le64 w = le32 (ucast w) @ le32 (ucast (drop_bit 32 w))"

text \<open>Reading an integer at an offset; past the end of the list the byte is unspecified, as a
  C read past the end of an object is.\<close>

definition get_le32 :: "u8 list \<Rightarrow> nat \<Rightarrow> u32" where
  "get_le32 b off = ucast (b ! off) OR push_bit 8 (ucast (b ! (off + 1)))
     OR push_bit 16 (ucast (b ! (off + 2))) OR push_bit 24 (ucast (b ! (off + 3)))"

definition get_le64 :: "u8 list \<Rightarrow> nat \<Rightarrow> u64" where
  "get_le64 b off = ucast (get_le32 b off) OR push_bit 32 (ucast (get_le32 b (off + 4)))"

definition put_le32 :: "u8 list \<Rightarrow> nat \<Rightarrow> u32 \<Rightarrow> u8 list" where
  "put_le32 b off w = memcpy_at b off (le32 w)"

lemma length_le32 [simp]: "length (le32 w) = 4"
  by (simp add: le32_def)

lemma length_le64 [simp]: "length (le64 w) = 8"
  by (simp add: le64_def)

lemma length_put_le32 [simp]: "off + 4 \<le> length b \<Longrightarrow> length (put_le32 b off w) = length b"
  by (simp add: put_le32_def)

text \<open>An array of 32-bit integers and its bytes.\<close>

definition le32_array :: "u32 list \<Rightarrow> u8 list" where
  "le32_array ws = concat (map le32 ws)"

definition get_le32_array :: "u8 list \<Rightarrow> nat \<Rightarrow> nat \<Rightarrow> u32 list" where
  "get_le32_array b off n = map (\<lambda>i. get_le32 b (off + 4 * i)) [0..<n]"

lemma length_le32_array [simp]: "length (le32_array ws) = 4 * length ws"
  by (induction ws) (simp_all add: le32_array_def)

lemma length_get_le32_array [simp]: "length (get_le32_array b off n) = n"
  by (simp add: get_le32_array_def)

lemma le32_nth: "le32 w ! 0 = ucast w" "le32 w ! 1 = ucast (drop_bit 8 w)"
  "le32 w ! 2 = ucast (drop_bit 16 w)" "le32 w ! 3 = ucast (drop_bit 24 w)"
  by (simp_all add: le32_def)

lemma le32_bytes:
  "ucast (ucast w :: u8) OR push_bit 8 (ucast (ucast (drop_bit 8 w) :: u8))
     OR push_bit 16 (ucast (ucast (drop_bit 16 w) :: u8)) OR push_bit 24 (ucast (ucast (drop_bit 24 w) :: u8)) = (w :: u32)"
proof (rule bit_word_eqI)
  fix i assume "i < LENGTH(32)"
  then consider "i < 8" | "8 \<le> i" "i < 16" | "16 \<le> i" "i < 24" | "24 \<le> i" "i < 32" by fastforce
  then show "bit (ucast (ucast w :: u8) OR push_bit 8 (ucast (ucast (drop_bit 8 w) :: u8))
     OR push_bit 16 (ucast (ucast (drop_bit 16 w) :: u8)) OR push_bit 24 (ucast (ucast (drop_bit 24 w) :: u8)) :: u32) i
     = bit (w :: u32) i"
    by cases (auto simp: bit_simps)
qed

text \<open>The integer stored at \<open>off\<close>.\<close>

lemma get_le32_slice: "off + 4 \<le> length b \<Longrightarrow> slice off 4 b = le32 w \<Longrightarrow> get_le32 b off = w"
proof -
  assume len: "off + 4 \<le> length b" and s: "slice off 4 b = le32 w"
  have "b ! (off + i) = le32 w ! i" if "i < 4" for i
    using that len by (simp flip: s add: slice_def)
  from this [of 0] this [of 1] this [of 2] this [of 3] show ?thesis
    by (simp add: get_le32_def le32_nth le32_nth(2) [simplified] le32_bytes)
qed

lemma get_le32_append: "length a = off \<Longrightarrow> get_le32 (a @ le32 w @ c) off = w"
  by (rule get_le32_slice) (simp_all add: slice_def)

lemma get_le64_append: "length a = off \<Longrightarrow> get_le64 (a @ le64 w @ c) off = w"
proof -
  assume l: "length a = off"
  have "get_le32 (a @ le64 w @ c) off = ucast w"
    using get_le32_append [OF l, of "ucast w" "le32 (ucast (drop_bit 32 w)) @ c"] by (simp add: le64_def)
  moreover have "get_le32 (a @ le64 w @ c) (off + 4) = ucast (drop_bit 32 w)"
    using get_le32_append [of "a @ le32 (ucast w)" "off + 4" "ucast (drop_bit 32 w)" c] l by (simp add: le64_def)
  moreover have "ucast (ucast w :: u32) OR push_bit 32 (ucast (ucast (drop_bit 32 w) :: u32)) = w"
  proof (rule bit_word_eqI)
    fix i assume "i < LENGTH(64)"
    then consider "i < 32" | "32 \<le> i" "i < 64" by fastforce
    then show "bit (ucast (ucast w :: u32) OR push_bit 32 (ucast (ucast (drop_bit 32 w) :: u32)) :: u64) i = bit w i"
      by cases (auto simp: bit_simps)
  qed
  ultimately show ?thesis by (simp add: get_le64_def)
qed

lemma slice_all: "length xs = n \<Longrightarrow> slice off n (a @ xs @ c) = xs" if "length a = off"
  using that by (simp add: slice_def)

lemma nth_le32_array:
  "i < length ws \<Longrightarrow> slice (4 * i) 4 (le32_array ws) = le32 (ws ! i)"
proof (induction ws arbitrary: i)
  case (Cons w ws)
  then show ?case
    by (cases i) (auto simp: le32_array_def slice_def)
qed simp

lemma get_le32_array_of:
  assumes "length ws = n" "slice off (4 * n) b = le32_array ws" "off + 4 * n \<le> length b"
  shows "get_le32_array b off n = ws"
proof (rule nth_equalityI)
  show "length (get_le32_array b off n) = length ws" using assms(1) by simp
next
  fix i assume "i < length (get_le32_array b off n)"
  then have i: "i < n" by simp
  then have "4 * i + 4 \<le> 4 * n" by simp
  then have "slice (off + 4 * i) 4 b = slice (4 * i) 4 (slice off (4 * n) b)"
    by (simp add: slice_def drop_take min_def add.commute)
  then have "get_le32 b (off + 4 * i) = ws ! i"
    using i assms nth_le32_array [of i ws] by (intro get_le32_slice) simp_all
  then show "get_le32_array b off n ! i = ws ! i" using i by (simp add: get_le32_array_def)
qed


section \<open>Contracts\<close>

text \<open>An invariant and a relation every operation keeps to: composing operations that may not return.\<close>

locale contract =
  fixes inv :: "'s \<Rightarrow> bool" and rel :: "'s \<Rightarrow> 's \<Rightarrow> bool"
  assumes rel_refl: "inv s \<Longrightarrow> rel s s"
    and rel_trans: "rel s t \<Longrightarrow> rel t u \<Longrightarrow> rel s u"
    and rel_inv: "rel s t \<Longrightarrow> inv t"
begin

lemma seq:
  assumes "wp m (\<lambda>(x, t). rel s t)" and "\<And>x t. inv t \<Longrightarrow> wp (f x t) (\<lambda>(y, u). rel t u)"
  shows "wp (Option.bind m (\<lambda>(x, t). f x t)) (\<lambda>(y, u). rel s u)"
proof -
  have "wp m (\<lambda>(x, t). wp (f x t) (\<lambda>(y, u). rel s u))"
    by (rule wp_pair [OF assms(1)], rule wp_pair [OF assms(2)]) (auto intro: rel_inv rel_trans)
  then show ?thesis by (simp add: case_prod_unfold)
qed

lemma steps:
  assumes step: "\<And>a b. inv a \<Longrightarrow> step a b \<Longrightarrow> rel a b" and "inv s" "step\<^sup>*\<^sup>* s t"
  shows "rel s t"
  using assms(3,2) by (induction rule: rtranclp_induct) (auto intro: rel_refl rel_trans rel_inv step)

lemma steps_inv: "(\<And>a b. inv a \<Longrightarrow> step a b \<Longrightarrow> rel a b) \<Longrightarrow> inv s \<Longrightarrow> step\<^sup>*\<^sup>* s t \<Longrightarrow> inv t"
  by (rule rel_inv [OF steps])

end

end
