(* ===== verification/Nmbm_Types.thy ===== *)
theory Nmbm_Types
  imports Nmbm_Prelude
begin

text \<open>
  The data of \<open>nmbm-private.h\<close> and \<open>nmbm.h\<close>: the on-flash headers, the interface to the lower
  NAND device (its function pointers are parameters of the model: the functions of a
  \<open>nmbm_lower_device\<close> value act on the state behind \<open>arg\<close>, whose type \<open>'d\<close> is free) and the
  instance, with the address conversions every part uses.
\<close>

section \<open>Constants\<close>

definition NMBM_MAGIC_SIGNATURE :: u32 where "NMBM_MAGIC_SIGNATURE = 0x304d4d4e"
definition NMBM_MAGIC_INFO_TABLE :: u32 where "NMBM_MAGIC_INFO_TABLE = 0x314d4d4e"

definition NMBM_VERSION_MAKE :: "u32 \<Rightarrow> u32 \<Rightarrow> u32" where
  "NMBM_VERSION_MAKE major minor = (major AND 0xffff) OR push_bit 16 (minor AND 0xffff)"

definition NMBM_VERSION_MAJOR_GET :: "u32 \<Rightarrow> u32" where
  "NMBM_VERSION_MAJOR_GET ver = drop_bit 0 ver AND 0xffff"

definition NMBM_VERSION_MINOR_GET :: "u32 \<Rightarrow> u32" where
  "NMBM_VERSION_MINOR_GET ver = drop_bit 16 ver AND 0xffff"

definition NMBM_VER :: u32 where "NMBM_VER = NMBM_VERSION_MAKE 1 0"

definition NMBM_ALIGN :: "u32 \<Rightarrow> u32 \<Rightarrow> u32" where
  "NMBM_ALIGN v a = (v + a - 1) AND NOT (a - 1)"

abbreviation (input) NMBM_BITMAP_BLOCKS_PER_UNIT :: u32 where "NMBM_BITMAP_BLOCKS_PER_UNIT \<equiv> 16"
abbreviation (input) NMBM_BITMAP_BITS_PER_BLOCK :: u32 where "NMBM_BITMAP_BITS_PER_BLOCK \<equiv> 2"
abbreviation (input) NMBM_BITMAP_UNIT_SIZE :: u32 where "NMBM_BITMAP_UNIT_SIZE \<equiv> 4"

abbreviation (input) NMBM_SPARE_BLOCK_MULTI :: u32 where "NMBM_SPARE_BLOCK_MULTI \<equiv> 1"
abbreviation (input) NMBM_SPARE_BLOCK_DIV :: u32 where "NMBM_SPARE_BLOCK_DIV \<equiv> 2"
abbreviation (input) NMBM_SPARE_BLOCK_MIN :: u32 where "NMBM_SPARE_BLOCK_MIN \<equiv> 2"
abbreviation (input) NMBM_MGMT_DIV :: u32 where "NMBM_MGMT_DIV \<equiv> 16"
abbreviation (input) NMBM_MGMT_BLOCKS_MIN :: u32 where "NMBM_MGMT_BLOCKS_MIN \<equiv> 32"
abbreviation (input) NMBM_TRY_COUNT :: nat where "NMBM_TRY_COUNT \<equiv> 3"

abbreviation (input) BLOCK_ST_BAD :: u32 where "BLOCK_ST_BAD \<equiv> 0"
abbreviation (input) BLOCK_ST_NEED_REMAP :: u32 where "BLOCK_ST_NEED_REMAP \<equiv> 2"
abbreviation (input) BLOCK_ST_GOOD :: u32 where "BLOCK_ST_GOOD \<equiv> 3"
abbreviation (input) BLOCK_ST_MASK :: u32 where "BLOCK_ST_MASK \<equiv> 3"

abbreviation (input) NMBM_F_CREATE :: u32 where "NMBM_F_CREATE \<equiv> 1"
abbreviation (input) NMBM_F_EMPTY_PAGE_ECC_OK :: u32 where "NMBM_F_EMPTY_PAGE_ECC_OK \<equiv> 2"
abbreviation (input) NMBM_F_READ_ONLY :: u32 where "NMBM_F_READ_ONLY \<equiv> 4"

section \<open>Log levels and OOB modes\<close>

datatype nmbm_log_category =
  NMBM_LOG_DEBUG | NMBM_LOG_INFO | NMBM_LOG_WARN | NMBM_LOG_ERR | NMBM_LOG_EMERG | NMBM_LOG_MAX

text \<open>The enumeration is ordered by its C values; a message is shown when its level is not below
  the display level.\<close>

primrec log_value :: "nmbm_log_category \<Rightarrow> nat" where
  "log_value NMBM_LOG_DEBUG = 0"
| "log_value NMBM_LOG_INFO = 1"
| "log_value NMBM_LOG_WARN = 2"
| "log_value NMBM_LOG_ERR = 3"
| "log_value NMBM_LOG_EMERG = 4"
| "log_value NMBM_LOG_MAX = 5"

lemma log_value_inject [simp]: "log_value a = log_value b \<longleftrightarrow> a = b"
  by (cases a; cases b) simp_all

instantiation nmbm_log_category :: linorder
begin

definition less_eq_nmbm_log_category where
  "a \<le> b \<longleftrightarrow> log_value a \<le> log_value b"

definition less_nmbm_log_category where
  "a < b \<longleftrightarrow> log_value a < log_value b"

instance
  by standard (auto simp: less_eq_nmbm_log_category_def less_nmbm_log_category_def
      intro: log_value_inject [THEN iffD1])

end

datatype nmbm_oob_mode = NMBM_MODE_PLACE_OOB | NMBM_MODE_AUTO_OOB | NMBM_MODE_RAW

section \<open>On-flash structures\<close>

record nmbm_header =
  magic :: u32
  version :: u32
  hdr_size :: u32
  checksum :: u32

text \<open>The last field holds the three declared padding bytes and the four bytes with which the
  compiler pads the structure to its eight byte alignment: the code copies, checksums and writes
  them with the rest.\<close>

record nmbm_signature =
  sig_header :: nmbm_header
  nand_size :: u64
  block_size :: u32
  page_size :: u32
  spare_size :: u32
  mgmt_start_pb :: u32
  max_try_count :: u8
  sig_padding :: "u8 list"

record nmbm_info_table_header =
  ift_header :: nmbm_header
  write_count :: u32
  state_table_off :: u32
  mapping_table_off :: u32
  ift_padding :: u32

abbreviation (input) sizeof_header :: nat where "sizeof_header \<equiv> 16"
abbreviation (input) sizeof_signature :: nat where "sizeof_signature \<equiv> 48"
abbreviation (input) sizeof_info_table_header :: nat where "sizeof_info_table_header \<equiv> 32"

definition encode_header :: "nmbm_header \<Rightarrow> u8 list" where
  "encode_header h = le32 (magic h) @ le32 (version h) @ le32 (hdr_size h) @ le32 (checksum h)"

definition decode_header :: "u8 list \<Rightarrow> nmbm_header" where
  "decode_header b = \<lparr>magic = get_le32 b 0, version = get_le32 b 4,
     hdr_size = get_le32 b 8, checksum = get_le32 b 12\<rparr>"

definition encode_signature :: "nmbm_signature \<Rightarrow> u8 list" where
  "encode_signature s = encode_header (sig_header s) @ le64 (nand_size s) @ le32 (block_size s)
     @ le32 (page_size s) @ le32 (spare_size s) @ le32 (mgmt_start_pb s)
     @ [max_try_count s] @ sig_padding s"

definition decode_signature :: "u8 list \<Rightarrow> nmbm_signature" where
  "decode_signature b = \<lparr>sig_header = decode_header b, nand_size = get_le64 b 16,
     block_size = get_le32 b 24, page_size = get_le32 b 28, spare_size = get_le32 b 32,
     mgmt_start_pb = get_le32 b 36, max_try_count = b ! 40, sig_padding = slice 41 7 b\<rparr>"

definition encode_info_table_header :: "nmbm_info_table_header \<Rightarrow> u8 list" where
  "encode_info_table_header t = encode_header (ift_header t) @ le32 (write_count t)
     @ le32 (state_table_off t) @ le32 (mapping_table_off t) @ le32 (ift_padding t)"

definition decode_info_table_header :: "u8 list \<Rightarrow> nmbm_info_table_header" where
  "decode_info_table_header b = \<lparr>ift_header = decode_header b, write_count = get_le32 b 16,
     state_table_off = get_le32 b 20, mapping_table_off = get_le32 b 24,
     ift_padding = get_le32 b 28\<rparr>"

section \<open>The lower device\<close>

text \<open>
  A pointer that may be \<open>NULL\<close> is an \<open>option\<close>. \<open>read_page\<close> takes the contents of the two
  buffers and gives their contents after the call, so that what a failing read leaves there is
  up to the device. \<open>reset_chip\<close> has an \<open>int\<close> result that no caller looks at. Log output is not
  modelled: \<open>logprint\<close> only says whether there is a printing function.
\<close>

record 'd nmbm_lower_device =
  max_ratio :: u32
  max_reserved_blocks :: u32
  flags :: u32
  lsize :: u64
  erasesize :: u32
  writesize :: u32
  oobsize :: u32
  oobavail :: u32
  arg :: 'd
  reset_chip :: "('d \<Rightarrow> 'd) option"
  read_page :: "('d \<Rightarrow> u64 \<Rightarrow> u8 list option \<Rightarrow> u8 list option \<Rightarrow> nmbm_oob_mode \<Rightarrow>
     int \<times> u8 list option \<times> u8 list option \<times> 'd) option"
  write_page :: "('d \<Rightarrow> u64 \<Rightarrow> u8 list option \<Rightarrow> u8 list option \<Rightarrow> nmbm_oob_mode \<Rightarrow> int \<times> 'd) option"
  panic_write_page :: "('d \<Rightarrow> u64 \<Rightarrow> u8 list option \<Rightarrow> int \<times> 'd) option"
  erase_block :: "('d \<Rightarrow> u64 \<Rightarrow> int \<times> 'd) option"
  is_bad_block :: "('d \<Rightarrow> u64 \<Rightarrow> int \<times> 'd) option"
  mark_bad_block :: "('d \<Rightarrow> u64 \<Rightarrow> int \<times> 'd) option"
  logprint :: bool

section \<open>The instance\<close>

text \<open>
  The buffers and tables the C structure points to are lists. \<open>block_mapping\<close> holds \<open>int32_t\<close>
  values: they are kept as 32-bit words and read with \<open>sint\<close> where the code compares them as
  signed, so \<open>-1\<close> is the word \<open>-1\<close>.
\<close>

record 'd nmbm_instance =
  lower :: "'d nmbm_lower_device"
  rawpage_size :: u32
  rawblock_size :: u32
  rawchip_size :: u32
  writesize_mask :: u32
  erasesize_mask :: u32
  writesize_shift :: u16
  erasesize_shift :: u16
  signature :: nmbm_signature
  info_table_cache :: "u8 list"
  info_table_size :: u32
  info_table_spare_blocks :: u32
  info_table :: nmbm_info_table_header
  block_state :: "u32 list"
  block_state_changed :: u32
  state_table_size :: u32
  block_mapping :: "u32 list"
  block_mapping_changed :: u32
  mapping_table_size :: u32
  page_cache :: "u8 list"
  protected :: int
  block_count :: u32
  data_block_count :: u32
  mgmt_start_ba :: u32
  main_table_ba :: u32
  backup_table_ba :: u32
  mapping_blocks_ba :: u32
  mapping_blocks_top_ba :: u32
  signature_ba :: u32
  log_display_level :: nmbm_log_category

text \<open>The state behind \<open>lower.arg\<close>.\<close>

definition chip :: "'d nmbm_instance \<Rightarrow> 'd" where
  "chip ni = arg (lower ni)"

definition set_chip :: "'d \<Rightarrow> 'd nmbm_instance \<Rightarrow> 'd nmbm_instance" where
  "set_chip d ni = ni\<lparr>lower := (lower ni)\<lparr>arg := d\<rparr>\<rparr>"

text \<open>Tests of a flag of \<open>lower.flags\<close>.\<close>

definition has_flag :: "'d nmbm_instance \<Rightarrow> u32 \<Rightarrow> bool" where
  "has_flag ni f = (flags (lower ni) AND f \<noteq> 0)"

section \<open>Logging\<close>

text \<open>Whether \<open>nmbm_log\<close> calls the printing function.\<close>

definition nmbm_log :: "'d nmbm_instance \<Rightarrow> nmbm_log_category \<Rightarrow> bool" where
  "nmbm_log ni level = (\<not> (\<not> logprint (lower ni) \<or> level < log_display_level ni))"

definition nmbm_set_log_level ::
  "'d nmbm_instance \<Rightarrow> nmbm_log_category \<Rightarrow> nmbm_log_category \<times> 'd nmbm_instance" where
  "nmbm_set_log_level ni level = (log_display_level ni, ni\<lparr>log_display_level := level\<rparr>)"

section \<open>Address conversion\<close>

definition addr2ba :: "'d nmbm_instance \<Rightarrow> u64 \<Rightarrow> u32" where
  "addr2ba ni addr = ucast (drop_bit (unat (erasesize_shift ni)) addr)"

definition ba2addr :: "'d nmbm_instance \<Rightarrow> u32 \<Rightarrow> u64" where
  "ba2addr ni ba = push_bit (unat (erasesize_shift ni)) (ucast ba)"

definition size2blk :: "'d nmbm_instance \<Rightarrow> u64 \<Rightarrow> u32" where
  "size2blk ni sz = ucast (drop_bit (unat (erasesize_shift ni))
     (sz + ucast (erasesize (lower ni)) - 1))"

section \<open>Encoding and decoding\<close>

lemma length_encode [simp]:
  "length (encode_header h) = 16" "length (encode_info_table_header t) = 32"
  "length (sig_padding s) = 7 \<Longrightarrow> length (encode_signature s) = 48"
  by (simp_all add: encode_header_def encode_info_table_header_def encode_signature_def)

lemma decode_encode_header: "decode_header (encode_header h @ c) = h"
  using get_le32_append [of "[]" 0] get_le32_append [of "le32 (magic h)" 4]
    get_le32_append [of "le32 (magic h) @ le32 (version h)" 8]
    get_le32_append [of "le32 (magic h) @ le32 (version h) @ le32 (hdr_size h)" 12]
  by (simp add: decode_header_def encode_header_def)

lemma decode_encode_info_table_header:
  "decode_info_table_header (encode_info_table_header t @ c) = t"
proof -
  let ?h = "encode_header (ift_header t)"
  have "decode_header (encode_info_table_header t @ c) = ift_header t"
    using decode_encode_header [of "ift_header t"] by (simp add: encode_info_table_header_def)
  then show ?thesis
    using get_le32_append [of ?h 16] get_le32_append [of "?h @ le32 (write_count t)" 20]
      get_le32_append [of "?h @ le32 (write_count t) @ le32 (state_table_off t)" 24]
      get_le32_append [of "?h @ le32 (write_count t) @ le32 (state_table_off t) @ le32 (mapping_table_off t)" 28]
    by (simp add: decode_info_table_header_def encode_info_table_header_def)
qed

lemma decode_encode_signature:
  assumes "length (sig_padding s) = 7"
  shows "decode_signature (encode_signature s @ c) = s"
proof -
  let ?h = "encode_header (sig_header s)"
  let ?a = "?h @ le64 (nand_size s)"
  let ?b = "?a @ le32 (block_size s) @ le32 (page_size s) @ le32 (spare_size s)"
  have e: "encode_signature s @ c = ?h @ le64 (nand_size s) @ le32 (block_size s) @ le32 (page_size s)
      @ le32 (spare_size s) @ le32 (mgmt_start_pb s) @ [max_try_count s] @ sig_padding s @ c"
    by (simp add: encode_signature_def)
  have "decode_header (encode_signature s @ c) = sig_header s"
    using decode_encode_header [of "sig_header s"] by (simp add: encode_signature_def)
  moreover have "get_le64 (encode_signature s @ c) 16 = nand_size s" unfolding e by (rule get_le64_append) simp
  moreover have "get_le32 (encode_signature s @ c) 24 = block_size s"
    unfolding e using get_le32_append [of ?a 24] by simp
  moreover have "get_le32 (encode_signature s @ c) 28 = page_size s"
    unfolding e using get_le32_append [of "?a @ le32 (block_size s)" 28] by simp
  moreover have "get_le32 (encode_signature s @ c) 32 = spare_size s"
    unfolding e using get_le32_append [of "?a @ le32 (block_size s) @ le32 (page_size s)" 32] by simp
  moreover have "get_le32 (encode_signature s @ c) 36 = mgmt_start_pb s"
    unfolding e using get_le32_append [of ?b 36] by simp
  moreover have "(encode_signature s @ c) ! 40 = max_try_count s"
    unfolding e using nth_append_length [of "?b @ le32 (mgmt_start_pb s)"] by simp
  moreover have "slice 41 7 (encode_signature s @ c) = sig_padding s"
    unfolding e using slice_all [of "?b @ le32 (mgmt_start_pb s) @ [max_try_count s]" 41 "sig_padding s" 7 c] assms by simp
  ultimately show ?thesis by (simp add: decode_signature_def)
qed

end
