(* ===== verification/Nmbm_Chip.thy ===== *)
theory Nmbm_Chip
  imports Nmbm_Types
begin

text \<open>
  The ``High level NAND chip APIs'' of \<open>nmbm-core.c\<close>: every access to the lower device, with its
  retries. All of them change the state behind \<open>lower.arg\<close>, and some the scratch page
  \<open>page_cache\<close> (the main data first, the OOB data from \<open>writesize\<close> on).
\<close>

section \<open>Operations\<close>

definition nmbm_reset_chip :: "'d nmbm_instance \<Rightarrow> 'd nmbm_instance" where
  "nmbm_reset_chip ni =
     (case reset_chip (lower ni) of None \<Rightarrow> ni | Some f \<Rightarrow> set_chip (f (chip ni)) ni)"

text \<open>One call of a function pointer.\<close>

definition lower_read_page ::
  "'d nmbm_instance \<Rightarrow> u64 \<Rightarrow> u8 list option \<Rightarrow> u8 list option \<Rightarrow> nmbm_oob_mode \<Rightarrow>
   int \<times> u8 list option \<times> u8 list option \<times> 'd nmbm_instance" where
  "lower_read_page ni addr data oob mode =
     (let (ret, data', oob', d) = the (read_page (lower ni)) (chip ni) addr data oob mode
      in (ret, data', oob', set_chip d ni))"

definition lower_write_page ::
  "u64 \<Rightarrow> u8 list option \<Rightarrow> u8 list option \<Rightarrow> nmbm_oob_mode \<Rightarrow> 'd nmbm_instance \<Rightarrow>
   int \<times> 'd nmbm_instance" where
  "lower_write_page addr data oob mode ni =
     (let (ret, d) = the (write_page (lower ni)) (chip ni) addr data oob mode
      in (ret, set_chip d ni))"

definition lower_panic_write_page ::
  "u64 \<Rightarrow> u8 list option \<Rightarrow> 'd nmbm_instance \<Rightarrow> int \<times> 'd nmbm_instance" where
  "lower_panic_write_page addr data ni =
     (let (ret, d) = the (panic_write_page (lower ni)) (chip ni) addr data
      in (ret, set_chip d ni))"

definition lower_erase_block :: "u64 \<Rightarrow> 'd nmbm_instance \<Rightarrow> int \<times> 'd nmbm_instance" where
  "lower_erase_block addr ni =
     (let (ret, d) = the (erase_block (lower ni)) (chip ni) addr in (ret, set_chip d ni))"

text \<open>The read loop; \<open>n\<close> is the number of tries left after this one.\<close>

primrec read_page_tries ::
  "nat \<Rightarrow> 'd nmbm_instance \<Rightarrow> u64 \<Rightarrow> u8 list option \<Rightarrow> u8 list option \<Rightarrow> nmbm_oob_mode \<Rightarrow>
   int \<times> u8 list option \<times> u8 list option \<times> 'd nmbm_instance" where
  "read_page_tries 0 ni addr data oob mode =
     (let (ret, data, oob, ni) = lower_read_page ni addr data oob mode
      in if 0 \<le> ret then (ret, data, oob, ni) else (ret, data, oob, nmbm_reset_chip ni))"
| "read_page_tries (Suc n) ni addr data oob mode =
     (let (ret, data, oob, ni) = lower_read_page ni addr data oob mode
      in if 0 \<le> ret then (ret, data, oob, ni)
         else read_page_tries n (nmbm_reset_chip ni) addr data oob mode)"

definition nmbm_read_phys_page ::
  "'d nmbm_instance \<Rightarrow> u64 \<Rightarrow> u8 list option \<Rightarrow> u8 list option \<Rightarrow> nmbm_oob_mode \<Rightarrow>
   int \<times> u8 list option \<times> u8 list option \<times> 'd nmbm_instance" where
  "nmbm_read_phys_page ni addr data oob mode = read_page_tries (NMBM_TRY_COUNT - 1) ni addr data oob mode"

text \<open>The loop of the three operations that change the chip: they differ in the call only.\<close>

primrec retry_op ::
  "nat \<Rightarrow> ('d nmbm_instance \<Rightarrow> int \<times> 'd nmbm_instance) \<Rightarrow> 'd nmbm_instance \<Rightarrow> bool \<times> 'd nmbm_instance" where
  "retry_op 0 call ni =
     (let (ret, ni) = call ni in if ret = 0 then (True, ni) else (False, nmbm_reset_chip ni))"
| "retry_op (Suc n) call ni =
     (let (ret, ni) = call ni in if ret = 0 then (True, ni) else retry_op n call (nmbm_reset_chip ni))"

definition nmbm_write_phys_page ::
  "'d nmbm_instance \<Rightarrow> u64 \<Rightarrow> u8 list option \<Rightarrow> u8 list option \<Rightarrow> nmbm_oob_mode \<Rightarrow>
   bool \<times> 'd nmbm_instance" where
  "nmbm_write_phys_page ni addr data oob mode =
     (if has_flag ni NMBM_F_READ_ONLY then (False, ni)
      else retry_op (NMBM_TRY_COUNT - 1) (lower_write_page addr data oob mode) ni)"

definition nmbm_panic_write_phys_page ::
  "'d nmbm_instance \<Rightarrow> u64 \<Rightarrow> u8 list option \<Rightarrow> bool \<times> 'd nmbm_instance" where
  "nmbm_panic_write_phys_page ni addr data =
     (if has_flag ni NMBM_F_READ_ONLY then (False, ni)
      else retry_op (NMBM_TRY_COUNT - 1) (lower_panic_write_page addr data) ni)"

definition nmbm_erase_phys_block :: "'d nmbm_instance \<Rightarrow> u64 \<Rightarrow> bool \<times> 'd nmbm_instance" where
  "nmbm_erase_phys_block ni addr =
     (if has_flag ni NMBM_F_READ_ONLY then (False, ni)
      else retry_op (NMBM_TRY_COUNT - 1) (lower_erase_block addr) ni)"

text \<open>The two halves of the scratch page, and a read of main data into it.\<close>

definition cache_data :: "'d nmbm_instance \<Rightarrow> u8 list" where
  "cache_data ni = take (unat (writesize (lower ni))) (page_cache ni)"

definition cache_oob :: "'d nmbm_instance \<Rightarrow> u8 list" where
  "cache_oob ni = drop (unat (writesize (lower ni))) (page_cache ni)"

definition read_to_page_cache ::
  "'d nmbm_instance \<Rightarrow> u64 \<Rightarrow> nmbm_oob_mode \<Rightarrow> int \<times> 'd nmbm_instance" where
  "read_to_page_cache ni addr mode =
     (let (ret, data, _, ni) = nmbm_read_phys_page ni addr (Some (cache_data ni)) None mode
      in (ret, ni\<lparr>page_cache := memcpy_at (page_cache ni) 0 (the data)\<rparr>))"

definition nmbm_check_bad_phys_block :: "'d nmbm_instance \<Rightarrow> u32 \<Rightarrow> bool \<times> 'd nmbm_instance" where
  "nmbm_check_bad_phys_block ni ba =
     (let addr = ba2addr ni ba
      in case is_bad_block (lower ni) of
           Some f \<Rightarrow> (let (ret, d) = f (chip ni) addr in (ret \<noteq> 0, set_chip d ni))
         | None \<Rightarrow>
             (let (ret, _, oob, ni) = nmbm_read_phys_page ni addr None (Some (cache_oob ni)) NMBM_MODE_RAW;
                  ni = ni\<lparr>page_cache :=
                     memcpy_at (page_cache ni) (unat (writesize (lower ni))) (the oob)\<rparr>
              in if ret < 0 \<and> ret \<noteq> - EBADMSG then (True, ni)
                 else (page_cache ni ! unat (writesize (lower ni)) \<noteq> 0xff, ni)))"

text \<open>The loop that overwrites every page of the block, its results ignored; it does not end when
  \<open>writesize\<close> is zero.\<close>

partial_function (option) mark_bad_pages ::
  "'d nmbm_instance \<Rightarrow> u64 \<Rightarrow> u32 \<Rightarrow> 'd nmbm_instance option" where
  "mark_bad_pages ni addr off =
     (if off < erasesize (lower ni) then
        let (_, ni) = nmbm_write_phys_page ni (addr + ucast off) (Some (cache_data ni))
              (Some (cache_oob ni)) NMBM_MODE_RAW
        in mark_bad_pages ni addr (off + writesize (lower ni))
      else Some ni)"

text \<open>The result of \<open>return false\<close> in the read-only case is the \<open>int\<close> 0.\<close>

definition nmbm_mark_phys_bad_block ::
  "'d nmbm_instance \<Rightarrow> u32 \<Rightarrow> (int \<times> 'd nmbm_instance) option" where
  "nmbm_mark_phys_bad_block ni ba =
     (let addr = ba2addr ni ba
      in if has_flag ni NMBM_F_READ_ONLY then Some (0, ni)
         else case mark_bad_block (lower ni) of
           Some f \<Rightarrow> (let (ret, d) = f (chip ni) addr in Some (ret, set_chip d ni))
         | None \<Rightarrow>
             (let ni = ni\<lparr>page_cache := memset_at (page_cache ni) 0 0 (unat (rawpage_size ni))\<rparr>;
                  (level, ni) = nmbm_set_log_level ni NMBM_LOG_MAX
              in do {
                   ni \<leftarrow> mark_bad_pages ni addr 0;
                   Some (0, snd (nmbm_set_log_level ni level))
                 }))"

section \<open>What an operation may do to the chip\<close>

inductive lower_call :: "'d nmbm_lower_device \<Rightarrow> u64 set \<Rightarrow> 'd \<Rightarrow> 'd \<Rightarrow> bool"
  for L :: "'d nmbm_lower_device" and A :: "u64 set" where
  call_reset: "reset_chip L = Some f \<Longrightarrow> lower_call L A d (f d)"
| call_read: "the (read_page L) d a data oob mode = (ret, data', oob', d') \<Longrightarrow> lower_call L A d d'"
| call_is_bad: "is_bad_block L = Some f \<Longrightarrow> f d a = (ret, d') \<Longrightarrow> lower_call L A d d'"
| call_write: "a \<in> A \<Longrightarrow> the (write_page L) d a data oob mode = (ret, d') \<Longrightarrow> lower_call L A d d'"
| call_panic: "a \<in> A \<Longrightarrow> the (panic_write_page L) d a data = (ret, d') \<Longrightarrow> lower_call L A d d'"
| call_erase: "a \<in> A \<Longrightarrow> the (erase_block L) d a = (ret, d') \<Longrightarrow> lower_call L A d d'"
| call_mark: "mark_bad_block L = Some f \<Longrightarrow> a \<in> A \<Longrightarrow> f d a = (ret, d') \<Longrightarrow> lower_call L A d d'"

lemma lower_call_arg [simp]: "lower_call (L\<lparr>arg := x\<rparr>) A d d' = lower_call L A d d'"
  by (auto elim!: lower_call.cases intro: lower_call.intros)

lemma lower_call_arg_fun [simp]: "lower_call (L\<lparr>arg := x\<rparr>) A = lower_call L A"
  by (intro ext) simp

lemma lower_call_mono: "lower_call L A d d' \<Longrightarrow> A \<subseteq> A' \<Longrightarrow> lower_call L A' d d'"
  by (induction rule: lower_call.induct) (auto intro: lower_call.intros)

lemma lower_calls_mono: "(lower_call L A)\<^sup>*\<^sup>* d d' \<Longrightarrow> A \<subseteq> A' \<Longrightarrow> (lower_call L A')\<^sup>*\<^sup>* d d'"
  by (metis (mono_tags, lifting) lower_call_mono mono_rtranclp)

definition chip_evolves :: "u64 set \<Rightarrow> 'd nmbm_instance \<Rightarrow> 'd nmbm_instance \<Rightarrow> bool" where
  "chip_evolves A ni ni' \<longleftrightarrow>
     (\<exists>d pc. ni' = (set_chip d ni)\<lparr>page_cache := pc\<rparr> \<and> (lower_call (lower ni) A)\<^sup>*\<^sup>* (chip ni) d)"

lemma set_chip_simps [simp]:
  "chip (set_chip d ni) = d" "set_chip d (set_chip e ni) = set_chip d ni"
  "set_chip (chip ni) ni = ni" "lower (set_chip d ni) = (lower ni)\<lparr>arg := d\<rparr>"
  "chip (ni\<lparr>page_cache := pc\<rparr>) = chip ni"
  "set_chip d (ni\<lparr>page_cache := pc\<rparr>) = (set_chip d ni)\<lparr>page_cache := pc\<rparr>"
  by (simp_all add: chip_def set_chip_def)

lemma chip_evolves_refl [intro!]: "chip_evolves A ni ni"
  unfolding chip_evolves_def by (rule exI [of _ "chip ni"], rule exI [of _ "page_cache ni"]) simp

lemma chip_evolves_trans [trans]:
  "chip_evolves A ni ni' \<Longrightarrow> chip_evolves A ni' ni'' \<Longrightarrow> chip_evolves A ni ni''"
proof -
  assume "chip_evolves A ni ni'" and "chip_evolves A ni' ni''"
  then obtain d pc e pc' where
    1: "ni' = (set_chip d ni)\<lparr>page_cache := pc\<rparr>" "(lower_call (lower ni) A)\<^sup>*\<^sup>* (chip ni) d" and
    2: "ni'' = (set_chip e ni')\<lparr>page_cache := pc'\<rparr>" "(lower_call (lower ni') A)\<^sup>*\<^sup>* (chip ni') e"
    unfolding chip_evolves_def by blast
  from 2(2) have "(lower_call (lower ni) A)\<^sup>*\<^sup>* d e" by (simp add: 1(1))
  with 1(2) have "(lower_call (lower ni) A)\<^sup>*\<^sup>* (chip ni) e" by (rule rtranclp_trans)
  moreover have "ni'' = (set_chip e ni)\<lparr>page_cache := pc'\<rparr>" by (simp add: 1(1) 2(1))
  ultimately show ?thesis unfolding chip_evolves_def by blast
qed

lemma chip_evolves_mono: "chip_evolves A ni ni' \<Longrightarrow> A \<subseteq> A' \<Longrightarrow> chip_evolves A' ni ni'"
  unfolding chip_evolves_def
  by (elim exE conjE, intro exI conjI, assumption, erule lower_calls_mono, assumption)

lemma chip_evolves_call:
  "lower_call (lower ni) A (chip ni) d \<Longrightarrow> chip_evolves A ni (set_chip d ni)"
  unfolding chip_evolves_def
  by (rule exI [of _ d], rule exI [of _ "page_cache ni"]) (auto simp: set_chip_def)

lemma chip_evolves_page_cache [intro!]: "chip_evolves A ni (ni\<lparr>page_cache := pc\<rparr>)"
  unfolding chip_evolves_def by (rule exI [of _ "chip ni"], rule exI [of _ pc]) simp

lemma reset_evolves: "chip_evolves A ni (nmbm_reset_chip ni)"
  by (auto simp: nmbm_reset_chip_def split: option.split intro!: chip_evolves_call call_reset)

lemma lower_read_evolves:
  "lower_read_page ni addr data oob mode = (ret, data', oob', ni') \<Longrightarrow> chip_evolves A ni ni'"
  by (auto simp: lower_read_page_def split: prod.splits intro!: chip_evolves_call intro: call_read)

lemma read_tries_evolves:
  "read_page_tries n ni addr data oob mode = (ret, data', oob', ni') \<Longrightarrow> chip_evolves A ni ni'"
proof (induction n arbitrary: ni data oob)
  case 0
  then show ?case
    by (auto split: prod.splits if_splits intro: chip_evolves_trans reset_evolves
        dest!: lower_read_evolves [where A = A])
next
  case (Suc n)
  obtain r x y nj where call: "lower_read_page ni addr data oob mode = (r, x, y, nj)"
    by (metis prod_cases4)
  show ?case
  proof (cases "0 \<le> r")
    case True
    with Suc.prems call show ?thesis by (auto intro: lower_read_evolves)
  next
    case False
    with Suc.prems call
    have "read_page_tries n (nmbm_reset_chip nj) addr x y mode = (ret, data', oob', ni')" by simp
    from Suc.IH [OF this] show ?thesis
      by (meson call chip_evolves_trans lower_read_evolves reset_evolves)
  qed
qed

lemma read_phys_evolves:
  "nmbm_read_phys_page ni addr data oob mode = (ret, data', oob', ni') \<Longrightarrow> chip_evolves A ni ni'"
  unfolding nmbm_read_phys_page_def by (rule read_tries_evolves)

lemma read_to_cache_evolves:
  "read_to_page_cache ni addr mode = (ret, ni') \<Longrightarrow> chip_evolves A ni ni'"
  by (auto simp: read_to_page_cache_def split: prod.splits
      intro: chip_evolves_trans dest!: read_phys_evolves [where A = A])

lemma retry_evolves:
  assumes call: "\<And>ni ret ni'. call ni = (ret, ni') \<Longrightarrow> chip_evolves A ni ni'"
    and run: "retry_op n call ni = (ok, ni')"
  shows "chip_evolves A ni ni'"
  using run
proof (induction n arbitrary: ni)
  case 0
  then show ?case
    by (auto split: prod.splits if_splits dest!: call intro: chip_evolves_trans reset_evolves)
next
  case (Suc n)
  obtain r nj where c: "call ni = (r, nj)" by fastforce
  show ?case
  proof (cases "r = 0")
    case True
    with Suc.prems c show ?thesis by (auto dest: call)
  next
    case False
    with Suc.prems c have "retry_op n call (nmbm_reset_chip nj) = (ok, ni')" by simp
    from Suc.IH [OF this] show ?thesis
      by (meson c call chip_evolves_trans reset_evolves)
  qed
qed

lemma write_phys_evolves:
  assumes "addr \<in> A" and "nmbm_write_phys_page ni addr data oob mode = (ok, ni')"
  shows "chip_evolves A ni ni'"
proof -
  have "chip_evolves A ni ni'" if "lower_write_page addr data oob mode ni = (r, ni')" for r and ni ni' :: "'a nmbm_instance"
    using that assms(1)
    by (auto simp: lower_write_page_def split: prod.splits intro!: chip_evolves_call intro: call_write)
  with assms(2) show ?thesis
    by (auto simp: nmbm_write_phys_page_def split: if_splits elim!: retry_evolves [rotated])
qed

lemma erase_phys_evolves:
  assumes "addr \<in> A" and "nmbm_erase_phys_block ni addr = (ok, ni')"
  shows "chip_evolves A ni ni'"
proof -
  have "chip_evolves A ni ni'" if "lower_erase_block addr ni = (r, ni')" for r and ni ni' :: "'a nmbm_instance"
    using that assms(1)
    by (auto simp: lower_erase_block_def split: prod.splits intro!: chip_evolves_call intro: call_erase)
  with assms(2) show ?thesis
    by (auto simp: nmbm_erase_phys_block_def split: if_splits elim!: retry_evolves [rotated])
qed

lemma panic_phys_evolves:
  assumes "addr \<in> A" and "nmbm_panic_write_phys_page ni addr data = (ok, ni')"
  shows "chip_evolves A ni ni'"
proof -
  have "chip_evolves A ni ni'" if "lower_panic_write_page addr data ni = (r, ni')" for r and ni ni' :: "'a nmbm_instance"
    using that assms(1)
    by (auto simp: lower_panic_write_page_def split: prod.splits intro!: chip_evolves_call intro: call_panic)
  with assms(2) show ?thesis
    by (auto simp: nmbm_panic_write_phys_page_def split: if_splits elim!: retry_evolves [rotated])
qed

lemma check_bad_evolves:
  "nmbm_check_bad_phys_block ni ba = (bad, ni') \<Longrightarrow> chip_evolves A ni ni'"
  by (auto simp: nmbm_check_bad_phys_block_def Let_def split: option.splits prod.splits if_splits
      intro!: chip_evolves_call intro: call_is_bad chip_evolves_trans dest!: read_phys_evolves [where A = A])

section \<open>Geometry and addresses\<close>

text \<open>What \<open>nmbm_init_structure\<close> sets up and the page loops rely on.\<close>

definition geom :: "'d nmbm_instance \<Rightarrow> bool" where
  "geom ni \<longleftrightarrow>
     (\<exists>k. unat (writesize (lower ni)) = 2 ^ k \<and> k \<le> unat (erasesize_shift ni)) \<and>
     unat (erasesize_shift ni) < 32 \<and>
     unat (erasesize (lower ni)) = 2 ^ unat (erasesize_shift ni) \<and>
     writesize_mask ni = writesize (lower ni) - 1 \<and>
     erasesize_mask ni = erasesize (lower ni) - 1 \<and>
     unat (block_count ni) \<le> 16 * length (block_state ni)"

definition in_blocks :: "'d nmbm_instance \<Rightarrow> u32 set \<Rightarrow> u64 set" where
  "in_blocks ni B = {a. \<exists>ba \<in> B. drop_bit (unat (erasesize_shift ni)) a = ucast ba}"

lemma in_blocks_mono: "B \<subseteq> C \<Longrightarrow> in_blocks ni B \<subseteq> in_blocks ni C"
  by (auto simp: in_blocks_def)

lemma unat_ba2addr:
  assumes "unat (erasesize_shift ni) < 32"
  shows "unat (ba2addr ni ba) = unat ba * 2 ^ unat (erasesize_shift ni)"
proof -
  have "(2::nat) ^ unat (erasesize_shift ni) < 2 ^ 32"
    using assms by (rule power_strict_increasing) simp
  moreover have "unat ba < 2 ^ 32" using unsigned_less [of ba] by simp
  ultimately have "unat ba * 2 ^ unat (erasesize_shift ni) < 2 ^ 32 * 2 ^ 32"
    by (intro mult_strict_mono) auto
  then show ?thesis
    unfolding ba2addr_def unsigned_push_bit_eq
    by (simp add: push_bit_eq_mult take_bit_nat_eq_self)
qed

lemma block_addr_in:
  assumes s: "unat (erasesize_shift ni) < 32" and ba: "ba \<in> B"
    and a: "unat a = unat (ba2addr ni ba) + off" and off: "off < 2 ^ unat (erasesize_shift ni)"
  shows "a \<in> in_blocks ni B"
proof -
  have "unat (drop_bit (unat (erasesize_shift ni)) a) = unat ba"
    using a off by (simp only: unat_drop_bit_eq unat_ba2addr [OF s]) (simp add: drop_bit_eq_div)
  then have "drop_bit (unat (erasesize_shift ni)) a = ucast ba"
    by (simp add: word_unat_eq_iff)
  with ba show ?thesis by (auto simp: in_blocks_def)
qed

end
