(* ===== verification/Nmbm_State_Table.thy ===== *)
theory Nmbm_State_Table
  imports Nmbm_Chip
begin

text \<open>
  The block state table, two bits per block in an array of 32-bit units, the walks over its good
  blocks and the two operations that fill the tables of a chip without management data:
  \<open>nmbm_scan_badblocks\<close> and \<open>nmbm_build_mapping_table\<close>.
\<close>

section \<open>Operations\<close>

definition nmbm_get_spare_block_count :: "u32 \<Rightarrow> u32" where
  "nmbm_get_spare_block_count bc =
     (let val = (bc + NMBM_SPARE_BLOCK_DIV div 2) div NMBM_SPARE_BLOCK_DIV;
          val = val * NMBM_SPARE_BLOCK_MULTI
      in if val < NMBM_SPARE_BLOCK_MIN then NMBM_SPARE_BLOCK_MIN else val)"

definition nmbm_get_block_state_raw :: "u32 list \<Rightarrow> u32 \<Rightarrow> u32" where
  "nmbm_get_block_state_raw bs ba =
     (let unit = ba div NMBM_BITMAP_BLOCKS_PER_UNIT;
          shift = (ba mod NMBM_BITMAP_BLOCKS_PER_UNIT) * NMBM_BITMAP_BITS_PER_BLOCK
      in drop_bit (unat shift) (bs ! unat unit) AND BLOCK_ST_MASK)"

definition nmbm_get_block_state :: "'d nmbm_instance \<Rightarrow> u32 \<Rightarrow> u32" where
  "nmbm_get_block_state ni ba = nmbm_get_block_state_raw (block_state ni) ba"

definition nmbm_set_block_state ::
  "'d nmbm_instance \<Rightarrow> u32 \<Rightarrow> u32 \<Rightarrow> bool \<times> 'd nmbm_instance" where
  "nmbm_set_block_state ni ba state =
     (let unit = ba div NMBM_BITMAP_BLOCKS_PER_UNIT;
          shift = (ba mod NMBM_BITMAP_BLOCKS_PER_UNIT) * NMBM_BITMAP_BITS_PER_BLOCK;
          orig = drop_bit (unat shift) (block_state ni ! unat unit) AND BLOCK_ST_MASK;
          state = state AND BLOCK_ST_MASK;
          uv = (block_state ni ! unat unit) AND NOT (push_bit (unat shift) BLOCK_ST_MASK);
          uv = uv OR push_bit (unat shift) state;
          ni = ni\<lparr>block_state := (block_state ni)[unat unit := uv]\<rparr>
      in if orig \<noteq> state then (True, ni\<lparr>block_state_changed := block_state_changed ni + 1\<rparr>)
         else (False, ni))"

text \<open>Callers that drop the result.\<close>

abbreviation set_block_state :: "'d nmbm_instance \<Rightarrow> u32 \<Rightarrow> u32 \<Rightarrow> 'd nmbm_instance" where
  "set_block_state ni ba st \<equiv> snd (nmbm_set_block_state ni ba st)"

text \<open>The loops of the two walks. \<open>nblock\<close> is the \<open>int32_t\<close> counter; it stops below zero, so it
  never leaves its range.\<close>

function walk_asc_loop :: "'d nmbm_instance \<Rightarrow> u32 \<Rightarrow> int \<Rightarrow> u32 \<Rightarrow> u32 option" where
  "walk_asc_loop ni ba nblock limit =
     (if ba < limit then
        let nblock = (if nmbm_get_block_state ni ba = BLOCK_ST_GOOD then nblock - 1 else nblock)
        in if nblock < 0 then Some ba else walk_asc_loop ni (ba + 1) nblock limit
      else None)"
  by pat_completeness auto
termination
  by (relation "measure (\<lambda>(ni, ba, nblock, limit). unat limit - unat ba)")
    (simp_all add: unat_up)

function walk_desc_loop :: "'d nmbm_instance \<Rightarrow> u32 \<Rightarrow> int \<Rightarrow> u32 \<Rightarrow> u32 option" where
  "walk_desc_loop ni ba nblock limit =
     (if limit < ba then
        let nblock = (if nmbm_get_block_state ni ba = BLOCK_ST_GOOD then nblock - 1 else nblock)
        in if nblock < 0 then Some ba else walk_desc_loop ni (ba - 1) nblock limit
      else None)"
  by pat_completeness auto
termination
  by (relation "measure (\<lambda>(ni, ba, nblock, limit). unat ba)") (simp_all add: unat_down)

declare walk_asc_loop.simps [simp del] walk_desc_loop.simps [simp del]

definition nmbm_block_walk_asc :: "'d nmbm_instance \<Rightarrow> u32 \<Rightarrow> u32 \<Rightarrow> u32 \<Rightarrow> u32 option" where
  "nmbm_block_walk_asc ni ba count limit =
     (let limit = (if block_count ni \<le> limit then block_count ni - 1 else limit)
      in walk_asc_loop ni ba (sint count) limit)"

definition nmbm_block_walk_desc :: "'d nmbm_instance \<Rightarrow> u32 \<Rightarrow> u32 \<Rightarrow> u32 \<Rightarrow> u32 option" where
  "nmbm_block_walk_desc ni ba count limit =
     (let limit = (if block_count ni \<le> limit then block_count ni - 1 else limit)
      in walk_desc_loop ni ba (sint count) limit)"

definition nmbm_block_walk :: "'d nmbm_instance \<Rightarrow> bool \<Rightarrow> u32 \<Rightarrow> u32 \<Rightarrow> u32 \<Rightarrow> u32 option" where
  "nmbm_block_walk ni ascending ba count limit =
     (if ascending then nmbm_block_walk_asc ni ba count limit
      else nmbm_block_walk_desc ni ba count limit)"

text \<open>The \<open>for\<close> loops over block addresses.\<close>

function scan_badblocks_loop :: "'d nmbm_instance \<Rightarrow> u32 \<Rightarrow> u32 \<Rightarrow> 'd nmbm_instance" where
  "scan_badblocks_loop ni ba bc =
     (if ba < bc then
        let (bad, ni) = nmbm_check_bad_phys_block ni ba;
            ni = (if bad then set_block_state ni ba BLOCK_ST_BAD else ni)
        in scan_badblocks_loop ni (ba + 1) bc
      else ni)"
  by pat_completeness auto
termination
  by (relation "measure (\<lambda>(ni, ba, bc). unat bc - unat ba)") (simp_all add: unat_up)

declare scan_badblocks_loop.simps [simp del]

definition nmbm_scan_badblocks :: "'d nmbm_instance \<Rightarrow> 'd nmbm_instance" where
  "nmbm_scan_badblocks ni = scan_badblocks_loop ni 0 (block_count ni)"

function build_mapping_loop :: "'d nmbm_instance \<Rightarrow> u32 \<Rightarrow> u32 \<Rightarrow> u32 \<times> 'd nmbm_instance" where
  "build_mapping_loop ni pb lb =
     (if pb < mgmt_start_ba ni then
        if nmbm_get_block_state ni pb = BLOCK_ST_BAD then build_mapping_loop ni (pb + 1) lb
        else build_mapping_loop (ni\<lparr>block_mapping := (block_mapping ni)[unat lb := pb]\<rparr>) (pb + 1) (lb + 1)
      else (lb, ni))"
  by pat_completeness auto
termination
  by (relation "measure (\<lambda>(ni, pb, lb). unat (mgmt_start_ba ni) - unat pb)") (simp_all add: unat_up)

function clear_mapping_loop :: "'d nmbm_instance \<Rightarrow> u32 \<Rightarrow> 'd nmbm_instance" where
  "clear_mapping_loop ni pb =
     (if pb < block_count ni then
        clear_mapping_loop (ni\<lparr>block_mapping := (block_mapping ni)[unat pb := -1]\<rparr>) (pb + 1)
      else ni)"
  by pat_completeness auto
termination
  by (relation "measure (\<lambda>(ni, pb). unat (block_count ni) - unat pb)") (simp_all add: unat_up)

declare build_mapping_loop.simps [simp del] clear_mapping_loop.simps [simp del]

definition nmbm_build_mapping_table :: "'d nmbm_instance \<Rightarrow> 'd nmbm_instance" where
  "nmbm_build_mapping_table ni =
     (let (lb, ni) = build_mapping_loop ni 0 0;
          ni = ni\<lparr>data_block_count := lb\<rparr>
      in clear_mapping_loop ni lb)"

section \<open>The bitmap\<close>

lemma unit_index: "unat (ba div 16 :: u32) = unat ba div 16"
  by (simp add: unat_div)

lemma unit_shift: "unat (2 * (ba mod 16) :: u32) = 2 * (unat ba mod 16)"
proof -
  have "unat (ba mod 16) = unat ba mod 16" by (simp add: unat_mod)
  then show ?thesis by (simp add: unat_word_ariths)
qed

definition unit_get :: "u32 \<Rightarrow> nat \<Rightarrow> u32" where
  "unit_get u i = drop_bit (2 * i) u AND 3"

definition unit_put :: "u32 \<Rightarrow> nat \<Rightarrow> u32 \<Rightarrow> u32" where
  "unit_put u i s = (u AND NOT (push_bit (2 * i) 3)) OR push_bit (2 * i) (s AND 3)"

lemma three_mask: "(3 :: u32) = mask 2"
  by (simp add: mask_eq_exp_minus_1)

lemma unit_get_put_same: "i < 16 \<Longrightarrow> unit_get (unit_put u i s) i = s AND 3"
  unfolding unit_get_def unit_put_def three_mask
  by (rule bit_word_eqI) (auto simp: bit_simps)

lemma unit_get_put_other: "i < 16 \<Longrightarrow> j < 16 \<Longrightarrow> i \<noteq> j \<Longrightarrow> unit_get (unit_put u i s) j = unit_get u j"
  unfolding unit_get_def unit_put_def three_mask
  by (rule bit_word_eqI) (auto simp: bit_simps)

lemma get_raw_unit:
  "nmbm_get_block_state_raw bs ba = unit_get (bs ! (unat ba div 16)) (unat ba mod 16)"
  by (simp add: nmbm_get_block_state_raw_def unit_get_def Let_def unit_index unit_shift mult.commute)

lemma set_block_state_unit:
  "block_state (set_block_state ni ba s) =
     (block_state ni)[unat ba div 16 := unit_put (block_state ni ! (unat ba div 16)) (unat ba mod 16) s]"
  by (simp add: nmbm_set_block_state_def unit_put_def Let_def unit_index unit_shift mult.commute)

definition in_table :: "'d nmbm_instance \<Rightarrow> u32 \<Rightarrow> bool" where
  "in_table ni ba \<longleftrightarrow> unat ba < 16 * length (block_state ni)"

lemma set_block_state_frame [simp, frame_simps]:
  "lower (set_block_state ni ba s) = lower ni"
  "rawpage_size (set_block_state ni ba s) = rawpage_size ni"
  "writesize_mask (set_block_state ni ba s) = writesize_mask ni"
  "erasesize_mask (set_block_state ni ba s) = erasesize_mask ni"
  "erasesize_shift (set_block_state ni ba s) = erasesize_shift ni"
  "signature (set_block_state ni ba s) = signature ni"
  "info_table_cache (set_block_state ni ba s) = info_table_cache ni"
  "info_table_size (set_block_state ni ba s) = info_table_size ni"
  "info_table_spare_blocks (set_block_state ni ba s) = info_table_spare_blocks ni"
  "info_table (set_block_state ni ba s) = info_table ni"
  "state_table_size (set_block_state ni ba s) = state_table_size ni"
  "block_mapping (set_block_state ni ba s) = block_mapping ni"
  "block_mapping_changed (set_block_state ni ba s) = block_mapping_changed ni"
  "mapping_table_size (set_block_state ni ba s) = mapping_table_size ni"
  "page_cache (set_block_state ni ba s) = page_cache ni"
  "protected (set_block_state ni ba s) = protected ni"
  "block_count (set_block_state ni ba s) = block_count ni"
  "data_block_count (set_block_state ni ba s) = data_block_count ni"
  "mgmt_start_ba (set_block_state ni ba s) = mgmt_start_ba ni"
  "main_table_ba (set_block_state ni ba s) = main_table_ba ni"
  "backup_table_ba (set_block_state ni ba s) = backup_table_ba ni"
  "mapping_blocks_ba (set_block_state ni ba s) = mapping_blocks_ba ni"
  "mapping_blocks_top_ba (set_block_state ni ba s) = mapping_blocks_top_ba ni"
  "signature_ba (set_block_state ni ba s) = signature_ba ni"
  "chip (set_block_state ni ba s) = chip ni"
  by (simp_all add: nmbm_set_block_state_def Let_def chip_def)

lemma length_set_block_state [simp]:
  "length (block_state (set_block_state ni ba s)) = length (block_state ni)"
  by (simp add: set_block_state_unit)

lemma in_table_set [simp]: "in_table (set_block_state ni ba s) b = in_table ni b"
  by (simp add: in_table_def)

lemma get_state_unit:
  "nmbm_get_block_state ni ba = unit_get (block_state ni ! (unat ba div 16)) (unat ba mod 16)"
  by (simp add: nmbm_get_block_state_def get_raw_unit)

lemma get_set_same: "in_table ni ba \<Longrightarrow> nmbm_get_block_state (set_block_state ni ba s) ba = s AND 3"
  by (simp add: get_state_unit set_block_state_unit in_table_def unit_get_put_same less_mult_imp_div_less
      mult.commute)

lemma get_set_other:
  assumes "a \<noteq> ba"
  shows "nmbm_get_block_state (set_block_state ni ba s) a = nmbm_get_block_state ni a"
proof (cases "unat a div 16 = unat ba div 16 \<and> unat ba div 16 < length (block_state ni)")
  case True
  with assms have "unat a mod 16 \<noteq> unat ba mod 16"
    by (metis div_mult_mod_eq word_unat_eq_iff)
  with True show ?thesis
    by (simp add: get_state_unit set_block_state_unit unit_get_put_other)
next
  case False
  then show ?thesis
    by (cases "unat ba div 16 < length (block_state ni)")
      (auto simp: get_state_unit set_block_state_unit list_update_beyond)
qed

lemma get_state_masked: "nmbm_get_block_state ni ba AND 3 = nmbm_get_block_state ni ba"
  by (simp add: get_state_unit unit_get_def and.assoc)

lemma set_block_state_changed:
  "block_state_changed (set_block_state ni ba s) =
     (if nmbm_get_block_state ni ba = s AND 3 then block_state_changed ni else block_state_changed ni + 1)"
  by (simp add: nmbm_set_block_state_def nmbm_get_block_state_def nmbm_get_block_state_raw_def Let_def)

lemma set_block_state_result:
  "fst (nmbm_set_block_state ni ba s) \<longleftrightarrow> nmbm_get_block_state ni ba \<noteq> s AND 3"
  by (simp add: nmbm_set_block_state_def nmbm_get_block_state_def nmbm_get_block_state_raw_def Let_def)

lemma get_state_frame [simp, frame_simps]:
  "nmbm_get_block_state (set_chip d ni) ba = nmbm_get_block_state ni ba"
  "nmbm_get_block_state (ni\<lparr>page_cache := pc\<rparr>) ba = nmbm_get_block_state ni ba"
  "nmbm_get_block_state (ni\<lparr>log_display_level := l\<rparr>) ba = nmbm_get_block_state ni ba"
  "nmbm_get_block_state (ni\<lparr>block_state_changed := n\<rparr>) ba = nmbm_get_block_state ni ba"
  "nmbm_get_block_state (ni\<lparr>block_mapping_changed := n\<rparr>) ba = nmbm_get_block_state ni ba"
  "nmbm_get_block_state (ni\<lparr>block_mapping := bm\<rparr>) ba = nmbm_get_block_state ni ba"
  "nmbm_get_block_state (ni\<lparr>info_table_cache := c\<rparr>) ba = nmbm_get_block_state ni ba"
  "nmbm_get_block_state (ni\<lparr>info_table := t\<rparr>) ba = nmbm_get_block_state ni ba"
  "nmbm_get_block_state (ni\<lparr>main_table_ba := a\<rparr>) ba = nmbm_get_block_state ni ba"
  "nmbm_get_block_state (ni\<lparr>backup_table_ba := a\<rparr>) ba = nmbm_get_block_state ni ba"
  "nmbm_get_block_state (ni\<lparr>mapping_blocks_ba := a\<rparr>) ba = nmbm_get_block_state ni ba"
  "nmbm_get_block_state (ni\<lparr>mapping_blocks_top_ba := a\<rparr>) ba = nmbm_get_block_state ni ba"
  "nmbm_get_block_state (ni\<lparr>protected := p\<rparr>) ba = nmbm_get_block_state ni ba"
  "nmbm_get_block_state (ni\<lparr>data_block_count := n\<rparr>) ba = nmbm_get_block_state ni ba"
  by (simp_all add: nmbm_get_block_state_def set_chip_def)

section \<open>The table as an interface\<close>

text \<open>What the clients of the table rely on, and the relation they need: between two states blocks
  of \<open>B\<close> may have gone from good to bad, and nothing else has changed.\<close>

definition wears :: "('s \<Rightarrow> u32 \<Rightarrow> u32) \<Rightarrow> u32 set \<Rightarrow> 's \<Rightarrow> 's \<Rightarrow> bool" where
  "wears get B s s' \<longleftrightarrow>
     (\<forall>a. get s' a = get s a \<or> a \<in> B \<and> get s a = BLOCK_ST_GOOD \<and> get s' a = BLOCK_ST_BAD)"

locale block_table =
  fixes get :: "'s \<Rightarrow> u32 \<Rightarrow> u32" and put :: "'s \<Rightarrow> u32 \<Rightarrow> u32 \<Rightarrow> 's" and valid :: "'s \<Rightarrow> u32 \<Rightarrow> bool"
  assumes get_put_same: "valid s a \<Longrightarrow> get (put s a v) a = v AND 3"
    and get_put_other: "a \<noteq> b \<Longrightarrow> get (put s a v) b = get s b"
    and valid_put: "valid (put s a v) b = valid s b"
    and get_masked: "get s a AND 3 = get s a"
begin

lemma get_put: "valid s a \<Longrightarrow> get (put s a v) b = (if a = b then v AND 3 else get s b)"
  by (cases "a = b") (auto simp: get_put_same get_put_other)

lemma get_put_id: "valid s a \<Longrightarrow> get (put s a (get s a)) b = get s b"
  by (simp add: get_put get_masked)

lemma get_put_swap:
  "valid s a \<Longrightarrow> valid s b \<Longrightarrow> a \<noteq> b \<Longrightarrow> get (put (put s a v) b w) c = get (put (put s b w) a v) c"
  by (cases "c = a"; cases "c = b") (auto simp: get_put valid_put)

lemma wears_refl: "wears get B s s"
  by (simp add: wears_def)

lemma wears_trans: "wears get B s s' \<Longrightarrow> wears get B s' s'' \<Longrightarrow> wears get B s s''"
  by (auto simp: wears_def) metis+

lemma wears_mono: "wears get B s s' \<Longrightarrow> B \<subseteq> C \<Longrightarrow> wears get C s s'"
  by (auto simp: wears_def)

lemma wears_put_bad:
  "valid s a \<Longrightarrow> a \<in> B \<Longrightarrow> get s a = BLOCK_ST_GOOD \<Longrightarrow> wears get B s (put s a BLOCK_ST_BAD)"
  by (auto simp: wears_def get_put)

lemma wears_still_bad: "wears get B s s' \<Longrightarrow> get s a \<noteq> BLOCK_ST_GOOD \<Longrightarrow> get s' a = get s a"
  by (auto simp: wears_def)

lemma wears_good_before: "wears get B s s' \<Longrightarrow> get s' a = BLOCK_ST_GOOD \<Longrightarrow> get s a = BLOCK_ST_GOOD"
  unfolding wears_def by metis

end

interpretation state_table: block_table nmbm_get_block_state set_block_state in_table
  by unfold_locales (auto simp: get_set_same get_set_other get_state_masked)


section \<open>Operations that wear the table\<close>

text \<open>The part of the instance the operations on physical blocks leave alone.\<close>

definition keep_tables :: "'d nmbm_instance \<Rightarrow> 'd nmbm_instance \<Rightarrow> bool" where
  "keep_tables ni ni' \<longleftrightarrow>
     (\<exists>d pc bs ch. ni' = (set_chip d ni)\<lparr>page_cache := pc, block_state := bs, block_state_changed := ch\<rparr>)"

lemma keep_tables_frame:
  assumes "keep_tables ni ni'"
  shows "lower ni' = (lower ni)\<lparr>arg := chip ni'\<rparr>"
    "rawpage_size ni' = rawpage_size ni"
    "writesize_mask ni' = writesize_mask ni" "erasesize_mask ni' = erasesize_mask ni"
    "erasesize_shift ni' = erasesize_shift ni" "signature ni' = signature ni"
    "info_table_cache ni' = info_table_cache ni" "info_table_size ni' = info_table_size ni"
    "info_table_spare_blocks ni' = info_table_spare_blocks ni" "info_table ni' = info_table ni"
    "state_table_size ni' = state_table_size ni" "mapping_table_size ni' = mapping_table_size ni"
    "block_mapping ni' = block_mapping ni" "block_mapping_changed ni' = block_mapping_changed ni"
    "protected ni' = protected ni" "block_count ni' = block_count ni"
    "data_block_count ni' = data_block_count ni" "mgmt_start_ba ni' = mgmt_start_ba ni"
    "main_table_ba ni' = main_table_ba ni" "backup_table_ba ni' = backup_table_ba ni"
    "mapping_blocks_ba ni' = mapping_blocks_ba ni"
    "mapping_blocks_top_ba ni' = mapping_blocks_top_ba ni" "signature_ba ni' = signature_ba ni"
    "log_display_level ni' = log_display_level ni"
  using assms unfolding keep_tables_def by (auto simp: set_chip_def chip_def)

lemma keep_tables_refl: "keep_tables ni ni"
  unfolding keep_tables_def
  by (rule exI [of _ "chip ni"], rule exI [of _ "page_cache ni"], rule exI [of _ "block_state ni"],
      rule exI [of _ "block_state_changed ni"]) simp

lemma keep_tables_trans: "keep_tables ni ni' \<Longrightarrow> keep_tables ni' ni'' \<Longrightarrow> keep_tables ni ni''"
  unfolding keep_tables_def by (elim exE) (simp add: set_chip_def, blast)

definition worn :: "u32 set \<Rightarrow> 'd nmbm_instance \<Rightarrow> 'd nmbm_instance \<Rightarrow> bool" where
  "worn B ni ni' \<longleftrightarrow>
     keep_tables ni ni' \<and> length (block_state ni') = length (block_state ni) \<and>
     wears nmbm_get_block_state B ni ni' \<and>
     (block_state_changed ni' = block_state_changed ni \<or>
      (\<exists>a \<in> B. nmbm_get_block_state ni a = BLOCK_ST_GOOD \<and> nmbm_get_block_state ni' a = BLOCK_ST_BAD)) \<and>
     (lower_call (lower ni) (in_blocks ni B))\<^sup>*\<^sup>* (chip ni) (chip ni')"

lemma worn_refl [intro!]: "worn B ni ni"
  by (simp add: worn_def keep_tables_refl state_table.wears_refl)

lemma worn_mono:
  assumes "worn B ni ni'" and "B \<subseteq> C"
  shows "worn C ni ni'"
proof -
  note w = assms(1) [unfolded worn_def]
  have "wears nmbm_get_block_state C ni ni'"
    using w by (blast intro: state_table.wears_mono [OF _ assms(2)])
  moreover have "(lower_call (lower ni) (in_blocks ni C))\<^sup>*\<^sup>* (chip ni) (chip ni')"
    by (rule lower_calls_mono [OF _ in_blocks_mono [OF assms(2)]]) (use w in simp)
  moreover have "block_state_changed ni' = block_state_changed ni \<or>
      (\<exists>a \<in> C. nmbm_get_block_state ni a = BLOCK_ST_GOOD \<and> nmbm_get_block_state ni' a = BLOCK_ST_BAD)"
    using w assms(2) by (meson subsetD)
  ultimately show ?thesis using w by (simp add: worn_def)
qed

lemma in_blocks_shift: "erasesize_shift ni' = erasesize_shift ni \<Longrightarrow> in_blocks ni' B = in_blocks ni B"
  by (simp add: in_blocks_def)

lemma worn_trans [trans]:
  assumes "worn B ni ni'" and "worn B ni' ni''"
  shows "worn B ni ni''"
proof -
  note a = assms(1) [unfolded worn_def] and b = assms(2) [unfolded worn_def]
  have k: "keep_tables ni ni'" using a by blast
  have calls: "(lower_call (lower ni) (in_blocks ni B))\<^sup>*\<^sup>* (chip ni') (chip ni'')"
    using b by (simp add: keep_tables_frame(1) [OF k] in_blocks_shift [OF keep_tables_frame(5) [OF k]])
  have w: "wears nmbm_get_block_state B ni ni''"
    using a b state_table.wears_trans by blast
  have "block_state_changed ni'' = block_state_changed ni \<or>
    (\<exists>x \<in> B. nmbm_get_block_state ni x = BLOCK_ST_GOOD \<and> nmbm_get_block_state ni'' x = BLOCK_ST_BAD)"
    using a b unfolding wears_def by (metis zero_neq_numeral)
  then show ?thesis
    using a b w calls keep_tables_trans unfolding worn_def
    by (metis (no_types, lifting) rtranclp_trans)
qed

lemma keep_tablesI:
  "ni' = (set_chip d ni)\<lparr>page_cache := pc, block_state := bs, block_state_changed := ch\<rparr> \<Longrightarrow>
   keep_tables ni ni'"
  unfolding keep_tables_def by blast

lemma worn_chip:
  assumes "chip_evolves (in_blocks ni B) ni ni'"
  shows "worn B ni ni'"
proof -
  obtain d pc where e: "ni' = (set_chip d ni)\<lparr>page_cache := pc\<rparr>"
    and c: "(lower_call (lower ni) (in_blocks ni B))\<^sup>*\<^sup>* (chip ni) d"
    using assms by (auto simp: chip_evolves_def)
  have "keep_tables ni ni'"
    by (rule keep_tablesI [where d = d and pc = pc and bs = "block_state ni" and ch = "block_state_changed ni"])
      (simp add: e set_chip_def)
  moreover have "block_state ni' = block_state ni" "block_state_changed ni' = block_state_changed ni"
    by (simp_all add: e set_chip_def)
  moreover have "chip ni' = d" by (simp add: e)
  ultimately show ?thesis using c by (simp add: worn_def wears_def nmbm_get_block_state_def)
qed

lemma keep_tables_set: "keep_tables ni (set_block_state ni ba s)"
  by (rule keep_tablesI [where d = "chip ni" and pc = "page_cache ni"
        and bs = "block_state (set_block_state ni ba s)"
        and ch = "block_state_changed (set_block_state ni ba s)"])
    (simp add: nmbm_set_block_state_def Let_def)

lemma worn_set_bad:
  assumes "in_table ni ba" and "ba \<in> B" and "nmbm_get_block_state ni ba = BLOCK_ST_GOOD"
  shows "worn B ni (set_block_state ni ba BLOCK_ST_BAD)"
proof -
  have "nmbm_get_block_state (set_block_state ni ba BLOCK_ST_BAD) ba = BLOCK_ST_BAD"
    using get_set_same [OF assms(1), of 0] by simp
  then have "\<exists>a \<in> B. nmbm_get_block_state ni a = BLOCK_ST_GOOD \<and>
      nmbm_get_block_state (set_block_state ni ba BLOCK_ST_BAD) a = BLOCK_ST_BAD"
    using assms by blast
  then show ?thesis
    using keep_tables_set [of ni ba 0] state_table.wears_put_bad [OF assms]
    by (simp add: worn_def)
qed

lemma worn_frame:
  assumes "worn B ni ni'"
  shows "lower ni' = (lower ni)\<lparr>arg := chip ni'\<rparr>"
    "rawpage_size ni' = rawpage_size ni"
    "writesize_mask ni' = writesize_mask ni" "erasesize_mask ni' = erasesize_mask ni"
    "erasesize_shift ni' = erasesize_shift ni" "signature ni' = signature ni"
    "info_table_cache ni' = info_table_cache ni" "info_table_size ni' = info_table_size ni"
    "info_table_spare_blocks ni' = info_table_spare_blocks ni" "info_table ni' = info_table ni"
    "state_table_size ni' = state_table_size ni" "mapping_table_size ni' = mapping_table_size ni"
    "block_mapping ni' = block_mapping ni" "block_mapping_changed ni' = block_mapping_changed ni"
    "protected ni' = protected ni" "block_count ni' = block_count ni"
    "data_block_count ni' = data_block_count ni" "mgmt_start_ba ni' = mgmt_start_ba ni"
    "main_table_ba ni' = main_table_ba ni" "backup_table_ba ni' = backup_table_ba ni"
    "mapping_blocks_ba ni' = mapping_blocks_ba ni"
    "mapping_blocks_top_ba ni' = mapping_blocks_top_ba ni" "signature_ba ni' = signature_ba ni"
    "log_display_level ni' = log_display_level ni"
  using assms keep_tables_frame [of ni ni'] unfolding worn_def by blast+

lemma worn_in_table: "worn B ni ni' \<Longrightarrow> in_table ni' ba = in_table ni ba"
  by (simp add: worn_def in_table_def)

lemma worn_geom: "worn B ni ni' \<Longrightarrow> geom ni' = geom ni"
  using worn_frame [of B ni ni'] by (simp add: worn_def geom_def)

lemma worn_in_blocks: "worn B ni ni' \<Longrightarrow> in_blocks ni' C = in_blocks ni C"
  by (simp add: in_blocks_def worn_frame(5))

lemma worn_ba2addr: "worn B ni ni' \<Longrightarrow> ba2addr ni' ba = ba2addr ni ba"
  by (simp add: ba2addr_def worn_frame(5))

lemma worn_has_flag: "worn B ni ni' \<Longrightarrow> has_flag ni' f = has_flag ni f"
  by (simp add: has_flag_def worn_frame(1))

section \<open>Walks\<close>

text \<open>The good blocks of \<open>[a, b)\<close> from the lowest up, and those of \<open>(a, b]\<close> from the highest down.\<close>

definition good_asc :: "'d nmbm_instance \<Rightarrow> u32 \<Rightarrow> u32 \<Rightarrow> u32 list" where
  "good_asc ni a b = filter (\<lambda>ba. nmbm_get_block_state ni ba = BLOCK_ST_GOOD) (map of_nat [unat a..<unat b])"

definition good_desc :: "'d nmbm_instance \<Rightarrow> u32 \<Rightarrow> u32 \<Rightarrow> u32 list" where
  "good_desc ni b a =
     filter (\<lambda>ba. nmbm_get_block_state ni ba = BLOCK_ST_GOOD) (rev (map of_nat [Suc (unat a)..<Suc (unat b)]))"

lemma set_good_asc: "set (good_asc ni a b) = {ba. a \<le> ba \<and> ba < b \<and> nmbm_get_block_state ni ba = BLOCK_ST_GOOD}"
proof -
  have "(of_nat :: nat \<Rightarrow> u32) ` {unat a..<unat b} = {a..<b}"
  proof (intro set_eqI iffI)
    fix x :: u32 assume "x \<in> of_nat ` {unat a..<unat b}"
    then obtain n where "x = of_nat n" "unat a \<le> n" "n < unat b" by auto
    moreover from this have "unat x = n" using unsigned_less [of b, where ?'a = nat]
      by (simp add: unat_of_nat)
    ultimately show "x \<in> {a..<b}" by (simp add: word_le_nat_alt word_less_nat_alt)
  next
    fix x :: u32 assume "x \<in> {a..<b}"
    then have "unat x \<in> {unat a..<unat b}" by (simp add: word_le_nat_alt word_less_nat_alt)
    then show "x \<in> of_nat ` {unat a..<unat b}" by (metis imageI of_nat_unat ucast_id)
  qed
  then show ?thesis by (auto simp: good_asc_def)
qed

lemma good_asc_step:
  "a < b \<Longrightarrow> good_asc ni a b =
     (if nmbm_get_block_state ni a = BLOCK_ST_GOOD then a # good_asc ni (a + 1) b else good_asc ni (a + 1) b)"
  by (simp add: good_asc_def unat_Suc_less upt_conv_Cons word_less_nat_alt)

lemma good_asc_empty: "\<not> a < b \<Longrightarrow> good_asc ni a b = []"
  by (simp add: good_asc_def word_less_nat_alt)

lemma good_desc_step:
  assumes "a < b"
  shows "good_desc ni b a =
     (if nmbm_get_block_state ni b = BLOCK_ST_GOOD then b # good_desc ni (b - 1) a else good_desc ni (b - 1) a)"
proof -
  have "unat b = Suc (unat (b - 1))" using unat_pred [OF assms] assms by (simp add: word_less_nat_alt)
  moreover have "unat a < unat b" using assms by (simp add: word_less_nat_alt)
  ultimately show ?thesis by (simp add: good_desc_def)
qed

lemma good_desc_empty: "\<not> a < b \<Longrightarrow> good_desc ni b a = []"
  by (simp add: good_desc_def word_less_nat_alt)

lemma nat_1_int: "nat (1 + int m) = Suc m"
  by simp

lemma nat_sint: "0 \<le> sint (w :: u32) \<Longrightarrow> nat (sint w) = unat w"
proof -
  assume "0 \<le> sint w"
  moreover have lt: "uint w < 2 ^ 32" using unsigned_less [of w, where ?'a = int] by simp
  moreover have "take_bit 32 (uint w) = uint w" by (rule take_bit_int_eq_self) (use lt in simp_all)
  then have "sint w = uint w - 2 ^ 32 * of_bool (bit (uint w) 31)"
    by (simp add: sint_uint signed_take_bit_eq_take_bit_minus)
  ultimately have "sint w = uint w" by (cases "bit (uint w) 31") auto
  then show ?thesis by simp
qed

lemma walk_asc_nth:
  "0 \<le> n \<Longrightarrow> walk_asc_loop ni ba n limit =
     (let gs = good_asc ni ba limit in if nat n < length gs then Some (gs ! nat n) else None)"
proof (induction ni ba n limit rule: walk_asc_loop.induct)
  case (1 ni ba n limit)
  show ?case
  proof (cases "ba < limit")
    case True
    show ?thesis
    proof (cases "nmbm_get_block_state ni ba = BLOCK_ST_GOOD")
      case good: True
      show ?thesis
      proof (cases "n = 0")
        case True
        with \<open>ba < limit\<close> good show ?thesis
          by (simp add: walk_asc_loop.simps [of ni ba] good_asc_step Let_def)
      next
        case False
        with "1.prems" obtain m where m: "n = int (Suc m)" by (metis gr0_conv_Suc int_nat_eq nat_0_iff le_less neq0_conv linorder_not_le)
        with True good "1.IH" show ?thesis
          by (simp add: walk_asc_loop.simps [of ni ba] good_asc_step Let_def nat_1_int)
      qed
    next
      case False
      with True 1 show ?thesis by (simp add: walk_asc_loop.simps [of ni ba] good_asc_step Let_def)
    qed
  next
    case False
    then show ?thesis by (simp add: walk_asc_loop.simps [of ni ba] good_asc_empty)
  qed
qed

lemma walk_desc_nth:
  "0 \<le> n \<Longrightarrow> walk_desc_loop ni ba n limit =
     (let gs = good_desc ni ba limit in if nat n < length gs then Some (gs ! nat n) else None)"
proof (induction ni ba n limit rule: walk_desc_loop.induct)
  case (1 ni ba n limit)
  show ?case
  proof (cases "limit < ba")
    case True
    show ?thesis
    proof (cases "nmbm_get_block_state ni ba = BLOCK_ST_GOOD")
      case good: True
      show ?thesis
      proof (cases "n = 0")
        case True
        with \<open>limit < ba\<close> good show ?thesis
          by (simp add: walk_desc_loop.simps [of ni ba] good_desc_step Let_def)
      next
        case False
        with "1.prems" obtain m where m: "n = int (Suc m)" by (metis gr0_conv_Suc int_nat_eq nat_0_iff le_less neq0_conv linorder_not_le)
        with True good "1.IH" show ?thesis
          by (simp add: walk_desc_loop.simps [of ni ba] good_desc_step Let_def nat_1_int)
      qed
    next
      case False
      with True 1 show ?thesis by (simp add: walk_desc_loop.simps [of ni ba] good_desc_step Let_def)
    qed
  next
    case False
    then show ?thesis by (simp add: walk_desc_loop.simps [of ni ba] good_desc_empty)
  qed
qed

lemma walk_asc_bounds:
  "walk_asc_loop ni ba n limit = Some nba \<Longrightarrow> ba \<le> nba \<and> nba < limit"
proof (induction ni ba n limit rule: walk_asc_loop.induct)
  case (1 ni ba n limit)
  from "1.prems" have lt: "ba < limit" by (simp add: walk_asc_loop.simps [of ni ba] split: if_splits)
  let ?n = "if nmbm_get_block_state ni ba = BLOCK_ST_GOOD then n - 1 else n"
  show ?case
  proof (cases "?n < 0")
    case True
    with "1.prems" lt show ?thesis by (simp add: walk_asc_loop.simps [of ni ba] Let_def)
  next
    case False
    with "1.prems" lt have "walk_asc_loop ni (ba + 1) ?n limit = Some nba"
      by (simp add: walk_asc_loop.simps [of ni ba] Let_def)
    with 1(1) [OF lt refl False] have "ba + 1 \<le> nba \<and> nba < limit" by simp
    moreover have "ba \<le> ba + 1" using lt by (simp add: word_le_nat_alt unat_Suc_less)
    ultimately show ?thesis by (blast intro: order_trans)
  qed
qed

lemma sint_0_u32: "sint (0 :: u32) = 0" and sint_1_u32: "sint (1 :: u32) = 1"
  by simp_all

text \<open>The walk limits are inside the chip; the ascending walk, whose limit is exclusive, never
  reaches the last block.\<close>

definition walk_limit :: "'d nmbm_instance \<Rightarrow> u32 \<Rightarrow> u32" where
  "walk_limit ni limit = (if block_count ni \<le> limit then block_count ni - 1 else limit)"

lemma block_walk_asc_spec:
  "0 \<le> sint count \<Longrightarrow> nmbm_block_walk_asc ni ba count limit =
     (let gs = good_asc ni ba (walk_limit ni limit)
      in if unat count < length gs then Some (gs ! unat count) else None)"
  by (simp add: nmbm_block_walk_asc_def walk_asc_nth walk_limit_def Let_def nat_sint)

lemma block_walk_desc_first:
  "nmbm_block_walk_desc ni ba 0 limit =
     (case good_desc ni ba (walk_limit ni limit) of [] \<Rightarrow> None | pb # _ \<Rightarrow> Some pb)"
  by (simp add: nmbm_block_walk_desc_def walk_desc_nth walk_limit_def Let_def split: list.split)

end
