(* ===== verification/Nmbm_Write.thy ===== *)
theory Nmbm_Write
  imports Nmbm_State_Table
begin

text \<open>
  Erasing, reading and writing on physical blocks, with the checks and the marking of new bad
  blocks: from \<open>nmbm_erase_block_and_check\<close> to \<open>nmbm_write_mgmt_range\<close>. The page loops advance
  by \<open>writesize\<close>: they return when it is not zero and \<open>writesize_mask\<close> fits it, which
  \<open>nmbm_check_lower_members\<close> and \<open>nmbm_init_structure\<close> provide. Without that the model, like the
  code, does not return.
\<close>

section \<open>Erasing\<close>

partial_function (option) erase_check_pages ::
  "'d nmbm_instance \<Rightarrow> u64 \<Rightarrow> u64 \<Rightarrow> (bool \<times> 'd nmbm_instance) option" where
  "erase_check_pages ni addr off =
     (if off < ucast (erasesize (lower ni)) then
        let (ret, ni) = read_to_page_cache ni (addr + off) NMBM_MODE_PLACE_OOB
        in if ret = - EBADMSG then Some (False, ni)
           else erase_check_pages ni addr (off + ucast (writesize (lower ni)))
      else Some (True, ni))"

definition nmbm_erase_block_and_check ::
  "'d nmbm_instance \<Rightarrow> u32 \<Rightarrow> (bool \<times> 'd nmbm_instance) option" where
  "nmbm_erase_block_and_check ni ba =
     (let (success, ni) = nmbm_erase_phys_block ni (ba2addr ni ba)
      in if \<not> success then Some (False, ni)
         else if \<not> has_flag ni NMBM_F_EMPTY_PAGE_ECC_OK then Some (True, ni)
         else erase_check_pages ni (ba2addr ni ba) 0)"

text \<open>Mark a block bad on the chip and in the state table: the code after \<open>skip_bad_block\<close>.\<close>

definition retire_block :: "'d nmbm_instance \<Rightarrow> u32 \<Rightarrow> 'd nmbm_instance option" where
  "retire_block ni ba =
     do {
       (_, ni) \<leftarrow> nmbm_mark_phys_bad_block ni ba;
       Some (set_block_state ni ba BLOCK_ST_BAD)
     }"

partial_function (option) nmbm_erase_range ::
  "'d nmbm_instance \<Rightarrow> u32 \<Rightarrow> u32 \<Rightarrow> 'd nmbm_instance option" where
  "nmbm_erase_range ni ba limit =
     (if ba < limit then
        if nmbm_get_block_state ni ba \<noteq> BLOCK_ST_GOOD then nmbm_erase_range ni (ba + 1) limit
        else
          let (bad, ni) = nmbm_check_bad_phys_block ni ba
          in if bad then nmbm_erase_range (set_block_state ni ba BLOCK_ST_BAD) (ba + 1) limit
             else do {
               (success, ni) \<leftarrow> nmbm_erase_block_and_check ni ba;
               if success then nmbm_erase_range ni (ba + 1) limit
               else do {
                 ni \<leftarrow> retire_block ni ba;
                 nmbm_erase_range ni (ba + 1) limit
               }
             }
      else Some ni)"

section \<open>The same data in every page of a block\<close>

partial_function (option) write_repeated_pages ::
  "'d nmbm_instance \<Rightarrow> u64 \<Rightarrow> u8 list \<Rightarrow> u32 \<Rightarrow> u64 \<Rightarrow> (bool \<times> 'd nmbm_instance) option" where
  "write_repeated_pages ni addr data sz off =
     (if off < ucast (erasesize (lower ni)) then
        let ni = ni\<lparr>page_cache := memcpy_at (page_cache ni) 0 (take (unat sz) data)\<rparr>;
            ni = ni\<lparr>page_cache :=
              memset_at (page_cache ni) (unat sz) 0xff (unat (rawpage_size ni - sz))\<rparr>;
            (success, ni) = nmbm_write_phys_page ni (addr + off) (Some (cache_data ni)) None
              NMBM_MODE_PLACE_OOB
        in if \<not> success then Some (False, ni)
           else
             let (ret, ni) = read_to_page_cache ni (addr + off) NMBM_MODE_PLACE_OOB
             in if ret < 0 then Some (False, ni)
                else if take (unat sz) (page_cache ni) \<noteq> take (unat sz) data then Some (False, ni)
                else write_repeated_pages ni addr data sz (off + ucast (writesize (lower ni)))
      else Some (True, ni))"

definition nmbm_write_repeated_data ::
  "'d nmbm_instance \<Rightarrow> u32 \<Rightarrow> u8 list \<Rightarrow> u32 \<Rightarrow> (bool \<times> 'd nmbm_instance) option" where
  "nmbm_write_repeated_data ni ba data sz =
     (if writesize (lower ni) < sz then Some (False, ni)
      else write_repeated_pages ni (ba2addr ni ba) data sz 0)"

text \<open>The loop of \<open>nmbm_write_signature\<close>: the block that was written, from the top down.\<close>

partial_function (option) write_signature_loop ::
  "'d nmbm_instance \<Rightarrow> u32 \<Rightarrow> u32 \<Rightarrow> u8 list \<Rightarrow> (u32 option \<times> 'd nmbm_instance) option" where
  "write_signature_loop ni ba limit sig =
     (if limit < ba then
        if nmbm_get_block_state ni ba \<noteq> BLOCK_ST_GOOD then write_signature_loop ni (ba - 1) limit sig
        else
          let (bad, ni) = nmbm_check_bad_phys_block ni ba
          in if bad then write_signature_loop (set_block_state ni ba BLOCK_ST_BAD) (ba - 1) limit sig
             else do {
               (success, ni) \<leftarrow> nmbm_erase_block_and_check ni ba;
               (success, ni) \<leftarrow>
                 (if \<not> success then Some (False, ni)
                  else nmbm_write_repeated_data ni ba sig (of_nat sizeof_signature));
               if success then Some (Some ba, ni)
               else do {
                 ni \<leftarrow> retire_block ni ba;
                 write_signature_loop ni (ba - 1) limit sig
               }
             }
      else Some (None, ni))"

definition nmbm_write_signature ::
  "'d nmbm_instance \<Rightarrow> u32 \<Rightarrow> nmbm_signature \<Rightarrow> (u32 option \<times> 'd nmbm_instance) option" where
  "nmbm_write_signature ni limit sig =
     write_signature_loop ni (block_count ni - 1) limit (encode_signature sig)"

section \<open>Reading and writing a range of pages\<close>

text \<open>\<open>data\<close> is the caller's buffer, \<open>pos\<close> the offset of the C code's \<open>ptr\<close> in it.\<close>

definition chunk_leading :: "'d nmbm_instance \<Rightarrow> u64 \<Rightarrow> u32" where
  "chunk_leading ni off = ucast (off AND ucast (writesize_mask ni))"

definition chunk_size :: "'d nmbm_instance \<Rightarrow> u32 \<Rightarrow> u32 \<Rightarrow> u32" where
  "chunk_size ni leading sizeremain =
     (let chunksize = writesize (lower ni) - leading
      in if sizeremain < chunksize then sizeremain else chunksize)"

partial_function (option) read_data_loop ::
  "'d nmbm_instance \<Rightarrow> u64 \<Rightarrow> u8 list \<Rightarrow> nat \<Rightarrow> u32 \<Rightarrow> (int \<times> u8 list \<times> 'd nmbm_instance) option" where
  "read_data_loop ni off data pos sizeremain =
     (if sizeremain \<noteq> 0 then
        let leading = chunk_leading ni off;
            chunksize = chunk_size ni leading sizeremain
        in if chunksize = writesize (lower ni) then
             let (ret, buf, _, ni) = nmbm_read_phys_page ni (off - ucast leading)
                   (Some (slice pos (unat (writesize (lower ni))) data)) None NMBM_MODE_PLACE_OOB;
                 data = memcpy_at data pos (the buf)
             in if ret < 0 then Some (ret, data, ni)
                else read_data_loop ni (off + ucast chunksize) data (pos + unat chunksize)
                       (sizeremain - chunksize)
           else
             let (ret, ni) = read_to_page_cache ni (off - ucast leading) NMBM_MODE_PLACE_OOB
             in if ret < 0 then Some (ret, data, ni)
                else read_data_loop ni (off + ucast chunksize)
                       (memcpy_at data pos (slice (unat leading) (unat chunksize) (page_cache ni)))
                       (pos + unat chunksize) (sizeremain - chunksize)
      else Some (0, data, ni))"

definition nmbn_read_data ::
  "'d nmbm_instance \<Rightarrow> u64 \<Rightarrow> u8 list \<Rightarrow> u32 \<Rightarrow> (int \<times> u8 list \<times> 'd nmbm_instance) option" where
  "nmbn_read_data ni addr data sz = read_data_loop ni addr data 0 sz"

partial_function (option) write_verify_loop ::
  "'d nmbm_instance \<Rightarrow> u64 \<Rightarrow> u8 list \<Rightarrow> nat \<Rightarrow> u32 \<Rightarrow> (bool \<times> 'd nmbm_instance) option" where
  "write_verify_loop ni off data pos sizeremain =
     (if sizeremain \<noteq> 0 then
        let leading = chunk_leading ni off;
            chunksize = chunk_size ni leading sizeremain;
            ni = ni\<lparr>page_cache := memset_at (page_cache ni) 0 0xff (unat (rawpage_size ni))\<rparr>;
            ni = ni\<lparr>page_cache :=
              memcpy_at (page_cache ni) (unat leading) (slice pos (unat chunksize) data)\<rparr>;
            (success, ni) = nmbm_write_phys_page ni (off - ucast leading) (Some (cache_data ni)) None
              NMBM_MODE_PLACE_OOB
        in if \<not> success then Some (False, ni)
           else
             let (ret, ni) = read_to_page_cache ni (off - ucast leading) NMBM_MODE_PLACE_OOB
             in if ret < 0 then Some (False, ni)
                else if slice (unat leading) (unat chunksize) (page_cache ni)
                        \<noteq> slice pos (unat chunksize) data then Some (False, ni)
                else write_verify_loop ni (off + ucast chunksize) data (pos + unat chunksize)
                       (sizeremain - chunksize)
      else Some (True, ni))"

definition nmbn_write_verify_data ::
  "'d nmbm_instance \<Rightarrow> u64 \<Rightarrow> u8 list \<Rightarrow> u32 \<Rightarrow> (bool \<times> 'd nmbm_instance) option" where
  "nmbn_write_verify_data ni addr data sz = write_verify_loop ni addr data 0 sz"

section \<open>Management data\<close>

text \<open>
  The loop of \<open>nmbm_write_mgmt_range\<close>; \<open>start\<close> is what \<open>*actual_start_ba\<close> holds, and the result
  the pair of \<open>*actual_start_ba\<close> and \<open>*actual_end_ba\<close> when the function returns true.
\<close>

partial_function (option) write_mgmt_loop ::
  "'d nmbm_instance \<Rightarrow> u32 \<Rightarrow> u32 \<Rightarrow> u8 list \<Rightarrow> nat \<Rightarrow> u32 \<Rightarrow> u32 \<Rightarrow> u32 \<Rightarrow>
   ((u32 \<times> u32) option \<times> 'd nmbm_instance) option" where
  "write_mgmt_loop ni ba limit data pos sz sizeremain start =
     (if sizeremain \<noteq> 0 \<and> ba < limit then
        let chunksize = (if erasesize (lower ni) < sizeremain then erasesize (lower ni) else sizeremain)
        in if nmbm_get_block_state ni ba \<noteq> BLOCK_ST_GOOD
           then write_mgmt_loop ni (ba + 1) limit data pos sz sizeremain start
           else
             let (bad, ni) = nmbm_check_bad_phys_block ni ba
             in if bad then write_mgmt_loop (set_block_state ni ba BLOCK_ST_BAD) (ba + 1) limit data
                              pos sz sizeremain start
                else do {
                  (success, ni) \<leftarrow> nmbm_erase_block_and_check ni ba;
                  (success, ni) \<leftarrow>
                    (if \<not> success then Some (False, ni)
                     else nmbn_write_verify_data ni (ba2addr ni ba) (drop pos data) chunksize);
                  if success
                  then write_mgmt_loop ni (ba + 1) limit data (pos + unat chunksize) sz
                         (sizeremain - chunksize) (if sizeremain = sz then ba else start)
                  else do {
                    ni \<leftarrow> retire_block ni ba;
                    write_mgmt_loop ni (ba + 1) limit data pos sz sizeremain start
                  }
                }
      else if sizeremain \<noteq> 0 then Some (None, ni)
      else Some (Some (start, ba), ni))"

text \<open>The initial value of \<open>start\<close> stands for the caller's uninitialised variable: it is only
  reported for \<open>sz = 0\<close>, a size no caller passes.\<close>

definition nmbm_write_mgmt_range ::
  "'d nmbm_instance \<Rightarrow> u32 \<Rightarrow> u32 \<Rightarrow> u8 list \<Rightarrow> u32 \<Rightarrow>
   ((u32 \<times> u32) option \<times> 'd nmbm_instance) option" where
  "nmbm_write_mgmt_range ni ba limit data sz = write_mgmt_loop ni ba limit data 0 sz sz 0"

lemma geom_sizes:
  assumes "geom ni"
  shows "0 < unat (writesize (lower ni))" "0 < unat (erasesize (lower ni))"
    "unat (writesize (lower ni)) dvd unat (erasesize (lower ni))"
    "unat (writesize (lower ni)) \<le> unat (erasesize (lower ni))"
    "unat (erasesize (lower ni)) \<le> 2 ^ 31"
proof -
  from assms obtain k where k: "unat (writesize (lower ni)) = 2 ^ k" "k \<le> unat (erasesize_shift ni)"
    and e: "unat (erasesize (lower ni)) = 2 ^ unat (erasesize_shift ni)" "unat (erasesize_shift ni) < 32"
    by (auto simp: geom_def)
  show "0 < unat (writesize (lower ni))" "0 < unat (erasesize (lower ni))" using k e by simp_all
  show "unat (writesize (lower ni)) dvd unat (erasesize (lower ni))"
    using k e by (simp add: le_imp_power_dvd)
  show "unat (writesize (lower ni)) \<le> unat (erasesize (lower ni))" using k e by simp
  show "unat (erasesize (lower ni)) \<le> 2 ^ 31"
    unfolding e(1) by (rule power_increasing) (use e(2) in auto)
qed

lemma geom_es: "geom ni \<Longrightarrow> unat (erasesize (lower ni)) = 2 ^ unat (erasesize_shift ni)"
  and geom_shift: "geom ni \<Longrightarrow> unat (erasesize_shift ni) < 32"
  by (auto simp: geom_def)

lemma unat_plus_u64: "unat a + unat b < 2 ^ 64 \<Longrightarrow> unat (a + b :: u64) = unat a + unat b"
  by (simp add: unat_word_ariths)

lemma unat_plus_u32: "unat a + unat b < 2 ^ 32 \<Longrightarrow> unat (a + b :: u32) = unat a + unat b"
  by (simp add: unat_word_ariths)

lemma unat_minus_le: "b \<le> a \<Longrightarrow> unat (a - b :: 'a::len word) = unat a - unat b"
  by (rule unat_sub)

lemma ba2addr_bound: "geom ni \<Longrightarrow> unat (ba2addr ni ba) + unat (erasesize (lower ni)) \<le> 2 ^ 63"
proof -
  assume g: "geom ni"
  have "unat (ba2addr ni ba) + unat (erasesize (lower ni)) = Suc (unat ba) * unat (erasesize (lower ni))"
    by (simp add: unat_ba2addr [OF geom_shift [OF g]] geom_es [OF g])
  also have "\<dots> \<le> 2 ^ 32 * 2 ^ 31"
    by (rule mult_le_mono) (use unsigned_less [of ba, where ?'a = nat] geom_sizes(5) [OF g] in auto)
  finally show ?thesis by simp
qed

lemma page_in_block:
  assumes g: "geom ni" and ba: "ba \<in> B" and off: "unat off < unat (erasesize (lower ni))"
  shows "ba2addr ni ba + off \<in> in_blocks ni B"
proof (rule block_addr_in [OF geom_shift [OF g] ba])
  show "unat (ba2addr ni ba + off) = unat (ba2addr ni ba) + unat off"
    by (rule unat_plus_u64) (use ba2addr_bound [OF g, of ba] off in simp)
  show "unat off < 2 ^ unat (erasesize_shift ni)" using off by (simp add: geom_es [OF g])
qed

lemma ucast_less_u64: "off < (ucast (e :: u32) :: u64) \<longleftrightarrow> unat off < unat e"
  by (simp add: word_less_nat_alt)

lemma page_advance:
  assumes "geom ni" and "unat off < unat (erasesize (lower ni))"
  shows "unat (off + ucast (writesize (lower ni)) :: u64) = unat off + unat (writesize (lower ni))"
  by (rule trans [OF unat_plus_u64]) (use assms geom_sizes [OF assms(1)] in auto)

section \<open>Every operation wears at most its blocks\<close>

lemma wp_worn_trans:
  "worn B ni nj \<Longrightarrow> wp m (\<lambda>(x, n). worn B nj n) \<Longrightarrow> wp m (\<lambda>(x, n). worn B ni n)"
  by (erule wp_mono) (auto intro: worn_trans)

lemma wp_worn_trans1: "worn B ni nj \<Longrightarrow> wp m (worn B nj) \<Longrightarrow> wp m (worn B ni)"
  by (erule wp_mono) (rule worn_trans)

lemma read_to_cache_worn: "read_to_page_cache ni addr mode = (ret, ni') \<Longrightarrow> worn B ni ni'"
  by (rule worn_chip) (rule read_to_cache_evolves)

lemma check_bad_worn: "nmbm_check_bad_phys_block ni ba = (bad, ni') \<Longrightarrow> worn B ni ni'"
  by (rule worn_chip) (rule check_bad_evolves)

lemma erase_phys_worn:
  "geom ni \<Longrightarrow> ba \<in> B \<Longrightarrow> nmbm_erase_phys_block ni (ba2addr ni ba) = (ok, ni') \<Longrightarrow> worn B ni ni'"
  using page_in_block [of ni ba B 0] geom_sizes(2) [of ni]
  by (intro worn_chip erase_phys_evolves) auto

text \<open>The check reads only: it leaves the tables alone.\<close>

lemma erase_check_pages_wp:
  "geom ni \<Longrightarrow> wp (erase_check_pages ni addr off) (\<lambda>(ok, ni'). chip_evolves A ni ni')"
proof (induction "unat (erasesize (lower ni)) - unat off" arbitrary: ni off rule: less_induct)
  case less
  show ?case
  proof (cases "off < ucast (erasesize (lower ni))")
    case True
    obtain ret nj where r: "read_to_page_cache ni (addr + off) NMBM_MODE_PLACE_OOB = (ret, nj)"
      by fastforce
    have w: "worn {} ni nj" using r by (rule read_to_cache_worn)
    have e: "chip_evolves A ni nj" using r by (rule read_to_cache_evolves)
    have g: "geom nj" using w less.prems by (simp add: worn_geom)
    have lt: "unat off < unat (erasesize (lower ni))" using True by (simp add: ucast_less_u64)
    have "wp (erase_check_pages nj addr (off + ucast (writesize (lower nj)))) (\<lambda>(ok, ni'). chip_evolves A nj ni')"
      by (rule less.hyps [OF _ g])
        (use lt less.prems geom_sizes(1) [OF less.prems] in
          \<open>simp add: worn_frame(1) [OF w] page_advance [OF less.prems]\<close>)
    then show ?thesis
      by (subst erase_check_pages.simps)
        (auto simp: True r e Let_def split: prod.splits elim!: wp_mono intro: chip_evolves_trans [OF e])
  next
    case False
    then show ?thesis by (subst erase_check_pages.simps) auto
  qed
qed

lemma erase_block_and_check_chip:
  assumes "geom ni" and "ba \<in> B"
  shows "wp (nmbm_erase_block_and_check ni ba) (\<lambda>(ok, ni'). chip_evolves (in_blocks ni B) ni ni')"
proof -
  obtain ok nj where e: "nmbm_erase_phys_block ni (ba2addr ni ba) = (ok, nj)" by fastforce
  have c: "chip_evolves (in_blocks ni B) ni nj"
    by (rule erase_phys_evolves [OF _ e])
      (use page_in_block [OF assms, of 0] geom_sizes(2) [OF assms(1)] in simp)
  have "geom nj" using worn_chip [OF c] assms by (simp add: worn_geom)
  from erase_check_pages_wp [OF this]
  have "wp (erase_check_pages nj (ba2addr ni ba) 0) (\<lambda>(ok, ni'). chip_evolves (in_blocks ni B) ni ni')"
    by (rule wp_pair) (rule chip_evolves_trans [OF c])
  then show ?thesis
    by (simp add: nmbm_erase_block_and_check_def e c worn_ba2addr [OF worn_chip [OF c]])
qed

lemma erase_block_and_check_wp [wp_intro]:
  assumes "geom ni" and "ba \<in> B"
  shows "wp (nmbm_erase_block_and_check ni ba) (\<lambda>(ok, ni'). worn B ni ni')"
  by (rule wp_pair [OF erase_block_and_check_chip [OF assms]]) (rule worn_chip)

lemma mark_bad_pages_wp:
  "geom ni \<Longrightarrow> ba \<in> B \<Longrightarrow>
   wp (mark_bad_pages ni (ba2addr ni ba) off) (\<lambda>ni'. chip_evolves (in_blocks ni B) ni ni')"
proof (induction "unat (erasesize (lower ni)) - unat off" arbitrary: ni off rule: less_induct)
  case less
  note g = less.prems(1)
  show ?case
  proof (cases "off < erasesize (lower ni)")
    case True
    then have lt: "unat off < unat (erasesize (lower ni))" by (simp add: word_less_nat_alt)
    obtain ok nj where wr: "nmbm_write_phys_page ni (ba2addr ni ba + ucast off) (Some (cache_data ni))
        (Some (cache_oob ni)) NMBM_MODE_RAW = (ok, nj)" by fastforce
    have e: "chip_evolves (in_blocks ni B) ni nj"
      by (rule write_phys_evolves [OF page_in_block [OF g less.prems(2)] wr]) (simp add: lt)
    then have w: "worn B ni nj" by (rule worn_chip)
    have gj: "geom nj" using w g by (simp add: worn_geom)
    have adv: "unat (off + writesize (lower ni)) = unat off + unat (writesize (lower ni))"
      by (rule unat_plus_u32) (use lt geom_sizes [OF g] in auto)
    have "wp (mark_bad_pages nj (ba2addr nj ba) (off + writesize (lower nj)))
        (\<lambda>ni'. chip_evolves (in_blocks nj B) nj ni')"
      by (rule less.hyps [OF _ gj less.prems(2)])
        (use lt geom_sizes(1) [OF g] in \<open>simp add: worn_frame(1) [OF w] adv\<close>)
    then show ?thesis
      by (subst mark_bad_pages.simps)
        (auto simp: True wr Let_def worn_ba2addr [OF w] worn_in_blocks [OF w]
          elim!: wp_mono intro: chip_evolves_trans [OF e])
  next
    case False
    then show ?thesis by (subst mark_bad_pages.simps) auto
  qed
qed


lemma mark_phys_bad_wp:
  assumes g: "geom ni" and ba: "ba \<in> B"
  shows "wp (nmbm_mark_phys_bad_block ni ba) (\<lambda>(r, ni'). worn B ni ni')"
proof (cases "has_flag ni NMBM_F_READ_ONLY")
  case True
  then show ?thesis by (auto simp: nmbm_mark_phys_bad_block_def)
next
  case ro: False
  show ?thesis
  proof (cases "mark_bad_block (lower ni)")
    case (Some f)
    obtain r d where f: "f (chip ni) (ba2addr ni ba) = (r, d)" by fastforce
    have "lower_call (lower ni) (in_blocks ni B) (chip ni) d"
      by (rule call_mark [OF Some _ f]) (use page_in_block [OF g ba, of 0] geom_sizes(2) [OF g] in simp)
    then have "worn B ni (set_chip d ni)" by (intro worn_chip chip_evolves_call)
    then show ?thesis by (simp add: nmbm_mark_phys_bad_block_def ro Some f Let_def)
  next
    case None
    let ?ni = "ni\<lparr>page_cache := memset_at (page_cache ni) 0 0 (unat (rawpage_size ni)),
                  log_display_level := NMBM_LOG_MAX\<rparr>"
    have "geom ?ni" using g by (simp add: geom_def)
    have "wp (mark_bad_pages ?ni (ba2addr ni ba) 0)
        (\<lambda>ni'. worn B ni (ni'\<lparr>log_display_level := log_display_level ni\<rparr>))"
    proof (rule wp_mono [of "mark_bad_pages ?ni (ba2addr ni ba) 0"])
      show "wp (mark_bad_pages ?ni (ba2addr ni ba) 0) (chip_evolves (in_blocks ni B) ?ni)"
        using mark_bad_pages_wp [OF \<open>geom ?ni\<close> ba, of 0] by (simp add: ba2addr_def in_blocks_def)
    next
      fix n assume "chip_evolves (in_blocks ni B) ?ni n"
      then obtain d pc where n: "n = (set_chip d ?ni)\<lparr>page_cache := pc\<rparr>"
        and c: "(lower_call (lower ni) (in_blocks ni B))\<^sup>*\<^sup>* (chip ni) d"
        by (auto simp: chip_evolves_def chip_def)
      have "chip_evolves (in_blocks ni B) ni (n\<lparr>log_display_level := log_display_level ni\<rparr>)"
        unfolding chip_evolves_def
        by (rule exI [of _ d], rule exI [of _ pc]) (simp add: n c set_chip_def)
      then show "worn B ni (n\<lparr>log_display_level := log_display_level ni\<rparr>)" by (rule worn_chip)
    qed
    then show ?thesis
      by (simp add: nmbm_mark_phys_bad_block_def ro None Let_def nmbm_set_log_level_def)
  qed
qed

text \<open>A block that was good is good or bad after a step.\<close>

lemma worn_good: "worn B ni n \<Longrightarrow> nmbm_get_block_state ni ba = BLOCK_ST_GOOD \<Longrightarrow>
   nmbm_get_block_state n ba = BLOCK_ST_GOOD \<or> nmbm_get_block_state n ba = BLOCK_ST_BAD"
  unfolding worn_def wears_def by metis

lemma worn_still_bad: "worn B ni n \<Longrightarrow> nmbm_get_block_state ni ba \<noteq> BLOCK_ST_GOOD \<Longrightarrow>
   nmbm_get_block_state n ba = nmbm_get_block_state ni ba"
  unfolding worn_def by (blast intro: state_table.wears_still_bad)

lemma worn_set_bad':
  assumes "in_table ni ba" "ba \<in> B"
    and st: "nmbm_get_block_state ni ba = BLOCK_ST_GOOD \<or> nmbm_get_block_state ni ba = BLOCK_ST_BAD"
  shows "worn B ni (set_block_state ni ba BLOCK_ST_BAD)"
proof (cases "nmbm_get_block_state ni ba = BLOCK_ST_GOOD")
  case True
  with assms(1,2) show ?thesis by (rule worn_set_bad)
next
  case False
  with st have bad: "nmbm_get_block_state ni ba = BLOCK_ST_BAD" by blast
  then have "nmbm_get_block_state (set_block_state ni ba BLOCK_ST_BAD) a = nmbm_get_block_state ni a" for a
    using assms(1) by (cases "a = ba") (simp_all add: get_set_same get_set_other)
  with bad show ?thesis
    by (simp add: worn_def wears_def keep_tables_set set_block_state_changed)
qed

lemma retire_block_wp [wp_intro]:
  assumes "geom ni" "ba \<in> B" "in_table ni ba"
    and "nmbm_get_block_state ni ba = BLOCK_ST_GOOD \<or> nmbm_get_block_state ni ba = BLOCK_ST_BAD"
  shows "wp (retire_block ni ba) (\<lambda>ni'. worn B ni ni')"
proof -
  have "worn B ni (set_block_state n ba BLOCK_ST_BAD)" if w: "worn B ni n" for n
  proof (rule worn_trans [OF w worn_set_bad'])
    show "in_table n ba" using assms(3) w by (simp add: worn_in_table)
    show "nmbm_get_block_state n ba = BLOCK_ST_GOOD \<or> nmbm_get_block_state n ba = BLOCK_ST_BAD"
      using assms(4) worn_good [OF w, of ba] worn_still_bad [OF w, of ba] by auto
  qed (rule assms)
  then show ?thesis
    using mark_phys_bad_wp [OF assms(1,2)] by (auto simp: retire_block_def elim!: wp_pair)
qed

lemma check_bad_same_get:
  "nmbm_check_bad_phys_block ni ba = (bad, ni') \<Longrightarrow>
   nmbm_get_block_state ni' a = nmbm_get_block_state ni a"
  by (drule check_bad_evolves [where A = "{}"])
    (auto simp: chip_evolves_def set_chip_def nmbm_get_block_state_def)

lemma in_table_block_count: "geom ni \<Longrightarrow> ba < block_count ni \<Longrightarrow> in_table ni ba"
  by (simp add: geom_def in_table_def word_less_nat_alt)

text \<open>The step all loops over the blocks of a range share: what happens to the block at \<open>ba\<close>, where
  \<open>next\<close> is the rest of the loop, \<open>attempt\<close> the attempt to use the block and \<open>fin\<close> what follows its
  success.\<close>

lemma block_step_wp:
  assumes g: "geom ni" and ba: "ba \<in> B" "in_table ni ba"
    and rest: "\<And>nj. worn B ni nj \<Longrightarrow> wp (rest nj) Q"
    and attempt: "\<And>nj. worn B ni nj \<Longrightarrow> geom nj \<Longrightarrow>
      wp (attempt nj) (\<lambda>(ok, n). worn B nj n \<and> (ok \<longrightarrow> wp (fin n) Q))"
  shows "wp (if nmbm_get_block_state ni ba \<noteq> BLOCK_ST_GOOD then rest ni
     else let (bad, nj) = nmbm_check_bad_phys_block ni ba
       in if bad then rest (set_block_state nj ba BLOCK_ST_BAD)
          else do { (ok, n) \<leftarrow> attempt nj;
                    if ok then fin n else do { n \<leftarrow> retire_block n ba; rest n } }) Q"
proof (cases "nmbm_get_block_state ni ba = BLOCK_ST_GOOD")
  case good: True
  obtain bad nj where ch: "nmbm_check_bad_phys_block ni ba = (bad, nj)" by fastforce
  have w: "worn B ni nj" using ch by (rule check_bad_worn)
  have gj: "geom nj" using g w by (simp add: worn_geom)
  have goodj: "nmbm_get_block_state nj ba = BLOCK_ST_GOOD" using good ch by (simp add: check_bad_same_get)
  have itj: "in_table nj ba" using ba w by (simp add: worn_in_table)
  have "wp (rest (set_block_state nj ba BLOCK_ST_BAD)) Q"
    by (rule rest) (rule worn_trans [OF w worn_set_bad [OF itj ba(1) goodj]])
  moreover have "wp (attempt nj) (\<lambda>(ok, n). if ok then wp (fin n) Q
      else wp (retire_block n ba) (\<lambda>n. wp (rest n) Q))"
  proof (rule wp_pair [OF attempt [OF w gj]])
    fix ok n assume a: "worn B nj n \<and> (ok \<longrightarrow> wp (fin n) Q)"
    have "wp (retire_block n ba) (worn B n)"
      by (rule retire_block_wp)
        (use a gj ba itj goodj in \<open>auto simp: worn_geom worn_in_table dest: worn_good\<close>)
    then have "wp (retire_block n ba) (\<lambda>n. wp (rest n) Q)"
      by (rule wp_mono) (use a w in \<open>blast intro: rest worn_trans\<close>)
    with a show "if ok then wp (fin n) Q else wp (retire_block n ba) (\<lambda>n. wp (rest n) Q)" by simp
  qed
  ultimately show ?thesis by (simp add: good ch cong: if_cong) 
next
  case False
  then show ?thesis using rest [OF worn_refl] by simp
qed

lemma word_Ico_Suc: "(ba :: u32) < limit \<Longrightarrow> {ba + 1..<limit} \<subseteq> {ba..<limit}"
  by (auto simp: word_le_nat_alt unat_Suc_less)

lemma erase_range_wp [wp_intro]:
  "geom ni \<Longrightarrow> limit \<le> block_count ni \<Longrightarrow> {ba..<limit} \<subseteq> B \<Longrightarrow>
   wp (nmbm_erase_range ni ba limit) (\<lambda>ni'. worn B ni ni')"
proof (induction "unat limit - unat ba" arbitrary: ni ba rule: less_induct)
  case less
  note g = less.prems(1)
  show ?case
  proof (cases "ba < limit")
    case lt: True
    have sub: "{ba + 1..<limit} \<subseteq> B" using word_Ico_Suc [OF lt] less.prems(3) by (rule order_trans)
    have rest: "wp (nmbm_erase_range nj (ba + 1) limit) (worn B ni)" if w: "worn B ni nj" for nj
      by (rule wp_worn_trans1 [OF w], rule less.hyps [OF unat_up [OF lt] _ _ sub])
        (use g w less.prems(2) in \<open>simp_all add: worn_geom worn_frame\<close>)
    have inB: "ba \<in> B" using lt less.prems(3) by auto
    have it: "in_table ni ba" using g lt less.prems(2) by (auto intro: in_table_block_count)
    show ?thesis
    proof (subst nmbm_erase_range.simps, simp only: lt if_True, rule block_step_wp [OF g inB it rest])
      fix nj assume w: "worn B ni nj" and gj: "geom nj"
      show "wp (nmbm_erase_block_and_check nj ba)
          (\<lambda>(ok, n). worn B nj n \<and> (ok \<longrightarrow> wp (nmbm_erase_range n (ba + 1) limit) (worn B ni)))"
        by (rule wp_pair [OF erase_block_and_check_wp [OF gj inB]])
          (use w in \<open>blast intro: rest worn_trans\<close>)
    qed
  next
    case False
    then show ?thesis by (subst nmbm_erase_range.simps) auto
  qed
qed

section \<open>Pages and chunks\<close>

lemma mask_mod:
  assumes w: "unat (w :: u32) = 2 ^ k" and k: "k < 32"
  shows "unat (off AND ucast (w - 1) :: u64) = unat off mod unat w"
proof -
  have "w = 2 ^ k" using w by (metis of_nat_power of_nat_numeral of_nat_unat ucast_id)
  then have "w - 1 = mask k" by (simp add: mask_eq_exp_minus_1)
  then have "ucast (w - 1) = (mask k :: u64)"
    using k by (simp only:) (rule bit_word_eqI, auto simp: bit_simps)
  then have "off AND ucast (w - 1) = take_bit k off" by (simp only: take_bit_eq_mask)
  then show ?thesis by (simp only: w unsigned_take_bit_eq) (simp only: take_bit_eq_mod)
qed

lemma leading_mod:
  assumes "geom ni"
  shows "unat (off AND ucast (writesize_mask ni) :: u64) = unat off mod unat (writesize (lower ni))"
  using assms mask_mod [of "writesize (lower ni)" _ off] by (auto simp: geom_def)

lemma block_offset_mod:
  assumes "geom ni"
  shows "unat (off AND ucast (erasesize_mask ni) :: u64) = unat off mod unat (erasesize (lower ni))"
  using assms mask_mod [of "erasesize (lower ni)" _ off] by (auto simp: geom_def)

lemma chunk_leading_mod:
  assumes "geom ni"
  shows "unat (chunk_leading ni off) = unat off mod unat (writesize (lower ni))"
proof -
  have "unat off mod unat (writesize (lower ni)) < unat (writesize (lower ni))"
    using geom_sizes(1) [OF assms] by simp
  also have "\<dots> \<le> 2 ^ 31" using geom_sizes(4,5) [OF assms] by (rule order_trans)
  finally have "unat off mod unat (writesize (lower ni)) < 2 ^ 32" by simp
  then show ?thesis
    by (simp add: chunk_leading_def leading_mod [OF assms] unsigned_ucast_eq take_bit_nat_eq_self)
qed

lemma chunk_size_min:
  assumes "geom ni" and "sz \<noteq> 0"
  shows "unat (chunk_size ni (chunk_leading ni off) sz) =
      min (unat sz) (unat (writesize (lower ni)) - unat off mod unat (writesize (lower ni)))"
    "0 < unat (chunk_size ni (chunk_leading ni off) sz)"
    "chunk_size ni (chunk_leading ni off) sz \<le> sz"
proof -
  let ?w = "unat (writesize (lower ni))" and ?l = "chunk_leading ni off"
  have lt: "unat off mod ?w < ?w" using geom_sizes(1) [OF assms(1)] by simp
  have sub: "unat (writesize (lower ni) - ?l) = ?w - unat off mod ?w"
    using lt by (subst unat_minus_le) (simp_all add: word_le_nat_alt chunk_leading_mod [OF assms(1)])
  show m: "unat (chunk_size ni ?l sz) = min (unat sz) (?w - unat off mod ?w)"
    by (simp add: chunk_size_def Let_def word_less_nat_alt sub min_def)
  have "0 < unat sz" using assms(2) by (simp add: unat_gt_0)
  then show "0 < unat (chunk_size ni ?l sz)" using lt by (simp add: m)
  show "chunk_size ni ?l sz \<le> sz" by (simp add: word_le_nat_alt m)
qed

text \<open>The page an offset of a block is in starts inside the block.\<close>

lemma page_start_in:
  assumes g: "geom ni" and ba: "ba \<in> B"
    and off: "unat off = unat (ba2addr ni ba) + p" "p < unat (erasesize (lower ni))"
  shows "off - ucast (chunk_leading ni off) \<in> in_blocks ni B"
proof (rule block_addr_in [OF geom_shift [OF g] ba])
  let ?w = "unat (writesize (lower ni))"
  have "?w dvd unat (ba2addr ni ba)"
    using geom_sizes(3) [OF g] by (simp add: unat_ba2addr [OF geom_shift [OF g]] flip: geom_es [OF g])
  then have m: "unat off mod ?w = p mod ?w" by (simp add: off(1) mod_add_left_eq dvd_imp_mod_0 flip: mod_add_eq)
  have "unat (off - ucast (chunk_leading ni off)) = unat off - p mod ?w"
    by (subst unat_minus_le) (simp_all add: word_le_nat_alt chunk_leading_mod [OF g] flip: m)
  then show "unat (off - ucast (chunk_leading ni off)) = unat (ba2addr ni ba) + (p - p mod ?w)"
    by (simp add: off(1))
  show "p - p mod ?w < 2 ^ unat (erasesize_shift ni)" using off(2) by (simp add: geom_es [OF g])
qed

lemma read_phys_worn: "nmbm_read_phys_page ni addr data oob mode = (ret, d, b, ni') \<Longrightarrow> worn B ni ni'"
  by (rule worn_chip) (rule read_phys_evolves)

lemma write_phys_worn:
  "addr \<in> in_blocks ni B \<Longrightarrow> nmbm_write_phys_page ni addr data oob mode = (ok, ni') \<Longrightarrow> worn B ni ni'"
  by (rule worn_chip) (rule write_phys_evolves)

lemma page_cache_worn: "worn B ni (ni\<lparr>page_cache := pc\<rparr>)"
  by (rule worn_chip) (rule chip_evolves_page_cache)

lemma unat_minus_less: "c \<le> sz \<Longrightarrow> 0 < unat c \<Longrightarrow> unat (sz - c :: 'a::len word) < unat sz"
  by (subst unat_minus_le) (simp_all add: word_le_nat_alt)

lemma read_data_loop_wp:
  "geom ni \<Longrightarrow> wp (read_data_loop ni off data pos sz) (\<lambda>x. fst x \<le> 0 \<and> worn B ni (snd (snd x)))"
proof (induction "unat sz" arbitrary: ni off data pos sz rule: less_induct)
  case less
  note g = less.prems
  show ?case
  proof (cases "sz = 0")
    case True
    then show ?thesis by (subst read_data_loop.simps) auto
  next
    case False
    let ?c = "chunk_size ni (chunk_leading ni off) sz"
    have m: "unat (sz - ?c) < unat sz"
      using chunk_size_min [OF g False] by (intro unat_minus_less)
    have rest: "wp (read_data_loop nj o' d' p' s') (\<lambda>x. fst x \<le> 0 \<and> worn B ni (snd (snd x)))"
      if w: "worn B ni nj" and "unat s' < unat sz" for nj o' d' p' s'
      by (rule wp_mono [OF less.hyps [OF that(2)]]) (use g w in \<open>auto simp: worn_geom intro: worn_trans\<close>)
    obtain r d b n1 where 1: "nmbm_read_phys_page ni (off - ucast (chunk_leading ni off))
        (Some (slice pos (unat (writesize (lower ni))) data)) None NMBM_MODE_PLACE_OOB = (r, d, b, n1)"
      by (metis prod_cases4)
    obtain q n2 where 2: "read_to_page_cache ni (off - ucast (chunk_leading ni off)) NMBM_MODE_PLACE_OOB = (q, n2)"
      by fastforce
    note w = read_phys_worn [OF 1, of B] read_to_cache_worn [OF 2, of B]
    show ?thesis
      by (subst read_data_loop.simps; cases "?c = writesize (lower ni)")
        (use w m in \<open>auto simp: False Let_def 1 2 intro!: rest\<close>)
  qed
qed

lemma read_data_wp [wp_intro]:
  "geom ni \<Longrightarrow> wp (nmbn_read_data ni addr data sz) (\<lambda>(ret, buf, ni'). ret \<le> 0 \<and> worn B ni ni')"
  unfolding nmbn_read_data_def by (rule wp_mono [OF read_data_loop_wp]) auto

lemma write_verify_loop_wp:
  "geom ni \<Longrightarrow> ba \<in> B \<Longrightarrow> unat off = unat (ba2addr ni ba) + p \<Longrightarrow>
   p + unat sz \<le> unat (erasesize (lower ni)) \<Longrightarrow>
   wp (write_verify_loop ni off data pos sz) (\<lambda>(ok, ni'). worn B ni ni')"
proof (induction "unat sz" arbitrary: ni off pos sz p rule: less_induct)
  case less
  note g = less.prems(1)
  show ?case
  proof (cases "sz = 0")
    case True
    then show ?thesis by (subst write_verify_loop.simps) auto
  next
    case False
    let ?l = "chunk_leading ni off"
    let ?c = "chunk_size ni ?l sz"
    have m: "unat (sz - ?c) < unat sz"
      using chunk_size_min [OF g False] by (intro unat_minus_less)
    have le: "unat ?c \<le> unat sz" using chunk_size_min(3) [OF g False] by (simp add: word_le_nat_alt)
    have "0 < unat sz" using False by (simp add: unat_gt_0)
    then have inB: "off - ucast ?l \<in> in_blocks ni B"
      using less.prems by (intro page_start_in [OF g, of ba]) auto
    have adv: "unat (off + ucast ?c) = unat (ba2addr ni ba) + (p + unat ?c)"
      by (subst unat_plus_u64)
        (use le less.prems(3,4) ba2addr_bound [OF g, of ba] in simp_all)
    have rest: "wp (write_verify_loop nj (off + ucast ?c) data p' (sz - ?c)) (\<lambda>(ret, ni'). worn B ni ni')"
      if w: "worn B ni nj" for nj p'
    proof (rule wp_worn_trans [OF w less.hyps [OF m]])
      show "geom nj" using g w by (simp add: worn_geom)
      show "unat (off + ucast ?c) = unat (ba2addr nj ba) + (p + unat ?c)"
        by (simp add: adv worn_ba2addr [OF w])
      show "p + unat ?c + unat (sz - ?c) \<le> unat (erasesize (lower nj))"
        using less.prems(4) le by (subst unat_minus_le) (simp_all add: word_le_nat_alt worn_frame(1) [OF w])
    qed (rule less.prems)
    have step: "worn B ni nk"
      if "nmbm_write_phys_page (ni\<lparr>page_cache := pc\<rparr>) (off - ucast ?l) d o' mode = (ok, nk)" for pc d o' mode ok nk
      by (rule worn_trans [OF page_cache_worn write_phys_worn [OF _ that]]) (use inB in \<open>simp add: in_blocks_def\<close>)
    have l: "chunk_leading (ni\<lparr>page_cache := pc\<rparr>) off = ?l" "chunk_size (ni\<lparr>page_cache := pc\<rparr>) x y = chunk_size ni x y" for pc x y
      by (simp_all add: chunk_leading_def chunk_size_def)
    show ?thesis
      by (subst write_verify_loop.simps)
        (auto simp: False Let_def l split: prod.splits dest!: step intro!: rest
          dest: read_to_cache_worn [where B = B] intro: worn_trans)
  qed
qed

lemma write_verify_wp [wp_intro]:
  "geom ni \<Longrightarrow> ba \<in> B \<Longrightarrow> sz \<le> erasesize (lower ni) \<Longrightarrow>
   wp (nmbn_write_verify_data ni (ba2addr ni ba) data sz) (\<lambda>(ok, ni'). worn B ni ni')"
  unfolding nmbn_write_verify_data_def
  by (rule write_verify_loop_wp [where p = 0]) (simp_all add: word_le_nat_alt)

lemma write_repeated_pages_wp:
  "geom ni \<Longrightarrow> ba \<in> B \<Longrightarrow> wp (write_repeated_pages ni (ba2addr ni ba) data sz off) (\<lambda>(ok, ni'). worn B ni ni')"
proof (induction "unat (erasesize (lower ni)) - unat off" arbitrary: ni off rule: less_induct)
  case less
  note g = less.prems(1)
  show ?case
  proof (cases "off < ucast (erasesize (lower ni))")
    case False
    then show ?thesis by (subst write_repeated_pages.simps) auto
  next
    case True
    then have lt: "unat off < unat (erasesize (lower ni))" by (simp add: ucast_less_u64)
    have inB: "ba2addr ni ba + off \<in> in_blocks ni B" by (rule page_in_block [OF g less.prems(2) lt])
    have rest: "wp (write_repeated_pages nj (ba2addr ni ba) data sz (off + ucast (writesize (lower nj)))) (\<lambda>(ok, ni'). worn B ni ni')"
      if w: "worn B ni nj" for nj
    proof -
      have "unat (off + ucast (writesize (lower nj))) = unat off + unat (writesize (lower ni))"
        by (simp add: page_advance [OF g lt] worn_frame(1) [OF w])
      then have "wp (write_repeated_pages nj (ba2addr nj ba) data sz (off + ucast (writesize (lower nj)))) (\<lambda>(ok, ni'). worn B nj ni')"
        by (intro less.hyps)
          (use lt g w less.prems(2) geom_sizes(1) [OF g] in \<open>simp_all add: worn_geom worn_frame(1) [OF w]\<close>)
      then show ?thesis using wp_worn_trans [OF w] by (simp add: worn_ba2addr [OF w])
    qed
    have step: "worn B ni nk"
      if "nmbm_write_phys_page (ni\<lparr>page_cache := pc\<rparr>) (ba2addr ni ba + off) d o' mode = (ok, nk)" for pc d o' mode ok nk
      by (rule worn_trans [OF page_cache_worn write_phys_worn [OF _ that]]) (use inB in \<open>simp add: in_blocks_def\<close>)
    show ?thesis
      by (subst write_repeated_pages.simps)
        (auto simp: True Let_def split: prod.splits dest!: step intro!: rest
          dest: read_to_cache_worn [where B = B] intro: worn_trans)
  qed
qed

lemma write_repeated_wp [wp_intro]:
  "geom ni \<Longrightarrow> ba \<in> B \<Longrightarrow> wp (nmbm_write_repeated_data ni ba data sz) (\<lambda>(ok, ni'). worn B ni ni')"
  by (auto simp: nmbm_write_repeated_data_def intro!: write_repeated_pages_wp)

section \<open>Signature and management data\<close>

text \<open>Two attempts in a row, as \<open>block_step_wp\<close> wants them.\<close>

lemma bind_step:
  "Option.bind m (\<lambda>(ok, n). Option.bind (f ok n) K) = Option.bind (Option.bind m (\<lambda>(ok, n). f ok n)) K"
  by (cases m) auto

lemma erase_then_wp:
  assumes gj: "geom nj" and inB: "ba \<in> B" and w: "worn B ni nj"
    and f: "\<And>n. worn B nj n \<Longrightarrow> geom n \<Longrightarrow> wp (f n) (\<lambda>(ok, n'). worn B n n')"
    and fin: "\<And>n. worn B ni n \<Longrightarrow> wp (fin n) Q"
  shows "wp (Option.bind (nmbm_erase_block_and_check nj ba) (\<lambda>(ok, n). if \<not> ok then Some (False, n) else f n))
    (\<lambda>(ok, n). worn B nj n \<and> (ok \<longrightarrow> wp (fin n) Q))"
proof -
  have "wp (if \<not> ok then Some (False, n) else f n) (\<lambda>(ok, n). worn B nj n \<and> (ok \<longrightarrow> wp (fin n) Q))"
    if wn: "worn B nj n" for ok n
  proof -
    have gn: "geom n" using gj wn by (simp add: worn_geom)
    have "wp (f n) (\<lambda>(ok, n). worn B nj n \<and> (ok \<longrightarrow> wp (fin n) Q))"
      by (rule wp_pair [OF f [OF wn gn]]) (use w wn in \<open>blast intro: fin worn_trans\<close>)
    with wn show ?thesis by simp
  qed
  then show ?thesis
    unfolding wp_bind by (intro wp_mono [OF erase_block_and_check_wp [OF gj inB]]) (auto split: prod.splits)
qed

lemma word_pred_bound: "(limit :: u32) < ba \<Longrightarrow> {limit<..ba - 1} \<subseteq> {limit<..ba}"
  by (auto simp: word_le_nat_alt unat_pred)

lemma write_signature_loop_wp:
  "geom ni \<Longrightarrow> ba < block_count ni \<Longrightarrow> {limit<..ba} \<subseteq> B \<Longrightarrow>
   wp (write_signature_loop ni ba limit sig) (\<lambda>x. worn B ni (snd x) \<and> (\<forall>s. fst x = Some s \<longrightarrow> s \<in> B))"
proof (induction "unat ba" arbitrary: ni ba rule: less_induct)
  case less
  note g = less.prems(1)
  let ?Q = "\<lambda>x. worn B ni (snd x) \<and> (\<forall>s. fst x = Some s \<longrightarrow> s \<in> B)"
  show ?case
  proof (cases "limit < ba")
    case lt: True
    have sub: "{limit<..ba - 1} \<subseteq> B" using word_pred_bound [OF lt] less.prems(3) by (rule order_trans)
    have "ba - 1 < block_count ni"
      using less.prems(2) unat_down [OF lt] by (simp add: word_less_nat_alt)
    then have rest: "wp (write_signature_loop nj (ba - 1) limit sig) ?Q" if w: "worn B ni nj" for nj
      by (intro wp_mono [OF less.hyps [OF unat_down [OF lt] _ _ sub]])
        (use g w in \<open>auto simp: worn_geom worn_frame intro: worn_trans\<close>)
    have inB: "ba \<in> B" using lt less.prems(3) by auto
    have it: "in_table ni ba" using g less.prems(2) by (auto intro: in_table_block_count)
    show ?thesis
    proof (subst write_signature_loop.simps, simp only: lt if_True bind_step,
        rule block_step_wp [OF g inB it rest])
      fix nj assume w: "worn B ni nj" and gj: "geom nj"
      show "wp (Option.bind (nmbm_erase_block_and_check nj ba)
             (\<lambda>(ok, n). if \<not> ok then Some (False, n)
                else nmbm_write_repeated_data n ba sig (of_nat sizeof_signature)))
          (\<lambda>(ok, n). worn B nj n \<and> (ok \<longrightarrow> wp (Some (Some ba, n)) ?Q))"
        by (rule erase_then_wp [OF gj inB w]) (use inB in \<open>auto intro: write_repeated_wp\<close>)
    qed
  next
    case False
    then show ?thesis by (subst write_signature_loop.simps) auto
  qed
qed

lemma write_mgmt_loop_wp:
  "geom ni \<Longrightarrow> limit \<le> block_count ni \<Longrightarrow> {ba..<limit} \<subseteq> B \<Longrightarrow> lo \<le> ba \<Longrightarrow>
   sz \<noteq> 0 \<and> sizeremain = sz \<or> lo \<le> start \<and> start < ba \<and> ba \<le> limit \<Longrightarrow>
   wp (write_mgmt_loop ni ba limit data pos sz sizeremain start)
     (\<lambda>x. worn B ni (snd x) \<and> (\<forall>s e. fst x = Some (s, e) \<longrightarrow> lo \<le> s \<and> s < e \<and> e \<le> limit))"
proof (induction "unat limit - unat ba" arbitrary: ni ba pos sizeremain start rule: less_induct)
  case less
  note g = less.prems(1)
  let ?Q = "\<lambda>x. worn B ni (snd x) \<and> (\<forall>s e. fst x = Some (s, e) \<longrightarrow> lo \<le> s \<and> s < e \<and> e \<le> limit)"
  show ?case
  proof (cases "sizeremain \<noteq> 0 \<and> ba < limit")
    case True
    then have lt: "ba < limit" and nz: "sizeremain \<noteq> 0" by auto
    have sub: "{ba + 1..<limit} \<subseteq> B" using word_Ico_Suc [OF lt] less.prems(3) by (rule order_trans)
    have up: "ba < ba + 1" "ba + 1 \<le> limit"
      using lt by (simp_all add: word_less_nat_alt word_le_nat_alt unat_Suc_less [OF lt])
    have lo: "lo \<le> ba + 1" using less.prems(4) up(1) by order
    have rest: "wp (write_mgmt_loop nj (ba + 1) limit data p sz r s) ?Q"
      if w: "worn B ni nj" and inv: "sz \<noteq> 0 \<and> r = sz \<or> lo \<le> s \<and> s < ba + 1" for nj p r s
      by (rule wp_mono [OF less.hyps [OF unat_up [OF lt] _ _ sub lo]])
        (use g w less.prems(2) inv up in \<open>auto simp: worn_geom worn_frame intro: worn_trans\<close>)
    have keep: "sz \<noteq> 0 \<and> sizeremain = sz \<or> lo \<le> start \<and> start < ba + 1"
      using less.prems(5) up(1) by auto
    have used: "sz \<noteq> 0 \<and> r = sz \<or>
        lo \<le> (if sizeremain = sz then ba else start) \<and> (if sizeremain = sz then ba else start) < ba + 1" for r
      using less.prems(4,5) up(1) by auto
    have inB: "ba \<in> B" using lt less.prems(3) by auto
    have it: "in_table ni ba" using g lt less.prems(2) by (auto intro: in_table_block_count)
    define chunk where "chunk = (if erasesize (lower ni) < sizeremain then erasesize (lower ni) else sizeremain)"
    have chunk: "chunk \<le> erasesize (lower ni)" by (auto simp: chunk_def not_less)
    let ?wr = "\<lambda>nj. Option.bind (nmbm_erase_block_and_check nj ba)
             (\<lambda>(ok, n). if \<not> ok then Some (False, n)
                else nmbn_write_verify_data n (ba2addr n ba) (drop pos data) chunk)"
    let ?fin = "\<lambda>n. write_mgmt_loop n (ba + 1) limit data (pos + unat chunk) sz (sizeremain - chunk)
        (if sizeremain = sz then ba else start)"
    have "wp (?wr nj) (\<lambda>(ok, n). worn B nj n \<and> (ok \<longrightarrow> wp (?fin n) ?Q))"
      if w: "worn B ni nj" and gj: "geom nj" for nj
    proof (rule erase_then_wp [OF gj inB w])
      fix n assume "worn B nj n" "geom n"
      then show "wp (nmbn_write_verify_data n (ba2addr n ba) (drop pos data) chunk) (\<lambda>(ok, n'). worn B n n')"
        using chunk w by (intro write_verify_wp [OF _ inB]) (simp_all add: worn_frame(1))
    qed (rule rest [OF _ used])
    moreover have "\<And>nj. worn B ni nj \<Longrightarrow> wp (write_mgmt_loop nj (ba + 1) limit data pos sz sizeremain start) ?Q"
      by (rule rest [OF _ keep])
    ultimately have "wp (if nmbm_get_block_state ni ba \<noteq> BLOCK_ST_GOOD
        then write_mgmt_loop ni (ba + 1) limit data pos sz sizeremain start
        else let (bad, nj) = nmbm_check_bad_phys_block ni ba
          in if bad then write_mgmt_loop (set_block_state nj ba BLOCK_ST_BAD) (ba + 1) limit data pos sz sizeremain start
             else do { (ok, n) \<leftarrow> ?wr nj;
                       if ok then ?fin n
                       else do { n \<leftarrow> retire_block n ba;
                                 write_mgmt_loop n (ba + 1) limit data pos sz sizeremain start } }) ?Q"
      by (intro block_step_wp [OF g inB it])
    then show ?thesis
      by (subst write_mgmt_loop.simps) (simp only: True if_True bind_step Let_def chunk_def simp_thms)
  next
    case False
    with less.prems(5) show ?thesis
      by (subst write_mgmt_loop.simps) (cases "sizeremain = 0", auto)
  qed
qed

lemma write_mgmt_range_wp [wp_intro]:
  assumes "geom ni" "limit \<le> block_count ni" "sz \<noteq> 0" "{ba..<limit} \<subseteq> B"
  shows "wp (nmbm_write_mgmt_range ni ba limit data sz)
    (\<lambda>x. worn B ni (snd x) \<and> (\<forall>s e. fst x = Some (s, e) \<longrightarrow> ba \<le> s \<and> s < e \<and> e \<le> limit))"
  unfolding nmbm_write_mgmt_range_def
  by (rule write_mgmt_loop_wp) (use assms in auto)

lemma write_signature_wp [wp_intro]:
  assumes "geom ni" "block_count ni \<noteq> 0"
  shows "wp (nmbm_write_signature ni limit sig)
    (\<lambda>x. worn {limit<..<block_count ni} ni (snd x) \<and>
         (\<forall>s. fst x = Some s \<longrightarrow> limit < s \<and> s < block_count ni))"
proof -
  have "unat (block_count ni - 1) < unat (block_count ni)"
    using assms(2) by (intro unat_down [of 0]) (simp add: word_neq_0_conv)
  then have "block_count ni - 1 < block_count ni" by (simp add: word_less_nat_alt)
  moreover from this have "{limit<..block_count ni - 1} \<subseteq> {limit<..<block_count ni}" by auto
  ultimately show ?thesis
    unfolding nmbm_write_signature_def
    by (intro wp_mono [OF write_signature_loop_wp [OF assms(1)]]) auto
qed

end
