(* ===== verification/Nmbm_Info_Table.thy ===== *)
theory Nmbm_Info_Table
  imports Nmbm_Write
begin

text \<open>
  The info table: its checksum, its image in \<open>info_table_cache\<close>, writing the main and the backup
  copy and everything done when a copy cannot be written, and \<open>nmbm_map_block\<close>, which takes a
  spare block for a logic block.

  \<open>crc32_le\<close> is the kernel's CRC routine, which is not part of the sources: every operation
  that computes a checksum takes it as its argument \<open>crc\<close>.
\<close>

section \<open>Checksums\<close>

type_synonym crc_fun = "u32 \<Rightarrow> u8 list \<Rightarrow> u32"

abbreviation (input) UINT_MAX :: nat where "UINT_MAX \<equiv> 4294967295"

function nmbm_crc32 :: "crc_fun \<Rightarrow> u32 \<Rightarrow> u8 list \<Rightarrow> u32" where
  "nmbm_crc32 crc crcval p =
     (if p = [] then crcval
      else let chksz = (if UINT_MAX < length p then UINT_MAX else length p)
        in nmbm_crc32 crc (crc crcval (take chksz p)) (drop chksz p))"
  by pat_completeness auto
termination
  by (relation "measure (\<lambda>(crc, crcval, p). length p)") auto

declare nmbm_crc32.simps [simp del]

definition nmbm_check_header :: "crc_fun \<Rightarrow> u8 list \<Rightarrow> u32 \<Rightarrow> bool" where
  "nmbm_check_header crc data sz =
     (let header = decode_header data
      in if sz < hdr_size header then False
         else
           let nhdr = header\<lparr>checksum := 0\<rparr>;
               new_checksum = nmbm_crc32 crc 0 (encode_header nhdr);
               new_checksum =
                 (if of_nat sizeof_header < hdr_size header
                  then nmbm_crc32 crc new_checksum
                         (slice sizeof_header (unat (hdr_size header - of_nat sizeof_header)) data)
                  else new_checksum)
           in checksum header = new_checksum)"

definition nmbm_update_checksum :: "crc_fun \<Rightarrow> u8 list \<Rightarrow> u8 list" where
  "nmbm_update_checksum crc b =
     (let b = put_le32 b 12 0
      in put_le32 b 12 (nmbm_crc32 crc 0 (take (unat (hdr_size (decode_header b))) b)))"

section \<open>The table image\<close>

definition nmbm_generate_info_table_cache ::
  "crc_fun \<Rightarrow> 'd nmbm_instance \<Rightarrow> bool \<times> 'd nmbm_instance" where
  "nmbm_generate_info_table_cache crc ni =
     (let c = memset_at (info_table_cache ni) 0 0xff (unat (info_table_size ni));
          c = memcpy_at c (unat (state_table_off (info_table ni)))
                (take (unat (state_table_size ni)) (le32_array (block_state ni)));
          c = memcpy_at c (unat (mapping_table_off (info_table ni)))
                (take (unat (mapping_table_size ni)) (le32_array (block_mapping ni)));
          t = info_table ni;
          t = t\<lparr>ift_header := (ift_header t)\<lparr>magic := NMBM_MAGIC_INFO_TABLE, version := NMBM_VER,
                 hdr_size := info_table_size ni\<rparr>\<rparr>;
          changed = (block_state_changed ni \<noteq> 0 \<or> block_mapping_changed ni \<noteq> 0);
          t = (if changed then t\<lparr>write_count := write_count t + 1\<rparr> else t);
          c = memcpy_at c 0 (encode_info_table_header t);
          c = nmbm_update_checksum crc c
      in (changed, ni\<lparr>info_table_cache := c, info_table := t\<rparr>))"

definition nmbm_write_info_table ::
  "'d nmbm_instance \<Rightarrow> u32 \<Rightarrow> u32 \<Rightarrow> ((u32 \<times> u32) option \<times> 'd nmbm_instance) option" where
  "nmbm_write_info_table ni ba limit =
     nmbm_write_mgmt_range ni ba limit (info_table_cache ni) (info_table_size ni)"

definition nmbm_mark_tables_clean :: "'d nmbm_instance \<Rightarrow> 'd nmbm_instance" where
  "nmbm_mark_tables_clean ni = ni\<lparr>block_state_changed := 0, block_mapping_changed := 0\<rparr>"

text \<open>\<open>count\<close> becomes the \<open>int32_t\<close> counter \<open>nblocks\<close>, which goes down to below \<open>min_count\<close>.\<close>

function try_reserve_loop :: "'d nmbm_instance \<Rightarrow> u32 \<Rightarrow> int \<Rightarrow> int \<Rightarrow> u32 \<Rightarrow> u32 option" where
  "try_reserve_loop ni ba nblocks min_count limit =
     (if min_count \<le> nblocks then
        (case nmbm_block_walk ni True ba (word_of_int nblocks) limit of
           Some nba \<Rightarrow> Some nba
         | None \<Rightarrow> try_reserve_loop ni ba (nblocks - 1) min_count limit)
      else None)"
  by pat_completeness auto
termination
  by (relation "measure (\<lambda>(ni, ba, nblocks, min_count, limit). nat (nblocks - min_count + 1))") auto

declare try_reserve_loop.simps [simp del]

definition nmbm_try_reserve_blocks ::
  "'d nmbm_instance \<Rightarrow> u32 \<Rightarrow> u32 \<Rightarrow> int \<Rightarrow> u32 \<Rightarrow> u32 option" where
  "nmbm_try_reserve_blocks ni ba count min_count limit =
     try_reserve_loop ni ba (sint count) min_count limit"

definition info_table_blocks :: "'d nmbm_instance \<Rightarrow> u32" where
  "info_table_blocks ni = size2blk ni (ucast (info_table_size ni))"

section \<open>Building both tables\<close>

definition nmbm_rebuild_info_table :: "'d nmbm_instance \<Rightarrow> (bool \<times> 'd nmbm_instance) option" where
  "nmbm_rebuild_info_table ni =
     do {
       let ni = ni\<lparr>main_table_ba := 0, backup_table_ba := 0,
                   mapping_blocks_ba := mapping_blocks_top_ba ni\<rparr>;
       (r, ni) \<leftarrow> nmbm_write_info_table ni (mgmt_start_ba ni) (mapping_blocks_top_ba ni);
       case r of
         None \<Rightarrow> Some (False, ni\<lparr>protected := 1\<rparr>)
       | Some (main_start, main_end) \<Rightarrow>
           let ni = ni\<lparr>main_table_ba := main_start, mapping_blocks_ba := main_end\<rparr>;
               ni = nmbm_mark_tables_clean ni
           in case nmbm_try_reserve_blocks ni main_end (info_table_spare_blocks ni) 0
                     (mapping_blocks_top_ba ni - info_table_blocks ni) of
                None \<Rightarrow> Some (True, ni)
              | Some next_start_ba \<Rightarrow>
                  do {
                    (r, ni) \<leftarrow> nmbm_write_info_table ni next_start_ba (mapping_blocks_top_ba ni);
                    case r of
                      None \<Rightarrow> Some (True, ni)
                    | Some (table_start, table_end) \<Rightarrow>
                        do {
                          let ni = ni\<lparr>backup_table_ba := table_start, mapping_blocks_ba := table_end\<rparr>;
                          ni \<leftarrow> nmbm_erase_range ni main_end (backup_table_ba ni);
                          Some (True, ni)
                        }
                  }
     }"

section \<open>Rescue\<close>

text \<open>\<open>while (write_ba >= bound)\<close>: write the table at \<open>write_ba\<close> or, failing that, lower. The code has
  this loop three times. Every caller enters it with \<open>bound \<le> write_ba\<close> (lemma
  \<open>try_reserve_ge\<close>), so its result is that of the last write.\<close>

partial_function (option) write_table_desc ::
  "'d nmbm_instance \<Rightarrow> u32 \<Rightarrow> u32 \<Rightarrow> ((u32 \<times> u32) option \<times> 'd nmbm_instance) option" where
  "write_table_desc ni write_ba bound =
     (if bound \<le> write_ba then
        do {
          (r, ni) \<leftarrow> nmbm_write_info_table ni write_ba (mapping_blocks_top_ba ni);
          case r of
            Some t \<Rightarrow> Some (Some t, ni)
          | None \<Rightarrow> write_table_desc ni (write_ba - 1) bound
        }
      else Some (None, ni))"

definition nmbm_rescue_single_info_table ::
  "'d nmbm_instance \<Rightarrow> (bool \<times> 'd nmbm_instance) option" where
  "nmbm_rescue_single_info_table ni =
     do {
       (r, ni) \<leftarrow> nmbm_write_info_table ni (mgmt_start_ba ni) (main_table_ba ni);
       case r of
         Some (table_start, table_end) \<Rightarrow>
           do {
             let ni = ni\<lparr>backup_table_ba := main_table_ba ni\<rparr>;
             let ni = ni\<lparr>main_table_ba := table_start\<rparr>;
             let ni = nmbm_mark_tables_clean ni;
             ni \<leftarrow> nmbm_erase_range ni table_end (backup_table_ba ni);
             Some (True, ni)
           }
       | None \<Rightarrow>
           (case nmbm_try_reserve_blocks ni (mapping_blocks_ba ni) (info_table_spare_blocks ni) 0
                   (mapping_blocks_top_ba ni - info_table_blocks ni) of
              None \<Rightarrow> Some (False, ni)
            | Some write_ba \<Rightarrow>
                do {
                  (r, ni) \<leftarrow> write_table_desc ni write_ba (mapping_blocks_ba ni);
                  case r of
                    None \<Rightarrow> Some (False, ni)
                  | Some (table_start, table_end) \<Rightarrow>
                      do {
                        ni \<leftarrow> nmbm_erase_range ni (mapping_blocks_ba ni) table_start;
                        let ni = ni\<lparr>backup_table_ba := table_start, mapping_blocks_ba := table_end\<rparr>;
                        Some (True, nmbm_mark_tables_clean ni)
                      }
                })
     }"

definition nmbm_update_single_info_table ::
  "'d nmbm_instance \<Rightarrow> bool \<Rightarrow> (bool \<times> 'd nmbm_instance) option" where
  "nmbm_update_single_info_table ni update_main_table =
     do {
       let (write_start_ba, write_limit) =
         (if update_main_table then (main_table_ba ni, backup_table_ba ni)
          else (backup_table_ba ni, mapping_blocks_top_ba ni));
       (r, ni) \<leftarrow> nmbm_write_info_table ni write_start_ba write_limit;
       case r of
         Some (table_start, table_end) \<Rightarrow>
           let ni = (if update_main_table then ni\<lparr>main_table_ba := table_start\<rparr>
                     else ni\<lparr>backup_table_ba := table_start, mapping_blocks_ba := table_end\<rparr>)
           in Some (True, nmbm_mark_tables_clean ni)
       | None \<Rightarrow>
           if update_main_table then
             let ni = ni\<lparr>main_table_ba := backup_table_ba ni\<rparr>;
                 ni = ni\<lparr>backup_table_ba := 0\<rparr>
             in nmbm_rescue_single_info_table ni
           else
             let ni = ni\<lparr>mapping_blocks_ba := backup_table_ba ni\<rparr>;
                 ni = ni\<lparr>backup_table_ba := 0\<rparr>
             in Some (False, ni)
     }"

text \<open>The last part of \<open>nmbm_rescue_main_info_table\<close>: a new backup table after the main table.\<close>

definition rescue_write_backup ::
  "'d nmbm_instance \<Rightarrow> u32 \<Rightarrow> (bool \<times> 'd nmbm_instance) option" where
  "rescue_write_backup ni main_end =
     (case nmbm_try_reserve_blocks ni main_end (info_table_spare_blocks ni) 0
             (mapping_blocks_top_ba ni - info_table_blocks ni) of
        None \<Rightarrow> Some (True, ni\<lparr>backup_table_ba := 0\<rparr>)
      | Some write_ba \<Rightarrow>
          do {
            (r, ni) \<leftarrow> write_table_desc ni write_ba main_end;
            case r of
              None \<Rightarrow> Some (True, ni\<lparr>backup_table_ba := 0\<rparr>)
            | Some (tmp_start, tmp_end) \<Rightarrow>
                do {
                  let ni = ni\<lparr>backup_table_ba := tmp_start, mapping_blocks_ba := tmp_end\<rparr>;
                  ni \<leftarrow> nmbm_erase_range ni main_end (backup_table_ba ni);
                  Some (True, ni)
                }
          })"

definition nmbm_rescue_main_info_table ::
  "'d nmbm_instance \<Rightarrow> (bool \<times> 'd nmbm_instance) option" where
  "nmbm_rescue_main_info_table ni =
     (case nmbm_try_reserve_blocks ni (mapping_blocks_ba ni) (info_table_spare_blocks ni) 0
             (mapping_blocks_top_ba ni - info_table_blocks ni) of
        None \<Rightarrow> Some (True, ni\<lparr>main_table_ba := backup_table_ba ni, backup_table_ba := 0\<rparr>)
      | Some write_ba \<Rightarrow>
          do {
            (r, ni) \<leftarrow> write_table_desc ni write_ba (mapping_blocks_ba ni);
            case r of
              None \<Rightarrow> Some (True, ni\<lparr>main_table_ba := backup_table_ba ni, backup_table_ba := 0\<rparr>)
            | Some (tmp_start, tmp_end) \<Rightarrow>
                do {
                  let ni = ni\<lparr>mapping_blocks_ba := tmp_end\<rparr>;
                  (r, ni) \<leftarrow> nmbm_write_info_table ni (mgmt_start_ba ni) tmp_start;
                  case r of
                    None \<Rightarrow>
                      Some (True, nmbm_mark_tables_clean
                                    (ni\<lparr>main_table_ba := tmp_start, backup_table_ba := 0\<rparr>))
                  | Some (main_start, main_end) \<Rightarrow>
                      let ni = ni\<lparr>main_table_ba := main_start\<rparr>;
                          ni = nmbm_mark_tables_clean ni
                      in if main_end \<le> tmp_start then Some (True, ni\<lparr>backup_table_ba := tmp_start\<rparr>)
                         else rescue_write_backup (ni\<lparr>mapping_blocks_ba := main_end\<rparr>) main_end
                }
          })"

section \<open>Updating both tables\<close>

text \<open>The code from the label \<open>write_main_table\<close> on.\<close>

definition update_main_table ::
  "'d nmbm_instance \<Rightarrow> u32 \<Rightarrow> (bool \<times> 'd nmbm_instance) option" where
  "update_main_table ni main_table_limit =
     (if main_table_ba ni = 0 then nmbm_rebuild_info_table ni
      else do {
        (r, ni) \<leftarrow> nmbm_write_info_table ni (main_table_ba ni) main_table_limit;
        case r of
          None \<Rightarrow> if backup_table_ba ni = 0 then nmbm_rebuild_info_table ni
                  else nmbm_rescue_main_info_table ni
        | Some (table_start, table_end) \<Rightarrow>
            let ni = ni\<lparr>main_table_ba := table_start\<rparr>;
                ni = (if backup_table_ba ni = 0 then ni\<lparr>mapping_blocks_ba := table_end\<rparr> else ni)
            in Some (True, nmbm_mark_tables_clean ni)
      })"

definition nmbm_update_info_table_once ::
  "crc_fun \<Rightarrow> 'd nmbm_instance \<Rightarrow> bool \<Rightarrow> (bool \<times> 'd nmbm_instance) option" where
  "nmbm_update_info_table_once crc ni force =
     (let (changed, ni) = nmbm_generate_info_table_cache crc ni
      in if \<not> changed \<and> \<not> force then Some (True, ni)
         else if backup_table_ba ni = 0 then update_main_table ni (mapping_blocks_top_ba ni)
         else do {
           (r, ni) \<leftarrow> nmbm_write_info_table ni (backup_table_ba ni) (mapping_blocks_top_ba ni);
           case r of
             None \<Rightarrow>
               let ni = ni\<lparr>mapping_blocks_ba := backup_table_ba ni\<rparr>;
                   ni = ni\<lparr>backup_table_ba := 0\<rparr>
               in update_main_table ni (mapping_blocks_top_ba ni)
           | Some (table_start, table_end) \<Rightarrow>
               let ni = ni\<lparr>backup_table_ba := table_start, mapping_blocks_ba := table_end\<rparr>;
                   ni = nmbm_mark_tables_clean ni
               in update_main_table ni (backup_table_ba ni)
         })"

partial_function (option) update_info_table_loop ::
  "crc_fun \<Rightarrow> 'd nmbm_instance \<Rightarrow> (bool \<times> 'd nmbm_instance) option" where
  "update_info_table_loop crc ni =
     (if block_state_changed ni \<noteq> 0 \<or> block_mapping_changed ni \<noteq> 0 then
        do {
          (success, ni) \<leftarrow> nmbm_update_info_table_once crc ni False;
          if \<not> success then Some (False, ni) else update_info_table_loop crc ni
        }
      else Some (True, ni))"

definition nmbm_update_info_table ::
  "crc_fun \<Rightarrow> 'd nmbm_instance \<Rightarrow> (bool \<times> 'd nmbm_instance) option" where
  "nmbm_update_info_table crc ni =
     (if protected ni \<noteq> 0 then Some (True, ni) else update_info_table_loop crc ni)"

section \<open>Taking a spare block\<close>

definition nmbm_map_block ::
  "crc_fun \<Rightarrow> 'd nmbm_instance \<Rightarrow> u32 \<Rightarrow> (bool \<times> 'd nmbm_instance) option" where
  "nmbm_map_block crc ni lb =
     (if mapping_blocks_ba ni = mapping_blocks_top_ba ni then Some (False, ni)
      else case nmbm_block_walk ni False (mapping_blocks_top_ba ni) 0 (mapping_blocks_ba ni) of
        None \<Rightarrow>
          do {
            (_, ni) \<leftarrow> nmbm_update_info_table crc ni;
            Some (False, ni\<lparr>mapping_blocks_top_ba := mapping_blocks_ba ni\<rparr>)
          }
      | Some pb \<Rightarrow>
          Some (True, ni\<lparr>block_mapping := (block_mapping ni)[unat lb := pb],
                         mapping_blocks_top_ba := mapping_blocks_top_ba ni - 1,
                         block_mapping_changed := block_mapping_changed ni + 1\<rparr>))"

section \<open>The management area\<close>

text \<open>The blocks \<open>[mgmt_start_ba, mapping_blocks_top_ba)\<close> hold the two tables and, above them, the
  spare blocks not yet mapped. \<open>layout\<close> is the invariant of the addresses that partition them.\<close>

definition mgmt_area :: "'d nmbm_instance \<Rightarrow> u32 set" where
  "mgmt_area ni = {mgmt_start_ba ni..<mapping_blocks_top_ba ni}"

definition tables_ok :: "u32 \<Rightarrow> u32 \<Rightarrow> u32 \<Rightarrow> u32 \<Rightarrow> bool" where
  "tables_ok lo m b mb \<longleftrightarrow>
     (m = 0 \<or> lo \<le> m \<and> m < mb) \<and> (b = 0 \<or> lo \<le> b \<and> b < mb \<and> m \<noteq> 0 \<and> m < b)"

definition area_ok :: "'d nmbm_instance \<Rightarrow> bool" where
  "area_ok ni \<longleftrightarrow> geom ni \<and> info_table_size ni \<noteq> 0 \<and> 0 < mgmt_start_ba ni \<and>
     mgmt_start_ba ni \<le> mapping_blocks_top_ba ni \<and> mapping_blocks_top_ba ni < block_count ni"

definition layout :: "'d nmbm_instance \<Rightarrow> bool" where
  "layout ni \<longleftrightarrow> area_ok ni \<and>
     mgmt_start_ba ni \<le> mapping_blocks_ba ni \<and> mapping_blocks_ba ni \<le> mapping_blocks_top_ba ni \<and>
     tables_ok (mgmt_start_ba ni) (main_table_ba ni) (backup_table_ba ni) (mapping_blocks_ba ni)"

text \<open>What updating the tables may change: the instance without these parts.\<close>

definition mgmt_blank :: "'d nmbm_instance \<Rightarrow> 'd nmbm_instance" where
  "mgmt_blank ni = ni\<lparr>lower := (lower ni)\<lparr>arg := undefined\<rparr>, page_cache := [], block_state := [],
     block_state_changed := 0, block_mapping_changed := 0, main_table_ba := 0, backup_table_ba := 0,
     mapping_blocks_ba := 0, protected := 0, info_table := undefined, info_table_cache := []\<rparr>"

definition mgmt_step :: "u32 set \<Rightarrow> 'd nmbm_instance \<Rightarrow> 'd nmbm_instance \<Rightarrow> bool" where
  "mgmt_step B ni ni' \<longleftrightarrow>
     mgmt_blank ni' = mgmt_blank ni \<and> length (block_state ni') = length (block_state ni) \<and>
     wears nmbm_get_block_state B ni ni' \<and>
     (block_mapping_changed ni' = 0 \<or> block_mapping_changed ni' = block_mapping_changed ni) \<and>
     (block_state_changed ni' = 0 \<or> block_state_changed ni' = block_state_changed ni \<or>
      (\<exists>a \<in> B. nmbm_get_block_state ni a = BLOCK_ST_GOOD \<and> nmbm_get_block_state ni' a = BLOCK_ST_BAD)) \<and>
     (lower_call (lower ni) (in_blocks ni B))\<^sup>*\<^sup>* (chip ni) (chip ni')"

text \<open>The tables on the chip say what is in memory, up to blocks that have gone bad since \<open>ni\<close>.\<close>

definition cleaned :: "'d nmbm_instance \<Rightarrow> 'd nmbm_instance \<Rightarrow> bool" where
  "cleaned ni ni' \<longleftrightarrow> block_mapping_changed ni' = 0 \<and>
     (block_state_changed ni' = 0 \<or>
      (\<exists>a. nmbm_get_block_state ni a = BLOCK_ST_GOOD \<and> nmbm_get_block_state ni' a = BLOCK_ST_BAD))"

lemma mgmt_blank_frame:
  assumes "mgmt_blank ni' = mgmt_blank ni"
  shows "lower ni' = (lower ni)\<lparr>arg := chip ni'\<rparr>"
    "rawpage_size ni' = rawpage_size ni"
    "writesize_mask ni' = writesize_mask ni" "erasesize_mask ni' = erasesize_mask ni"
    "erasesize_shift ni' = erasesize_shift ni" "signature ni' = signature ni"
    "info_table_size ni' = info_table_size ni"
    "info_table_spare_blocks ni' = info_table_spare_blocks ni"
    "state_table_size ni' = state_table_size ni" "mapping_table_size ni' = mapping_table_size ni"
    "block_mapping ni' = block_mapping ni" "block_count ni' = block_count ni"
    "data_block_count ni' = data_block_count ni" "mgmt_start_ba ni' = mgmt_start_ba ni"
    "mapping_blocks_top_ba ni' = mapping_blocks_top_ba ni" "signature_ba ni' = signature_ba ni"
    "log_display_level ni' = log_display_level ni"
proof -
  have f: "f (mgmt_blank ni') = f (mgmt_blank ni)" for f :: "'a nmbm_instance \<Rightarrow> 'b" using assms by simp
  have "(lower ni')\<lparr>arg := undefined\<rparr> = (lower ni)\<lparr>arg := undefined\<rparr>"
    using arg_cong [OF assms, of lower] by (simp add: mgmt_blank_def)
  then have "(lower ni')\<lparr>arg := undefined\<rparr>\<lparr>arg := chip ni'\<rparr> = (lower ni)\<lparr>arg := undefined\<rparr>\<lparr>arg := chip ni'\<rparr>"
    by simp
  then show "lower ni' = (lower ni)\<lparr>arg := chip ni'\<rparr>" by (simp add: chip_def)
qed (insert arg_cong [OF assms, of rawpage_size] arg_cong [OF assms, of writesize_mask]
    arg_cong [OF assms, of erasesize_mask] arg_cong [OF assms, of erasesize_shift]
    arg_cong [OF assms, of signature] arg_cong [OF assms, of info_table_size]
    arg_cong [OF assms, of info_table_spare_blocks] arg_cong [OF assms, of state_table_size]
    arg_cong [OF assms, of mapping_table_size] arg_cong [OF assms, of block_mapping]
    arg_cong [OF assms, of block_count] arg_cong [OF assms, of data_block_count]
    arg_cong [OF assms, of mgmt_start_ba] arg_cong [OF assms, of mapping_blocks_top_ba]
    arg_cong [OF assms, of signature_ba] arg_cong [OF assms, of log_display_level],
    simp_all add: mgmt_blank_def)

lemma mgmt_blank_update [simp]:
  "mgmt_blank (ni\<lparr>block_state_changed := n\<rparr>) = mgmt_blank ni"
  "mgmt_blank (ni\<lparr>block_mapping_changed := n\<rparr>) = mgmt_blank ni"
  "mgmt_blank (ni\<lparr>main_table_ba := a\<rparr>) = mgmt_blank ni"
  "mgmt_blank (ni\<lparr>backup_table_ba := a\<rparr>) = mgmt_blank ni"
  "mgmt_blank (ni\<lparr>mapping_blocks_ba := a\<rparr>) = mgmt_blank ni"
  "mgmt_blank (ni\<lparr>protected := p\<rparr>) = mgmt_blank ni"
  "mgmt_blank (ni\<lparr>info_table := t\<rparr>) = mgmt_blank ni"
  "mgmt_blank (ni\<lparr>info_table_cache := c\<rparr>) = mgmt_blank ni"
  by (simp_all add: mgmt_blank_def)

lemma mgmt_step_frame:
  assumes "mgmt_step B ni ni'"
  shows "lower ni' = (lower ni)\<lparr>arg := chip ni'\<rparr>"
    "rawpage_size ni' = rawpage_size ni"
    "writesize_mask ni' = writesize_mask ni" "erasesize_mask ni' = erasesize_mask ni"
    "erasesize_shift ni' = erasesize_shift ni" "signature ni' = signature ni"
    "info_table_size ni' = info_table_size ni"
    "info_table_spare_blocks ni' = info_table_spare_blocks ni"
    "state_table_size ni' = state_table_size ni" "mapping_table_size ni' = mapping_table_size ni"
    "block_mapping ni' = block_mapping ni" "block_count ni' = block_count ni"
    "data_block_count ni' = data_block_count ni" "mgmt_start_ba ni' = mgmt_start_ba ni"
    "mapping_blocks_top_ba ni' = mapping_blocks_top_ba ni" "signature_ba ni' = signature_ba ni"
    "log_display_level ni' = log_display_level ni" "length (block_state ni') = length (block_state ni)"
  using assms mgmt_blank_frame [of ni' ni] unfolding mgmt_step_def by blast+

lemma mgmt_step_refl [intro!]: "mgmt_step B ni ni"
  by (simp add: mgmt_step_def state_table.wears_refl)

lemma mgmt_step_trans [trans]:
  assumes "mgmt_step B ni ni'" and "mgmt_step B ni' ni''"
  shows "mgmt_step B ni ni''"
proof -
  note a = assms(1) [unfolded mgmt_step_def] and b = assms(2) [unfolded mgmt_step_def]
  have "(lower_call (lower ni) (in_blocks ni B))\<^sup>*\<^sup>* (chip ni') (chip ni'')"
    using b by (simp add: mgmt_step_frame(1) [OF assms(1)] in_blocks_shift [OF mgmt_step_frame(5) [OF assms(1)]])
  then have calls: "(lower_call (lower ni) (in_blocks ni B))\<^sup>*\<^sup>* (chip ni) (chip ni'')"
    using a by (blast intro: rtranclp_trans)
  have "block_state_changed ni'' = 0 \<or> block_state_changed ni'' = block_state_changed ni \<or>
    (\<exists>x \<in> B. nmbm_get_block_state ni x = BLOCK_ST_GOOD \<and> nmbm_get_block_state ni'' x = BLOCK_ST_BAD)"
    using a b unfolding wears_def by (metis zero_neq_numeral)
  moreover have "wears nmbm_get_block_state B ni ni''"
    using a b state_table.wears_trans by blast
  ultimately show ?thesis
    using a b calls unfolding mgmt_step_def by metis
qed

lemma mgmt_step_mono:
  assumes "mgmt_step B ni ni'" and "B \<subseteq> C"
  shows "mgmt_step C ni ni'"
proof -
  note w = assms(1) [unfolded mgmt_step_def]
  have "wears nmbm_get_block_state C ni ni'"
    using w by (blast intro: state_table.wears_mono [OF _ assms(2)])
  moreover have "(lower_call (lower ni) (in_blocks ni C))\<^sup>*\<^sup>* (chip ni) (chip ni')"
    by (rule lower_calls_mono [OF _ in_blocks_mono [OF assms(2)]]) (use w in simp)
  moreover have "block_state_changed ni' = 0 \<or> block_state_changed ni' = block_state_changed ni \<or>
    (\<exists>x \<in> C. nmbm_get_block_state ni x = BLOCK_ST_GOOD \<and> nmbm_get_block_state ni' x = BLOCK_ST_BAD)"
    using w assms(2) by (meson subsetD)
  ultimately show ?thesis using w by (simp add: mgmt_step_def)
qed

lemma mgmt_step_worn:
  assumes "worn B ni ni'"
  shows "mgmt_step B ni ni'"
proof -
  note w = assms [unfolded worn_def]
  obtain d pc bs ch where "ni' = (set_chip d ni)\<lparr>page_cache := pc, block_state := bs, block_state_changed := ch\<rparr>"
    using w by (auto simp: keep_tables_def)
  then have "mgmt_blank ni' = mgmt_blank ni" by (simp add: mgmt_blank_def set_chip_def)
  with w worn_frame [OF assms] show ?thesis unfolding mgmt_step_def by simp
qed

lemma cleaned_step: "cleaned ni ni' \<Longrightarrow> mgmt_step B ni' ni'' \<Longrightarrow> mgmt_step C ni ni' \<Longrightarrow> cleaned ni ni''"
  unfolding cleaned_def mgmt_step_def wears_def by (metis zero_neq_numeral)

lemma mgmt_step_update [simp]:
  "mgmt_step B ni (n\<lparr>main_table_ba := a\<rparr>) = mgmt_step B ni n"
  "mgmt_step B ni (n\<lparr>backup_table_ba := a\<rparr>) = mgmt_step B ni n"
  "mgmt_step B ni (n\<lparr>mapping_blocks_ba := a\<rparr>) = mgmt_step B ni n"
  "mgmt_step B ni (n\<lparr>protected := p\<rparr>) = mgmt_step B ni n"
  "mgmt_step B ni (n\<lparr>info_table := t\<rparr>) = mgmt_step B ni n"
  "mgmt_step B ni (n\<lparr>info_table_cache := c\<rparr>) = mgmt_step B ni n"
  by (simp_all add: mgmt_step_def wears_def chip_def)

lemma cleaned_update [simp]:
  "cleaned ni (n\<lparr>main_table_ba := a\<rparr>) = cleaned ni n"
  "cleaned ni (n\<lparr>backup_table_ba := a\<rparr>) = cleaned ni n"
  "cleaned ni (n\<lparr>mapping_blocks_ba := a\<rparr>) = cleaned ni n"
  "cleaned ni (n\<lparr>protected := p\<rparr>) = cleaned ni n"
  by (simp_all add: cleaned_def)

lemma mark_clean_step [simp]: "mgmt_step B ni n \<Longrightarrow> mgmt_step B ni (nmbm_mark_tables_clean n)"
  by (simp add: nmbm_mark_tables_clean_def mgmt_step_def wears_def chip_def)

lemma mark_clean_cleaned [simp]: "cleaned ni (nmbm_mark_tables_clean n)"
  by (simp add: nmbm_mark_tables_clean_def cleaned_def)

lemma mark_clean_frame [simp]:
  "main_table_ba (nmbm_mark_tables_clean n) = main_table_ba n"
  "backup_table_ba (nmbm_mark_tables_clean n) = backup_table_ba n"
  "mapping_blocks_ba (nmbm_mark_tables_clean n) = mapping_blocks_ba n"
  "protected (nmbm_mark_tables_clean n) = protected n"
  by (simp_all add: nmbm_mark_tables_clean_def)

lemma area_ok_step: "mgmt_step B ni n \<Longrightarrow> area_ok n = area_ok ni"
  using mgmt_step_frame [of B ni n] by (simp add: area_ok_def geom_def)

lemma mgmt_area_step: "mgmt_step B ni n \<Longrightarrow> mgmt_area n = mgmt_area ni"
  using mgmt_step_frame [of B ni n] by (simp add: mgmt_area_def)

text \<open>A state on the way from \<open>ni\<close>, with the addresses its tables are at.\<close>

definition table_at ::
  "'d nmbm_instance \<Rightarrow> u32 \<Rightarrow> u32 \<Rightarrow> u32 \<Rightarrow> 'd nmbm_instance \<Rightarrow> bool" where
  "table_at ni m b mb n \<longleftrightarrow> mgmt_step (mgmt_area ni) ni n \<and>
     main_table_ba n = m \<and> backup_table_ba n = b \<and> mapping_blocks_ba n = mb"

text \<open>What every operation on the tables promises.\<close>

definition table_result :: "'d nmbm_instance \<Rightarrow> bool \<Rightarrow> 'd nmbm_instance \<Rightarrow> bool" where
  "table_result ni ok n \<longleftrightarrow> mgmt_step (mgmt_area ni) ni n \<and> layout n \<and> (ok \<longrightarrow> cleaned ni n)"

lemma table_resultI:
  assumes "area_ok ni" "table_at ni m b mb n" "mgmt_start_ba ni \<le> mb" "mb \<le> mapping_blocks_top_ba ni"
    and "tables_ok (mgmt_start_ba ni) m b mb" "ok \<Longrightarrow> cleaned ni n"
  shows "table_result ni ok n"
proof -
  have s: "mgmt_step (mgmt_area ni) ni n" using assms(2) by (simp add: table_at_def)
  show ?thesis
    using assms mgmt_step_frame [OF s] area_ok_step [OF s]
    by (simp add: table_result_def layout_def table_at_def)
qed

lemma table_at_worn:
  assumes "table_at ni m b mb n" and "worn (mgmt_area ni) n n'"
  shows "table_at ni m b mb n'"
  using assms mgmt_step_trans [OF _ mgmt_step_worn [OF assms(2)]] worn_frame(19-21) [OF assms(2)]
  by (simp add: table_at_def)

lemma cleaned_worn:
  "table_at ni m b mb n \<Longrightarrow> cleaned ni n \<Longrightarrow> worn (mgmt_area ni) n n' \<Longrightarrow> cleaned ni n'"
  by (erule cleaned_step [where C = "mgmt_area ni"], erule mgmt_step_worn) (simp add: table_at_def)

lemma table_at_area:
  assumes "area_ok ni" "table_at ni m b mb n" "mgmt_start_ba ni \<le> a" "limit \<le> mapping_blocks_top_ba ni"
  shows "geom n" "limit \<le> block_count n" "info_table_size n \<noteq> 0" "{a..<limit} \<subseteq> mgmt_area ni"
proof -
  have s: "mgmt_step (mgmt_area ni) ni n" using assms(2) by (simp add: table_at_def)
  note f = mgmt_step_frame [OF s] and a = area_ok_step [OF s]
  show "geom n" "info_table_size n \<noteq> 0" using a assms(1) by (simp_all add: area_ok_def)
  have "mapping_blocks_top_ba ni < block_count ni" using assms(1) by (simp add: area_ok_def)
  with assms(4) have "limit \<le> block_count ni" by order
  then show "limit \<le> block_count n" by (simp add: f(12))
  show "{a..<limit} \<subseteq> mgmt_area ni" using assms(3,4) by (auto simp: mgmt_area_def)
qed

text \<open>The rules for the calls: \<open>K\<close> is the code after the call.\<close>

lemma write_info_table_bind:
  assumes ok: "area_ok ni" and at: "table_at ni m b mb n"
    and lo: "mgmt_start_ba ni \<le> a" and hi: "limit \<le> mapping_blocks_top_ba ni"
    and fail: "\<And>n'. table_at ni m b mb n' \<Longrightarrow> (cleaned ni n \<longrightarrow> cleaned ni n') \<Longrightarrow> wp (K None n') Q"
    and succ: "\<And>n' s e. table_at ni m b mb n' \<Longrightarrow> (cleaned ni n \<longrightarrow> cleaned ni n') \<Longrightarrow>
      a \<le> s \<Longrightarrow> s < e \<Longrightarrow> e \<le> limit \<Longrightarrow> wp (K (Some (s, e)) n') Q"
  shows "wp (Option.bind (nmbm_write_info_table n a limit) (\<lambda>(r, n). K r n)) Q"
proof -
  note t = table_at_area [OF ok at lo hi]
  have "wp (nmbm_write_info_table n a limit)
    (\<lambda>x. worn (mgmt_area ni) n (snd x) \<and> (\<forall>s e. fst x = Some (s, e) \<longrightarrow> a \<le> s \<and> s < e \<and> e \<le> limit))"
    unfolding nmbm_write_info_table_def by (rule write_mgmt_range_wp) (use t in auto)
  then show ?thesis
    unfolding wp_bind
  proof (rule wp_mono)
    fix x assume x: "worn (mgmt_area ni) n (snd x) \<and>
      (\<forall>s e. fst x = Some (s, e) \<longrightarrow> a \<le> s \<and> s < e \<and> e \<le> limit)"
    obtain r n' where rn: "x = (r, n')" by fastforce
    have "table_at ni m b mb n'" and "cleaned ni n \<longrightarrow> cleaned ni n'"
      using x rn at by (auto intro: table_at_worn cleaned_worn)
    then show "wp (case x of (r, n) \<Rightarrow> K r n) Q"
      using x rn fail succ by (cases r) auto
  qed
qed

lemma erase_range_bind:
  assumes ok: "area_ok ni" and at: "table_at ni m b mb n"
    and lo: "mgmt_start_ba ni \<le> a" and hi: "limit \<le> mapping_blocks_top_ba ni"
    and cont: "\<And>n'. table_at ni m b mb n' \<Longrightarrow> (cleaned ni n \<longrightarrow> cleaned ni n') \<Longrightarrow> wp (K n') Q"
  shows "wp (Option.bind (nmbm_erase_range n a limit) K) Q"
  unfolding wp_bind
  by (rule wp_mono [OF erase_range_wp [where B = "mgmt_area ni"]])
    (use table_at_area [OF ok at lo hi] at in \<open>auto intro!: cont intro: table_at_worn cleaned_worn\<close>)

text \<open>The downward loop returns because its bound is not 0: \<open>write_ba\<close> does not wrap.\<close>

lemma write_table_desc_bind:
  assumes ok: "area_ok ni" and at: "table_at ni m b mb n"
    and lo: "mgmt_start_ba ni \<le> bound" and tp: "tp = mapping_blocks_top_ba ni"
    and fail: "\<And>n'. table_at ni m b mb n' \<Longrightarrow> (cleaned ni n \<longrightarrow> cleaned ni n') \<Longrightarrow> wp (K None n') Q"
    and succ: "\<And>n' s e. table_at ni m b mb n' \<Longrightarrow> (cleaned ni n \<longrightarrow> cleaned ni n') \<Longrightarrow>
      bound \<le> s \<Longrightarrow> s < e \<Longrightarrow> e \<le> tp \<Longrightarrow> wp (K (Some (s, e)) n') Q"
  shows "wp (Option.bind (write_table_desc n write_ba bound) (\<lambda>(r, n). K r n)) Q"
proof -
  let ?R = "\<lambda>x. (case x of (r, n') \<Rightarrow> table_at ni m b mb n' \<and> (cleaned ni n \<longrightarrow> cleaned ni n') \<and>
      (\<forall>s e. r = Some (s, e) \<longrightarrow> bound \<le> s \<and> s < e \<and> e \<le> tp))"
  have "wp (write_table_desc n' w bound) ?R"
    if "table_at ni m b mb n'" "cleaned ni n \<longrightarrow> cleaned ni n'" for n' w
    using that
  proof (induction "unat w" arbitrary: n' w rule: less_induct)
    case less
    show ?case
    proof (cases "bound \<le> w")
      case False
      then show ?thesis using less.prems by (subst write_table_desc.simps) simp
    next
      case True
      have pos: "0 < w" using ok lo True by (auto simp: area_ok_def)
      have tn: "mapping_blocks_top_ba n' = tp"
        using less.prems(1) tp by (auto simp: table_at_def dest: mgmt_step_frame(15))
      show ?thesis
      proof (subst write_table_desc.simps, simp only: True if_True tn,
          rule write_info_table_bind [OF ok less.prems(1)])
        show "mgmt_start_ba ni \<le> w" using lo True by order
        show "tp \<le> mapping_blocks_top_ba ni" by (simp add: tp)
      next
        fix n'' assume "table_at ni m b mb n''" "cleaned ni n' \<longrightarrow> cleaned ni n''"
        with less.prems less.hyps [OF unat_down [OF pos]]
        show "wp (case None of None \<Rightarrow> write_table_desc n'' (w - 1) bound | Some t \<Rightarrow> Some (Some t, n'')) ?R"
          by simp
      next
        fix n'' s e assume "table_at ni m b mb n''" "cleaned ni n' \<longrightarrow> cleaned ni n''" "w \<le> s" "s < e" "e \<le> tp"
        then show "wp (case Some (s, e) of None \<Rightarrow> write_table_desc n'' (w - 1) bound | Some t \<Rightarrow> Some (Some t, n'')) ?R"
          using less.prems(2) True by auto
      qed
    qed
  qed
  then have "wp (write_table_desc n write_ba bound) ?R" using at by blast
  then show ?thesis
    unfolding wp_bind
  proof (rule wp_mono)
    fix x assume x: "?R x"
    obtain r n' where rn: "x = (r, n')" by fastforce
    show "wp (case x of (r, n) \<Rightarrow> K r n) Q"
      using x rn fail succ by (cases r) auto
  qed
qed

lemma try_reserve_loop_ge: "try_reserve_loop ni ba n mn limit = Some nba \<Longrightarrow> ba \<le> nba"
proof (induction ni ba n mn limit rule: try_reserve_loop.induct)
  case (1 ni ba n mn limit)
  show ?case
  proof (cases "nmbm_block_walk ni True ba (word_of_int n) limit")
    case None
    with 1 show ?thesis by (simp add: try_reserve_loop.simps [of ni ba n] split: if_splits)
  next
    case (Some x)
    with "1.prems" have "x = nba" by (simp add: try_reserve_loop.simps [of ni ba n] split: if_splits)
    with Some show ?thesis
      by (auto simp: nmbm_block_walk_def nmbm_block_walk_asc_def Let_def dest: walk_asc_bounds)
  qed
qed

lemma try_reserve_ge: "nmbm_try_reserve_blocks ni ba count mn limit = Some nba \<Longrightarrow> ba \<le> nba"
  unfolding nmbm_try_reserve_blocks_def by (rule try_reserve_loop_ge)

section \<open>The operations on the tables\<close>

lemmas table_case = option.case prod.case Let_def

lemma table_at_frame:
  assumes "table_at ni m b mb n"
  shows "mgmt_start_ba n = mgmt_start_ba ni" "mapping_blocks_top_ba n = mapping_blocks_top_ba ni"
    "main_table_ba n = m" "backup_table_ba n = b" "mapping_blocks_ba n = mb"
  using assms by (auto simp: table_at_def dest: mgmt_step_frame)

lemma mark_clean_tops [simp]:
  "mapping_blocks_top_ba (nmbm_mark_tables_clean n) = mapping_blocks_top_ba n"
  "mgmt_start_ba (nmbm_mark_tables_clean n) = mgmt_start_ba n"
  by (simp_all add: nmbm_mark_tables_clean_def)

lemma table_at_update:
  assumes "table_at ni m b mb n"
  shows "table_at ni x b mb (n\<lparr>main_table_ba := x\<rparr>)" "table_at ni m x mb (n\<lparr>backup_table_ba := x\<rparr>)"
    "table_at ni m b x (n\<lparr>mapping_blocks_ba := x\<rparr>)" "table_at ni m b mb (n\<lparr>protected := p\<rparr>)"
    "table_at ni m b mb (nmbm_mark_tables_clean n)"
  using assms by (simp_all add: table_at_def)

lemma wp_result: "table_result ni ok n \<Longrightarrow> wp (Some (ok, n)) (\<lambda>(ok, n). table_result ni ok n)"
  by simp

lemma area_ok_pos: "area_ok ni \<Longrightarrow> mgmt_start_ba ni \<le> a \<Longrightarrow> a \<noteq> 0"
  by (auto simp: area_ok_def)

lemma result_none:
  assumes "area_ok ni" "table_at ni 0 0 mb n" "mgmt_start_ba ni \<le> mb" "mb \<le> mapping_blocks_top_ba ni"
    "ok \<Longrightarrow> cleaned ni n"
  shows "table_result ni ok n"
  by (rule table_resultI [OF assms(1-4)]) (use assms in \<open>simp_all add: tables_ok_def\<close>)

lemma result_single:
  assumes "area_ok ni" "table_at ni m 0 mb n" "mgmt_start_ba ni \<le> m" "m < mb" "mb \<le> mapping_blocks_top_ba ni"
    "ok \<Longrightarrow> cleaned ni n"
  shows "table_result ni ok n"
proof (rule table_resultI [OF assms(1,2)])
  show "mgmt_start_ba ni \<le> mb" using assms(3,4) by order
qed (use assms in \<open>simp_all add: tables_ok_def\<close>)

lemma result_both:
  assumes "area_ok ni" "table_at ni m b mb n" "mgmt_start_ba ni \<le> m" "m < b" "b < mb"
    "mb \<le> mapping_blocks_top_ba ni" "ok \<Longrightarrow> cleaned ni n"
  shows "table_result ni ok n"
proof (rule table_resultI [OF assms(1,2)])
  show "mgmt_start_ba ni \<le> mb" using assms(3-5) by order
  have "m < mb" "mgmt_start_ba ni \<le> b" using assms(3-5) by order+
  with assms area_ok_pos [OF assms(1,3)] show "tables_ok (mgmt_start_ba ni) m b mb"
    by (simp add: tables_ok_def)
qed (use assms in simp_all)

lemma rebuild_wp:
  assumes ok: "area_ok ni" and at: "table_at ni m b mb n"
  shows "wp (nmbm_rebuild_info_table n) (\<lambda>(ok, n'). table_result ni ok n')"
proof -
  let ?top = "mapping_blocks_top_ba ni" and ?lo = "mgmt_start_ba ni"
  have lt: "?lo \<le> ?top" using ok by (simp add: area_ok_def)
  note f = table_at_frame [OF at]
  have at0: "table_at ni 0 0 ?top (n\<lparr>main_table_ba := 0, backup_table_ba := 0,
      mapping_blocks_ba := mapping_blocks_top_ba n\<rparr>)"
    unfolding f by (rule table_at_update at)+
  show ?thesis
    unfolding nmbm_rebuild_info_table_def Let_def
  proof (rule write_info_table_bind [OF ok at0], goal_cases lo hi fail succ)
    case (fail n')
    from result_none [OF ok table_at_update(4) [OF fail(1)] lt order_refl, of False]
    show ?case by simp
  next
    case (succ n' s e)
    then have lo: "?lo \<le> s" and hi: "e \<le> ?top" and se: "s < e" by (simp_all add: f)
    have loe: "?lo \<le> e" using lo se by order
    define n1 where "n1 = nmbm_mark_tables_clean (n'\<lparr>main_table_ba := s, mapping_blocks_ba := e\<rparr>)"
    have a1: "table_at ni s 0 e n1" unfolding n1_def by (rule table_at_update succ(1))+
    have c1: "cleaned ni n1" by (simp add: n1_def)
    have fin: "table_result ni True n2" if "table_at ni s 0 e n2" "cleaned ni n2" for n2
      by (rule result_single [OF ok that(1) lo se hi]) (rule that(2))
    show ?case
      unfolding table_case n1_def [symmetric] table_at_frame(2) [OF a1]
    proof (cases "nmbm_try_reserve_blocks n1 e (info_table_spare_blocks n1) 0 (?top - info_table_blocks n1)",
        simp_all only: option.case, goal_cases none some)
      case none
      show ?case by (rule wp_result) (rule fin [OF a1 c1])
    next
      case (some w)
      have w: "e \<le> w" by (rule try_reserve_ge [OF some])
      show ?case
      proof (rule write_info_table_bind [OF ok a1], goal_cases lo hi fail succ)
        case lo
        show ?case using w loe by order
      next
        case (fail n2)
        then show ?case using c1 by (auto intro: fin)
      next
        case (succ n2 s2 e2)
        let ?n3 = "n2\<lparr>backup_table_ba := s2, mapping_blocks_ba := e2\<rparr>"
        have a3: "table_at ni s s2 e2 ?n3" by (rule table_at_update succ(1))+
        have o: "s < s2" "?lo \<le> e2" using succ w loe se by order+
        show ?case
          unfolding table_case
        proof (rule erase_range_bind [OF ok a3], goal_cases lo hi cont)
          case hi
          show ?case using succ by simp
        next
          case (cont n4)
          have "table_result ni True n4"
            by (rule result_both [OF ok cont(1) lo o(1) succ(4,5)]) (use succ cont c1 in simp)
          then show ?case by simp
        qed (rule loe)
      qed simp
    qed
  qed (simp_all add: f)
qed


lemma rescue_single_wp:
  assumes ok: "area_ok ni" and at: "table_at ni m 0 mb n"
    and lo: "mgmt_start_ba ni \<le> m" "m < mb" "mb \<le> mapping_blocks_top_ba ni"
  shows "wp (nmbm_rescue_single_info_table n) (\<lambda>(ok, n'). table_result ni ok n')"
proof -
  let ?top = "mapping_blocks_top_ba ni" and ?lo = "mgmt_start_ba ni"
  note f = table_at_frame [OF at]
  show ?thesis
    unfolding nmbm_rescue_single_info_table_def Let_def
  proof (rule write_info_table_bind [OF ok at], goal_cases lo hi fail succ)
    case hi
    show ?case unfolding f using lo by order
  next
    case (succ n' s e)
    note g = table_at_frame [OF succ(1)]
    let ?n1 = "nmbm_mark_tables_clean (n'\<lparr>backup_table_ba := m, main_table_ba := s\<rparr>)"
    have a1: "table_at ni s m mb ?n1" by (rule table_at_update succ(1))+
    have s: "?lo \<le> s" "s < m" "?lo \<le> e" using succ by (simp_all add: f)
    show ?case
      unfolding table_case g
    proof (rule erase_range_bind [OF ok a1 s(3)], goal_cases hi cont)
      case (cont n2)
      have "table_result ni True n2"
        by (rule result_both [OF ok cont(1) s(1,2) lo(2,3)]) (use cont in simp)
      then show ?case by simp
    next
      case hi
      show ?case using lo by simp
    qed
  next
    case (fail n')
    note g = table_at_frame [OF fail(1)]
    have fin: "table_result ni False n2" if "table_at ni m 0 mb n2" for n2
      by (rule result_single [OF ok that lo]) simp
    show ?case
      unfolding table_case g
    proof (cases "nmbm_try_reserve_blocks n' mb (info_table_spare_blocks n') 0 (?top - info_table_blocks n')",
        simp_all only: option.case, goal_cases none some)
      case none
      show ?case by (rule wp_result) (rule fin [OF fail(1)])
    next
      case (some w)
      show ?case
      proof (rule write_table_desc_bind [OF ok fail(1) _ refl], goal_cases lo fail succ)
        case lo
        show ?case using assms(3,4) by order
      next
        case (fail n2)
        then show ?case by (simp add: fin)
      next
        case (succ n2 s e)
        note h = table_at_frame [OF succ(1)]
        have o: "m < s" "?lo \<le> mb" using assms(3,4) succ by order+
        show ?case
          unfolding table_case h
        proof (rule erase_range_bind [OF ok succ(1) o(2)], goal_cases hi cont)
          case hi
          show ?case using succ by order
        next
          case (cont n4)
          have "table_at ni m s e (nmbm_mark_tables_clean (n4\<lparr>backup_table_ba := s, mapping_blocks_ba := e\<rparr>))"
            by (rule table_at_update cont(1))+
          from result_both [OF ok this lo(1) o(1) succ(4,5)] show ?case by simp
        qed
      qed
    qed
  qed (simp add: f)
qed

text \<open>The last two cases of \<open>nmbm_rescue_main_info_table\<close>: \<open>rescue_write_backup\<close> is never
  reached, because the main table is written below the new backup table.\<close>

lemma rescue_main_wp:
  assumes ok: "area_ok ni" and at: "table_at ni m b mb n" and cl: "cleaned ni n"
    and lo: "mgmt_start_ba ni \<le> b" "b < mb" "mb \<le> mapping_blocks_top_ba ni"
  shows "wp (nmbm_rescue_main_info_table n) (\<lambda>(ok, n'). table_result ni ok n')"
proof -
  let ?top = "mapping_blocks_top_ba ni" and ?lo = "mgmt_start_ba ni"
  note f = table_at_frame [OF at]
  have backup_only: "table_result ni True (n'\<lparr>main_table_ba := b, backup_table_ba := 0\<rparr>)"
    if a: "table_at ni m b mb n'" and c: "cleaned ni n'" for n'
  proof -
    have "table_at ni b 0 mb (n'\<lparr>main_table_ba := b, backup_table_ba := 0\<rparr>)"
      by (rule table_at_update a)+
    from result_single [OF ok this lo] c show ?thesis by simp
  qed
  show ?thesis
    unfolding nmbm_rescue_main_info_table_def Let_def f
  proof (cases "nmbm_try_reserve_blocks n mb (info_table_spare_blocks n) 0 (?top - info_table_blocks n)",
      simp_all only: option.case, goal_cases none some)
    case none
    show ?case by (rule wp_result) (rule backup_only [OF at cl])
  next
    case (some w)
    have lomb: "?lo \<le> mb" using lo by order
    show ?case
    proof (rule write_table_desc_bind [OF ok at lomb refl], goal_cases fail succ)
      case (fail n')
      then show ?case using backup_only [OF fail(1)] cl by (simp add: table_at_frame [OF fail(1)])
    next
      case (succ n' ts te)
      have lots: "?lo \<le> ts" using lomb succ by order
      have a1: "table_at ni m b te (n'\<lparr>mapping_blocks_ba := te\<rparr>)" by (rule table_at_update succ(1))+
      show ?case
        unfolding table_case
      proof (rule write_info_table_bind [OF ok a1], goal_cases lo hi fail succ)
        case lo
        show ?case by (simp add: table_at_frame [OF succ(1)])
      next
        case hi
        show ?case using succ by simp
      next
        case (fail n2)
        have "table_at ni ts 0 te (nmbm_mark_tables_clean (n2\<lparr>main_table_ba := ts, backup_table_ba := 0\<rparr>))"
          by (rule table_at_update fail(1))+
        from result_single [OF ok this lots succ(4,5)] show ?case by simp
      next
        case succ': (succ n2 s e)
        have lo2: "?lo \<le> s" "s < ts"
          using succ' by (simp_all add: table_at_frame [OF succ(1)])
        have "table_at ni s ts te ((nmbm_mark_tables_clean (n2\<lparr>main_table_ba := s\<rparr>))\<lparr>backup_table_ba := ts\<rparr>)"
          by (rule table_at_update succ'(1))+
        from result_both [OF ok this lo2 succ(4,5)] succ'(5) show ?case by simp
      qed
    qed
  qed
qed

lemma update_single_wp:
  assumes ok: "area_ok ni" and at: "table_at ni m b mb n"
    and lo: "mgmt_start_ba ni \<le> m" "m < b" "b < mb" "mb \<le> mapping_blocks_top_ba ni"
  shows "wp (nmbm_update_single_info_table n main) (\<lambda>(ok, n'). table_result ni ok n')"
proof -
  let ?top = "mapping_blocks_top_ba ni" and ?lo = "mgmt_start_ba ni"
  note f = table_at_frame [OF at]
  have lob: "?lo \<le> b" "b \<le> ?top" using lo by order+
  show ?thesis
  proof (cases main)
    case True
    show ?thesis
    proof (simp only: nmbm_update_single_info_table_def Let_def f True if_True prod.case,
        rule write_info_table_bind [OF ok at lo(1) lob(2)], goal_cases fail succ)
      case (fail n')
      have "table_at ni b 0 mb (n'\<lparr>main_table_ba := b, backup_table_ba := 0\<rparr>)"
        by (rule table_at_update fail(1))+
      from rescue_single_wp [OF ok this lob(1) lo(3,4)] show ?case
        by (simp add: table_at_frame [OF fail(1)])
    next
      case (succ n' s e)
      have o: "?lo \<le> s" "s < b" using succ lo by order+
      have "table_at ni s b mb (nmbm_mark_tables_clean (n'\<lparr>main_table_ba := s\<rparr>))"
        by (rule table_at_update succ(1))+
      from result_both [OF ok this o lo(3,4)] show ?case by simp
    qed
  next
    case False
    show ?thesis
    proof (simp only: nmbm_update_single_info_table_def Let_def f False if_False prod.case,
        rule write_info_table_bind [OF ok at lob(1) order_refl], goal_cases fail succ)
      case (fail n')
      have "table_at ni m 0 b (n'\<lparr>mapping_blocks_ba := b, backup_table_ba := 0\<rparr>)"
        by (rule table_at_update fail(1))+
      from result_single [OF ok this lo(1,2) lob(2), of False] show ?case
        by (simp add: table_at_frame [OF fail(1)])
    next
      case (succ n' s e)
      have o: "m < s" using succ lo by order
      have "table_at ni m s e (nmbm_mark_tables_clean (n'\<lparr>backup_table_ba := s, mapping_blocks_ba := e\<rparr>))"
        by (rule table_at_update succ(1))+
      from result_both [OF ok this lo(1) o succ(4,5)] show ?case by simp
    qed
  qed
qed

lemma update_main_wp:
  assumes ok: "area_ok ni" and at: "table_at ni m b mb n"
    and t: "tables_ok (mgmt_start_ba ni) m b mb" "mb \<le> mapping_blocks_top_ba ni"
    and limit: "limit = (if b = 0 then mapping_blocks_top_ba ni else b)"
    and cl: "b \<noteq> 0 \<Longrightarrow> cleaned ni n"
  shows "wp (update_main_table n limit) (\<lambda>(ok, n'). table_result ni ok n')"
proof -
  let ?top = "mapping_blocks_top_ba ni" and ?lo = "mgmt_start_ba ni"
  note f = table_at_frame [OF at]
  show ?thesis
  proof (cases "m = 0")
    case True
    then show ?thesis by (simp add: update_main_table_def f rebuild_wp [OF ok at])
  next
    case m: False
    then have lo: "?lo \<le> m" "m < mb" using t by (simp_all add: tables_ok_def)
    have b: "?lo \<le> b" "b < mb" "m < b" if "b \<noteq> 0" using t that by (simp_all add: tables_ok_def)
    have hi: "limit \<le> ?top" using limit b t(2) by (cases "b = 0") auto
    show ?thesis
      unfolding update_main_table_def f if_not_P [OF m]
    proof (rule write_info_table_bind [OF ok at lo(1) hi], goal_cases fail succ)
      case (fail n')
      show ?case
        using rebuild_wp [OF ok fail(1)] rescue_main_wp [OF ok fail(1) _ b(1,2) t(2)] fail(2) cl
        by (simp add: table_at_frame [OF fail(1)])
    next
      case (succ n' s e)
      have los: "?lo \<le> s" using lo succ by order
      show ?case
      proof (cases "b = 0")
        case True
        have "table_at ni s b e (nmbm_mark_tables_clean (n'\<lparr>main_table_ba := s, mapping_blocks_ba := e\<rparr>))"
          by (rule table_at_update succ(1))+
        from result_single [OF ok this [unfolded True] los succ(4)] True limit succ(5) table_at_frame [OF succ(1)]
        show ?thesis by (simp add: Let_def)
      next
        case False
        have "table_at ni s b mb (nmbm_mark_tables_clean (n'\<lparr>main_table_ba := s\<rparr>))"
          by (rule table_at_update succ(1))+
        moreover have "s < b" using succ(4,5) limit False by simp
        ultimately show ?thesis
          using result_both [OF ok _ los _ b(2) t(2)] False table_at_frame [OF succ(1)] by (simp add: Let_def)
      qed
    qed
  qed
qed

section \<open>Updating\<close>

lemma generate_cache_step:
  "nmbm_generate_info_table_cache crc ni = (changed, n) \<Longrightarrow>
   table_at ni (main_table_ba ni) (backup_table_ba ni) (mapping_blocks_ba ni) n"
  by (auto simp: nmbm_generate_info_table_cache_def Let_def table_at_def)

lemma generate_cache_changed:
  "nmbm_generate_info_table_cache crc ni = (changed, n) \<Longrightarrow>
   changed = (block_state_changed ni \<noteq> 0 \<or> block_mapping_changed ni \<noteq> 0) \<and>
   block_state_changed n = block_state_changed ni \<and> block_mapping_changed n = block_mapping_changed ni"
  by (auto simp: nmbm_generate_info_table_cache_def Let_def)

lemma update_once_wp:
  assumes l: "layout ni"
  shows "wp (nmbm_update_info_table_once crc ni force) (\<lambda>(ok, n). table_result ni ok n)"
proof -
  let ?top = "mapping_blocks_top_ba ni" and ?lo = "mgmt_start_ba ni"
    and ?m = "main_table_ba ni" and ?b = "backup_table_ba ni" and ?mb = "mapping_blocks_ba ni"
  have ok: "area_ok ni" and t: "tables_ok ?lo ?m ?b ?mb" "?lo \<le> ?mb" "?mb \<le> ?top"
    using l by (simp_all add: layout_def)
  obtain changed n where g: "nmbm_generate_info_table_cache crc ni = (changed, n)" by fastforce
  note at = generate_cache_step [OF g]
  note f = table_at_frame [OF at]
  show ?thesis
  proof (cases "\<not> changed \<and> \<not> force")
    case True
    then have "cleaned ni n" using generate_cache_changed [OF g] by (simp add: cleaned_def)
    from table_resultI [OF ok at t(2,3,1)] this True show ?thesis
      by (simp add: nmbm_update_info_table_once_def g)
  next
    case run: False
    show ?thesis
    proof (cases "?b = 0")
      case True
      from update_main_wp [OF ok at t(1,3), of ?top] True show ?thesis
        by (simp add: nmbm_update_info_table_once_def g f if_not_P [OF run] del: de_Morgan_conj)
    next
      case False
      then have b: "?lo \<le> ?b" "?b < ?mb" "?m \<noteq> 0" "?m < ?b" "?lo \<le> ?m" using t(1) by (auto simp: tables_ok_def)
      show ?thesis
        unfolding nmbm_update_info_table_once_def g prod.case Let_def f if_not_P [OF run] if_not_P [OF False]
      proof (rule write_info_table_bind [OF ok at b(1) order_refl], goal_cases fail succ)
        case (fail n')
        have a: "table_at ni ?m 0 ?b (n'\<lparr>mapping_blocks_ba := ?b, backup_table_ba := 0\<rparr>)"
          by (rule table_at_update fail(1))+
        have "?b \<le> ?top" using b t(3) by order
        with update_main_wp [OF ok a, of ?top] b show ?case
          by (simp add: table_at_frame [OF fail(1)] tables_ok_def)
      next
        case (succ n' s e)
        have a: "table_at ni ?m s e (nmbm_mark_tables_clean (n'\<lparr>backup_table_ba := s, mapping_blocks_ba := e\<rparr>))"
          by (rule table_at_update succ(1))+
        have o: "?lo \<le> s" "?m < s" "?m < e" using b succ by order+
        with update_main_wp [OF ok a _ succ(5), of s] b succ area_ok_pos [OF ok o(1)] show ?case
          by (simp add: tables_ok_def)
      qed
    qed
  qed
qed

text \<open>The loop of \<open>nmbm_update_info_table\<close> ends: each of its rounds but the last uses up a good block.\<close>

definition good_count :: "'d nmbm_instance \<Rightarrow> nat" where
  "good_count ni = card {a. nmbm_get_block_state ni a = BLOCK_ST_GOOD}"

lemma wears_good_count:
  assumes "wears nmbm_get_block_state B ni n"
    and "nmbm_get_block_state ni a = BLOCK_ST_GOOD" "nmbm_get_block_state n a = BLOCK_ST_BAD"
  shows "good_count n < good_count ni"
  unfolding good_count_def
proof (rule psubset_card_mono)
  show "{a. nmbm_get_block_state n a = BLOCK_ST_GOOD} \<subset> {a. nmbm_get_block_state ni a = BLOCK_ST_GOOD}"
  proof (rule psubsetI)
    show "{a. nmbm_get_block_state n a = BLOCK_ST_GOOD} \<subseteq> {a. nmbm_get_block_state ni a = BLOCK_ST_GOOD}"
      using state_table.wears_good_before [OF assms(1)] by blast
    have "a \<in> {a. nmbm_get_block_state ni a = BLOCK_ST_GOOD}" "a \<notin> {a. nmbm_get_block_state n a = BLOCK_ST_GOOD}"
      using assms(2,3) by simp_all
    then show "{a. nmbm_get_block_state n a = BLOCK_ST_GOOD} \<noteq> {a. nmbm_get_block_state ni a = BLOCK_ST_GOOD}"
      by blast
  qed
qed simp

text \<open>The contract of an update: only the management area has been touched, the addresses are in
  order, and when it succeeds nothing is left to be written.\<close>

definition update_result :: "'d nmbm_instance \<Rightarrow> bool \<Rightarrow> 'd nmbm_instance \<Rightarrow> bool" where
  "update_result ni ok n \<longleftrightarrow> mgmt_step (mgmt_area ni) ni n \<and> layout n \<and>
     (ok \<longrightarrow> block_state_changed n = 0 \<and> block_mapping_changed n = 0)"

lemma update_loop_wp:
  "layout ni \<Longrightarrow> wp (update_info_table_loop crc ni) (\<lambda>(ok, n). update_result ni ok n)"
proof (induction "good_count ni" arbitrary: ni rule: less_induct)
  case less
  show ?case
  proof (cases "block_state_changed ni \<noteq> 0 \<or> block_mapping_changed ni \<noteq> 0")
    case False
    then show ?thesis using less.prems by (subst update_info_table_loop.simps) (auto simp: update_result_def)
  next
    case True
    show ?thesis
    proof (subst update_info_table_loop.simps, simp only: True if_True wp_bind wp_prod,
        rule wp_pair [OF update_once_wp [OF less.prems]])
      fix ok n assume r: "table_result ni ok n"
      then have s: "mgmt_step (mgmt_area ni) ni n" and l: "layout n" by (simp_all add: table_result_def)
      have "wp (update_info_table_loop crc n) (\<lambda>(ok, n). update_result ni ok n)" if o: ok
      proof (cases "block_state_changed n \<noteq> 0 \<or> block_mapping_changed n \<noteq> 0")
        case False
        then show ?thesis using s l by (subst update_info_table_loop.simps) (auto simp: update_result_def)
      next
        case True
        then obtain a where "nmbm_get_block_state ni a = BLOCK_ST_GOOD" "nmbm_get_block_state n a = BLOCK_ST_BAD"
          using r o by (auto simp: table_result_def cleaned_def)
        with s have "good_count n < good_count ni"
          by (auto simp: mgmt_step_def intro: wears_good_count)
        then show ?thesis
          by (intro wp_pair [OF less.hyps [OF _ l]])
            (use s in \<open>auto simp: update_result_def mgmt_area_step intro: mgmt_step_trans\<close>)
      qed
      then show "wp (if \<not> ok then Some (False, n) else update_info_table_loop crc n)
          (\<lambda>(ok, n). update_result ni ok n)"
        using s l by (auto simp: update_result_def)
    qed
  qed
qed

lemma update_info_table_wp [wp_intro]:
  "layout ni \<Longrightarrow> wp (nmbm_update_info_table crc ni)
     (\<lambda>(ok, n). update_result ni (ok \<and> protected ni = 0) n \<and> (protected ni \<noteq> 0 \<longrightarrow> ok \<and> n = ni))"
  using update_loop_wp [of ni crc]
  by (auto simp: nmbm_update_info_table_def update_result_def elim!: wp_pair)

end
