(* ===== verification/Nmbm_Runtime.thy ===== *)
theory Nmbm_Runtime
  imports Nmbm_Info_Table
begin

text \<open>
  What the operations on a running instance keep, stated once for all of them: the invariant
  \<open>run_inv\<close> of an attached instance, and the relation \<open>runs\<close> between the instance before and
  after an operation. \<open>spares\<close> is the same without the mapping, for the time while it is being
  built. The last part are the properties of \<open>nmbm_map_block\<close>.
\<close>

section \<open>The run time contract\<close>

text \<open>What the operations on an attached instance may change: the tables, their addresses and the
  top of the spare blocks. Blocks only get worse, and no lower device call that changes the chip
  addresses a block outside \<open>B\<close>.\<close>

definition run_blank :: "'d nmbm_instance \<Rightarrow> 'd nmbm_instance" where
  "run_blank ni = mgmt_blank (ni\<lparr>block_mapping := [], mapping_blocks_top_ba := 0\<rparr>)"

definition ages :: "u32 set \<Rightarrow> 'd nmbm_instance \<Rightarrow> 'd nmbm_instance \<Rightarrow> bool" where
  "ages B ni ni' \<longleftrightarrow>
     (\<forall>a. (nmbm_get_block_state ni a = BLOCK_ST_BAD \<longrightarrow> nmbm_get_block_state ni' a = BLOCK_ST_BAD) \<and>
          (nmbm_get_block_state ni' a = BLOCK_ST_GOOD \<longrightarrow> nmbm_get_block_state ni a = BLOCK_ST_GOOD) \<and>
          (nmbm_get_block_state ni' a \<noteq> nmbm_get_block_state ni a \<longrightarrow> a \<in> B))"

definition run_step :: "u32 set \<Rightarrow> 'd nmbm_instance \<Rightarrow> 'd nmbm_instance \<Rightarrow> bool" where
  "run_step B ni ni' \<longleftrightarrow>
     run_blank ni' = run_blank ni \<and> length (block_state ni') = length (block_state ni) \<and>
     length (block_mapping ni') = length (block_mapping ni) \<and>
     mapping_blocks_top_ba ni' \<le> mapping_blocks_top_ba ni \<and>
     ages B ni ni' \<and> (lower_call (lower ni) (in_blocks ni B))\<^sup>*\<^sup>* (chip ni) (chip ni')"

text \<open>The mapped blocks are blocks below the signature; an entry below zero maps nothing.\<close>

definition mapped_ok :: "'d nmbm_instance \<Rightarrow> bool" where
  "mapped_ok ni \<longleftrightarrow> unat (data_block_count ni) \<le> length (block_mapping ni) \<and>
     (\<forall>i < unat (data_block_count ni).
        sint (block_mapping ni ! i) < 0 \<or> block_mapping ni ! i < signature_ba ni)"

definition spare_ok :: "'d nmbm_instance \<Rightarrow> bool" where
  "spare_ok ni \<longleftrightarrow> layout ni \<and> mapping_blocks_top_ba ni < signature_ba ni \<and> signature_ba ni < block_count ni"

definition run_inv :: "'d nmbm_instance \<Rightarrow> bool" where
  "run_inv ni \<longleftrightarrow> spare_ok ni \<and> mapped_ok ni"

definition below_signature :: "'d nmbm_instance \<Rightarrow> u32 set" where
  "below_signature ni = {..<signature_ba ni}"

definition spares :: "'d nmbm_instance \<Rightarrow> 'd nmbm_instance \<Rightarrow> bool" where
  "spares ni n \<longleftrightarrow> run_step (below_signature ni) ni n \<and> spare_ok n"

definition runs :: "'d nmbm_instance \<Rightarrow> 'd nmbm_instance \<Rightarrow> bool" where
  "runs ni n \<longleftrightarrow> run_step (below_signature ni) ni n \<and> run_inv n"

lemma run_step_frame:
  assumes "run_step B ni ni'"
  shows "lower ni' = (lower ni)\<lparr>arg := chip ni'\<rparr>"
    "rawpage_size ni' = rawpage_size ni"
    "writesize_mask ni' = writesize_mask ni" "erasesize_mask ni' = erasesize_mask ni"
    "erasesize_shift ni' = erasesize_shift ni" "signature ni' = signature ni"
    "info_table_size ni' = info_table_size ni"
    "state_table_size ni' = state_table_size ni" "mapping_table_size ni' = mapping_table_size ni"
    "block_count ni' = block_count ni"
    "data_block_count ni' = data_block_count ni" "mgmt_start_ba ni' = mgmt_start_ba ni"
    "signature_ba ni' = signature_ba ni"
    "log_display_level ni' = log_display_level ni" "length (block_state ni') = length (block_state ni)"
    "length (block_mapping ni') = length (block_mapping ni)"
    "mapping_blocks_top_ba ni' \<le> mapping_blocks_top_ba ni"
  using assms mgmt_blank_frame [OF assms [unfolded run_step_def run_blank_def, THEN conjunct1]]
  by (simp_all add: run_step_def chip_def)

lemma ages_refl: "ages B ni ni"
  by (simp add: ages_def)

lemma ages_trans: "ages B ni ni' \<Longrightarrow> ages B ni' ni'' \<Longrightarrow> ages B ni ni''"
  unfolding ages_def by metis

lemma wears_ages: "wears nmbm_get_block_state B ni ni' \<Longrightarrow> ages B ni ni'"
  unfolding wears_def ages_def by (metis zero_neq_numeral)

lemma run_step_trans:
  assumes "run_step B ni ni'" and "run_step B ni' ni''"
  shows "run_step B ni ni''"
proof -
  note a = assms(1) [unfolded run_step_def] and b = assms(2) [unfolded run_step_def]
  have "(lower_call (lower ni) (in_blocks ni B))\<^sup>*\<^sup>* (chip ni') (chip ni'')"
    using b by (simp add: run_step_frame(1) [OF assms(1)] in_blocks_shift [OF run_step_frame(5) [OF assms(1)]])
  then have "(lower_call (lower ni) (in_blocks ni B))\<^sup>*\<^sup>* (chip ni) (chip ni'')"
    using a by (blast intro: rtranclp_trans)
  moreover have "ages B ni ni''" using a b ages_trans by blast
  ultimately show ?thesis using a b by (auto simp: run_step_def)
qed

lemma run_step_mgmt:
  assumes "mgmt_step B' ni ni'" and "B' \<subseteq> B"
  shows "run_step B ni ni'"
proof -
  note m = mgmt_step_mono [OF assms, unfolded mgmt_step_def]
  have b: "mgmt_blank ni' = mgmt_blank ni" using m by blast
  have "run_blank ni' = (mgmt_blank ni')\<lparr>block_mapping := [], mapping_blocks_top_ba := 0\<rparr>"
    "run_blank ni = (mgmt_blank ni)\<lparr>block_mapping := [], mapping_blocks_top_ba := 0\<rparr>"
    by (simp_all add: run_blank_def mgmt_blank_def)
  then show ?thesis
    using m mgmt_blank_frame [OF b] b by (auto simp: run_step_def intro: wears_ages)
qed

lemma spare_ok_area: "spare_ok ni \<Longrightarrow> mgmt_area ni \<subseteq> below_signature ni"
  by (auto simp: spare_ok_def mgmt_area_def below_signature_def)

lemma runs_frame:
  "runs ni n \<Longrightarrow> run_step (below_signature ni) ni n" "runs ni n \<Longrightarrow> run_inv n"
  "spares ni n \<Longrightarrow> run_step (below_signature ni) ni n" "spares ni n \<Longrightarrow> spare_ok n"
  by (simp_all add: runs_def spares_def)

lemma runs_trans: "runs ni n \<Longrightarrow> runs n n' \<Longrightarrow> runs ni n'"
  using run_step_frame(13) [OF runs_frame(1), of ni n]
  by (auto simp: runs_def below_signature_def intro: run_step_trans)

lemma spares_trans: "spares ni n \<Longrightarrow> spares n n' \<Longrightarrow> spares ni n'"
  using run_step_frame(13) [OF runs_frame(3), of ni n]
  by (auto simp: spares_def below_signature_def intro: run_step_trans)

lemma run_step_refl: "run_step B ni ni"
  by (simp add: run_step_def ages_refl)

lemma runs_refl: "run_inv ni \<Longrightarrow> runs ni ni"
  by (simp add: runs_def run_step_refl)

lemma spares_mgmt:
  assumes "spare_ok ni" and "mgmt_step (below_signature ni) ni n" and "layout n"
  shows "spares ni n"
  using assms run_step_mgmt [OF assms(2) order_refl] mgmt_step_frame [OF assms(2)]
  by (simp add: spares_def spare_ok_def)

lemma runs_mgmt:
  assumes "run_inv ni" and "mgmt_step (below_signature ni) ni n" and "layout n"
  shows "runs ni n"
  using spares_mgmt [OF _ assms(2,3)] mgmt_step_frame [OF assms(2)] assms(1)
  by (simp add: spares_def runs_def run_inv_def mapped_ok_def)

lemma layout_worn: "worn B ni n \<Longrightarrow> layout n = layout ni"
  using worn_frame [of B ni n] worn_geom [of B ni n] by (simp add: layout_def area_ok_def)

lemma runs_worn: "run_inv ni \<Longrightarrow> worn (below_signature ni) ni n \<Longrightarrow> runs ni n"
  by (rule runs_mgmt [OF _ mgmt_step_worn]) (simp_all add: layout_worn run_inv_def spare_ok_def)

lemma runs_chip: "run_inv ni \<Longrightarrow> chip_evolves (in_blocks ni (below_signature ni)) ni n \<Longrightarrow> runs ni n"
  by (blast intro: runs_worn worn_chip)

lemma layout_set_state [simp]: "layout (set_block_state ni ba st) = layout ni"
  by (simp add: layout_def area_ok_def geom_def)

lemma spare_in_table: "spare_ok ni \<Longrightarrow> ba < signature_ba ni \<Longrightarrow> in_table ni ba"
  by (rule in_table_block_count) (auto simp: spare_ok_def layout_def area_ok_def)

lemma runs_set_state:
  assumes "run_inv ni" and "ba < signature_ba ni"
    and "st = BLOCK_ST_BAD \<or> st = BLOCK_ST_NEED_REMAP \<and> nmbm_get_block_state ni ba \<noteq> BLOCK_ST_BAD"
  shows "runs ni (set_block_state ni ba st)"
proof -
  have it: "in_table ni ba" using assms by (auto simp: run_inv_def intro: spare_in_table)
  have "nmbm_get_block_state (set_block_state ni ba st) a =
      (if a = ba then st AND 3 else nmbm_get_block_state ni a)" for a
    using it by (simp add: get_set_same get_set_other)
  then have "ages (below_signature ni) ni (set_block_state ni ba st)"
    using assms(2,3) by (auto simp: ages_def below_signature_def)
  moreover have "run_blank (set_block_state ni ba st) = run_blank ni"
    by (simp add: nmbm_set_block_state_def Let_def run_blank_def mgmt_blank_def)
  ultimately show ?thesis
    using assms(1) by (simp add: runs_def run_step_def run_inv_def spare_ok_def mapped_ok_def)
qed

lemma spares_update:
  assumes "spare_ok ni"
  shows "wp (nmbm_update_info_table crc ni) (\<lambda>(ok, n). spares ni n \<and> block_mapping n = block_mapping ni \<and>
     mapping_blocks_top_ba n = mapping_blocks_top_ba ni)"
proof (rule wp_pair [OF update_info_table_wp])
  show "layout ni" using assms by (simp add: spare_ok_def)
next
  fix ok n
  assume "update_result ni (ok \<and> protected ni = 0) n \<and> (protected ni \<noteq> 0 \<longrightarrow> ok \<and> n = ni)"
  then have m: "mgmt_step (mgmt_area ni) ni n" and "layout n" by (simp_all add: update_result_def)
  then show "spares ni n \<and> block_mapping n = block_mapping ni \<and> mapping_blocks_top_ba n = mapping_blocks_top_ba ni"
    using spares_mgmt [OF assms mgmt_step_mono [OF m spare_ok_area [OF assms]]] mgmt_step_frame [OF m] by simp
qed

lemma runs_spares: "mapped_ok ni \<Longrightarrow> spares ni n \<Longrightarrow> block_mapping n = block_mapping ni \<Longrightarrow> runs ni n"
  using run_step_frame [OF runs_frame(3), of ni n]
  by (simp add: spares_def runs_def run_inv_def mapped_ok_def)

lemma runs_update [wp_intro]:
  "run_inv ni \<Longrightarrow> wp (nmbm_update_info_table crc ni) (\<lambda>(ok, n). runs ni n \<and> block_mapping n = block_mapping ni \<and>
     mapping_blocks_top_ba n = mapping_blocks_top_ba ni)"
  by (rule wp_pair [OF spares_update]) (auto simp: run_inv_def intro: runs_spares)

lemma runs_sig: "runs ni n \<Longrightarrow> signature_ba n = signature_ba ni"
  and runs_dbc: "runs ni n \<Longrightarrow> data_block_count n = data_block_count ni"
  and runs_top: "runs ni n \<Longrightarrow> mapping_blocks_top_ba n \<le> mapping_blocks_top_ba ni"
  and runs_below: "runs ni n \<Longrightarrow> below_signature n = below_signature ni"
  and runs_inv: "runs ni n \<Longrightarrow> run_inv n"
  by (auto simp: runs_def below_signature_def dest: run_step_frame)

section \<open>Taking a spare block\<close>

lemma good_desc_head:
  assumes "good_desc ni b a = pb # rest"
  shows "a < pb" "pb \<le> b" "nmbm_get_block_state ni pb = BLOCK_ST_GOOD"
    "\<forall>x. pb < x \<and> x \<le> b \<longrightarrow> nmbm_get_block_state ni x \<noteq> BLOCK_ST_GOOD"
proof -
  have "a < pb \<and> pb \<le> b \<and> nmbm_get_block_state ni pb = BLOCK_ST_GOOD \<and>
    (\<forall>x. pb < x \<and> x \<le> b \<longrightarrow> nmbm_get_block_state ni x \<noteq> BLOCK_ST_GOOD)"
    using assms
  proof (induction "unat b" arbitrary: b rule: less_induct)
    case less
    have lt: "a < b" using less.prems good_desc_empty [of a b ni] by fastforce
    show ?case
    proof (cases "nmbm_get_block_state ni b = BLOCK_ST_GOOD")
      case True
      with less.prems lt show ?thesis by (auto simp: good_desc_step [OF lt])
    next
      case False
      with less.prems have "good_desc ni (b - 1) a = pb # rest" by (simp add: good_desc_step [OF lt])
      note ih = less.hyps [OF unat_down [OF lt] this]
      have pred: "x \<le> b - 1 \<longleftrightarrow> x \<le> b \<and> x \<noteq> b" for x
        using unat_pred [OF lt] lt unfolding word_le_nat_alt word_less_nat_alt word_unat_eq_iff by arith
      show ?thesis
        using ih False by (auto simp: pred)
    qed
  qed
  then show "a < pb" "pb \<le> b" "nmbm_get_block_state ni pb = BLOCK_ST_GOOD"
    "\<forall>x. pb < x \<and> x \<le> b \<longrightarrow> nmbm_get_block_state ni x \<noteq> BLOCK_ST_GOOD" by blast+
qed

lemma good_desc_nil:
  assumes "good_desc ni b a = []" "a < x" "x \<le> b"
  shows "nmbm_get_block_state ni x \<noteq> BLOCK_ST_GOOD"
proof
  assume g: "nmbm_get_block_state ni x = BLOCK_ST_GOOD"
  have "unat x \<in> set [Suc (unat a)..<Suc (unat b)]"
    using assms(2,3) by (auto simp: word_less_nat_alt word_le_nat_alt)
  then have "x \<in> set (rev (map of_nat [Suc (unat a)..<Suc (unat b)]))"
    unfolding set_rev set_map by (rule rev_image_eqI) simp
  with g have "x \<in> set (good_desc ni b a)" by (simp add: good_desc_def)
  with assms(1) show False by simp
qed

text \<open>The spare block that is taken, if any: the highest good block that is not above the top.\<close>

definition next_spare :: "'d nmbm_instance \<Rightarrow> u32 \<Rightarrow> bool" where
  "next_spare ni pb \<longleftrightarrow> mapping_blocks_ba ni < pb \<and> pb \<le> mapping_blocks_top_ba ni \<and>
     nmbm_get_block_state ni pb = BLOCK_ST_GOOD \<and>
     (\<forall>x. pb < x \<and> x \<le> mapping_blocks_top_ba ni \<longrightarrow> nmbm_get_block_state ni x \<noteq> BLOCK_ST_GOOD)"

definition take_spare :: "'d nmbm_instance \<Rightarrow> u32 \<Rightarrow> u32 \<Rightarrow> 'd nmbm_instance" where
  "take_spare ni lb pb = ni\<lparr>block_mapping := (block_mapping ni)[unat lb := pb],
     mapping_blocks_top_ba := mapping_blocks_top_ba ni - 1,
     block_mapping_changed := block_mapping_changed ni + 1\<rparr>"

lemma map_block_cases:
  assumes "spare_ok ni"
  shows "(mapping_blocks_ba ni = mapping_blocks_top_ba ni \<and> nmbm_map_block crc ni lb = Some (False, ni)) \<or>
    (\<exists>pb. next_spare ni pb \<and> nmbm_map_block crc ni lb = Some (True, take_spare ni lb pb)) \<or>
    ((\<forall>pb. \<not> next_spare ni pb) \<and> mapping_blocks_ba ni < mapping_blocks_top_ba ni \<and>
      nmbm_map_block crc ni lb = Option.bind (nmbm_update_info_table crc ni)
        (\<lambda>(_, ni). Some (False, ni\<lparr>mapping_blocks_top_ba := mapping_blocks_ba ni\<rparr>)))"
proof -
  let ?lo = "mapping_blocks_ba ni" and ?top = "mapping_blocks_top_ba ni"
  have le: "?lo \<le> ?top" "?top < block_count ni"
    using assms by (simp_all add: spare_ok_def layout_def area_ok_def)
  then have "?lo < block_count ni" by order
  then have lim: "walk_limit ni ?lo = ?lo" by (auto simp: walk_limit_def)
  have walk: "nmbm_block_walk ni False ?top 0 ?lo =
      (case good_desc ni ?top ?lo of [] \<Rightarrow> None | pb # _ \<Rightarrow> Some pb)"
    by (simp add: nmbm_block_walk_def block_walk_desc_first lim)
  show ?thesis
  proof (cases "?lo = ?top")
    case True
    then show ?thesis by (simp add: nmbm_map_block_def)
  next
    case False
    with le have lt: "?lo < ?top" by order
    show ?thesis
    proof (cases "good_desc ni ?top ?lo")
      case Nil
      then have "\<forall>pb. \<not> next_spare ni pb" using good_desc_nil [OF Nil] by (auto simp: next_spare_def)
      with Nil False lt walk show ?thesis by (simp add: nmbm_map_block_def)
    next
      case (Cons pb rest)
      with good_desc_head [OF Cons] have "next_spare ni pb" by (simp add: next_spare_def)
      with Cons False walk show ?thesis by (auto simp: nmbm_map_block_def take_spare_def)
    qed
  qed
qed

lemma pred_le: "(0 :: u32) < a \<Longrightarrow> a - 1 \<le> a" "(b :: u32) < a \<Longrightarrow> b \<le> a - 1"
  using unat_pred [of 0 a] unat_pred [of b a] by (simp_all add: word_le_nat_alt word_less_nat_alt)

lemma take_spare_ok:
  assumes "spare_ok ni" and "next_spare ni pb" and "unat lb < length (block_mapping ni)"
  shows "spares ni (take_spare ni lb pb)" "pb < signature_ba ni"
proof -
  let ?n = "take_spare ni lb pb" and ?top = "mapping_blocks_top_ba ni"
  have p: "mapping_blocks_ba ni < pb" "pb \<le> ?top" using assms(2) by (simp_all add: next_spare_def)
  then have lt: "mapping_blocks_ba ni < ?top" by order
  have l: "layout ni" and sig: "?top < signature_ba ni" "signature_ba ni < block_count ni"
    using assms(1) by (simp_all add: spare_ok_def)
  have le: "?top - 1 \<le> ?top" "mapping_blocks_ba ni \<le> ?top - 1" 
    using pred_le(1) [OF order_le_less_trans [OF word_zero_le lt]] pred_le(2) [OF lt] by simp_all
  have "mgmt_start_ba ni \<le> ?top - 1" "?top - 1 < block_count ni" "?top - 1 < signature_ba ni"
    using l le sig by (auto simp: layout_def area_ok_def)
  then have "spare_ok ?n" using l le sig
    by (simp add: spare_ok_def layout_def area_ok_def take_spare_def geom_def)
  moreover have "run_blank ?n = run_blank ni" by (simp add: run_blank_def mgmt_blank_def take_spare_def)
  ultimately show "spares ni ?n"
    using le by (simp add: spares_def run_step_def take_spare_def ages_def chip_def)
  show "pb < signature_ba ni" using p sig by order
qed

lemma no_spare_ok:
  assumes "spare_ok ni"
  shows "spares ni (ni\<lparr>mapping_blocks_top_ba := mapping_blocks_ba ni\<rparr>)"
proof -
  let ?n = "ni\<lparr>mapping_blocks_top_ba := mapping_blocks_ba ni\<rparr>"
  have le: "mapping_blocks_ba ni \<le> mapping_blocks_top_ba ni" and l: "layout ni"
    and sig: "mapping_blocks_top_ba ni < signature_ba ni" "signature_ba ni < block_count ni"
    using assms by (simp_all add: spare_ok_def layout_def)
  have "mapping_blocks_ba ni < block_count ni" "mapping_blocks_ba ni < signature_ba ni" using le sig by order+
  then have "spare_ok ?n" using l sig by (simp add: spare_ok_def layout_def area_ok_def geom_def)
  then show ?thesis
    using le by (simp add: spares_def run_step_def run_blank_def mgmt_blank_def ages_def chip_def)
qed

text \<open>It always returns. On success exactly the entry of \<open>lb\<close> has changed; when it fails there is no
  spare block, and none can be taken later.\<close>

lemma map_block_wp [wp_intro]:
  assumes s: "spare_ok ni" and lb: "unat lb < length (block_mapping ni)"
  shows "wp (nmbm_map_block crc ni lb) (\<lambda>(ok, n). spares ni n \<and>
    (ok \<longrightarrow> (\<exists>pb. next_spare ni pb \<and> n = take_spare ni lb pb)) \<and>
    (\<not> ok \<longrightarrow> (\<forall>pb. \<not> next_spare ni pb) \<and> block_mapping n = block_mapping ni \<and>
       mapping_blocks_top_ba n = mapping_blocks_ba n))"
  using map_block_cases [OF s, of crc lb]
proof (elim disjE exE conjE, goal_cases equal taken none)
  case equal
  then have "\<not> next_spare ni pb" for pb by (auto simp: next_spare_def)
  with equal s show ?case by (simp add: spares_def run_step_refl)
next
  case (taken pb)
  with take_spare_ok [OF s taken(1) lb] show ?case by auto
next
  case none
  show ?case
    unfolding none(3) wp_bind
  proof (rule wp_mono [OF spares_update [OF s]])
    fix x assume "case x of (ok, n) \<Rightarrow> spares ni n \<and> block_mapping n = block_mapping ni \<and>
       mapping_blocks_top_ba n = mapping_blocks_top_ba ni"
    then obtain ok n where "x = (ok, n)" "spares ni n" "block_mapping n = block_mapping ni" by auto
    with none(1) show "wp (case x of (_, n) \<Rightarrow> Some (False, n\<lparr>mapping_blocks_top_ba := mapping_blocks_ba n\<rparr>))
      (\<lambda>(ok, n). spares ni n \<and> (ok \<longrightarrow> (\<exists>pb. next_spare ni pb \<and> n = take_spare ni lb pb)) \<and>
        (\<not> ok \<longrightarrow> (\<forall>pb. \<not> next_spare ni pb) \<and> block_mapping n = block_mapping ni \<and>
           mapping_blocks_top_ba n = mapping_blocks_ba n))"
      using spares_trans [OF _ no_spare_ok [OF runs_frame(4)], of ni n] by auto
  qed
qed

end
