(* ===== verification/Nmbm_Attach.thy ===== *)
theory Nmbm_Attach
  imports Nmbm_Runtime
begin

text \<open>
  Bringing up an instance: the checks on the lower device, the sizes, the search for the
  signature, loading the info tables of a chip that has them and creating them on one that has
  not; \<open>nmbm_attach\<close> and \<open>nmbm_detach\<close>.
\<close>

section \<open>Creating the management data\<close>

partial_function (option) remap_tail_loop ::
  "crc_fun \<Rightarrow> 'd nmbm_instance \<Rightarrow> u32 \<Rightarrow> 'd nmbm_instance option" where
  "remap_tail_loop crc ni lb =
     (if lb < mgmt_start_ba ni then
        do {
          (success, ni) \<leftarrow> nmbm_map_block crc ni lb;
          if \<not> success then Some ni
          else remap_tail_loop crc (ni\<lparr>data_block_count := data_block_count ni + 1\<rparr>) (lb + 1)
        }
      else Some ni)"

definition nmbm_create_info_table ::
  "crc_fun \<Rightarrow> 'd nmbm_instance \<Rightarrow> (bool \<times> 'd nmbm_instance) option" where
  "nmbm_create_info_table crc ni =
     (case nmbm_block_walk ni False (signature_ba ni) 1 (mgmt_start_ba ni) of
        None \<Rightarrow> Some (False, ni)
      | Some top_ba \<Rightarrow>
          do {
            let ni = ni\<lparr>mapping_blocks_top_ba := top_ba\<rparr>;
            let (_, ni) = nmbm_generate_info_table_cache crc ni;
            (success, ni) \<leftarrow> nmbm_rebuild_info_table ni;
            if \<not> success then Some (False, ni)
            else do {
              ni \<leftarrow> remap_tail_loop crc ni (data_block_count ni);
              (success, ni) \<leftarrow> nmbm_update_info_table crc ni;
              if \<not> success then Some (False, ni) else Some (True, ni)
            }
          })"

definition nmbm_create_new ::
  "crc_fun \<Rightarrow> 'd nmbm_instance \<Rightarrow> (bool \<times> 'd nmbm_instance) option" where
  "nmbm_create_new crc ni =
     (let ni = ni\<lparr>mgmt_start_ba :=
            block_count ni * (NMBM_MGMT_DIV - max_ratio (lower ni)) div NMBM_MGMT_DIV\<rparr>;
          ni = (if max_reserved_blocks (lower ni) \<noteq> 0 \<and>
                   max_reserved_blocks (lower ni) < block_count ni - mgmt_start_ba ni
                then ni\<lparr>mgmt_start_ba := block_count ni - max_reserved_blocks (lower ni)\<rparr> else ni);
          ni = nmbm_scan_badblocks ni;
          ni = nmbm_build_mapping_table ni;
          sig = signature ni;
          sig = sig\<lparr>sig_header := (sig_header sig)\<lparr>magic := NMBM_MAGIC_SIGNATURE, version := NMBM_VER,
                      hdr_size := of_nat sizeof_signature\<rparr>,
                    nand_size := lsize (lower ni), block_size := erasesize (lower ni),
                    page_size := writesize (lower ni), spare_size := oobsize (lower ni),
                    mgmt_start_pb := mgmt_start_ba ni, max_try_count := of_nat NMBM_TRY_COUNT\<rparr>;
          sig = decode_signature (nmbm_update_checksum crc (encode_signature sig));
          ni = ni\<lparr>signature := sig\<rparr>
      in if has_flag ni NMBM_F_READ_ONLY then Some (True, ni)
         else do {
           (r, ni) \<leftarrow> nmbm_write_signature ni (mgmt_start_ba ni) (signature ni);
           case r of
             None \<Rightarrow> Some (False, ni)
           | Some ba \<Rightarrow> nmbm_create_info_table crc (ni\<lparr>signature_ba := ba\<rparr>)
         })"

section \<open>Loading the info tables\<close>

definition nmbm_check_info_table_header :: "'d nmbm_instance \<Rightarrow> u8 list \<Rightarrow> bool" where
  "nmbm_check_info_table_header ni data =
     (let ifthdr = decode_info_table_header data
      in if magic (ift_header ifthdr) \<noteq> NMBM_MAGIC_INFO_TABLE then False
         else if hdr_size (ift_header ifthdr) \<noteq> info_table_size ni then False
         else if mapping_table_off ifthdr - state_table_off ifthdr < state_table_size ni then False
         else if info_table_size ni - mapping_table_off ifthdr < mapping_table_size ni then False
         else True)"

text \<open>The mapping check; its comparisons are of an \<open>int32_t\<close> with an \<open>uint32_t\<close>, so C makes them on
  unsigned values.\<close>

function check_mapping_loop :: "'d nmbm_instance \<Rightarrow> u32 list \<Rightarrow> u32 \<Rightarrow> u32 \<Rightarrow> u32 \<Rightarrow> u32 option" where
  "check_mapping_loop ni bm end_ba minimum ba =
     (if ba < data_block_count ni then
        let m = bm ! unat ba
        in if (data_block_count ni \<le> m \<and> m < end_ba) \<or> m = signature_ba ni then None
           else check_mapping_loop ni bm end_ba (if end_ba \<le> m \<and> m < minimum then m else minimum) (ba + 1)
      else Some minimum)"
  by pat_completeness auto
termination
  by (relation "measure (\<lambda>(ni, bm, end_ba, minimum, ba). unat (data_block_count ni) - unat ba)")
    (simp_all add: unat_up)

function check_state_loop :: "'d nmbm_instance \<Rightarrow> u32 list \<Rightarrow> u32 \<Rightarrow> u32 \<Rightarrow> bool" where
  "check_state_loop ni bs ba end_ba =
     (if ba < end_ba then
        if nmbm_get_block_state ni ba \<noteq> BLOCK_ST_GOOD then check_state_loop ni bs (ba + 1) end_ba
        else if nmbm_get_block_state_raw bs ba \<noteq> BLOCK_ST_GOOD then False
        else check_state_loop ni bs (ba + 1) end_ba
      else True)"
  by pat_completeness auto
termination
  by (relation "measure (\<lambda>(ni, bs, ba, end_ba). unat end_ba - unat ba)") (simp_all add: unat_up)

declare check_mapping_loop.simps [simp del] check_state_loop.simps [simp del]

text \<open>The tables inside an image.\<close>

definition image_state_table :: "'d nmbm_instance \<Rightarrow> u8 list \<Rightarrow> u32 list" where
  "image_state_table ni data =
     get_le32_array data (unat (state_table_off (decode_info_table_header data)))
       (unat (state_table_size ni) div 4)"

definition image_mapping_table :: "'d nmbm_instance \<Rightarrow> u8 list \<Rightarrow> u32 list" where
  "image_mapping_table ni data =
     get_le32_array data (unat (mapping_table_off (decode_info_table_header data)))
       (unat (mapping_table_size ni) div 4)"

definition nmbm_check_info_table :: "'d nmbm_instance \<Rightarrow> u32 \<Rightarrow> u32 \<Rightarrow> u8 list \<Rightarrow> u32 option" where
  "nmbm_check_info_table ni start_ba end_ba data =
     (case check_mapping_loop ni (image_mapping_table ni data) end_ba (signature_ba ni) 0 of
        None \<Rightarrow> None
      | Some minimum_mapping_pb \<Rightarrow>
          if check_state_loop ni (image_state_table ni data) start_ba end_ba
          then Some (minimum_mapping_pb - 1) else None)"

text \<open>The read loop of \<open>nmbm_try_load_info_table\<close>: the first block of the table and the block after
  its end, when the whole table has been read into \<open>info_table_cache\<close>.\<close>

partial_function (option) try_load_loop ::
  "'d nmbm_instance \<Rightarrow> u32 \<Rightarrow> u32 \<Rightarrow> nat \<Rightarrow> u32 \<Rightarrow> u32 \<Rightarrow> bool \<Rightarrow>
   ((u32 \<times> u32) option \<times> 'd nmbm_instance) option" where
  "try_load_loop ni ba limit pos sizeremain start_ba checkhdr =
     (if sizeremain \<noteq> 0 \<and> ba < limit then
        if nmbm_get_block_state ni ba \<noteq> BLOCK_ST_GOOD
        then try_load_loop ni (ba + 1) limit pos sizeremain start_ba checkhdr
        else
          let (bad, ni) = nmbm_check_bad_phys_block ni ba
          in if bad then try_load_loop (set_block_state ni ba BLOCK_ST_BAD) (ba + 1) limit pos
                           sizeremain start_ba checkhdr
             else
               let chunksize = (if erasesize (lower ni) < sizeremain then erasesize (lower ni) else sizeremain)
               in do {
                    (ret, buf, ni) \<leftarrow> nmbn_read_data ni (ba2addr ni ba)
                       (drop pos (info_table_cache ni)) chunksize;
                    let ni = ni\<lparr>info_table_cache := memcpy_at (info_table_cache ni) pos buf\<rparr>;
                    if ret < 0 then
                      try_load_loop (set_block_state ni ba BLOCK_ST_BAD) (ba + 1) limit pos sizeremain
                        start_ba checkhdr
                    else if 0 < ret then Some (None, ni)
                    else if checkhdr \<and> \<not> nmbm_check_info_table_header ni (drop pos (info_table_cache ni))
                    then Some (None, ni)
                    else try_load_loop ni (ba + 1) limit (pos + unat chunksize) (sizeremain - chunksize)
                           (if checkhdr then ba else start_ba) False
                  }
      else if sizeremain \<noteq> 0 then Some (None, ni)
      else Some (Some (start_ba, ba), ni))"

text \<open>The result is the block after the table, its write count and the top of the mapped
  blocks it implies.\<close>

definition nmbm_try_load_info_table ::
  "crc_fun \<Rightarrow> 'd nmbm_instance \<Rightarrow> u32 \<Rightarrow> bool \<Rightarrow>
   ((u32 \<times> u32 \<times> u32) option \<times> 'd nmbm_instance) option" where
  "nmbm_try_load_info_table crc ni ba table_loaded =
     do {
       (r, ni) \<leftarrow> try_load_loop ni ba (ba + info_table_blocks ni) 0 (info_table_size ni) 0 True;
       case r of
         None \<Rightarrow> Some (None, ni)
       | Some (start_ba, eba) \<Rightarrow>
           if \<not> nmbm_check_header crc (info_table_cache ni) (info_table_size ni) then Some (None, ni)
           else
             let ifthdr = decode_info_table_header (info_table_cache ni)
             in (case nmbm_check_info_table ni start_ba eba (info_table_cache ni) of
                   None \<Rightarrow> Some (None, ni)
                 | Some top_ba \<Rightarrow>
                     let c = info_table_cache ni;
                         ni = (if \<not> table_loaded \<or> write_count (info_table ni) < write_count ifthdr
                               then ni\<lparr>info_table := ifthdr, block_state := image_state_table ni c,
                                       block_mapping := image_mapping_table ni c\<rparr>
                               else ni)
                     in Some (Some (eba, write_count ifthdr, top_ba), ni))
     }"

partial_function (option) nmbm_search_info_table ::
  "crc_fun \<Rightarrow> 'd nmbm_instance \<Rightarrow> u32 \<Rightarrow> u32 \<Rightarrow> bool \<Rightarrow>
   ((u32 \<times> u32 \<times> u32 \<times> u32) option \<times> 'd nmbm_instance) option" where
  "nmbm_search_info_table crc ni ba limit table_loaded =
     (if ba < limit - info_table_blocks ni then
        do {
          (r, ni) \<leftarrow> nmbm_try_load_info_table crc ni ba table_loaded;
          case r of
            Some (eba, wc, top_ba) \<Rightarrow> Some (Some (ba, eba, wc, top_ba), ni)
          | None \<Rightarrow> nmbm_search_info_table crc ni (ba + 1) limit table_loaded
        }
      else Some (None, ni))"

text \<open>The search for the last logic block that has a mapping; the mapping is read as signed.\<close>

function last_mapped_loop :: "'d nmbm_instance \<Rightarrow> u32 \<Rightarrow> u32 option" where
  "last_mapped_loop ni i =
     (if 0 < i then
        if 0 \<le> sint (block_mapping ni ! unat (i - 1)) then Some i else last_mapped_loop ni (i - 1)
      else None)"
  by pat_completeness auto
termination
  by (relation "measure (\<lambda>(ni, i). unat i)") (simp_all add: unat_down)

declare last_mapped_loop.simps [simp del]

definition nmbm_load_info_table ::
  "crc_fun \<Rightarrow> 'd nmbm_instance \<Rightarrow> u32 \<Rightarrow> u32 \<Rightarrow> (bool \<times> 'd nmbm_instance) option" where
  "nmbm_load_info_table crc ni ba limit =
     do {
       let ni = ni\<lparr>main_table_ba := 0, backup_table_ba := 0,
                   info_table := (info_table ni)\<lparr>write_count := 0\<rparr>,
                   mapping_blocks_top_ba := signature_ba ni - 1,
                   data_block_count := mgmt_start_pb (signature ni)\<rparr>;
       (r, ni) \<leftarrow> nmbm_search_info_table crc ni ba limit False;
       case r of
         None \<Rightarrow> Some (False, ni)
       | Some (main_ba, main_end, main_wc, main_top) \<Rightarrow>
         do {
           let ni = ni\<lparr>main_table_ba := main_ba\<rparr>;
           (r, ni) \<leftarrow> nmbm_search_info_table crc ni main_end limit True;
           let (table_end, backup_wc, top_ba, ni) =
             (case r of
                None \<Rightarrow> (main_end, 0, main_top, ni)
              | Some (backup_ba, backup_end, backup_wc, backup_top) \<Rightarrow>
                  (backup_end, backup_wc, if backup_wc \<le> main_wc then main_top else backup_top,
                   ni\<lparr>backup_table_ba := backup_ba\<rparr>));
           let ni = ni\<lparr>mapping_blocks_top_ba := (if backup_table_ba ni = 0 then main_top else top_ba)\<rparr>;
           let ni = ni\<lparr>mapping_blocks_ba := table_end\<rparr>;
           let ni = (case last_mapped_loop ni (mgmt_start_pb (signature ni)) of
                       Some i \<Rightarrow> ni\<lparr>data_block_count := i\<rparr> | None \<Rightarrow> ni);
           let (_, ni) = nmbm_generate_info_table_cache crc ni;
           if has_flag ni NMBM_F_READ_ONLY then Some (True, ni)
           else do {
             (success, ni) \<leftarrow>
               (if backup_table_ba ni = 0 then nmbm_rescue_single_info_table ni
                else if main_wc \<noteq> backup_wc then
                  nmbm_update_single_info_table
                    (ni\<lparr>block_state_changed := 1, block_mapping_changed := 1\<rparr>) (main_wc < backup_wc)
                else Some (True, ni));
             Some (True,
               if mapping_blocks_ba ni = mapping_blocks_top_ba ni \<or> \<not> success
               then ni\<lparr>protected := 1\<rparr> else ni)
           }
         }
     }"

definition nmbm_load_existing ::
  "crc_fun \<Rightarrow> 'd nmbm_instance \<Rightarrow> (bool \<times> 'd nmbm_instance) option" where
  "nmbm_load_existing crc ni =
     do {
       let ni = ni\<lparr>mgmt_start_ba := mgmt_start_pb (signature ni)\<rparr>;
       (success, ni) \<leftarrow> nmbm_load_info_table crc ni (mgmt_start_ba ni) (signature_ba ni);
       if success then Some (True, ni)
       else if \<not> has_flag ni NMBM_F_CREATE then Some (False, ni)
       else
         let ni = nmbm_scan_badblocks ni;
             ni = nmbm_build_mapping_table ni
         in if has_flag ni NMBM_F_READ_ONLY then Some (True, ni)
            else nmbm_create_info_table crc ni
     }"

section \<open>Finding the signature\<close>

text \<open>The pages of one block: the bytes of the first valid signature. The C code reads into a local
  structure, whose contents before the read do not matter.\<close>

partial_function (option) find_signature_pages ::
  "crc_fun \<Rightarrow> 'd nmbm_instance \<Rightarrow> u64 \<Rightarrow> u64 \<Rightarrow> (u8 list option \<times> 'd nmbm_instance) option" where
  "find_signature_pages crc ni addr off =
     (if off < ucast (erasesize (lower ni)) then
        do {
          (ret, sig, ni) \<leftarrow> nmbn_read_data ni (addr + off) (replicate sizeof_signature 0)
             (of_nat sizeof_signature);
          if ret = 0 \<and> nmbm_check_header crc sig (of_nat sizeof_signature) \<and>
             magic (decode_header sig) = NMBM_MAGIC_SIGNATURE
          then Some (Some sig, ni)
          else find_signature_pages crc ni addr (off + ucast (writesize (lower ni)))
        }
      else Some (None, ni))"

partial_function (option) find_signature_loop ::
  "crc_fun \<Rightarrow> 'd nmbm_instance \<Rightarrow> u32 \<Rightarrow> u32 \<Rightarrow> ((u8 list \<times> u32) option \<times> 'd nmbm_instance) option" where
  "find_signature_loop crc ni ba limit =
     (if limit \<le> ba then
        let ba = ba - 1;
            (bad, ni) = nmbm_check_bad_phys_block ni ba
        in if bad then find_signature_loop crc ni ba limit
           else do {
             (r, ni) \<leftarrow> find_signature_pages crc ni (ba2addr ni ba) 0;
             case r of
               Some sig \<Rightarrow> Some (Some (sig, ba), ni)
             | None \<Rightarrow> find_signature_loop crc ni ba limit
           }
      else Some (None, ni))"

definition nmbm_find_signature ::
  "crc_fun \<Rightarrow> 'd nmbm_instance \<Rightarrow> ((nmbm_signature \<times> u32) option \<times> 'd nmbm_instance) option" where
  "nmbm_find_signature crc ni =
     (let bc = ucast (drop_bit (unat (erasesize_shift ni)) (lsize (lower ni)));
          limit = (bc div NMBM_MGMT_DIV) * (NMBM_MGMT_DIV - max_ratio (lower ni));
          limit = (if max_reserved_blocks (lower ni) \<noteq> 0 \<and> max_reserved_blocks (lower ni) < bc - limit
                   then bc - max_reserved_blocks (lower ni) else limit)
      in do {
           (r, ni) \<leftarrow> find_signature_loop crc ni bc limit;
           Some (map_option (\<lambda>(sig, ba). (decode_signature sig, ba)) r, ni)
         })"

section \<open>Checks and sizes\<close>

definition is_power_of_2_u64 :: "u64 \<Rightarrow> bool" where
  "is_power_of_2_u64 n = (n \<noteq> 0 \<and> n AND (n - 1) = 0)"

text \<open>The kernel's \<open>is_power_of_2\<close> is the same test on an \<open>unsigned long\<close>.\<close>

definition is_power_of_2 :: "u32 \<Rightarrow> bool" where
  "is_power_of_2 n = (n \<noteq> 0 \<and> n AND (n - 1) = 0)"

definition nmbm_check_lower_members ::
  "'d nmbm_lower_device \<Rightarrow> bool \<times> 'd nmbm_lower_device" where
  "nmbm_check_lower_members nld =
     (if lsize nld = 0 \<or> \<not> is_power_of_2_u64 (lsize nld) then (False, nld)
      else if erasesize nld = 0 \<or> \<not> is_power_of_2 (erasesize nld) then (False, nld)
      else if writesize nld = 0 \<or> \<not> is_power_of_2 (writesize nld) then (False, nld)
      else if oobsize nld = 0 then (False, nld)
      else if read_page nld = None then (False, nld)
      else if flags nld AND NMBM_F_READ_ONLY = 0 \<and> (write_page nld = None \<or> erase_block nld = None)
      then (False, nld)
      else
        let nld = (if max_ratio nld = 0 then nld\<lparr>max_ratio := 1\<rparr> else nld)
        in if NMBM_MGMT_DIV - 1 \<le> max_ratio nld then (False, nld)
           else if max_reserved_blocks nld \<noteq> 0 \<and> max_reserved_blocks nld < NMBM_MGMT_BLOCKS_MIN
           then (False, nld)
           else (True, nld))"

definition nmbm_lldiv :: "u64 \<Rightarrow> u32 \<Rightarrow> u32" where
  "nmbm_lldiv dividend divisor = ucast (dividend div ucast divisor)"

text \<open>\<open>sizeof_instance\<close> is \<open>sizeof (struct nmbm_instance)\<close>; the sum before it is one of
  \<open>uint32_t\<close> values.\<close>

definition nmbm_calc_structure_size :: "u64 \<Rightarrow> 'd nmbm_lower_device \<Rightarrow> u64" where
  "nmbm_calc_structure_size sizeof_instance nld =
     (let bc = nmbm_lldiv (lsize nld) (erasesize nld);
          state_size = ((bc + NMBM_BITMAP_BLOCKS_PER_UNIT - 1) div NMBM_BITMAP_BLOCKS_PER_UNIT)
                         * NMBM_BITMAP_UNIT_SIZE;
          mapping_size = bc * 4;
          info_size = NMBM_ALIGN (of_nat sizeof_info_table_header) (writesize nld);
          info_size = info_size + NMBM_ALIGN state_size (writesize nld);
          info_size = info_size + NMBM_ALIGN mapping_size (writesize nld)
      in ucast (info_size + state_size + mapping_size + writesize nld + oobsize nld) + sizeof_instance)"

text \<open>The arrays lie behind the instance in memory its caller has cleared.\<close>

definition nmbm_init_structure :: "'d nmbm_instance \<Rightarrow> 'd nmbm_instance" where
  "nmbm_init_structure ni =
     (let l = lower ni;
          pages_per_block = erasesize l div writesize l;
          blocks_per_chip = nmbm_lldiv (lsize l) (erasesize l);
          rawpage = writesize l + oobsize l;
          ni = ni\<lparr>rawpage_size := rawpage, rawblock_size := pages_per_block * rawpage,
                  rawchip_size := blocks_per_chip * (pages_per_block * rawpage),
                  writesize_mask := writesize l - 1, erasesize_mask := erasesize l - 1,
                  writesize_shift := of_nat (ffs (writesize l)) - 1,
                  erasesize_shift := of_nat (ffs (erasesize l)) - 1\<rparr>;
          bc = ucast (drop_bit (unat (erasesize_shift ni)) (lsize l));
          state_size = ((bc + NMBM_BITMAP_BLOCKS_PER_UNIT - 1) div NMBM_BITMAP_BLOCKS_PER_UNIT)
                         * NMBM_BITMAP_UNIT_SIZE;
          mapping_size = bc * 4;
          ni = ni\<lparr>block_count := bc, state_table_size := state_size, mapping_table_size := mapping_size\<rparr>;
          off1 = NMBM_ALIGN (of_nat sizeof_info_table_header) (writesize l);
          off2 = off1 + NMBM_ALIGN state_size (writesize l);
          total = off2 + NMBM_ALIGN mapping_size (writesize l);
          ni = ni\<lparr>info_table := (info_table ni)\<lparr>state_table_off := off1, mapping_table_off := off2\<rparr>,
                  info_table_size := total\<rparr>;
          ni = ni\<lparr>info_table_spare_blocks := nmbm_get_spare_block_count (info_table_blocks ni)\<rparr>
      in ni\<lparr>info_table_cache := replicate (unat total) 0,
            block_state := replicate (unat state_size div 4) (-1),
            block_mapping := replicate (unat mapping_size div 4) 0,
            page_cache := replicate (unat rawpage) 0,
            block_state_changed := 0, block_mapping_changed := 0\<rparr>)"

section \<open>Attach and detach\<close>

text \<open>\<open>level\<close> is \<open>NMBM_DEFAULT_LOG_LEVEL\<close>, a build option. The C result is an error number and the
  instance; \<open>nmbm_check_lower_members\<close> may also change the caller's \<open>nld\<close>, which is the copy
  kept in the instance.\<close>

definition nmbm_attach ::
  "crc_fun \<Rightarrow> nmbm_log_category \<Rightarrow> 'd nmbm_lower_device \<Rightarrow> 'd nmbm_instance \<Rightarrow>
   (int \<times> 'd nmbm_instance) option" where
  "nmbm_attach crc level nld ni =
     (let ni = ni\<lparr>log_display_level := level\<rparr>;
          (success, nld) = nmbm_check_lower_members nld
      in if \<not> success then Some (- EINVAL, ni)
         else do {
           let ni = nmbm_init_structure (ni\<lparr>lower := nld\<rparr>);
           (r, ni) \<leftarrow> nmbm_find_signature crc ni;
           case r of
             None \<Rightarrow>
               if \<not> has_flag ni NMBM_F_CREATE then Some (- ENODEV, ni)
               else do {
                 (success, ni) \<leftarrow> nmbm_create_new crc ni;
                 if \<not> success then Some (- ENODEV, ni) else Some (0, ni)
               }
           | Some (sig, sig_ba) \<Rightarrow>
               let ni = ni\<lparr>signature := sig, signature_ba := sig_ba\<rparr>
               in if version (sig_header sig) \<noteq> NMBM_VER then Some (- EINVAL, ni)
                  else if nand_size sig \<noteq> lsize nld \<or> block_size sig \<noteq> erasesize nld \<or>
                          page_size sig \<noteq> writesize nld \<or> spare_size sig \<noteq> oobsize nld
                  then Some (- EINVAL, ni)
                  else do {
                    (success, ni) \<leftarrow> nmbm_load_existing crc ni;
                    if \<not> success then Some (- ENODEV, ni) else Some (0, ni)
                  }
         })"

definition nmbm_detach :: "crc_fun \<Rightarrow> 'd nmbm_instance \<Rightarrow> (int \<times> 'd nmbm_instance) option" where
  "nmbm_detach crc ni =
     (if \<not> has_flag ni NMBM_F_READ_ONLY
      then do { (_, ni) \<leftarrow> nmbm_update_info_table crc ni; Some (0, ni) }
      else Some (0, ni))"

section \<open>Building the tables of a fresh chip\<close>

text \<open>\<open>nmbm_scan_badblocks\<close>: only the states and the chip may differ afterwards, and no page has
  been written.\<close>

lemma scan_loop_keep:
  "keep_tables ni (scan_badblocks_loop ni ba bc) \<and>
   length (block_state (scan_badblocks_loop ni ba bc)) = length (block_state ni)"
proof (induction ni ba bc rule: scan_badblocks_loop.induct)
  case (1 ni ba bc)
  show ?case
  proof (cases "ba < bc")
    case True
    obtain bad nj where ch: "nmbm_check_bad_phys_block ni ba = (bad, nj)" by fastforce
    have w: "worn {} ni nj" using ch by (rule check_bad_worn)
    let ?n = "if bad then set_block_state nj ba BLOCK_ST_BAD else nj"
    have k: "keep_tables ni ?n" "length (block_state ?n) = length (block_state ni)"
      using w keep_tables_trans [of ni nj] keep_tables_set [of nj ba 0] by (auto simp: worn_def)
    have "keep_tables ?n (scan_badblocks_loop ?n (ba + 1) bc) \<and>
        length (block_state (scan_badblocks_loop ?n (ba + 1) bc)) = length (block_state ?n)"
      by (rule "1.IH" [OF True]) (auto simp: ch)
    moreover have "scan_badblocks_loop ni ba bc = scan_badblocks_loop ?n (ba + 1) bc"
      using True by (simp add: scan_badblocks_loop.simps [of ni ba] ch)
    ultimately show ?thesis using k by (metis keep_tables_trans)
  next
    case False
    then show ?thesis by (simp add: scan_badblocks_loop.simps [of ni ba] keep_tables_refl)
  qed
qed

lemma scan_keep: "keep_tables ni (nmbm_scan_badblocks ni)"
  and scan_length: "length (block_state (nmbm_scan_badblocks ni)) = length (block_state ni)"
  using scan_loop_keep by (auto simp: nmbm_scan_badblocks_def)

text \<open>\<open>nmbm_build_mapping_table\<close> as a list: the blocks below the management area that are not bad.\<close>

definition usable_blocks :: "'d nmbm_instance \<Rightarrow> u32 \<Rightarrow> u32 \<Rightarrow> u32 list" where
  "usable_blocks ni a b =
     filter (\<lambda>ba. nmbm_get_block_state ni ba \<noteq> BLOCK_ST_BAD) (map of_nat [unat a..<unat b])"

lemma usable_blocks_step:
  "a < b \<Longrightarrow> usable_blocks ni a b =
     (if nmbm_get_block_state ni a = BLOCK_ST_BAD then usable_blocks ni (a + 1) b
      else a # usable_blocks ni (a + 1) b)"
  by (simp add: usable_blocks_def unat_Suc_less upt_conv_Cons word_less_nat_alt)

lemma usable_blocks_empty: "\<not> a < b \<Longrightarrow> usable_blocks ni a b = []"
  by (simp add: usable_blocks_def word_less_nat_alt)

lemma usable_blocks_mapping [simp]:
  "usable_blocks (ni\<lparr>block_mapping := bm\<rparr>) a b = usable_blocks ni a b"
  by (simp add: usable_blocks_def)

lemma length_usable_blocks: "length (usable_blocks ni a b) \<le> unat b - unat a"
  unfolding usable_blocks_def by (rule order_trans [OF length_filter_le]) simp

lemma usable_blocks_less: "x \<in> set (usable_blocks ni a b) \<Longrightarrow> x < b"
proof -
  assume "x \<in> set (usable_blocks ni a b)"
  then obtain n where "x = of_nat n" "n < unat b" by (auto simp: usable_blocks_def)
  then have "unat x < unat b" using unsigned_less [of b, where ?'a = nat] by (simp add: unat_of_nat)
  then show ?thesis by (simp add: word_less_nat_alt)
qed

lemma sorted_usable_blocks: "sorted_wrt (<) (map unat (usable_blocks ni a b))"
proof -
  have "map (unat :: u32 \<Rightarrow> nat) (map of_nat [unat a..<unat b]) = [unat a..<unat b]"
    using unsigned_less [of b, where ?'a = nat]
    by (intro map_idI [THEN trans [OF map_map]]) (auto simp: unat_of_nat)
  then have "sorted_wrt (<) (map unat (map of_nat [unat a..<unat b] :: u32 list))" by (simp only: sorted_wrt_upt)
  then have "sorted_wrt (\<lambda>x y. unat x < unat y) (map of_nat [unat a..<unat b] :: u32 list)"
    unfolding sorted_wrt_map [of _ unat] .
  then show ?thesis
    unfolding usable_blocks_def sorted_wrt_map [of _ unat] by (rule sorted_wrt_filter)
qed

lemma build_mapping_loop_eq:
  "mgmt_start_ba ni \<le> block_count ni \<Longrightarrow> unat (block_count ni) \<le> length (block_mapping ni) \<Longrightarrow>
   unat lb \<le> unat pb \<Longrightarrow>
   build_mapping_loop ni pb lb =
     (let us = usable_blocks ni pb (mgmt_start_ba ni)
      in (lb + of_nat (length us),
          ni\<lparr>block_mapping := take (unat lb) (block_mapping ni) @ us @ drop (unat lb + length us) (block_mapping ni)\<rparr>))"
proof (induction ni pb lb rule: build_mapping_loop.induct)
  case (1 ni pb lb)
  show ?case
  proof (cases "pb < mgmt_start_ba ni")
    case False
    then show ?thesis by (simp add: build_mapping_loop.simps [of ni pb] usable_blocks_empty)
  next
    case True
    have suc: "unat (pb + 1) = Suc (unat pb)" by (rule unat_Suc_less [OF True])
    have lt: "unat lb < length (block_mapping ni)"
      using True "1.prems" by (simp add: word_less_nat_alt word_le_nat_alt)
    have "lb < mgmt_start_ba ni" using True "1.prems"(3) by (simp add: word_less_nat_alt)
    then have sucl: "unat (lb + 1) = Suc (unat lb)" by (rule unat_Suc_less)
    show ?thesis
    proof (cases "nmbm_get_block_state ni pb = BLOCK_ST_BAD")
      case bad: True
      then show ?thesis
        using "1.IH"(1) [OF True bad] "1.prems" True suc
        by (simp add: build_mapping_loop.simps [of ni pb] usable_blocks_step Let_def)
    next
      case good: False
      let ?n = "ni\<lparr>block_mapping := (block_mapping ni)[unat lb := pb]\<rparr>"
      have "build_mapping_loop ?n (pb + 1) (lb + 1) =
        (let us = usable_blocks ?n (pb + 1) (mgmt_start_ba ?n)
         in ((lb + 1) + of_nat (length us),
          ?n\<lparr>block_mapping := take (unat (lb + 1)) (block_mapping ?n) @ us @ drop (unat (lb + 1) + length us) (block_mapping ?n)\<rparr>))"
        by (rule "1.IH"(2) [OF True good]) (use "1.prems" suc sucl in simp_all)
      then show ?thesis
        using True good lt
        by (simp add: build_mapping_loop.simps [of ni pb] usable_blocks_step Let_def sucl
            take_Suc_conv_app_nth drop_update_cancel add.assoc)
    qed
  qed
qed

lemma clear_mapping_loop_eq:
  "unat (block_count ni) \<le> length (block_mapping ni) \<Longrightarrow> unat pb \<le> unat (block_count ni) \<Longrightarrow>
   clear_mapping_loop ni pb = ni\<lparr>block_mapping := take (unat pb) (block_mapping ni)
     @ replicate (unat (block_count ni) - unat pb) (-1) @ drop (unat (block_count ni)) (block_mapping ni)\<rparr>"
proof (induction ni pb rule: clear_mapping_loop.induct)
  case (1 ni pb)
  show ?case
  proof (cases "pb < block_count ni")
    case False
    with "1.prems" show ?thesis by (simp add: clear_mapping_loop.simps [of ni pb] word_less_nat_alt)
  next
    case True
    have suc: "unat (pb + 1) = Suc (unat pb)" by (rule unat_Suc_less [OF True])
    have lt: "unat pb < unat (block_count ni)" using True by (simp add: word_less_nat_alt)
    let ?n = "ni\<lparr>block_mapping := (block_mapping ni)[unat pb := -1]\<rparr>"
    have r: "unat (block_count ni) - unat pb = Suc (unat (block_count ni) - Suc (unat pb))" using lt by simp
    have "clear_mapping_loop ?n (pb + 1) = ?n\<lparr>block_mapping := take (unat (pb + 1)) (block_mapping ?n)
     @ replicate (unat (block_count ?n) - unat (pb + 1)) (-1) @ drop (unat (block_count ?n)) (block_mapping ?n)\<rparr>"
      by (rule "1.IH" [OF True]) (use "1.prems" suc lt in simp_all)
    then show ?thesis
      using True "1.prems" lt
      by (simp add: clear_mapping_loop.simps [of ni pb] suc r take_Suc_conv_app_nth drop_update_cancel)
  qed
qed

text \<open>Logic block \<open>i\<close> is the \<open>i\<close>th usable block, and the rest of the table is unmapped.\<close>

lemma build_mapping_table_eq:
  assumes "mgmt_start_ba ni \<le> block_count ni" and len: "length (block_mapping ni) = unat (block_count ni)"
  shows "nmbm_build_mapping_table ni =
    (let us = usable_blocks ni 0 (mgmt_start_ba ni)
     in ni\<lparr>data_block_count := of_nat (length us),
           block_mapping := us @ replicate (unat (block_count ni) - length us) (-1)\<rparr>)"
proof -
  let ?us = "usable_blocks ni 0 (mgmt_start_ba ni)"
  have le: "length ?us \<le> unat (mgmt_start_ba ni)" using length_usable_blocks [of ni 0] by simp
  have le': "unat (mgmt_start_ba ni) \<le> unat (block_count ni)" using assms(1) by (simp add: word_le_nat_alt)
  have "length ?us < 2 ^ 32" using le unsigned_less [of "mgmt_start_ba ni", where ?'a = nat] by simp
  then have u: "unat (of_nat (length ?us) :: u32) = length ?us" by (simp add: unat_of_nat)
  let ?n = "ni\<lparr>block_mapping := ?us @ drop (length ?us) (block_mapping ni), data_block_count := of_nat (length ?us)\<rparr>"
  have "build_mapping_loop ni 0 0 = (of_nat (length ?us), ni\<lparr>block_mapping := ?us @ drop (length ?us) (block_mapping ni)\<rparr>)"
    using build_mapping_loop_eq [OF assms(1), of 0 0] len by (simp add: Let_def)
  moreover have "clear_mapping_loop ?n (of_nat (length ?us)) =
      ?n\<lparr>block_mapping := ?us @ replicate (unat (block_count ni) - length ?us) (-1)\<rparr>"
    by (subst clear_mapping_loop_eq) (use le le' len u in simp_all)
  ultimately show ?thesis by (simp add: nmbm_build_mapping_table_def Let_def)
qed

section \<open>Creating the management data establishes the invariant\<close>

lemma walk_desc_range:
  "walk_desc_loop ni ba n limit = Some nba \<Longrightarrow> 0 \<le> n \<Longrightarrow> limit < nba \<and> nba \<le> ba \<and> (0 < n \<longrightarrow> nba < ba)"
proof (induction ni ba n limit rule: walk_desc_loop.induct)
  case (1 ni ba n limit)
  from "1.prems" have lt: "limit < ba" by (simp add: walk_desc_loop.simps [of ni ba] split: if_splits)
  let ?n = "if nmbm_get_block_state ni ba = BLOCK_ST_GOOD then n - 1 else n"
  have down: "ba - 1 < ba" using unat_down [OF lt] by (simp add: word_less_nat_alt)
  show ?case
  proof (cases "?n < 0")
    case True
    with "1.prems" lt show ?thesis by (auto simp: walk_desc_loop.simps [of ni ba] Let_def split: if_splits)
  next
    case False
    with "1.prems" lt have "walk_desc_loop ni (ba - 1) ?n limit = Some nba"
      by (simp add: walk_desc_loop.simps [of ni ba] Let_def)
    with 1(1) [OF lt refl False] False have "limit < nba \<and> nba \<le> ba - 1" by simp
    with down show ?thesis by (auto intro: order_le_less_trans order_less_imp_le)
  qed
qed

text \<open>Remapping the tail: the data blocks that bad blocks have taken away come from the spare blocks.\<close>

lemma run_inv_extend:
  assumes s: "spare_ok n" and m: "mapped_ok n0" and bm: "block_mapping n = (block_mapping n0)[unat (data_block_count n0) := pb]"
    and sig: "signature_ba n = signature_ba n0" and pb: "pb < signature_ba n0"
    and dbc: "data_block_count n = data_block_count n0 + 1"
    and len: "unat (data_block_count n0) < length (block_mapping n0)"
    and max: "data_block_count n0 < x"
  shows "run_inv n"
proof -
  have suc: "unat (data_block_count n) = Suc (unat (data_block_count n0))" by (simp add: dbc unat_Suc_less [OF max])
  have "mapped_ok n"
    unfolding mapped_ok_def suc bm sig
  proof (intro conjI allI impI)
    show "Suc (unat (data_block_count n0)) \<le> length ((block_mapping n0)[unat (data_block_count n0) := pb])"
      using len by simp
  next
    fix i assume "i < Suc (unat (data_block_count n0))"
    then consider "i = unat (data_block_count n0)" | "i < unat (data_block_count n0)" by linarith
    then show "sint ((block_mapping n0)[unat (data_block_count n0) := pb] ! i) < 0 \<or>
        (block_mapping n0)[unat (data_block_count n0) := pb] ! i < signature_ba n0"
      using m len pb by cases (auto simp: mapped_ok_def)
  qed
  with s show ?thesis by (simp add: run_inv_def)
qed

lemma spare_ok_dbc [simp]: "spare_ok (n\<lparr>data_block_count := c\<rparr>) = spare_ok n"
  by (simp add: spare_ok_def layout_def area_ok_def geom_def)

definition create_inv :: "'d nmbm_instance \<Rightarrow> bool" where
  "create_inv ni \<longleftrightarrow> run_inv ni \<and> data_block_count ni \<le> mgmt_start_ba ni \<and>
     unat (mgmt_start_ba ni) \<le> length (block_mapping ni)"

lemma remap_tail_wp:
  "create_inv ni \<Longrightarrow> wp (remap_tail_loop crc ni (data_block_count ni)) (\<lambda>n. create_inv n)"
proof (induction "unat (mgmt_start_ba ni) - unat (data_block_count ni)" arbitrary: ni rule: less_induct)
  case less
  let ?lb = "data_block_count ni"
  have i: "run_inv ni" and s: "spare_ok ni" and m: "mapped_ok ni"
    using less.prems by (simp_all add: create_inv_def run_inv_def)
  show ?case
  proof (cases "?lb < mgmt_start_ba ni")
    case False
    then show ?thesis using less.prems by (subst remap_tail_loop.simps) simp
  next
    case True
    then have len: "unat ?lb < length (block_mapping ni)" using less.prems by (simp add: create_inv_def word_less_nat_alt)
    show ?thesis
    proof (subst remap_tail_loop.simps, simp only: True if_True wp_bind wp_prod,
        rule wp_pair [OF map_block_wp [OF s len]])
      fix ok n
      assume a: "spares ni n \<and> (ok \<longrightarrow> (\<exists>pb. next_spare ni pb \<and> n = take_spare ni ?lb pb)) \<and>
        (\<not> ok \<longrightarrow> (\<forall>pb. \<not> next_spare ni pb) \<and> block_mapping n = block_mapping ni \<and>
           mapping_blocks_top_ba n = mapping_blocks_ba n)"
      then have sp: "spares ni n" by blast
      note f = run_step_frame [OF runs_frame(3) [OF sp]]
      show "wp (if \<not> ok then Some n
          else remap_tail_loop crc (n\<lparr>data_block_count := data_block_count n + 1\<rparr>) (?lb + 1)) create_inv"
      proof (cases ok)
        case False
        with a have "runs ni n" by (intro runs_spares [OF m sp]) simp
        then have "create_inv n" using less.prems f by (simp add: create_inv_def runs_inv)
        with False show ?thesis by simp
      next
        case ok: True
        with a obtain pb where pb: "next_spare ni pb" and n: "n = take_spare ni ?lb pb" by blast
        let ?n = "n\<lparr>data_block_count := data_block_count n + 1\<rparr>"
        have "run_inv ?n"
          by (rule run_inv_extend [OF _ m, where pb = pb])
            (use runs_frame(4) [OF sp] take_spare_ok(2) [OF s pb len] len True in \<open>simp_all add: n take_spare_def\<close>)
        moreover have "?lb + 1 \<le> mgmt_start_ba ni"
          using True by (simp add: word_le_nat_alt word_less_nat_alt unat_Suc_less [OF True])
        ultimately have c: "create_inv ?n" using less.prems f by (simp add: create_inv_def)
        have d: "data_block_count ?n = ?lb + 1" by (simp add: f)
        have "wp (remap_tail_loop crc ?n (data_block_count ?n)) create_inv"
          by (rule less.hyps [OF _ c]) (use unat_up [OF True] in \<open>simp add: f\<close>)
        with ok d show ?thesis by simp
      qed
    qed
  qed
qed

lemma create_inv_update:
  assumes "create_inv ni"
  shows "wp (nmbm_update_info_table crc ni) (\<lambda>(ok, n). create_inv n)"
proof (rule wp_pair [OF runs_update])
  show "run_inv ni" using assms by (simp add: create_inv_def)
next
  fix ok n assume "runs ni n \<and> block_mapping n = block_mapping ni \<and> mapping_blocks_top_ba n = mapping_blocks_top_ba ni"
  then have r: "runs ni n" and bm: "block_mapping n = block_mapping ni" by simp_all
  have "run_inv n" by (rule runs_inv [OF r])
  with run_step_frame [OF runs_frame(1) [OF r]] assms bm show "create_inv n" by (simp add: create_inv_def)
qed

text \<open>What must hold when \<open>nmbm_create_info_table\<close> starts: the tables of a fresh chip and a signature block.\<close>

definition fresh :: "'d nmbm_instance \<Rightarrow> bool" where
  "fresh ni \<longleftrightarrow> geom ni \<and> info_table_size ni \<noteq> 0 \<and> 0 < mgmt_start_ba ni \<and> mgmt_start_ba ni < block_count ni \<and>
     length (block_mapping ni) = unat (block_count ni) \<and> data_block_count ni \<le> mgmt_start_ba ni \<and>
     (\<forall>i < unat (data_block_count ni). block_mapping ni ! i < mgmt_start_ba ni)"

lemma create_info_table_wp:
  assumes f: "fresh ni" and sig: "mgmt_start_ba ni < signature_ba ni" "signature_ba ni < block_count ni"
  shows "wp (nmbm_create_info_table crc ni) (\<lambda>(ok, n). ok \<longrightarrow> create_inv n)"
proof (cases "nmbm_block_walk ni False (signature_ba ni) 1 (mgmt_start_ba ni)")
  case None
  then show ?thesis by (simp add: nmbm_create_info_table_def)
next
  case (Some top)
  have "mgmt_start_ba ni < block_count ni" using f by (simp add: fresh_def)
  then have lim: "(if block_count ni \<le> mgmt_start_ba ni then block_count ni - 1 else mgmt_start_ba ni) = mgmt_start_ba ni"
    by auto
  have top: "mgmt_start_ba ni < top" "top < signature_ba ni"
    using Some walk_desc_range [of ni "signature_ba ni" 1 "mgmt_start_ba ni" top]
    by (simp_all add: nmbm_block_walk_def nmbm_block_walk_desc_def Let_def lim)
  let ?n0 = "ni\<lparr>mapping_blocks_top_ba := top\<rparr>"
  obtain ch n1 where g: "nmbm_generate_info_table_cache crc ?n0 = (ch, n1)" by fastforce
  note at = generate_cache_step [OF g]
  have "top < block_count ni" using top sig by order
  then have area: "area_ok ?n0" using f top by (simp add: area_ok_def fresh_def geom_def)
  have "wp (nmbm_rebuild_info_table n1) (\<lambda>(ok, n2). if \<not> ok then True
      else wp (remap_tail_loop crc n2 (data_block_count n2)) (\<lambda>n. wp (nmbm_update_info_table crc n) (\<lambda>(_, n). create_inv n)))"
  proof (rule wp_pair [OF rebuild_wp [OF area at]])
    fix ok n2 assume r: "table_result ?n0 ok n2"
    then have st: "mgmt_step (mgmt_area ?n0) ?n0 n2" and l: "layout n2" by (simp_all add: table_result_def)
    note fr = mgmt_step_frame [OF st]
    have "mapped_ok n2"
      using f sig fr by (auto simp: mapped_ok_def fresh_def word_le_nat_alt word_less_nat_alt intro: less_trans)
    then have c: "create_inv n2"
      using f sig top l fr by (simp add: create_inv_def run_inv_def spare_ok_def fresh_def word_less_nat_alt)
    show "if \<not> ok then True
      else wp (remap_tail_loop crc n2 (data_block_count n2)) (\<lambda>n. wp (nmbm_update_info_table crc n) (\<lambda>(_, n). create_inv n))"
      using wp_mono [OF remap_tail_wp [OF c] create_inv_update] by auto
  qed
  then show ?thesis
    unfolding nmbm_create_info_table_def Some
    by (auto simp: Let_def g elim!: wp_mono split: if_splits)
qed

section \<open>The image of the info table\<close>

text \<open>\<open>nmbm_crc32\<close> hands its buffer to \<open>crc32_le\<close> in pieces; with an incremental checksum the pieces
  do not matter.\<close>

definition crc_incremental :: "crc_fun \<Rightarrow> bool" where
  "crc_incremental crc \<longleftrightarrow> (\<forall>c xs ys. crc (crc c xs) ys = crc c (xs @ ys))"

lemma nmbm_crc32_eq:
  "crc_incremental crc \<Longrightarrow> nmbm_crc32 crc c xs = (if xs = [] then c else crc c xs)"
proof (induction crc c xs rule: nmbm_crc32.induct)
  case (1 crc c xs)
  show ?case
  proof (cases "xs = []")
    case True
    then show ?thesis by (simp add: nmbm_crc32.simps [of crc c])
  next
    case False
    define k where "k = (if UINT_MAX < length xs then UINT_MAX else length xs)"
    have step: "nmbm_crc32 crc c xs = nmbm_crc32 crc (crc c (take k xs)) (drop k xs)"
      using False by (simp add: nmbm_crc32.simps [of crc c] k_def Let_def)
    also have "\<dots> = (if drop k xs = [] then crc c (take k xs) else crc (crc c (take k xs)) (drop k xs))"
      by (rule "1.IH" [OF False _ "1.prems"]) (simp add: k_def)
    also have "\<dots> = crc c xs"
      using "1.prems" by (auto simp: crc_incremental_def)
    finally show ?thesis using False by simp
  qed
qed

lemma nmbm_crc32_append:
  "crc_incremental crc \<Longrightarrow> nmbm_crc32 crc (nmbm_crc32 crc c xs) ys = nmbm_crc32 crc c (xs @ ys)"
  by (simp add: nmbm_crc32_eq) (simp add: crc_incremental_def)

lemma put_checksum:
  "put_le32 (encode_header h @ r) 12 v = encode_header (h\<lparr>checksum := v\<rparr>) @ r"
  by (simp add: put_le32_def memcpy_at_def encode_header_def)

text \<open>What \<open>nmbm_update_checksum\<close> makes passes \<open>nmbm_check_header\<close>.\<close>

lemma update_checksum_check:
  assumes crc: "crc_incremental crc" and sz: "hdr_size h \<le> sz" "16 \<le> hdr_size h"
  shows "nmbm_check_header crc (nmbm_update_checksum crc (encode_header h @ r)) sz"
proof -
  let ?n = "unat (hdr_size h)"
  let ?b = "encode_header (h\<lparr>checksum := 0\<rparr>) @ r"
  define v where "v = nmbm_crc32 crc 0 (take ?n ?b)"
  have n: "16 \<le> ?n" using sz(2) by (simp add: word_le_nat_alt)
  have up: "nmbm_update_checksum crc (encode_header h @ r) = encode_header (h\<lparr>checksum := v\<rparr>) @ r"
    by (simp add: nmbm_update_checksum_def put_checksum Let_def decode_encode_header v_def)
  have sub: "unat (hdr_size h - 16) = ?n - 16" using sz(2) by (simp add: unat_minus_le)
  have tail: "slice 16 k (encode_header h' @ r) = take k r" for k h'
    by (simp add: slice_def)
  have "take ?n ?b = encode_header (h\<lparr>checksum := 0\<rparr>) @ take (?n - 16) r" using n by simp
  then have v: "v = nmbm_crc32 crc (nmbm_crc32 crc 0 (encode_header (h\<lparr>checksum := 0\<rparr>))) (take (?n - 16) r)"
    by (simp add: v_def nmbm_crc32_append [OF crc])
  show ?thesis
  proof (cases "16 < hdr_size h")
    case True
    then show ?thesis
      using sz(1) v by (simp add: up nmbm_check_header_def Let_def decode_encode_header not_less sub tail)
  next
    case False
    with sz(2) have "hdr_size h = 16" by order
    then show ?thesis
      using sz(1) v by (simp add: up nmbm_check_header_def Let_def decode_encode_header not_less nmbm_crc32.simps [of crc _ "[]"])
  qed
qed

text \<open>The geometry of the image.\<close>

definition image_ok :: "'d nmbm_instance \<Rightarrow> bool" where
  "image_ok ni \<longleftrightarrow>
     length (info_table_cache ni) = unat (info_table_size ni) \<and>
     32 \<le> unat (state_table_off (info_table ni)) \<and>
     unat (state_table_off (info_table ni)) + unat (state_table_size ni) \<le> unat (mapping_table_off (info_table ni)) \<and>
     unat (mapping_table_off (info_table ni)) + unat (mapping_table_size ni) \<le> unat (info_table_size ni) \<and>
     4 * length (block_state ni) = unat (state_table_size ni) \<and>
     4 * length (block_mapping ni) = unat (mapping_table_size ni)"

lemma generate_image:
  assumes i: "image_ok ni" and crc: "crc_incremental crc"
    and g: "nmbm_generate_info_table_cache crc ni = (changed, n)"
  shows "nmbm_check_header crc (info_table_cache n) (info_table_size ni)"
    "nmbm_check_info_table_header ni (info_table_cache n)"
    "write_count (decode_info_table_header (info_table_cache n)) = write_count (info_table ni) + (if changed then 1 else 0)"
    "image_state_table ni (info_table_cache n) = block_state ni"
    "image_mapping_table ni (info_table_cache n) = block_mapping ni"
    "length (info_table_cache n) = unat (info_table_size ni)"
proof -
  let ?tot = "unat (info_table_size ni)" and ?s = "unat (state_table_size ni)" and ?m = "unat (mapping_table_size ni)"
    and ?o1 = "unat (state_table_off (info_table ni))" and ?o2 = "unat (mapping_table_off (info_table ni))"
  note i' = i [unfolded image_ok_def]
  define c0 where "c0 = memset_at (info_table_cache ni) 0 0xff ?tot"
  define c1 where "c1 = memcpy_at c0 ?o1 (take ?s (le32_array (block_state ni)))"
  define c2 where "c2 = memcpy_at c1 ?o2 (take ?m (le32_array (block_mapping ni)))"
  define ch where "ch = (block_state_changed ni \<noteq> 0 \<or> block_mapping_changed ni \<noteq> 0)"
  define t where "t = (let t = (info_table ni)\<lparr>ift_header := (ift_header (info_table ni))\<lparr>magic := NMBM_MAGIC_INFO_TABLE,
     version := NMBM_VER, hdr_size := info_table_size ni\<rparr>\<rparr> in if ch then t\<lparr>write_count := write_count t + 1\<rparr> else t)"
  have [simp]: "take ?s (le32_array (block_state ni)) = le32_array (block_state ni)"
    "take ?m (le32_array (block_mapping ni)) = le32_array (block_mapping ni)"
    "length c0 = ?tot" using i' by (simp_all add: c0_def)
  have l1: "length c1 = ?tot" using i' by (simp add: c1_def)
  have l2: "length c2 = ?tot" using i' l1 by (simp add: c2_def)
  define r where "r = le32 (write_count t) @ le32 (state_table_off t) @ le32 (mapping_table_off t) @ le32 (ift_padding t) @ drop 32 c2"
  have c3: "memcpy_at c2 0 (encode_info_table_header t) = encode_header (ift_header t) @ r"
    by (simp add: memcpy_at_def encode_info_table_header_def r_def)
  have gen: "n = ni\<lparr>info_table_cache := nmbm_update_checksum crc (encode_header (ift_header t) @ r), info_table := t\<rparr>" "changed = ch"
  proof -
    have "nmbm_generate_info_table_cache crc ni =
      (ch, ni\<lparr>info_table_cache := nmbm_update_checksum crc (memcpy_at c2 0 (encode_info_table_header t)), info_table := t\<rparr>)"
      by (simp only: nmbm_generate_info_table_cache_def Let_def c0_def c1_def c2_def ch_def t_def)
    with g show "n = ni\<lparr>info_table_cache := nmbm_update_checksum crc (encode_header (ift_header t) @ r), info_table := t\<rparr>"
      "changed = ch" by (simp_all add: c3)
  qed
  have hs: "hdr_size (ift_header t) = info_table_size ni" "magic (ift_header t) = NMBM_MAGIC_INFO_TABLE"
    "state_table_off t = state_table_off (info_table ni)" "mapping_table_off t = mapping_table_off (info_table ni)"
    "write_count t = write_count (info_table ni) + (if ch then 1 else 0)"
    by (auto simp: t_def Let_def)
  have big: "16 \<le> info_table_size ni" using i' by (simp add: word_le_nat_alt)
  show "nmbm_check_header crc (info_table_cache n) (info_table_size ni)"
    using big by (simp add: gen update_checksum_check [OF crc] hs)
  obtain v where up: "nmbm_update_checksum crc (encode_header (ift_header t) @ r) = encode_header ((ift_header t)\<lparr>checksum := v\<rparr>) @ r"
    by (simp add: nmbm_update_checksum_def put_checksum Let_def)
  let ?t = "t\<lparr>ift_header := (ift_header t)\<lparr>checksum := v\<rparr>\<rparr>"
  have cache: "info_table_cache n = encode_info_table_header ?t @ drop 32 c2"
    unfolding gen(1) by (simp add: up) (simp add: encode_info_table_header_def r_def)
  have dec: "decode_info_table_header (info_table_cache n) = ?t"
    unfolding cache by (rule decode_encode_info_table_header)
  have off: "unat (mapping_table_off t - state_table_off t) = ?o2 - ?o1" "unat (info_table_size ni - mapping_table_off t) = ?tot - ?o2"
    using i' hs by (simp_all add: unat_minus_le word_le_nat_alt)
  show "nmbm_check_info_table_header ni (info_table_cache n)"
  proof -
    have "\<not> ?o2 - ?o1 < ?s" "\<not> ?tot - ?o2 < ?m" using i' by linarith+
    with hs off show ?thesis by (simp add: nmbm_check_info_table_header_def Let_def dec word_less_nat_alt)
  qed
  show "write_count (decode_info_table_header (info_table_cache n)) = write_count (info_table ni) + (if changed then 1 else 0)"
    by (simp add: dec hs gen(2))
  have same: "slice o' k (info_table_cache n) = slice o' k c2" if "32 \<le> o'" for o' k
    using that l2 i' by (simp add: cache slice_def)
  show lc: "length (info_table_cache n) = ?tot" using i' l2 by (simp add: cache)
  have "slice ?o1 (4 * length (block_state ni)) c2 = slice ?o1 (4 * length (block_state ni)) c1"
    unfolding c2_def using i' l1 by (intro slice_memcpy_before) simp_all
  moreover have "slice ?o1 (length (le32_array (block_state ni))) c1 = le32_array (block_state ni)"
    unfolding c1_def using i' by (subst slice_memcpy_same [of ?o1 "le32_array (block_state ni)" c0, symmetric]) simp_all
  ultimately have s1: "slice ?o1 (4 * length (block_state ni)) (info_table_cache n) = le32_array (block_state ni)"
    using i' by (simp add: same)
  have "slice ?o2 (length (le32_array (block_mapping ni))) c2 = le32_array (block_mapping ni)"
    unfolding c2_def using i' l1 by (subst slice_memcpy_same [of ?o2 "le32_array (block_mapping ni)" c1, symmetric]) simp_all
  then have s2: "slice ?o2 (4 * length (block_mapping ni)) (info_table_cache n) = le32_array (block_mapping ni)"
    using i' by (simp add: same)
  have q: "?s div 4 = length (block_state ni)" "?m div 4 = length (block_mapping ni)" using i' by linarith+
  have b: "?o1 + 4 * length (block_state ni) \<le> ?tot" "?o2 + 4 * length (block_mapping ni) \<le> ?tot" using i' by linarith+
  show "image_state_table ni (info_table_cache n) = block_state ni"
    unfolding image_state_table_def dec q by (rule get_le32_array_of) (use s1 b lc hs in simp_all)
  show "image_mapping_table ni (info_table_cache n) = block_mapping ni"
    unfolding image_mapping_table_def dec q by (rule get_le32_array_of) (use s2 b lc hs in simp_all)
qed

section \<open>Powers of two\<close>

lemma pow2_test:
  fixes n :: "'a::len word"
  assumes nz: "n \<noteq> 0" and z: "n AND (n - 1) = 0"
  shows "\<exists>k. n = 2 ^ k \<and> k < LENGTH('a)"
proof -
  obtain j where "bit n j" using nz by (metis bit_word_eqI bit_0_eq bot_apply bot_bool_def)
  define k where "k = (LEAST j. bit n j)"
  have bk: "bit n k" unfolding k_def by (rule LeastI) (rule \<open>bit n j\<close>)
  have low: "\<not> bit n i" if "i < k" for i using not_less_Least [of i "bit n"] that by (auto simp: k_def)
  have len: "k < LENGTH('a)" using bk by (simp add: bit_imp_le_length)
  define q where "q = Suc k"
  have qk: "q \<le> i \<longleftrightarrow> k < i" for i by (auto simp: q_def)
  let ?p = "push_bit q (drop_bit q n)"
  have n: "n = ?p OR 2 ^ k"
  proof (rule bit_word_eqI)
    fix i assume "i < LENGTH('a)"
    then show "bit n i = bit (?p OR 2 ^ k) i"
      using bk low [of i] by (cases "i < k"; cases "i = k") (auto simp: bit_simps qk)
  qed
  have "?p AND 2 ^ k = 0" by (rule bit_word_eqI) (auto simp: bit_simps qk)
  with n have "n = ?p + 2 ^ k" by (simp add: disjunctive_add_eq_or)
  then have "n - 1 = ?p + mask k" by (simp add: mask_eq_exp_minus_1)
  moreover have "?p AND mask k = 0" by (rule bit_word_eqI) (auto simp: bit_simps qk)
  ultimately have m: "n - 1 = ?p OR mask k" by (simp add: disjunctive_add_eq_or)
  have "n AND (n - 1) = ?p"
    by (subst (1) n, subst m) (rule bit_word_eqI, auto simp: bit_simps qk)
  with z have "?p = 0" by simp
  with n have "n = 2 ^ k" by simp
  with len show ?thesis by blast
qed

text \<open>The sizes a device must have that passes the checks of \<open>nmbm_check_lower_members\<close>.\<close>

definition checked :: "'d nmbm_lower_device \<Rightarrow> bool" where
  "checked l \<longleftrightarrow> (\<exists>n. lsize l = 2 ^ n \<and> n < 64) \<and> (\<exists>e. erasesize l = 2 ^ e \<and> e < 32) \<and>
     (\<exists>k. writesize l = 2 ^ k \<and> k < 32) \<and> oobsize l \<noteq> 0 \<and> read_page l \<noteq> None \<and>
     (flags l AND NMBM_F_READ_ONLY = 0 \<longrightarrow> write_page l \<noteq> None \<and> erase_block l \<noteq> None) \<and>
     1 \<le> max_ratio l \<and> max_ratio l < NMBM_MGMT_DIV - 1 \<and>
     (max_reserved_blocks l = 0 \<or> NMBM_MGMT_BLOCKS_MIN \<le> max_reserved_blocks l)"

lemma check_lower_members_checked:
  assumes "nmbm_check_lower_members l = (True, l')"
  shows "checked l'" "l' = l\<lparr>max_ratio := (if max_ratio l = 0 then 1 else max_ratio l)\<rparr>"
proof -
  have nz: "lsize l \<noteq> 0" "lsize l AND (lsize l - 1) = 0" "erasesize l \<noteq> 0" "erasesize l AND (erasesize l - 1) = 0"
    "writesize l \<noteq> 0" "writesize l AND (writesize l - 1) = 0"
    and l': "l' = l\<lparr>max_ratio := (if max_ratio l = 0 then 1 else max_ratio l)\<rparr>"
    and rest: "oobsize l \<noteq> 0" "read_page l \<noteq> None"
     "flags l AND NMBM_F_READ_ONLY = 0 \<longrightarrow> write_page l \<noteq> None \<and> erase_block l \<noteq> None"
     "\<not> NMBM_MGMT_DIV - 1 \<le> max_ratio l'"
     "\<not> (max_reserved_blocks l \<noteq> 0 \<and> max_reserved_blocks l < NMBM_MGMT_BLOCKS_MIN)"
    using assms
    by (auto simp: nmbm_check_lower_members_def is_power_of_2_u64_def is_power_of_2_def Let_def split: if_splits)
  have "\<exists>n. lsize l = 2 ^ n \<and> n < 64" "\<exists>e. erasesize l = 2 ^ e \<and> e < 32" "\<exists>k. writesize l = 2 ^ k \<and> k < 32"
    using pow2_test [OF nz(1,2)] pow2_test [OF nz(3,4)] pow2_test [OF nz(5,6)] by simp_all
  moreover have "1 \<le> max_ratio l'" using l' by (simp add: word_le_nat_alt unat_gt_0 Suc_le_eq)
  ultimately show "checked l'" using rest by (auto simp: checked_def l' not_le not_less)
  show "l' = l\<lparr>max_ratio := (if max_ratio l = 0 then 1 else max_ratio l)\<rparr>" by (rule l')
qed

text \<open>The bounds under which the 32-bit sizes of \<open>nmbm_init_structure\<close> do not wrap; every NAND chip
  satisfies them. The code does not check that a page fits in a block.\<close>

definition sane :: "'d nmbm_lower_device \<Rightarrow> bool" where
  "sane l \<longleftrightarrow> writesize l \<le> erasesize l \<and>
     16 \<le> unat (lsize l) div unat (erasesize l) \<and> unat (lsize l) div unat (erasesize l) \<le> 2 ^ 20 \<and>
     unat (writesize l) \<le> 2 ^ 20"

definition sized :: "'d nmbm_instance \<Rightarrow> bool" where
  "sized ni \<longleftrightarrow> geom ni \<and> info_table_size ni \<noteq> 0 \<and>
     unat (block_count ni) = unat (lsize (lower ni)) div unat (erasesize (lower ni)) \<and>
     length (block_mapping ni) = unat (block_count ni) \<and>
     length (info_table_cache ni) = unat (info_table_size ni)"

lemma align_ge:
  assumes "unat v + unat a \<le> 2 ^ 31" and "a = 2 ^ k" "k < 32"
  shows "unat v \<le> unat (NMBM_ALIGN v a)" "unat (NMBM_ALIGN v a) \<le> unat v + unat a"
proof -
  let ?x = "v + a - 1"
  have a1: "1 \<le> unat a" using assms(2,3) by (simp add: unat_pow2)
  have "unat (v + a) = unat v + unat a" by (rule unat_plus_u32) (use assms(1) in simp)
  then have x: "unat ?x = unat v + unat a - 1"
    using a1 by (subst unat_minus_le) (simp_all add: word_le_nat_alt)
  have m: "a - 1 = mask k" using assms(2) by (simp add: mask_eq_exp_minus_1)
  let ?hi = "?x AND NOT (mask k)" and ?lo = "?x AND mask k"
  have "?hi AND ?lo = 0" "?hi OR ?lo = ?x" by (rule bit_word_eqI, auto simp: bit_simps)+
  then have sum: "?hi + ?lo = ?x" by (simp add: disjunctive_add_eq_or)
  have lo: "unat ?lo = unat ?x mod 2 ^ k"
    unfolding take_bit_eq_mask [symmetric] unsigned_take_bit_eq by (simp only: take_bit_eq_mod)
  have "?lo \<le> ?x" by (simp add: word_le_nat_alt lo)
  moreover have "?hi = ?x - ?lo" using sum by (metis add_diff_cancel_right')
  ultimately have hi: "unat ?hi = unat ?x - unat ?x mod 2 ^ k" by (simp add: unat_minus_le lo)
  have "unat ?x mod 2 ^ k < unat a" using assms(2,3) by (simp add: unat_pow2)
  then show "unat v \<le> unat (NMBM_ALIGN v a)" "unat (NMBM_ALIGN v a) \<le> unat v + unat a"
    using a1 by (simp_all add: NMBM_ALIGN_def m hi x)
qed

lemma init_structure_sized:
  assumes c: "checked (lower ni)" and s: "sane (lower ni)"
  shows "sized (nmbm_init_structure ni)" "lower (nmbm_init_structure ni) = lower ni"
    "image_ok (nmbm_init_structure ni)" "unat (info_table_size (nmbm_init_structure ni)) \<le> 2 ^ 24"
proof -
  let ?l = "lower ni" and ?n = "nmbm_init_structure ni"
  obtain n e k where n: "lsize ?l = 2 ^ n" "n < 64" and e: "erasesize ?l = 2 ^ e" "e < 32"
    and k: "writesize ?l = 2 ^ k" "k < 32" using c by (auto simp: checked_def)
  have ue: "unat (erasesize ?l) = 2 ^ e" and uk: "unat (writesize ?l) = 2 ^ k" using e k by (simp_all add: unat_pow2)
  have ke: "k \<le> e" using s uk ue by (simp add: sane_def word_le_nat_alt)
  show low: "lower ?n = ?l" by (simp add: nmbm_init_structure_def Let_def)
  have es: "erasesize_shift ?n = of_nat (ffs (erasesize ?l)) - 1"
    "writesize_mask ?n = writesize ?l - 1" "erasesize_mask ?n = erasesize ?l - 1"
    by (simp_all add: nmbm_init_structure_def Let_def)
  then have sh: "unat (erasesize_shift ?n) = e"
    using e by (simp add: ffs_pow2 shift_ffs del: of_nat_Suc)
  let ?bc = "block_count ?n"
  have bc: "?bc = ucast (drop_bit e (lsize ?l))"
    using sh es by (simp add: nmbm_init_structure_def Let_def)
  have div: "unat (drop_bit e (lsize ?l)) = unat (lsize ?l) div unat (erasesize ?l)"
    by (simp only: unat_drop_bit_eq) (simp add: drop_bit_eq_div ue)
  have bounds: "16 \<le> unat (lsize ?l) div unat (erasesize ?l)" "unat (lsize ?l) div unat (erasesize ?l) \<le> 2 ^ 20"
    using s by (simp_all add: sane_def)
  have ubc: "unat ?bc = unat (lsize ?l) div unat (erasesize ?l)"
    unfolding bc unsigned_ucast_eq div using bounds by (intro take_bit_nat_eq_self) simp
  have b: "16 \<le> unat ?bc" "unat ?bc \<le> 2 ^ 20" using bounds ubc by simp_all
  define ss where "ss = ((?bc + 16 - 1) div 16) * 4"
  have "unat (?bc + 16 - 1) = unat ?bc + 15"
    using b by (simp add: unat_word_ariths)
  then have "unat ((?bc + 16 - 1) div 16) = (unat ?bc + 15) div 16" by (simp only: unat_div) simp
  moreover have le15: "(unat ?bc + 15) div 16 * 4 \<le> unat ?bc + 15" by linarith
  then have "(unat ?bc + 15) div 16 * 4 < 2 ^ 32" using b by simp
  ultimately have uss: "unat ss = (unat ?bc + 15) div 16 * 4"
    unfolding ss_def by (simp only: unat_word_ariths) simp
  have bs: "length (block_state ?n) = (unat ?bc + 15) div 16"
  proof -
    have "length (block_state ?n) = unat ss div 4" by (simp add: nmbm_init_structure_def Let_def ss_def)
    then show ?thesis by (simp add: uss)
  qed
  have ums: "unat (?bc * 4) = unat ?bc * 4" using b by (simp add: unat_word_ariths)
  have bm: "length (block_mapping ?n) = unat ?bc"
  proof -
    have "length (block_mapping ?n) = unat (?bc * 4) div 4" by (simp add: nmbm_init_structure_def Let_def)
    then show ?thesis by (simp add: ums)
  qed
  let ?a = "NMBM_ALIGN 32 (writesize ?l)" and ?b = "NMBM_ALIGN ss (writesize ?l)"
    and ?c = "NMBM_ALIGN (?bc * 4) (writesize ?l)"
  have w: "unat (writesize ?l) \<le> 2 ^ 20" using s by (simp add: sane_def)
  have ssb: "unat ss \<le> 2 ^ 21" using b le15 by (simp add: uss)
  note al = align_ge [OF _ k]
  have A: "32 \<le> unat ?a" "unat ?a \<le> 2 ^ 21" and B: "unat ?b \<le> 2 ^ 22" and C: "unat ?c \<le> 2 ^ 23"
    using al [of 32] al [of ss] al [of "?bc * 4"] w ssb b by (simp_all add: ums)
  have "unat (?a + ?b + ?c) = unat ?a + unat ?b + unat ?c"
    using A B C by (simp add: unat_plus_u32)
  moreover have its: "info_table_size ?n = ?a + ?b + ?c" by (simp add: nmbm_init_structure_def Let_def ss_def)
  ultimately show "unat (info_table_size ?n) \<le> 2 ^ 24" using A B C by simp
  have "info_table_size ?n \<noteq> 0"
    using A its \<open>unat (?a + ?b + ?c) = unat ?a + unat ?b + unat ?c\<close> by auto
  moreover have "length (info_table_cache ?n) = unat (info_table_size ?n)"
    by (simp add: nmbm_init_structure_def Let_def)
  moreover have "geom ?n"
    unfolding geom_def low sh es(2,3) bs
    using ke e uk ue by (auto intro: exI [of _ k])
  ultimately show "sized ?n" using ubc bm by (simp add: sized_def low)
  have AB: "32 \<le> unat ?a" "unat ss \<le> unat ?b" "unat (?bc * 4) \<le> unat ?c"
    using al [of 32] al [of ss] al [of "?bc * 4"] w ssb b by (simp_all add: ums)
  have off: "state_table_off (info_table ?n) = ?a" "mapping_table_off (info_table ?n) = ?a + ?b"
    "state_table_size ?n = ss" "mapping_table_size ?n = ?bc * 4"
    by (simp_all add: nmbm_init_structure_def Let_def ss_def)
  have "unat (?a + ?b) = unat ?a + unat ?b" using A B by (simp add: unat_plus_u32)
  with AB off \<open>unat (?a + ?b + ?c) = unat ?a + unat ?b + unat ?c\<close> \<open>length (info_table_cache ?n) = unat (info_table_size ?n)\<close>
  show "image_ok ?n" by (simp add: image_ok_def its bs bm uss ums)
qed

text \<open>The sizes with the spare area, the page buffer, and the memory behind the instance. The size of
  the whole chip is kept in 32 bits, too few for a chip of 4 GiB.\<close>

definition raw_sized :: "'d nmbm_instance \<Rightarrow> bool" where
  "raw_sized n \<longleftrightarrow>
     unat (rawpage_size n) = unat (writesize (lower n)) + unat (oobsize (lower n)) \<and>
     unat (rawblock_size n) = unat (erasesize (lower n)) div unat (writesize (lower n)) * unat (rawpage_size n) \<and>
     unat (rawchip_size n) = unat (block_count n) * unat (rawblock_size n) mod 2 ^ 32 \<and>
     length (page_cache n) = unat (rawpage_size n)"

text \<open>The memory that \<open>nmbm_calc_structure_size\<close> asks for is what the buffers take up.\<close>

definition fits_memory :: "u64 \<Rightarrow> 'd nmbm_instance \<Rightarrow> bool" where
  "fits_memory sizeof_instance n \<longleftrightarrow>
     unat (nmbm_calc_structure_size sizeof_instance (lower n)) =
       unat sizeof_instance + length (info_table_cache n) + 4 * length (block_state n) +
       4 * length (block_mapping n) + length (page_cache n)"

lemma init_structure_count:
  assumes c: "checked (lower ni)" and s: "sane (lower ni)"
  shows "nmbm_lldiv (lsize (lower ni)) (erasesize (lower ni)) = block_count (nmbm_init_structure ni)"
proof -
  let ?l = "lower ni"
  have "unat (block_count (nmbm_init_structure ni)) = unat (lsize ?l) div unat (erasesize ?l)"
    using init_structure_sized(1,2) [OF c s] by (simp add: sized_def)
  moreover have "unat (lsize ?l) div unat (erasesize ?l) < 2 ^ 32" using s by (simp add: sane_def)
  moreover have "unat (ucast (erasesize ?l) :: u64) = unat (erasesize ?l)"
    unfolding unsigned_ucast_eq
    by (intro take_bit_nat_eq_self order.strict_trans [OF unsigned_less]) simp
  ultimately show ?thesis
    by (simp only: nmbm_lldiv_def word_unat_eq_iff unsigned_ucast_eq unat_div) (simp add: take_bit_nat_eq_self)
qed

lemma init_structure_raw:
  assumes c: "checked (lower ni)" and s: "sane (lower ni)"
    and oob: "oobsize (lower ni) \<le> writesize (lower ni)" and eb: "unat (erasesize (lower ni)) \<le> 2 ^ 30"
  shows "raw_sized (nmbm_init_structure ni)"
proof -
  let ?l = "lower ni" and ?n = "nmbm_init_structure ni"
  let ?w = "unat (writesize ?l)" and ?e = "unat (erasesize ?l)" and ?o = "unat (oobsize ?l)"
  note low = init_structure_sized(2) [OF c s] and sz = init_structure_sized(1) [OF c s]
  have w: "?w \<le> 2 ^ 20" using s by (simp add: sane_def)
  have o: "?o \<le> ?w" using oob by (simp add: word_le_nat_alt)
  have p: "unat (writesize ?l + oobsize ?l) = ?w + ?o"
    by (rule unat_plus_u32) (use w o in simp)
  have "?e div ?w * (?w + ?o) \<le> ?e div ?w * ?w * 2"
    using o by (simp add: algebra_simps)
  also have "\<dots> \<le> 2 ^ 30 * 2" using eb by (intro mult_le_mono1) (meson div_times_less_eq_dividend le_trans)
  finally have b: "unat (erasesize ?l div writesize ?l * (writesize ?l + oobsize ?l)) = ?e div ?w * (?w + ?o)"
    by (simp only: unat_word_ariths(2) unat_div p) simp
  note bc = init_structure_count [OF c s]
  have f: "rawpage_size ?n = writesize ?l + oobsize ?l"
    "rawblock_size ?n = erasesize ?l div writesize ?l * (writesize ?l + oobsize ?l)"
    "rawchip_size ?n = nmbm_lldiv (lsize ?l) (erasesize ?l) * (erasesize ?l div writesize ?l * (writesize ?l + oobsize ?l))"
    "length (page_cache ?n) = unat (writesize ?l + oobsize ?l)"
    by (simp_all add: nmbm_init_structure_def Let_def)
  show ?thesis
    unfolding raw_sized_def f low bc
    by (simp only: p b unat_word_ariths(2) [of "block_count ?n"] len_bit0 len_num1 simp_thms) simp
qed

lemma init_structure_memory:
  assumes c: "checked (lower ni)" and s: "sane (lower ni)"
    and oob: "oobsize (lower ni) \<le> writesize (lower ni)" and eb: "unat (erasesize (lower ni)) \<le> 2 ^ 30"
    and si: "unat si < 2 ^ 32"
  shows "fits_memory si (nmbm_init_structure ni)"
proof -
  let ?l = "lower ni" and ?n = "nmbm_init_structure ni"
  note z = init_structure_sized [OF c s]
  note i = z(3) [unfolded image_ok_def] and r = init_structure_raw [OF c s oob eb, unfolded raw_sized_def z(2)]
  let ?t = "info_table_size ?n" and ?s = "state_table_size ?n" and ?m = "mapping_table_size ?n"
  have w: "unat (writesize ?l) \<le> 2 ^ 20" "unat (oobsize ?l) \<le> 2 ^ 20"
    using s oob by (simp_all add: sane_def word_le_nat_alt)
  have b: "unat ?t \<le> 2 ^ 24" "unat ?s \<le> unat ?t" "unat ?m \<le> unat ?t" using z(4) i by linarith+
  have "?s = ((block_count ?n + 16 - 1) div 16) * 4" "?m = block_count ?n * 4"
    "?t = NMBM_ALIGN 32 (writesize ?l) + NMBM_ALIGN ?s (writesize ?l) + NMBM_ALIGN ?m (writesize ?l)"
    by (simp_all add: nmbm_init_structure_def Let_def)
  then have calc: "nmbm_calc_structure_size si ?l = ucast (?t + ?s + ?m + writesize ?l + oobsize ?l) + si"
    by (simp only: nmbm_calc_structure_size_def Let_def init_structure_count [OF c s]) simp
  have sum: "unat (?t + ?s + ?m + writesize ?l + oobsize ?l) =
      unat ?t + unat ?s + unat ?m + unat (writesize ?l) + unat (oobsize ?l)"
    using b w by (simp add: unat_plus_u32)
  have "unat (ucast (?t + ?s + ?m + writesize ?l + oobsize ?l) :: u64) =
      unat ?t + unat ?s + unat ?m + unat (writesize ?l) + unat (oobsize ?l)"
    unfolding unsigned_ucast_eq sum using b w by (intro take_bit_nat_eq_self) simp
  then have "unat (nmbm_calc_structure_size si ?l) =
      unat ?t + unat ?s + unat ?m + unat (writesize ?l) + unat (oobsize ?l) + unat si"
    unfolding calc using b w si by (subst unat_plus_u64) simp_all
  then show ?thesis
    using i r by (simp add: fits_memory_def z(2))
qed

section \<open>Creating a new instance\<close>

lemma fresh_worn: "worn B ni n \<Longrightarrow> fresh n = fresh ni"
  using worn_frame [of B ni n] worn_geom [of B ni n] by (simp add: fresh_def)

lemma fresh_update [simp]:
  "fresh (ni\<lparr>signature := s\<rparr>) = fresh ni" "fresh (ni\<lparr>signature_ba := a\<rparr>) = fresh ni"
  by (simp_all add: fresh_def geom_def)

lemma geom_mgmt_start: "geom (ni\<lparr>mgmt_start_ba := a\<rparr>) = geom ni"
  by (simp add: geom_def)

text \<open>Where the management area starts.\<close>

definition mgmt_start :: "u32 \<Rightarrow> 'd nmbm_lower_device \<Rightarrow> u32" where
  "mgmt_start bc l =
     (let m = bc * (NMBM_MGMT_DIV - max_ratio l) div NMBM_MGMT_DIV
      in if max_reserved_blocks l \<noteq> 0 \<and> max_reserved_blocks l < bc - m
         then bc - max_reserved_blocks l else m)"

lemma mgmt_start_bounds:
  assumes r: "1 \<le> max_ratio l" "max_ratio l < NMBM_MGMT_DIV - 1"
    and b: "16 \<le> unat bc" "unat bc \<le> 2 ^ 20"
  shows "0 < mgmt_start bc l" "mgmt_start bc l < bc"
proof -
  let ?m = "bc * (16 - max_ratio l) div 16"
  have ur: "1 \<le> unat (max_ratio l)" "unat (max_ratio l) < 15" using r by (simp_all add: word_le_nat_alt word_less_nat_alt)
  have sub: "unat (16 - max_ratio l) = 16 - unat (max_ratio l)"
    using ur by (subst unat_minus_le) (simp_all add: word_le_nat_alt)
  have "unat bc * (16 - unat (max_ratio l)) \<le> 2 ^ 20 * 16" using b by (intro mult_le_mono) auto
  then have "unat (bc * (16 - max_ratio l)) = unat bc * (16 - unat (max_ratio l))"
    by (simp add: unat_word_ariths sub)
  then have um: "unat ?m = unat bc * (16 - unat (max_ratio l)) div 16" by (simp add: unat_div)
  have "unat bc * 1 \<le> unat bc * (16 - unat (max_ratio l))" "unat bc * (16 - unat (max_ratio l)) \<le> unat bc * 15"
    using ur by (intro mult_le_mono; simp)+
  then have m: "1 \<le> unat ?m" "unat ?m < unat bc" unfolding um using b by linarith+
  show "0 < mgmt_start bc l" "mgmt_start bc l < bc"
  proof -
    have lt: "?m < bc" using m by (simp add: word_less_nat_alt)
    then have s: "unat (bc - ?m) = unat bc - unat ?m" by (intro unat_minus_le) simp
    have "unat (bc - max_reserved_blocks l) = unat bc - unat (max_reserved_blocks l)"
      "unat (max_reserved_blocks l) < unat bc"
      if "max_reserved_blocks l < bc - ?m"
      using that s m by (simp_all add: word_less_nat_alt unat_minus_le word_le_nat_alt)
    moreover have "0 < unat (max_reserved_blocks l)" if "max_reserved_blocks l \<noteq> 0" using that by (simp add: unat_gt_0)
    ultimately show "0 < mgmt_start bc l" "mgmt_start bc l < bc"
      using m by (auto simp: mgmt_start_def Let_def word_less_nat_alt)
  qed
qed

lemma create_new_wp:
  assumes z: "sized ni" and c: "checked (lower ni)" and s: "sane (lower ni)"
  shows "wp (nmbm_create_new crc ni) (\<lambda>(ok, n). ok \<and> \<not> has_flag ni NMBM_F_READ_ONLY \<longrightarrow> create_inv n)"
proof -
  let ?m = "mgmt_start (block_count ni) (lower ni)"
  have bc: "16 \<le> unat (block_count ni)" "unat (block_count ni) \<le> 2 ^ 20" using z s by (simp_all add: sized_def sane_def)
  have m: "0 < ?m" "?m < block_count ni"
    using c bc by (intro mgmt_start_bounds; simp add: checked_def)+
  define n1 where "n1 = ni\<lparr>mgmt_start_ba := ?m\<rparr>"
  define n2 where "n2 = nmbm_scan_badblocks n1"
  define n3 where "n3 = nmbm_build_mapping_table n2"
  note k = keep_tables_frame [OF scan_keep [of n1], folded n2_def]
  have z1: "geom n1" "info_table_size n1 \<noteq> 0" "length (block_mapping n1) = unat (block_count n1)"
    using z geom_mgmt_start [of ?m ni] by (simp_all add: n1_def sized_def)
  have g2: "geom n2"
    using z1(1) k scan_length [of n1] by (simp add: geom_def flip: n2_def)
  have m2: "mgmt_start_ba n2 = ?m" "block_count n2 = block_count ni" by (simp_all add: k) (simp_all add: n1_def)
  let ?us = "usable_blocks n2 0 ?m"
  have n3: "n3 = n2\<lparr>data_block_count := of_nat (length ?us),
           block_mapping := ?us @ replicate (unat (block_count n2) - length ?us) (-1)\<rparr>"
    unfolding n3_def using m z1 by (subst build_mapping_table_eq) (simp_all add: m2 k Let_def, simp add: n1_def)
  have le: "length ?us \<le> unat ?m" using length_usable_blocks [of n2 0 ?m] by simp
  then have "length ?us < 2 ^ 32" using unsigned_less [of ?m, where ?'a = nat] by simp
  then have u: "unat (of_nat (length ?us) :: u32) = length ?us" by (simp add: unat_of_nat)
  have "\<forall>i < length ?us. ?us ! i < ?m" using usable_blocks_less [of _ n2 0 ?m] by (metis nth_mem)
  moreover have "unat ?m < unat (block_count ni)" using m by (simp add: word_less_nat_alt)
  ultimately have f3: "fresh n3"
    using g2 z1(2) m le u
    by (simp add: fresh_def n3 m2 k(8) geom_def nth_append word_le_nat_alt)
  have low: "lower n3 = (lower ni)\<lparr>arg := chip n2\<rparr>" by (simp add: n3 k(1)) (simp add: n1_def)
  define sig where "sig = (let sig = signature n3;
          sig = sig\<lparr>sig_header := (sig_header sig)\<lparr>magic := NMBM_MAGIC_SIGNATURE, version := NMBM_VER,
                      hdr_size := of_nat sizeof_signature\<rparr>,
                    nand_size := lsize (lower n3), block_size := erasesize (lower n3),
                    page_size := writesize (lower n3), spare_size := oobsize (lower n3),
                    mgmt_start_pb := mgmt_start_ba n3, max_try_count := of_nat NMBM_TRY_COUNT\<rparr>
     in decode_signature (nmbm_update_checksum crc (encode_signature sig)))"
  have eq: "nmbm_create_new crc ni =
     (if has_flag n3 NMBM_F_READ_ONLY then Some (True, n3\<lparr>signature := sig\<rparr>)
      else do {
         (r, n) \<leftarrow> nmbm_write_signature (n3\<lparr>signature := sig\<rparr>) (mgmt_start_ba n3) sig;
         case r of None \<Rightarrow> Some (False, n)
         | Some ba \<Rightarrow> nmbm_create_info_table crc (n\<lparr>signature_ba := ba\<rparr>) })"
    unfolding nmbm_create_new_def Let_def sig_def n3_def n2_def n1_def mgmt_start_def
    by (simp add: has_flag_def)
  show ?thesis
  proof (cases "has_flag ni NMBM_F_READ_ONLY")
    case True
    then show ?thesis unfolding eq by (simp add: has_flag_def low)
  next
    case False
    then have nf: "\<not> has_flag n3 NMBM_F_READ_ONLY" by (simp add: has_flag_def low)
    let ?n = "n3\<lparr>signature := sig\<rparr>"
    have f: "fresh ?n" using f3 by simp
    have "wp (nmbm_write_signature ?n (mgmt_start_ba n3) sig)
      (\<lambda>x. wp (case x of (r, n) \<Rightarrow> case r of None \<Rightarrow> Some (False, n)
         | Some ba \<Rightarrow> nmbm_create_info_table crc (n\<lparr>signature_ba := ba\<rparr>)) (\<lambda>(ok, n). ok \<longrightarrow> create_inv n))"
    proof (rule wp_mono [OF write_signature_wp])
      show "geom ?n" using f by (simp add: fresh_def)
      show "block_count ?n \<noteq> 0" using f by (auto simp: fresh_def)
    next
      fix x
      assume a: "worn {mgmt_start_ba n3<..<block_count ?n} ?n (snd x) \<and>
         (\<forall>s. fst x = Some s \<longrightarrow> mgmt_start_ba n3 < s \<and> s < block_count ?n)"
      obtain r n where x: "x = (r, n)" by fastforce
      have w: "worn {mgmt_start_ba n3<..<block_count ?n} ?n n" using a x by simp
      have fn: "fresh n" using f by (simp add: fresh_worn [OF w])
      show "wp (case x of (r, n) \<Rightarrow> case r of None \<Rightarrow> Some (False, n)
         | Some ba \<Rightarrow> nmbm_create_info_table crc (n\<lparr>signature_ba := ba\<rparr>)) (\<lambda>(ok, n). ok \<longrightarrow> create_inv n)"
      proof (cases r)
        case None
        then show ?thesis by (simp add: x)
      next
        case (Some ba)
        with a x have "mgmt_start_ba n < ba" "ba < block_count n"
          using worn_frame(16,18) [OF w] by simp_all
        then show ?thesis using Some x fn by (simp add: create_info_table_wp)
      qed
    qed
    then show ?thesis unfolding eq if_not_P [OF nf] wp_bind using False by simp
  qed
qed

section \<open>Finding the signature\<close>

lemma find_signature_pages_wp:
  "geom ni \<Longrightarrow> wp (find_signature_pages crc ni addr off) (\<lambda>(r, n). worn {} ni n)"
proof (induction "unat (erasesize (lower ni)) - unat off" arbitrary: ni off rule: less_induct)
  case less
  note g = less.prems
  show ?case
  proof (cases "off < ucast (erasesize (lower ni))")
    case False
    then show ?thesis by (subst find_signature_pages.simps) auto
  next
    case True
    then have lt: "unat off < unat (erasesize (lower ni))" by (simp add: ucast_less_u64)
    have rest: "wp (find_signature_pages crc n addr (off + ucast (writesize (lower n)))) (\<lambda>(r, n'). worn {} ni n')"
      if w: "worn {} ni n" for n
    proof -
      have "unat (off + ucast (writesize (lower n))) = unat off + unat (writesize (lower ni))"
        by (simp add: page_advance [OF g lt] worn_frame(1) [OF w])
      then have "wp (find_signature_pages crc n addr (off + ucast (writesize (lower n)))) (\<lambda>(r, n'). worn {} n n')"
        by (intro less.hyps) (use lt g w geom_sizes(1) [OF g] in \<open>simp_all add: worn_geom worn_frame(1) [OF w]\<close>)
      then show ?thesis by (rule wp_worn_trans [OF w])
    qed
    have "wp (nmbn_read_data ni (addr + off) (replicate sizeof_signature 0) (of_nat sizeof_signature))
      (\<lambda>(ret, sig, n). wp (if ret = 0 \<and> nmbm_check_header crc sig (of_nat sizeof_signature) \<and>
             magic (decode_header sig) = NMBM_MAGIC_SIGNATURE
          then Some (Some sig, n)
          else find_signature_pages crc n addr (off + ucast (writesize (lower n)))) (\<lambda>(r, n'). worn {} ni n'))"
      by (rule wp_mono [OF read_data_wp [OF g, where B = "{}"]]) (auto intro: rest)
    then show ?thesis
      by (subst find_signature_pages.simps) (simp only: True if_True wp_bind wp_prod)
  qed
qed

text \<open>The loop goes down to \<open>limit - 1\<close>, and it ends because \<open>limit\<close> is not 0.\<close>

lemma find_signature_loop_wp:
  "geom ni \<Longrightarrow> 0 < limit \<Longrightarrow> wp (find_signature_loop crc ni ba limit) (\<lambda>x. worn {} ni (snd x) \<and>
     (\<forall>sig a. fst x = Some (sig, a) \<longrightarrow> limit - 1 \<le> a \<and> a < ba))"
proof (induction "unat ba" arbitrary: ni ba rule: less_induct)
  case less
  note g = less.prems(1)
  let ?Q = "\<lambda>x. worn {} ni (snd x) \<and> (\<forall>sig a. fst x = Some (sig, a) \<longrightarrow> limit - 1 \<le> a \<and> a < ba)"
  show ?case
  proof (cases "limit \<le> ba")
    case False
    then show ?thesis by (subst find_signature_loop.simps) auto
  next
    case True
    have pos: "0 < ba" using True less.prems(2) by order
    have down: "ba - 1 < ba" "unat (ba - 1) < unat ba" using unat_down [OF pos] by (simp_all add: word_less_nat_alt)
    have lo: "limit - 1 \<le> ba - 1"
      using True unat_pred [OF pos] unat_pred [OF less.prems(2)] by (simp add: word_le_nat_alt)
    have rest: "wp (find_signature_loop crc n (ba - 1) limit) ?Q" if w: "worn {} ni n" for n
      by (rule wp_mono [OF less.hyps [OF down(2) _ less.prems(2)]])
        (use g w down(1) in \<open>auto simp: worn_geom intro: worn_trans less_trans\<close>)
    obtain bad nj where ch: "nmbm_check_bad_phys_block ni (ba - 1) = (bad, nj)" by fastforce
    have w: "worn {} ni nj" using ch by (rule check_bad_worn)
    have gj: "geom nj" using g w by (simp add: worn_geom)
    have "wp (find_signature_pages crc nj (ba2addr nj (ba - 1)) 0) (\<lambda>(r, n). wp (case r of
               Some sig \<Rightarrow> Some (Some (sig, ba - 1), n) | None \<Rightarrow> find_signature_loop crc n (ba - 1) limit) ?Q)"
      by (rule wp_pair [OF find_signature_pages_wp [OF gj]])
        (use w lo down(1) in \<open>auto split: option.splits intro: worn_trans intro!: rest\<close>)
    then show ?thesis
      using rest [OF w]
      by (subst find_signature_loop.simps) (simp only: True if_True Let_def ch wp_bind wp_prod prod.case wp_if, simp)
  qed
qed

lemma unat_mult_u32: "unat a * unat b < 2 ^ 32 \<Longrightarrow> unat (a * b :: u32) = unat a * unat b"
  by (simp add: unat_word_ariths)

lemma find_signature_wp:
  assumes z: "sized ni" and c: "checked (lower ni)" and s: "sane (lower ni)"
  shows "wp (nmbm_find_signature crc ni) (\<lambda>x. worn {} ni (snd x) \<and>
    (\<forall>sig a. fst x = Some (sig, a) \<longrightarrow> a < block_count ni))"
proof -
  let ?bc = "ucast (drop_bit (unat (erasesize_shift ni)) (lsize (lower ni))) :: u32"
  have g: "geom ni" using z by (simp add: sized_def)
  have div: "unat (drop_bit (unat (erasesize_shift ni)) (lsize (lower ni))) =
      unat (lsize (lower ni)) div unat (erasesize (lower ni))"
    by (simp only: unat_drop_bit_eq) (simp add: drop_bit_eq_div geom_es [OF g])
  have bounds: "16 \<le> unat (lsize (lower ni)) div unat (erasesize (lower ni))"
    "unat (lsize (lower ni)) div unat (erasesize (lower ni)) \<le> 2 ^ 20"
    using s by (simp_all add: sane_def)
  have u: "unat ?bc = unat (lsize (lower ni)) div unat (erasesize (lower ni))"
    unfolding unsigned_ucast_eq div using bounds by (intro take_bit_nat_eq_self) simp
  then have bc: "?bc = block_count ni" using z by (simp add: sized_def word_unat_eq_iff)
  have r: "1 \<le> unat (max_ratio (lower ni))" "unat (max_ratio (lower ni)) < 15"
    using c by (simp_all add: checked_def word_le_nat_alt word_less_nat_alt)
  let ?l = "(?bc div 16) * (16 - max_ratio (lower ni))"
  have sub: "unat (16 - max_ratio (lower ni)) = 16 - unat (max_ratio (lower ni))"
    using r by (subst unat_minus_le) (simp_all add: word_le_nat_alt)
  have d: "1 \<le> unat ?bc div 16" "unat ?bc div 16 \<le> 2 ^ 16" using bounds by (simp_all add: u)
  have "unat ?bc div 16 * (16 - unat (max_ratio (lower ni))) \<le> 2 ^ 16 * 16" using d by (intro mult_le_mono) auto
  then have ul: "unat ?l = unat ?bc div 16 * (16 - unat (max_ratio (lower ni)))"
    by (subst unat_mult_u32) (simp_all add: sub unat_div)
  have l0: "0 < ?l" using d r by (simp add: word_less_nat_alt ul)
  have "0 < ?bc - max_reserved_blocks (lower ni)"
    if "max_reserved_blocks (lower ni) < ?bc - ?l"
  proof -
    have "unat ?bc div 16 * (16 - unat (max_ratio (lower ni))) \<le> unat ?bc div 16 * 16" using r by (intro mult_le_mono) auto
    also have "\<dots> \<le> unat ?bc" by simp
    finally have "?l \<le> ?bc" by (simp add: word_le_nat_alt ul)
    then have "unat (?bc - ?l) = unat ?bc - unat ?l" by (rule unat_minus_le)
    with that have "unat (max_reserved_blocks (lower ni)) < unat ?bc" by (simp add: word_less_nat_alt)
    then show ?thesis by (simp add: word_less_nat_alt unat_minus_le word_le_nat_alt)
  qed
  with l0 have lim: "0 < (if max_reserved_blocks (lower ni) \<noteq> 0 \<and> max_reserved_blocks (lower ni) < ?bc - ?l
       then ?bc - max_reserved_blocks (lower ni) else ?l)" by simp
  have "wp (find_signature_loop crc ni ?bc (if max_reserved_blocks (lower ni) \<noteq> 0 \<and> max_reserved_blocks (lower ni) < ?bc - ?l
       then ?bc - max_reserved_blocks (lower ni) else ?l)) (\<lambda>x. worn {} ni (snd x) \<and>
     (\<forall>sig a. fst x = Some (sig, a) \<longrightarrow> a < ?bc))"
    by (rule wp_mono [OF find_signature_loop_wp [OF g lim]]) auto
  then show ?thesis
    unfolding nmbm_find_signature_def Let_def wp_bind wp_prod
    by (elim wp_mono) (auto simp: bc map_option_case split: option.splits)
qed

section \<open>Attaching to a chip without management data\<close>

text \<open>The instance that is searched for a signature, and the one an attach starts with.\<close>

definition attach_start :: "nmbm_log_category \<Rightarrow> 'd nmbm_lower_device \<Rightarrow> 'd nmbm_instance \<Rightarrow> 'd nmbm_instance" where
  "attach_start level nld ni =
     nmbm_init_structure (ni\<lparr>log_display_level := level, lower := snd (nmbm_check_lower_members nld)\<rparr>)"

lemma attach_new_wp:
  assumes ok: "fst (nmbm_check_lower_members nld)" and s: "sane nld"
    and cr: "flags nld AND NMBM_F_CREATE \<noteq> 0" and rw: "flags nld AND NMBM_F_READ_ONLY = 0"
    and none: "wp (nmbm_find_signature crc (attach_start level nld ni)) (\<lambda>(r, _). r = None)"
  shows "wp (nmbm_attach crc level nld ni) (\<lambda>(ret, n). ret = - ENODEV \<or> ret = 0 \<and> run_inv n)"
proof -
  obtain l where l: "nmbm_check_lower_members nld = (True, l)" using ok by (metis prod.collapse)
  note c = check_lower_members_checked [OF l]
  let ?n = "attach_start level nld ni"
  have sl: "sane l" using s by (simp add: c(2) sane_def)
  have z: "sized ?n" "lower ?n = l"
    using init_structure_sized [of "ni\<lparr>log_display_level := level, lower := l\<rparr>"] c(1) sl
    by (simp_all add: attach_start_def l)
  have fl: "flags l = flags nld" by (simp add: c(2))
  have "wp (nmbm_find_signature crc ?n) (\<lambda>x. worn {} ?n (snd x) \<and> fst x = None)"
    using wp_conj [OF find_signature_wp none] z c(1) sl by (auto elim!: wp_mono)
  then have "wp (nmbm_find_signature crc ?n) (\<lambda>(r, n). r = None \<and> has_flag n NMBM_F_CREATE \<and>
     wp (nmbm_create_new crc n) (\<lambda>(ok, n). ok \<longrightarrow> run_inv n))"
  proof (rule wp_mono, clarsimp)
    fix n assume w: "worn {} ?n n"
    have low: "lower n = l\<lparr>arg := chip n\<rparr>" using worn_frame(1) [OF w] z(2) by simp
    have "sized n" using z(1) worn_frame [OF w] worn_geom [OF w] by (simp add: sized_def)
    moreover have "checked (lower n)" "sane (lower n)" using c(1) sl by (simp_all add: low checked_def sane_def)
    ultimately have "wp (nmbm_create_new crc n) (\<lambda>(ok, n'). ok \<and> \<not> has_flag n NMBM_F_READ_ONLY \<longrightarrow> create_inv n')"
      by (rule create_new_wp)
    then show "has_flag n NMBM_F_CREATE \<and> wp (nmbm_create_new crc n) (\<lambda>(ok, n). ok \<longrightarrow> run_inv n)"
      using cr rw by (auto simp: has_flag_def low fl create_inv_def elim!: wp_mono)
  qed
  then show ?thesis
    unfolding nmbm_attach_def
    by (auto simp: Let_def l attach_start_def elim!: wp_mono)
qed

end
