(* ===== verification/Nmbm_Logic.thy ===== *)
theory Nmbm_Logic
  imports Nmbm_Attach
begin

text \<open>
  The operations on logic addresses, which the MTD layer calls. The instance pointer of the model
  is never \<open>NULL\<close>, so the \<open>-EINVAL\<close> of \<open>if (!ni)\<close> is no branch here. \<open>size_t\<close> is 64 bits wide.
\<close>

section \<open>Erasing\<close>

text \<open>The jump to \<open>retry\<close> is the recursion; \<open>remap\<close> is the code from \<open>remap_logic_block\<close> on.\<close>

definition need_remap_or_bad :: "'d nmbm_instance \<Rightarrow> u32 \<Rightarrow> 'd nmbm_instance" where
  "need_remap_or_bad ni pb =
     (if nmbm_get_block_state ni pb \<noteq> BLOCK_ST_NEED_REMAP then set_block_state ni pb BLOCK_ST_BAD else ni)"

definition remap_logic_block ::
  "crc_fun \<Rightarrow> 'd nmbm_instance \<Rightarrow> u32 \<Rightarrow> u32 \<Rightarrow> (bool \<times> 'd nmbm_instance) option" where
  "remap_logic_block crc ni block_addr pb =
     do {
       (success, ni) \<leftarrow> nmbm_map_block crc ni block_addr;
       let ni = (if success then ni
                 else ni\<lparr>block_mapping := (block_mapping ni)[unat block_addr := -1]\<rparr>);
       let ni = need_remap_or_bad ni pb;
       (_, ni) \<leftarrow> nmbm_update_info_table crc ni;
       Some (success, ni)
     }"

text \<open>The first part of a round: whether the mapped block could be erased.\<close>

definition erase_attempt :: "'d nmbm_instance \<Rightarrow> u32 \<Rightarrow> (bool \<times> 'd nmbm_instance) option" where
  "erase_attempt ni pb =
     (if nmbm_get_block_state ni pb = BLOCK_ST_BAD \<or> nmbm_get_block_state ni pb = BLOCK_ST_NEED_REMAP
      then Some (False, ni)
      else
        let (bad, ni) = nmbm_check_bad_phys_block ni pb
        in if bad then Some (False, set_block_state ni pb BLOCK_ST_BAD)
           else do {
             (success, ni) \<leftarrow> nmbm_erase_block_and_check ni pb;
             if success then Some (True, ni)
             else do { ni \<leftarrow> retire_block ni pb; Some (False, ni) }
           })"

partial_function (option) nmbm_erase_logic_block ::
  "crc_fun \<Rightarrow> 'd nmbm_instance \<Rightarrow> u32 \<Rightarrow> (int \<times> 'd nmbm_instance) option" where
  "nmbm_erase_logic_block crc ni block_addr =
     (let pb = block_mapping ni ! unat block_addr
      in if sint pb < 0 then Some (- EIO, ni)
         else do {
           (r, ni) \<leftarrow> erase_attempt ni pb;
           if r then Some (0, ni)
           else do {
             (success, ni) \<leftarrow> remap_logic_block crc ni block_addr pb;
             if \<not> success then Some (- EIO, ni) else nmbm_erase_logic_block crc ni block_addr
           }
         })"

partial_function (option) erase_range_loop ::
  "crc_fun \<Rightarrow> 'd nmbm_instance \<Rightarrow> u32 \<Rightarrow> u32 \<Rightarrow> (int \<times> u64 option \<times> 'd nmbm_instance) option" where
  "erase_range_loop crc ni start_ba end_ba =
     (if start_ba \<le> end_ba then
        do {
          (ret, ni) \<leftarrow> nmbm_erase_logic_block crc ni start_ba;
          if ret \<noteq> 0 then Some (ret, Some (ba2addr ni start_ba), ni)
          else erase_range_loop crc ni (start_ba + 1) end_ba
        }
      else Some (0, None, ni))"

text \<open>The second result is what the function stores in \<open>*failed_addr\<close>, if it does.\<close>

definition nmbm_erase_block_range ::
  "crc_fun \<Rightarrow> 'd nmbm_instance \<Rightarrow> u64 \<Rightarrow> u64 \<Rightarrow> (int \<times> u64 option \<times> 'd nmbm_instance) option" where
  "nmbm_erase_block_range crc ni addr sz =
     (if protected ni \<noteq> 0 \<or> has_flag ni NMBM_F_READ_ONLY then Some (- EROFS, None, ni)
      else if ba2addr ni (data_block_count ni) \<le> addr then Some (- EINVAL, None, ni)
      else if ba2addr ni (data_block_count ni) < addr + sz then Some (- EINVAL, None, ni)
      else if sz = 0 then Some (0, None, ni)
      else erase_range_loop crc ni (addr2ba ni addr) (addr2ba ni (addr + sz - 1)))"

section \<open>Reading\<close>

definition nmbm_read_logic_page ::
  "'d nmbm_instance \<Rightarrow> u64 \<Rightarrow> u8 list option \<Rightarrow> u8 list option \<Rightarrow> nmbm_oob_mode \<Rightarrow>
   int \<times> u8 list option \<times> u8 list option \<times> 'd nmbm_instance" where
  "nmbm_read_logic_page ni addr data oob mode =
     (let lb = addr2ba ni addr;
          offset = ucast (addr AND ucast (erasesize_mask ni)) :: u32;
          pb = block_mapping ni ! unat lb
      in if sint pb < 0 then (- EIO, data, oob, ni)
         else if nmbm_get_block_state ni pb = BLOCK_ST_BAD then (- EIO, data, oob, ni)
         else nmbm_read_phys_page ni (ba2addr ni pb + ucast offset) data oob mode)"

definition nmbm_read_single_page ::
  "'d nmbm_instance \<Rightarrow> u64 \<Rightarrow> u8 list option \<Rightarrow> u8 list option \<Rightarrow> nmbm_oob_mode \<Rightarrow>
   int \<times> u8 list option \<times> u8 list option \<times> 'd nmbm_instance" where
  "nmbm_read_single_page ni addr data oob mode =
     (if protected ni \<noteq> 0 then (- EROFS, data, oob, ni)
      else if ba2addr ni (data_block_count ni) \<le> addr then (- EINVAL, data, oob, ni)
      else nmbm_read_logic_page ni addr data oob mode)"

text \<open>The leading bytes and the size of one chunk, computed in \<open>size_t\<close>.\<close>

definition range_leading :: "'d nmbm_instance \<Rightarrow> u64 \<Rightarrow> u64" where
  "range_leading ni off = off AND ucast (writesize_mask ni)"

definition range_chunk :: "'d nmbm_instance \<Rightarrow> u64 \<Rightarrow> u64 \<Rightarrow> u64" where
  "range_chunk ni leading sizeremain =
     (let chunksize = ucast (writesize (lower ni)) - leading
      in if sizeremain < chunksize then sizeremain else chunksize)"

partial_function (option) read_range_loop ::
  "'d nmbm_instance \<Rightarrow> u64 \<Rightarrow> u8 list \<Rightarrow> nat \<Rightarrow> u64 \<Rightarrow> nmbm_oob_mode \<Rightarrow> bool \<Rightarrow> int \<Rightarrow> int \<Rightarrow>
   (int \<times> bool \<times> int \<times> u64 \<times> u8 list \<times> 'd nmbm_instance) option" where
  "read_range_loop ni off data pos sizeremain mode has_ecc_err max_bitflips last_ret =
     (if sizeremain \<noteq> 0 then
        let leading = range_leading ni off;
            chunksize = range_chunk ni leading sizeremain;
            (ret, data, ni) =
              (if chunksize = ucast (writesize (lower ni)) then
                 let (ret, buf, _, ni) = nmbm_read_logic_page ni (off - leading)
                       (Some (slice pos (unat (writesize (lower ni))) data)) None mode
                 in (ret, memcpy_at data pos (the buf), ni)
               else
                 let (ret, buf, _, ni) = nmbm_read_logic_page ni (off - leading)
                       (Some (cache_data ni)) None mode;
                     ni = ni\<lparr>page_cache := memcpy_at (page_cache ni) 0 (the buf)\<rparr>
                 in if ret < 0 \<and> ret \<noteq> - EBADMSG then (ret, data, ni)
                    else (ret, memcpy_at data pos
                                 (slice (unat leading) (unat chunksize) (page_cache ni)), ni))
        in if ret < 0 \<and> ret \<noteq> - EBADMSG
           then Some (ret, has_ecc_err, max_bitflips, sizeremain, data, ni)
           else read_range_loop ni (off + chunksize) data (pos + unat chunksize) (sizeremain - chunksize)
                  mode (has_ecc_err \<or> ret = - EBADMSG)
                  (if max_bitflips < ret then ret else max_bitflips) ret
      else Some (last_ret, has_ecc_err, max_bitflips, 0, data, ni))"

text \<open>Results: the error number, the buffer, what is stored in \<open>*retlen\<close> if anything.\<close>

definition nmbm_read_range ::
  "'d nmbm_instance \<Rightarrow> u64 \<Rightarrow> u64 \<Rightarrow> u8 list \<Rightarrow> nmbm_oob_mode \<Rightarrow>
   (int \<times> u8 list \<times> u64 option \<times> 'd nmbm_instance) option" where
  "nmbm_read_range ni addr sz data mode =
     (if protected ni \<noteq> 0 then Some (- EROFS, data, None, ni)
      else if ba2addr ni (data_block_count ni) \<le> addr then Some (- EINVAL, data, None, ni)
      else if ba2addr ni (data_block_count ni) < addr + sz then Some (- EINVAL, data, None, ni)
      else if sz = 0 then Some (0, data, None, ni)
      else do {
        (ret, has_ecc_err, max_bitflips, sizeremain, data, ni) \<leftarrow>
          read_range_loop ni addr data 0 sz mode False 0 0;
        Some (if ret < 0 \<and> ret \<noteq> - EBADMSG then ret
              else if has_ecc_err then - EBADMSG else max_bitflips,
              data, Some (sz - sizeremain), ni)
      })"

section \<open>Writing\<close>

definition nmbm_write_logic_page ::
  "crc_fun \<Rightarrow> 'd nmbm_instance \<Rightarrow> u64 \<Rightarrow> u8 list option \<Rightarrow> u8 list option \<Rightarrow> nmbm_oob_mode \<Rightarrow>
   (int \<times> 'd nmbm_instance) option" where
  "nmbm_write_logic_page crc ni addr data oob mode =
     (let lb = addr2ba ni addr;
          offset = ucast (addr AND ucast (erasesize_mask ni)) :: u32;
          pb = block_mapping ni ! unat lb
      in if sint pb < 0 then Some (- EIO, ni)
         else if nmbm_get_block_state ni pb = BLOCK_ST_BAD then Some (- EIO, ni)
         else
           let (success, ni) = nmbm_write_phys_page ni (ba2addr ni pb + ucast offset) data oob mode
           in if success then Some (0, ni)
              else do {
                let ni = set_block_state ni pb BLOCK_ST_NEED_REMAP;
                (_, ni) \<leftarrow> nmbm_update_info_table crc ni;
                Some (- EIO, ni)
              })"

definition nmbm_panic_write_logic_page ::
  "crc_fun \<Rightarrow> 'd nmbm_instance \<Rightarrow> u64 \<Rightarrow> u8 list option \<Rightarrow> (int \<times> 'd nmbm_instance) option" where
  "nmbm_panic_write_logic_page crc ni addr data =
     (if panic_write_page (lower ni) = None then Some (- ENOTSUPP, ni)
      else
        let lb = addr2ba ni addr;
            offset = ucast (addr AND ucast (erasesize_mask ni)) :: u32;
            pb = block_mapping ni ! unat lb
        in if sint pb < 0 then Some (- EIO, ni)
           else if nmbm_get_block_state ni pb = BLOCK_ST_BAD then Some (- EIO, ni)
           else
             let (success, ni) = nmbm_panic_write_phys_page ni (ba2addr ni pb + ucast offset) data
             in if success then Some (0, ni)
                else do {
                  let ni = set_block_state ni pb BLOCK_ST_NEED_REMAP;
                  (_, ni) \<leftarrow> nmbm_update_info_table crc ni;
                  Some (- EIO, ni)
                })"

definition nmbm_write_single_page ::
  "crc_fun \<Rightarrow> 'd nmbm_instance \<Rightarrow> u64 \<Rightarrow> u8 list option \<Rightarrow> u8 list option \<Rightarrow> nmbm_oob_mode \<Rightarrow>
   (int \<times> 'd nmbm_instance) option" where
  "nmbm_write_single_page crc ni addr data oob mode =
     (if protected ni \<noteq> 0 \<or> has_flag ni NMBM_F_READ_ONLY then Some (- EROFS, ni)
      else if ba2addr ni (data_block_count ni) \<le> addr then Some (- EINVAL, ni)
      else nmbm_write_logic_page crc ni addr data oob mode)"

definition nmbm_panic_write_single_page ::
  "crc_fun \<Rightarrow> 'd nmbm_instance \<Rightarrow> u64 \<Rightarrow> u8 list option \<Rightarrow> (int \<times> 'd nmbm_instance) option" where
  "nmbm_panic_write_single_page crc ni addr data =
     (if protected ni \<noteq> 0 \<or> has_flag ni NMBM_F_READ_ONLY then Some (- EROFS, ni)
      else if ba2addr ni (data_block_count ni) \<le> addr then Some (- EINVAL, ni)
      else nmbm_panic_write_logic_page crc ni addr data)"

partial_function (option) write_range_loop ::
  "crc_fun \<Rightarrow> 'd nmbm_instance \<Rightarrow> u64 \<Rightarrow> u8 list \<Rightarrow> nat \<Rightarrow> u64 \<Rightarrow> nmbm_oob_mode \<Rightarrow>
   (int \<times> u64 \<times> 'd nmbm_instance) option" where
  "write_range_loop crc ni off data pos sizeremain mode =
     (if sizeremain \<noteq> 0 then
        let leading = range_leading ni off;
            chunksize = range_chunk ni leading sizeremain
        in do {
             (ret, ni) \<leftarrow>
               (if chunksize = ucast (writesize (lower ni)) then
                  nmbm_write_logic_page crc ni (off - leading)
                    (Some (slice pos (unat (writesize (lower ni))) data)) None mode
                else
                  let ni = ni\<lparr>page_cache := memset_at (page_cache ni) 0 0xff (unat leading)\<rparr>;
                      ni = ni\<lparr>page_cache := memcpy_at (page_cache ni) (unat leading)
                                            (slice pos (unat chunksize) data)\<rparr>
                  in nmbm_write_logic_page crc ni (off - leading) (Some (cache_data ni)) None mode);
             if ret \<noteq> 0 then Some (ret, sizeremain, ni)
             else write_range_loop crc ni (off + chunksize) data (pos + unat chunksize)
                    (sizeremain - chunksize) mode
           }
      else Some (0, 0, ni))"

definition nmbm_write_range ::
  "crc_fun \<Rightarrow> 'd nmbm_instance \<Rightarrow> u64 \<Rightarrow> u64 \<Rightarrow> u8 list \<Rightarrow> nmbm_oob_mode \<Rightarrow>
   (int \<times> u64 option \<times> 'd nmbm_instance) option" where
  "nmbm_write_range crc ni addr sz data mode =
     (if protected ni \<noteq> 0 \<or> has_flag ni NMBM_F_READ_ONLY then Some (- EROFS, None, ni)
      else if ba2addr ni (data_block_count ni) \<le> addr then Some (- EINVAL, None, ni)
      else if ba2addr ni (data_block_count ni) < addr + sz then Some (- EINVAL, None, ni)
      else if sz = 0 then Some (0, None, ni)
      else do {
        (ret, sizeremain, ni) \<leftarrow> write_range_loop crc ni addr data 0 sz mode;
        Some (ret, Some (sz - sizeremain), ni)
      })"

section \<open>Bad blocks and sizes\<close>

definition nmbm_check_bad_block :: "'d nmbm_instance \<Rightarrow> u64 \<Rightarrow> int" where
  "nmbm_check_bad_block ni addr =
     (if ba2addr ni (data_block_count ni) \<le> addr then - EINVAL
      else
        let pb = block_mapping ni ! unat (addr2ba ni addr)
        in if sint pb < 0 then 1
           else if nmbm_get_block_state ni pb = BLOCK_ST_BAD then 1 else 0)"

definition nmbm_mark_bad_block ::
  "crc_fun \<Rightarrow> 'd nmbm_instance \<Rightarrow> u64 \<Rightarrow> (int \<times> 'd nmbm_instance) option" where
  "nmbm_mark_bad_block crc ni addr =
     (if protected ni \<noteq> 0 \<or> has_flag ni NMBM_F_READ_ONLY then Some (- EROFS, ni)
      else if ba2addr ni (data_block_count ni) \<le> addr then Some (- EINVAL, ni)
      else
        let lb = addr2ba ni addr;
            pb = block_mapping ni ! unat lb
        in if sint pb < 0 then Some (0, ni)
           else do {
             let ni = ni\<lparr>block_mapping := (block_mapping ni)[unat lb := -1]\<rparr>;
             ni \<leftarrow> retire_block ni pb;
             (_, ni) \<leftarrow> nmbm_update_info_table crc ni;
             Some (0, ni)
           })"

definition nmbm_get_avail_size :: "'d nmbm_instance \<Rightarrow> u64" where
  "nmbm_get_avail_size ni = push_bit (unat (erasesize_shift ni)) (ucast (data_block_count ni))"

text \<open>\<open>None\<close> is a \<open>NULL\<close> destination.\<close>

definition nmbm_get_lower_device ::
  "'d nmbm_instance \<Rightarrow> 'd nmbm_lower_device option \<Rightarrow> int \<times> 'd nmbm_lower_device option" where
  "nmbm_get_lower_device ni nld = (0, map_option (\<lambda>_. lower ni) nld)"

section \<open>Erasing keeps the contract\<close>

definition same_others :: "u32 \<Rightarrow> 'd nmbm_instance \<Rightarrow> 'd nmbm_instance \<Rightarrow> bool" where
  "same_others lb ni n \<longleftrightarrow> (\<forall>i. i \<noteq> unat lb \<longrightarrow> block_mapping n ! i = block_mapping ni ! i)"

lemma same_others_refl: "same_others lb ni ni"
  by (simp add: same_others_def)

lemma same_others_trans: "same_others lb ni n \<Longrightarrow> same_others lb n n' \<Longrightarrow> same_others lb ni n'"
  by (simp add: same_others_def)

lemma run_inv_mapped:
  "run_inv ni \<Longrightarrow> lb < data_block_count ni \<Longrightarrow> \<not> sint (block_mapping ni ! unat lb) < 0 \<Longrightarrow>
   block_mapping ni ! unat lb < signature_ba ni"
  by (auto simp: run_inv_def mapped_ok_def word_less_nat_alt)

lemma run_inv_index: "run_inv ni \<Longrightarrow> lb < data_block_count ni \<Longrightarrow> unat lb < length (block_mapping ni)"
  by (auto simp: run_inv_def mapped_ok_def word_less_nat_alt)

lemma run_inv_geom: "run_inv ni \<Longrightarrow> geom ni"
  by (simp add: run_inv_def spare_ok_def layout_def area_ok_def)

text \<open>Setting an entry of the mapping to a spare block or to nothing.\<close>

lemma runs_mapped_ok:
  assumes "run_inv ni" and "spares ni n" and "length (block_mapping n) = length (block_mapping ni)"
    and "\<And>i. i < length (block_mapping ni) \<Longrightarrow> sint (block_mapping n ! i) < 0 \<or>
      block_mapping n ! i = block_mapping ni ! i \<or> block_mapping n ! i < signature_ba ni"
  shows "runs ni n"
proof -
  note f = run_step_frame [OF runs_frame(3) [OF assms(2)]]
  have m: "mapped_ok ni" using assms(1) by (simp add: run_inv_def)
  have "mapped_ok n"
    unfolding mapped_ok_def f(11,13,16)
  proof (intro conjI allI impI)
    show "unat (data_block_count ni) \<le> length (block_mapping ni)" using m by (simp add: mapped_ok_def)
  next
    fix i assume "i < unat (data_block_count ni)"
    then show "sint (block_mapping n ! i) < 0 \<or> block_mapping n ! i < signature_ba ni"
      using m assms(4) [of i] by (auto simp: mapped_ok_def)
  qed
  with assms(2) show ?thesis by (simp add: runs_def spares_def run_inv_def)
qed

lemma nth_update_cases: "xs[k := v] ! i = v \<and> i = k \<or> xs[k := v] ! i = xs ! i"
  by (cases "i = k"; cases "k < length xs") (auto simp: list_update_beyond)

lemma runs_take_spare:
  assumes "run_inv ni" "next_spare ni pb" "lb < data_block_count ni"
  shows "runs ni (take_spare ni lb pb)"
proof (rule runs_mapped_ok [OF assms(1)])
  have s: "spare_ok ni" using assms(1) by (simp add: run_inv_def)
  note t = take_spare_ok [OF s assms(2) run_inv_index [OF assms(1,3)]]
  show "spares ni (take_spare ni lb pb)" by (rule t)
  fix i
  show "sint (block_mapping (take_spare ni lb pb) ! i) < 0 \<or>
      block_mapping (take_spare ni lb pb) ! i = block_mapping ni ! i \<or>
      block_mapping (take_spare ni lb pb) ! i < signature_ba ni"
    using nth_update_cases [of "block_mapping ni" "unat lb" pb i] t(2) by (auto simp: take_spare_def)
qed (simp add: take_spare_def)

lemma runs_unmap:
  assumes "run_inv ni" "lb < data_block_count ni"
  shows "runs ni (ni\<lparr>block_mapping := (block_mapping ni)[unat lb := -1]\<rparr>)"
proof (rule runs_mapped_ok [OF assms(1)])
  have "spare_ok ni" using assms(1) by (simp add: run_inv_def)
  then show "spares ni (ni\<lparr>block_mapping := (block_mapping ni)[unat lb := -1]\<rparr>)"
    by (simp add: spares_def run_step_def run_blank_def mgmt_blank_def ages_def chip_def spare_ok_def
        layout_def area_ok_def geom_def)
next
  fix i
  show "sint (block_mapping (ni\<lparr>block_mapping := (block_mapping ni)[unat lb := -1]\<rparr>) ! i) < 0 \<or>
      block_mapping (ni\<lparr>block_mapping := (block_mapping ni)[unat lb := -1]\<rparr>) ! i = block_mapping ni ! i \<or>
      block_mapping (ni\<lparr>block_mapping := (block_mapping ni)[unat lb := -1]\<rparr>) ! i < signature_ba ni"
    using nth_update_cases [of "block_mapping ni" "unat lb" "-1" i] by auto
qed simp

lemma need_remap_runs:
  assumes "run_inv ni" "pb < signature_ba ni"
  shows "runs ni (need_remap_or_bad ni pb)"
  using assms by (auto simp: need_remap_or_bad_def intro: runs_refl runs_set_state)

lemma need_remap_frame [simp]:
  "block_mapping (need_remap_or_bad ni pb) = block_mapping ni"
  "mapping_blocks_top_ba (need_remap_or_bad ni pb) = mapping_blocks_top_ba ni"
  by (simp_all add: need_remap_or_bad_def)

lemma remap_logic_block_wp:
  assumes i: "run_inv ni" and lb: "lb < data_block_count ni" and pb: "pb < signature_ba ni"
  shows "wp (remap_logic_block crc ni lb pb) (\<lambda>(ok, n). runs ni n \<and> same_others lb ni n \<and>
    (if ok then mapping_blocks_top_ba n < mapping_blocks_top_ba ni
     else sint (block_mapping n ! unat lb) < 0))"
proof -
  let ?R = "\<lambda>ok n. runs ni n \<and> same_others lb ni n \<and>
    (if ok then mapping_blocks_top_ba n < mapping_blocks_top_ba ni
     else sint (block_mapping n ! unat lb) < 0)"
  have s: "spare_ok ni" and len: "unat lb < length (block_mapping ni)"
    using i run_inv_index [OF i lb] by (simp_all add: run_inv_def)
  have step: "?R ok (if ok then n else n\<lparr>block_mapping := (block_mapping n)[unat lb := -1]\<rparr>)"
    if m: "spares ni n \<and> (ok \<longrightarrow> (\<exists>pb. next_spare ni pb \<and> n = take_spare ni lb pb)) \<and>
        (\<not> ok \<longrightarrow> (\<forall>pb. \<not> next_spare ni pb) \<and> block_mapping n = block_mapping ni \<and>
           mapping_blocks_top_ba n = mapping_blocks_ba n)" for ok n
  proof (cases ok)
    case True
    with m obtain x where x: "next_spare ni x" and n: "n = take_spare ni lb x" by blast
    then have "mapping_blocks_ba ni < mapping_blocks_top_ba ni" by (auto simp: next_spare_def)
    then have "mapping_blocks_top_ba n < mapping_blocks_top_ba ni"
      using unat_down [of "mapping_blocks_ba ni" "mapping_blocks_top_ba ni"]
      by (simp add: n take_spare_def word_less_nat_alt)
    with runs_take_spare [OF i x lb] True show ?thesis by (simp add: n same_others_def take_spare_def)
  next
    case False
    with m have r: "runs ni n" and bm: "block_mapping n = block_mapping ni"
      using i by (auto simp: run_inv_def intro: runs_spares)
    have "runs n (n\<lparr>block_mapping := (block_mapping n)[unat lb := -1]\<rparr>)"
      by (rule runs_unmap) (use r lb in \<open>simp_all add: runs_inv runs_dbc\<close>)
    with runs_trans [OF r this] False bm len show ?thesis by (simp add: same_others_def)
  qed
  have rest: "wp (nmbm_update_info_table crc (need_remap_or_bad n pb)) (\<lambda>(_, n). ?R ok n)"
    if r: "?R ok n" for ok n
  proof -
    have rr: "runs ni n" using r by simp
    have "run_inv n" "pb < signature_ba n" using pb by (simp_all add: runs_inv [OF rr] runs_sig [OF rr])
    then have r2: "runs n (need_remap_or_bad n pb)" by (rule need_remap_runs)
    show ?thesis
      by (rule wp_pair [OF runs_update [OF runs_inv [OF r2]]])
        (use r r2 in \<open>auto simp: same_others_def intro: runs_trans\<close>)
  qed
  show ?thesis
    unfolding remap_logic_block_def wp_bind Let_def
    by (rule wp_mono [OF map_block_wp [OF s len]], clarsimp simp only: split_paired_all prod.case)
      (use rest [OF step] in \<open>auto elim!: wp_mono simp: split_paired_all\<close>)
qed

definition usable :: "'d nmbm_instance \<Rightarrow> u32 \<Rightarrow> bool" where
  "usable ni pb \<longleftrightarrow> nmbm_get_block_state ni pb \<noteq> BLOCK_ST_BAD \<and> nmbm_get_block_state ni pb \<noteq> BLOCK_ST_NEED_REMAP"

lemma mark_phys_bad_runs:
  assumes i: "run_inv ni" and pb: "pb < signature_ba ni"
  shows "wp (nmbm_mark_phys_bad_block ni pb) (\<lambda>(_, n). runs ni n \<and> block_mapping n = block_mapping ni)"
  by (rule wp_pair [OF mark_phys_bad_wp [OF run_inv_geom [OF i], where B = "below_signature ni"]])
    (use pb runs_worn [OF i] in \<open>auto simp: below_signature_def worn_frame\<close>)

lemma retire_runs [wp_intro]:
  assumes i: "run_inv ni" and pb: "pb < signature_ba ni"
  shows "wp (retire_block ni pb) (\<lambda>n. runs ni n \<and> block_mapping n = block_mapping ni)"
  unfolding retire_block_def wp_bind
proof (rule wp_mono [OF mark_phys_bad_runs [OF i pb]])
  fix x assume "case x of (_, n) \<Rightarrow> runs ni n \<and> block_mapping n = block_mapping ni"
  then obtain r n where x: "x = (r, n)" and n: "runs ni n" "block_mapping n = block_mapping ni" by auto
  have "runs n (set_block_state n pb BLOCK_ST_BAD)"
    by (rule runs_set_state) (use n pb in \<open>simp_all add: runs_inv runs_sig\<close>)
  with n x show "wp (case x of (_, ni) \<Rightarrow> Some (set_block_state ni pb BLOCK_ST_BAD))
      (\<lambda>n. runs ni n \<and> block_mapping n = block_mapping ni)"
    by (auto intro: runs_trans)
qed

lemma erase_attempt_wp:
  assumes i: "run_inv ni" and pb: "pb < signature_ba ni"
  shows "wp (erase_attempt ni pb) (\<lambda>(ok, n). runs ni n \<and> block_mapping n = block_mapping ni \<and> (ok \<longrightarrow> usable n pb))"
proof (cases "usable ni pb")
  case False
  then show ?thesis using i by (auto simp: erase_attempt_def usable_def runs_refl)
next
  case True
  let ?B = "below_signature ni"
  have inB: "pb \<in> ?B" using pb by (simp add: below_signature_def)
  obtain bad nj where ch: "nmbm_check_bad_phys_block ni pb = (bad, nj)" by fastforce
  have e: "chip_evolves (in_blocks ni ?B) ni nj" by (rule check_bad_evolves [OF ch])
  have r: "runs ni nj" "block_mapping nj = block_mapping ni"
    using runs_chip [OF i e] worn_frame(13) [OF worn_chip [OF e]] by simp_all
  have ij: "run_inv nj" "pb < signature_ba nj" using r pb by (simp_all add: runs_inv runs_sig)
  have "runs nj (set_block_state nj pb BLOCK_ST_BAD)" by (rule runs_set_state [OF ij]) simp
  moreover have "wp (nmbm_erase_block_and_check nj pb)
     (\<lambda>(ok, n). runs ni n \<and> block_mapping n = block_mapping ni \<and> nmbm_get_block_state n pb = nmbm_get_block_state ni pb)"
  proof (rule wp_pair [OF erase_block_and_check_chip [OF run_inv_geom [OF ij(1)] inB]])
    fix ok n assume c: "chip_evolves (in_blocks nj ?B) nj n"
    then have "runs nj n" using runs_chip [OF ij(1)] by (simp add: runs_below [OF r(1)])
    with r worn_frame(13) [OF worn_chip [OF c]]
    have "runs ni n" "block_mapping n = block_mapping ni" by (auto intro: runs_trans)
    moreover have "nmbm_get_block_state n pb = nmbm_get_block_state ni pb"
      using c check_bad_same_get [OF ch, of pb] by (auto simp: chip_evolves_def)
    ultimately show "runs ni n \<and> block_mapping n = block_mapping ni \<and> nmbm_get_block_state n pb = nmbm_get_block_state ni pb"
      by blast
  qed
  then have "wp (nmbm_erase_block_and_check nj pb) (\<lambda>(ok, n). if ok
       then runs ni n \<and> block_mapping n = block_mapping ni \<and> usable n pb
       else wp (retire_block n pb) (\<lambda>n. runs ni n \<and> block_mapping n = block_mapping ni))"
  proof (rule wp_pair)
    fix ok n
    assume n: "runs ni n \<and> block_mapping n = block_mapping ni \<and> nmbm_get_block_state n pb = nmbm_get_block_state ni pb"
    then have rn: "runs ni n" by blast
    have "wp (retire_block n pb) (\<lambda>n'. runs ni n' \<and> block_mapping n' = block_mapping ni)"
      by (rule wp_mono [OF retire_runs [OF runs_inv [OF rn]]])
        (use n pb in \<open>auto simp: runs_sig [OF rn] intro: runs_trans\<close>)
    with n True show "if ok then runs ni n \<and> block_mapping n = block_mapping ni \<and> usable n pb
       else wp (retire_block n pb) (\<lambda>n. runs ni n \<and> block_mapping n = block_mapping ni)"
      by (simp add: usable_def)
  qed
  then have "wp (nmbm_erase_block_and_check nj pb) (\<lambda>(ok, n). wp (if ok then Some (True, n)
       else do { ni \<leftarrow> retire_block n pb; Some (False, ni) })
       (\<lambda>(ok, n). runs ni n \<and> block_mapping n = block_mapping ni \<and> (ok \<longrightarrow> usable n pb)))"
    by (rule wp_pair) (auto split: if_splits)
  ultimately show ?thesis
    using True r by (auto simp: erase_attempt_def usable_def ch intro: runs_trans)
qed

definition erase_result :: "'d nmbm_instance \<Rightarrow> u32 \<Rightarrow> int \<Rightarrow> 'd nmbm_instance \<Rightarrow> bool" where
  "erase_result ni lb ret n \<longleftrightarrow> runs ni n \<and> same_others lb ni n \<and>
     (ret = 0 \<and> 0 \<le> sint (block_mapping n ! unat lb) \<and> usable n (block_mapping n ! unat lb) \<or>
      ret = - EIO \<and> sint (block_mapping n ! unat lb) < 0)"

text \<open>Each retry has taken a spare block, so there are finitely many.\<close>

lemma erase_logic_block_wp:
  "run_inv ni \<Longrightarrow> lb < data_block_count ni \<Longrightarrow>
   wp (nmbm_erase_logic_block crc ni lb) (\<lambda>(ret, n). erase_result ni lb ret n)"
proof (induction "unat (mapping_blocks_top_ba ni)" arbitrary: ni rule: less_induct)
  case less
  note i = less.prems(1) and lb = less.prems(2)
  let ?pb = "block_mapping ni ! unat lb"
  show ?case
  proof (cases "sint ?pb < 0")
    case True
    then show ?thesis
      using i by (subst nmbm_erase_logic_block.simps) (simp add: erase_result_def runs_refl same_others_refl)
  next
    case False
    note pb = run_inv_mapped [OF i lb False]
    have main: "wp (erase_attempt ni ?pb) (\<lambda>(r, n). wp (if r then Some (0, n) else do {
        (success, n) \<leftarrow> remap_logic_block crc n lb ?pb;
        if \<not> success then Some (- EIO, n) else nmbm_erase_logic_block crc n lb })
        (\<lambda>(ret, n). erase_result ni lb ret n))"
    proof (rule wp_pair [OF erase_attempt_wp [OF i pb]])
      fix r n assume n: "runs ni n \<and> block_mapping n = block_mapping ni \<and> (r \<longrightarrow> usable n ?pb)"
      then have rn: "runs ni n" and so: "same_others lb ni n" by (simp_all add: same_others_def)
      have "wp (remap_logic_block crc n lb ?pb) (\<lambda>(success, n).
          if success then wp (nmbm_erase_logic_block crc n lb) (\<lambda>(ret, n). erase_result ni lb ret n)
          else erase_result ni lb (- EIO) n)"
      proof (rule wp_pair [OF remap_logic_block_wp [OF runs_inv [OF rn]]])
        show "lb < data_block_count n" "?pb < signature_ba n" using lb pb by (simp_all add: runs_dbc [OF rn] runs_sig [OF rn])
      next
        fix ok n2 assume a: "runs n n2 \<and> same_others lb n n2 \<and>
          (if ok then mapping_blocks_top_ba n2 < mapping_blocks_top_ba n else sint (block_mapping n2 ! unat lb) < 0)"
        then have r2: "runs ni n2" and so2: "same_others lb ni n2"
          using rn so by (auto intro: runs_trans same_others_trans)
        have "wp (nmbm_erase_logic_block crc n2 lb) (\<lambda>(ret, n). erase_result ni lb ret n)" if ok
        proof -
          have "mapping_blocks_top_ba n2 < mapping_blocks_top_ba ni" using a that runs_top [OF rn] by (auto intro: order_less_le_trans)
          then have "unat (mapping_blocks_top_ba n2) < unat (mapping_blocks_top_ba ni)" by (simp add: word_less_nat_alt)
          then show ?thesis
            by (rule wp_pair [OF less.hyps [OF _ runs_inv [OF r2]]])
              (use r2 so2 lb in \<open>auto simp: runs_dbc [OF r2] erase_result_def intro: runs_trans same_others_trans\<close>)
        qed
        with a r2 so2 show "if ok then wp (nmbm_erase_logic_block crc n2 lb) (\<lambda>(ret, n). erase_result ni lb ret n)
            else erase_result ni lb (- EIO) n2" by (simp add: erase_result_def)
      qed
      then have "wp (remap_logic_block crc n lb ?pb) (\<lambda>x. wp (case x of (success, n) \<Rightarrow>
          if \<not> success then Some (- EIO, n) else nmbm_erase_logic_block crc n lb) (\<lambda>(ret, n). erase_result ni lb ret n))"
        by (rule wp_mono) (auto split: if_splits prod.splits)
      with n so False show "wp (if r then Some (0, n) else do {
        (success, n) \<leftarrow> remap_logic_block crc n lb ?pb;
        if \<not> success then Some (- EIO, n) else nmbm_erase_logic_block crc n lb })
        (\<lambda>(ret, n). erase_result ni lb ret n)"
        by (auto simp: erase_result_def)
    qed
    show ?thesis
      using main False unfolding wp_prod [symmetric]
      by (subst nmbm_erase_logic_block.simps) (simp add: Let_def del: wp_if)
  qed
qed

definition mapped :: "'d nmbm_instance \<Rightarrow> u32 \<Rightarrow> bool" where
  "mapped ni lb \<longleftrightarrow> 0 \<le> sint (block_mapping ni ! unat lb)"

text \<open>What erasing the logic blocks \<open>a\<close> to \<open>b\<close> gives: all of them are mapped afterwards, or the
  error names the first one for which there is no block.\<close>

definition erase_range_result ::
  "'d nmbm_instance \<Rightarrow> u32 \<Rightarrow> u32 \<Rightarrow> int \<Rightarrow> u64 option \<Rightarrow> 'd nmbm_instance \<Rightarrow> bool" where
  "erase_range_result ni a b ret failed n \<longleftrightarrow> runs ni n \<and>
     (\<forall>i. i < unat a \<or> unat b < i \<longrightarrow> block_mapping n ! i = block_mapping ni ! i) \<and>
     (ret = 0 \<and> failed = None \<and> (\<forall>x. a \<le> x \<and> x \<le> b \<longrightarrow> mapped n x) \<or>
      ret = - EIO \<and> (\<exists>lb. a \<le> lb \<and> lb \<le> b \<and> failed = Some (ba2addr ni lb) \<and> \<not> mapped n lb \<and>
        (\<forall>x. a \<le> x \<and> x < lb \<longrightarrow> mapped n x)))"

lemma runs_ba2addr: "runs ni n \<Longrightarrow> ba2addr n ba = ba2addr ni ba"
  using run_step_frame(5) [OF runs_frame(1), of ni n] by (simp add: ba2addr_def)

lemma word_Suc_le: "(a :: u32) < c \<Longrightarrow> a + 1 \<le> x \<longleftrightarrow> a < x"
  by (simp add: word_le_nat_alt word_less_nat_alt unat_Suc_less [of a c] Suc_le_eq)

lemma erase_range_loop_wp:
  "run_inv ni \<Longrightarrow> b < data_block_count ni \<Longrightarrow>
   wp (erase_range_loop crc ni a b) (\<lambda>(ret, failed, n). erase_range_result ni a b ret failed n)"
proof (induction "unat b + 1 - unat a" arbitrary: ni a rule: less_induct)
  case less
  note i = less.prems(1) and b = less.prems(2)
  show ?case
  proof (cases "a \<le> b")
    case False
    then have "\<forall>x. a \<le> x \<and> x \<le> b \<longrightarrow> mapped ni x" by auto
    with False show ?thesis
      by (subst erase_range_loop.simps) (simp add: erase_range_result_def runs_refl i)
  next
    case True
    then have lt: "a < data_block_count ni" using b by order
    have suc: "a + 1 \<le> x \<longleftrightarrow> a < x" for x by (rule word_Suc_le [OF lt])
    have m: "unat b + 1 - unat (a + 1) < unat b + 1 - unat a"
      using True by (simp add: unat_Suc_less [OF lt] word_le_nat_alt)
    show ?thesis
    proof (subst erase_range_loop.simps, simp only: True if_True wp_bind wp_prod,
        rule wp_pair [OF erase_logic_block_wp [OF i lt]])
      fix ret n assume e: "erase_result ni a ret n"
      then have rn: "runs ni n" and so: "same_others a ni n" by (auto simp: erase_result_def)
      have out: "block_mapping n ! k = block_mapping ni ! k" if "k < unat a \<or> unat b < k" for k
        using so that True by (auto simp: same_others_def word_le_nat_alt)
      show "wp (if ret \<noteq> 0 then Some (ret, Some (ba2addr n a), n) else erase_range_loop crc n (a + 1) b)
          (\<lambda>(ret, failed, n). erase_range_result ni a b ret failed n)"
      proof (cases "ret = 0")
        case False
        have nm: "\<not> mapped n a" using e False by (auto simp: erase_result_def mapped_def)
        have "erase_range_result ni a b ret (Some (ba2addr ni a)) n"
          unfolding erase_range_result_def
          using rn out e False True nm by (auto simp: erase_result_def intro!: exI [of _ a])
        then show ?thesis using False by (simp add: runs_ba2addr [OF rn])
      next
        case ok: True
        then have ma: "mapped n a" using e by (auto simp: erase_result_def mapped_def)
        have "wp (erase_range_loop crc n (a + 1) b) (\<lambda>(ret, failed, n'). erase_range_result n (a + 1) b ret failed n')"
          by (rule less.hyps [OF m runs_inv [OF rn]]) (simp add: runs_dbc [OF rn] b)
        then have "wp (erase_range_loop crc n (a + 1) b) (\<lambda>(ret, failed, n'). erase_range_result ni a b ret failed n')"
        proof (rule wp_mono, clarify)
          fix r f n' assume r: "erase_range_result n (a + 1) b r f n'"
          then have rn': "runs ni n'" using rn by (auto simp: erase_range_result_def intro: runs_trans)
          have o2: "\<forall>k. k < Suc (unat a) \<or> unat b < k \<longrightarrow> block_mapping n' ! k = block_mapping n ! k"
            using r by (simp add: erase_range_result_def unat_Suc_less [OF lt])
          then have ma': "mapped n' a" using ma by (simp add: mapped_def)
          have le: "a \<le> x \<longleftrightarrow> x = a \<or> a < x" for x by auto
          have lt': "a < x \<and> x < y \<Longrightarrow> a \<le> x \<and> x < y" for x y by auto
          show "erase_range_result ni a b r f n'"
            unfolding erase_range_result_def
          proof (intro conjI)
            show "\<forall>k. k < unat a \<or> unat b < k \<longrightarrow> block_mapping n' ! k = block_mapping ni ! k"
              using o2 out by simp
            from r consider "r = 0" "f = None" "\<forall>x. a < x \<and> x \<le> b \<longrightarrow> mapped n' x"
              | lb where "r = - EIO" "a < lb" "lb \<le> b" "f = Some (ba2addr n lb)" "\<not> mapped n' lb"
                "\<forall>x. a < x \<and> x < lb \<longrightarrow> mapped n' x"
              unfolding erase_range_result_def suc by blast
            then show "r = 0 \<and> f = None \<and> (\<forall>x. a \<le> x \<and> x \<le> b \<longrightarrow> mapped n' x) \<or>
              r = - EIO \<and> (\<exists>lb. a \<le> lb \<and> lb \<le> b \<and> f = Some (ba2addr ni lb) \<and> \<not> mapped n' lb \<and>
                (\<forall>x. a \<le> x \<and> x < lb \<longrightarrow> mapped n' x))"
            proof cases
              case 1
              then show ?thesis using ma' le by metis
            next
              case 2
              then show ?thesis using ma' le runs_ba2addr [OF rn] by metis
            qed
          qed (rule rn')
        qed
        with ok show ?thesis by simp
      qed
    qed
  qed
qed

lemma unat_addr2ba:
  "unat (addr2ba ni a) = unat a div 2 ^ unat (erasesize_shift ni) mod 2 ^ 32"
  by (simp only: addr2ba_def unsigned_ucast_eq unat_drop_bit_eq) (simp add: take_bit_eq_mod drop_bit_eq_div)

lemma addr2ba_less:
  assumes "geom ni" and "a < ba2addr ni b"
  shows "addr2ba ni a < b"
proof -
  have "unat a < unat b * 2 ^ unat (erasesize_shift ni)"
    using assms(2) by (simp add: word_less_nat_alt unat_ba2addr [OF geom_shift [OF assms(1)]])
  then have "unat a div 2 ^ unat (erasesize_shift ni) < unat b"
    by (simp add: less_mult_imp_div_less)
  moreover have "unat a div 2 ^ unat (erasesize_shift ni) mod 2 ^ 32 \<le> unat a div 2 ^ unat (erasesize_shift ni)"
    by (rule mod_less_eq_dividend)
  ultimately show ?thesis by (simp add: word_less_nat_alt unat_addr2ba)
qed

text \<open>The address checks compute \<open>addr + size\<close> in 64 bits, so the contract needs that it does not
  wrap.\<close>

lemma erase_block_range_wp:
  assumes i: "run_inv ni" and nowrap: "unat addr + unat sz < 2 ^ 64"
  shows "wp (nmbm_erase_block_range crc ni addr sz) (\<lambda>(ret, failed, n).
    if protected ni \<noteq> 0 \<or> has_flag ni NMBM_F_READ_ONLY then ret = - EROFS \<and> failed = None \<and> n = ni
    else if ba2addr ni (data_block_count ni) \<le> addr \<or> ba2addr ni (data_block_count ni) < addr + sz
    then ret = - EINVAL \<and> failed = None \<and> n = ni
    else if sz = 0 then ret = 0 \<and> failed = None \<and> n = ni
    else erase_range_result ni (addr2ba ni addr) (addr2ba ni (addr + sz - 1)) ret failed n)"
proof -
  have "addr2ba ni (addr + sz - 1) < data_block_count ni"
    if "\<not> ba2addr ni (data_block_count ni) < addr + sz" "sz \<noteq> 0"
  proof (rule addr2ba_less [OF run_inv_geom [OF i]])
    have "addr + sz \<noteq> 0" using that(2) nowrap
      by (metis add_is_0 unat_eq_zero unat_plus_u64)
    then have "addr + sz - 1 < addr + sz" by (simp add: word_less_nat_alt unat_down [of 0] word_neq_0_conv)
    with that(1) show "addr + sz - 1 < ba2addr ni (data_block_count ni)" by (simp add: not_less)
  qed
  then show ?thesis
    using erase_range_loop_wp [OF i] by (auto simp: nmbm_erase_block_range_def)
qed

section \<open>Reading and writing keep the contract\<close>

lemma block_offset:
  assumes "geom ni"
  shows "unat (ucast (addr AND ucast (erasesize_mask ni) :: u64) :: u32) = unat addr mod unat (erasesize (lower ni))"
    and "unat addr mod unat (erasesize (lower ni)) < unat (erasesize (lower ni))"
proof -
  show lt: "unat addr mod unat (erasesize (lower ni)) < unat (erasesize (lower ni))"
    using geom_sizes(2) [OF assms] by simp
  also have "\<dots> \<le> 2 ^ 31" by (rule geom_sizes(5) [OF assms])
  finally have "unat addr mod unat (erasesize (lower ni)) < 2 ^ 32" by simp
  then show "unat (ucast (addr AND ucast (erasesize_mask ni) :: u64) :: u32) = unat addr mod unat (erasesize (lower ni))"
    by (simp add: unsigned_ucast_eq block_offset_mod [OF assms] take_bit_nat_eq_self)
qed

lemma logic_page_in:
  assumes "geom ni" and "pb \<in> B"
  shows "ba2addr ni pb + ucast (ucast (addr AND ucast (erasesize_mask ni) :: u64) :: u32) \<in> in_blocks ni B"
  by (rule page_in_block [OF assms]) (simp add: block_offset [OF assms(1)])

lemma read_logic_evolves:
  "nmbm_read_logic_page ni addr data oob mode = (ret, data', oob', n) \<Longrightarrow> chip_evolves {} ni n"
  by (auto simp: nmbm_read_logic_page_def Let_def split: if_splits intro: read_phys_evolves)

lemma geom_evolves: "chip_evolves A ni n \<Longrightarrow> geom n = geom ni"
proof -
  assume "chip_evolves A ni n"
  then obtain d pc where "n = (set_chip d ni)\<lparr>page_cache := pc\<rparr>" by (auto simp: chip_evolves_def)
  then show ?thesis by (simp add: geom_def set_chip_def)
qed

lemma range_chunk_bounds:
  assumes "geom ni" and "sz \<noteq> 0"
  shows "unat (range_chunk ni (range_leading ni off) sz) =
      min (unat sz) (unat (writesize (lower ni)) - unat off mod unat (writesize (lower ni)))"
    "0 < unat (range_chunk ni (range_leading ni off) sz)"
    "range_chunk ni (range_leading ni off) sz \<le> sz"
proof -
  let ?w = "unat (writesize (lower ni))" and ?l = "range_leading ni off"
  have lt: "unat off mod ?w < ?w" using geom_sizes(1) [OF assms(1)] by simp
  have l: "unat ?l = unat off mod ?w" by (simp add: range_leading_def leading_mod [OF assms(1)])
  have sub: "unat (ucast (writesize (lower ni)) - ?l) = ?w - unat off mod ?w"
    using lt by (subst unat_minus_le) (simp_all add: word_le_nat_alt l)
  show m: "unat (range_chunk ni ?l sz) = min (unat sz) (?w - unat off mod ?w)"
    by (simp add: range_chunk_def Let_def word_less_nat_alt sub min_def)
  have "0 < unat sz" using assms(2) by (simp add: unat_gt_0)
  then show "0 < unat (range_chunk ni ?l sz)" using lt by (simp add: m)
  show "range_chunk ni ?l sz \<le> sz" by (simp add: word_le_nat_alt m)
qed

text \<open>Reading changes neither the chip nor the tables, and only a hard error stops it before the end.\<close>

definition hard_error :: "int \<Rightarrow> bool" where
  "hard_error ret \<longleftrightarrow> ret < 0 \<and> ret \<noteq> - EBADMSG"

definition read_range_result ::
  "'d nmbm_instance \<Rightarrow> u64 \<Rightarrow> int \<times> bool \<times> int \<times> u64 \<times> u8 list \<times> 'd nmbm_instance \<Rightarrow> bool" where
  "read_range_result ni sz r = (case r of (ret, ecc, bitflips, rest, data, n) \<Rightarrow>
     chip_evolves {} ni n \<and> rest \<le> sz \<and> 0 \<le> bitflips \<and> (if hard_error ret then rest \<noteq> 0 else rest = 0))"

lemma read_range_loop_wp:
  "geom ni \<Longrightarrow> 0 \<le> bf \<Longrightarrow> \<not> hard_error lr \<Longrightarrow>
   wp (read_range_loop ni off data pos sz mode ecc bf lr) (read_range_result ni sz)"
proof (induction "unat sz" arbitrary: ni off data pos sz ecc bf lr rule: less_induct)
  case less
  note g = less.prems(1)
  show ?case
  proof (cases "sz = 0")
    case True
    then show ?thesis using less.prems by (subst read_range_loop.simps) (auto simp: read_range_result_def)
  next
    case False
    let ?l = "range_leading ni off"
    let ?c = "range_chunk ni ?l sz"
    note c = range_chunk_bounds [OF g False, of off]
    have m: "unat (sz - ?c) < unat sz" using c by (intro unat_minus_less)
    have le: "sz - ?c \<le> sz" using m by (simp add: word_le_nat_alt)
    have step: "wp (if r < 0 \<and> r \<noteq> - EBADMSG then Some (r, ecc, bf, sz, d, nj)
           else read_range_loop nj (off + ?c) d (pos + unat ?c) (sz - ?c) mode (ecc \<or> r = - EBADMSG)
                  (if bf < r then r else bf) r) (read_range_result ni sz)"
      if e: "chip_evolves {} ni nj" for nj r d
    proof (cases "hard_error r")
      case True
      with e False less.prems(2) show ?thesis by (auto simp: hard_error_def read_range_result_def)
    next
      case nh: False
      have "wp (read_range_loop nj (off + ?c) d (pos + unat ?c) (sz - ?c) mode (ecc \<or> r = - EBADMSG)
                  (if bf < r then r else bf) r) (read_range_result nj (sz - ?c))"
        by (rule less.hyps [OF m]) (use g nh less.prems(2) in \<open>auto simp: geom_evolves [OF e]\<close>)
      then have "wp (read_range_loop nj (off + ?c) d (pos + unat ?c) (sz - ?c) mode (ecc \<or> r = - EBADMSG)
                  (if bf < r then r else bf) r) (read_range_result ni sz)"
        by (rule wp_mono) (use le in \<open>auto simp: read_range_result_def intro: chip_evolves_trans [OF e]\<close>)
      with nh show ?thesis by (auto simp: hard_error_def)
    qed
    obtain r1 d1 o1 n1 where 1: "nmbm_read_logic_page ni (off - ?l)
        (Some (slice pos (unat (writesize (lower ni))) data)) None mode = (r1, d1, o1, n1)" by (metis prod_cases4)
    obtain r2 d2 o2 n2 where 2: "nmbm_read_logic_page ni (off - ?l) (Some (cache_data ni)) None mode = (r2, d2, o2, n2)"
      by (metis prod_cases4)
    have e1: "chip_evolves {} ni n1" using 1 by (rule read_logic_evolves)
    have e2: "chip_evolves {} ni (n2\<lparr>page_cache := pc\<rparr>)" for pc
      using chip_evolves_trans [OF read_logic_evolves [OF 2] chip_evolves_page_cache] .
    show ?thesis
    proof (cases "?c = ucast (writesize (lower ni))")
      case True
      show ?thesis
        by (subst read_range_loop.simps)
          (simp only: False Let_def if_P [OF True] 1 prod.case simp_thms if_True, rule step [OF e1])
    next
      case part: False
      show ?thesis
        by (subst read_range_loop.simps, simp only: False Let_def if_not_P [OF part] 2 prod.case simp_thms if_True)
          (cases "r2 < 0 \<and> r2 \<noteq> - EBADMSG"; simp only: prod.case if_True if_False simp_thms; use step [OF e2, of r2] in force)
    qed
  qed
qed

lemma read_range_wp:
  assumes g: "geom ni"
  shows "wp (nmbm_read_range ni addr sz data mode) (\<lambda>(ret, data', retlen, n). chip_evolves {} ni n \<and>
    (case retlen of None \<Rightarrow> n = ni \<and> data' = data
     | Some len \<Rightarrow> len \<le> sz \<and> (len = sz \<longleftrightarrow> \<not> hard_error ret)))"
proof -
  have sub: "sz - rest \<le> sz" "sz - rest = sz \<longleftrightarrow> rest = 0" if "rest \<le> sz" for rest :: u64
    using that by (simp_all add: word_le_nat_alt unat_minus_le)
  have "wp (read_range_loop ni addr data 0 sz mode False 0 0)
    (\<lambda>(ret, ecc, bf, rest, data', n). chip_evolves {} ni n \<and> sz - rest \<le> sz \<and> 0 \<le> bf \<and>
       (sz - rest = sz \<longleftrightarrow> \<not> hard_error ret))"
  proof (rule wp_mono [OF read_range_loop_wp [OF g]])
    fix r assume r: "read_range_result ni sz r"
    obtain ret ecc bf rest d n where [simp]: "r = (ret, ecc, bf, rest, d, n)" by (metis prod_cases6)
    have "rest \<le> sz" using r by (simp add: read_range_result_def)
    from r sub [OF this] show "case r of (ret, ecc, bf, rest, data', n) \<Rightarrow>
      chip_evolves {} ni n \<and> sz - rest \<le> sz \<and> 0 \<le> bf \<and> (sz - rest = sz \<longleftrightarrow> \<not> hard_error ret)"
      by (simp only: read_range_result_def prod.case \<open>r = _\<close>) (cases "hard_error ret", simp_all)
  qed (simp_all add: hard_error_def)
  then have "wp (read_range_loop ni addr data 0 sz mode False 0 0) (\<lambda>(ret, ecc, bf, rest, data', n).
      chip_evolves {} ni n \<and> sz - rest \<le> sz \<and>
      (sz - rest = sz \<longleftrightarrow> \<not> hard_error (if ret < 0 \<and> ret \<noteq> - EBADMSG then ret
              else if ecc then - EBADMSG else bf)))"
    by (rule wp_mono) (auto simp: hard_error_def split: if_splits)
  then show ?thesis
    by (simp add: nmbm_read_range_def chip_evolves_refl)
qed

lemma write_phys_runs:
  assumes "run_inv ni" "addr \<in> in_blocks ni (below_signature ni)"
    and "nmbm_write_phys_page ni addr data oob mode = (ok, n)"
  shows "runs ni n" "block_mapping n = block_mapping ni"
    "nmbm_get_block_state n a = nmbm_get_block_state ni a"
proof -
  have e: "chip_evolves (in_blocks ni (below_signature ni)) ni n"
    by (rule write_phys_evolves [OF assms(2,3)])
  show "runs ni n" by (rule runs_chip [OF assms(1) e])
  show "block_mapping n = block_mapping ni" by (rule worn_frame(13) [OF worn_chip [OF e]])
  show "nmbm_get_block_state n a = nmbm_get_block_state ni a" using e by (auto simp: chip_evolves_def)
qed

lemma panic_phys_runs:
  assumes "run_inv ni" "addr \<in> in_blocks ni (below_signature ni)"
    and "nmbm_panic_write_phys_page ni addr data = (ok, n)"
  shows "runs ni n" "block_mapping n = block_mapping ni"
    "nmbm_get_block_state n a = nmbm_get_block_state ni a"
proof -
  have e: "chip_evolves (in_blocks ni (below_signature ni)) ni n"
    by (rule panic_phys_evolves [OF assms(2,3)])
  show "runs ni n" by (rule runs_chip [OF assms(1) e])
  show "block_mapping n = block_mapping ni" by (rule worn_frame(13) [OF worn_chip [OF e]])
  show "nmbm_get_block_state n a = nmbm_get_block_state ni a" using e by (auto simp: chip_evolves_def)
qed

text \<open>What a page write promises; a failing block is recorded for remapping.\<close>

definition page_result :: "'d nmbm_instance \<Rightarrow> int \<Rightarrow> 'd nmbm_instance \<Rightarrow> bool" where
  "page_result ni ret n \<longleftrightarrow> runs ni n \<and> block_mapping n = block_mapping ni \<and> (ret = 0 \<or> ret = - EIO)"

lemma write_failed_wp:
  assumes r: "runs ni n" "block_mapping n = block_mapping ni" and pb: "pb < signature_ba ni"
    and st: "nmbm_get_block_state n pb \<noteq> BLOCK_ST_BAD"
  shows "wp (do {
      let n = set_block_state n pb BLOCK_ST_NEED_REMAP;
      (_, n) \<leftarrow> nmbm_update_info_table crc n;
      Some (- EIO, n) }) (\<lambda>(ret, n). page_result ni ret n)"
proof -
  have r2: "runs n (set_block_state n pb BLOCK_ST_NEED_REMAP)"
    by (rule runs_set_state) (use r pb st in \<open>simp_all add: runs_inv [OF r(1)] runs_sig [OF r(1)]\<close>)
  show ?thesis
    unfolding Let_def wp_bind
    by (rule wp_mono [OF runs_update [OF runs_inv [OF r2]]])
      (use r r2 in \<open>auto simp: page_result_def intro: runs_trans\<close>)
qed

lemma write_logic_page_wp:
  assumes i: "run_inv ni" and lb: "addr2ba ni addr < data_block_count ni"
  shows "wp (nmbm_write_logic_page crc ni addr data oob mode) (\<lambda>(ret, n). page_result ni ret n)"
proof -
  let ?pb = "block_mapping ni ! unat (addr2ba ni addr)"
  let ?a = "ba2addr ni ?pb + ucast (ucast (addr AND ucast (erasesize_mask ni) :: u64) :: u32)"
  obtain ok n where w: "nmbm_write_phys_page ni ?a data oob mode = (ok, n)" by fastforce
  show ?thesis
  proof (cases "sint ?pb < 0 \<or> nmbm_get_block_state ni ?pb = BLOCK_ST_BAD")
    case True
    then show ?thesis using i by (auto simp: nmbm_write_logic_page_def Let_def page_result_def runs_refl)
  next
    case False
    then have pb: "?pb < signature_ba ni" using run_inv_mapped [OF i lb] by blast
    then have "?a \<in> in_blocks ni (below_signature ni)"
      by (intro logic_page_in [OF run_inv_geom [OF i]]) (simp add: below_signature_def)
    note r = write_phys_runs [OF i this w]
    have "nmbm_get_block_state n ?pb \<noteq> BLOCK_ST_BAD" using False r(3) by simp
    from write_failed_wp [OF r(1,2) pb this] r(1,2) False show ?thesis
      by (simp add: nmbm_write_logic_page_def Let_def w page_result_def)
  qed
qed

lemma panic_write_logic_page_wp:
  assumes i: "run_inv ni" and lb: "addr2ba ni addr < data_block_count ni"
  shows "wp (nmbm_panic_write_logic_page crc ni addr data) (\<lambda>(ret, n).
    if panic_write_page (lower ni) = None then ret = - ENOTSUPP \<and> n = ni else page_result ni ret n)"
proof -
  let ?pb = "block_mapping ni ! unat (addr2ba ni addr)"
  let ?a = "ba2addr ni ?pb + ucast (ucast (addr AND ucast (erasesize_mask ni) :: u64) :: u32)"
  obtain ok n where w: "nmbm_panic_write_phys_page ni ?a data = (ok, n)" by fastforce
  show ?thesis
  proof (cases "panic_write_page (lower ni) = None \<or> sint ?pb < 0 \<or> nmbm_get_block_state ni ?pb = BLOCK_ST_BAD")
    case True
    then show ?thesis using i by (auto simp: nmbm_panic_write_logic_page_def Let_def page_result_def runs_refl)
  next
    case False
    then have pb: "?pb < signature_ba ni" using run_inv_mapped [OF i lb] by blast
    then have "?a \<in> in_blocks ni (below_signature ni)"
      by (intro logic_page_in [OF run_inv_geom [OF i]]) (simp add: below_signature_def)
    note r = panic_phys_runs [OF i this w]
    have "nmbm_get_block_state n ?pb \<noteq> BLOCK_ST_BAD" using False r(3) by simp
    from write_failed_wp [OF r(1,2) pb this] r(1,2) False
    have "wp (nmbm_panic_write_logic_page crc ni addr data) (\<lambda>(ret, n). page_result ni ret n)"
      by (simp add: nmbm_panic_write_logic_page_def Let_def w page_result_def)
    then show ?thesis by (rule wp_pair) (use False in auto)
  qed
qed

text \<open>The range write stops at the first page that fails.\<close>

definition write_range_result :: "'d nmbm_instance \<Rightarrow> u64 \<Rightarrow> int \<times> u64 \<times> 'd nmbm_instance \<Rightarrow> bool" where
  "write_range_result ni sz r = (case r of (ret, rest, n) \<Rightarrow>
     runs ni n \<and> block_mapping n = block_mapping ni \<and> rest \<le> sz \<and>
     (ret = 0 \<and> rest = 0 \<or> ret = - EIO \<and> rest \<noteq> 0))"

lemma write_range_loop_wp:
  "run_inv ni \<Longrightarrow> unat off + unat sz \<le> unat (ba2addr ni (data_block_count ni)) \<Longrightarrow>
   wp (write_range_loop crc ni off data pos sz mode) (write_range_result ni sz)"
proof (induction "unat sz" arbitrary: ni off pos sz rule: less_induct)
  case less
  note i = less.prems(1)
  show ?case
  proof (cases "sz = 0")
    case True
    then show ?thesis using i by (subst write_range_loop.simps) (simp add: write_range_result_def runs_refl)
  next
    case False
    let ?l = "range_leading ni off"
    let ?c = "range_chunk ni ?l sz"
    note c = range_chunk_bounds [OF run_inv_geom [OF i] False, of off]
    have m: "unat (sz - ?c) < unat sz" using c by (intro unat_minus_less)
    have le: "sz - ?c \<le> sz" "unat ?c \<le> unat sz" using m c(3) by (simp_all add: word_le_nat_alt)
    have "0 < unat sz" using False by (simp add: unat_gt_0)
    have "unat ?l \<le> unat off" by (simp add: range_leading_def leading_mod [OF run_inv_geom [OF i]])
    then have "unat (off - ?l) \<le> unat off" by (subst unat_minus_le) (simp_all add: word_le_nat_alt)
    then have lb: "addr2ba ni (off - ?l) < data_block_count ni"
      using less.prems(2) \<open>0 < unat sz\<close>
      by (intro addr2ba_less [OF run_inv_geom [OF i]]) (simp add: word_less_nat_alt)
    have rest: "wp (if r \<noteq> 0 then Some (r, sz, nj)
        else write_range_loop crc nj (off + ?c) data (pos + unat ?c) (sz - ?c) mode) (write_range_result ni sz)"
      if p: "page_result ni r nj" for r nj
    proof -
      have rn: "runs ni nj" using p by (simp add: page_result_def)
      have "unat off + unat sz < 2 ^ 64" using less.prems(2) unsigned_less [of "ba2addr ni (data_block_count ni)", where ?'a = nat] by simp
      then have "unat (off + ?c) = unat off + unat ?c" using le by (intro unat_plus_u64) simp
      then have "unat (off + ?c) + unat (sz - ?c) = unat off + unat sz"
        using c(3) le by (simp add: unat_minus_le)
      then have "wp (write_range_loop crc nj (off + ?c) data (pos + unat ?c) (sz - ?c) mode) (write_range_result nj (sz - ?c))"
        using less.prems(2)
        by (intro less.hyps [OF m runs_inv [OF rn]]) (simp add: runs_ba2addr [OF rn] runs_dbc [OF rn])
      then have "wp (write_range_loop crc nj (off + ?c) data (pos + unat ?c) (sz - ?c) mode) (write_range_result ni sz)"
        by (rule wp_mono) (use p le in \<open>auto simp: write_range_result_def page_result_def intro: runs_trans order_trans\<close>)
      then show ?thesis using p False by (auto simp: write_range_result_def page_result_def)
    qed
    have full: "wp (nmbm_write_logic_page crc ni (off - ?l) d o' mode) (\<lambda>(r, n). wp (if r \<noteq> 0 then Some (r, sz, n)
        else write_range_loop crc n (off + ?c) data (pos + unat ?c) (sz - ?c) mode) (write_range_result ni sz))" for d o'
      by (rule wp_pair [OF write_logic_page_wp [OF i lb]]) (rule rest)
    have part: "wp (nmbm_write_logic_page crc (ni\<lparr>page_cache := pc\<rparr>) (off - ?l) d o' mode) (\<lambda>(r, n). wp (if r \<noteq> 0 then Some (r, sz, n)
        else write_range_loop crc n (off + ?c) data (pos + unat ?c) (sz - ?c) mode) (write_range_result ni sz))" for pc d o'
    proof -
      have rp: "runs ni (ni\<lparr>page_cache := pc\<rparr>)" by (rule runs_worn [OF i page_cache_worn])
      show ?thesis
      proof (rule wp_pair [OF write_logic_page_wp [OF runs_inv [OF rp]]])
        show "addr2ba (ni\<lparr>page_cache := pc\<rparr>) (off - ?l) < data_block_count (ni\<lparr>page_cache := pc\<rparr>)"
          using lb by (simp add: addr2ba_def)
      next
        fix r n assume "page_result (ni\<lparr>page_cache := pc\<rparr>) r n"
        then have "page_result ni r n" using rp by (auto simp: page_result_def intro: runs_trans)
        then show "wp (if r \<noteq> 0 then Some (r, sz, n)
          else write_range_loop crc n (off + ?c) data (pos + unat ?c) (sz - ?c) mode) (write_range_result ni sz)"
          by (rule rest)
      qed
    qed
    show ?thesis
      by (subst write_range_loop.simps; cases "?c = ucast (writesize (lower ni))")
        (use full part in \<open>simp_all add: False Let_def\<close>)
  qed
qed

lemma write_range_wp:
  assumes i: "run_inv ni" and nowrap: "unat addr + unat sz < 2 ^ 64"
  shows "wp (nmbm_write_range crc ni addr sz data mode) (\<lambda>(ret, retlen, n).
    if protected ni \<noteq> 0 \<or> has_flag ni NMBM_F_READ_ONLY then ret = - EROFS \<and> retlen = None \<and> n = ni
    else if ba2addr ni (data_block_count ni) \<le> addr \<or> ba2addr ni (data_block_count ni) < addr + sz
    then ret = - EINVAL \<and> retlen = None \<and> n = ni
    else if sz = 0 then ret = 0 \<and> retlen = None \<and> n = ni
    else runs ni n \<and> block_mapping n = block_mapping ni \<and>
      (\<exists>len. retlen = Some len \<and> (ret = 0 \<and> len = sz \<or> ret = - EIO \<and> len < sz)))"
proof -
  have sub: "sz - rest < sz" if "rest \<le> sz" "rest \<noteq> 0" for rest :: u64
    using that unat_minus_less [of rest sz] by (simp add: word_less_nat_alt unat_gt_0)
  have "wp (write_range_loop crc ni addr data 0 sz mode) (\<lambda>(ret, rest, n). runs ni n \<and>
      block_mapping n = block_mapping ni \<and> (ret = 0 \<and> rest = 0 \<or> ret = - EIO \<and> sz - rest < sz))"
    if "\<not> ba2addr ni (data_block_count ni) < addr + sz"
  proof (rule wp_mono [OF write_range_loop_wp [OF i]])
    show "unat addr + unat sz \<le> unat (ba2addr ni (data_block_count ni))"
      using that by (simp add: word_less_nat_alt unat_plus_u64 [OF nowrap])
  next
    fix r assume "write_range_result ni sz r"
    then show "case r of (ret, rest, n) \<Rightarrow> runs ni n \<and>
      block_mapping n = block_mapping ni \<and> (ret = 0 \<and> rest = 0 \<or> ret = - EIO \<and> sz - rest < sz)"
      by (cases r) (auto simp: write_range_result_def sub)
  qed
  then show ?thesis
    by (auto simp: nmbm_write_range_def elim!: wp_mono)
qed

section \<open>Bad blocks\<close>

text \<open>Marking a logic block bad unmaps it and retires the block it was mapped to.\<close>

lemma mark_bad_block_wp:
  assumes i: "run_inv ni"
  shows "wp (nmbm_mark_bad_block crc ni addr) (\<lambda>(ret, n). let lb = addr2ba ni addr in
    if protected ni \<noteq> 0 \<or> has_flag ni NMBM_F_READ_ONLY then ret = - EROFS \<and> n = ni
    else if ba2addr ni (data_block_count ni) \<le> addr then ret = - EINVAL \<and> n = ni
    else ret = 0 \<and> runs ni n \<and> same_others lb ni n \<and> \<not> mapped n lb \<and> nmbm_check_bad_block n addr = 1)"
proof (cases "protected ni \<noteq> 0 \<or> has_flag ni NMBM_F_READ_ONLY \<or> ba2addr ni (data_block_count ni) \<le> addr")
  case True
  then show ?thesis by (auto simp: nmbm_mark_bad_block_def Let_def)
next
  case False
  let ?lb = "addr2ba ni addr"
  let ?pb = "block_mapping ni ! unat ?lb"
  have lb: "?lb < data_block_count ni"
    using False by (intro addr2ba_less [OF run_inv_geom [OF i]]) (simp add: not_le)
  have chk: "nmbm_check_bad_block n addr = 1" if "runs ni n" "\<not> mapped n ?lb" for n
  proof -
    have "addr2ba n addr = ?lb" using run_step_frame(5) [OF runs_frame(1) [OF that(1)]] by (simp add: addr2ba_def)
    with that False show ?thesis
      by (simp add: nmbm_check_bad_block_def Let_def mapped_def runs_ba2addr runs_dbc [OF that(1)])
  qed
  show ?thesis
  proof (cases "sint ?pb < 0")
    case True
    then show ?thesis
      using False i chk [OF runs_refl [OF i]]
      by (simp add: nmbm_mark_bad_block_def Let_def runs_refl same_others_refl mapped_def)
  next
    case m: False
    note pb = run_inv_mapped [OF i lb m]
    define n1 where "n1 = ni\<lparr>block_mapping := (block_mapping ni)[unat ?lb := -1]\<rparr>"
    have r1: "runs ni n1" unfolding n1_def by (rule runs_unmap [OF i lb])
    have "unat ?lb < length (block_mapping ni)" by (rule run_inv_index [OF i lb])
    then have m1: "same_others ?lb ni n1" "\<not> mapped n1 ?lb" by (simp_all add: n1_def same_others_def mapped_def)
    have "wp (retire_block n1 ?pb) (\<lambda>n. wp (nmbm_update_info_table crc n)
        (\<lambda>(_, n). runs ni n \<and> same_others ?lb ni n \<and> \<not> mapped n ?lb))"
    proof (rule wp_mono [OF retire_runs [OF runs_inv [OF r1]]])
      show "?pb < signature_ba n1" by (simp add: runs_sig [OF r1] pb)
    next
      fix n2 assume a: "runs n1 n2 \<and> block_mapping n2 = block_mapping n1"
      then have r2: "runs ni n2" using r1 by (blast intro: runs_trans)
      show "wp (nmbm_update_info_table crc n2) (\<lambda>(_, n). runs ni n \<and> same_others ?lb ni n \<and> \<not> mapped n ?lb)"
        by (rule wp_pair [OF runs_update [OF runs_inv [OF r2]]])
          (use a m1 r2 in \<open>auto simp: same_others_def mapped_def intro: runs_trans\<close>)
    qed
    then have "wp (retire_block n1 ?pb) (\<lambda>n. wp (nmbm_update_info_table crc n)
        (\<lambda>(_, n). runs ni n \<and> same_others ?lb ni n \<and> \<not> mapped n ?lb \<and> nmbm_check_bad_block n addr = 1))"
      by (elim wp_mono) (auto simp: chk)
    then show ?thesis
      using False m by (simp add: nmbm_mark_bad_block_def Let_def n1_def)
  qed
qed

section \<open>What a read returns\<close>

text \<open>A chip that reads back its contents without errors: \<open>page d a\<close> is the page at \<open>a\<close> when the
  chip is in state \<open>d\<close>.\<close>

definition reads_pages :: "'d nmbm_lower_device \<Rightarrow> ('d \<Rightarrow> u64 \<Rightarrow> u8 list) \<Rightarrow> bool" where
  "reads_pages l page \<longleftrightarrow>
     (\<forall>d a. length (page d a) = unat (writesize l)) \<and>
     (\<forall>d a buf mode. the (read_page l) d a (Some buf) None mode = (0, Some (page d a), None, d))"

text \<open>Reading one byte at a time: the byte at logic address \<open>x\<close>.\<close>

definition phys_addr :: "'d nmbm_instance \<Rightarrow> u64 \<Rightarrow> u64" where
  "phys_addr ni x = ba2addr ni (block_mapping ni ! unat (addr2ba ni x))
     + ucast (ucast (x AND ucast (erasesize_mask ni)) :: u32)"

definition logic_byte :: "'d nmbm_instance \<Rightarrow> ('d \<Rightarrow> u64 \<Rightarrow> u8 list) \<Rightarrow> u64 \<Rightarrow> u8" where
  "logic_byte ni page x =
     (let leading = range_leading ni x
      in page (chip ni) (phys_addr ni (x - leading)) ! unat leading)"

definition readable :: "'d nmbm_instance \<Rightarrow> u64 \<Rightarrow> bool" where
  "readable ni x \<longleftrightarrow> (let pb = block_mapping ni ! unat (addr2ba ni x)
     in 0 \<le> sint pb \<and> nmbm_get_block_state ni pb \<noteq> BLOCK_ST_BAD)"

lemma read_phys_page_reads:
  "reads_pages (lower ni) page \<Longrightarrow>
   nmbm_read_phys_page ni a (Some buf) None mode = (0, Some (page (chip ni) a), None, ni)"
  by (simp add: nmbm_read_phys_page_def eval_nat_numeral lower_read_page_def reads_pages_def)

lemma read_logic_page_reads:
  "reads_pages (lower ni) page \<Longrightarrow> readable ni x \<Longrightarrow>
   nmbm_read_logic_page ni x (Some buf) None mode = (0, Some (page (chip ni) (phys_addr ni x)), None, ni)"
  by (simp add: nmbm_read_logic_page_def readable_def Let_def read_phys_page_reads phys_addr_def not_less)

lemma range_leading_mod: "geom ni \<Longrightarrow> unat (range_leading ni x) = unat x mod unat (writesize (lower ni))"
  by (simp add: range_leading_def leading_mod)

lemma page_start_step:
  assumes g: "geom ni" and i: "unat off mod unat (writesize (lower ni)) + i < unat (writesize (lower ni))"
    and nw: "unat off + i < 2 ^ 64"
  shows "unat (range_leading ni (off + of_nat i)) = unat (range_leading ni off) + i"
    "(off + of_nat i) - range_leading ni (off + of_nat i) = off - range_leading ni off"
proof -
  let ?w = "unat (writesize (lower ni))"
  have ui: "unat (of_nat i :: u64) = i" using nw by (simp add: unat_of_nat)
  then have u: "unat (off + of_nat i) = unat off + i" using nw by (subst unat_plus_u64) simp_all
  have "(unat off + i) mod ?w = (unat off mod ?w + i) mod ?w" by (simp add: mod_add_left_eq)
  also have "\<dots> = unat off mod ?w + i" using i by simp
  finally show *: "unat (range_leading ni (off + of_nat i)) = unat (range_leading ni off) + i"
    by (simp add: range_leading_mod [OF g] u)
  have "unat off mod ?w \<le> unat off" by (rule mod_less_eq_dividend)
  then have "unat off mod ?w + i < 2 ^ 64" using nw by linarith
  then have "unat (range_leading ni off) + unat (of_nat i :: u64) < 2 ^ 64"
    by (simp only: range_leading_mod [OF g] ui)
  then have "range_leading ni (off + of_nat i) = range_leading ni off + of_nat i"
    using * ui by (subst word_unat_eq_iff, subst unat_plus_u64) simp_all
  then show "(off + of_nat i) - range_leading ni (off + of_nat i) = off - range_leading ni off" by simp
qed

text \<open>The bytes of one chunk.\<close>

lemma chunk_in_page:
  assumes g: "geom ni" and nz: "sz \<noteq> 0"
  shows "unat (range_leading ni off) + unat (range_chunk ni (range_leading ni off) sz) \<le> unat (writesize (lower ni))"
    "unat (range_chunk ni (range_leading ni off) sz) \<le> unat sz"
proof -
  have "unat off mod unat (writesize (lower ni)) < unat (writesize (lower ni))"
    using geom_sizes(1) [OF g] by simp
  then show "unat (range_leading ni off) + unat (range_chunk ni (range_leading ni off) sz) \<le> unat (writesize (lower ni))"
    using range_chunk_bounds(1) [OF g nz, of off] unfolding range_leading_mod [OF g] by linarith
  show "unat (range_chunk ni (range_leading ni off) sz) \<le> unat sz"
    using range_chunk_bounds(1) [OF g nz, of off] by linarith
qed

lemma chunk_bytes:
  assumes g: "geom ni" and p: "reads_pages (lower ni) page" and nz: "sz \<noteq> 0"
    and nw: "unat off + unat sz < 2 ^ 64"
  shows "slice (unat (range_leading ni off)) (unat (range_chunk ni (range_leading ni off) sz))
      (page (chip ni) (phys_addr ni (off - range_leading ni off))) =
    map (\<lambda>i. logic_byte ni page (off + of_nat i)) [0..<unat (range_chunk ni (range_leading ni off) sz)]"
proof -
  let ?w = "unat (writesize (lower ni))" and ?l = "unat (range_leading ni off)"
    and ?c = "unat (range_chunk ni (range_leading ni off) sz)"
    and ?p = "page (chip ni) (phys_addr ni (off - range_leading ni off))"
  note c = range_chunk_bounds [OF g nz, of off]
  have le: "?l + ?c \<le> ?w" "?c \<le> unat sz" by (rule chunk_in_page [OF g nz])+
  have len: "length ?p = ?w" using p by (simp add: reads_pages_def)
  show ?thesis
  proof (rule nth_equalityI)
    show "length (slice ?l ?c ?p) = length (map (\<lambda>i. logic_byte ni page (off + of_nat i)) [0..<?c])"
      using le len by simp
  next
    fix i assume "i < length (slice ?l ?c ?p)"
    then have i: "i < ?c" using le len by simp
    note st = page_start_step [OF g, of off i]
    have "unat off mod ?w + i < ?w" using i le by (simp add: range_leading_mod [OF g])
    note st = page_start_step [OF g this]
    have "unat off + i < 2 ^ 64" using i le nw by linarith
    note st = st [OF this]
    have "slice ?l ?c ?p ! i = ?p ! (?l + i)" using i le len by (simp add: slice_def)
    moreover have "logic_byte ni page (off + of_nat i) = ?p ! (?l + i)"
      by (simp only: logic_byte_def Let_def st)
    ultimately show "slice ?l ?c ?p ! i = map (\<lambda>i. logic_byte ni page (off + of_nat i)) [0..<?c] ! i"
      using i by simp
  qed
qed

lemma logic_byte_cache [simp]:
  "logic_byte (ni\<lparr>page_cache := pc\<rparr>) page x = logic_byte ni page x"
  "readable (ni\<lparr>page_cache := pc\<rparr>) x = readable ni x"
  by (simp_all add: logic_byte_def phys_addr_def range_leading_def ba2addr_def addr2ba_def readable_def)

lemma geom_cache [simp]: "geom (ni\<lparr>page_cache := pc\<rparr>) = geom ni"
  by (simp add: geom_def)

lemma memcpy_append: "length d = n + k + m \<Longrightarrow> length s = k \<Longrightarrow>
   take (n + k) (memcpy_at d n s) = take n d @ s"
  by (simp add: memcpy_at_def)

lemma read_range_loop_reads:
  "geom ni \<Longrightarrow> reads_pages (lower ni) page \<Longrightarrow> unat off + unat sz < 2 ^ 64 \<Longrightarrow>
   (\<And>x. off - range_leading ni off \<le> x \<Longrightarrow> x < off + sz \<Longrightarrow> readable ni x) \<Longrightarrow> length data = pos + unat sz \<Longrightarrow> 0 \<le> bf \<Longrightarrow>
   \<exists>pc. read_range_loop ni off data pos sz mode False bf 0 =
     Some (0, False, bf, 0, take pos data @ map (\<lambda>i. logic_byte ni page (off + of_nat i)) [0..<unat sz], ni\<lparr>page_cache := pc\<rparr>)"
proof (induction "unat sz" arbitrary: ni off data pos sz rule: less_induct)
  case less
  note g = less.prems(1) and p = less.prems(2) and nw = less.prems(3) and rd = less.prems(4) and len = less.prems(5)
  show ?case
  proof (cases "sz = 0")
    case True
    then show ?thesis
      using len by (subst read_range_loop.simps) (auto intro!: exI [of _ "page_cache ni"])
  next
    case nz: False
    let ?l = "range_leading ni off" and ?w = "unat (writesize (lower ni))"
    let ?c = "range_chunk ni ?l sz"
    let ?P = "page (chip ni) (phys_addr ni (off - ?l))"
    let ?B = "\<lambda>n. map (\<lambda>i. logic_byte ni page (off + of_nat i)) [0..<n]"
    note c = range_chunk_bounds [OF g nz, of off]
    have le: "unat ?c \<le> unat sz" using c(3) by (simp add: word_le_nat_alt)
    have m: "unat (sz - ?c) < unat sz" using c by (intro unat_minus_less)
    have us: "unat (sz - ?c) = unat sz - unat ?c" by (rule unat_minus_le [OF c(3)])
    have uo: "unat (off + ?c) = unat off + unat ?c" using le nw by (intro unat_plus_u64) simp
    have "0 < unat sz" using nz by (simp add: unat_gt_0)
    have "off - ?l < off + sz"
    proof -
      have "unat (off - ?l) \<le> unat off"
        by (subst unat_minus_le) (simp_all add: word_le_nat_alt range_leading_mod [OF g])
      then show ?thesis using nw \<open>0 < unat sz\<close> by (simp add: word_less_nat_alt unat_plus_u64)
    qed
    then have r: "readable ni (off - ?l)" using rd by simp
    have call: "nmbm_read_logic_page ni (off - ?l) (Some buf) None mode = (0, Some ?P, None, ni)" for buf
      by (rule read_logic_page_reads [OF p r])
    note bytes = chunk_bytes [OF g p nz nw]
    have plen: "length ?P = ?w" using p by (simp add: reads_pages_def)
    have rest: "\<exists>pc'. read_range_loop (ni\<lparr>page_cache := pc\<rparr>) (off + ?c) d (pos + unat ?c) (sz - ?c) mode False bf 0 =
        Some (0, False, bf, 0, take pos data @ ?B (unat sz), ni\<lparr>page_cache := pc'\<rparr>)"
      if d: "length d = length data" "take (pos + unat ?c) d = take pos data @ ?B (unat ?c)" for pc d
    proof -
      have "readable (ni\<lparr>page_cache := pc\<rparr>) x"
        if "(off + ?c) - range_leading (ni\<lparr>page_cache := pc\<rparr>) (off + ?c) \<le> x" "x < off + ?c + (sz - ?c)" for x
      proof -
        have "off - ?l \<le> (off + ?c) - range_leading ni (off + ?c)"
        proof -
          have dm: "unat z - unat z mod ?w = ?w * (unat z div ?w)" for z :: u64 by (simp add: minus_mod_eq_mult_div)
          have a: "unat (z - range_leading ni z) = ?w * (unat z div ?w)" for z
            by (subst unat_minus_le) (simp_all add: word_le_nat_alt range_leading_mod [OF g] dm)
          have "unat off div ?w \<le> unat (off + ?c) div ?w" by (rule div_le_mono) (simp add: uo)
          then show ?thesis by (simp add: word_le_nat_alt a)
        qed
        moreover have "range_leading (ni\<lparr>page_cache := pc\<rparr>) z = range_leading ni z" for z by (simp add: range_leading_def)
        ultimately show ?thesis using that rd [of x] by simp
      qed
      then obtain pc' where e: "read_range_loop (ni\<lparr>page_cache := pc\<rparr>) (off + ?c) d (pos + unat ?c) (sz - ?c) mode False bf 0 =
         Some (0, False, bf, 0, take (pos + unat ?c) d @
           map (\<lambda>i. logic_byte (ni\<lparr>page_cache := pc\<rparr>) page (off + ?c + of_nat i)) [0..<unat (sz - ?c)], ni\<lparr>page_cache := pc\<rparr>\<lparr>page_cache := pc'\<rparr>)"
        using less.hyps [OF m, of "ni\<lparr>page_cache := pc\<rparr>" "off + ?c" d "pos + unat ?c"] g p nw len le d(1) us uo less.prems(6)
        by auto
      have "?B (unat sz) = ?B (unat ?c) @ map (\<lambda>i. logic_byte ni page (off + ?c + of_nat i)) [0..<unat (sz - ?c)]"
      proof -
        have "[0..<unat sz] = [0..<unat ?c] @ map (\<lambda>i. i + unat ?c) [0..<unat (sz - ?c)]"
          using le upt_add_eq_append [of 0 "unat ?c" "unat sz - unat ?c"] by (simp only: us map_add_upt) simp
        then show ?thesis by (simp add: ac_simps)
      qed
      with e d(2) show ?thesis by auto
    qed
    show ?thesis
    proof (cases "?c = ucast (writesize (lower ni))")
      case True
      then have cw: "unat ?c = ?w" by simp
      then have "unat ?l = 0" using c(1) geom_sizes(1) [OF g] by (simp add: range_leading_mod [OF g] min_def split: if_splits)
      then have PB: "?P = ?B (unat ?c)" using bytes plen cw by (simp add: slice_def)
      have "take (pos + unat ?c) (memcpy_at data pos ?P) = take pos data @ ?P"
        using memcpy_append [of data pos "unat ?c" "unat (sz - ?c)" ?P] len le us plen cw by simp
      then have "take (pos + unat ?c) (memcpy_at data pos ?P) = take pos data @ ?B (unat ?c)"
        by (rule trans) (rule arg_cong [OF PB])
      moreover have "length (memcpy_at data pos ?P) = length data" using len le cw plen by simp
      ultimately obtain pc' where "read_range_loop (ni\<lparr>page_cache := page_cache ni\<rparr>) (off + ?c) (memcpy_at data pos ?P) (pos + unat ?c) (sz - ?c) mode False bf 0 =
        Some (0, False, bf, 0, take pos data @ ?B (unat sz), ni\<lparr>page_cache := pc'\<rparr>)" using rest by blast
      then show ?thesis
        using less.prems(6)
        by (subst read_range_loop.simps) (simp only: nz Let_def if_P [OF True] call prod.case, simp, blast)
    next
      case part: False
      let ?pc = "memcpy_at (page_cache ni) 0 ?P"
      have "?pc = ?P @ drop ?w (page_cache ni)" using plen by (simp add: memcpy_at_def)
      moreover have "unat ?l + unat ?c \<le> ?w" by (rule chunk_in_page(1) [OF g nz])
      ultimately have s: "slice (unat ?l) (unat ?c) ?pc = ?B (unat ?c)"
        using bytes plen by (simp add: slice_def)
      let ?d = "memcpy_at data pos (slice (unat ?l) (unat ?c) ?pc)"
      have "take (pos + unat ?c) ?d = take pos data @ ?B (unat ?c)" "length ?d = length data"
        using memcpy_append [of data pos "unat ?c" "unat (sz - ?c)" "?B (unat ?c)"] len le us by (simp_all add: s)
      then obtain pc' where "read_range_loop (ni\<lparr>page_cache := ?pc\<rparr>) (off + ?c) ?d (pos + unat ?c) (sz - ?c) mode False bf 0 =
        Some (0, False, bf, 0, take pos data @ ?B (unat sz), ni\<lparr>page_cache := pc'\<rparr>)" using rest by blast
      then show ?thesis
        using less.prems(6)
        by (subst read_range_loop.simps) (simp only: nz Let_def if_not_P [OF part] call prod.case, simp, blast)
    qed
  qed
qed

lemma read_range_reads:
  assumes g: "geom ni" and p: "reads_pages (lower ni) page" and pr: "protected ni = 0" and nz: "sz \<noteq> 0"
    and lim: "addr < ba2addr ni (data_block_count ni)" "\<not> ba2addr ni (data_block_count ni) < addr + sz"
    and nw: "unat addr + unat sz < 2 ^ 64" and len: "length data = unat sz"
    and rd: "\<And>x. addr - range_leading ni addr \<le> x \<Longrightarrow> x < addr + sz \<Longrightarrow> readable ni x"
  shows "\<exists>pc. nmbm_read_range ni addr sz data mode =
     Some (0, map (\<lambda>i. logic_byte ni page (addr + of_nat i)) [0..<unat sz], Some sz, ni\<lparr>page_cache := pc\<rparr>)"
proof -
  have "length data = 0 + unat sz" using len by simp
  from read_range_loop_reads [OF g p nw rd this, where bf = 0]
  obtain pc where e: "read_range_loop ni addr data 0 sz mode False 0 0 =
     Some (0, False, 0, 0, map (\<lambda>i. logic_byte ni page (addr + of_nat i)) [0..<unat sz], ni\<lparr>page_cache := pc\<rparr>)"
    by (simp only: take_0 append_Nil order_refl) blast
  have "\<not> ba2addr ni (data_block_count ni) \<le> addr" using lim by simp
  then show ?thesis
    by (intro exI [of _ pc]) (simp add: nmbm_read_range_def pr nz lim e)
qed

end
