(* ===== verification/Mtd_Device.thy ===== *)
theory Mtd_Device
  imports Nmbm_Prelude
begin

text \<open>
  What both bad-block layers use of the kernel's MTD interface: \<open>struct mtd_info\<close>, with the state
  of the device as its \<open>m_priv\<close>, and \<open>struct mtd_oob_ops\<close>, whose buffers are the lists of the bytes
  they hold, \<open>None\<close> for \<open>NULL\<close>.
\<close>

abbreviation (input) EPROBE_DEFER :: int where "EPROBE_DEFER \<equiv> 517"

datatype mtd_mode = MTD_OPS_PLACE_OOB | MTD_OPS_AUTO_OOB | MTD_OPS_RAW

record 'm mtd_info =
  m_type :: u8
  m_flags :: u32
  m_size :: u64
  m_erasesize :: u32
  m_writesize :: u32
  m_writebufsize :: u32
  m_oobsize :: u32
  m_oobavail :: u32
  m_erasesize_shift :: u32
  m_writesize_shift :: u32
  m_erasesize_mask :: u32
  m_writesize_mask :: u32
  m_bitflip_threshold :: u32
  m_ecc_step_size :: u32
  m_ecc_strength :: u32
  m_corrected :: u32
  m_failed :: u32
  m_priv :: 'm

record mtd_oob_ops =
  ops_mode :: mtd_mode
  ops_len :: u64
  ops_retlen :: u64
  ops_ooblen :: u64
  ops_oobretlen :: u64
  ops_ooboffs :: u32
  ops_datbuf :: "u8 list option"
  ops_oobbuf :: "u8 list option"

end
