(* ===== verification/Nmbm_Mtd.thy ===== *)
theory Nmbm_Mtd
  imports Nmbm_Logic Mtd_Device
begin

text \<open>
  The MTD layer \<open>nmbm-mtd.c\<close>: the functions it gives to the core as its lower device, the
  operations of the MTD device it provides, with their locking, and probing and removal.

  The MTD core of the kernel is not part of the sources. What the code uses of it is a value of
  the record \<open>mtd_api\<close>: the calls on the lower MTD device, which change the device state \<open>priv\<close>
  of its \<open>mtd_info\<close>, and \<open>mtd_oobavail\<close>. In C the lower functions get the \<open>struct nmbm_mtd\<close>
  itself as \<open>arg\<close>; here \<open>arg\<close> is the part of it they use, the lower device and the ECC
  statistics of the upper one.
\<close>

section \<open>Data\<close>

abbreviation (input) NMBM_MAX_RATIO_DEFAULT :: u32 where "NMBM_MAX_RATIO_DEFAULT \<equiv> 1"
abbreviation (input) NMBM_MAX_BLOCKS_DEFAULT :: u32 where "NMBM_MAX_BLOCKS_DEFAULT \<equiv> 256"
datatype flstate = FL_READY | FL_READING | FL_WRITING | FL_ERASING | FL_PM_SUSPENDED

datatype kern_level = KERN_DEBUG | KERN_INFO | KERN_WARNING | KERN_ERR | KERN_EMERG

record 'm mtd_api =
  mtd_read_oob :: "'m mtd_info \<Rightarrow> u64 \<Rightarrow> mtd_oob_ops \<Rightarrow> int \<times> mtd_oob_ops \<times> 'm mtd_info"
  mtd_write_oob :: "'m mtd_info \<Rightarrow> u64 \<Rightarrow> mtd_oob_ops \<Rightarrow> int \<times> 'm mtd_info"
  mtd_panic_write :: "'m mtd_info \<Rightarrow> u64 \<Rightarrow> u64 \<Rightarrow> u8 list option \<Rightarrow> int \<times> 'm mtd_info"
  mtd_erase :: "'m mtd_info \<Rightarrow> u64 \<Rightarrow> u64 \<Rightarrow> int \<times> 'm mtd_info"
  mtd_block_isbad :: "'m mtd_info \<Rightarrow> u64 \<Rightarrow> int \<times> 'm mtd_info"
  mtd_block_markbad :: "'m mtd_info \<Rightarrow> u64 \<Rightarrow> int \<times> 'm mtd_info"
  mtd_oobavail :: "u32 \<Rightarrow> u32 \<Rightarrow> mtd_mode \<Rightarrow> u32"

text \<open>\<open>mtd_oobavail\<close> gets the \<open>oobavail\<close> and the \<open>oobsize\<close> of its device.\<close>

record 'm nmbm_arg =
  nm_lower :: "'m mtd_info"
  upper_corrected :: u32
  upper_failed :: u32

record 'm nmbm_mtd =
  upper :: "unit mtd_info"
  nm_ni :: "'m nmbm_arg nmbm_instance"
  nm_page_cache :: "u8 list"
  nm_state :: flstate

text \<open>\<open>nm->lower\<close>\<close>

definition nm_lower_mtd :: "'m nmbm_mtd \<Rightarrow> 'm mtd_info" where
  "nm_lower_mtd nm = nm_lower (chip (nm_ni nm))"

section \<open>The lower device\<close>

definition mtd_mode_of :: "nmbm_oob_mode \<Rightarrow> mtd_mode" where
  "mtd_mode_of mode = (case mode of NMBM_MODE_PLACE_OOB \<Rightarrow> MTD_OPS_PLACE_OOB
     | NMBM_MODE_AUTO_OOB \<Rightarrow> MTD_OPS_AUTO_OOB | NMBM_MODE_RAW \<Rightarrow> MTD_OPS_RAW)"

text \<open>The \<open>struct mtd_oob_ops\<close> of a page access; a cleared structure has no buffers.\<close>

definition lower_page_ops ::
  "'m mtd_api \<Rightarrow> 'm mtd_info \<Rightarrow> u8 list option \<Rightarrow> u8 list option \<Rightarrow> nmbm_oob_mode \<Rightarrow> mtd_oob_ops" where
  "lower_page_ops api lm buf oob mode =
     \<lparr>ops_mode = mtd_mode_of mode,
      ops_len = (if buf = None then 0 else ucast (m_writesize lm)), ops_retlen = 0,
      ops_ooblen = (if oob = None then 0
                    else ucast (mtd_oobavail api (m_oobavail lm) (m_oobsize lm) (mtd_mode_of mode))),
      ops_oobretlen = 0, ops_ooboffs = 0, ops_datbuf = buf, ops_oobbuf = oob\<rparr>"

definition nmbm_lower_read_page ::
  "'m mtd_api \<Rightarrow> 'm nmbm_arg \<Rightarrow> u64 \<Rightarrow> u8 list option \<Rightarrow> u8 list option \<Rightarrow> nmbm_oob_mode \<Rightarrow>
   int \<times> u8 list option \<times> u8 list option \<times> 'm nmbm_arg" where
  "nmbm_lower_read_page api nm addr buf oob mode =
     (let (ret, ops, lm) = mtd_read_oob api (nm_lower nm) addr
            (lower_page_ops api (nm_lower nm) buf oob mode);
          nm = nm\<lparr>nm_lower := lm, upper_corrected := m_corrected lm, upper_failed := m_failed lm\<rparr>
      in if ret < 0 \<and> ret \<noteq> - EUCLEAN then (ret, ops_datbuf ops, ops_oobbuf ops, nm)
         else if ret = - EUCLEAN
         then (uint (if m_bitflip_threshold lm + 1 < m_ecc_strength lm
                     then m_bitflip_threshold lm + 1 else m_ecc_strength lm),
               ops_datbuf ops, ops_oobbuf ops, nm)
         else (0, ops_datbuf ops, ops_oobbuf ops, nm))"

definition nmbm_lower_write_page ::
  "'m mtd_api \<Rightarrow> 'm nmbm_arg \<Rightarrow> u64 \<Rightarrow> u8 list option \<Rightarrow> u8 list option \<Rightarrow> nmbm_oob_mode \<Rightarrow>
   int \<times> 'm nmbm_arg" where
  "nmbm_lower_write_page api nm addr buf oob mode =
     (let (ret, lm) = mtd_write_oob api (nm_lower nm) addr
            (lower_page_ops api (nm_lower nm) buf oob mode)
      in (ret, nm\<lparr>nm_lower := lm\<rparr>))"

definition nmbm_lower_panic_write_page ::
  "'m mtd_api \<Rightarrow> 'm nmbm_arg \<Rightarrow> u64 \<Rightarrow> u8 list option \<Rightarrow> int \<times> 'm nmbm_arg" where
  "nmbm_lower_panic_write_page api nm addr buf =
     (let (ret, lm) = mtd_panic_write api (nm_lower nm) addr (ucast (m_writesize (nm_lower nm))) buf
      in (ret, nm\<lparr>nm_lower := lm\<rparr>))"

definition nmbm_lower_erase_block :: "'m mtd_api \<Rightarrow> 'm nmbm_arg \<Rightarrow> u64 \<Rightarrow> int \<times> 'm nmbm_arg" where
  "nmbm_lower_erase_block api nm addr =
     (let (ret, lm) = mtd_erase api (nm_lower nm) addr (ucast (m_erasesize (nm_lower nm)))
      in (ret, nm\<lparr>nm_lower := lm\<rparr>))"

definition nmbm_lower_is_bad_block :: "'m mtd_api \<Rightarrow> 'm nmbm_arg \<Rightarrow> u64 \<Rightarrow> int \<times> 'm nmbm_arg" where
  "nmbm_lower_is_bad_block api nm addr =
     (let (ret, lm) = mtd_block_isbad api (nm_lower nm) addr in (ret, nm\<lparr>nm_lower := lm\<rparr>))"

definition nmbm_lower_mark_bad_block :: "'m mtd_api \<Rightarrow> 'm nmbm_arg \<Rightarrow> u64 \<Rightarrow> int \<times> 'm nmbm_arg" where
  "nmbm_lower_mark_bad_block api nm addr =
     (let (ret, lm) = mtd_block_markbad api (nm_lower nm) addr in (ret, nm\<lparr>nm_lower := lm\<rparr>))"

text \<open>The level \<open>nmbm_lower_log\<close> prints a message with.\<close>

definition nmbm_lower_log_level :: "nmbm_log_category \<Rightarrow> kern_level" where
  "nmbm_lower_log_level level =
     (case level of NMBM_LOG_DEBUG \<Rightarrow> KERN_DEBUG | NMBM_LOG_WARN \<Rightarrow> KERN_WARNING
      | NMBM_LOG_ERR \<Rightarrow> KERN_ERR | NMBM_LOG_EMERG \<Rightarrow> KERN_EMERG | _ \<Rightarrow> KERN_INFO)"

section \<open>Taking and releasing the device\<close>

text \<open>One pass through \<open>nmbm_get_device\<close>, which the spin lock makes one step: the new state when
  the device is taken, \<open>None\<close> when the caller goes to sleep until it is released.\<close>

definition try_get_device :: "flstate \<Rightarrow> flstate \<Rightarrow> flstate option" where
  "try_get_device state new_state =
     (if state = FL_READY then Some new_state
      else if new_state = FL_PM_SUSPENDED \<and> state = FL_PM_SUSPENDED then Some state
      else None)"

text \<open>The call when no other thread is active: without one that releases the device a sleeping
  caller does not return.\<close>

definition nmbm_get_device :: "'m nmbm_mtd \<Rightarrow> flstate \<Rightarrow> 'm nmbm_mtd option" where
  "nmbm_get_device nm new_state =
     (case try_get_device (nm_state nm) new_state of
        None \<Rightarrow> None | Some st \<Rightarrow> Some (nm\<lparr>nm_state := st\<rparr>))"

definition nmbm_release_device :: "'m nmbm_mtd \<Rightarrow> 'm nmbm_mtd" where
  "nmbm_release_device nm = nm\<lparr>nm_state := FL_READY\<rparr>"

section \<open>Erasing\<close>

text \<open>The second result is what is stored in \<open>instr->fail_addr\<close>, if anything.\<close>

definition nmbm_mtd_erase ::
  "crc_fun \<Rightarrow> 'm nmbm_mtd \<Rightarrow> u64 \<Rightarrow> u64 \<Rightarrow> (int \<times> u64 option \<times> 'm nmbm_mtd) option" where
  "nmbm_mtd_erase crc nm addr len =
     do {
       nm \<leftarrow> nmbm_get_device nm FL_ERASING;
       (ret, fail_addr, ni) \<leftarrow> nmbm_erase_block_range crc (nm_ni nm) addr len;
       let nm = nmbm_release_device (nm\<lparr>nm_ni := ni\<rparr>);
       Some (if ret = 0 then 0 else - EIO, fail_addr, nm)
     }"

section \<open>Reading\<close>

text \<open>The two halves of \<open>nm->page_cache\<close>.\<close>

definition nm_datcache :: "'m nmbm_mtd \<Rightarrow> u8 list" where
  "nm_datcache nm = take (unat (m_writesize (nm_lower_mtd nm))) (nm_page_cache nm)"

definition nm_oobcache :: "'m nmbm_mtd \<Rightarrow> u8 list" where
  "nm_oobcache nm = drop (unat (m_writesize (nm_lower_mtd nm))) (nm_page_cache nm)"

text \<open>Move the next piece between a buffer and the cache: its size.\<close>

definition mtd_chunk :: "u64 \<Rightarrow> u32 \<Rightarrow> u64 \<Rightarrow> u64" where
  "mtd_chunk avail offs rest =
     (let chklen = avail - ucast offs in if rest < chklen then rest else chklen)"

text \<open>The page address: the mask is 32 bits wide, and so is its complement.\<close>

definition mtd_page_addr :: "'m mtd_info \<Rightarrow> u64 \<Rightarrow> u64" where
  "mtd_page_addr lm addr = addr AND ucast (NOT (m_writesize_mask lm))"

definition mtd_page_col :: "'m mtd_info \<Rightarrow> u64 \<Rightarrow> u32" where
  "mtd_page_col lm addr = ucast (addr AND ucast (m_writesize_mask lm))"

text \<open>The buffers passed down are the caches when there was anything to transfer at the start:
  \<open>dat\<close> and \<open>oob\<close> say so. The subtraction \<open>writesize - col\<close> is one of 32-bit values.\<close>

partial_function (option) mtd_read_data_loop ::
  "'m nmbm_mtd \<Rightarrow> bool \<Rightarrow> bool \<Rightarrow> u64 \<Rightarrow> nmbm_oob_mode \<Rightarrow> mtd_oob_ops \<Rightarrow> u64 \<Rightarrow> u64 \<Rightarrow> u64 \<Rightarrow> u32 \<Rightarrow> u32 \<Rightarrow>
   bool \<Rightarrow> int \<Rightarrow> (int \<times> mtd_oob_ops \<times> 'm nmbm_mtd) option" where
  "mtd_read_data_loop nm dat oob maxooblen mode ops addr len ooblen col ooboffs has_ecc_err max_bitflips =
     (if len \<noteq> 0 \<or> ooblen \<noteq> 0 then
        let (ret, d, b, ni) = nmbm_read_single_page (nm_ni nm) addr
              (if dat then Some (nm_datcache nm) else None)
              (if oob then Some (nm_oobcache nm) else None) mode;
            pc = (case d of None \<Rightarrow> nm_page_cache nm | Some x \<Rightarrow> memcpy_at (nm_page_cache nm) 0 x);
            pc = (case b of None \<Rightarrow> pc
                  | Some x \<Rightarrow> memcpy_at pc (unat (m_writesize (nm_lower_mtd nm))) x);
            nm = nm\<lparr>nm_ni := ni, nm_page_cache := pc\<rparr>
        in if ret < 0 \<and> ret \<noteq> - EBADMSG then Some (ret, ops, nm)
           else
             let has_ecc_err = (has_ecc_err \<or> ret = - EBADMSG);
                 max_bitflips = (if max_bitflips < ret then ret else max_bitflips);
                 ws = m_writesize (nm_lower_mtd nm);
                 (ops, len, col) =
                   (if len \<noteq> 0 then
                      let chklen = ucast (ws - col);
                          chklen = (if len < chklen then len else chklen);
                          chunk = slice (unat col) (unat chklen) (nm_datcache nm)
                      in (ops\<lparr>ops_datbuf := map_option (\<lambda>x. memcpy_at x (unat (ops_retlen ops)) chunk) (ops_datbuf ops),
                              ops_retlen := ops_retlen ops + chklen\<rparr>, len - chklen, 0)
                    else (ops, len, col));
                 (ops, ooblen, ooboffs) =
                   (if ooblen \<noteq> 0 then
                      let chklen = mtd_chunk maxooblen ooboffs ooblen;
                          chunk = slice (unat ooboffs) (unat chklen) (nm_oobcache nm)
                      in (ops\<lparr>ops_oobbuf := map_option (\<lambda>x. memcpy_at x (unat (ops_oobretlen ops)) chunk) (ops_oobbuf ops),
                              ops_oobretlen := ops_oobretlen ops + chklen\<rparr>, ooblen - chklen, 0)
                    else (ops, ooblen, ooboffs))
             in mtd_read_data_loop nm dat oob maxooblen mode ops (addr + ucast ws) len ooblen col ooboffs
                  has_ecc_err max_bitflips
      else Some (if has_ecc_err then - EBADMSG else max_bitflips, ops, nm))"

definition nmbm_mtd_read_data ::
  "'m mtd_api \<Rightarrow> 'm nmbm_mtd \<Rightarrow> u64 \<Rightarrow> mtd_oob_ops \<Rightarrow> nmbm_oob_mode \<Rightarrow>
   (int \<times> mtd_oob_ops \<times> 'm nmbm_mtd) option" where
  "nmbm_mtd_read_data api nm addr ops mode =
     (let lm = nm_lower_mtd nm;
          maxooblen = ucast (mtd_oobavail api (m_oobavail lm) (m_oobsize lm) (ops_mode ops))
      in mtd_read_data_loop nm (ops_len ops \<noteq> 0) (ops_ooblen ops \<noteq> 0) maxooblen mode
           (ops\<lparr>ops_oobretlen := 0, ops_retlen := 0\<rparr>) (mtd_page_addr lm addr)
           (ops_len ops) (ops_ooblen ops) (mtd_page_col lm addr) (ops_ooboffs ops) False 0)"

definition nmbm_mode_of :: "mtd_mode \<Rightarrow> nmbm_oob_mode" where
  "nmbm_mode_of mode = (case mode of MTD_OPS_PLACE_OOB \<Rightarrow> NMBM_MODE_PLACE_OOB
     | MTD_OPS_AUTO_OOB \<Rightarrow> NMBM_MODE_AUTO_OOB | MTD_OPS_RAW \<Rightarrow> NMBM_MODE_RAW)"

text \<open>The checks \<open>nmbm_mtd_read_oob\<close> and \<open>nmbm_mtd_write_oob\<close> share: the end of the device, and the
  range of the OOB bytes.\<close>

definition mtd_beyond_end :: "unit mtd_info \<Rightarrow> u64 \<Rightarrow> mtd_oob_ops \<Rightarrow> bool" where
  "mtd_beyond_end mtd from ops \<longleftrightarrow> ops_datbuf ops \<noteq> None \<and> m_size mtd < from + ops_len ops"

definition mtd_oob_outside :: "unit mtd_info \<Rightarrow> u32 \<Rightarrow> u64 \<Rightarrow> mtd_oob_ops \<Rightarrow> bool" where
  "mtd_oob_outside mtd maxooblen from ops \<longleftrightarrow>
     maxooblen \<le> ops_ooboffs ops \<or> m_size mtd \<le> from \<or>
     (drop_bit (unat (m_writesize_shift mtd)) (m_size mtd)
        - drop_bit (unat (m_writesize_shift mtd)) from) * ucast maxooblen
     < ucast (ops_ooboffs ops) + ops_ooblen ops"

text \<open>\<open>from\<close> is an offset the MTD core has checked to be not negative.\<close>

definition nmbm_mtd_read_oob ::
  "'m mtd_api \<Rightarrow> 'm nmbm_mtd \<Rightarrow> u64 \<Rightarrow> mtd_oob_ops \<Rightarrow> (int \<times> mtd_oob_ops \<times> 'm nmbm_mtd) option" where
  "nmbm_mtd_read_oob api nm from ops =
     (if ops_oobbuf ops = None \<and> ops_datbuf ops = None then
        Some (if ops_ooblen ops \<noteq> 0 \<or> ops_len ops \<noteq> 0 then - EINVAL else 0, ops, nm)
      else
        let mode = nmbm_mode_of (ops_mode ops);
            maxooblen = mtd_oobavail api (m_oobavail (upper nm)) (m_oobsize (upper nm)) (ops_mode ops)
        in if mtd_beyond_end (upper nm) from ops then Some (- EINVAL, ops, nm)
           else if ops_oobbuf ops = None then
             do {
               nm \<leftarrow> nmbm_get_device nm FL_READING;
               (ret, data, retlen, ni) \<leftarrow>
                 nmbm_read_range (nm_ni nm) from (ops_len ops) (the (ops_datbuf ops)) mode;
               let ops = ops\<lparr>ops_datbuf := Some data,
                             ops_retlen := (case retlen of None \<Rightarrow> ops_retlen ops | Some n \<Rightarrow> n)\<rparr>;
               Some (ret, ops, nmbm_release_device (nm\<lparr>nm_ni := ni\<rparr>))
             }
           else if mtd_oob_outside (upper nm) maxooblen from ops then Some (- EINVAL, ops, nm)
           else
             do {
               nm \<leftarrow> nmbm_get_device nm FL_READING;
               (ret, ops, nm) \<leftarrow> nmbm_mtd_read_data api nm from ops mode;
               Some (ret, ops, nmbm_release_device nm)
             })"

section \<open>Writing\<close>

text \<open>One half of the page cache filled with a piece of the caller's buffer, the rest with \<open>0xff\<close>.\<close>

definition fill_cache :: "u8 list \<Rightarrow> nat \<Rightarrow> nat \<Rightarrow> nat \<Rightarrow> u8 list \<Rightarrow> u8 list" where
  "fill_cache pc base sz offs chunk =
     (let pc = memset_at pc base 0xff offs;
          pc = memcpy_at pc (base + offs) chunk
      in memset_at pc (base + offs + length chunk) 0xff (sz - offs - length chunk))"

partial_function (option) mtd_write_data_loop ::
  "crc_fun \<Rightarrow> 'm nmbm_mtd \<Rightarrow> bool \<Rightarrow> bool \<Rightarrow> u64 \<Rightarrow> nmbm_oob_mode \<Rightarrow> mtd_oob_ops \<Rightarrow> u64 \<Rightarrow> u64 \<Rightarrow> u64 \<Rightarrow> u32 \<Rightarrow> u32 \<Rightarrow>
   (int \<times> mtd_oob_ops \<times> 'm nmbm_mtd) option" where
  "mtd_write_data_loop crc nm dat oob maxooblen mode ops addr len ooblen col ooboffs =
     (if len \<noteq> 0 \<or> ooblen \<noteq> 0 then
        let lm = nm_lower_mtd nm;
            ws = m_writesize lm;
            (ops, len, col, nm) =
              (if len \<noteq> 0 then
                 let chklen = ucast (ws - col);
                     chklen = (if len < chklen then len else chklen);
                     chunk = slice (unat (ops_retlen ops)) (unat chklen) (the (ops_datbuf ops))
                 in (ops\<lparr>ops_retlen := ops_retlen ops + chklen\<rparr>, len - chklen, 0,
                     nm\<lparr>nm_page_cache := fill_cache (nm_page_cache nm) 0 (unat ws) (unat col) chunk\<rparr>)
               else (ops, len, col, nm));
            (ops, ooblen, ooboffs, nm) =
              (if ooblen \<noteq> 0 then
                 let chklen = mtd_chunk maxooblen ooboffs ooblen;
                     chunk = slice (unat (ops_oobretlen ops)) (unat chklen) (the (ops_oobbuf ops))
                 in (ops\<lparr>ops_oobretlen := ops_oobretlen ops + chklen\<rparr>, ooblen - chklen, 0,
                     nm\<lparr>nm_page_cache := fill_cache (nm_page_cache nm) (unat ws) (unat (m_oobsize lm))
                          (unat ooboffs) chunk\<rparr>)
               else (ops, ooblen, ooboffs, nm))
        in do {
             (ret, ni) \<leftarrow> nmbm_write_single_page crc (nm_ni nm) addr
               (if dat then Some (nm_datcache nm) else None)
               (if oob then Some (nm_oobcache nm) else None) mode;
             let nm = nm\<lparr>nm_ni := ni\<rparr>;
             if ret \<noteq> 0 then Some (ret, ops, nm)
             else mtd_write_data_loop crc nm dat oob maxooblen mode ops (addr + ucast ws) len ooblen col ooboffs
           }
      else Some (0, ops, nm))"

definition nmbm_mtd_write_data ::
  "'m mtd_api \<Rightarrow> crc_fun \<Rightarrow> 'm nmbm_mtd \<Rightarrow> u64 \<Rightarrow> mtd_oob_ops \<Rightarrow> nmbm_oob_mode \<Rightarrow>
   (int \<times> mtd_oob_ops \<times> 'm nmbm_mtd) option" where
  "nmbm_mtd_write_data api crc nm addr ops mode =
     (let lm = nm_lower_mtd nm;
          maxooblen = ucast (mtd_oobavail api (m_oobavail lm) (m_oobsize lm) (ops_mode ops))
      in mtd_write_data_loop crc nm (ops_len ops \<noteq> 0) (ops_ooblen ops \<noteq> 0) maxooblen mode
           (ops\<lparr>ops_oobretlen := 0, ops_retlen := 0\<rparr>) (mtd_page_addr lm addr)
           (ops_len ops) (ops_ooblen ops) (mtd_page_col lm addr) (ops_ooboffs ops))"

definition nmbm_mtd_write_oob ::
  "'m mtd_api \<Rightarrow> crc_fun \<Rightarrow> 'm nmbm_mtd \<Rightarrow> u64 \<Rightarrow> mtd_oob_ops \<Rightarrow> (int \<times> mtd_oob_ops \<times> 'm nmbm_mtd) option" where
  "nmbm_mtd_write_oob api crc nm to ops =
     (if ops_oobbuf ops = None \<and> ops_datbuf ops = None then
        Some (if ops_ooblen ops \<noteq> 0 \<or> ops_len ops \<noteq> 0 then - EINVAL else 0, ops, nm)
      else
        let mode = nmbm_mode_of (ops_mode ops);
            maxooblen = mtd_oobavail api (m_oobavail (upper nm)) (m_oobsize (upper nm)) (ops_mode ops)
        in if mtd_beyond_end (upper nm) to ops then Some (- EINVAL, ops, nm)
           else if ops_oobbuf ops = None then
             do {
               nm \<leftarrow> nmbm_get_device nm FL_WRITING;
               (ret, retlen, ni) \<leftarrow>
                 nmbm_write_range crc (nm_ni nm) to (ops_len ops) (the (ops_datbuf ops)) mode;
               let ops = ops\<lparr>ops_retlen := (case retlen of None \<Rightarrow> ops_retlen ops | Some n \<Rightarrow> n)\<rparr>;
               Some (ret, ops, nmbm_release_device (nm\<lparr>nm_ni := ni\<rparr>))
             }
           else if mtd_oob_outside (upper nm) maxooblen to ops then Some (- EINVAL, ops, nm)
           else
             do {
               nm \<leftarrow> nmbm_get_device nm FL_WRITING;
               (ret, ops, nm) \<leftarrow> nmbm_mtd_write_data api crc nm to ops mode;
               Some (ret, ops, nmbm_release_device nm)
             })"

text \<open>The panic path takes no lock. Its loop leaves on the first error and its result does not tell.\<close>

partial_function (option) mtd_panic_write_loop ::
  "crc_fun \<Rightarrow> 'm nmbm_mtd \<Rightarrow> u64 \<Rightarrow> u64 \<Rightarrow> u64 \<Rightarrow> u8 list \<Rightarrow> u32 \<Rightarrow> (u64 \<times> 'm nmbm_mtd) option" where
  "mtd_panic_write_loop crc nm to len wrlen buf col =
     (if len \<noteq> 0 then
        let ws = m_writesize (nm_lower_mtd nm);
            chklen = ucast (ws - col);
            chklen = (if len < chklen then len else chklen);
            pc = (if chklen < ucast ws then memset_at (nm_page_cache nm) 0 0xff (unat ws)
                  else nm_page_cache nm);
            pc = memcpy_at pc (unat col) (slice (unat wrlen) (unat chklen) buf);
            nm = nm\<lparr>nm_page_cache := pc\<rparr>
        in do {
             (ret, ni) \<leftarrow> nmbm_panic_write_single_page crc (nm_ni nm) to (Some (nm_datcache nm));
             let nm = nm\<lparr>nm_ni := ni\<rparr>;
             if ret \<noteq> 0 then Some (wrlen + chklen, nm)
             else mtd_panic_write_loop crc nm (to + ucast ws) (len - chklen) (wrlen + chklen) buf 0
           }
      else Some (wrlen, nm))"

definition nmbm_mtd_panic_write ::
  "crc_fun \<Rightarrow> 'm nmbm_mtd \<Rightarrow> u64 \<Rightarrow> u64 \<Rightarrow> u8 list \<Rightarrow> (int \<times> u64 \<times> 'm nmbm_mtd) option" where
  "nmbm_mtd_panic_write crc nm to len buf =
     do {
       let lm = nm_lower_mtd nm;
       (wrlen, nm) \<leftarrow> mtd_panic_write_loop crc nm (mtd_page_addr lm to) len 0 buf (mtd_page_col lm to);
       Some (0, wrlen, nm)
     }"

section \<open>Bad blocks and shutdown\<close>

definition nmbm_mtd_block_isbad :: "'m nmbm_mtd \<Rightarrow> u64 \<Rightarrow> (int \<times> 'm nmbm_mtd) option" where
  "nmbm_mtd_block_isbad nm offs =
     do {
       nm \<leftarrow> nmbm_get_device nm FL_READING;
       let ret = nmbm_check_bad_block (nm_ni nm) offs;
       Some (ret, nmbm_release_device nm)
     }"

definition nmbm_mtd_block_markbad :: "crc_fun \<Rightarrow> 'm nmbm_mtd \<Rightarrow> u64 \<Rightarrow> (int \<times> 'm nmbm_mtd) option" where
  "nmbm_mtd_block_markbad crc nm offs =
     do {
       nm \<leftarrow> nmbm_get_device nm FL_WRITING;
       (ret, ni) \<leftarrow> nmbm_mark_bad_block crc (nm_ni nm) offs;
       Some (ret, nmbm_release_device (nm\<lparr>nm_ni := ni\<rparr>))
     }"

definition nmbm_mtd_shutdown :: "'m nmbm_mtd \<Rightarrow> 'm nmbm_mtd option" where
  "nmbm_mtd_shutdown nm = nmbm_get_device nm FL_PM_SUSPENDED"

section \<open>Probe and remove\<close>

text \<open>
  What \<open>nmbm_probe\<close> gets from its surroundings: the device tree properties, the lower devices they
  name (\<open>Some None\<close> is a lookup that fails) and what the kernel calls answer. With neither
  property the code goes on with an uninitialised pointer \<open>lower\<close>: \<open>indeterminate\<close> stands for it.
\<close>

record 'm probe_env =
  by_phandle :: "'m mtd_info option option"
  by_name :: "'m mtd_info option option"
  indeterminate :: "'m mtd_info"
  prop_max_ratio :: "u32 option"
  prop_max_reserved_blocks :: "u32 option"
  forced_create :: bool
  empty_page_ecc_protected :: bool
  alloc_fails :: bool
  register_result :: int

definition probe_lower :: "'m probe_env \<Rightarrow> 'm mtd_info option" where
  "probe_lower env =
     (case by_phandle env of
        Some r \<Rightarrow> r
      | None \<Rightarrow> (case by_name env of Some r \<Rightarrow> r | None \<Rightarrow> Some (indeterminate env)))"

definition probe_lower_device ::
  "'m mtd_api \<Rightarrow> 'm probe_env \<Rightarrow> 'm mtd_info \<Rightarrow> 'm nmbm_arg nmbm_lower_device" where
  "probe_lower_device api env lm =
     \<lparr>max_ratio = (case prop_max_ratio env of Some r \<Rightarrow> r | None \<Rightarrow> NMBM_MAX_RATIO_DEFAULT),
      max_reserved_blocks =
        (case prop_max_reserved_blocks env of Some r \<Rightarrow> r | None \<Rightarrow> NMBM_MAX_BLOCKS_DEFAULT),
      flags = (if forced_create env then NMBM_F_CREATE else 0)
        OR (if empty_page_ecc_protected env then NMBM_F_EMPTY_PAGE_ECC_OK else 0),
      lsize = m_size lm, erasesize = m_erasesize lm, writesize = m_writesize lm,
      oobsize = m_oobsize lm, oobavail = m_oobavail lm,
      arg = \<lparr>nm_lower = lm, upper_corrected = 0, upper_failed = 0\<rparr>,
      reset_chip = None,
      read_page = Some (nmbm_lower_read_page api),
      write_page = Some (nmbm_lower_write_page api),
      panic_write_page = Some (nmbm_lower_panic_write_page api),
      erase_block = Some (nmbm_lower_erase_block api),
      is_bad_block = Some (nmbm_lower_is_bad_block api),
      mark_bad_block = Some (nmbm_lower_mark_bad_block api),
      logprint = True\<rparr>"

definition probe_upper :: "'m mtd_info \<Rightarrow> u32 \<Rightarrow> unit mtd_info" where
  "probe_upper lm dbc =
     \<lparr>m_type = m_type lm, m_flags = m_flags lm,
      m_size = ucast dbc * ucast (m_erasesize lm),
      m_erasesize = m_erasesize lm, m_writesize = m_writesize lm,
      m_writebufsize = m_writesize lm, m_oobsize = m_oobsize lm, m_oobavail = m_oobavail lm,
      m_erasesize_shift = m_erasesize_shift lm, m_writesize_shift = m_writesize_shift lm,
      m_erasesize_mask = m_erasesize_mask lm, m_writesize_mask = m_writesize_mask lm,
      m_bitflip_threshold = m_bitflip_threshold lm, m_ecc_step_size = m_ecc_step_size lm,
      m_ecc_strength = m_ecc_strength lm, m_corrected = 0, m_failed = 0, m_priv = ()\<rparr>"

text \<open>The memory \<open>devm_kzalloc\<close> gives: every member zero, every buffer empty until
  \<open>nmbm_init_structure\<close> lays it out.\<close>

definition zero_header :: nmbm_header where
  "zero_header = \<lparr>magic = 0, version = 0, hdr_size = 0, checksum = 0\<rparr>"

definition zero_instance :: "'d nmbm_lower_device \<Rightarrow> 'd nmbm_instance" where
  "zero_instance nld =
     \<lparr>lower = nld, rawpage_size = 0, rawblock_size = 0, rawchip_size = 0, writesize_mask = 0,
      erasesize_mask = 0, writesize_shift = 0, erasesize_shift = 0,
      signature = \<lparr>sig_header = zero_header, nand_size = 0, block_size = 0, page_size = 0,
        spare_size = 0, mgmt_start_pb = 0, max_try_count = 0, sig_padding = replicate 7 0\<rparr>,
      info_table_cache = [], info_table_size = 0, info_table_spare_blocks = 0,
      info_table = \<lparr>ift_header = zero_header, write_count = 0, state_table_off = 0,
        mapping_table_off = 0, ift_padding = 0\<rparr>,
      block_state = [], block_state_changed = 0, state_table_size = 0, block_mapping = [],
      block_mapping_changed = 0, mapping_table_size = 0, page_cache = [], protected = 0,
      block_count = 0, data_block_count = 0, mgmt_start_ba = 0, main_table_ba = 0,
      backup_table_ba = 0, mapping_blocks_ba = 0, mapping_blocks_top_ba = 0, signature_ba = 0,
      log_display_level = NMBM_LOG_DEBUG\<rparr>"

text \<open>The result is the error number and the device when it has been registered, which puts it on
  the list \<open>nmbm_devs\<close>. The lower device is put back on every error after it has been got.\<close>

definition nmbm_probe ::
  "'m mtd_api \<Rightarrow> crc_fun \<Rightarrow> nmbm_log_category \<Rightarrow> 'm probe_env \<Rightarrow> 'm nmbm_mtd list \<Rightarrow>
   (int \<times> 'm nmbm_mtd option \<times> 'm nmbm_mtd list) option" where
  "nmbm_probe api crc level env devs =
     (case probe_lower env of
        None \<Rightarrow> Some (- EPROBE_DEFER, None, devs)
      | Some lm \<Rightarrow>
          if alloc_fails env then Some (- ENOMEM, None, devs)
          else
            let nld = probe_lower_device api env lm
            in do {
                 (ret, ni) \<leftarrow> nmbm_attach crc level nld (zero_instance nld);
                 if ret \<noteq> 0 then Some (ret, None, devs)
                 else
                   let nm = \<lparr>upper = probe_upper lm (data_block_count ni), nm_ni = ni,
                             nm_page_cache = replicate (unat (m_writesize lm + m_oobsize lm)) 0,
                             nm_state = FL_READY\<rparr>
                   in if register_result env \<noteq> 0
                      then do {
                        (_, ni) \<leftarrow> nmbm_detach crc ni;
                        Some (register_result env, None, devs)
                      }
                      else Some (0, Some nm, devs @ [nm])
               })"

text \<open>Removal detaches the instance and then appends the device to \<open>nmbm_devs\<close> once more, where it
  should be taken off the list.\<close>

definition nmbm_remove ::
  "crc_fun \<Rightarrow> int \<Rightarrow> 'm nmbm_mtd \<Rightarrow> 'm nmbm_mtd list \<Rightarrow> (int \<times> 'm nmbm_mtd list) option" where
  "nmbm_remove crc unregister_result nm devs =
     (if unregister_result \<noteq> 0 then Some (unregister_result, devs)
      else do {
        (_, ni) \<leftarrow> nmbm_detach crc (nm_ni nm);
        Some (0, devs @ [nm\<lparr>nm_ni := ni\<rparr>])
      })"

section \<open>Concurrent callers\<close>

text \<open>
  Threads that take and release the device. Every transition is one critical section of the spin
  lock: a caller takes the device or puts itself on the wait queue, and a release makes the device
  ready and wakes every sleeper. A woken thread starts over with its request.
\<close>

datatype thread = Idle | Wants flstate | Sleeps flstate | Holds flstate

record dev_lock =
  lock_state :: flstate
  threads :: "nat \<Rightarrow> thread"

definition wake :: "thread \<Rightarrow> thread" where
  "wake t = (case t of Sleeps st \<Rightarrow> Wants st | _ \<Rightarrow> t)"

inductive lock_step :: "dev_lock \<Rightarrow> dev_lock \<Rightarrow> bool" where
  call: "threads s t = Idle \<Longrightarrow> st \<noteq> FL_READY \<Longrightarrow> lock_step s (s\<lparr>threads := (threads s)(t := Wants st)\<rparr>)"
| take: "threads s t = Wants st \<Longrightarrow> try_get_device (lock_state s) st = Some st' \<Longrightarrow>
    lock_step s (s\<lparr>lock_state := st', threads := (threads s)(t := Holds st)\<rparr>)"
| sleep: "threads s t = Wants st \<Longrightarrow> try_get_device (lock_state s) st = None \<Longrightarrow>
    lock_step s (s\<lparr>threads := (threads s)(t := Sleeps st)\<rparr>)"
| release: "threads s t = Holds st \<Longrightarrow> st \<noteq> FL_PM_SUSPENDED \<Longrightarrow>
    lock_step s (s\<lparr>lock_state := FL_READY, threads := (\<lambda>u. wake (if u = t then Idle else threads s u))\<rparr>)"

definition lock_init :: dev_lock where
  "lock_init = \<lparr>lock_state = FL_READY, threads = (\<lambda>_. Idle)\<rparr>"

text \<open>The holders agree with the state, two of them only share it when suspended, and nobody sleeps
  while the device is ready.\<close>

definition lock_inv :: "dev_lock \<Rightarrow> bool" where
  "lock_inv s \<longleftrightarrow>
     (\<forall>t st. threads s t = Holds st \<longrightarrow> lock_state s = st \<and> st \<noteq> FL_READY) \<and>
     (\<forall>t u st st'. threads s t = Holds st \<and> threads s u = Holds st' \<and> t \<noteq> u \<longrightarrow> st = FL_PM_SUSPENDED) \<and>
     (\<forall>t st. threads s t = Sleeps st \<longrightarrow> lock_state s \<noteq> FL_READY) \<and>
     (\<forall>t st. threads s t = Wants st \<or> threads s t = Sleeps st \<longrightarrow> st \<noteq> FL_READY) \<and>
     (lock_state s \<noteq> FL_READY \<longrightarrow> (\<exists>t. threads s t = Holds (lock_state s)))"

lemma try_get_SomeD:
  "try_get_device s st = Some s' \<Longrightarrow> s' = st \<and> (s = FL_READY \<or> s = FL_PM_SUSPENDED \<and> st = FL_PM_SUSPENDED)"
  by (auto simp: try_get_device_def split: if_splits)

lemma try_get_NoneD: "try_get_device s st = None \<Longrightarrow> s \<noteq> FL_READY"
  by (auto simp: try_get_device_def split: if_splits)

lemma wake_simps [simp]:
  "wake t = Holds st \<longleftrightarrow> t = Holds st" "wake t \<noteq> Sleeps st"
  "wake t = Wants st \<longleftrightarrow> t = Wants st \<or> t = Sleeps st" "wake t = Idle \<longleftrightarrow> t = Idle"
  by (cases t; auto simp: wake_def)+

lemma lock_invD:
  assumes "lock_inv s"
  shows "threads s t = Holds st \<Longrightarrow> lock_state s = st \<and> st \<noteq> FL_READY"
    "threads s t = Holds st \<Longrightarrow> threads s u = Holds st' \<Longrightarrow> t \<noteq> u \<Longrightarrow> st = FL_PM_SUSPENDED"
    "threads s t = Sleeps st \<Longrightarrow> lock_state s \<noteq> FL_READY"
    "threads s t = Wants st \<Longrightarrow> st \<noteq> FL_READY" "threads s t = Sleeps st \<Longrightarrow> st \<noteq> FL_READY"
    "lock_state s \<noteq> FL_READY \<Longrightarrow> \<exists>t. threads s t = Holds (lock_state s)"
  using assms unfolding lock_inv_def by blast+

lemma lock_invI:
  assumes "\<And>t st. threads s t = Holds st \<Longrightarrow> lock_state s = st \<and> st \<noteq> FL_READY"
    "\<And>t u st st'. threads s t = Holds st \<Longrightarrow> threads s u = Holds st' \<Longrightarrow> t \<noteq> u \<Longrightarrow> st = FL_PM_SUSPENDED"
    "\<And>t st. threads s t = Sleeps st \<Longrightarrow> lock_state s \<noteq> FL_READY"
    "\<And>t st. threads s t = Wants st \<or> threads s t = Sleeps st \<Longrightarrow> st \<noteq> FL_READY"
    "lock_state s \<noteq> FL_READY \<Longrightarrow> \<exists>t. threads s t = Holds (lock_state s)"
  shows "lock_inv s"
  using assms unfolding lock_inv_def by blast

text \<open>A thread that does not hold the device changes what it waits for.\<close>

lemma lock_inv_wait:
  assumes inv: "lock_inv s" and t: "\<And>st. threads s t \<noteq> Holds st"
    and w: "w = Wants st \<or> w = Sleeps st \<and> lock_state s \<noteq> FL_READY" "st \<noteq> FL_READY"
  shows "lock_inv (s\<lparr>threads := (threads s)(t := w)\<rparr>)"
proof (rule lock_invI)
  assume "lock_state (s\<lparr>threads := (threads s)(t := w)\<rparr>) \<noteq> FL_READY"
  then obtain u where "threads s u = Holds (lock_state s)" using lock_invD(6) [OF inv] by auto
  with t have "((threads s)(t := w)) u = Holds (lock_state s)" by (cases "u = t") auto
  then show "\<exists>u. threads (s\<lparr>threads := (threads s)(t := w)\<rparr>) u = Holds (lock_state (s\<lparr>threads := (threads s)(t := w)\<rparr>))"
    by (intro exI [of _ u]) simp
qed (use w in \<open>auto split: if_splits dest: lock_invD [OF inv]\<close>)

lemma lock_inv_step:
  assumes "lock_step s s'" and inv: "lock_inv s"
  shows "lock_inv s'"
  using assms(1)
proof (cases rule: lock_step.cases)
  case (call t st)
  then show ?thesis by (auto intro!: lock_inv_wait [OF inv])
next
  case (sleep t st)
  then show ?thesis
    using try_get_NoneD [OF sleep(3)] lock_invD(4) [OF inv sleep(2)] by (auto intro!: lock_inv_wait [OF inv])
next
  case (take t st st')
  note d = try_get_SomeD [OF take(3)]
  have nr: "st \<noteq> FL_READY" by (rule lock_invD(4) [OF inv take(2)])
  have susp: "st = FL_PM_SUSPENDED \<and> x = FL_PM_SUSPENDED" if "threads s u = Holds x" for u x
    using d lock_invD(1) [OF inv that] by auto
  show ?thesis
    unfolding take(1)
    by (rule lock_invI) (use d nr in \<open>auto split: if_splits dest: susp lock_invD(4,5) [OF inv]\<close>)
next
  case (release t st)
  have "threads s u \<noteq> Holds x" if "u \<noteq> t" for u x
    using lock_invD(2) [OF inv release(2), of u x] that release(3) by blast
  then show ?thesis
    unfolding release(1)
    by (intro lock_invI) (auto split: if_splits dest: lock_invD(4,5) [OF inv])
qed

lemma lock_inv_init: "lock_inv lock_init"
  by (simp add: lock_inv_def lock_init_def)

lemma lock_inv_reachable: "lock_step\<^sup>*\<^sup>* lock_init s \<Longrightarrow> lock_inv s"
  by (induction rule: rtranclp_induct) (rule lock_inv_init, rule lock_inv_step)

end
