(* ===== verification/Nmbm_Service.thy ===== *)
theory Nmbm_Service
  imports Nmbm_Logic
begin

text \<open>
  The instance after it has been attached, as a state machine: one transition per operation of
  \<open>nmbm.h\<close> (\<open>api_step\<close>), the invariant of its runs, and what a block taken from the spare blocks
  means for the mapping.
\<close>

section \<open>Pages\<close>

lemma read_single_runs:
  assumes "run_inv ni" "nmbm_read_single_page ni addr d b mode = (ret, d', b', n)"
  shows "runs ni n"
proof -
  have "chip_evolves {} ni n"
    using assms(2) by (auto simp: nmbm_read_single_page_def split: if_splits intro: read_logic_evolves)
  then show ?thesis by (intro runs_chip [OF assms(1)]) (rule chip_evolves_mono, auto)
qed

lemma write_single_wp:
  assumes i: "run_inv ni"
  shows "wp (nmbm_write_single_page crc ni addr d b mode) (\<lambda>(ret, n). runs ni n)"
proof (cases "ba2addr ni (data_block_count ni) \<le> addr")
  case False
  then have "addr2ba ni addr < data_block_count ni" by (intro addr2ba_less [OF run_inv_geom [OF i]]) simp
  from write_logic_page_wp [OF i this]
  have "wp (nmbm_write_logic_page crc ni addr d b mode) (\<lambda>(ret, n). runs ni n)"
    by (rule wp_pair) (simp add: page_result_def)
  then show ?thesis by (simp add: nmbm_write_single_page_def runs_refl [OF i])
qed (simp add: nmbm_write_single_page_def runs_refl [OF i])

lemma panic_write_single_wp:
  assumes i: "run_inv ni"
  shows "wp (nmbm_panic_write_single_page crc ni addr d) (\<lambda>(ret, n). runs ni n)"
proof (cases "ba2addr ni (data_block_count ni) \<le> addr \<or> panic_write_page (lower ni) = None")
  case False
  then have "addr2ba ni addr < data_block_count ni" by (intro addr2ba_less [OF run_inv_geom [OF i]]) auto
  from panic_write_logic_page_wp [OF i this]
  have "wp (nmbm_panic_write_logic_page crc ni addr d) (\<lambda>(ret, n). runs ni n)"
    by (rule wp_mono) (use False in \<open>auto simp: page_result_def\<close>)
  then show ?thesis by (simp add: nmbm_panic_write_single_page_def runs_refl [OF i])
qed (auto simp: nmbm_panic_write_single_page_def nmbm_panic_write_logic_page_def Let_def runs_refl [OF i])

section \<open>The operations as transitions\<close>

interpretation core: contract run_inv runs
  by unfold_locales (rule runs_refl, assumption, rule runs_trans, assumption+, rule runs_inv)

text \<open>Every call of the interface that works on the flash. The ranges are those a caller can mean:
  they do not run past the end of the address space.\<close>

inductive api_step :: "crc_fun \<Rightarrow> 'd nmbm_instance \<Rightarrow> 'd nmbm_instance \<Rightarrow> bool" for crc where
  api_erase: "unat addr + unat sz < 2 ^ 64 \<Longrightarrow>
    nmbm_erase_block_range crc ni addr sz = Some (ret, failed, n) \<Longrightarrow> api_step crc ni n"
| api_read: "nmbm_read_range ni addr sz data mode = Some (ret, data', retlen, n) \<Longrightarrow> api_step crc ni n"
| api_read_page: "nmbm_read_single_page ni addr data' oob mode = (ret, d, b, n) \<Longrightarrow> api_step crc ni n"
| api_write: "unat addr + unat sz < 2 ^ 64 \<Longrightarrow>
    nmbm_write_range crc ni addr sz data mode = Some (ret, retlen, n) \<Longrightarrow> api_step crc ni n"
| api_write_page: "nmbm_write_single_page crc ni addr data' oob mode = Some (ret, n) \<Longrightarrow> api_step crc ni n"
| api_panic_page: "nmbm_panic_write_single_page crc ni addr data' = Some (ret, n) \<Longrightarrow> api_step crc ni n"
| api_mark_bad: "nmbm_mark_bad_block crc ni addr = Some (ret, n) \<Longrightarrow> api_step crc ni n"

lemma wp_returns: "wp m Q \<Longrightarrow> m = Some x \<Longrightarrow> Q x"
  by simp

lemma api_step_runs:
  assumes i: "run_inv ni" and "api_step crc ni n"
  shows "runs ni n"
  using assms(2)
proof cases
  case (api_erase addr sz ret failed)
  from wp_returns [OF erase_block_range_wp [OF i api_erase(1)] api_erase(2)]
  show ?thesis by (auto simp: erase_range_result_def runs_refl [OF i] split: if_splits)
next
  case (api_read addr sz data mode ret data' retlen)
  from wp_returns [OF read_range_wp [OF run_inv_geom [OF i]] api_read]
  have "chip_evolves {} ni n" by simp
  then show ?thesis by (intro runs_chip [OF i]) (rule chip_evolves_mono, auto)
next
  case (api_read_page addr data' oob mode ret d b)
  then show ?thesis by (rule read_single_runs [OF i])
next
  case (api_write addr sz data mode ret retlen)
  from wp_returns [OF write_range_wp [OF i api_write(1)] api_write(2)]
  show ?thesis by (auto simp: runs_refl [OF i] split: if_splits)
next
  case (api_write_page addr data' oob mode ret)
  from wp_returns [OF write_single_wp [OF i] api_write_page] show ?thesis by simp
next
  case (api_panic_page addr data' ret)
  from wp_returns [OF panic_write_single_wp [OF i] api_panic_page] show ?thesis by simp
next
  case (api_mark_bad addr ret)
  from wp_returns [OF mark_bad_block_wp [OF i] api_mark_bad]
  show ?thesis by (auto simp: Let_def runs_refl [OF i] split: if_splits)
qed

lemma api_steps_runs: "run_inv ni \<Longrightarrow> (api_step crc)\<^sup>*\<^sup>* ni n \<Longrightarrow> runs ni n"
  by (rule core.steps [OF api_step_runs])

text \<open>What a run leaves alone.\<close>

lemma runs_keep:
  assumes "runs ni n"
  shows "nmbm_get_block_state ni a = BLOCK_ST_BAD \<Longrightarrow> nmbm_get_block_state n a = BLOCK_ST_BAD"
    and "nmbm_get_block_state n a = BLOCK_ST_GOOD \<Longrightarrow> nmbm_get_block_state ni a = BLOCK_ST_GOOD"
    and "signature_ba ni \<le> a \<Longrightarrow> nmbm_get_block_state n a = nmbm_get_block_state ni a"
    and "(lower_call (lower ni) (in_blocks ni (below_signature ni)))\<^sup>*\<^sup>* (chip ni) (chip n)"
  using assms by (auto simp: runs_def run_step_def ages_def below_signature_def not_le)

section \<open>Spare blocks and the mapping\<close>

text \<open>The blocks the mapping uses are distinct and none of them is still to be taken.\<close>

definition mapping_distinct :: "'d nmbm_instance \<Rightarrow> bool" where
  "mapping_distinct ni \<longleftrightarrow>
     (\<forall>i < unat (data_block_count ni). \<forall>j < unat (data_block_count ni). i \<noteq> j \<longrightarrow>
        0 \<le> sint (block_mapping ni ! i) \<longrightarrow> block_mapping ni ! i \<noteq> block_mapping ni ! j)"

definition spares_unused :: "'d nmbm_instance \<Rightarrow> bool" where
  "spares_unused ni \<longleftrightarrow>
     (\<forall>i < unat (data_block_count ni). 0 \<le> sint (block_mapping ni ! i) \<longrightarrow>
        block_mapping ni ! i \<le> mapping_blocks_ba ni \<or> mapping_blocks_top_ba ni < block_mapping ni ! i)"

text \<open>When the top block is good it is the one that is taken, and the mapping stays without
  duplicates.\<close>

lemma next_spare_top:
  assumes "next_spare ni pb" "nmbm_get_block_state ni (mapping_blocks_top_ba ni) = BLOCK_ST_GOOD"
  shows "pb = mapping_blocks_top_ba ni"
proof (rule ccontr)
  assume "pb \<noteq> mapping_blocks_top_ba ni"
  with assms(1) have "pb < mapping_blocks_top_ba ni" by (auto simp: next_spare_def order_less_le)
  with assms show False by (auto simp: next_spare_def)
qed

lemma take_top_distinct:
  assumes m: "mapping_distinct ni" and u: "spares_unused ni" and i: "run_inv ni" and lb: "lb < data_block_count ni"
    and top: "mapping_blocks_ba ni < mapping_blocks_top_ba ni"
  shows "mapping_distinct (take_spare ni lb (mapping_blocks_top_ba ni))"
    "spares_unused (take_spare ni lb (mapping_blocks_top_ba ni))"
proof -
  let ?top = "mapping_blocks_top_ba ni" and ?bm = "block_mapping ni"
  have len: "unat (data_block_count ni) \<le> length ?bm" using i by (simp add: run_inv_def mapped_ok_def)
  have k: "(?bm[unat lb := ?top]) ! x = (if x = unat lb then ?top else ?bm ! x)"
    if "x < unat (data_block_count ni)" for x using that len by (simp add: nth_list_update)
  have fresh: "?bm ! x \<noteq> ?top" if "x < unat (data_block_count ni)" "0 \<le> sint (?bm ! x)" for x
    using u that top by (auto simp: spares_unused_def)
  have pred: "?top - 1 < x \<longleftrightarrow> ?top \<le> x" for x
    using unat_pred [OF top] top by (simp add: word_less_nat_alt word_le_nat_alt) linarith
  show "mapping_distinct (take_spare ni lb ?top)"
    unfolding mapping_distinct_def
  proof (intro allI impI)
    fix x y assume xy: "x < unat (data_block_count (take_spare ni lb ?top))" "y < unat (data_block_count (take_spare ni lb ?top))" "x \<noteq> y"
      and s: "0 \<le> sint (block_mapping (take_spare ni lb ?top) ! x)"
    then have x: "x < unat (data_block_count ni)" and y: "y < unat (data_block_count ni)" by (simp_all add: take_spare_def)
    show "block_mapping (take_spare ni lb ?top) ! x \<noteq> block_mapping (take_spare ni lb ?top) ! y"
      using m [unfolded mapping_distinct_def, rule_format, OF x y xy(3)] s xy(3) x y fresh [OF x] fresh [OF y]
      by (auto simp: take_spare_def k)
  qed
  show "spares_unused (take_spare ni lb ?top)"
    unfolding spares_unused_def
    using u by (auto simp: take_spare_def k spares_unused_def pred)
qed

text \<open>When it is not good, a lower block is taken but the top only goes down by one: the block that
  has just been mapped is still among the spare blocks, and the next call takes it again.\<close>

lemma next_spare_again:
  assumes "next_spare ni pb" "pb < mapping_blocks_top_ba ni"
  shows "next_spare (take_spare ni lb pb) pb"
proof -
  have top: "mapping_blocks_ba ni < mapping_blocks_top_ba ni" using assms by (auto simp: next_spare_def)
  have "pb \<le> mapping_blocks_top_ba ni - 1" by (rule pred_le(2) [OF assms(2)])
  moreover have "mapping_blocks_top_ba ni - 1 \<le> mapping_blocks_top_ba ni"
    using pred_le(1) assms(2) by (metis word_neq_0_conv word_not_simps(1))
  ultimately show ?thesis using assms by (auto simp: next_spare_def take_spare_def)
qed

lemma next_spare_unique: "next_spare ni a \<Longrightarrow> next_spare ni b \<Longrightarrow> a = b"
  by (auto simp: next_spare_def) (metis linorder_neqE)

lemma map_block_takes:
  assumes "spare_ok ni" "next_spare ni pb"
  shows "nmbm_map_block crc ni lb = Some (True, take_spare ni lb pb)"
proof -
  have "mapping_blocks_ba ni \<noteq> mapping_blocks_top_ba ni" using assms(2) by (auto simp: next_spare_def)
  with map_block_cases [OF assms(1), of crc lb] assms(2) show ?thesis
    by (metis next_spare_unique)
qed

lemma map_block_twice:
  assumes s: "spare_ok ni" and sp: "next_spare ni pb" "pb < mapping_blocks_top_ba ni"
    and lb: "unat lb < length (block_mapping ni)" "unat lb' < length (block_mapping ni)" "lb \<noteq> lb'"
  shows "\<exists>n n'. nmbm_map_block crc ni lb = Some (True, n) \<and> nmbm_map_block crc n lb' = Some (True, n') \<and>
    block_mapping n' ! unat lb = pb \<and> block_mapping n' ! unat lb' = pb"
proof -
  let ?n = "take_spare ni lb pb"
  have "spare_ok ?n" using take_spare_ok(1) [OF s sp(1) lb(1)] by (simp add: spares_def)
  from map_block_takes [OF this next_spare_again [OF sp]]
  have "nmbm_map_block crc ?n lb' = Some (True, take_spare ?n lb' pb)" .
  with map_block_takes [OF s sp(1)] lb show ?thesis
    by (auto simp: take_spare_def nth_list_update word_unat_eq_iff)
qed

end
