(* ===== verification/Nmbm_Mtd_Service.thy ===== *)
theory Nmbm_Mtd_Service
  imports Nmbm_Mtd Nmbm_Service
begin

text \<open>
  What the MTD layer promises its callers. On a device that is ready, every operation of
  \<open>nmbm-mtd.c\<close> returns, releases the device and keeps the invariant of the instance below it
  (\<open>mtd_served\<close>); the page-wise loops advance because the column lies inside a page and the OOB
  offset inside the OOB area (\<open>piece_ok\<close>).
\<close>

section \<open>What the lower device keeps\<close>

text \<open>The driver's functions reach the chip through the lower MTD device alone. The sizes of that
  device do not change while it is in use: this is what the model asks of the kernel's MTD calls.\<close>

definition same_shape :: "'m mtd_info \<Rightarrow> 'm mtd_info \<Rightarrow> bool" where
  "same_shape lm lm' \<longleftrightarrow> m_writesize lm' = m_writesize lm \<and> m_writesize_mask lm' = m_writesize_mask lm \<and>
     m_oobsize lm' = m_oobsize lm \<and> m_oobavail lm' = m_oobavail lm"

definition api_keeps_shape :: "'m mtd_api \<Rightarrow> bool" where
  "api_keeps_shape api \<longleftrightarrow>
     (\<forall>lm a ops. same_shape lm (snd (snd (mtd_read_oob api lm a ops)))) \<and>
     (\<forall>lm a ops. same_shape lm (snd (mtd_write_oob api lm a ops))) \<and>
     (\<forall>lm a n b. same_shape lm (snd (mtd_panic_write api lm a n b))) \<and>
     (\<forall>lm a n. same_shape lm (snd (mtd_erase api lm a n))) \<and>
     (\<forall>lm a. same_shape lm (snd (mtd_block_isbad api lm a))) \<and>
     (\<forall>lm a. same_shape lm (snd (mtd_block_markbad api lm a)))"

text \<open>The function pointers \<open>nmbm_probe\<close> fills in.\<close>

definition lower_uses :: "'m mtd_api \<Rightarrow> 'm nmbm_arg nmbm_lower_device \<Rightarrow> bool" where
  "lower_uses api L \<longleftrightarrow> reset_chip L = None \<and> read_page L = Some (nmbm_lower_read_page api) \<and>
     write_page L = Some (nmbm_lower_write_page api) \<and>
     panic_write_page L = Some (nmbm_lower_panic_write_page api) \<and>
     erase_block L = Some (nmbm_lower_erase_block api) \<and>
     is_bad_block L = Some (nmbm_lower_is_bad_block api) \<and>
     mark_bad_block L = Some (nmbm_lower_mark_bad_block api)"

lemma same_shape_refl: "same_shape lm lm"
  by (simp add: same_shape_def)

lemma same_shape_trans: "same_shape a b \<Longrightarrow> same_shape b c \<Longrightarrow> same_shape a c"
  by (simp add: same_shape_def)

lemma lower_ops_shape:
  assumes "api_keeps_shape api"
  shows "nmbm_lower_read_page api d a buf oob mode = (ret, b, o', d') \<Longrightarrow> same_shape (nm_lower d) (nm_lower d')"
    "nmbm_lower_write_page api d a buf oob mode = (ret, d') \<Longrightarrow> same_shape (nm_lower d) (nm_lower d')"
    "nmbm_lower_panic_write_page api d a buf = (ret, d') \<Longrightarrow> same_shape (nm_lower d) (nm_lower d')"
    "nmbm_lower_erase_block api d a = (ret, d') \<Longrightarrow> same_shape (nm_lower d) (nm_lower d')"
    "nmbm_lower_is_bad_block api d a = (ret, d') \<Longrightarrow> same_shape (nm_lower d) (nm_lower d')"
    "nmbm_lower_mark_bad_block api d a = (ret, d') \<Longrightarrow> same_shape (nm_lower d) (nm_lower d')"
proof -
  have s: "same_shape lm (snd (snd (mtd_read_oob api lm a ops)))" "same_shape lm (snd (mtd_write_oob api lm a ops))"
    "same_shape lm (snd (mtd_panic_write api lm a n b))" "same_shape lm (snd (mtd_erase api lm a n))"
    "same_shape lm (snd (mtd_block_isbad api lm a))" "same_shape lm (snd (mtd_block_markbad api lm a))"
    for lm a ops n b using assms by (simp_all add: api_keeps_shape_def)
  show "nmbm_lower_read_page api d a buf oob mode = (ret, b, o', d') \<Longrightarrow> same_shape (nm_lower d) (nm_lower d')"
  proof -
    obtain r ops lm where e: "mtd_read_oob api (nm_lower d) a (lower_page_ops api (nm_lower d) buf oob mode) = (r, ops, lm)"
      by (rule prod_cases3)
    assume "nmbm_lower_read_page api d a buf oob mode = (ret, b, o', d')"
    then have "nm_lower d' = lm" unfolding nmbm_lower_read_page_def Let_def e by (auto split: if_splits)
    then show ?thesis using s(1) [of "nm_lower d" a "lower_page_ops api (nm_lower d) buf oob mode"] by (simp add: e)
  qed
  show "nmbm_lower_write_page api d a buf oob mode = (ret, d') \<Longrightarrow> same_shape (nm_lower d) (nm_lower d')"
    using s(2) [of "nm_lower d" a "lower_page_ops api (nm_lower d) buf oob mode"]
    by (auto simp: nmbm_lower_write_page_def split: prod.splits)
  show "nmbm_lower_panic_write_page api d a buf = (ret, d') \<Longrightarrow> same_shape (nm_lower d) (nm_lower d')"
    using s(3) [of "nm_lower d" a "ucast (m_writesize (nm_lower d))" buf]
    by (auto simp: nmbm_lower_panic_write_page_def split: prod.splits)
  show "nmbm_lower_erase_block api d a = (ret, d') \<Longrightarrow> same_shape (nm_lower d) (nm_lower d')"
    using s(4) [of "nm_lower d" a "ucast (m_erasesize (nm_lower d))"]
    by (auto simp: nmbm_lower_erase_block_def split: prod.splits)
  show "nmbm_lower_is_bad_block api d a = (ret, d') \<Longrightarrow> same_shape (nm_lower d) (nm_lower d')"
    using s(5) [of "nm_lower d" a] by (auto simp: nmbm_lower_is_bad_block_def split: prod.splits)
  show "nmbm_lower_mark_bad_block api d a = (ret, d') \<Longrightarrow> same_shape (nm_lower d) (nm_lower d')"
    using s(6) [of "nm_lower d" a] by (auto simp: nmbm_lower_mark_bad_block_def split: prod.splits)
qed

lemma lower_call_shape:
  assumes "api_keeps_shape api" and L: "lower_uses api L" and c: "lower_call L A d d'"
  shows "same_shape (nm_lower d) (nm_lower d')"
  using c by (cases rule: lower_call.cases)
    (use L lower_ops_shape [OF assms(1)] in \<open>force simp: lower_uses_def\<close>)+

lemma lower_calls_shape:
  assumes "api_keeps_shape api" "lower_uses api L"
  shows "(lower_call L A)\<^sup>*\<^sup>* d d' \<Longrightarrow> same_shape (nm_lower d) (nm_lower d')"
  by (induction rule: rtranclp_induct)
    (auto intro: same_shape_refl same_shape_trans lower_call_shape [OF assms])

text \<open>The invariant of a registered device, and what a call on it may change.\<close>

definition mtd_inv :: "'m mtd_api \<Rightarrow> 'm nmbm_mtd \<Rightarrow> bool" where
  "mtd_inv api nm \<longleftrightarrow> run_inv (nm_ni nm) \<and> lower_uses api (lower (nm_ni nm)) \<and>
     m_writesize (nm_lower_mtd nm) \<noteq> 0 \<and>
     m_writesize_mask (nm_lower_mtd nm) = m_writesize (nm_lower_mtd nm) - 1 \<and>
     (\<exists>k. unat (m_writesize (nm_lower_mtd nm)) = 2 ^ k) \<and>
     m_oobavail (upper nm) = m_oobavail (nm_lower_mtd nm) \<and> m_oobsize (upper nm) = m_oobsize (nm_lower_mtd nm)"

definition mtd_runs :: "'m nmbm_mtd \<Rightarrow> 'm nmbm_mtd \<Rightarrow> bool" where
  "mtd_runs nm n \<longleftrightarrow> runs (nm_ni nm) (nm_ni n) \<and> upper n = upper nm \<and> nm_state n = nm_state nm"

lemma runs_lower_uses: "runs ni n \<Longrightarrow> lower_uses api (lower ni) \<Longrightarrow> lower_uses api (lower n)"
  by (subst run_step_frame(1) [OF runs_frame(1)]) (simp_all add: lower_uses_def)

lemma mtd_inv_runs:
  assumes "api_keeps_shape api" "mtd_inv api nm" "mtd_runs nm n"
  shows "mtd_inv api n" "same_shape (nm_lower_mtd nm) (nm_lower_mtd n)"
proof -
  have r: "runs (nm_ni nm) (nm_ni n)" and L: "lower_uses api (lower (nm_ni nm))"
    using assms by (simp_all add: mtd_runs_def mtd_inv_def)
  show s: "same_shape (nm_lower_mtd nm) (nm_lower_mtd n)"
    unfolding nm_lower_mtd_def
    using r by (intro lower_calls_shape [OF assms(1) L]) (auto simp: runs_def run_step_def)
  show "mtd_inv api n"
    using assms(2,3) s runs_inv [OF r] runs_lower_uses [OF r L]
    by (simp add: mtd_inv_def mtd_runs_def same_shape_def)
qed

lemma mtd_runs_refl: "mtd_inv api nm \<Longrightarrow> mtd_runs nm nm"
  by (simp add: mtd_inv_def mtd_runs_def runs_refl)

lemma mtd_runs_trans: "mtd_runs a b \<Longrightarrow> mtd_runs b c \<Longrightarrow> mtd_runs a c"
  by (auto simp: mtd_runs_def intro: runs_trans)

lemma mtd_runs_cache [simp]:
  "mtd_runs nm (n\<lparr>nm_page_cache := pc\<rparr>) = mtd_runs nm n"
  "mtd_runs (nm\<lparr>nm_page_cache := pc\<rparr>) n = mtd_runs nm n"
  "mtd_inv api (nm\<lparr>nm_page_cache := pc\<rparr>) = mtd_inv api nm"
  "nm_lower_mtd (nm\<lparr>nm_page_cache := pc\<rparr>) = nm_lower_mtd nm"
  by (simp_all add: mtd_runs_def mtd_inv_def nm_lower_mtd_def)

lemma mtd_state [simp]:
  "mtd_inv api (nm\<lparr>nm_state := st\<rparr>) = mtd_inv api nm" "nm_lower_mtd (nm\<lparr>nm_state := st\<rparr>) = nm_lower_mtd nm"
  by (simp_all add: mtd_inv_def nm_lower_mtd_def)

section \<open>Page by page\<close>

text \<open>What makes the loops advance: the column lies in the page and the OOB offset in the OOB area.\<close>

definition piece_ok :: "'m nmbm_mtd \<Rightarrow> u64 \<Rightarrow> u64 \<Rightarrow> u64 \<Rightarrow> u32 \<Rightarrow> u32 \<Rightarrow> bool" where
  "piece_ok nm maxooblen len ooblen col ooboffs \<longleftrightarrow>
     (len \<noteq> 0 \<longrightarrow> col < m_writesize (nm_lower_mtd nm)) \<and> (ooblen \<noteq> 0 \<longrightarrow> ucast ooboffs < maxooblen)"

lemma ucast_diff_pos: "(a :: u32) < b \<Longrightarrow> 0 < (ucast (b - a) :: u64)"
  by (simp add: word_less_nat_alt unat_minus_le word_le_nat_alt)

lemma piece_less:
  fixes len avail :: u64
  assumes "len \<noteq> 0" "0 < avail"
  shows "unat (len - (if len < avail then len else avail)) < unat len"
  using assms by (auto simp: word_less_nat_alt not_less word_le_nat_alt unat_minus_le unat_gt_0)

lemma mtd_chunk_less:
  assumes "ooblen \<noteq> 0" "ucast ooboffs < (maxooblen :: u64)"
  shows "unat (ooblen - mtd_chunk maxooblen ooboffs ooblen) < unat ooblen"
proof -
  have "0 < maxooblen - ucast ooboffs"
    using assms(2) by (simp add: word_less_nat_alt unat_minus_le word_le_nat_alt)
  from piece_less [OF assms(1) this] show ?thesis by (simp add: mtd_chunk_def Let_def)
qed

lemma mtd_read_data_loop_wp:
  assumes api: "api_keeps_shape api"
  shows "mtd_inv api nm \<Longrightarrow> piece_ok nm maxooblen len ooblen col ooboffs \<Longrightarrow>
   wp (mtd_read_data_loop nm dat oob maxooblen mode ops addr len ooblen col ooboffs ecc bf)
     (\<lambda>(ret, ops, n). mtd_runs nm n)"
proof (induction "unat len + unat ooblen" arbitrary: nm ops addr len ooblen col ooboffs ecc bf rule: less_induct)
  case less
  note i = less.prems(1) and p = less.prems(2)
  show ?case
  proof (cases "len \<noteq> 0 \<or> ooblen \<noteq> 0")
    case False
    then show ?thesis using i by (subst mtd_read_data_loop.simps) (simp add: mtd_runs_refl)
  next
    case True
    obtain ret d b ni where rd: "nmbm_read_single_page (nm_ni nm) addr
              (if dat then Some (nm_datcache nm) else None)
              (if oob then Some (nm_oobcache nm) else None) mode = (ret, d, b, ni)" by (rule prod_cases4)
    have "runs (nm_ni nm) ni" using i by (intro read_single_runs [OF _ rd]) (simp add: mtd_inv_def)
    then have r: "mtd_runs nm (nm\<lparr>nm_ni := ni, nm_page_cache := pc\<rparr>)" for pc by (simp add: mtd_runs_def)
    note i' = mtd_inv_runs [OF api i r]
    have ws: "m_writesize (nm_lower_mtd (nm\<lparr>nm_ni := ni\<rparr>)) = m_writesize (nm_lower_mtd nm)"
      using i'(2) [of "[]"] by (simp add: same_shape_def)
    have go: "wp (mtd_read_data_loop (nm\<lparr>nm_ni := ni, nm_page_cache := pc\<rparr>) dat oob maxooblen mode ops' addr' len' ooblen' col' ooboffs' ecc' bf')
        (\<lambda>(ret, ops, n). mtd_runs nm n)"
      if "unat len' + unat ooblen' < unat len + unat ooblen"
        "piece_ok nm maxooblen len' ooblen' col' ooboffs'" for pc ops' addr' len' ooblen' col' ooboffs' ecc' bf'
    proof -
      have "piece_ok (nm\<lparr>nm_ni := ni, nm_page_cache := pc\<rparr>) maxooblen len' ooblen' col' ooboffs'"
        using that(2) by (simp add: piece_ok_def ws)
      from less.hyps [OF that(1) i'(1) this] show ?thesis
        by (rule wp_mono) (auto intro: mtd_runs_trans [OF r])
    qed
    have dl: "unat (len - ucast (m_writesize (nm_lower_mtd nm) - col)) < unat len" "0 < unat len"
      if "len \<noteq> 0" "\<not> len < ucast (m_writesize (nm_lower_mtd nm) - col)"
    proof -
      have "0 < (ucast (m_writesize (nm_lower_mtd nm) - col) :: u64)"
        using p that by (intro ucast_diff_pos) (simp add: piece_ok_def)
      from piece_less [OF that(1) this] that show "unat (len - ucast (m_writesize (nm_lower_mtd nm) - col)) < unat len"
        by simp
    qed (use that in \<open>simp add: unat_gt_0\<close>)
    have dob: "unat (ooblen - mtd_chunk maxooblen ooboffs ooblen) < unat ooblen" if "ooblen \<noteq> 0"
      using p that by (intro mtd_chunk_less) (simp_all add: piece_ok_def)
    have z: "0 < m_writesize (nm_lower_mtd nm)" using i by (simp add: mtd_inv_def word_neq_0_conv)
    have mz: "0 < maxooblen" if "ooblen \<noteq> 0"
      using p that by (auto simp: piece_ok_def word_neq_0_conv [symmetric])
    show ?thesis
    proof (cases "ret < 0 \<and> ret \<noteq> - EBADMSG")
      case True
      then show ?thesis
        using \<open>len \<noteq> 0 \<or> ooblen \<noteq> 0\<close> r by (subst mtd_read_data_loop.simps) (simp add: rd Let_def)
    next
      case False
      then have nh: "(ret < 0 \<and> ret \<noteq> - EBADMSG) = False" by simp
      show ?thesis
        using dl dob p z mz \<open>len \<noteq> 0 \<or> ooblen \<noteq> 0\<close>
        by (subst mtd_read_data_loop.simps; cases "len = 0"; cases "ooblen = 0")
          (simp_all add: rd Let_def nh ws go piece_ok_def unat_gt_0 add_strict_mono)
    qed
  qed
qed

lemma write_data_loop_wp:
  assumes api: "api_keeps_shape api"
  shows "mtd_inv api nm \<Longrightarrow> piece_ok nm maxooblen len ooblen col ooboffs \<Longrightarrow>
   wp (mtd_write_data_loop crc nm dat oob maxooblen mode ops addr len ooblen col ooboffs)
     (\<lambda>(ret, ops, n). mtd_runs nm n)"
proof (induction "unat len + unat ooblen" arbitrary: nm dat oob ops addr len ooblen col ooboffs rule: less_induct)
  case less
  note i = less.prems(1) and p = less.prems(2)
  let ?ws = "m_writesize (nm_lower_mtd nm)"
  show ?case
  proof (cases "len \<noteq> 0 \<or> ooblen \<noteq> 0")
    case False
    then show ?thesis using i by (subst mtd_write_data_loop.simps) (simp add: mtd_runs_refl)
  next
    case True
    have go: "wp (nmbm_write_single_page crc (nm_ni nm) addr d b mode) (\<lambda>(ret, ni).
          (ret \<noteq> 0 \<longrightarrow> mtd_runs nm (nm\<lparr>nm_page_cache := pc, nm_ni := ni\<rparr>)) \<and>
          (ret = 0 \<longrightarrow> wp (mtd_write_data_loop crc (nm\<lparr>nm_page_cache := pc, nm_ni := ni\<rparr>) dat' oob' maxooblen mode ops'
             (addr + ucast ?ws) len' ooblen' col' ooboffs') (\<lambda>(ret, ops, n). mtd_runs nm n)))"
      if m: "unat len' + unat ooblen' < unat len + unat ooblen" "piece_ok nm maxooblen len' ooblen' col' ooboffs'"
      for d b pc dat' oob' ops' len' ooblen' col' ooboffs'
    proof (rule wp_pair [OF write_single_wp], use i in \<open>simp add: mtd_inv_def\<close>)
      fix ret ni assume "runs (nm_ni nm) ni"
      then have r: "mtd_runs nm (nm\<lparr>nm_page_cache := pc, nm_ni := ni\<rparr>)" by (simp add: mtd_runs_def)
      note i' = mtd_inv_runs [OF api i r]
      then have "piece_ok (nm\<lparr>nm_page_cache := pc, nm_ni := ni\<rparr>) maxooblen len' ooblen' col' ooboffs'"
        using m(2) by (simp add: piece_ok_def same_shape_def)
      from less.hyps [OF m(1) i'(1) this]
      have "wp (mtd_write_data_loop crc (nm\<lparr>nm_page_cache := pc, nm_ni := ni\<rparr>) dat' oob' maxooblen mode ops'
          (addr + ucast ?ws) len' ooblen' col' ooboffs') (\<lambda>(ret, ops, n). mtd_runs nm n)"
        by (rule wp_mono) (auto intro: mtd_runs_trans [OF r])
      with r show "(ret \<noteq> 0 \<longrightarrow> mtd_runs nm (nm\<lparr>nm_page_cache := pc, nm_ni := ni\<rparr>)) \<and>
          (ret = 0 \<longrightarrow> wp (mtd_write_data_loop crc (nm\<lparr>nm_page_cache := pc, nm_ni := ni\<rparr>) dat' oob' maxooblen mode ops'
             (addr + ucast ?ws) len' ooblen' col' ooboffs') (\<lambda>(ret, ops, n). mtd_runs nm n))" by simp
    qed
    have dl: "unat (len - ucast (?ws - col)) < unat len" "0 < unat len"
      if "len \<noteq> 0" "\<not> len < ucast (?ws - col)"
    proof -
      have "0 < (ucast (?ws - col) :: u64)"
        using p that by (intro ucast_diff_pos) (simp add: piece_ok_def)
      from piece_less [OF that(1) this] that show "unat (len - ucast (?ws - col)) < unat len" by simp
    qed (use that in \<open>simp add: unat_gt_0\<close>)
    have dob: "unat (ooblen - mtd_chunk maxooblen ooboffs ooblen) < unat ooblen" if "ooblen \<noteq> 0"
      using p that by (intro mtd_chunk_less) (simp_all add: piece_ok_def)
    have z: "0 < ?ws" using i by (simp add: mtd_inv_def word_neq_0_conv)
    have mz: "0 < maxooblen" if "ooblen \<noteq> 0"
      using p that by (auto simp: piece_ok_def word_neq_0_conv [symmetric])
    show ?thesis
      using dl dob p z mz True
      by (subst mtd_write_data_loop.simps; cases "len = 0"; cases "ooblen = 0")
        (simp_all add: go Let_def piece_ok_def unat_gt_0 add_strict_mono)
  qed
qed

lemma panic_write_loop_wp:
  assumes api: "api_keeps_shape api"
  shows "mtd_inv api nm \<Longrightarrow> col < m_writesize (nm_lower_mtd nm) \<Longrightarrow>
   wp (mtd_panic_write_loop crc nm to len wrlen buf col) (\<lambda>(n, nm'). mtd_runs nm nm')"
proof (induction "unat len" arbitrary: nm to len wrlen col rule: less_induct)
  case less
  note i = less.prems(1) and c = less.prems(2)
  let ?ws = "m_writesize (nm_lower_mtd nm)"
  let ?n = "\<lambda>pc ni. nm\<lparr>nm_page_cache := pc, nm_ni := ni\<rparr>"
  show ?case
  proof (cases "len = 0")
    case True
    then show ?thesis using i by (subst mtd_panic_write_loop.simps) (simp add: mtd_runs_refl)
  next
    case False
    note m = piece_less [OF False ucast_diff_pos [OF c]]
    have go: "wp (nmbm_panic_write_single_page crc (nm_ni nm) to d) (\<lambda>(ret, ni).
        (ret \<noteq> 0 \<longrightarrow> mtd_runs nm (?n pc ni)) \<and>
        (ret = 0 \<longrightarrow> wp (mtd_panic_write_loop crc (?n pc ni) (to + ucast ?ws) rest' wrlen' buf 0)
           (\<lambda>(n, nm'). mtd_runs nm nm')))"
      if m: "unat rest' < unat len" for d pc wrlen' rest'
    proof (rule wp_pair [OF panic_write_single_wp], use i in \<open>simp add: mtd_inv_def\<close>)
      fix ret ni assume "runs (nm_ni nm) ni"
      then have r: "mtd_runs nm (?n pc ni)" by (simp add: mtd_runs_def)
      note i' = mtd_inv_runs [OF api i r]
      have "0 < ?ws" using i by (simp add: mtd_inv_def word_neq_0_conv)
      then have "0 < m_writesize (nm_lower_mtd (?n pc ni))" using i'(2) by (simp add: same_shape_def)
      from less.hyps [OF m i'(1) this]
      have "wp (mtd_panic_write_loop crc (?n pc ni) (to + ucast ?ws) rest' wrlen' buf 0)
           (\<lambda>(n, nm'). mtd_runs nm nm')" by (rule wp_mono) (auto intro: mtd_runs_trans [OF r])
      with r show "(ret \<noteq> 0 \<longrightarrow> mtd_runs nm (?n pc ni)) \<and>
        (ret = 0 \<longrightarrow> wp (mtd_panic_write_loop crc (?n pc ni) (to + ucast ?ws) rest' wrlen' buf 0)
           (\<lambda>(n, nm'). mtd_runs nm nm'))" by simp
    qed
    show ?thesis
      using False m by (cases "len < ucast (?ws - col)"; subst mtd_panic_write_loop.simps)
        (simp_all add: Let_def go del: mtd_runs_cache)
  qed
qed

lemma page_col_less:
  assumes "mtd_inv api nm"
  shows "mtd_page_col (nm_lower_mtd nm) addr < m_writesize (nm_lower_mtd nm)"
proof -
  let ?w = "m_writesize (nm_lower_mtd nm)"
  obtain k where w: "unat ?w = 2 ^ k" and mask: "m_writesize_mask (nm_lower_mtd nm) = ?w - 1"
    using assms by (auto simp: mtd_inv_def)
  have "(2::nat) ^ k < 2 ^ 32" using unsigned_less [of ?w, where ?'a = nat] by (simp add: w)
  then have k: "k < 32" by (rule power_less_imp_less_exp [rotated]) simp
  have "unat addr mod unat ?w < unat ?w" by (simp add: w)
  then show ?thesis
    using unsigned_less [of ?w, where ?'a = nat]
    by (simp add: mtd_page_col_def mask word_less_nat_alt unsigned_ucast_eq take_bit_nat_eq_self mask_mod [OF w k])
qed

section \<open>The MTD operations\<close>

text \<open>A call on a device that is ready returns with the device ready again and its invariant kept.\<close>

definition mtd_served :: "'m mtd_api \<Rightarrow> 'm nmbm_mtd \<Rightarrow> 'm nmbm_mtd \<Rightarrow> bool" where
  "mtd_served api nm n \<longleftrightarrow> mtd_inv api n \<and> mtd_runs nm n"

lemma served: "api_keeps_shape api \<Longrightarrow> mtd_inv api nm \<Longrightarrow> mtd_runs nm n \<Longrightarrow> mtd_served api nm n"
  by (simp add: mtd_served_def mtd_inv_runs)

lemma served_ni:
  assumes "api_keeps_shape api" "mtd_inv api nm" "nm_state nm = FL_READY" "runs (nm_ni nm) ni"
  shows "mtd_served api nm (nmbm_release_device (nm\<lparr>nm_state := st, nm_ni := ni\<rparr>))"
  by (rule served [OF assms(1,2)]) (simp add: mtd_runs_def nmbm_release_device_def assms)

lemma served_loop:
  assumes "api_keeps_shape api" "mtd_inv api nm" "nm_state nm = FL_READY" "mtd_runs (nm\<lparr>nm_state := st\<rparr>) n"
  shows "mtd_served api nm (nmbm_release_device n)"
  using assms(4) by (intro served [OF assms(1,2)]) (simp add: mtd_runs_def nmbm_release_device_def assms)

lemma get_ready: "nm_state nm = FL_READY \<Longrightarrow> nmbm_get_device nm st = Some (nm\<lparr>nm_state := st\<rparr>)"
  by (simp add: nmbm_get_device_def try_get_device_def)

lemma mtd_erase_wp:
  assumes "api_keeps_shape api" "mtd_inv api nm" "nm_state nm = FL_READY" "unat addr + unat len < 2 ^ 64"
  shows "wp (nmbm_mtd_erase crc nm addr len) (\<lambda>(ret, failed, n). mtd_served api nm n \<and>
    (ret = 0 \<or> ret = - EIO) \<and> (ret = 0 \<longrightarrow> failed = None))"
proof -
  have i: "run_inv (nm_ni nm)" using assms(2) by (simp add: mtd_inv_def)
  have "wp (nmbm_erase_block_range crc (nm_ni nm) addr len) (\<lambda>(ret, failed, n). runs (nm_ni nm) n \<and> (ret = 0 \<longrightarrow> failed = None))"
    by (rule wp_mono [OF erase_block_range_wp [OF i assms(4)]])
      (auto simp: erase_range_result_def runs_refl i split: if_splits)
  then show ?thesis
    by (auto simp: nmbm_mtd_erase_def get_ready assms(3) Let_def intro: served_ni [OF assms(1-3)] elim!: wp_mono split: if_splits)
qed

text \<open>The OOB offset has been checked against the upper device, whose sizes are the lower one's.\<close>

lemma piece_ok_start:
  assumes i: "mtd_inv api nm"
    and "\<not> mtd_oob_outside (upper nm) (mtd_oobavail api (m_oobavail (upper nm)) (m_oobsize (upper nm)) (ops_mode ops)) from ops"
  shows "piece_ok (nm\<lparr>nm_state := st\<rparr>) (ucast (mtd_oobavail api (m_oobavail (nm_lower_mtd nm)) (m_oobsize (nm_lower_mtd nm)) (ops_mode ops)))
    len ooblen (mtd_page_col (nm_lower_mtd nm) addr) (ops_ooboffs ops)"
  using assms page_col_less [OF i, of addr]
  by (simp add: piece_ok_def mtd_oob_outside_def mtd_inv_def word_less_nat_alt word_le_nat_alt)

lemma mtd_read_oob_wp:
  assumes a: "api_keeps_shape api" "mtd_inv api nm" "nm_state nm = FL_READY"
  shows "wp (nmbm_mtd_read_oob api nm from ops) (\<lambda>(ret, ops', n). mtd_served api nm n)"
proof -
  let ?nm = "nm\<lparr>nm_state := FL_READING\<rparr>"
  have i: "run_inv (nm_ni nm)" using a by (simp add: mtd_inv_def)
  have same: "mtd_served api nm nm" by (intro served a mtd_runs_refl [OF a(2)])
  have rng: "wp (nmbm_read_range (nm_ni nm) from sz data mode) (\<lambda>(ret, data, retlen, ni).
      mtd_served api nm (nmbm_release_device (nm\<lparr>nm_state := FL_READING, nm_ni := ni\<rparr>)))" for sz data mode
    by (rule wp_mono [OF read_range_wp [OF run_inv_geom [OF i]]], clarsimp)
      (intro served_ni [OF a] runs_chip [OF i], erule chip_evolves_mono, simp)
  have data: "wp (nmbm_mtd_read_data api ?nm from ops mode) (\<lambda>(ret, ops, n). mtd_served api nm (nmbm_release_device n))"
    if "\<not> mtd_oob_outside (upper nm) (mtd_oobavail api (m_oobavail (upper nm)) (m_oobsize (upper nm)) (ops_mode ops)) from ops"
    for mode
    unfolding nmbm_mtd_read_data_def Let_def
    by (rule wp_mono [OF mtd_read_data_loop_wp [OF a(1)]])
      (use a(2) piece_ok_start [OF a(2) that] in \<open>auto intro: served_loop [OF a]\<close>)
  show ?thesis
    using rng data same by (simp add: nmbm_mtd_read_oob_def get_ready a(3) Let_def case_prod_unfold)
qed

lemma mtd_write_oob_wp:
  assumes a: "api_keeps_shape api" "mtd_inv api nm" "nm_state nm = FL_READY"
    and nw: "unat to + unat (ops_len ops) < 2 ^ 64"
  shows "wp (nmbm_mtd_write_oob api crc nm to ops) (\<lambda>(ret, ops', n). mtd_served api nm n)"
proof -
  let ?nm = "nm\<lparr>nm_state := FL_WRITING\<rparr>"
  have i: "run_inv (nm_ni nm)" using a by (simp add: mtd_inv_def)
  have same: "mtd_served api nm nm" by (intro served a mtd_runs_refl [OF a(2)])
  have rng: "wp (nmbm_write_range crc (nm_ni nm) to (ops_len ops) data mode) (\<lambda>(ret, retlen, ni).
      mtd_served api nm (nmbm_release_device (nm\<lparr>nm_state := FL_WRITING, nm_ni := ni\<rparr>)))" for data mode
    by (rule wp_mono [OF write_range_wp [OF i nw]]) (auto intro: served_ni [OF a] simp: runs_refl [OF i] split: if_splits)
  have data: "wp (nmbm_mtd_write_data api crc ?nm to ops mode) (\<lambda>(ret, ops, n). mtd_served api nm (nmbm_release_device n))"
    if "\<not> mtd_oob_outside (upper nm) (mtd_oobavail api (m_oobavail (upper nm)) (m_oobsize (upper nm)) (ops_mode ops)) to ops"
    for mode
    unfolding nmbm_mtd_write_data_def Let_def
    by (rule wp_mono [OF write_data_loop_wp [OF a(1)]])
      (use a(2) piece_ok_start [OF a(2) that] in \<open>auto intro: served_loop [OF a]\<close>)
  show ?thesis
    using rng data same by (simp add: nmbm_mtd_write_oob_def get_ready a(3) Let_def case_prod_unfold)
qed

lemma mtd_panic_write_wp:
  assumes a: "api_keeps_shape api" "mtd_inv api nm"
  shows "wp (nmbm_mtd_panic_write crc nm to len buf) (\<lambda>(ret, retlen, n). ret = 0 \<and> mtd_served api nm n)"
  unfolding nmbm_mtd_panic_write_def Let_def wp_bind
  by (rule wp_mono [OF panic_write_loop_wp [OF a page_col_less [OF a(2)]]]) (auto intro: served [OF a])

lemma mtd_block_isbad_wp:
  assumes a: "api_keeps_shape api" "mtd_inv api nm" "nm_state nm = FL_READY"
  shows "wp (nmbm_mtd_block_isbad nm offs) (\<lambda>(ret, n). n = nm \<and> ret = nmbm_check_bad_block (nm_ni nm) offs)"
  by (simp add: nmbm_mtd_block_isbad_def get_ready a(3) nmbm_release_device_def)

lemma mtd_block_markbad_wp:
  assumes a: "api_keeps_shape api" "mtd_inv api nm" "nm_state nm = FL_READY"
  shows "wp (nmbm_mtd_block_markbad crc nm offs) (\<lambda>(ret, n). mtd_served api nm n)"
proof -
  have i: "run_inv (nm_ni nm)" using a by (simp add: mtd_inv_def)
  have "wp (nmbm_mark_bad_block crc (nm_ni nm) offs) (\<lambda>(ret, n). runs (nm_ni nm) n)"
    by (rule wp_mono [OF mark_bad_block_wp [OF i]]) (auto simp: Let_def runs_refl [OF i] split: if_splits)
  then show ?thesis
    by (auto simp: nmbm_mtd_block_markbad_def get_ready a(3) Let_def intro: served_ni [OF a] elim!: wp_mono)
qed

end
