(* ===== verification/Nmbm_Read.thy ===== *)
theory Nmbm_Read
  imports Nmbm_Logic
begin

text \<open>
  What \<open>nmbm_read_range\<close> returns, from what each of its pages returned: the pages it goes through,
  in order, the results of reading them, and how the result code and the length follow from these.
\<close>

section \<open>The pages a read goes through\<close>

text \<open>The addresses of the pages that hold the bytes of a range, in order: from the page of the first
  byte to the page of the last.\<close>

definition range_pages :: "'d nmbm_instance \<Rightarrow> u64 \<Rightarrow> u64 \<Rightarrow> u64 list" where
  "range_pages ni off sz =
     (let w = unat (writesize (lower ni))
      in map (\<lambda>k. (off - range_leading ni off) + of_nat (k * w))
           [0..<if sz = 0 then 0 else (unat off mod w + unat sz - 1) div w + 1])"

text \<open>Reading pages one after the other, and what each read returns: an input/output error for a page
  with no usable physical block, else the result of reading the physical page. The page cache is
  scratch memory.\<close>

inductive page_reads ::
  "nmbm_oob_mode \<Rightarrow> 'd nmbm_instance \<Rightarrow> u64 list \<Rightarrow> int list \<Rightarrow> 'd nmbm_instance \<Rightarrow> bool"
  for mode :: nmbm_oob_mode where
  page_reads_Nil: "page_reads mode ni [] [] ni"
| page_reads_unmapped: "\<not> readable ni a \<Longrightarrow> page_reads mode (ni\<lparr>page_cache := pc\<rparr>) as rs n \<Longrightarrow>
     page_reads mode ni (a # as) (- EIO # rs) n"
| page_reads_page: "readable ni a \<Longrightarrow>
     nmbm_read_phys_page ni (phys_addr ni a) (Some buf) None mode = (r, buf', oob', n1) \<Longrightarrow>
     page_reads mode (n1\<lparr>page_cache := pc\<rparr>) as rs n \<Longrightarrow>
     page_reads mode ni (a # as) (r # rs) n"

lemma page_reads_logic:
  assumes "nmbm_read_logic_page ni a (Some buf) None mode = (r, buf', oob', n1)"
    and "page_reads mode (n1\<lparr>page_cache := pc\<rparr>) as rs n"
  shows "page_reads mode ni (a # as) (r # rs) n"
proof (cases "readable ni a")
  case True
  then have "nmbm_read_phys_page ni (phys_addr ni a) (Some buf) None mode = (r, buf', oob', n1)"
    using assms(1) by (simp add: nmbm_read_logic_page_def readable_def Let_def phys_addr_def not_less)
  then show ?thesis using True assms(2) by (blast intro: page_reads_page)
next
  case False
  then have "r = - EIO \<and> n1 = ni"
    using assms(1) by (auto simp: nmbm_read_logic_page_def readable_def Let_def not_le split: if_splits)
  then show ?thesis using False assms(2) by (blast intro: page_reads_unmapped)
qed

lemma writesize_dvd: "geom ni \<Longrightarrow> unat (writesize (lower ni)) dvd 2 ^ 64"
proof -
  assume "geom ni"
  then obtain k where k: "unat (writesize (lower ni)) = 2 ^ k" "k \<le> 64" by (auto simp: geom_def)
  show ?thesis unfolding k(1) by (rule le_imp_power_dvd [OF k(2)])
qed

lemma range_pages_0 [simp]: "range_pages ni off 0 = []"
  by (simp add: range_pages_def)

lemma range_pages_evolves: "chip_evolves A ni n \<Longrightarrow> range_pages n off sz = range_pages ni off sz"
proof -
  assume "chip_evolves A ni n"
  then obtain d pc where "n = (set_chip d ni)\<lparr>page_cache := pc\<rparr>" by (auto simp: chip_evolves_def)
  then show ?thesis by (simp add: range_pages_def range_leading_def set_chip_def)
qed

lemma range_pages_Cons:
  fixes ni :: "'d nmbm_instance" and off sz :: u64
  assumes g: "geom ni" and nz: "sz \<noteq> 0"
  defines "l \<equiv> range_leading ni off"
  defines "c \<equiv> range_chunk ni l sz"
  shows "range_pages ni off sz = (off - l) # range_pages ni (off + c) (sz - c)"
    and "sz \<noteq> c \<Longrightarrow> unat off mod unat (writesize (lower ni)) + unat c = unat (writesize (lower ni)) \<and>
       unat (off + c) mod unat (writesize (lower ni)) = 0"
proof -
  let ?w = "unat (writesize (lower ni))" and ?o = "unat off mod unat (writesize (lower ni))"
  have w: "0 < ?w" using geom_sizes(1) [OF g] by simp
  have o: "?o < ?w" using w by simp
  have c: "unat c = min (unat sz) (?w - ?o)" "c \<le> sz"
    using range_chunk_bounds [OF g nz, of off] by (simp_all add: c_def l_def)
  have s: "unat (sz - c) = unat sz - unat c" using c(2) by (rule unat_minus_le)
  have s0: "0 < unat sz" using nz by (simp add: unat_gt_0)
  have l: "unat l = ?o" by (simp add: l_def range_leading_mod [OF g])
  have full: "?o + unat c = ?w \<and> unat (off + c) mod ?w = 0" if ne: "sz \<noteq> c"
  proof -
    have "unat c \<noteq> unat sz" using ne by (simp add: word_unat_eq_iff)
    then have a: "?o + unat c = ?w" using c(1) o by (simp add: min_def split: if_splits)
    have "unat (off + c) mod ?w = (unat off + unat c) mod 2 ^ 64 mod ?w"
      by (simp add: unat_word_ariths)
    also have "\<dots> = (unat off + unat c) mod ?w" by (rule mod_mod_cancel [OF writesize_dvd [OF g]])
    also have "\<dots> = (?o + unat c) mod ?w" by (simp add: mod_add_left_eq)
    finally show ?thesis using a by simp
  qed
  show "?o + unat c = ?w \<and> unat (off + c) mod ?w = 0" if "sz \<noteq> c" using full [OF that] .
  show "range_pages ni off sz = (off - l) # range_pages ni (off + c) (sz - c)"
  proof (cases "sz = c")
    case True
    then have "?o + unat sz - 1 < ?w" using c(1) o s0 by (simp add: min_def split: if_splits)
    then show ?thesis using True nz by (simp add: range_pages_def Let_def l_def)
  next
    case False
    note f = full [OF False]
    have cw: "unat c < unat sz" using c False by (simp add: word_unat_eq_iff word_le_nat_alt)
    have l0: "range_leading ni (off + c) = 0"
      by (simp add: word_unat_eq_iff range_leading_mod [OF g] f)
    have next_page: "off + c = (off - l) + of_nat ?w"
    proof -
      have "off + c = (off - l) + of_nat (unat l + unat c)" by simp
      also have "unat l + unat c = ?w" using f l by simp
      finally show ?thesis .
    qed
    have N: "(?o + unat sz - 1) div ?w = (unat (sz - c) - 1) div ?w + 1"
    proof -
      have "?o + unat sz - 1 = (unat (sz - c) - 1) + ?w" using s cw f by linarith
      then show ?thesis using div_add_self2 [of ?w "unat (sz - c) - 1"] w by simp 
    qed
    have u: "[0..<Suc (Suc m)] = 0 # map Suc [0..<Suc m]" for m
      by (simp only: map_Suc_upt) (rule upt_conv_Cons, simp)
    have e: "(off - l) + of_nat (Suc k * ?w) = off + c + of_nat (k * ?w)" for k
      by (simp only: next_page) (simp add: algebra_simps)
    show ?thesis using nz False
      by (simp only: range_pages_def Let_def l0 f N if_False right_minus_eq diff_zero l_def [symmetric] add_0
        Suc_eq_plus1 [symmetric] u list.map map_map o_def e mult_0) simp
  qed
qed


text \<open>What a read of a range comes to: the results of its pages, of which only the last can be a hard
  error. On a hard error the bytes of the pages before it have been read.\<close>

definition read_trace ::
  "nmbm_oob_mode \<Rightarrow> 'd nmbm_instance \<Rightarrow> u64 \<Rightarrow> u64 \<Rightarrow> int list \<Rightarrow> 'd nmbm_instance \<Rightarrow> bool" where
  "read_trace mode ni off sz rs n \<longleftrightarrow>
     page_reads mode ni (take (length rs) (range_pages ni off sz)) rs n \<and>
     length rs \<le> length (range_pages ni off sz) \<and>
     (\<forall>r \<in> set (butlast rs). \<not> hard_error r)"

definition trace_outcome ::
  "nmbm_oob_mode \<Rightarrow> 'd nmbm_instance \<Rightarrow> u64 \<Rightarrow> u64 \<Rightarrow> bool \<Rightarrow> int \<Rightarrow> int \<Rightarrow>
   int \<times> bool \<times> int \<times> u64 \<times> u8 list \<times> 'd nmbm_instance \<Rightarrow> bool" where
  "trace_outcome mode ni off sz ecc bf lr res = (case res of (ret, ecc', bf', rest, data, n) \<Rightarrow>
     \<exists>rs. read_trace mode ni off sz rs n \<and>
       (if rs \<noteq> [] \<and> hard_error (last rs)
        then ret = last rs \<and> rest \<le> sz \<and> unat rest + ((length rs - 1) * unat (writesize (lower ni))
               - unat off mod unat (writesize (lower ni))) = unat sz
        else length rs = length (range_pages ni off sz) \<and> rest = 0 \<and> ret = last (lr # rs) \<and>
          ecc' = (ecc \<or> - EBADMSG \<in> set rs) \<and> bf' = Max (insert bf (set rs))))"

lemma Max_fold: "Max (insert (if bf < r then r else bf) (set rs)) = Max (insert bf (insert (r :: int) (set rs)))"
  by (cases "rs = []") (auto simp: max_def)

lemma trace_outcome_Cons:
  fixes ni n1 :: "'d nmbm_instance" and off sz :: u64
  assumes g: "geom ni" and nz: "sz \<noteq> 0" and nh: "\<not> hard_error r"
  defines "l \<equiv> range_leading ni off"
  defines "c \<equiv> range_chunk ni l sz"
  assumes e: "chip_evolves {} ni n1"
    and p: "\<And>as rs n. page_reads mode n1 as rs n \<Longrightarrow> page_reads mode ni ((off - l) # as) (r # rs) n"
    and t: "trace_outcome mode n1 (off + c) (sz - c) (ecc \<or> r = - EBADMSG) (if bf < r then r else bf) r res"
  shows "trace_outcome mode ni off sz ecc bf lr res"
proof -
  let ?w = "unat (writesize (lower ni))"
  obtain ret ecc' bf' rest d n where res: "res = (ret, ecc', bf', rest, d, n)" by (metis prod_cases6)
  have w: "writesize (lower n1) = writesize (lower ni)"
    using e by (auto simp: chip_evolves_def set_chip_def)
  note rp = range_pages_Cons [OF g nz, of off, folded l_def, folded c_def]
  have cle: "c \<le> sz" using range_chunk_bounds(3) [OF g nz, of off] by (simp add: c_def l_def)
  have s: "unat (sz - c) = unat sz - unat c" "unat c \<le> unat sz"
    using cle by (auto simp: unat_minus_le word_le_nat_alt)
  obtain rs where tr: "read_trace mode n1 (off + c) (sz - c) rs n"
    and o: "if rs \<noteq> [] \<and> hard_error (last rs)
        then ret = last rs \<and> rest \<le> sz - c \<and> unat rest + ((length rs - 1) * ?w - unat (off + c) mod ?w) = unat (sz - c)
        else length rs = length (range_pages ni (off + c) (sz - c)) \<and> rest = 0 \<and> ret = last (r # rs) \<and>
          ecc' = (ecc \<or> r = - EBADMSG \<or> - EBADMSG \<in> set rs) \<and>
          bf' = Max (insert (if bf < r then r else bf) (set rs))"
    using t unfolding trace_outcome_def res prod.case w range_pages_evolves [OF e] disj_assoc by blast
  have "read_trace mode ni off sz (r # rs) n"
    using tr nh by (auto simp: read_trace_def rp(1) range_pages_evolves [OF e] intro: p)
  moreover have "rest \<le> sz \<and> unat rest + (length rs * ?w - unat off mod ?w) = unat sz"
    if h: "rs \<noteq> []" "hard_error (last rs)"
  proof -
    from o h have a: "rest \<le> sz - c" "unat rest + ((length rs - 1) * ?w - unat (off + c) mod ?w) = unat (sz - c)"
      by simp_all
    have "length rs \<le> length (range_pages ni (off + c) (sz - c))"
      using tr by (simp add: read_trace_def range_pages_evolves [OF e])
    then have "sz \<noteq> c" using h by auto
    note f = rp(2) [OF this]
    have "length rs * ?w = (length rs - 1) * ?w + ?w" using h(1) by (cases rs) simp_all
    then have "unat rest + (length rs * ?w - unat off mod ?w) = unat sz"
      using a(2) f s by linarith
    then show ?thesis by (simp add: word_le_nat_alt)
  qed
  ultimately have "read_trace mode ni off sz (r # rs) n \<and>
     (if r # rs \<noteq> [] \<and> hard_error (last (r # rs))
      then ret = last (r # rs) \<and> rest \<le> sz \<and>
        unat rest + ((length (r # rs) - 1) * ?w - unat off mod ?w) = unat sz
      else length (r # rs) = length (range_pages ni off sz) \<and> rest = 0 \<and> ret = last (lr # r # rs) \<and>
        ecc' = (ecc \<or> - EBADMSG \<in> set (r # rs)) \<and> bf' = Max (insert bf (set (r # rs))))"
    using o nh by (cases "rs = []") (auto simp: rp(1) Max_fold)
  then show ?thesis unfolding trace_outcome_def res prod.case by blast
qed

lemma trace_outcome_hard:
  assumes g: "geom ni" and nz: "sz \<noteq> 0" and h: "hard_error r"
    and p: "page_reads mode ni [off - range_leading ni off] [r] n"
  shows "trace_outcome mode ni off sz ecc bf lr (r, ecc, bf, sz, d, n)"
  using assms range_pages_Cons(1) [OF g nz, of off]
  by (auto simp: trace_outcome_def read_trace_def intro!: exI [of _ "[r]"])

lemma read_range_loop_trace:
  "geom ni \<Longrightarrow> wp (read_range_loop ni off data pos sz mode ecc bf lr) (trace_outcome mode ni off sz ecc bf lr)"
proof (induction "unat sz" arbitrary: ni off data pos sz ecc bf lr rule: less_induct)
  case less
  note g = less.prems(1)
  show ?case
  proof (cases "sz = 0")
    case True
    then show ?thesis using less.prems
      by (subst read_range_loop.simps) (auto simp: trace_outcome_def read_trace_def intro: page_reads_Nil)
  next
    case False
    let ?l = "range_leading ni off"
    let ?c = "range_chunk ni ?l sz"
    have m: "unat (sz - ?c) < unat sz" using range_chunk_bounds [OF g False, of off] by (intro unat_minus_less)
    have step: "wp (if r < 0 \<and> r \<noteq> - EBADMSG then Some (r, ecc, bf, sz, d, nj)
           else read_range_loop nj (off + ?c) d (pos + unat ?c) (sz - ?c) mode (ecc \<or> r = - EBADMSG)
                  (if bf < r then r else bf) r) (trace_outcome mode ni off sz ecc bf lr)"
      if e: "chip_evolves {} ni nj"
        and p: "\<And>as rs n. page_reads mode nj as rs n \<Longrightarrow> page_reads mode ni ((off - ?l) # as) (r # rs) n" for nj r d
    proof (cases "hard_error r")
      case True
      then show ?thesis
        using trace_outcome_hard [OF g False True p [OF page_reads_Nil], of ecc bf lr d] by (simp add: hard_error_def)
    next
      case nh: False
      have "wp (read_range_loop nj (off + ?c) d (pos + unat ?c) (sz - ?c) mode (ecc \<or> r = - EBADMSG)
             (if bf < r then r else bf) r)
           (trace_outcome mode nj (off + ?c) (sz - ?c) (ecc \<or> r = - EBADMSG) (if bf < r then r else bf) r)"
        by (rule less.hyps [OF m]) (simp add: geom_evolves [OF e] g)
      then have "wp (read_range_loop nj (off + ?c) d (pos + unat ?c) (sz - ?c) mode (ecc \<or> r = - EBADMSG)
             (if bf < r then r else bf) r) (trace_outcome mode ni off sz ecc bf lr)"
        by (rule wp_mono) (rule trace_outcome_Cons [OF g False nh e p])
      with nh show ?thesis by (auto simp: hard_error_def)
    qed
    obtain r1 d1 o1 n1 where 1: "nmbm_read_logic_page ni (off - ?l)
        (Some (slice pos (unat (writesize (lower ni))) data)) None mode = (r1, d1, o1, n1)" by (metis prod_cases4)
    obtain r2 d2 o2 n2 where 2: "nmbm_read_logic_page ni (off - ?l) (Some (cache_data ni)) None mode = (r2, d2, o2, n2)"
      by (metis prod_cases4)
    show ?thesis
    proof (cases "?c = ucast (writesize (lower ni))")
      case True
      have p1: "page_reads mode ni ((off - ?l) # as) (r1 # rs) n" if "page_reads mode n1 as rs n" for as rs n
        by (rule page_reads_logic [OF 1, of "page_cache n1"]) (use that in simp)
      show ?thesis
        by (subst read_range_loop.simps)
          (simp only: False Let_def if_P [OF True] 1 prod.case simp_thms if_True,
           rule step [OF read_logic_evolves [OF 1] p1])
    next
      case part: False
      note e2 = chip_evolves_trans [OF read_logic_evolves [OF 2] chip_evolves_page_cache]
      note p2 = page_reads_logic [OF 2]
      show ?thesis
        by (subst read_range_loop.simps, simp only: False Let_def if_not_P [OF part] 2 prod.case simp_thms if_True)
          (cases "r2 < 0 \<and> r2 \<noteq> - EBADMSG"; simp only: prod.case if_True if_False simp_thms; use step [OF e2 p2] in force)
    qed
  qed
qed

text \<open>The result of a read that goes to the chip, from the results of its pages.\<close>

definition read_range_exact ::
  "nmbm_oob_mode \<Rightarrow> 'd nmbm_instance \<Rightarrow> u64 \<Rightarrow> u64 \<Rightarrow> int \<Rightarrow> u64 \<Rightarrow> 'd nmbm_instance \<Rightarrow> bool" where
  "read_range_exact mode ni addr sz ret len n \<longleftrightarrow>
     (\<exists>rs. rs \<noteq> [] \<and> read_trace mode ni addr sz rs n \<and>
       (if hard_error (last rs)
        then ret = last rs \<and> unat len = (length rs - 1) * unat (writesize (lower ni))
               - unat addr mod unat (writesize (lower ni))
        else length rs = length (range_pages ni addr sz) \<and> len = sz \<and>
          ret = (if - EBADMSG \<in> set rs then - EBADMSG else Max (insert 0 (set rs)))))"

lemma trace_outcome_exact:
  assumes g: "geom ni" and nz: "sz \<noteq> 0" and t: "trace_outcome mode ni addr sz False 0 0 (ret, ecc, bf, rest, data, n)"
  shows "read_range_exact mode ni addr sz (if ret < 0 \<and> ret \<noteq> - EBADMSG then ret else if ecc then - EBADMSG else bf)
    (sz - rest) n"
proof -
  obtain rs where tr: "read_trace mode ni addr sz rs n"
    and o: "if rs \<noteq> [] \<and> hard_error (last rs)
        then ret = last rs \<and> rest \<le> sz \<and> unat rest + ((length rs - 1) * unat (writesize (lower ni))
               - unat addr mod unat (writesize (lower ni))) = unat sz
        else length rs = length (range_pages ni addr sz) \<and> rest = 0 \<and> ret = last (0 # rs) \<and>
          ecc = (- EBADMSG \<in> set rs) \<and> bf = Max (insert 0 (set rs))"
    using t unfolding trace_outcome_def prod.case simp_thms by blast
  have ne: "rs \<noteq> []" using o range_pages_Cons(1) [OF g nz, of addr] by auto
  show ?thesis
  proof (cases "hard_error (last rs)")
    case True
    then have a: "ret = last rs" "rest \<le> sz" "unat rest + ((length rs - 1) * unat (writesize (lower ni))
               - unat addr mod unat (writesize (lower ni))) = unat sz" using o ne by simp_all
    have "unat (sz - rest) = unat sz - unat rest" using a(2) by (rule unat_minus_le)
    then have b: "unat (sz - rest) = (length rs - 1) * unat (writesize (lower ni))
               - unat addr mod unat (writesize (lower ni))" using a(3) by linarith
    have "(if ret < 0 \<and> ret \<noteq> - EBADMSG then ret else if ecc then - EBADMSG else bf) = last rs"
      using True a(1) by (simp only: hard_error_def simp_thms if_True)
    then show ?thesis
      unfolding read_range_exact_def using ne tr True b by (intro exI [of _ rs]) simp
  next
    case False
    then have a: "length rs = length (range_pages ni addr sz)" "rest = 0" "ret = last rs"
      "ecc = (- EBADMSG \<in> set rs)" "bf = Max (insert 0 (set rs))" using o ne by simp_all
    have "\<not> (ret < 0 \<and> ret \<noteq> - EBADMSG)" using False a(3) by (simp only: hard_error_def) simp
    then show ?thesis
      unfolding read_range_exact_def
      by (intro exI [of _ rs] conjI ne tr) (simp only: False if_False a(1,2,4,5) simp_thms diff_zero)
  qed
qed

lemma read_range_exact_wp:
  assumes g: "geom ni"
  shows "wp (nmbm_read_range ni addr sz data mode) (\<lambda>(ret, data', retlen, n). chip_evolves {} ni n \<and>
    (case retlen of
       None \<Rightarrow> n = ni \<and> data' = data \<and>
         (if protected ni \<noteq> 0 then ret = - EROFS
          else if ba2addr ni (data_block_count ni) \<le> addr \<or> ba2addr ni (data_block_count ni) < addr + sz
          then ret = - EINVAL else sz = 0 \<and> ret = 0)
     | Some len \<Rightarrow> protected ni = 0 \<and> addr < ba2addr ni (data_block_count ni) \<and>
         addr + sz \<le> ba2addr ni (data_block_count ni) \<and> sz \<noteq> 0 \<and> read_range_exact mode ni addr sz ret len n))"
proof -
  have "\<not> hard_error 0" by (simp add: hard_error_def)
  note wps = read_range_loop_trace [OF g, of addr data 0 sz mode False 0 0]
    read_range_loop_wp [OF g order_refl this, of addr data 0 sz mode False]
  have "wp (read_range_loop ni addr data 0 sz mode False 0 0)
     (\<lambda>r. trace_outcome mode ni addr sz False 0 0 r \<and> read_range_result ni sz r)"
    by (cases "read_range_loop ni addr data 0 sz mode False 0 0") (use wps in simp_all)
  moreover have "chip_evolves {} ni n \<and> read_range_exact mode ni addr sz
        (if ret < 0 \<and> ret \<noteq> - EBADMSG then ret else if ecc then - EBADMSG else bf) (sz - rest) n"
    if "trace_outcome mode ni addr sz False 0 0 (ret, ecc, bf, rest, d, n)"
      and "read_range_result ni sz (ret, ecc, bf, rest, d, n)" and "sz \<noteq> 0" for ret ecc bf rest d n
    using trace_outcome_exact [OF g that(3,1)] that(2) by (simp add: read_range_result_def)
  ultimately have loop: "sz \<noteq> 0 \<Longrightarrow> wp (read_range_loop ni addr data 0 sz mode False 0 0) (\<lambda>(ret, ecc, bf, rest, data', n).
     chip_evolves {} ni n \<and> read_range_exact mode ni addr sz
        (if ret < 0 \<and> ret \<noteq> - EBADMSG then ret else if ecc then - EBADMSG else bf) (sz - rest) n)"
    by (elim wp_mono) (simp only: split_paired_all prod.case, blast)
  show ?thesis
  proof (cases "protected ni \<noteq> 0 \<or> ba2addr ni (data_block_count ni) \<le> addr \<or>
      ba2addr ni (data_block_count ni) < addr + sz \<or> sz = 0")
    case True
    then show ?thesis unfolding nmbm_read_range_def by (elim disjE) (simp_all add: chip_evolves_refl)
  next
    case False
    then have f: "protected ni = 0" "\<not> ba2addr ni (data_block_count ni) \<le> addr"
      "\<not> ba2addr ni (data_block_count ni) < addr + sz" "sz \<noteq> 0" by auto
    then have l: "addr < ba2addr ni (data_block_count ni)" "addr + sz \<le> ba2addr ni (data_block_count ni)"
      by (simp_all add: not_le not_less)
    show ?thesis
      unfolding nmbm_read_range_def if_not_P [OF f(2)] if_not_P [OF f(3)] if_not_P [OF f(4)]
      by (simp only: f(1) wp_bind wp_if if_False simp_thms wp_Some prod.case option.case)
        (rule wp_mono [OF loop [OF f(4)]], clarsimp simp: f l)
  qed
qed

end
