(* ===== verification/Nmbm_Verify.thy ===== *)
theory Nmbm_Verify
  imports Nmbm_Logic
begin

text \<open>
  What a verified write leaves on the chip: \<open>nmbn_write_verify_data\<close> reads every page back, so
  that its success means that the chip holds the data, on any chip where writing one page does
  not disturb another.
\<close>

text \<open>A chip on which writing a page changes that page only, and resetting it none.\<close>

definition writes_pages :: "'d nmbm_lower_device \<Rightarrow> ('d \<Rightarrow> u64 \<Rightarrow> u8 list) \<Rightarrow> bool" where
  "writes_pages l page \<longleftrightarrow>
     (\<forall>d a buf oob mode b. b \<noteq> a \<longrightarrow> page (snd (the (write_page l) d a buf oob mode)) b = page d b) \<and>
     (\<forall>f d. reset_chip l = Some f \<longrightarrow> page (f d) = page d)"

text \<open>The byte at the physical address \<open>x\<close>.\<close>

definition phys_byte :: "'d nmbm_instance \<Rightarrow> ('d \<Rightarrow> u64 \<Rightarrow> u8 list) \<Rightarrow> u64 \<Rightarrow> u8" where
  "phys_byte ni page x = page (chip ni) (x - range_leading ni x) ! unat (range_leading ni x)"

definition only_page :: "('d \<Rightarrow> u64 \<Rightarrow> u8 list) \<Rightarrow> u64 \<Rightarrow> 'd nmbm_instance \<Rightarrow> 'd nmbm_instance \<Rightarrow> bool" where
  "only_page page a ni n \<longleftrightarrow> (\<exists>d. n = set_chip d ni \<and> (\<forall>b. b \<noteq> a \<longrightarrow> page d b = page (chip ni) b))"

lemma only_page_trans: "only_page page a x y \<Longrightarrow> only_page page a y z \<Longrightarrow> only_page page a x z"
  unfolding only_page_def by auto

lemma reset_only_page:
  assumes "writes_pages (lower ni) page"
  shows "only_page page a ni (nmbm_reset_chip ni)"
  using assms by (auto simp: only_page_def nmbm_reset_chip_def writes_pages_def split: option.splits
    intro: exI [of _ "chip ni"])

lemma lower_write_only_page:
  assumes "writes_pages (lower ni) page" "lower_write_page a buf oob mode ni = (ret, n)"
  shows "only_page page a ni n"
proof -
  obtain r d where e: "the (write_page (lower ni)) (chip ni) a buf oob mode = (r, d)" by fastforce
  then have "page d b = page (chip ni) b" if "b \<noteq> a" for b
    using assms(1) that unfolding writes_pages_def by (metis snd_conv)
  then show ?thesis using assms(2) e by (auto simp: only_page_def lower_write_page_def)
qed

lemma only_page_device: "only_page page a ni n \<Longrightarrow> writes_pages (lower n) page = writes_pages (lower ni) page"
  "only_page page a ni n \<Longrightarrow> reads_pages (lower n) page = reads_pages (lower ni) page"
  "only_page page a ni n \<Longrightarrow> geom n = geom ni"
  "only_page page a ni n \<Longrightarrow> range_leading n x = range_leading ni x"
  by (auto simp: only_page_def writes_pages_def reads_pages_def geom_def range_leading_def set_chip_def)

lemma retry_only_page:
  "writes_pages (lower ni) page \<Longrightarrow> retry_op k (lower_write_page a buf oob mode) ni = (ok, n) \<Longrightarrow> only_page page a ni n"
proof (induction k arbitrary: ni)
  case 0
  obtain ret n1 where w: "lower_write_page a buf oob mode ni = (ret, n1)" by fastforce
  note o = lower_write_only_page [OF 0(1) w]
  have r: "only_page page a n1 (nmbm_reset_chip n1)"
    by (rule reset_only_page) (use 0(1) o in \<open>simp add: only_page_device\<close>)
  from 0 w o r show ?case by (auto split: if_splits intro: only_page_trans)
next
  case (Suc k)
  obtain ret n1 where w: "lower_write_page a buf oob mode ni = (ret, n1)" by fastforce
  note o = lower_write_only_page [OF Suc.prems(1) w]
  have r: "only_page page a n1 (nmbm_reset_chip n1)"
    by (rule reset_only_page) (use Suc.prems(1) o in \<open>simp add: only_page_device\<close>)
  from Suc w o r show ?case
    by (auto split: if_splits intro: only_page_trans simp: only_page_device)
qed

lemma write_phys_only_page:
  "writes_pages (lower ni) page \<Longrightarrow> nmbm_write_phys_page ni a buf oob mode = (ok, n) \<Longrightarrow> only_page page a ni n"
  by (auto simp: nmbm_write_phys_page_def only_page_def split: if_splits
      dest!: retry_only_page intro: exI [of _ "chip ni"])

lemma leading_range:
  assumes "geom ni"
  shows "ucast (chunk_leading ni off) = range_leading ni off"
proof -
  have "unat off mod unat (writesize (lower ni)) < unat (writesize (lower ni))" using geom_sizes(1) [OF assms] by simp
  then have "unat off mod unat (writesize (lower ni)) < 2 ^ 32"
    using unsigned_less [of "writesize (lower ni)", where ?'a = nat] by simp
  then show ?thesis
    using chunk_leading_mod [OF assms, of off]
    by (simp add: word_unat_eq_iff range_leading_mod [OF assms])
qed

lemma page_length: "reads_pages l page \<Longrightarrow> length (page d a) = unat (writesize l)"
  by (simp add: reads_pages_def)

lemma read_cache_reads:
  assumes "reads_pages (lower ni) page"
  shows "read_to_page_cache ni a mode = (0, ni\<lparr>page_cache := memcpy_at (page_cache ni) 0 (page (chip ni) a)\<rparr>)"
  by (simp add: read_to_page_cache_def read_phys_page_reads [OF assms])

lemma slice_cached:
  "l + c \<le> length p \<Longrightarrow> slice l c (memcpy_at pc 0 p) = slice l c p"
  by (simp add: memcpy_at_def slice_def)

text \<open>A chunk that compares equal: its bytes are those of the buffer.\<close>

lemma chunk_verified:
  assumes g: "geom ni" and p: "reads_pages (lower ni) page" and sz: "sz \<noteq> 0"
    and nw: "unat off + unat sz < 2 ^ 64" and len: "pos + unat sz \<le> length data"
    and eq: "slice (unat (chunk_leading ni off)) (unat (chunk_size ni (chunk_leading ni off) sz))
        (page (chip ni) (off - ucast (chunk_leading ni off))) =
      slice pos (unat (chunk_size ni (chunk_leading ni off) sz)) data"
    and i: "i < unat (chunk_size ni (chunk_leading ni off) sz)"
  shows "phys_byte ni page (off + of_nat i) = data ! (pos + i)"
proof -
  let ?c = "unat (chunk_size ni (chunk_leading ni off) sz)" and ?w = "unat (writesize (lower ni))"
  let ?P = "page (chip ni) (off - range_leading ni off)"
  have l: "unat (chunk_leading ni off) = unat (range_leading ni off)"
    by (simp add: chunk_leading_mod [OF g] range_leading_mod [OF g])
  have c: "?c = min (unat sz) (?w - unat off mod ?w)" by (rule chunk_size_min(1) [OF g sz])
  have m: "unat off mod ?w < ?w" using geom_sizes(1) [OF g] by simp
  have "unat off mod ?w + i < ?w" "unat off + i < 2 ^ 64" using i c m nw by linarith+
  note st = page_start_step [OF g this]
  have "slice (unat (range_leading ni off)) ?c ?P ! i = slice pos ?c data ! i"
    using eq by (simp only: leading_range [OF g] l)
  moreover have "length ?P = ?w" by (rule page_length [OF p])
  moreover have "unat (range_leading ni off) + i < ?w" using \<open>unat off mod ?w + i < ?w\<close> by (simp only: range_leading_mod [OF g])
  moreover have "unat (range_leading ni off) + ?c \<le> ?w" using c m unfolding range_leading_mod [OF g] by linarith
  moreover have "pos + ?c \<le> length data" using c len by linarith
  ultimately have "?P ! (unat (range_leading ni off) + i) = data ! (pos + i)"
    using i by (simp add: slice_def)
  then show ?thesis by (simp only: phys_byte_def st)
qed

lemma phys_byte_cache [simp]: "phys_byte (ni\<lparr>page_cache := pc\<rparr>) page x = phys_byte ni page x"
  by (simp add: phys_byte_def range_leading_def)

text \<open>Data that has been written and compared is on the chip: the later chunks are in later pages.\<close>

lemma write_verify_loop_bytes:
  "geom ni \<Longrightarrow> reads_pages (lower ni) page \<Longrightarrow> writes_pages (lower ni) page \<Longrightarrow>
   unat off + unat sz < 2 ^ 64 \<Longrightarrow> pos + unat sz \<le> length data \<Longrightarrow>
   write_verify_loop ni off data pos sz = Some (True, n) \<Longrightarrow>
   (\<forall>i < unat sz. phys_byte n page (off + of_nat i) = data ! (pos + i)) \<and>
   (\<forall>b. unat b + unat (writesize (lower ni)) \<le> unat off \<longrightarrow> page (chip n) b = page (chip ni) b) \<and>
   range_leading n = range_leading ni"
proof (induction "unat sz" arbitrary: ni off pos sz rule: less_induct)
  case less
  note g = less.prems(1) and p = less.prems(2) and w = less.prems(3) and nw = less.prems(4) and len = less.prems(5)
  show ?case
  proof (cases "sz = 0")
    case True
    then show ?thesis using less.prems(6) by (subst (asm) write_verify_loop.simps) simp
  next
    case False
    let ?l = "chunk_leading ni off" and ?w = "unat (writesize (lower ni))"
    let ?c = "chunk_size ni ?l sz" and ?a = "off - ucast ?l"
    define n1 where "n1 = ni\<lparr>page_cache := memcpy_at (memset_at (page_cache ni) 0 0xff (unat (rawpage_size ni)))
      (unat ?l) (slice pos (unat ?c) data)\<rparr>"
    obtain ok n2 where wr: "nmbm_write_phys_page n1 ?a (Some (cache_data n1)) None NMBM_MODE_PLACE_OOB = (ok, n2)"
      by fastforce
    have "writes_pages (lower n1) page" using w by (simp add: n1_def)
    then have o: "only_page page ?a n1 n2" by (rule write_phys_only_page [OF _ wr])
    then obtain d where d: "n2 = set_chip d n1" "\<And>b. b \<noteq> ?a \<Longrightarrow> page d b = page (chip ni) b"
      by (auto simp: only_page_def n1_def)
    define n3 where "n3 = n2\<lparr>page_cache := memcpy_at (page_cache n2) 0 (page d ?a)\<rparr>"
    have dev: "geom n3" "reads_pages (lower n2) page" "reads_pages (lower n3) page" "writes_pages (lower n3) page"
      "writesize (lower n3) = writesize (lower ni)" "range_leading n3 = range_leading ni" "chip n3 = d" "chip n2 = d"
      using g p w by (simp_all add: n3_def d(1) n1_def geom_def reads_pages_def writes_pages_def set_chip_def
          range_leading_def fun_eq_iff chip_def)
    have rd: "read_to_page_cache n2 ?a NMBM_MODE_PLACE_OOB = (0, n3)"
      by (simp add: read_cache_reads [OF dev(2)] n3_def dev(8))
    have run: "ok" "slice (unat ?l) (unat ?c) (page_cache n3) = slice pos (unat ?c) data"
      "write_verify_loop n3 (off + ucast ?c) data (pos + unat ?c) (sz - ?c) = Some (True, n)"
      using less.prems(6) False wr rd
      by (subst (asm) write_verify_loop.simps, simp add: Let_def n1_def split: if_splits)+
    note c = chunk_size_min [OF g False, of off]
    have cs: "unat ?c \<le> unat sz" using c(3) by (simp add: word_le_nat_alt)
    have m: "unat (sz - ?c) < unat sz" using c by (intro unat_minus_less)
    have us: "unat (sz - ?c) = unat sz - unat ?c" by (rule unat_minus_le [OF c(3)])
    have uo: "unat (off + ucast ?c) = unat off + unat ?c" using cs nw by (subst unat_plus_u64) simp_all
    have mod: "unat off mod ?w < ?w" "unat off mod ?w \<le> unat off" using geom_sizes(1) [OF g] by simp_all
    have ua: "unat ?a = unat off - unat off mod ?w"
      unfolding leading_range [OF g]
      by (subst unat_minus_le) (simp_all add: word_le_nat_alt range_leading_mod [OF g])
    have "pos + unat ?c + unat (sz - ?c) \<le> length data" "unat (off + ucast ?c) + unat (sz - ?c) < 2 ^ 64"
      using len nw cs us uo by linarith+
    note IH = less.hyps [OF m dev(1,3,4) this(2,1) run(3)]
    have later: "page (chip n) b = page d b" if "unat b + ?w \<le> unat off + unat ?c" for b
      using IH that by (simp add: dev uo)
    have frame: "page (chip n) b = page (chip ni) b" if "unat b + ?w \<le> unat off" for b
    proof -
      have "b \<noteq> ?a" using that ua mod by auto
      with d(2) later [of b] that show ?thesis by simp
    qed
    have "phys_byte n page (off + of_nat i) = data ! (pos + i)" if i: "i < unat sz" for i
    proof (cases "i < unat ?c")
      case True
      have "slice (unat ?l) (unat ?c) (page_cache n3) = slice (unat ?l) (unat ?c) (page d ?a)"
        unfolding n3_def using c(1) mod page_length [OF p]
        by (simp add: slice_cached chunk_leading_mod [OF g])
      with run(2) have eq: "slice (unat ?l) (unat ?c) (page (chip n3) ?a) = slice pos (unat ?c) data"
        by (simp add: dev)
      have "chunk_leading n3 = chunk_leading ni" "chunk_size n3 = chunk_size ni"
        using dev(5,6) g dev(1) by (auto simp: fun_eq_iff chunk_leading_def chunk_size_def geom_def)
      then have "phys_byte n3 page (off + of_nat i) = data ! (pos + i)"
        using chunk_verified [OF dev(1,3) False nw len, of i] eq True by simp
      moreover have "phys_byte n page (off + of_nat i) = phys_byte n3 page (off + of_nat i)"
      proof (cases "sz - ?c = 0")
        case True
        then show ?thesis using run(3) by (subst (asm) write_verify_loop.simps) simp
      next
        case F: False
        then have "unat ?c < unat sz" using us by (simp flip: unat_eq_zero)
        then have full: "unat ?c = ?w - unat off mod ?w" using c(1) by linarith
        then have "unat ?a + ?w \<le> unat off + unat ?c" using ua mod by linarith
        note same = later [OF this]
        have "unat off mod ?w + i < ?w" "unat off + i < 2 ^ 64" using True full mod nw i by linarith+
        note st = page_start_step(2) [OF g this]
        show ?thesis
          using IH same by (simp only: phys_byte_def dev(6,7) st leading_range [OF g])
      qed
      ultimately show ?thesis by simp
    next
      case F: False
      then obtain j where j: "i = unat ?c + j" by (auto simp: not_less le_iff_add)
      then have "phys_byte n page (off + ucast ?c + of_nat j) = data ! (pos + unat ?c + j)"
        using IH i us by simp
      then show ?thesis by (simp add: j ac_simps)
    qed
    with frame IH show ?thesis by (auto simp: dev)
  qed
qed

end
