(* ===== verification/Nmbm_Saved.thy ===== *)
theory Nmbm_Saved
  imports Nmbm_Verify
begin

text \<open>
  What an update of the information tables leaves on the chip. On a chip whose blocks do not disturb
  each other, the copy of the table that a write has reported is held by the blocks it names, and it
  stays there while the other copy is written and the blocks between the copies are erased. So an
  update that succeeds with a change pending leaves the tables on the chip, at the address the
  instance goes on with.
\<close>

section \<open>Blocks do not disturb each other\<close>

text \<open>A chip on which a call changes pages of the block it is addressed to only, and on which a reset,
  a read or a question about a block changes none. \<open>k\<close> is the shift that takes an address to its block.\<close>

definition blocks_apart :: "'d nmbm_lower_device \<Rightarrow> ('d \<Rightarrow> u64 \<Rightarrow> u8 list) \<Rightarrow> nat \<Rightarrow> bool" where
  "blocks_apart L page k \<longleftrightarrow>
     (\<forall>f d. reset_chip L = Some f \<longrightarrow> page (f d) = page d) \<and>
     (\<forall>d a data oob mode. page (snd (snd (snd (the (read_page L) d a data oob mode)))) = page d) \<and>
     (\<forall>f d a. is_bad_block L = Some f \<longrightarrow> page (snd (f d a)) = page d) \<and>
     (\<forall>d a b. drop_bit k b \<noteq> drop_bit k a \<longrightarrow>
        (\<forall>data oob mode. page (snd (the (write_page L) d a data oob mode)) b = page d b) \<and>
        (\<forall>data. page (snd (the (panic_write_page L) d a data)) b = page d b) \<and>
        page (snd (the (erase_block L) d a)) b = page d b \<and>
        (\<forall>f. mark_bad_block L = Some f \<longrightarrow> page (snd (f d a)) b = page d b))"

lemma ucast_u64_inject: "(ucast (a :: u32) :: u64) = ucast b \<longleftrightarrow> a = b"
  by (simp add: word_unat_eq_iff unsigned_ucast_eq take_bit_nat_eq_self unsigned_less order.strict_trans [OF unsigned_less])

lemma lower_call_apart:
  assumes "blocks_apart (lower ni) page (unat (erasesize_shift ni))"
    and "lower_call (lower ni) (in_blocks ni B) d d'" and b: "b \<notin> in_blocks ni B"
  shows "page d' b = page d b"
proof -
  have apart: "drop_bit (unat (erasesize_shift ni)) b \<noteq> drop_bit (unat (erasesize_shift ni)) a"
    if "a \<in> in_blocks ni B" for a
    using that b by (auto simp: in_blocks_def)
  note h = assms(1) [unfolded blocks_apart_def]
  show ?thesis
    using assms(2)
  proof cases
    case (call_reset f)
    then show ?thesis using h by simp
  next
    case (call_read a data oob mode ret data' oob')
    moreover have "page (snd (snd (snd (the (read_page (lower ni)) d a data oob mode)))) = page d" using h by blast
    ultimately show ?thesis by simp
  next
    case (call_is_bad f a ret)
    moreover have "page (snd (f d a)) = page d" using h call_is_bad(1) by blast
    ultimately show ?thesis by simp
  next
    case (call_write a data oob mode ret)
    moreover have "page (snd (the (write_page (lower ni)) d a data oob mode)) b = page d b"
      using h apart [OF call_write(1)] by blast
    ultimately show ?thesis by simp
  next
    case (call_panic a data ret)
    moreover have "page (snd (the (panic_write_page (lower ni)) d a data)) b = page d b"
      using h apart [OF call_panic(1)] by blast
    ultimately show ?thesis by simp
  next
    case (call_erase a ret)
    moreover have "page (snd (the (erase_block (lower ni)) d a)) b = page d b"
      using h apart [OF call_erase(1)] by blast
    ultimately show ?thesis by simp
  next
    case (call_mark f a ret)
    moreover have "page (snd (f d a)) b = page d b"
      using h apart [OF call_mark(2)] call_mark(1) by blast
    ultimately show ?thesis by simp
  qed
qed

lemma worn_apart:
  assumes a: "blocks_apart (lower ni) page (unat (erasesize_shift ni))" and w: "worn B ni n"
    and b: "b \<notin> in_blocks ni B"
  shows "page (chip n) b = page (chip ni) b"
proof -
  have "(lower_call (lower ni) (in_blocks ni B))\<^sup>*\<^sup>* (chip ni) (chip n)" using w by (simp add: worn_def)
  then show ?thesis
    by induction (use lower_call_apart [OF a _ b] in simp_all)
qed

text \<open>The chip of an instance: its pages can be read back, and its blocks are apart.\<close>

definition good_chip :: "'d nmbm_instance \<Rightarrow> ('d \<Rightarrow> u64 \<Rightarrow> u8 list) \<Rightarrow> bool" where
  "good_chip ni page \<longleftrightarrow> geom ni \<and> reads_pages (lower ni) page \<and> writes_pages (lower ni) page \<and>
     blocks_apart (lower ni) page (unat (erasesize_shift ni))"

lemma lower_arg_laws [simp]:
  "reads_pages (L\<lparr>arg := d\<rparr>) page = reads_pages L page"
  "writes_pages (L\<lparr>arg := d\<rparr>) page = writes_pages L page"
  "blocks_apart (L\<lparr>arg := d\<rparr>) page k = blocks_apart L page k"
  by (simp_all add: reads_pages_def writes_pages_def blocks_apart_def)

lemma good_chip_lower:
  "lower n = (lower ni)\<lparr>arg := d\<rparr> \<Longrightarrow> erasesize_shift n = erasesize_shift ni \<Longrightarrow> geom n = geom ni \<Longrightarrow>
   good_chip n page = good_chip ni page"
  by (simp add: good_chip_def)

lemma good_chip_worn: "worn B ni n \<Longrightarrow> good_chip n page = good_chip ni page"
  by (rule good_chip_lower) (simp_all add: worn_frame(1,5) worn_geom)

lemma good_chip_geom: "good_chip ni page \<Longrightarrow> geom ni"
  by (simp add: good_chip_def)

section \<open>Data on the chip\<close>

text \<open>The byte at offset \<open>i\<close> of a block.\<close>

definition block_byte :: "('d \<Rightarrow> u64 \<Rightarrow> u8 list) \<Rightarrow> 'd nmbm_instance \<Rightarrow> u32 \<Rightarrow> nat \<Rightarrow> u8" where
  "block_byte page n ba i = phys_byte n page (ba2addr n ba + of_nat i)"

text \<open>The blocks \<open>bs\<close> hold the bytes \<open>img\<close>, each as many as it can.\<close>

primrec held_by :: "('d \<Rightarrow> u64 \<Rightarrow> u8 list) \<Rightarrow> 'd nmbm_instance \<Rightarrow> u32 list \<Rightarrow> u8 list \<Rightarrow> bool" where
  "held_by page n [] img \<longleftrightarrow> img = []"
| "held_by page n (ba # bs) img \<longleftrightarrow>
     (\<forall>i < min (unat (erasesize (lower n))) (length img). block_byte page n ba i = img ! i) \<and>
     held_by page n bs (drop (unat (erasesize (lower n))) img)"

lemma block_byte_lower:
  "chip n = chip ni \<Longrightarrow> writesize_mask n = writesize_mask ni \<Longrightarrow> erasesize_shift n = erasesize_shift ni \<Longrightarrow>
   block_byte page n = block_byte page ni"
  by (intro ext) (simp add: block_byte_def phys_byte_def range_leading_def ba2addr_def)

lemma held_by_cong:
  "erasesize (lower n) = erasesize (lower ni) \<Longrightarrow>
   (\<And>ba i. ba \<in> set bs \<Longrightarrow> i < unat (erasesize (lower ni)) \<Longrightarrow> block_byte page n ba i = block_byte page ni ba i) \<Longrightarrow>
   held_by page n bs img = held_by page ni bs img"
  by (induction bs arbitrary: img) auto

lemma block_byte_worn:
  assumes c: "good_chip ni page" and w: "worn B ni n" and ba: "ba \<notin> B" and i: "i < unat (erasesize (lower ni))"
  shows "block_byte page n ba i = block_byte page ni ba i"
proof -
  let ?w = "unat (writesize (lower ni))"
  define x where "x = ba2addr ni ba + of_nat i"
  have g: "geom ni" using c by (rule good_chip_geom)
  have "i < 2 ^ 32" using i geom_sizes(5) [OF g] by simp
  then have "unat (of_nat i :: u64) = i" by (simp add: unat_of_nat)
  then have x: "unat x = unat (ba2addr ni ba) + i"
    unfolding x_def using ba2addr_bound [OF g, of ba] i by (subst unat_plus_u64) simp_all
  have "?w dvd unat (ba2addr ni ba)"
    using geom_sizes(3) [OF g] by (simp add: unat_ba2addr [OF geom_shift [OF g]] geom_es [OF g])
  then have "unat x mod ?w = i mod ?w" by (auto simp: x elim!: dvdE)
  then have "unat (x - range_leading ni x) = unat (ba2addr ni ba) + (i - i mod ?w)"
    by (subst unat_minus_le) (simp_all add: word_le_nat_alt range_leading_mod [OF g] x trans_le_add2)
  then have "x - range_leading ni x \<in> in_blocks ni {ba}"
    by (rule block_addr_in [OF geom_shift [OF g], rotated]) (use i in \<open>simp_all add: geom_es [OF g]\<close>)
  then have "x - range_leading ni x \<notin> in_blocks ni B" using ba by (auto simp: in_blocks_def ucast_u64_inject)
  then have "page (chip n) (x - range_leading ni x) = page (chip ni) (x - range_leading ni x)"
    using c w by (intro worn_apart) (simp_all add: good_chip_def)
  moreover have "range_leading n = range_leading ni"
    by (intro ext) (simp add: range_leading_def worn_frame(3) [OF w])
  ultimately show ?thesis
    by (simp add: block_byte_def phys_byte_def worn_ba2addr [OF w] flip: x_def)
qed

lemma held_by_worn:
  assumes "good_chip ni page" "worn B ni n" "set bs \<inter> B = {}" and "held_by page ni bs img"
  shows "held_by page n bs img"
  using assms by (subst held_by_cong [of n ni]) (auto simp: worn_frame(1) intro!: block_byte_worn)

section \<open>A verified write\<close>

lemma write_verify_bytes:
  assumes g: "geom ni" and p: "reads_pages (lower ni) page" and w: "writes_pages (lower ni) page"
    and sz: "sz \<le> erasesize (lower ni)" and len: "unat sz \<le> length data"
  shows "wp (nmbn_write_verify_data ni (ba2addr ni ba) data sz) (\<lambda>(ok, n). worn {ba} ni n \<and>
    (ok \<longrightarrow> (\<forall>i < unat sz. phys_byte n page (ba2addr ni ba + of_nat i) = data ! i)))"
proof -
  have nw: "unat (ba2addr ni ba) + unat sz < 2 ^ 64"
    using ba2addr_bound [OF g, of ba] sz by (simp add: word_le_nat_alt)
  have t: "wp (nmbn_write_verify_data ni (ba2addr ni ba) data sz) (\<lambda>(ok, n). worn {ba} ni n)"
    by (rule write_verify_wp [OF g _ sz]) simp
  obtain ok n where e: "nmbn_write_verify_data ni (ba2addr ni ba) data sz = Some (ok, n)"
    using t by (auto simp: wp_iff)
  have "phys_byte n page (ba2addr ni ba + of_nat i) = data ! i" if "ok" "i < unat sz" for i
    using write_verify_loop_bytes [OF g p w nw, of 0 data n] len that e by (simp add: nmbn_write_verify_data_def)
  with t show ?thesis by (simp add: e)
qed

section \<open>A copy of a table\<close>

text \<open>What writing the rest of a table leaves: the blocks that took the data, in ascending order.\<close>

definition mgmt_written ::
  "('d \<Rightarrow> u64 \<Rightarrow> u8 list) \<Rightarrow> u32 \<Rightarrow> u32 \<Rightarrow> u32 \<Rightarrow> u32 \<Rightarrow> u8 list \<Rightarrow> (u32 \<times> u32) option \<times> 'd nmbm_instance \<Rightarrow> bool" where
  "mgmt_written page ba sz sizeremain start img x \<longleftrightarrow>
     (\<forall>s e. fst x = Some (s, e) \<longrightarrow> ba \<le> e \<and> (\<exists>bs. held_by page (snd x) bs img \<and> sorted_wrt (<) bs \<and> set bs \<subseteq> {ba..<e} \<and>
        (sizeremain \<noteq> 0 \<longrightarrow> bs \<noteq> []) \<and> s = (if sizeremain = sz then hd bs else start)))"

lemma write_mgmt_loop_held:
  "good_chip ni page \<Longrightarrow> limit \<le> block_count ni \<Longrightarrow> pos + unat sizeremain \<le> length data \<Longrightarrow> sizeremain \<le> sz \<Longrightarrow>
   sz \<noteq> 0 \<Longrightarrow> sizeremain = sz \<or> start < ba \<and> ba \<le> limit \<Longrightarrow>
   wp (write_mgmt_loop ni ba limit data pos sz sizeremain start)
     (mgmt_written page ba sz sizeremain start (take (unat sizeremain) (drop pos data)))"
proof (induction "unat limit - unat ba" arbitrary: ni ba pos sizeremain start rule: less_induct)
  case less
  note c = less.prems(1) and sz0 = less.prems(5)
  have g: "geom ni" using c by (rule good_chip_geom)
  let ?es = "erasesize (lower ni)"
  let ?B = "{ba..<limit}"
  let ?Q = "mgmt_written page ba sz sizeremain start (take (unat sizeremain) (drop pos data))"
  show ?case
  proof (cases "sizeremain \<noteq> 0 \<and> ba < limit")
    case True
    then have lt: "ba < limit" and nz: "sizeremain \<noteq> 0" by auto
    have sub: "{ba + 1..<limit} \<subseteq> ?B" by (rule word_Ico_Suc [OF lt])
    have up: "ba < ba + 1" "ba + 1 \<le> limit"
      using lt by (simp_all add: word_less_nat_alt word_le_nat_alt unat_Suc_less [OF lt])
    have it: "in_table ni ba" using g lt less.prems(2) by (auto intro: in_table_block_count)
    have skip: "wp (write_mgmt_loop nj (ba + 1) limit data pos sz sizeremain start) ?Q" if w: "worn ?B ni nj" for nj
    proof -
      have "wp (write_mgmt_loop nj (ba + 1) limit data pos sz sizeremain start)
          (mgmt_written page (ba + 1) sz sizeremain start (take (unat sizeremain) (drop pos data)))"
        by (rule less.hyps [OF unat_up [OF lt]])
          (use c less.prems(2-6) up in \<open>auto simp: good_chip_worn [OF w] worn_frame(16) [OF w]\<close>)
      then show ?thesis
        by (rule wp_mono) (use up(1) in \<open>fastforce simp: mgmt_written_def\<close>)
    qed
    define chunk where "chunk = (if ?es < sizeremain then ?es else sizeremain)"
    have chunk: "chunk \<le> ?es" "chunk \<le> sizeremain" "unat chunk = min (unat ?es) (unat sizeremain)"
      by (auto simp: chunk_def not_less word_less_nat_alt word_le_nat_alt)
    have chunk0: "0 < unat chunk"
      using geom_sizes(2) [OF g] nz by (auto simp: chunk(3) unat_gt_0)
    have cs: "unat (sizeremain - chunk) = unat sizeremain - unat chunk" by (rule unat_minus_le [OF chunk(2)])
    let ?st = "if sizeremain = sz then ba else start"
    let ?fin = "\<lambda>n. write_mgmt_loop n (ba + 1) limit data (pos + unat chunk) sz (sizeremain - chunk) ?st"
    have fin: "wp (?fin n) ?Q"
      if w: "worn ?B ni n" and b: "\<forall>i < unat chunk. phys_byte n page (ba2addr n ba + of_nat i) = drop pos data ! i" for n
    proof -
      have cn: "good_chip n page" using c by (simp add: good_chip_worn [OF w])
      have gn: "geom n" using cn by (rule good_chip_geom)
      have ne: "sizeremain - chunk \<noteq> sz"
      proof
        assume "sizeremain - chunk = sz"
        then have "unat sz = unat sizeremain - unat chunk" using cs by simp
        moreover have "unat sizeremain \<le> unat sz" "unat chunk \<le> unat sizeremain"
          using less.prems(4) chunk(2) by (simp_all add: word_le_nat_alt)
        ultimately show False using chunk0 by linarith
      qed
      have ih: "wp (?fin n) (mgmt_written page (ba + 1) sz (sizeremain - chunk) ?st
          (take (unat (sizeremain - chunk)) (drop (pos + unat chunk) data)))"
        by (rule less.hyps [OF unat_up [OF lt] cn])
          (use less.prems(2-6) up lt cs chunk in \<open>auto simp: worn_frame(16) [OF w] word_le_nat_alt word_less_nat_alt\<close>)
      have wn: "wp (?fin n) (\<lambda>x. worn {ba + 1..<limit} n (snd x) \<and> (\<forall>s e. fst x = Some (s, e) \<longrightarrow> 0 \<le> s \<and> s < e \<and> e \<le> limit))"
        by (rule write_mgmt_loop_wp [OF gn]) (use less.prems(2,6) up lt sz0 in \<open>auto simp: worn_frame(16) [OF w]\<close>)
      show ?thesis
      proof (rule wp_mono [OF wp_conj [OF ih wn]])
        fix x assume x: "mgmt_written page (ba + 1) sz (sizeremain - chunk) ?st
          (take (unat (sizeremain - chunk)) (drop (pos + unat chunk) data)) x \<and>
          worn {ba + 1..<limit} n (snd x) \<and> (\<forall>s e. fst x = Some (s, e) \<longrightarrow> 0 \<le> s \<and> s < e \<and> e \<le> limit)"
        show "?Q x"
          unfolding mgmt_written_def
        proof (intro allI impI)
          fix s e assume se: "fst x = Some (s, e)"
          with x ne obtain bs where bs: "held_by page (snd x) bs (take (unat (sizeremain - chunk)) (drop (pos + unat chunk) data))"
            "sorted_wrt (<) bs" "set bs \<subseteq> {ba + 1..<e}" and e: "ba + 1 \<le> e" and s: "s = ?st"
            by (fastforce simp: mgmt_written_def)
          have wx: "worn {ba + 1..<limit} n (snd x)" using x by blast
          have es: "erasesize (lower (snd x)) = ?es" using wx w by (simp add: worn_frame(1))
          have "block_byte page (snd x) ba i = block_byte page n ba i" if "i < unat chunk" for i
            by (rule block_byte_worn [OF cn wx]) (use that chunk(3) up in \<open>auto simp: worn_frame(1) [OF w]\<close>)
          then have "\<forall>i < unat chunk. block_byte page (snd x) ba i = drop pos data ! i"
            using b by (simp add: block_byte_def)
          moreover have "drop (unat ?es) (take (unat sizeremain) (drop pos data)) =
              take (unat (sizeremain - chunk)) (drop (pos + unat chunk) data)"
            by (cases "unat ?es \<le> unat sizeremain") (simp_all add: drop_take cs chunk(3) add.commute)
          ultimately have "held_by page (snd x) (ba # bs) (take (unat sizeremain) (drop pos data))"
            using bs(1) less.prems(3) by (simp add: es chunk(3))
          moreover have "sorted_wrt (<) (ba # bs)" using bs(2,3) up(1) by fastforce
          moreover have "set (ba # bs) \<subseteq> {ba..<e}" using bs(3) up(1) e by fastforce
          ultimately show "ba \<le> e \<and> (\<exists>bs. held_by page (snd x) bs (take (unat sizeremain) (drop pos data)) \<and>
             sorted_wrt (<) bs \<and> set bs \<subseteq> {ba..<e} \<and> (sizeremain \<noteq> 0 \<longrightarrow> bs \<noteq> []) \<and>
             s = (if sizeremain = sz then hd bs else start))"
            using s e up(1) by (intro conjI exI [of _ "ba # bs"]) auto
        qed
      qed
    qed
    let ?wr = "\<lambda>nj. Option.bind (nmbm_erase_block_and_check nj ba)
             (\<lambda>(ok, n). if \<not> ok then Some (False, n)
                else nmbn_write_verify_data n (ba2addr n ba) (drop pos data) chunk)"
    have wr: "wp (?wr nj) (\<lambda>(ok, n). worn ?B nj n \<and> (ok \<longrightarrow> wp (?fin n) ?Q))"
      if w: "worn ?B ni nj" and gj: "geom nj" for nj
    proof -
      have inB: "ba \<in> ?B" using lt by simp
      have "wp (if \<not> ok then Some (False, n) else nmbn_write_verify_data n (ba2addr n ba) (drop pos data) chunk)
          (\<lambda>(ok, n). worn ?B nj n \<and> (ok \<longrightarrow> wp (?fin n) ?Q))" if wj: "worn ?B nj n" for ok n
      proof -
        have wn: "worn ?B ni n" using w wj by (rule worn_trans)
        have cn: "good_chip n page" using c by (simp add: good_chip_worn [OF wn])
        have "wp (nmbn_write_verify_data n (ba2addr n ba) (drop pos data) chunk)
          (\<lambda>(ok, n). worn ?B nj n \<and> (ok \<longrightarrow> wp (?fin n) ?Q))"
        proof (rule wp_pair [OF write_verify_bytes])
          show "geom n" "reads_pages (lower n) page" "writes_pages (lower n) page"
            using cn by (simp_all add: good_chip_def)
          show "chunk \<le> erasesize (lower n)" using chunk(1) by (simp add: worn_frame(1) [OF wn])
          show "unat chunk \<le> length (drop pos data)" using less.prems(3) chunk(3) by simp
        next
          fix ok n' assume a: "worn {ba} n n' \<and> (ok \<longrightarrow> (\<forall>i < unat chunk. phys_byte n' page (ba2addr n ba + of_nat i) = drop pos data ! i))"
          then have b: "worn ?B n n'" using inB by (auto intro: worn_mono)
          show "worn ?B nj n' \<and> (ok \<longrightarrow> wp (?fin n') ?Q)"
            using a b fin [OF worn_trans [OF wn b]] worn_trans [OF wj b] by (simp add: worn_ba2addr [OF b])
        qed
        then show ?thesis using wj by simp
      qed
      note step = this
      show ?thesis
        unfolding wp_bind
      proof (rule wp_mono [OF erase_block_and_check_wp [OF gj inB]])
        fix x :: "bool \<times> _" assume a: "case x of (ok, n) \<Rightarrow> worn ?B nj n"
        obtain ok n where x: "x = (ok, n)" by fastforce
        show "wp (case x of (ok, n) \<Rightarrow> if \<not> ok then Some (False, n)
            else nmbn_write_verify_data n (ba2addr n ba) (drop pos data) chunk)
          (\<lambda>(ok, n). worn ?B nj n \<and> (ok \<longrightarrow> wp (?fin n) ?Q))"
          using step [of n ok] a unfolding x prod.case .
      qed
    qed
    have "wp (if nmbm_get_block_state ni ba \<noteq> BLOCK_ST_GOOD
        then write_mgmt_loop ni (ba + 1) limit data pos sz sizeremain start
        else let (bad, nj) = nmbm_check_bad_phys_block ni ba
          in if bad then write_mgmt_loop (set_block_state nj ba BLOCK_ST_BAD) (ba + 1) limit data pos sz sizeremain start
             else do { (ok, n) \<leftarrow> ?wr nj;
                       if ok then ?fin n
                       else do { n \<leftarrow> retire_block n ba;
                                 write_mgmt_loop n (ba + 1) limit data pos sz sizeremain start } }) ?Q"
      by (rule block_step_wp [where rest = "\<lambda>nj. write_mgmt_loop nj (ba + 1) limit data pos sz sizeremain start", OF g _ it skip wr])
        (use lt in auto)
    then show ?thesis
      by (subst write_mgmt_loop.simps) (simp only: True if_True bind_step Let_def chunk_def simp_thms)
  next
    case False
    with less.prems(6) sz0 show ?thesis
      by (subst write_mgmt_loop.simps) (cases "sizeremain = 0", auto simp: mgmt_written_def)
  qed
qed

section \<open>The copies of the table while they are updated\<close>

text \<open>A state on the way of an update: the addresses of the tables, the image to be written.\<close>

definition image_at ::
  "'d nmbm_instance \<Rightarrow> nmbm_info_table_header \<Rightarrow> u8 list \<Rightarrow> u32 \<Rightarrow> u32 \<Rightarrow> u32 \<Rightarrow> 'd nmbm_instance \<Rightarrow> bool" where
  "image_at ni it img m b mb n \<longleftrightarrow> table_at ni m b mb n \<and> info_table n = it \<and> info_table_cache n = img"

text \<open>A copy that starts at \<open>s\<close> and ends before \<open>e\<close>.\<close>

definition copy_in ::
  "('d \<Rightarrow> u64 \<Rightarrow> u8 list) \<Rightarrow> 'd nmbm_instance \<Rightarrow> u8 list \<Rightarrow> u32 \<Rightarrow> u32 \<Rightarrow> bool" where
  "copy_in page n img s e \<longleftrightarrow>
     (\<exists>bs. bs \<noteq> [] \<and> hd bs = s \<and> sorted_wrt (<) bs \<and> set bs \<subseteq> {s..<e} \<and> held_by page n bs img)"

text \<open>The copy the instance goes on with is on the chip.\<close>

definition saved ::
  "('d \<Rightarrow> u64 \<Rightarrow> u8 list) \<Rightarrow> nmbm_info_table_header \<Rightarrow> u8 list \<Rightarrow> 'd nmbm_instance \<Rightarrow> bool" where
  "saved page it img n \<longleftrightarrow> info_table n = it \<and> info_table_cache n = img \<and>
      copy_in page n img (main_table_ba n) (mapping_blocks_ba n)"

lemma table_at_chip:
  assumes "table_at ni m b mb n" and "good_chip ni page"
  shows "good_chip n page" "info_table_size n = info_table_size ni" "erasesize (lower n) = erasesize (lower ni)"
proof -
  have s: "mgmt_step (mgmt_area ni) ni n" using assms(1) by (simp add: table_at_def)
  note f = mgmt_step_frame [OF s]
  show "good_chip n page"
    using assms(2) f by (subst good_chip_lower [where n = n and ni = ni and d = "chip n"]) (auto simp: geom_def)
  show "info_table_size n = info_table_size ni" "erasesize (lower n) = erasesize (lower ni)" using f by auto
qed

lemma copy_in_worn:
  "good_chip n page \<Longrightarrow> worn B n n' \<Longrightarrow> {s..<e} \<inter> B = {} \<Longrightarrow> copy_in page n img s e \<Longrightarrow> copy_in page n' img s e"
  unfolding copy_in_def by (blast intro: held_by_worn)

lemma copy_in_mono: "copy_in page n img s e \<Longrightarrow> e \<le> e' \<Longrightarrow> copy_in page n img s e'"
  unfolding copy_in_def by fastforce

lemma held_by_update [simp]:
  "held_by page (n\<lparr>main_table_ba := a\<rparr>) bs img = held_by page n bs img"
  "held_by page (n\<lparr>backup_table_ba := a\<rparr>) bs img = held_by page n bs img"
  "held_by page (n\<lparr>mapping_blocks_ba := a\<rparr>) bs img = held_by page n bs img"
  "held_by page (nmbm_mark_tables_clean n) bs img = held_by page n bs img"
  by (intro held_by_cong; simp add: block_byte_def phys_byte_def range_leading_def ba2addr_def chip_def
      nmbm_mark_tables_clean_def)+

lemma copy_in_update [simp]:
  "copy_in page (n\<lparr>main_table_ba := a\<rparr>) img s e = copy_in page n img s e"
  "copy_in page (n\<lparr>backup_table_ba := a\<rparr>) img s e = copy_in page n img s e"
  "copy_in page (n\<lparr>mapping_blocks_ba := a\<rparr>) img s e = copy_in page n img s e"
  "copy_in page (nmbm_mark_tables_clean n) img s e = copy_in page n img s e"
  by (simp_all add: copy_in_def)

lemma mark_clean_cache [simp]: "info_table_cache (nmbm_mark_tables_clean n) = info_table_cache n"
  "info_table (nmbm_mark_tables_clean n) = info_table n"
  by (simp_all add: nmbm_mark_tables_clean_def)

lemma image_at_update:
  assumes "image_at ni it img m b mb n"
  shows "image_at ni it img x b mb (n\<lparr>main_table_ba := x\<rparr>)" "image_at ni it img m x mb (n\<lparr>backup_table_ba := x\<rparr>)"
    "image_at ni it img m b x (n\<lparr>mapping_blocks_ba := x\<rparr>)"
    "image_at ni it img m b mb (nmbm_mark_tables_clean n)"
  using assms table_at_update [of ni m b mb n] by (simp_all add: image_at_def)

lemma image_at_frame:
  assumes "image_at ni it img m b mb n"
  shows "mgmt_start_ba n = mgmt_start_ba ni" "mapping_blocks_top_ba n = mapping_blocks_top_ba ni"
    "main_table_ba n = m" "backup_table_ba n = b" "mapping_blocks_ba n = mb"
  using assms table_at_frame [of ni m b mb n] by (simp_all add: image_at_def)

lemma savedI: "image_at ni it img m b mb n \<Longrightarrow> copy_in page n img m mb \<Longrightarrow> saved page it img n"
  by (simp add: saved_def image_at_def table_at_def)

text \<open>The rules for the calls, with what they leave of a copy that is already there.\<close>

lemma write_copy_bind:
  assumes ok: "area_ok ni" and c: "good_chip ni page" and at: "image_at ni it img m b mb n"
    and len: "length img = unat (info_table_size ni)"
    and lo: "mgmt_start_ba ni \<le> a" and hi: "limit \<le> mapping_blocks_top_ba ni"
    and fail: "\<And>n'. image_at ni it img m b mb n' \<Longrightarrow> worn {a..<limit} n n' \<Longrightarrow> wp (K None n') Q"
    and succ: "\<And>n' s e. image_at ni it img m b mb n' \<Longrightarrow> worn {a..<limit} n n' \<Longrightarrow> copy_in page n' img s e \<Longrightarrow>
      a \<le> s \<Longrightarrow> s < e \<Longrightarrow> e \<le> limit \<Longrightarrow> wp (K (Some (s, e)) n') Q"
  shows "wp (Option.bind (nmbm_write_info_table n a limit) (\<lambda>(r, n). K r n)) Q"
proof -
  have tn: "table_at ni m b mb n" and img: "info_table_cache n = img" "info_table n = it" using at by (simp_all add: image_at_def)
  note t = table_at_area [OF ok tn lo hi] and ch = table_at_chip [OF tn c]
  have total: "wp (nmbm_write_info_table n a limit)
    (\<lambda>x. worn {a..<limit} n (snd x) \<and> (\<forall>s e. fst x = Some (s, e) \<longrightarrow> a \<le> s \<and> s < e \<and> e \<le> limit))"
    unfolding nmbm_write_info_table_def by (rule write_mgmt_range_wp) (use t in auto)
  have held: "wp (nmbm_write_info_table n a limit) (mgmt_written page a (info_table_size n) (info_table_size n) 0 img)"
    using write_mgmt_loop_held [OF ch(1) t(2), where pos = 0 and start = 0 and sizeremain = "info_table_size n"
      and data = img and sz = "info_table_size n" and ba = a] len t(3)
    by (simp add: nmbm_write_info_table_def nmbm_write_mgmt_range_def img ch(2))
  show ?thesis
    unfolding wp_bind
  proof (rule wp_mono [OF wp_conj [OF total held]])
    fix x assume x: "(worn {a..<limit} n (snd x) \<and> (\<forall>s e. fst x = Some (s, e) \<longrightarrow> a \<le> s \<and> s < e \<and> e \<le> limit)) \<and>
      mgmt_written page a (info_table_size n) (info_table_size n) 0 img x"
    obtain r n' where rn: "x = (r, n')" by fastforce
    have w: "worn {a..<limit} n n'" using x rn by simp
    have at': "image_at ni it img m b mb n'"
      using table_at_worn [OF tn worn_mono [OF w t(4)]] img worn_frame(7,10) [OF w] by (simp add: image_at_def)
    show "wp (case x of (r, n) \<Rightarrow> K r n) Q"
    proof (cases r)
      case None
      then show ?thesis using fail [OF at' w] rn by simp
    next
      case (Some p)
      then obtain s e where p: "r = Some (s, e)" by (cases p) auto
      then obtain bs where bs: "held_by page n' bs img" "sorted_wrt (<) bs" "set bs \<subseteq> {a..<e}" "bs \<noteq> []" "hd bs = s"
        using x rn t(3) by (auto simp: mgmt_written_def)
      have "set bs \<subseteq> {s..<e}"
        using bs by (cases bs) fastforce+
      then have "copy_in page n' img s e" using bs by (auto simp: copy_in_def)
      with x rn p succ [OF at' w] show ?thesis by simp
    qed
  qed
qed

lemma erase_keep_bind:
  assumes ok: "area_ok ni" and at: "image_at ni it img m b mb n"
    and lo: "mgmt_start_ba ni \<le> a" and hi: "limit \<le> mapping_blocks_top_ba ni"
    and cont: "\<And>n'. image_at ni it img m b mb n' \<Longrightarrow> worn {a..<limit} n n' \<Longrightarrow> wp (K n') Q"
  shows "wp (Option.bind (nmbm_erase_range n a limit) K) Q"
proof -
  have tn: "table_at ni m b mb n" and img: "info_table_cache n = img" "info_table n = it" using at by (simp_all add: image_at_def)
  note t = table_at_area [OF ok tn lo hi]
  show ?thesis
    unfolding wp_bind
  proof (rule wp_mono [OF erase_range_wp [where B = "{a..<limit}"]])
    fix n' assume w: "worn {a..<limit} n n'"
    then have "image_at ni it img m b mb n'"
      using table_at_worn [OF tn worn_mono [OF w t(4)]] img worn_frame(7,10) [OF w] by (simp add: image_at_def)
    then show "wp (K n') Q" using w by (rule cont)
  qed (use t in auto)
qed

text \<open>The downward loop of the three places that look for room above the tables.\<close>

lemma write_desc_copy_bind:
  assumes ok: "area_ok ni" and c: "good_chip ni page" and at: "image_at ni it img m b mb n"
    and len: "length img = unat (info_table_size ni)"
    and lo: "mgmt_start_ba ni \<le> bound" and tp: "tp = mapping_blocks_top_ba ni"
    and fail: "\<And>n'. image_at ni it img m b mb n' \<Longrightarrow> worn {bound..<tp} n n' \<Longrightarrow> wp (K None n') Q"
    and succ: "\<And>n' s e. image_at ni it img m b mb n' \<Longrightarrow> worn {bound..<tp} n n' \<Longrightarrow> copy_in page n' img s e \<Longrightarrow>
      bound \<le> s \<Longrightarrow> s < e \<Longrightarrow> e \<le> tp \<Longrightarrow> wp (K (Some (s, e)) n') Q"
  shows "wp (Option.bind (write_table_desc n write_ba bound) (\<lambda>(r, n). K r n)) Q"
proof -
  let ?R = "\<lambda>x. (case x of (r, n') \<Rightarrow> image_at ni it img m b mb n' \<and> worn {bound..<tp} n n' \<and>
      (\<forall>s e. r = Some (s, e) \<longrightarrow> copy_in page n' img s e \<and> bound \<le> s \<and> s < e \<and> e \<le> tp))"
  have "wp (write_table_desc n' w bound) ?R"
    if "image_at ni it img m b mb n'" "worn {bound..<tp} n n'" for n' w
    using that
  proof (induction "unat w" arbitrary: n' w rule: less_induct)
    case less
    show ?case
    proof (cases "bound \<le> w")
      case False
      then show ?thesis using less.prems by (subst write_table_desc.simps) simp
    next
      case True
      have pos: "0 < w" using ok lo True by (auto simp: area_ok_def)
      have tn: "mapping_blocks_top_ba n' = tp"
        using image_at_frame(2) [OF less.prems(1)] tp by simp
      have wide: "worn {bound..<tp} n n''" if "worn {w..<tp} n' n''" for n''
        by (rule worn_trans [OF less.prems(2) worn_mono [OF that]]) (use True in auto)
      show ?thesis
      proof (subst write_table_desc.simps, simp only: True if_True tn,
          rule write_copy_bind [OF ok c less.prems(1) len])
        show "mgmt_start_ba ni \<le> w" using lo True by order
        show "tp \<le> mapping_blocks_top_ba ni" by (simp add: tp)
      next
        fix n'' assume "image_at ni it img m b mb n''" "worn {w..<tp} n' n''"
        with less.hyps [OF unat_down [OF pos]] wide
        show "wp (case None of None \<Rightarrow> write_table_desc n'' (w - 1) bound | Some t \<Rightarrow> Some (Some t, n'')) ?R"
          by simp
      next
        fix n'' s e assume "image_at ni it img m b mb n''" "worn {w..<tp} n' n''" "copy_in page n'' img s e"
          "w \<le> s" "s < e" "e \<le> tp"
        then show "wp (case Some (s, e) of None \<Rightarrow> write_table_desc n'' (w - 1) bound | Some t \<Rightarrow> Some (Some t, n'')) ?R"
          using wide True by auto
      qed
    qed
  qed
  then have "wp (write_table_desc n write_ba bound) ?R" using at by blast
  then show ?thesis
    unfolding wp_bind
  proof (rule wp_mono)
    fix x assume x: "?R x"
    obtain r n' where rn: "x = (r, n')" by fastforce
    show "wp (case x of (r, n) \<Rightarrow> K r n) Q"
      using x rn fail succ by (cases r) auto
  qed
qed

section \<open>What each operation leaves\<close>

lemma wp_saved: "(ok \<Longrightarrow> saved page it img n) \<Longrightarrow> wp (Some (ok, n)) (\<lambda>(ok, n). ok \<longrightarrow> saved page it img n)"
  by simp

lemma image_chip: "image_at ni it img m b mb n \<Longrightarrow> good_chip ni page \<Longrightarrow> good_chip n page"
  unfolding image_at_def by (blast dest: table_at_chip(1))

lemma copy_kept:
  "good_chip ni page \<Longrightarrow> image_at ni it img m b mb n \<Longrightarrow> worn B n n' \<Longrightarrow> {s..<e} \<inter> B = {} \<Longrightarrow>
   copy_in page n img s e \<Longrightarrow> copy_in page n' img s e"
  by (rule copy_in_worn [OF image_chip])

lemma rebuild_saved:
  assumes ok: "area_ok ni" and c: "good_chip ni page" and at: "image_at ni it img m b mb n"
    and len: "length img = unat (info_table_size ni)"
  shows "wp (nmbm_rebuild_info_table n) (\<lambda>(ok, n'). ok \<longrightarrow> saved page it img n')"
proof -
  let ?top = "mapping_blocks_top_ba ni" and ?lo = "mgmt_start_ba ni"
  have lt: "?lo \<le> ?top" using ok by (simp add: area_ok_def)
  note f = image_at_frame [OF at]
  have at0: "image_at ni it img 0 0 ?top (n\<lparr>main_table_ba := 0, backup_table_ba := 0,
      mapping_blocks_ba := mapping_blocks_top_ba n\<rparr>)"
    unfolding f by (rule image_at_update at)+
  show ?thesis
    unfolding nmbm_rebuild_info_table_def Let_def
  proof (rule write_copy_bind [OF ok c at0 len], goal_cases lo hi fail succ)
    case (succ n' s e)
    then have lo: "?lo \<le> s" and hi: "e \<le> ?top" and se: "s < e" by (simp_all add: f)
    have loe: "?lo \<le> e" using lo se by order
    define n1 where "n1 = nmbm_mark_tables_clean (n'\<lparr>main_table_ba := s, mapping_blocks_ba := e\<rparr>)"
    have a1: "image_at ni it img s 0 e n1" unfolding n1_def by (rule image_at_update succ(1))+
    have c1: "copy_in page n1 img s e" using succ(3) by (simp add: n1_def)
    show ?case
      unfolding table_case n1_def [symmetric] image_at_frame(2) [OF a1]
    proof (cases "nmbm_try_reserve_blocks n1 e (info_table_spare_blocks n1) 0 (?top - info_table_blocks n1)",
        simp_all only: option.case, goal_cases none some)
      case none
      show ?case by (rule wp_saved) (rule savedI [OF a1 c1])
    next
      case (some w)
      have w: "e \<le> w" by (rule try_reserve_ge [OF some])
      then have dis: "{s..<e} \<inter> {w..<?top} = {}" by auto
      show ?case
      proof (rule write_copy_bind [OF ok c a1 len], goal_cases lo hi fail succ)
        case lo
        show ?case using w loe by order
      next
        case (fail n2)
        then show ?case using copy_kept [OF c a1 fail(2) dis c1] by (auto intro: savedI)
      next
        case (succ n2 s2 e2)
        let ?n3 = "n2\<lparr>backup_table_ba := s2, mapping_blocks_ba := e2\<rparr>"
        have a3: "image_at ni it img s s2 e2 ?n3" by (rule image_at_update succ(1))+
        have c3: "copy_in page ?n3 img s e" using copy_kept [OF c a1 succ(2) dis c1] by simp
        have o: "e \<le> e2" using succ w by order
        show ?case
          unfolding table_case
        proof (rule erase_keep_bind [OF ok a3], goal_cases lo hi cont)
          case hi
          show ?case using succ by simp
        next
          case (cont n4)
          have "copy_in page n4 img s e" by (rule copy_kept [OF c a3 cont(2) _ c3]) auto
          then show ?case using savedI [OF cont(1) copy_in_mono [OF _ o]] by simp
        qed (rule loe)
      qed simp
    qed
  qed (simp_all add: f)
qed

text \<open>\<open>nmbm_rescue_main_info_table\<close> starts from a backup copy that has been written.\<close>

lemma rescue_main_saved:
  assumes ok: "area_ok ni" and c: "good_chip ni page" and at: "image_at ni it img m b mb n"
    and len: "length img = unat (info_table_size ni)" and cp: "copy_in page n img b mb"
    and lo: "mgmt_start_ba ni \<le> b" "b < mb" "mb \<le> mapping_blocks_top_ba ni"
  shows "wp (nmbm_rescue_main_info_table n) (\<lambda>(ok, n'). ok \<longrightarrow> saved page it img n')"
proof -
  let ?top = "mapping_blocks_top_ba ni" and ?lo = "mgmt_start_ba ni"
  note f = image_at_frame [OF at]
  have backup_only: "saved page it img (n'\<lparr>main_table_ba := b, backup_table_ba := 0\<rparr>)"
    if a: "image_at ni it img m b mb n'" and c: "copy_in page n' img b mb" for n'
  proof -
    have "image_at ni it img b 0 mb (n'\<lparr>main_table_ba := b, backup_table_ba := 0\<rparr>)"
      by (rule image_at_update a)+
    from savedI [OF this] c show ?thesis by simp
  qed
  show ?thesis
    unfolding nmbm_rescue_main_info_table_def Let_def f
  proof (cases "nmbm_try_reserve_blocks n mb (info_table_spare_blocks n) 0 (?top - info_table_blocks n)",
      simp_all only: option.case, goal_cases none some)
    case none
    show ?case by (rule wp_saved) (rule backup_only [OF at cp])
  next
    case (some w)
    have lomb: "?lo \<le> mb" using lo by order
    show ?case
    proof (rule write_desc_copy_bind [OF ok c at len lomb refl], goal_cases fail succ)
      case (fail n')
      have "copy_in page n' img b mb" by (rule copy_kept [OF c at fail(2) _ cp]) auto
      then show ?case using backup_only [OF fail(1)] by (simp add: image_at_frame [OF fail(1)])
    next
      case (succ n' ts te)
      have a1: "image_at ni it img m b te (n'\<lparr>mapping_blocks_ba := te\<rparr>)" by (rule image_at_update succ(1))+
      have c1: "copy_in page (n'\<lparr>mapping_blocks_ba := te\<rparr>) img ts te" using succ(3) by simp
      show ?case
        unfolding table_case
      proof (rule write_copy_bind [OF ok c a1 len], goal_cases lo hi fail succ)
        case lo
        show ?case by (simp add: image_at_frame [OF succ(1)])
      next
        case hi
        show ?case using succ by simp
      next
        case (fail n2)
        have "image_at ni it img ts 0 te (nmbm_mark_tables_clean (n2\<lparr>main_table_ba := ts, backup_table_ba := 0\<rparr>))"
          by (rule image_at_update fail(1))+
        moreover have "copy_in page n2 img ts te" by (rule copy_kept [OF c a1 fail(2) _ c1]) auto
        ultimately show ?case using savedI [of ni it img ts 0 te] by simp
      next
        case succ': (succ n2 s e)
        have "image_at ni it img s ts te ((nmbm_mark_tables_clean (n2\<lparr>main_table_ba := s\<rparr>))\<lparr>backup_table_ba := ts\<rparr>)"
          by (rule image_at_update succ'(1))+
        moreover have "copy_in page n2 img s te"
          by (rule copy_in_mono [OF succ'(3)]) (use succ'(6) succ in order)
        ultimately show ?case using savedI [of ni it img s ts te] succ'(6) by simp
      qed
    qed
  qed
qed

lemma update_main_saved:
  assumes ok: "area_ok ni" and c: "good_chip ni page" and at: "image_at ni it img m b mb n"
    and len: "length img = unat (info_table_size ni)"
    and t: "tables_ok (mgmt_start_ba ni) m b mb" "mb \<le> mapping_blocks_top_ba ni"
    and limit: "limit = (if b = 0 then mapping_blocks_top_ba ni else b)"
    and cp: "b \<noteq> 0 \<Longrightarrow> copy_in page n img b mb"
  shows "wp (update_main_table n limit) (\<lambda>(ok, n'). ok \<longrightarrow> saved page it img n')"
proof -
  let ?top = "mapping_blocks_top_ba ni" and ?lo = "mgmt_start_ba ni"
  note f = image_at_frame [OF at]
  show ?thesis
  proof (cases "m = 0")
    case True
    then show ?thesis by (simp add: update_main_table_def f rebuild_saved [OF ok c at len])
  next
    case m: False
    then have lo: "?lo \<le> m" "m < mb" using t by (simp_all add: tables_ok_def)
    have b: "?lo \<le> b" "b < mb" "m < b" if "b \<noteq> 0" using t that by (simp_all add: tables_ok_def)
    have hi: "limit \<le> ?top" using limit b t(2) by (cases "b = 0") auto
    show ?thesis
      unfolding update_main_table_def f if_not_P [OF m]
    proof (rule write_copy_bind [OF ok c at len lo(1) hi], goal_cases fail succ)
      case (fail n')
      have "copy_in page n' img b mb" if "b \<noteq> 0"
        by (rule copy_kept [OF c at fail(2) _ cp [OF that]]) (use limit that in auto)
      then show ?case
        using rebuild_saved [OF ok c fail(1) len] rescue_main_saved [OF ok c fail(1) len _ b(1,2) t(2)]
        by (simp add: image_at_frame [OF fail(1)])
    next
      case (succ n' s e)
      show ?case
      proof (cases "b = 0")
        case True
        have "image_at ni it img s b e (nmbm_mark_tables_clean (n'\<lparr>main_table_ba := s, mapping_blocks_ba := e\<rparr>))"
          by (rule image_at_update succ(1))+
        from savedI [OF this, of page] succ(3) True image_at_frame [OF succ(1)] show ?thesis by (simp add: Let_def)
      next
        case False
        have "image_at ni it img s b mb (nmbm_mark_tables_clean (n'\<lparr>main_table_ba := s\<rparr>))"
          by (rule image_at_update succ(1))+
        moreover have "copy_in page n' img s mb"
          by (rule copy_in_mono [OF succ(3)]) (use succ(6) limit False b(2) in simp)
        ultimately show ?thesis using savedI [of ni it img s b mb] False image_at_frame [OF succ(1)] by (simp add: Let_def)
      qed
    qed
  qed
qed

lemma generate_cache_image:
  "nmbm_generate_info_table_cache crc ni = (changed, n) \<Longrightarrow>
   image_at ni (info_table n) (info_table_cache n) (main_table_ba ni) (backup_table_ba ni) (mapping_blocks_ba ni) n"
  using generate_cache_step by (simp add: image_at_def)

lemma update_once_saved:
  assumes l: "layout ni" and c: "good_chip ni page"
    and g: "nmbm_generate_info_table_cache crc ni = (True, n)"
    and len: "length (info_table_cache n) = unat (info_table_size ni)"
  shows "wp (nmbm_update_info_table_once crc ni force) (\<lambda>(ok, n'). ok \<longrightarrow> saved page (info_table n) (info_table_cache n) n')"
proof -
  let ?top = "mapping_blocks_top_ba ni" and ?lo = "mgmt_start_ba ni" and ?img = "info_table_cache n"
    and ?it = "info_table n" and ?m = "main_table_ba ni" and ?b = "backup_table_ba ni" and ?mb = "mapping_blocks_ba ni"
  have ok: "area_ok ni" and t: "tables_ok ?lo ?m ?b ?mb" "?lo \<le> ?mb" "?mb \<le> ?top"
    using l by (simp_all add: layout_def)
  note at = generate_cache_image [OF g]
  note f = image_at_frame [OF at]
  show ?thesis
  proof (cases "?b = 0")
    case True
    from update_main_saved [OF ok c at len t(1,3), of ?top] True show ?thesis
      by (simp add: nmbm_update_info_table_once_def g f)
  next
    case False
    then have b: "?lo \<le> ?b" "?b < ?mb" "?m \<noteq> 0" "?m < ?b" "?lo \<le> ?m" using t(1) by (auto simp: tables_ok_def)
    show ?thesis
      unfolding nmbm_update_info_table_once_def g prod.case Let_def f not_True_eq_False simp_thms if_False if_not_P [OF False]
    proof (rule write_copy_bind [OF ok c at len b(1) order_refl], goal_cases fail succ)
      case (fail n')
      have a: "image_at ni ?it ?img ?m 0 ?b (n'\<lparr>mapping_blocks_ba := ?b, backup_table_ba := 0\<rparr>)"
        by (rule image_at_update fail(1))+
      have "?b \<le> ?top" using b t(3) by order
      with update_main_saved [OF ok c a len, of ?top] b show ?case
        by (simp add: image_at_frame [OF fail(1)] tables_ok_def)
    next
      case (succ n' s e)
      have a: "image_at ni ?it ?img ?m s e (nmbm_mark_tables_clean (n'\<lparr>backup_table_ba := s, mapping_blocks_ba := e\<rparr>))"
        by (rule image_at_update succ(1))+
      have o: "?lo \<le> s" "?m < s" "?m < e" using b succ by order+
      with update_main_saved [OF ok c a len _ succ(6), of s] b succ area_ok_pos [OF ok o(1)] show ?case
        by (simp add: tables_ok_def)
    qed
  qed
qed

section \<open>An update that succeeds\<close>

text \<open>The main copy the instance goes on with is on the chip: it passes the header checks of the load
  path and holds the state table of \<open>n0\<close> and the mapping in force.\<close>

definition tables_saved ::
  "('d \<Rightarrow> u64 \<Rightarrow> u8 list) \<Rightarrow> crc_fun \<Rightarrow> 'd nmbm_instance \<Rightarrow> 'd nmbm_instance \<Rightarrow> bool" where
  "tables_saved page crc n0 n \<longleftrightarrow>
     (\<exists>img. copy_in page n img (main_table_ba n) (mapping_blocks_ba n) \<and>
        length img = unat (info_table_size n) \<and>
        nmbm_check_header crc img (info_table_size n) \<and> nmbm_check_info_table_header n img \<and>
        image_state_table n img = block_state n0 \<and> image_mapping_table n img = block_mapping n \<and>
        write_count (decode_info_table_header img) = write_count (info_table n))"

definition pending :: "'d nmbm_instance \<Rightarrow> bool" where
  "pending ni \<longleftrightarrow> block_state_changed ni \<noteq> 0 \<or> block_mapping_changed ni \<noteq> 0"

lemma generate_table:
  assumes "nmbm_generate_info_table_cache crc ni = (changed, n)"
  shows "write_count (info_table n) = write_count (info_table ni) + (if changed then 1 else 0)"
    "state_table_off (info_table n) = state_table_off (info_table ni)"
    "mapping_table_off (info_table n) = mapping_table_off (info_table ni)"
  using assms by (auto simp: nmbm_generate_info_table_cache_def Let_def)

lemma saved_tables:
  assumes i: "image_ok ni" and crc: "crc_incremental crc"
    and g: "nmbm_generate_info_table_cache crc ni = (changed, n0)"
    and s: "saved page (info_table n0) (info_table_cache n0) n" and st: "mgmt_step B ni n"
  shows "tables_saved page crc ni n" "image_ok n"
proof -
  note f = mgmt_step_frame [OF st] and im = generate_image [OF i crc g] and gt = generate_table [OF g]
  have n: "info_table n = info_table n0" "info_table_cache n = info_table_cache n0"
    "copy_in page n (info_table_cache n0) (main_table_ba n) (mapping_blocks_ba n)"
    using s by (simp_all add: saved_def)
  have "image_state_table n img = image_state_table ni img" "image_mapping_table n img = image_mapping_table ni img"
    "nmbm_check_info_table_header n img = nmbm_check_info_table_header ni img" for img
    using f by (simp_all add: image_state_table_def image_mapping_table_def nmbm_check_info_table_header_def)
  then show "tables_saved page crc ni n"
    unfolding tables_saved_def using n im f gt by (intro exI [of _ "info_table_cache n0"]) simp
  show "image_ok n"
    using i n gt f im(6) by (simp add: image_ok_def)
qed

text \<open>One round that has something to write.\<close>

lemma update_round:
  assumes l: "layout ni" and c: "good_chip ni page" and i: "image_ok ni" and crc: "crc_incremental crc" and p: "pending ni"
  shows "wp (nmbm_update_info_table_once crc ni force) (\<lambda>(ok, n). table_result ni ok n \<and>
    (ok \<longrightarrow> tables_saved page crc ni n \<and> image_ok n \<and> good_chip n page))"
proof -
  obtain ch n0 where g: "nmbm_generate_info_table_cache crc ni = (ch, n0)" by fastforce
  then have g: "nmbm_generate_info_table_cache crc ni = (True, n0)"
    using p generate_cache_changed [OF g] by (simp add: pending_def)
  show ?thesis
  proof (rule wp_mono [OF wp_conj [OF update_once_wp [OF l] update_once_saved [OF l c g generate_image(6) [OF i crc g]]]],
      clarify, intro conjI impI, goal_cases)
    case (1 ok n)
    then show ?case by (intro saved_tables(1) [OF i crc g]) (auto simp: table_result_def)
  next
    case (2 ok n)
    then show ?case using saved_tables(2) [OF i crc g, of page n "mgmt_area ni"] by (simp add: table_result_def)
  next
    case (3 ok n)
    then have "table_at ni (main_table_ba n) (backup_table_ba n) (mapping_blocks_ba n) n"
      by (simp add: table_result_def table_at_def)
    then show ?case by (rule table_at_chip(1) [OF _ c])
  qed
qed

text \<open>The copy is of the tables at the start of the last round, \<open>n0\<close>.\<close>

definition update_saved ::
  "('d \<Rightarrow> u64 \<Rightarrow> u8 list) \<Rightarrow> crc_fun \<Rightarrow> 'd nmbm_instance \<Rightarrow> 'd nmbm_instance \<Rightarrow> bool" where
  "update_saved page crc ni n \<longleftrightarrow> (\<exists>n0. mgmt_step (mgmt_area ni) ni n0 \<and> mgmt_step (mgmt_area ni) n0 n \<and>
     tables_saved page crc n0 n)"

lemma update_loop_saved:
  "layout ni \<Longrightarrow> good_chip ni page \<Longrightarrow> image_ok ni \<Longrightarrow> crc_incremental crc \<Longrightarrow> pending ni \<Longrightarrow>
   wp (update_info_table_loop crc ni) (\<lambda>(ok, n). ok \<longrightarrow> update_saved page crc ni n)"
proof (induction "good_count ni" arbitrary: ni rule: less_induct)
  case less
  have p: "(block_state_changed ni \<noteq> 0 \<or> block_mapping_changed ni \<noteq> 0) = True"
    using less.prems(5) by (simp add: pending_def)
  show ?case
  proof (subst update_info_table_loop.simps, simp only: p if_True wp_bind wp_prod,
      rule wp_pair [OF update_round [OF less.prems]])
    fix ok n assume r: "table_result ni ok n \<and> (ok \<longrightarrow> tables_saved page crc ni n \<and> image_ok n \<and> good_chip n page)"
    then have s: "mgmt_step (mgmt_area ni) ni n" and l: "layout n" by (simp_all add: table_result_def)
    have "wp (update_info_table_loop crc n) (\<lambda>(ok, n). ok \<longrightarrow> update_saved page crc ni n)" if o: ok
    proof (cases "pending n")
      case False
      then have "update_info_table_loop crc n = Some (True, n)"
        by (subst update_info_table_loop.simps) (simp add: pending_def)
      then show ?thesis using r o s by (auto simp: update_saved_def)
    next
      case True
      then obtain a where "nmbm_get_block_state ni a = BLOCK_ST_GOOD" "nmbm_get_block_state n a = BLOCK_ST_BAD"
        using r o by (auto simp: table_result_def cleaned_def pending_def)
      with s have "good_count n < good_count ni"
        by (auto simp: mgmt_step_def intro: wears_good_count)
      from less.hyps [OF this l _ _ less.prems(4) True] r o show ?thesis
        by (auto simp: update_saved_def mgmt_area_step [OF s] elim!: wp_pair intro: mgmt_step_trans [OF s])
    qed
    then show "wp (if \<not> ok then Some (False, n) else update_info_table_loop crc n)
        (\<lambda>(ok, n). ok \<longrightarrow> update_saved page crc ni n)" by simp
  qed
qed

text \<open>The contract: nothing to do, nothing done; else, on success, a copy of the tables is on the chip.\<close>

lemma update_info_table_saved:
  assumes l: "layout ni" and c: "good_chip ni page" and i: "image_ok ni" and crc: "crc_incremental crc"
  shows "wp (nmbm_update_info_table crc ni) (\<lambda>(ok, n).
    if protected ni \<noteq> 0 \<or> \<not> pending ni then ok \<and> n = ni
    else update_result ni ok n \<and> (ok \<longrightarrow> update_saved page crc ni n))"
proof (cases "protected ni \<noteq> 0 \<or> \<not> pending ni")
  case True
  then have "nmbm_update_info_table crc ni = Some (True, ni)"
    by (auto simp: nmbm_update_info_table_def pending_def update_info_table_loop.simps)
  then show ?thesis using True by simp
next
  case False
  then have p: "protected ni = 0" "pending ni" by auto
  show ?thesis
    using wp_conj [OF update_loop_wp [OF l, of crc] update_loop_saved [OF l c i crc p(2)]] False
    by (auto simp: nmbm_update_info_table_def p elim!: wp_mono)
qed

end
