(* ===== verification/Nmbm_Erased.thy ===== *)
theory Nmbm_Erased
  imports Nmbm_Mtd
begin

text \<open>
  The first attach of a new chip: on a chip that reads as \<open>0xff\<close> everywhere no signature is found,
  and the management data is created.
\<close>

section \<open>Attaching to an erased chip\<close>

text \<open>Every page reads as \<open>0xff\<close> and no block is marked bad.\<close>

definition erased :: "'d nmbm_instance \<Rightarrow> bool" where
  "erased ni \<longleftrightarrow>
     (\<forall>a buf mode. the (read_page (lower ni)) (chip ni) a (Some buf) None mode =
        (0, Some (replicate (unat (writesize (lower ni))) 0xff), None, chip ni)) \<and>
     (\<exists>f. is_bad_block (lower ni) = Some f \<and> (\<forall>a. f (chip ni) a = (0, chip ni)))"

lemma erased_cache [simp]: "erased (ni\<lparr>page_cache := pc\<rparr>) = erased ni"
  by (simp add: erased_def)

lemma erased_read:
  assumes "erased ni"
  shows "nmbm_read_phys_page ni a (Some buf) None mode = (0, Some (replicate (unat (writesize (lower ni))) 0xff), None, ni)"
  using assms by (simp add: nmbm_read_phys_page_def numeral_2_eq_2 lower_read_page_def erased_def)

lemma erased_good: "erased ni \<Longrightarrow> nmbm_check_bad_phys_block ni ba = (False, ni)"
  by (auto simp: nmbm_check_bad_phys_block_def erased_def)

lemma memcpy_blank:
  assumes "take pos data = replicate pos 0xff" "pos + c \<le> length data"
  shows "take (pos + c) (memcpy_at data pos (replicate c 0xff)) = replicate (pos + c) (0xff :: u8)"
    "length (memcpy_at data pos (replicate c 0xff)) = length data"
  using assms by (simp_all add: memcpy_at_def replicate_add)

lemma slice_blank: "l + c \<le> n \<Longrightarrow> slice l c (memcpy_at pc 0 (replicate n 0xff)) = replicate c (0xff :: u8)"
  by (simp add: slice_def memcpy_at_def)

lemma erased_read_data_loop:
  "read_data_loop ni off data pos sz = Some r \<Longrightarrow> erased ni \<Longrightarrow> geom ni \<Longrightarrow>
   take pos data = replicate pos 0xff \<Longrightarrow> pos + unat sz = length data \<Longrightarrow>
   (case r of (ret, data', n) \<Rightarrow> data' = replicate (length data) 0xff \<and> (\<exists>pc. n = ni\<lparr>page_cache := pc\<rparr>))"
proof (induction "unat sz" arbitrary: ni off data pos sz rule: less_induct)
  case less
  note e = less.prems(2) and g = less.prems(3)
  show ?case
  proof (cases "sz = 0")
    case True
    then show ?thesis
      using less.prems by (subst (asm) read_data_loop.simps) (auto intro: exI [of _ "page_cache ni"])
  next
    case False
    let ?l = "chunk_leading ni off" and ?w = "unat (writesize (lower ni))"
    let ?c = "chunk_size ni ?l sz"
    note c = chunk_size_min [OF g False, of off]
    have cs: "unat ?c \<le> unat sz" using c(3) by (simp add: word_le_nat_alt)
    have m: "unat (sz - ?c) < unat sz" using c by (intro unat_minus_less)
    have us: "unat (sz - ?c) = unat sz - unat ?c" by (rule unat_minus_le [OF c(3)])
    have mod: "unat off mod ?w < ?w" using geom_sizes(1) [OF g] by simp
    have lc: "unat ?l + unat ?c \<le> ?w" using c(1) mod unfolding chunk_leading_mod [OF g] by linarith
    let ?d = "memcpy_at data pos (replicate (unat ?c) 0xff)"
    have pc: "pos + unat ?c \<le> length data" using less.prems(5) cs by linarith
    note d = memcpy_blank [OF less.prems(4) pc]
    have rest: "case r of (ret, data', n) \<Rightarrow> data' = replicate (length data) 0xff \<and> (\<exists>pc. n = ni\<lparr>page_cache := pc\<rparr>)" if "read_data_loop (ni\<lparr>page_cache := pc\<rparr>) (off + ucast ?c) ?d (pos + unat ?c) (sz - ?c) = Some r" for pc
    proof -
      have g': "geom (ni\<lparr>page_cache := pc\<rparr>)" using g by (simp add: geom_def)
      have "pos + unat ?c + unat (sz - ?c) = length ?d" using d(2) less.prems(5) us cs by simp
      from less.hyps [OF m that _ g' d(1) this] e show ?thesis by (auto simp: d(2))
    qed
    show ?thesis
    proof (cases "?c = writesize (lower ni)")
      case True
      then show ?thesis
        using less.prems(1) rest [of "page_cache ni"] False
        by (subst (asm) read_data_loop.simps) (simp add: Let_def erased_read [OF e])
    next
      case F: False
      then show ?thesis
        using less.prems(1) rest [of "memcpy_at (page_cache ni) 0 (replicate ?w 0xff)"] False
        by (subst (asm) read_data_loop.simps)
          (simp add: Let_def read_to_page_cache_def erased_read [OF e] slice_blank [OF lc])
    qed
  qed
qed

lemma blank_no_header: "\<not> nmbm_check_header crc (replicate sizeof_signature 0xff) (of_nat sizeof_signature)"
proof -
  have "hdr_size (decode_header (replicate 48 0xff)) = 0xffffffff"
    by (simp add: decode_header_def get_le32_def)
  then show ?thesis by (simp add: nmbm_check_header_def Let_def)
qed

lemma erased_find_pages:
  "find_signature_pages crc ni addr off = Some r \<Longrightarrow> erased ni \<Longrightarrow> geom ni \<Longrightarrow>
   fst r = None \<and> (\<exists>pc. snd r = ni\<lparr>page_cache := pc\<rparr>)"
proof (induction "unat (erasesize (lower ni)) - unat off" arbitrary: ni off rule: less_induct)
  case less
  note e = less.prems(2) and g = less.prems(3)
  show ?case
  proof (cases "off < ucast (erasesize (lower ni))")
    case False
    then show ?thesis
      using less.prems(1) by (subst (asm) find_signature_pages.simps) (auto intro: exI [of _ "page_cache ni"])
  next
    case True
    then have lt: "unat off < unat (erasesize (lower ni))" by (simp add: ucast_less_u64)
    obtain x where rd: "nmbn_read_data ni (addr + off) (replicate sizeof_signature 0) (of_nat sizeof_signature) = Some x"
      using read_data_wp [OF g, where B = "{}", of "addr + off" "replicate sizeof_signature 0" "of_nat sizeof_signature"] by (auto simp: wp_iff)
    from erased_read_data_loop [OF this [unfolded nmbn_read_data_def] e g]
    obtain ret pc where x: "x = (ret, replicate sizeof_signature 0xff, ni\<lparr>page_cache := pc\<rparr>)" by (cases x) auto
    have "find_signature_pages crc (ni\<lparr>page_cache := pc\<rparr>) addr (off + ucast (writesize (lower ni))) = Some r"
      using less.prems(1) True blank_no_header by (subst (asm) find_signature_pages.simps) (simp add: rd [simplified] x)
    moreover have "unat (off + ucast (writesize (lower ni))) = unat off + unat (writesize (lower ni))"
      by (rule page_advance [OF g lt])
    ultimately have "fst r = None \<and> (\<exists>pc'. snd r = ni\<lparr>page_cache := pc\<rparr>\<lparr>page_cache := pc'\<rparr>)"
      using e g lt geom_sizes(1) [OF g] by (intro less.hyps) (simp_all add: geom_def)
    then show ?thesis by auto
  qed
qed

lemma erased_find_loop:
  assumes "find_signature_loop crc ni ba limit = Some r"
  shows "erased ni \<longrightarrow> geom ni \<longrightarrow> fst r = None"
proof (rule find_signature_loop.raw_induct [where P = "\<lambda>crc ni ba limit r. erased ni \<longrightarrow> geom ni \<longrightarrow> fst r = None", OF _ assms],
    intro impI)
  fix loop crc ni ba limit r
  assume IH: "\<And>crc ni ba limit r. loop crc ni ba limit = Some r \<Longrightarrow> erased ni \<longrightarrow> geom ni \<longrightarrow> fst r = None"
    and body: "(if limit \<le> ba then
        let ba = ba - 1;
            (bad, ni) = nmbm_check_bad_phys_block ni ba
        in if bad then loop crc ni ba limit
           else do {
             (r, ni) \<leftarrow> find_signature_pages crc ni (ba2addr ni ba) 0;
             case r of
               Some sig \<Rightarrow> Some (Some (sig, ba), ni)
             | None \<Rightarrow> loop crc ni ba limit
           }
      else Some (None, ni)) = Some r" and e: "erased ni" and g: "geom ni"
  show "fst r = None"
  proof (cases "limit \<le> ba")
    case False
    then show ?thesis using body by auto
  next
    case True
    obtain x where s: "find_signature_pages crc ni (ba2addr ni (ba - 1)) 0 = Some x"
      using find_signature_pages_wp [OF g, of crc "ba2addr ni (ba - 1)" 0] by (auto simp: wp_iff)
    from erased_find_pages [OF s e g] obtain pc where x: "x = (None, ni\<lparr>page_cache := pc\<rparr>)" by (cases x) auto
    have "loop crc (ni\<lparr>page_cache := pc\<rparr>) (ba - 1) limit = Some r"
      using body True by (simp add: erased_good [OF e] s x)
    from IH [OF this] e g show ?thesis by (simp add: geom_def)
  qed
qed

lemma erased_no_signature:
  assumes z: "sized ni" "checked (lower ni)" "sane (lower ni)" and e: "erased ni"
  shows "wp (nmbm_find_signature crc ni) (\<lambda>(r, _). r = None)"
proof -
  obtain r n where f: "nmbm_find_signature crc ni = Some (r, n)"
    using find_signature_wp [OF z, of crc] by (auto simp: wp_iff)
  moreover have "geom ni" using z(1) by (simp add: sized_def)
  ultimately show ?thesis
    using erased_find_loop [where ni = ni] e
    by (auto simp: nmbm_find_signature_def Let_def bind_eq_Some_conv)
qed

text \<open>Attaching to such a chip creates the management data.\<close>

lemma attach_erased_wp:
  assumes ok: "fst (nmbm_check_lower_members nld)" and s: "sane nld"
    and fl: "flags nld AND NMBM_F_CREATE \<noteq> 0" "flags nld AND NMBM_F_READ_ONLY = 0"
    and e: "erased (zero_instance nld)"
  shows "wp (nmbm_attach crc level nld (zero_instance nld)) (\<lambda>(ret, n). ret = - ENODEV \<or> ret = 0 \<and> run_inv n)"
proof -
  obtain l where l: "nmbm_check_lower_members nld = (True, l)" using ok by (metis prod.collapse)
  note c = check_lower_members_checked [OF l]
  let ?n = "attach_start level nld (zero_instance nld)"
  have sl: "sane l" using s by (simp add: c(2) sane_def)
  have z: "sized ?n" "lower ?n = l"
    using init_structure_sized [of "(zero_instance nld)\<lparr>log_display_level := level, lower := l\<rparr>"] c(1) sl
    by (simp_all add: attach_start_def l)
  have "erased ?n" using e unfolding erased_def chip_def z(2) c(2) by (simp add: zero_instance_def)
  then have "wp (nmbm_find_signature crc ?n) (\<lambda>(r, _). r = None)"
    using z c(1) sl by (intro erased_no_signature) simp_all
  from attach_new_wp [OF ok s fl this] show ?thesis .
qed

end
