(* ===== verification/Nmbm_Demo.thy ===== *)
theory Nmbm_Demo
  imports Nmbm_Mtd_Service Nmbm_Read Nmbm_Saved Nmbm_Erased
begin

text \<open>
  A small concrete chip and an instance attached to it, on which the properties are tried out. The
  chip has 256 blocks of 32 pages of 64 bytes and no faults: what is written to a page is read back,
  and an erased page reads as \<open>0xff\<close>.
\<close>

section \<open>The chip\<close>

type_synonym flash = "u64 \<Rightarrow> u8 list option"

definition flash_page :: "flash \<Rightarrow> u64 \<Rightarrow> u8 list" where
  "flash_page d a = (case d a of Some p \<Rightarrow> if length p = 64 then p else replicate 64 0xff
     | None \<Rightarrow> replicate 64 0xff)"

definition flash_read ::
  "flash \<Rightarrow> u64 \<Rightarrow> u8 list option \<Rightarrow> u8 list option \<Rightarrow> nmbm_oob_mode \<Rightarrow>
   int \<times> u8 list option \<times> u8 list option \<times> flash" where
  "flash_read d a data oob mode = (0, map_option (\<lambda>_. flash_page d a) data, oob, d)"

definition flash_write :: "flash \<Rightarrow> u64 \<Rightarrow> u8 list option \<Rightarrow> u8 list option \<Rightarrow> nmbm_oob_mode \<Rightarrow> int \<times> flash" where
  "flash_write d a data oob mode = (0, if data = None then d else d(a := data))"

definition flash_panic_write :: "flash \<Rightarrow> u64 \<Rightarrow> u8 list option \<Rightarrow> int \<times> flash" where
  "flash_panic_write d a data = (0, if data = None then d else d(a := data))"

definition flash_erase :: "flash \<Rightarrow> u64 \<Rightarrow> int \<times> flash" where
  "flash_erase d a = (0, \<lambda>x. if drop_bit 11 x = drop_bit 11 a then None else d x)"

definition demo_device :: "flash \<Rightarrow> flash nmbm_lower_device" where
  "demo_device d = \<lparr>max_ratio = 1, max_reserved_blocks = 0, flags = NMBM_F_CREATE, lsize = 2 ^ 19,
     erasesize = 2048, writesize = 64, oobsize = 16, oobavail = 16, arg = d, reset_chip = None,
     read_page = Some flash_read, write_page = Some flash_write,
     panic_write_page = Some flash_panic_write, erase_block = Some flash_erase,
     is_bad_block = Some (\<lambda>d a. (0, d)), mark_bad_block = Some (\<lambda>d a. (0, d)), logprint = False\<rparr>"

definition blank_flash :: flash where
  "blank_flash = (\<lambda>_. None)"

text \<open>A checksum that can be computed piece by piece.\<close>

definition demo_crc :: crc_fun where
  "demo_crc c xs = c + sum_list (map ucast xs)"

section \<open>The instance\<close>

text \<open>The tables of an attached instance above any lower device with these sizes.\<close>

definition demo_tables :: "'d nmbm_lower_device \<Rightarrow> 'd nmbm_instance" where
  "demo_tables L = (zero_instance L)\<lparr>rawpage_size := 80,
     writesize_mask := 63, erasesize_mask := 2047, writesize_shift := 6, erasesize_shift := 11,
     info_table_cache := replicate 1152 0, info_table_size := 1152, info_table_spare_blocks := 1,
     block_state := replicate 16 (-1), state_table_size := 64,
     block_mapping := map of_nat [0..<256], mapping_table_size := 1024,
     page_cache := replicate 80 0, block_count := 256, data_block_count := 240,
     mgmt_start_ba := 240, main_table_ba := 240, backup_table_ba := 244, mapping_blocks_ba := 248,
     mapping_blocks_top_ba := 254, signature_ba := 255\<rparr>"

definition demo_instance :: "flash nmbm_instance" where
  "demo_instance = demo_tables (demo_device blank_flash)"

lemma demo_tables_simps [simp]:
  "lower (demo_tables L) = L" "protected (demo_tables L) = 0"
  "block_count (demo_tables L) = 256" "data_block_count (demo_tables L) = 240"
  "mgmt_start_ba (demo_tables L) = 240" "mapping_blocks_ba (demo_tables L) = 248"
  "mapping_blocks_top_ba (demo_tables L) = 254" "signature_ba (demo_tables L) = 255"
  "main_table_ba (demo_tables L) = 240" "backup_table_ba (demo_tables L) = 244"
  "erasesize_shift (demo_tables L) = 11" "erasesize_mask (demo_tables L) = 2047"
  "writesize_mask (demo_tables L) = 63" "info_table_size (demo_tables L) = 1152"
  "block_mapping (demo_tables L) = map of_nat [0..<256]" "block_state (demo_tables L) = replicate 16 (-1)"
  "chip (demo_tables L) = arg L"
  by (simp_all add: demo_tables_def zero_instance_def chip_def)

lemma demo_simps [simp]:
  "lower demo_instance = demo_device blank_flash"
  "writesize (demo_device d) = 64" "erasesize (demo_device d) = 2048" "flags (demo_device d) = NMBM_F_CREATE"
  "arg (demo_device d) = d" "lsize (demo_device d) = 2 ^ 19" "oobsize (demo_device d) = 16"
  by (simp_all add: demo_instance_def demo_device_def)

lemma demo_state: "unat a < 256 \<Longrightarrow> nmbm_get_block_state (demo_tables L) a = BLOCK_ST_GOOD"
proof -
  assume "unat a < 256"
  then have "unat a div 16 < 16" by (simp add: less_mult_imp_div_less)
  then have "nmbm_get_block_state (demo_tables L) a = unit_get (-1) (unat a mod 16)"
    by (simp add: get_state_unit)
  also have "\<dots> = 3"
  proof (rule bit_word_eqI)
    fix n assume "n < LENGTH(32)"
    have "unat a mod 16 < 16" by simp
    then show "bit (unit_get (- 1) (unat a mod 16)) n = bit (3 :: u32) n"
      unfolding unit_get_def three_mask by (auto simp: bit_simps)
  qed
  finally show ?thesis .
qed

definition demo_sized :: "'d nmbm_lower_device \<Rightarrow> bool" where
  "demo_sized L \<longleftrightarrow> erasesize L = 2048 \<and> writesize L = 64"

lemma demo_device_sized [simp]: "demo_sized (demo_device d)"
  by (simp add: demo_sized_def)

lemma demo_geom: "demo_sized L \<Longrightarrow> geom (demo_tables L)"
  unfolding geom_def demo_sized_def by (intro conjI exI [of _ 6]) simp_all

lemma demo_layout: "demo_sized L \<Longrightarrow> layout (demo_tables L)"
  by (simp add: layout_def area_ok_def demo_geom tables_ok_def)

lemma demo_run_inv: "demo_sized L \<Longrightarrow> run_inv (demo_tables L)"
proof -
  assume "demo_sized L"
  have "(of_nat i :: u32) < 255" if "i < 240" for i
    using that by (simp add: word_less_nat_alt unat_of_nat)
  then have "mapped_ok (demo_tables L)" by (simp add: mapped_ok_def)
  then show ?thesis using \<open>demo_sized L\<close> by (simp add: run_inv_def spare_ok_def demo_layout)
qed

lemma demo_inv: "run_inv demo_instance" "geom demo_instance" "layout demo_instance"
  by (simp_all add: demo_instance_def demo_run_inv demo_geom demo_layout)

text \<open>The chip gives back what has been written.\<close>

lemma demo_pages: "reads_pages (demo_device d) flash_page" "writes_pages (demo_device d) flash_page"
  by (auto simp: reads_pages_def writes_pages_def demo_device_def flash_read_def flash_write_def flash_page_def
      split: option.splits)

lemma demo_apart: "blocks_apart (demo_device d) flash_page 11"
  by (auto simp: blocks_apart_def demo_device_def flash_read_def flash_write_def flash_panic_write_def
      flash_erase_def flash_page_def)

text \<open>An instance with a change to save, and the places of the two tables in the image.\<close>

definition demo_dirty :: "flash nmbm_instance" where
  "demo_dirty = demo_instance\<lparr>block_mapping_changed := 1,
     info_table := (info_table demo_instance)\<lparr>state_table_off := 64, mapping_table_off := 128\<rparr>\<rparr>"

lemma demo_dirty_inv:
  "layout demo_dirty" "good_chip demo_dirty flash_page" "image_ok demo_dirty" "pending demo_dirty"
  "protected demo_dirty = 0"
proof -
  have "geom demo_dirty" using demo_inv(2) by (simp add: demo_dirty_def geom_def)
  then show "layout demo_dirty" "good_chip demo_dirty flash_page"
    using demo_inv(3) demo_pages demo_apart
    by (simp_all add: demo_dirty_def layout_def area_ok_def good_chip_def demo_instance_def)
  show "image_ok demo_dirty" "pending demo_dirty" "protected demo_dirty = 0"
    by (simp_all add: demo_dirty_def image_ok_def pending_def demo_instance_def) (simp_all add: demo_tables_def)
qed

text \<open>A page write that succeeds.\<close>

lemma demo_write:
  "nmbm_write_single_page demo_crc demo_instance 0 (Some p) None NMBM_MODE_AUTO_OOB =
     Some (0, set_chip (blank_flash(0 := Some p)) demo_instance)"
proof -
  have st: "nmbm_get_block_state demo_instance 0 = BLOCK_ST_GOOD" by (simp add: demo_instance_def demo_state)
  have a: "ba2addr demo_instance 0 = 0" "addr2ba demo_instance 0 = 0"
    "\<not> ba2addr demo_instance (data_block_count demo_instance) \<le> 0"
    by (simp_all add: ba2addr_def addr2ba_def demo_instance_def)
  have m: "block_mapping demo_instance ! 0 = 0" "protected demo_instance = 0" "\<not> has_flag demo_instance NMBM_F_READ_ONLY"
    by (simp_all add: demo_instance_def has_flag_def nth_map_upt)
  have "lower_write_page 0 (Some p) None NMBM_MODE_AUTO_OOB demo_instance =
      (0, set_chip (blank_flash(0 := Some p)) demo_instance)"
    by (simp add: lower_write_page_def demo_instance_def) (simp add: demo_device_def flash_write_def)
  then have "nmbm_write_phys_page demo_instance 0 (Some p) None NMBM_MODE_AUTO_OOB =
      (True, set_chip (blank_flash(0 := Some p)) demo_instance)"
    using m by (simp add: nmbm_write_phys_page_def numeral_2_eq_2)
  with st a m show ?thesis by (simp add: nmbm_write_single_page_def nmbm_write_logic_page_def)
qed

lemma demo_readable:
  assumes "x < 2048" shows "readable demo_instance x"
proof -
  have "unat x < 2048" using assms by (simp add: word_less_nat_alt)
  then have "drop_bit 11 x = 0" by (simp only: word_unat_eq_iff unat_drop_bit_eq) (simp add: drop_bit_eq_div)
  then have "addr2ba demo_instance x = 0" by (simp add: addr2ba_def demo_instance_def)
  then show ?thesis by (simp add: readable_def demo_instance_def demo_state nth_map_upt)
qed

lemma demo_spare_ok: "spare_ok demo_instance"
  using demo_inv(1) by (simp add: run_inv_def)

definition demo_bad_top :: "flash nmbm_instance" where
  "demo_bad_top = set_block_state demo_instance 254 BLOCK_ST_BAD"

lemma demo_crc_incremental: "crc_incremental demo_crc"
  by (simp add: crc_incremental_def demo_crc_def ac_simps)

lemma demo_checks: "nmbm_check_lower_members (demo_device d) = (True, demo_device d)" "sane (demo_device d)"
  by (simp_all add: nmbm_check_lower_members_def demo_device_def is_power_of_2_u64_def is_power_of_2_def sane_def Let_def word_le_nat_alt)

lemma demo_start:
  "sized (attach_start level (demo_device d) ni)" "lower (attach_start level (demo_device d) ni) = demo_device d"
  "image_ok (attach_start level (demo_device d) ni)"
  using init_structure_sized [of "ni\<lparr>log_display_level := level, lower := demo_device d\<rparr>"]
    check_lower_members_checked(1) [OF demo_checks(1)]
  by (simp_all add: attach_start_def demo_checks)

definition demo_fresh :: "flash nmbm_instance" where
  "demo_fresh = attach_start NMBM_LOG_INFO (demo_device blank_flash) (zero_instance (demo_device blank_flash))"

definition demo_signature :: nmbm_signature where
  "demo_signature = \<lparr>sig_header = \<lparr>magic = NMBM_MAGIC_SIGNATURE, version = NMBM_VER, hdr_size = 48, checksum = 0\<rparr>,
     nand_size = 2 ^ 19, block_size = 2048, page_size = 64, spare_size = 16, mgmt_start_pb = 240,
     max_try_count = 3, sig_padding = replicate 7 0\<rparr>"

section \<open>The MTD device on top\<close>

definition demo_mtd_read :: "flash mtd_info \<Rightarrow> u64 \<Rightarrow> mtd_oob_ops \<Rightarrow> int \<times> mtd_oob_ops \<times> flash mtd_info" where
  "demo_mtd_read lm a ops = (0, ops\<lparr>ops_datbuf := map_option (\<lambda>_. flash_page (m_priv lm) a) (ops_datbuf ops),
     ops_retlen := ops_len ops, ops_oobretlen := ops_ooblen ops\<rparr>, lm)"

definition demo_api :: "flash mtd_api" where
  "demo_api = \<lparr>mtd_read_oob = demo_mtd_read,
     mtd_write_oob = (\<lambda>lm a ops. (0, lm\<lparr>m_priv := (m_priv lm)(a := ops_datbuf ops)\<rparr>)),
     mtd_panic_write = (\<lambda>lm a n b. (0, lm\<lparr>m_priv := (m_priv lm)(a := b)\<rparr>)),
     mtd_erase = (\<lambda>lm a n. (0, lm\<lparr>m_priv := snd (flash_erase (m_priv lm) a)\<rparr>)),
     mtd_block_isbad = (\<lambda>lm a. (0, lm)), mtd_block_markbad = (\<lambda>lm a. (0, lm)),
     mtd_oobavail = (\<lambda>avail sz mode. if mode = MTD_OPS_AUTO_OOB then avail else sz)\<rparr>"

definition demo_lower_mtd :: "flash mtd_info" where
  "demo_lower_mtd = \<lparr>m_type = 4, m_flags = 0, m_size = 2 ^ 19, m_erasesize = 2048, m_writesize = 64,
     m_writebufsize = 64, m_oobsize = 16, m_oobavail = 12, m_erasesize_shift = 11, m_writesize_shift = 6,
     m_erasesize_mask = 2047, m_writesize_mask = 63, m_bitflip_threshold = 1, m_ecc_step_size = 512,
     m_ecc_strength = 4, m_corrected = 0, m_failed = 0, m_priv = blank_flash\<rparr>"

definition demo_env :: "flash probe_env" where
  "demo_env = \<lparr>by_phandle = Some (Some demo_lower_mtd), by_name = None, indeterminate = demo_lower_mtd,
     prop_max_ratio = None, prop_max_reserved_blocks = None, forced_create = True,
     empty_page_ecc_protected = False, alloc_fails = False, register_result = 0\<rparr>"

definition demo_nm :: "flash nmbm_mtd" where
  "demo_nm = \<lparr>upper = probe_upper demo_lower_mtd 240,
     nm_ni = demo_tables (probe_lower_device demo_api demo_env demo_lower_mtd),
     nm_page_cache = replicate 80 0, nm_state = FL_READY\<rparr>"

lemma demo_api_shape: "api_keeps_shape demo_api"
  by (simp add: api_keeps_shape_def demo_api_def same_shape_def demo_mtd_read_def)

lemma demo_mtd_inv: "mtd_inv demo_api demo_nm" "nm_state demo_nm = FL_READY"
proof -
  have "demo_sized (probe_lower_device demo_api demo_env demo_lower_mtd)"
    by (simp add: demo_sized_def probe_lower_device_def demo_lower_mtd_def)
  moreover have "nm_lower_mtd demo_nm = demo_lower_mtd"
    by (simp add: nm_lower_mtd_def demo_nm_def probe_lower_device_def)
  moreover have "lower_uses demo_api (probe_lower_device demo_api demo_env demo_lower_mtd)"
    by (simp add: lower_uses_def probe_lower_device_def)
  ultimately show "mtd_inv demo_api demo_nm"
    by (auto simp: mtd_inv_def demo_nm_def demo_run_inv probe_upper_def demo_lower_mtd_def intro: exI [of _ 6])
qed (simp add: demo_nm_def)

end
