(* ===== verification/Bmt_Types.thy ===== *)
theory Bmt_Types
  imports Mtd_Device
begin

text \<open>
  The descriptor \<open>bmtd\<close> of the bad block management inside the NAND core (\<open>mtk_bmt.h\<close>), its wrappers
  of the driver's operations, and copying a block.

  The driver below is a parameter: its saved function pointers are the fields of \<open>nand_ops\<close>, functions
  on the driver's state \<open>nand\<close>. \<open>bmt_sig\<close> is \<open>bmtd.ops->sig\<close>; the other members of \<open>bmtd.ops\<close> are the
  record \<open>mtk_bmt_ops\<close> that the callers are given.
\<close>

section \<open>Sixteen-bit integers in memory\<close>

text \<open>A write outside the list changes nothing.\<close>

definition get_le16 :: "u8 list \<Rightarrow> nat \<Rightarrow> u16" where
  "get_le16 b off = ucast (b ! off) OR push_bit 8 (ucast (b ! (off + 1)))"

definition put_le16 :: "u8 list \<Rightarrow> nat \<Rightarrow> u16 \<Rightarrow> u8 list" where
  "put_le16 b off w = b[off := ucast w, off + 1 := ucast (drop_bit 8 w)]"

lemma length_put_le16 [simp]: "length (put_le16 b off w) = length b"
  by (simp add: put_le16_def)

lemma le16_bytes: "ucast (ucast w :: u8) OR push_bit 8 (ucast (ucast (drop_bit 8 w) :: u8)) = (w :: u16)"
proof (rule bit_word_eqI)
  fix i assume "i < LENGTH(16)"
  then consider "i < 8" | "8 \<le> i" "i < 16" by fastforce
  then show "bit (ucast (ucast w :: u8) OR push_bit 8 (ucast (ucast (drop_bit 8 w) :: u8)) :: u16) i = bit w i"
    by cases (auto simp: bit_simps)
qed

lemma get_put_le16 [simp]: "off + 1 < length b \<Longrightarrow> get_le16 (put_le16 b off w) off = w"
  by (simp add: get_le16_def put_le16_def le16_bytes)

lemma get_put_le16_other [simp]:
  "off + 2 \<le> o' \<or> o' + 2 \<le> off \<Longrightarrow> get_le16 (put_le16 b off w) o' = get_le16 b o'"
  by (auto simp: get_le16_def put_le16_def)

section \<open>The descriptor\<close>

record 'm bmt_nand_ops =
  nand_read_oob :: "'m \<Rightarrow> u64 \<Rightarrow> mtd_oob_ops \<Rightarrow> int \<times> mtd_oob_ops \<times> 'm"
  nand_write_oob :: "'m \<Rightarrow> u64 \<Rightarrow> mtd_oob_ops \<Rightarrow> int \<times> mtd_oob_ops \<times> 'm"
  nand_erase :: "'m \<Rightarrow> u64 \<Rightarrow> u64 \<Rightarrow> int \<times> 'm"
  nand_block_isbad :: "'m \<Rightarrow> u64 \<Rightarrow> int \<times> 'm"
  nand_block_markbad :: "'m \<Rightarrow> u64 \<Rightarrow> int \<times> 'm"

text \<open>\<open>remap_range\<close> holds the pairs of the device tree property in the byte order of the CPU, so that
  \<open>remap_range_len\<close> is its length; \<open>bbt_found\<close> says that \<open>bmtd.bbt\<close> points to \<open>bbt_buf\<close>.\<close>

record 'm bmt_desc =
  bmt_mtd :: "unit mtd_info"
  nand :: 'm
  nand_ops :: "'m bmt_nand_ops"
  bmt_sig :: "u8 list"
  bbt_buf :: "u8 list"
  data_buf :: "u8 list"
  bbt_found :: bool
  table_size :: u32
  pg_size :: u32
  blk_size :: u32
  pg_shift :: u16
  blk_shift :: u16
  pool_lba :: u16
  pool_pba :: u16
  bb_max :: u16
  total_blks :: u16
  bmt_blk_idx :: u16
  bmt_pgs :: u32
  remap_range :: "(u32 \<times> u32) list option"
  oob_offset :: u8

text \<open>\<open>MAIN_SIGNATURE_OFFSET\<close> is 0.\<close>

abbreviation (input) OOB_SIGNATURE_OFFSET :: u32 where "OOB_SIGNATURE_OFFSET \<equiv> 1"

text \<open>The operations of a table format, on the descriptor \<open>'s\<close>; \<open>'t\<close> is what they read from the
  device tree. \<open>None\<close> is a call that does not return; the first argument of \<open>debug\<close> says whether
  an allocation fails.\<close>

record ('s, 't) mtk_bmt_ops =
  bops_sig :: "u8 list"
  bops_init :: "'t \<Rightarrow> 's \<Rightarrow> (int \<times> 's) option"
  bops_remap_block :: "'s \<Rightarrow> u16 \<Rightarrow> u16 \<Rightarrow> int \<Rightarrow> (bool \<times> 's) option"
  bops_unmap_block :: "'s \<Rightarrow> u16 \<Rightarrow> 's"
  bops_get_mapping_block :: "'s \<Rightarrow> int \<Rightarrow> int option"
  bops_debug :: "bool \<Rightarrow> 's \<Rightarrow> u64 \<Rightarrow> int \<times> 's"

section \<open>The driver below\<close>

definition blk_pg :: "'m bmt_desc \<Rightarrow> u16 \<Rightarrow> u32" where
  "blk_pg D block = push_bit (unat (blk_shift D) - unat (pg_shift D)) (ucast block)"

text \<open>The address of a block as a \<open>loff_t\<close>.\<close>

definition blk_addr :: "'m bmt_desc \<Rightarrow> u16 \<Rightarrow> u64" where
  "blk_addr D block = push_bit (unat (blk_shift D)) (ucast block)"

definition buf_of :: "u8 list \<Rightarrow> u8 list option \<Rightarrow> u8 list" where
  "buf_of d b = (case b of None \<Rightarrow> d | Some x \<Rightarrow> x)"

text \<open>Results: the error number and the two buffers. The address is shifted in 32 bits.\<close>

definition bbt_nand_read ::
  "'m bmt_desc \<Rightarrow> u32 \<Rightarrow> u8 list \<Rightarrow> u64 \<Rightarrow> u8 list \<Rightarrow> u64 \<Rightarrow> int \<times> u8 list \<times> u8 list \<times> 'm bmt_desc" where
  "bbt_nand_read D page dat dat_len fdm fdm_len =
     (let (ret, ops, m) = nand_read_oob (nand_ops D) (nand D) (ucast (push_bit (unat (pg_shift D)) page))
            \<lparr>ops_mode = MTD_OPS_PLACE_OOB, ops_len = dat_len, ops_retlen = 0, ops_ooblen = fdm_len,
             ops_oobretlen = 0, ops_ooboffs = ucast (oob_offset D),
             ops_datbuf = Some dat, ops_oobbuf = Some fdm\<rparr>
      in (if ret < 0 then ret else 0, buf_of dat (ops_datbuf ops), buf_of fdm (ops_oobbuf ops),
          D\<lparr>nand := m\<rparr>))"

definition bbt_nand_erase :: "'m bmt_desc \<Rightarrow> u16 \<Rightarrow> int \<times> 'm bmt_desc" where
  "bbt_nand_erase D block =
     (let (ret, m) = nand_erase (nand_ops D) (nand D) (blk_addr D block) (ucast (blk_size D))
      in (ret, D\<lparr>nand := m\<rparr>))"

definition write_bmt :: "'m bmt_desc \<Rightarrow> u16 \<Rightarrow> u8 list \<Rightarrow> int \<times> 'm bmt_desc" where
  "write_bmt D block dat =
     (let (ret, ops, m) = nand_write_oob (nand_ops D) (nand D) (blk_addr D block)
            \<lparr>ops_mode = MTD_OPS_PLACE_OOB, ops_len = ucast (push_bit (unat (pg_shift D)) (bmt_pgs D)),
             ops_retlen = 0, ops_ooblen = of_nat (length (bmt_sig D)), ops_oobretlen = 0,
             ops_ooboffs = OOB_SIGNATURE_OFFSET + ucast (oob_offset D),
             ops_datbuf = Some dat, ops_oobbuf = Some (bmt_sig D)\<rparr>
      in (ret, D\<lparr>nand := m\<rparr>))"

text \<open>Copying page by page. The spare bytes read are never passed on: \<open>wr_ops.ooblen\<close> is set after
  the write, on a structure that is gone by the next round. \<open>offset\<close> is a \<open>loff_t\<close>, compared signed.\<close>

primrec copy_pages ::
  "nat \<Rightarrow> 'm bmt_desc \<Rightarrow> u64 \<Rightarrow> u64 \<Rightarrow> u64 \<Rightarrow> u64 \<Rightarrow> u64 \<Rightarrow> u8 list \<Rightarrow> int \<times> 'm bmt_desc" where
  "copy_pages 0 D src dest offset max_offset ooblen oob = (0, D)"
| "copy_pages (Suc n) D src dest offset max_offset ooblen oob =
     (if sint max_offset \<le> sint offset then (0, D)
      else
        let (ret, rd, m) = nand_read_oob (nand_ops D) (nand D) (src + offset)
              \<lparr>ops_mode = MTD_OPS_PLACE_OOB, ops_len = ucast (pg_size D), ops_retlen = 0,
               ops_ooblen = ooblen, ops_oobretlen = 0, ops_ooboffs = 0,
               ops_datbuf = Some (data_buf D), ops_oobbuf = Some oob\<rparr>;
            D = D\<lparr>nand := m, data_buf := buf_of (data_buf D) (ops_datbuf rd)\<rparr>;
            oob = buf_of oob (ops_oobbuf rd)
        in if ret < 0 \<and> ret \<noteq> - EUCLEAN then (ret, D)
           else if ops_retlen rd = 0 then (0, D)
           else
             let (ret, wr, m) = nand_write_oob (nand_ops D) (nand D) (dest + offset)
                   \<lparr>ops_mode = MTD_OPS_PLACE_OOB, ops_len = ucast (pg_size D), ops_retlen = 0,
                    ops_ooblen = 0, ops_oobretlen = 0, ops_ooboffs = 0,
                    ops_datbuf = Some (data_buf D), ops_oobbuf = Some oob\<rparr>;
                 D = D\<lparr>nand := m\<rparr>
             in if ret < 0 then (ret, D)
                else copy_pages n D src dest (offset + ops_retlen rd) max_offset ooblen oob)"

text \<open>The array \<open>oob\<close> is not initialised in C; zeros stand for its contents, no byte of which is
  passed on before it has been read.\<close>

definition bbt_nand_copy :: "'m bmt_desc \<Rightarrow> u16 \<Rightarrow> u16 \<Rightarrow> u64 \<Rightarrow> int \<times> 'm bmt_desc" where
  "bbt_nand_copy D dest_blk src_blk max_offset =
     (let pages = drop_bit (unat (pg_shift D)) (blk_size D)
      in copy_pages (unat pages) D (blk_addr D src_blk) (blk_addr D dest_blk) 0 max_offset
           (ucast (min (m_oobsize (bmt_mtd D) div pages) 64)) (replicate 64 0))"

text \<open>\<open>round_up (x, y)\<close> of the kernel for a power of two \<open>y\<close>.\<close>

definition round_up :: "'a::len word \<Rightarrow> 'a word \<Rightarrow> 'a word" where
  "round_up x y = ((x - 1) OR (y - 1)) + 1"

text \<open>Moving a logic block to a new block: that is erased and, up to \<open>copy_len\<close>, the old one copied to it.\<close>

definition moved_to :: "'m bmt_desc \<Rightarrow> u16 \<Rightarrow> u16 \<Rightarrow> int \<Rightarrow> 'm bmt_desc" where
  "moved_to D new_blk old_blk copy_len =
     (let D = snd (bbt_nand_erase D new_blk)
      in if 0 < copy_len then snd (bbt_nand_copy D new_blk old_blk (word_of_int copy_len)) else D)"

section \<open>The remap range\<close>

text \<open>The two integers are what the function stores in \<open>*start\<close> and \<open>*end\<close> when it returns true:
  addresses when there is a range, block numbers when there is none.\<close>

definition mapping_block_in_range :: "'m bmt_desc \<Rightarrow> int \<Rightarrow> (int \<times> int) option" where
  "mapping_block_in_range D block =
     (let addr = push_bit (unat (blk_shift D)) (word_of_int block) :: u32
      in case remap_range D of
           None \<Rightarrow> Some (0, uint (total_blks D))
         | Some [] \<Rightarrow> Some (0, uint (total_blks D))
         | Some rs \<Rightarrow> map_option (\<lambda>(s, e). (sint s, sint e)) (find (\<lambda>(s, e). \<not> (addr < s \<or> e \<le> addr)) rs))"

section \<open>What an access leaves alone\<close>

text \<open>The members set when the layer is attached.\<close>

definition same_desc :: "'m bmt_desc \<Rightarrow> 'm bmt_desc \<Rightarrow> bool" where
  "same_desc D E \<longleftrightarrow> bmt_mtd E = bmt_mtd D \<and> nand_ops E = nand_ops D \<and> bmt_sig E = bmt_sig D \<and>
     table_size E = table_size D \<and> pg_size E = pg_size D \<and> blk_size E = blk_size D \<and>
     pg_shift E = pg_shift D \<and> blk_shift E = blk_shift D \<and> pool_lba E = pool_lba D \<and>
     bb_max E = bb_max D \<and> total_blks E = total_blks D \<and> bmt_pgs E = bmt_pgs D \<and>
     remap_range E = remap_range D \<and> oob_offset E = oob_offset D \<and> length (bbt_buf E) = length (bbt_buf D)"

lemma same_desc_refl [simp]: "same_desc D D"
  by (simp add: same_desc_def)

lemma same_desc_trans: "same_desc D E \<Longrightarrow> same_desc E F \<Longrightarrow> same_desc D F"
  by (simp add: same_desc_def)

lemma same_descD [frame_simps]:
  assumes "same_desc D E"
  shows "bmt_mtd E = bmt_mtd D" "nand_ops E = nand_ops D" "bmt_sig E = bmt_sig D"
    "table_size E = table_size D" "pg_size E = pg_size D" "blk_size E = blk_size D"
    "pg_shift E = pg_shift D" "blk_shift E = blk_shift D" "pool_lba E = pool_lba D"
    "bb_max E = bb_max D" "total_blks E = total_blks D" "bmt_pgs E = bmt_pgs D"
    "remap_range E = remap_range D" "oob_offset E = oob_offset D" "length (bbt_buf E) = length (bbt_buf D)"
  using assms by (simp_all add: same_desc_def)

text \<open>An access changes the driver's state and the page buffer only.\<close>

definition accessed :: "'m bmt_desc \<Rightarrow> 'm bmt_desc \<Rightarrow> bool" where
  "accessed D E \<longleftrightarrow> E\<lparr>nand := nand D, data_buf := data_buf D\<rparr> = D"

lemma accessed_simps [simp]:
  "accessed D D" "accessed D (E\<lparr>nand := m\<rparr>) \<longleftrightarrow> accessed D E" "accessed D (E\<lparr>data_buf := b\<rparr>) \<longleftrightarrow> accessed D E"
  by (simp_all add: accessed_def)

lemma accessed_members:
  assumes "accessed D E"
  shows "E = D\<lparr>nand := nand E, data_buf := data_buf E\<rparr>"
proof -
  have "E = (E\<lparr>nand := nand D, data_buf := data_buf D\<rparr>)\<lparr>nand := nand E, data_buf := data_buf E\<rparr>" by simp
  also have "\<dots> = D\<lparr>nand := nand E, data_buf := data_buf E\<rparr>" using assms by (simp add: accessed_def)
  finally show ?thesis .
qed

lemma accessed_trans: "accessed D E \<Longrightarrow> accessed E F \<Longrightarrow> accessed D F"
proof -
  assume "accessed D E" and ef: "accessed E F"
  have "F\<lparr>nand := nand D, data_buf := data_buf D\<rparr>
      = (F\<lparr>nand := nand E, data_buf := data_buf E\<rparr>)\<lparr>nand := nand D, data_buf := data_buf D\<rparr>" by simp
  also have "\<dots> = E\<lparr>nand := nand D, data_buf := data_buf D\<rparr>" using ef by (simp only: accessed_def)
  also have "\<dots> = D" using \<open>accessed D E\<close> by (simp only: accessed_def)
  finally show "accessed D F" by (simp only: accessed_def)
qed

lemma accessed_same: "accessed D E \<Longrightarrow> same_desc D E"
  by (drule accessed_members, erule ssubst) (simp add: same_desc_def)

lemma accessed_tables:
  "accessed D E \<Longrightarrow> bbt_buf E = bbt_buf D \<and> bmt_blk_idx E = bmt_blk_idx D \<and> pool_pba E = pool_pba D \<and> bbt_found E = bbt_found D"
  by (drule accessed_members, erule ssubst) simp

lemma read_accessed: "bbt_nand_read D page dat l fdm l' = (ret, d, f, E) \<Longrightarrow> accessed D E \<and> ret \<le> 0"
  by (auto simp: bbt_nand_read_def Let_def split: prod.splits if_splits)

lemma read_state: "bbt_nand_read D page dat l fdm l' = (ret, d, f, E) \<Longrightarrow> E = D\<lparr>nand := nand E\<rparr>"
  by (auto simp: bbt_nand_read_def Let_def split: prod.splits if_splits)

lemma read_same: "(ret, d, f, E) = bbt_nand_read D page dat l fdm l' \<Longrightarrow> same_desc D E"
  using read_accessed [OF sym] accessed_same by blast

lemma erase_accessed: "bbt_nand_erase D block = (ret, E) \<Longrightarrow> accessed D E"
  by (auto simp: bbt_nand_erase_def Let_def split: prod.splits)

lemma write_bmt_accessed: "write_bmt D block dat = (ret, E) \<Longrightarrow> accessed D E"
  by (auto simp: write_bmt_def Let_def split: prod.splits)

lemma copy_pages_accessed:
  "copy_pages n D src dest offset max_offset ooblen oob = (ret, E) \<Longrightarrow> accessed D E"
proof (induction n arbitrary: D offset oob)
  case (Suc n)
  then show ?case
    by (auto simp: Let_def split: prod.splits if_splits dest!: Suc.IH intro: accessed_trans [rotated])
qed simp

lemma copy_accessed: "bbt_nand_copy D dest src l = (ret, E) \<Longrightarrow> accessed D E"
  by (simp add: bbt_nand_copy_def Let_def copy_pages_accessed)

lemma in_range_same: "same_desc D E \<Longrightarrow> mapping_block_in_range E b = mapping_block_in_range D b"
  by (cases "remap_range D") (auto simp: mapping_block_in_range_def same_descD [of D E] Let_def split: list.splits)

lemma in_range_none: "remap_range D = None \<Longrightarrow> mapping_block_in_range D b = Some (0, uint (total_blks D))"
  by (simp add: mapping_block_in_range_def)

lemma moved_to_accessed: "accessed D (moved_to D new_blk old_blk copy_len)"
proof -
  have e: "accessed D (snd (bbt_nand_erase D new_blk))"
    by (cases "bbt_nand_erase D new_blk") (auto dest: erase_accessed)
  have c: "accessed F (snd (bbt_nand_copy F new_blk old_blk l))" for F :: "'a bmt_desc" and l
    by (cases "bbt_nand_copy F new_blk old_blk l") (auto dest: copy_accessed)
  show ?thesis using e accessed_trans [OF e c] by (simp add: moved_to_def Let_def)
qed

end
