(* ===== verification/Bmt_Core.thy ===== *)
theory Bmt_Core
  imports Bmt_Types
begin

text \<open>
  The layer itself (\<open>mtk_bmt.c\<close>): the operations it puts in place of the driver's, which translate block
  by block and remap a block that fails, for at most ten retries, and attaching and detaching. The
  table format is the argument \<open>B\<close>, a value of \<open>mtk_bmt_ops\<close>; \<open>bmtd.ops\<close> points to it in C.
\<close>

section \<open>Reading\<close>

definition mtk_bmt_remap_block ::
  "('m bmt_desc, 't) mtk_bmt_ops \<Rightarrow> 'm bmt_desc \<Rightarrow> u32 \<Rightarrow> u32 \<Rightarrow> int \<Rightarrow> (bool \<times> 'm bmt_desc) option" where
  "mtk_bmt_remap_block B D block mapped_block copy_len =
     (case mapping_block_in_range D (sint block) of
        None \<Rightarrow> Some (False, D)
      | Some _ \<Rightarrow> bops_remap_block B D (ucast block) (ucast mapped_block) copy_len)"

text \<open>The position of an address: the offset in its block and the number of the block.\<close>

definition blk_offset :: "'m bmt_desc \<Rightarrow> u64 \<Rightarrow> u32" where
  "blk_offset D addr = ucast addr AND (blk_size D - 1)"

definition blk_number :: "'m bmt_desc \<Rightarrow> u64 \<Rightarrow> u32" where
  "blk_number D addr = ucast (drop_bit (unat (blk_shift D)) addr)"

text \<open>The address in a mapped block: \<open>((loff_t) cur_block << blk_shift) + offset\<close>.\<close>

definition mapped_addr :: "'m bmt_desc \<Rightarrow> int \<Rightarrow> u32 \<Rightarrow> u64" where
  "mapped_addr D cur_block offset = push_bit (unat (blk_shift D)) (word_of_int cur_block) + ucast offset"

text \<open>The buffers of \<open>cur_ops\<close> are the rest of the caller's: what the driver has put there is put into
  the caller's buffer at the position reached, and after a transfer they move on.\<close>

definition store_buf :: "u8 list option \<Rightarrow> u64 \<Rightarrow> u8 list option \<Rightarrow> u8 list option" where
  "store_buf whole pos rest =
     (case rest of None \<Rightarrow> whole | Some r \<Rightarrow> map_option (\<lambda>b. memcpy_at b (unat pos) r) whole)"

definition store_ops :: "mtd_oob_ops \<Rightarrow> mtd_oob_ops \<Rightarrow> mtd_oob_ops" where
  "store_ops ops cur = ops\<lparr>ops_datbuf := store_buf (ops_datbuf ops) (ops_retlen ops) (ops_datbuf cur),
                           ops_oobbuf := store_buf (ops_oobbuf ops) (ops_oobretlen ops) (ops_oobbuf cur)\<rparr>"

definition count_ops :: "mtd_oob_ops \<Rightarrow> mtd_oob_ops \<Rightarrow> mtd_oob_ops" where
  "count_ops ops cur = ops\<lparr>ops_retlen := ops_retlen ops + ops_retlen cur,
                           ops_oobretlen := ops_oobretlen ops + ops_oobretlen cur\<rparr>"

definition advance_ops :: "mtd_oob_ops \<Rightarrow> mtd_oob_ops" where
  "advance_ops cur = cur\<lparr>ops_ooboffs := 0,
     ops_datbuf := map_option (drop (unat (ops_retlen cur))) (ops_datbuf cur),
     ops_oobbuf := map_option (drop (unat (ops_oobretlen cur))) (ops_oobbuf cur),
     ops_ooblen := ops_ooblen cur - ops_oobretlen cur\<rparr>"

text \<open>The request for what is left of the block: the lengths are compared in 32 bits.\<close>

definition request_ops :: "mtd_oob_ops \<Rightarrow> mtd_oob_ops \<Rightarrow> u32 \<Rightarrow> mtd_oob_ops" where
  "request_ops ops cur in_block = cur\<lparr>ops_oobretlen := 0, ops_retlen := 0,
     ops_len := ucast (min in_block (ucast (ops_len ops - ops_retlen ops)))\<rparr>"

definition ops_left :: "mtd_oob_ops \<Rightarrow> bool" where
  "ops_left ops \<longleftrightarrow> ops_retlen ops < ops_len ops \<or> ops_oobretlen ops < ops_ooblen ops"

text \<open>How far the address moves: \<open>cur_ops.len\<close>, or to the end of the block for a request without data.\<close>

definition address_step :: "mtd_oob_ops \<Rightarrow> u32 \<Rightarrow> u64" where
  "address_step cur in_block = (if ops_len cur = 0 then ucast in_block else ops_len cur)"

text \<open>\<open>cur_ret >= bitflip_threshold\<close> compares unsigned, so that \<open>-EUCLEAN\<close> is above every threshold.\<close>

definition above_threshold :: "'m bmt_desc \<Rightarrow> int \<Rightarrow> bool" where
  "above_threshold D cur_ret \<longleftrightarrow> m_bitflip_threshold (bmt_mtd D) \<noteq> 0 \<and>
     m_bitflip_threshold (bmt_mtd D) \<le> word_of_int cur_ret"

partial_function (option) bmt_read_loop ::
  "('m bmt_desc, 't) mtk_bmt_ops \<Rightarrow> 'm bmt_desc \<Rightarrow> u64 \<Rightarrow> mtd_oob_ops \<Rightarrow> mtd_oob_ops \<Rightarrow> nat \<Rightarrow> int \<Rightarrow> int \<Rightarrow>
   (int \<times> mtd_oob_ops \<times> 'm bmt_desc) option" where
  "bmt_read_loop B D from ops cur retry_count ret max_bitflips =
     (if ops_left ops then
        do {
          let offset = blk_offset D from;
          let block = blk_number D from;
          let es = m_erasesize (bmt_mtd D);
          cur_block \<leftarrow> bops_get_mapping_block B D (sint block);
          if cur_block < 0 then Some (- EIO, ops, D)
          else
            let (cur_ret, cur, m) = nand_read_oob (nand_ops D) (nand D) (mapped_addr D cur_block offset)
                  (request_ops ops cur (es - offset));
                D = D\<lparr>nand := m\<rparr>;
                ops = store_ops ops cur;
                ret = (if cur_ret < 0 then cur_ret else ret);
                max_bitflips = (if cur_ret < 0 then max_bitflips else max max_bitflips cur_ret)
            in if cur_ret < 0 \<and> cur_ret \<noteq> - EUCLEAN then
                 do {
                   (ok, D) \<leftarrow> mtk_bmt_remap_block B D block (word_of_int cur_block) (sint es);
                   if ok \<and> retry_count < 10
                   then bmt_read_loop B D from ops cur (retry_count + 1) ret max_bitflips
                   else Some (if ret < 0 then ret else max_bitflips, ops, D)
                 }
               else
                 do {
                   (_, D) \<leftarrow> (if above_threshold D cur_ret
                            then mtk_bmt_remap_block B D block (word_of_int cur_block) (sint es)
                            else Some (False, D));
                   bmt_read_loop B D (from + address_step cur (es - offset)) (count_ops ops cur) (advance_ops cur)
                     0 ret max_bitflips
                 }
        }
      else Some (if ret < 0 then ret else max_bitflips, ops, D))"

definition mtk_bmt_read ::
  "('m bmt_desc, 't) mtk_bmt_ops \<Rightarrow> 'm bmt_desc \<Rightarrow> u64 \<Rightarrow> mtd_oob_ops \<Rightarrow> (int \<times> mtd_oob_ops \<times> 'm bmt_desc) option" where
  "mtk_bmt_read B D from ops =
     bmt_read_loop B D from (ops\<lparr>ops_retlen := 0, ops_oobretlen := 0\<rparr>) ops 0 0 0"

section \<open>Writing\<close>

partial_function (option) bmt_write_loop ::
  "('m bmt_desc, 't) mtk_bmt_ops \<Rightarrow> 'm bmt_desc \<Rightarrow> u64 \<Rightarrow> mtd_oob_ops \<Rightarrow> mtd_oob_ops \<Rightarrow> nat \<Rightarrow>
   (int \<times> mtd_oob_ops \<times> 'm bmt_desc) option" where
  "bmt_write_loop B D to ops cur retry_count =
     (if ops_left ops then
        do {
          let offset = blk_offset D to;
          let block = blk_number D to;
          cur_block \<leftarrow> bops_get_mapping_block B D (sint block);
          if cur_block < 0 then Some (- EIO, ops, D)
          else
            let (ret, cur, m) = nand_write_oob (nand_ops D) (nand D) (mapped_addr D cur_block offset)
                  (request_ops ops cur (blk_size D - offset));
                D = D\<lparr>nand := m\<rparr>
            in if ret < 0 then
                 do {
                   (ok, D) \<leftarrow> mtk_bmt_remap_block B D block (word_of_int cur_block) (sint offset);
                   if ok \<and> retry_count < 10 then bmt_write_loop B D to ops cur (retry_count + 1)
                   else Some (ret, ops, D)
                 }
               else bmt_write_loop B D (to + address_step cur (m_erasesize (bmt_mtd D) - offset))
                      (count_ops ops cur) (advance_ops cur) 0
        }
      else Some (0, ops, D))"

definition mtk_bmt_write ::
  "('m bmt_desc, 't) mtk_bmt_ops \<Rightarrow> 'm bmt_desc \<Rightarrow> u64 \<Rightarrow> mtd_oob_ops \<Rightarrow> (int \<times> mtd_oob_ops \<times> 'm bmt_desc) option" where
  "mtk_bmt_write B D to ops =
     bmt_write_loop B D to (ops\<lparr>ops_retlen := 0, ops_oobretlen := 0\<rparr>) ops 0"

section \<open>Erasing\<close>

text \<open>\<open>ret\<close> is not initialised in C: its first value is the argument. The second result is what is
  stored in \<open>instr->fail_addr\<close>.\<close>

partial_function (option) bmt_erase_loop ::
  "('m bmt_desc, 't) mtk_bmt_ops \<Rightarrow> 'm bmt_desc \<Rightarrow> u64 \<Rightarrow> u64 \<Rightarrow> nat \<Rightarrow> int \<Rightarrow> (int \<times> u64 option \<times> 'm bmt_desc) option" where
  "bmt_erase_loop B D start_addr end_addr retry_count ret =
     (if start_addr < end_addr then
        do {
          let orig_block = (ucast (drop_bit (unat (blk_shift D)) start_addr) :: u16);
          block \<leftarrow> bops_get_mapping_block B D (uint orig_block);
          if block < 0 then Some (- EIO, None, D)
          else
            let (ret, m) = nand_erase (nand_ops D) (nand D) (mapped_addr D block 0) (ucast (blk_size D));
                D = D\<lparr>nand := m\<rparr>
            in if ret \<noteq> 0 then
                 do {
                   (ok, D) \<leftarrow> mtk_bmt_remap_block B D (ucast orig_block) (word_of_int block) 0;
                   if ok \<and> retry_count < 10 then bmt_erase_loop B D start_addr end_addr (retry_count + 1) ret
                   else Some (ret, Some start_addr, D)
                 }
               else bmt_erase_loop B D (start_addr + ucast (m_erasesize (bmt_mtd D))) end_addr 0 ret
        }
      else Some (ret, None, D))"

definition mtk_bmt_mtd_erase ::
  "('m bmt_desc, 't) mtk_bmt_ops \<Rightarrow> int \<Rightarrow> 'm bmt_desc \<Rightarrow> u64 \<Rightarrow> u64 \<Rightarrow> (int \<times> u64 option \<times> 'm bmt_desc) option" where
  "mtk_bmt_mtd_erase B ret D addr len =
     bmt_erase_loop B D (addr AND ucast (NOT (m_erasesize_mask (bmt_mtd D)))) (addr + len) 0 ret"

section \<open>Bad blocks\<close>

partial_function (option) bmt_isbad_loop ::
  "('m bmt_desc, 't) mtk_bmt_ops \<Rightarrow> 'm bmt_desc \<Rightarrow> u16 \<Rightarrow> nat \<Rightarrow> (int \<times> 'm bmt_desc) option" where
  "bmt_isbad_loop B D orig_block retry_count =
     do {
       b \<leftarrow> bops_get_mapping_block B D (uint orig_block);
       let block = (word_of_int b :: u16);
       let (ret, m) = nand_block_isbad (nand_ops D) (nand D) (blk_addr D block);
       let D = D\<lparr>nand := m\<rparr>;
       if ret \<noteq> 0 then
         do {
           (ok, D) \<leftarrow> mtk_bmt_remap_block B D (ucast orig_block) (ucast block) (sint (blk_size D));
           if ok \<and> retry_count < 10 then bmt_isbad_loop B D orig_block (retry_count + 1) else Some (ret, D)
         }
       else Some (ret, D)
     }"

definition mtk_bmt_block_isbad ::
  "('m bmt_desc, 't) mtk_bmt_ops \<Rightarrow> 'm bmt_desc \<Rightarrow> u64 \<Rightarrow> (int \<times> 'm bmt_desc) option" where
  "mtk_bmt_block_isbad B D ofs = bmt_isbad_loop B D (ucast (drop_bit (unat (blk_shift D)) ofs)) 0"

definition mtk_bmt_block_markbad ::
  "('m bmt_desc, 't) mtk_bmt_ops \<Rightarrow> 'm bmt_desc \<Rightarrow> u64 \<Rightarrow> (int \<times> 'm bmt_desc) option" where
  "mtk_bmt_block_markbad B D ofs =
     do {
       let orig_block = (ucast (drop_bit (unat (blk_shift D)) ofs) :: u16);
       block \<leftarrow> bops_get_mapping_block B D (uint orig_block);
       if block < 0 then Some (- EIO, D)
       else do {
         (_, D) \<leftarrow> mtk_bmt_remap_block B D (ucast orig_block) (word_of_int block) (sint (blk_size D));
         let (ret, m) = nand_block_markbad (nand_ops D) (nand D) (mapped_addr D block 0);
         Some (ret, D\<lparr>nand := m\<rparr>)
       }
     }"

section \<open>Debugging\<close>

text \<open>\<open>val >> blk_shift\<close> as an \<open>int\<close>.\<close>

definition debug_block :: "'m bmt_desc \<Rightarrow> u64 \<Rightarrow> u32" where
  "debug_block D val = ucast (drop_bit (unat (blk_shift D)) val)"

definition mtk_bmt_debug_repair ::
  "('m bmt_desc, 't) mtk_bmt_ops \<Rightarrow> 'm bmt_desc \<Rightarrow> u64 \<Rightarrow> (int \<times> 'm bmt_desc) option" where
  "mtk_bmt_debug_repair B D val =
     do {
       let block = debug_block D val;
       prev_block \<leftarrow> bops_get_mapping_block B D (sint block);
       if prev_block < 0 then Some (- EIO, D)
       else do {
         let D = bops_unmap_block B D (ucast block);
         new_block \<leftarrow> bops_get_mapping_block B D (sint block);
         if new_block < 0 then Some (- EIO, D)
         else if prev_block = new_block then Some (0, D)
         else
           let (_, D) = bbt_nand_erase D (word_of_int new_block);
               (_, D) = bbt_nand_copy D (word_of_int new_block) (word_of_int prev_block) (ucast (blk_size D))
           in Some (0, D)
       }
     }"

definition mtk_bmt_debug_mark_good :: "('m bmt_desc, 't) mtk_bmt_ops \<Rightarrow> 'm bmt_desc \<Rightarrow> u64 \<Rightarrow> int \<times> 'm bmt_desc" where
  "mtk_bmt_debug_mark_good B D val = (0, bops_unmap_block B D (ucast (drop_bit (unat (blk_shift D)) val)))"

definition mtk_bmt_debug_mark_bad ::
  "('m bmt_desc, 't) mtk_bmt_ops \<Rightarrow> 'm bmt_desc \<Rightarrow> u64 \<Rightarrow> (int \<times> 'm bmt_desc) option" where
  "mtk_bmt_debug_mark_bad B D val =
     do {
       let block = debug_block D val;
       cur_block \<leftarrow> bops_get_mapping_block B D (sint block);
       if cur_block < 0 then Some (- EIO, D)
       else do {
         (_, D) \<leftarrow> mtk_bmt_remap_block B D block (word_of_int cur_block) (sint (blk_size D));
         Some (0, D)
       }
     }"

definition mtk_bmt_debug :: "('m bmt_desc, 't) mtk_bmt_ops \<Rightarrow> bool \<Rightarrow> 'm bmt_desc \<Rightarrow> u64 \<Rightarrow> int \<times> 'm bmt_desc" where
  "mtk_bmt_debug B alloc_fails D val = bops_debug B alloc_fails D val"

end
