(* ===== verification/Bmt_Service.thy ===== *)
theory Bmt_Service
  imports Bmt_Core
begin

text \<open>
  What the layer of \<open>mtk_bmt.c\<close> promises on every table format: the locale \<open>bmt_backend\<close> states what
  the layer needs of \<open>bmtd.ops\<close> (the calls return, leave the members set at attach time alone, and the
  mapping depends on the table only), the lemmas inside it are
  the layer's. The theories of the two formats interpret it. Reading is described to the byte.
\<close>

section \<open>Drivers that make progress\<close>

text \<open>What the layer relies on: the driver transfers no more than requested, leaves the lengths alone,
  and a transfer that is not an error is not empty.\<close>

definition transfer_ok :: "int \<Rightarrow> mtd_oob_ops \<Rightarrow> mtd_oob_ops \<Rightarrow> bool" where
  "transfer_ok ret q cur \<longleftrightarrow>
     ops_len cur = ops_len q \<and> ops_ooblen cur = ops_ooblen q \<and>
     ops_retlen cur \<le> ops_len q \<and> ops_oobretlen cur \<le> ops_ooblen q \<and>
     (0 \<le> ret \<or> ret = - EUCLEAN \<longrightarrow> 0 < ops_len q \<or> 0 < ops_ooblen q \<longrightarrow> 0 < ops_retlen cur \<or> 0 < ops_oobretlen cur)"

definition reads_progress :: "'m bmt_nand_ops \<Rightarrow> bool" where
  "reads_progress N \<longleftrightarrow> (\<forall>m a q. case nand_read_oob N m a q of (ret, cur, m') \<Rightarrow> transfer_ok ret q cur)"

definition writes_progress :: "'m bmt_nand_ops \<Rightarrow> bool" where
  "writes_progress N \<longleftrightarrow> (\<forall>m a q. case nand_write_oob N m a q of (ret, cur, m') \<Rightarrow> transfer_ok ret q cur)"

definition bmt_geometry :: "'m bmt_desc \<Rightarrow> bool" where
  "bmt_geometry D \<longleftrightarrow> m_erasesize (bmt_mtd D) = blk_size D \<and> 0 < blk_size D"

lemma geometry_same: "same_desc D E \<Longrightarrow> bmt_geometry E = bmt_geometry D"
  by (simp add: bmt_geometry_def same_descD(1,6) [of D E])

lemma offset_less:
  assumes "bmt_geometry D"
  shows "blk_offset D a < blk_size D"
proof -
  have "blk_offset D a \<le> blk_size D - 1" by (simp add: blk_offset_def word_and_le1)
  moreover have "blk_size D - 1 < blk_size D" using assms unat_pred [of 0 "blk_size D"] by (simp add: bmt_geometry_def word_less_nat_alt)
  ultimately show ?thesis by (rule le_less_trans)
qed

section \<open>The state of a transfer\<close>

definition transfer_state :: "mtd_oob_ops \<Rightarrow> mtd_oob_ops \<Rightarrow> bool" where
  "transfer_state ops cur \<longleftrightarrow> ops_retlen ops \<le> ops_len ops \<and> ops_oobretlen ops \<le> ops_ooblen ops \<and>
     ops_ooblen cur = ops_ooblen ops - ops_oobretlen ops \<and> unat (ops_len ops) < 2 ^ 32"

definition transfer_left :: "mtd_oob_ops \<Rightarrow> nat" where
  "transfer_left ops = unat (ops_len ops - ops_retlen ops) + unat (ops_ooblen ops - ops_oobretlen ops)"

text \<open>What a transfer never changes in the caller's structure, and what it reports.\<close>

definition transferred :: "mtd_oob_ops \<Rightarrow> mtd_oob_ops \<Rightarrow> bool" where
  "transferred ops ops' \<longleftrightarrow> ops_len ops' = ops_len ops \<and> ops_ooblen ops' = ops_ooblen ops \<and>
     ops_retlen ops' \<le> ops_len ops \<and> ops_oobretlen ops' \<le> ops_ooblen ops"

lemma transferred_trans: "transferred a b \<Longrightarrow> transferred b c \<Longrightarrow> transferred a c"
  by (simp add: transferred_def)

lemma store_ops_simps [simp]:
  "ops_len (store_ops ops cur) = ops_len ops" "ops_ooblen (store_ops ops cur) = ops_ooblen ops"
  "ops_retlen (store_ops ops cur) = ops_retlen ops" "ops_oobretlen (store_ops ops cur) = ops_oobretlen ops"
  by (simp_all add: store_ops_def)

lemma count_ops_simps [simp]:
  "ops_len (count_ops ops cur) = ops_len ops" "ops_ooblen (count_ops ops cur) = ops_ooblen ops"
  "ops_datbuf (count_ops ops cur) = ops_datbuf ops" "ops_oobbuf (count_ops ops cur) = ops_oobbuf ops"
  by (simp_all add: count_ops_def)

lemma ops_left_store [simp]: "ops_left (store_ops ops cur) = ops_left ops"
  by (simp add: ops_left_def)

lemma left_store [simp]: "transfer_left (store_ops ops cur) = transfer_left ops"
  by (simp add: transfer_left_def)

lemma request_simps [simp]:
  "ops_ooblen (request_ops ops cur n) = ops_ooblen cur" "ops_retlen (request_ops ops cur n) = 0"
  "ops_oobretlen (request_ops ops cur n) = 0" "ops_datbuf (request_ops ops cur n) = ops_datbuf cur"
  "ops_oobbuf (request_ops ops cur n) = ops_oobbuf cur"
  by (simp_all add: request_ops_def)

lemma request_len:
  assumes "transfer_state ops cur"
  shows "unat (ops_len (request_ops ops cur n)) = min (unat n) (unat (ops_len ops - ops_retlen ops))"
proof -
  let ?d = "ops_len ops - ops_retlen ops"
  have "unat ?d \<le> unat (ops_len ops)" using assms by (simp add: transfer_state_def unat_sub)
  then have "unat ?d < 2 ^ 32" using assms by (simp add: transfer_state_def)
  then have "unat (ucast ?d :: u32) = unat ?d" by (simp add: unsigned_ucast_eq take_bit_nat_eq_self)
  then show ?thesis by (simp add: request_ops_def min_def word_le_nat_alt)
qed

lemma store_state: "transfer_state ops cur \<Longrightarrow> ops_ooblen cur' = ops_ooblen cur \<Longrightarrow> transfer_state (store_ops ops cur') cur'"
  by (simp add: transfer_state_def)

lemma word_room:
  fixes a b r :: u64
  assumes "a \<le> b" "r \<le> b - a"
  shows "a + r \<le> b" "unat (b - (a + r)) = unat (b - a) - unat r" "b - (a + r) = b - a - r" "unat (a + r) = unat a + unat r"
proof -
  have "unat a + unat r \<le> unat b" using assms by (simp add: word_le_nat_alt unat_sub)
  then have u: "unat (a + r) = unat a + unat r" using unsigned_less [of b, where ?'a = nat] by (simp add: unat_word_ariths)
  then show "unat (a + r) = unat a + unat r" .
  show le: "a + r \<le> b" using \<open>unat a + unat r \<le> unat b\<close> u by (simp add: word_le_nat_alt)
  show "unat (b - (a + r)) = unat (b - a) - unat r" using assms(1) by (simp add: unat_sub [OF le] unat_sub u)
qed (simp add: algebra_simps)

text \<open>A transfer that is accepted moves the state on.\<close>

lemma transfer_step:
  fixes ops cur :: mtd_oob_ops
  assumes s: "transfer_state ops cur" and l: "ops_left ops" and n: "0 < n"
    and t: "transfer_ok ret (request_ops ops cur n) cur'" and r: "0 \<le> ret \<or> ret = - EUCLEAN"
  defines "ops' \<equiv> count_ops (store_ops ops cur') cur'"
  shows "transfer_state ops' (advance_ops cur')" "transferred ops ops'" "transfer_left ops' < transfer_left ops"
proof -
  have len: "ops_len (request_ops ops cur n) \<le> ops_len ops - ops_retlen ops"
    unfolding word_le_nat_alt request_len [OF s] by simp
  then have a: "ops_retlen cur' \<le> ops_len ops - ops_retlen ops"
    using t by (auto simp: transfer_ok_def)
  have b: "ops_oobretlen cur' \<le> ops_ooblen ops - ops_oobretlen ops" "ops_ooblen cur' = ops_ooblen ops - ops_oobretlen ops"
    using t s by (auto simp: transfer_ok_def transfer_state_def)
  have le: "ops_retlen ops \<le> ops_len ops" "ops_oobretlen ops \<le> ops_ooblen ops" using s by (simp_all add: transfer_state_def)
  note room = word_room [OF le(1) a] word_room [OF le(2) b(1)]
  show "transfer_state ops' (advance_ops cur')"
    using s b(2) room by (simp add: transfer_state_def ops'_def count_ops_def advance_ops_def)
  show "transferred ops ops'"
    using room by (simp add: transferred_def ops'_def count_ops_def)
  have "0 < ops_len (request_ops ops cur n) \<or> 0 < ops_ooblen cur"
  proof (cases "ops_retlen ops < ops_len ops")
    case True
    then have "0 < unat (ops_len ops - ops_retlen ops)" by (simp add: unat_sub [OF le(1)] word_less_nat_alt)
    then have "0 < unat (ops_len (request_ops ops cur n))"
      using n unfolding request_len [OF s] by (simp add: word_less_nat_alt)
    then show ?thesis by (simp add: word_less_nat_alt)
  next
    case False
    then have "ops_oobretlen ops < ops_ooblen ops" using l by (simp add: ops_left_def)
    then have "0 < unat (ops_ooblen ops - ops_oobretlen ops)" by (simp add: unat_sub [OF le(2)] word_less_nat_alt)
    then show ?thesis using s by (simp add: transfer_state_def word_less_nat_alt)
  qed
  then have "0 < unat (ops_retlen cur') \<or> 0 < unat (ops_oobretlen cur')"
    using t r by (auto simp: transfer_ok_def word_less_nat_alt)
  then show "transfer_left ops' < transfer_left ops"
    using a b(1) room(2,6) by (auto simp: transfer_left_def ops'_def count_ops_def word_le_nat_alt)
qed

section \<open>Addresses inside a block\<close>

definition bmt_blocks :: "'m bmt_desc \<Rightarrow> bool" where
  "bmt_blocks D \<longleftrightarrow> bmt_geometry D \<and> unat (blk_shift D) < 32 \<and> blk_size D = 2 ^ unat (blk_shift D)"

lemma blocks_same: "same_desc D E \<Longrightarrow> bmt_blocks E = bmt_blocks D"
  using geometry_same [of D E] by (simp add: bmt_blocks_def same_descD(6,8) [of D E])

lemma in_block:
  fixes a :: u64
  assumes k: "k < 32" and j: "unat (take_bit k a) + j < 2 ^ k"
  shows "drop_bit k (a + of_nat j) = drop_bit k a" "unat (take_bit k (a + of_nat j)) = unat (take_bit k a) + j"
proof -
  have t: "unat (take_bit k w) = unat w mod 2 ^ k" for w :: u64 by (simp only: unsigned_take_bit_eq) (simp add: take_bit_eq_mod)
  let ?q = "unat a div 2 ^ k"
  have a: "unat a = ?q * 2 ^ k + unat (take_bit k a)" by (simp only: t div_mult_mod_eq)
  have "unat a < 2 ^ (64 - k) * 2 ^ k" using k unsigned_less [of a, where ?'a = nat] by (simp flip: power_add)
  then have "?q < 2 ^ (64 - k)" by (simp add: less_mult_imp_div_less)
  then have "(?q + 1) * 2 ^ k \<le> 2 ^ (64 - k) * 2 ^ k" by (intro mult_le_mono1) simp
  also have "\<dots> = 2 ^ 64" using k by (simp flip: power_add)
  finally have "unat a + j < 2 ^ 64" using a j by (simp add: algebra_simps)
  then have u: "unat (a + of_nat j) = unat a + j"
    by (simp add: unat_word_ariths unat_of_nat)
  have d: "(?q * 2 ^ k + unat (take_bit k a) + j) div 2 ^ k = ?q" "(?q * 2 ^ k + unat (take_bit k a) + j) mod 2 ^ k = unat (take_bit k a) + j"
    using j by (simp_all add: add.assoc)
  show "unat (take_bit k (a + of_nat j)) = unat (take_bit k a) + j" using d(2) a by (metis t u)
  have dr: "unat (drop_bit k w) = unat w div 2 ^ k" for w :: u64
    by (simp only: unsigned_drop_bit_eq) (use unsigned_less [of w, where ?'a = nat] in \<open>simp add: drop_bit_eq_div take_bit_nat_eq_self\<close>)
  have "unat (drop_bit k (a + of_nat j)) = unat (drop_bit k a)"
    unfolding dr u using d(1) a by simp
  then show "drop_bit k (a + of_nat j) = drop_bit k a" by (simp add: word_unat_eq_iff)
qed

lemma unat_blk_offset:
  assumes "bmt_blocks D"
  shows "unat (blk_offset D a) = unat (take_bit (unat (blk_shift D)) a)"
proof -
  let ?k = "unat (blk_shift D)"
  have "blk_offset D a = take_bit ?k (ucast a)"
    using assms by (simp add: blk_offset_def bmt_blocks_def take_bit_eq_mask mask_eq_exp_minus_1)
  then show ?thesis using assms
    by (simp add: bmt_blocks_def unsigned_take_bit_eq unsigned_ucast_eq min_def)
qed

lemma position_in_block:
  assumes "bmt_blocks D" "unat (blk_offset D a) + j < unat (blk_size D)"
  shows "blk_number D (a + of_nat j) = blk_number D a"
    "mapped_addr D b (blk_offset D (a + of_nat j)) = mapped_addr D b (blk_offset D a) + of_nat j"
proof -
  let ?k = "unat (blk_shift D)"
  have k: "?k < 32" "unat (blk_size D) = 2 ^ ?k" using assms(1) by (auto simp: bmt_blocks_def unat_pow2)
  have j: "unat (take_bit ?k a) + j < 2 ^ ?k" using assms k(2) by (simp add: unat_blk_offset)
  note b = in_block [OF k(1) j]
  show "blk_number D (a + of_nat j) = blk_number D a" by (simp add: blk_number_def b(1))
  have "unat (blk_offset D (a + of_nat j)) = unat (blk_offset D a) + j"
    by (simp add: unat_blk_offset [OF assms(1)] b(2))
  then have "of_nat (unat (blk_offset D (a + of_nat j))) = (of_nat (unat (blk_offset D a) + j) :: u64)" by simp
  then show "mapped_addr D b (blk_offset D (a + of_nat j)) = mapped_addr D b (blk_offset D a) + of_nat j"
    by (simp add: mapped_addr_def)
qed

text \<open>A transfer that returns, and is complete unless an error is reported.\<close>

definition transfer_served :: "'m bmt_desc \<Rightarrow> mtd_oob_ops \<Rightarrow> (int \<times> mtd_oob_ops \<times> 'm bmt_desc) option \<Rightarrow> bool" where
  "transfer_served D ops run \<longleftrightarrow> wp run (\<lambda>(r, ops', E). same_desc D E \<and> transferred ops ops' \<and>
     (0 \<le> r \<longrightarrow> ops_retlen ops' = ops_len ops \<and> ops_oobretlen ops' = ops_ooblen ops))"

lemma transferred_complete:
  "transferred ops ops' \<Longrightarrow> \<not> ops_left ops' \<Longrightarrow> ops_retlen ops' = ops_len ops \<and> ops_oobretlen ops' = ops_ooblen ops"
  by (auto simp: transferred_def ops_left_def)

lemma transfer_start:
  "unat (ops_len ops) < 2 ^ 32 \<Longrightarrow> transfer_state (ops\<lparr>ops_retlen := 0, ops_oobretlen := 0\<rparr>) ops"
  "transferred (ops\<lparr>ops_retlen := 0, ops_oobretlen := 0\<rparr>) = transferred ops"
  by (simp_all add: transfer_state_def transferred_def fun_eq_iff)

text \<open>The results of an erase of \<open>len\<close> bytes at \<open>addr\<close> and of a query; \<open>start_block\<close> is where the erase begins.\<close>

definition erase_start :: "'m bmt_desc \<Rightarrow> u64 \<Rightarrow> u64" where
  "erase_start D addr = addr AND ucast (NOT (m_erasesize_mask (bmt_mtd D)))"

definition erase_served :: "int \<Rightarrow> 'm bmt_desc \<Rightarrow> u64 \<Rightarrow> u64 \<Rightarrow> int \<times> u64 option \<times> 'm bmt_desc \<Rightarrow> bool" where
  "erase_served ret D addr len = (\<lambda>(r, fa, E). same_desc D E \<and>
     (case fa of None \<Rightarrow> r = 0 \<or> r = - EIO \<or> addr + len \<le> erase_start D addr \<and> r = ret
      | Some a \<Rightarrow> r \<noteq> 0 \<and> erase_start D addr \<le> a \<and> a < addr + len))"

definition isbad_served :: "('m bmt_desc, 't) mtk_bmt_ops \<Rightarrow> 'm bmt_desc \<Rightarrow> u64 \<Rightarrow> int \<times> 'm bmt_desc \<Rightarrow> bool" where
  "isbad_served B D ofs = (\<lambda>(r, E). same_desc D E \<and>
     (r = 0 \<longrightarrow> (\<exists>m b. bops_get_mapping_block B E (uint (ucast (drop_bit (unat (blk_shift D)) ofs) :: u16)) = Some b \<and>
       nand_block_isbad (nand_ops D) m (blk_addr D (word_of_int b)) = (0, nand E))))"

section \<open>Every table format\<close>

locale bmt_backend =
  fixes B :: "('m bmt_desc, 't) mtk_bmt_ops"
  assumes mapping_returns: "\<exists>b'. bops_get_mapping_block B D b = Some b'"
    and remap_returns: "\<exists>ok E. bops_remap_block B D block p copy_len = Some (ok, E) \<and> same_desc D E"
    and unmap_same: "same_desc D (bops_unmap_block B D block)"
    and mapping_accessed: "accessed D E \<Longrightarrow> bops_get_mapping_block B E b = bops_get_mapping_block B D b"
begin

lemma layer_remap: "\<exists>ok E. mtk_bmt_remap_block B D block p copy_len = Some (ok, E) \<and> same_desc D E"
  using remap_returns by (auto simp: mtk_bmt_remap_block_def split: option.splits)

lemma read_loop:
  assumes "reads_progress (nand_ops D)" "bmt_geometry D" "transfer_state ops cur" "retry_count \<le> 10"
  shows "\<exists>r ops' E. bmt_read_loop B D from ops cur retry_count ret bf = Some (r, ops', E) \<and> same_desc D E \<and>
    transferred ops ops' \<and> (0 \<le> r \<longrightarrow> \<not> ops_left ops')"
  using assms
proof (induction "11 * transfer_left ops + (10 - retry_count)" arbitrary: D "from" ops cur retry_count ret bf rule: less_induct)
  case less
  note s = less(4)
  have self: "transferred ops ops" using s by (simp add: transferred_def transfer_state_def)
  show ?case
  proof (cases "ops_left ops")
    case False
    then show ?thesis using self by (subst bmt_read_loop.simps) auto
  next
    case left: True
    obtain b where b: "bops_get_mapping_block B D (sint (blk_number D from)) = Some b" using mapping_returns by blast
    let ?n = "m_erasesize (bmt_mtd D) - blk_offset D from"
    have n: "0 < ?n" using offset_less [OF less(3), of "from"] less(3) by (simp add: bmt_geometry_def word_gt_0)
    obtain q cur' m where rd: "nand_read_oob (nand_ops D) (nand D) (mapped_addr D b (blk_offset D from)) (request_ops ops cur ?n) = (q, cur', m)"
      by (cases "nand_read_oob (nand_ops D) (nand D) (mapped_addr D b (blk_offset D from)) (request_ops ops cur ?n)") auto
    have t: "transfer_ok q (request_ops ops cur ?n) cur'"
      using less(2) rd unfolding reads_progress_def by (metis (mono_tags, lifting) case_prodD)
    let ?D = "D\<lparr>nand := m\<rparr>"
    have sD: "same_desc D ?D" by (rule accessed_same) simp
    let ?ops = "store_ops ops cur'" and ?r = "if q < 0 then q else ret" and ?bf = "if q < 0 then bf else max bf q"
    have ih: "\<exists>r ops' E'. bmt_read_loop B E f o1 c1 k r1 bf1 = Some (r, ops', E') \<and> same_desc D E' \<and>
        transferred ops ops' \<and> (0 \<le> r \<longrightarrow> \<not> ops_left ops')"
      if "11 * transfer_left o1 + (10 - k) < 11 * transfer_left ops + (10 - retry_count)" "same_desc D E"
        "transfer_state o1 c1" "k \<le> 10" "transferred ops o1" for E f o1 c1 k r1 bf1
      using less(1) [OF that(1) _ _ that(3,4), of E f r1 bf1] less(2,3) that(2,5)
      by (auto simp: same_descD(2) geometry_same intro: same_desc_trans transferred_trans)
    consider (unmapped) "b < 0" | (failed) "\<not> b < 0" "q < 0 \<and> q \<noteq> - EUCLEAN" | (accepted) "\<not> b < 0" "\<not> (q < 0 \<and> q \<noteq> - EUCLEAN)" by blast
    then show ?thesis
    proof cases
      case unmapped
      then show ?thesis using left b self by (subst bmt_read_loop.simps) simp
    next
      case failed
      obtain ok E where rm: "mtk_bmt_remap_block B ?D (blk_number D from) (word_of_int b) (sint (m_erasesize (bmt_mtd D))) = Some (ok, E)"
        and sE: "same_desc ?D E" using layer_remap by blast
      have st: "transfer_state ?ops cur'" using t by (intro store_state [OF s]) (simp add: transfer_ok_def)
      have eq: "bmt_read_loop B D from ops cur retry_count ret bf =
        (if ok \<and> retry_count < 10 then bmt_read_loop B E from ?ops cur' (retry_count + 1) q bf else Some (q, ?ops, E))"
        using failed left b rd rm by (subst bmt_read_loop.simps) (simp add: Let_def)
      have so: "transferred ops ?ops" using self by (simp add: transferred_def)
      show ?thesis
      proof (cases "ok \<and> retry_count < 10")
        case True
        then have less: "11 * transfer_left ?ops + (10 - (retry_count + 1)) < 11 * transfer_left ops + (10 - retry_count)"
          by (simp) arith
        from True show ?thesis
          unfolding eq by (simp only: simp_thms if_True) (intro ih [OF less] same_desc_trans [OF sD sE] st so; simp)
      next
        case False
        then show ?thesis
          unfolding eq using same_desc_trans [OF sD sE] so failed(2) by auto
      qed
    next
      case accepted
      obtain x E where rm: "(if above_threshold ?D q then mtk_bmt_remap_block B ?D (blk_number D from) (word_of_int b) (sint (m_erasesize (bmt_mtd D)))
          else Some (False, ?D)) = Some (x, E)" and sE: "same_desc ?D E"
        using layer_remap [of ?D "blk_number D from" "word_of_int b" "sint (m_erasesize (bmt_mtd D))"] by (cases "above_threshold ?D q") auto
      have r: "0 \<le> q \<or> q = - EUCLEAN" using accepted by auto
      note step = transfer_step [OF s left n t r]
      have eq: "bmt_read_loop B D from ops cur retry_count ret bf =
        bmt_read_loop B E (from + address_step cur' ?n) (count_ops ?ops cur') (advance_ops cur') 0 ?r ?bf"
        using accepted left b rd rm by (subst bmt_read_loop.simps) (simp add: Let_def)
      show ?thesis unfolding eq using step(3) by (intro ih same_desc_trans [OF sD sE] step) simp_all
    qed
  qed
qed

lemma write_loop:
  assumes "writes_progress (nand_ops D)" "bmt_geometry D" "transfer_state ops cur" "retry_count \<le> 10"
  shows "\<exists>r ops' E. bmt_write_loop B D to ops cur retry_count = Some (r, ops', E) \<and> same_desc D E \<and>
    transferred ops ops' \<and> r \<le> 0 \<and> (r = 0 \<longrightarrow> \<not> ops_left ops')"
  using assms
proof (induction "11 * transfer_left ops + (10 - retry_count)" arbitrary: D to ops cur retry_count rule: less_induct)
  case less
  note s = less(4)
  have self: "transferred ops ops" using s by (simp add: transferred_def transfer_state_def)
  show ?case
  proof (cases "ops_left ops")
    case False
    then show ?thesis using self by (subst bmt_write_loop.simps) auto
  next
    case left: True
    obtain b where b: "bops_get_mapping_block B D (sint (blk_number D to)) = Some b" using mapping_returns by blast
    let ?n = "blk_size D - blk_offset D to"
    have n: "0 < ?n" using offset_less [OF less(3), of to] by (simp add: word_gt_0)
    obtain q cur' m where wr: "nand_write_oob (nand_ops D) (nand D) (mapped_addr D b (blk_offset D to)) (request_ops ops cur ?n) = (q, cur', m)"
      by (cases "nand_write_oob (nand_ops D) (nand D) (mapped_addr D b (blk_offset D to)) (request_ops ops cur ?n)") auto
    have t: "transfer_ok q (request_ops ops cur ?n) cur'"
      using less(2) wr unfolding writes_progress_def by (metis (mono_tags, lifting) case_prodD)
    let ?D = "D\<lparr>nand := m\<rparr>"
    have sD: "same_desc D ?D" by (rule accessed_same) simp
    have ih: "\<exists>r ops' E'. bmt_write_loop B E f o1 c1 k = Some (r, ops', E') \<and> same_desc D E' \<and>
        transferred ops ops' \<and> r \<le> 0 \<and> (r = 0 \<longrightarrow> \<not> ops_left ops')"
      if "11 * transfer_left o1 + (10 - k) < 11 * transfer_left ops + (10 - retry_count)" "same_desc D E"
        "transfer_state o1 c1" "k \<le> 10" "transferred ops o1" for E f o1 c1 k
      using less(1) [OF that(1) _ _ that(3,4), of E f] less(2,3) that(2,5)
      by (auto simp: same_descD(2) geometry_same intro: same_desc_trans transferred_trans)
    consider (unmapped) "b < 0" | (failed) "\<not> b < 0" "q < 0" | (accepted) "\<not> b < 0" "\<not> q < 0" by blast
    then show ?thesis
    proof cases
      case unmapped
      then show ?thesis using left b self by (subst bmt_write_loop.simps) simp
    next
      case failed
      obtain ok E where rm: "mtk_bmt_remap_block B ?D (blk_number D to) (word_of_int b) (sint (blk_offset D to)) = Some (ok, E)"
        and sE: "same_desc ?D E" using layer_remap by blast
      have eq: "bmt_write_loop B D to ops cur retry_count =
        (if ok \<and> retry_count < 10 then bmt_write_loop B E to ops cur' (retry_count + 1) else Some (q, ops, E))"
        using failed left b wr rm by (subst bmt_write_loop.simps) (simp add: Let_def)
      show ?thesis
      proof (cases "ok \<and> retry_count < 10")
        case True
        then have less: "11 * transfer_left ops + (10 - (retry_count + 1)) < 11 * transfer_left ops + (10 - retry_count)" by arith
        have st: "transfer_state ops cur'" using t s by (simp add: transfer_ok_def transfer_state_def)
        from True show ?thesis
          unfolding eq by (simp only: simp_thms if_True) (intro ih [OF less] same_desc_trans [OF sD sE] st self; simp)
      next
        case False
        then show ?thesis
          unfolding eq using same_desc_trans [OF sD sE] self failed(2) by auto
      qed
    next
      case accepted
      have r: "0 \<le> q \<or> q = - EUCLEAN" using accepted by auto
      note step = transfer_step [OF s left n t r]
      have c: "transfer_left (count_ops ops cur') = transfer_left (count_ops (store_ops ops cur') cur')"
        "transfer_state (count_ops ops cur') (advance_ops cur') = transfer_state (count_ops (store_ops ops cur') cur') (advance_ops cur')"
        "transferred ops (count_ops ops cur') = transferred ops (count_ops (store_ops ops cur') cur')"
        by (simp_all add: transfer_left_def transfer_state_def transferred_def count_ops_def)
      have eq: "bmt_write_loop B D to ops cur retry_count =
        bmt_write_loop B ?D (to + address_step cur' (m_erasesize (bmt_mtd D) - blk_offset D to)) (count_ops ops cur') (advance_ops cur') 0"
        using accepted left b wr by (subst bmt_write_loop.simps) (simp add: Let_def)
      show ?thesis unfolding eq using step by (intro ih sD) (simp_all add: c)
    qed
  qed
qed

lemma transfers_served:
  assumes "bmt_geometry D" "unat (ops_len ops) < 2 ^ 32"
  shows "reads_progress (nand_ops D) \<Longrightarrow> transfer_served D ops (mtk_bmt_read B D addr ops)"
    "writes_progress (nand_ops D) \<Longrightarrow> transfer_served D ops (mtk_bmt_write B D addr ops)"
proof -
  show "transfer_served D ops (mtk_bmt_read B D addr ops)" if "reads_progress (nand_ops D)"
    using read_loop [OF that assms(1) transfer_start(1) [OF assms(2)], of 0 addr 0 0]
    by (auto simp: transfer_served_def mtk_bmt_read_def transfer_start(2) dest: transferred_complete)
  show "transfer_served D ops (mtk_bmt_write B D addr ops)" if "writes_progress (nand_ops D)"
    using write_loop [OF that assms(1) transfer_start(1) [OF assms(2)], of 0 addr]
    by (fastforce simp: transfer_served_def mtk_bmt_write_def transfer_start(2) dest: transferred_complete)
qed

lemma erase_loop:
  assumes "retry_count \<le> 10" "0 < m_erasesize (bmt_mtd D)" "unat end_addr + 2 ^ 32 \<le> 2 ^ 64"
  shows "\<exists>r fa E. bmt_erase_loop B D start_addr end_addr retry_count ret = Some (r, fa, E) \<and> same_desc D E \<and>
    (case fa of None \<Rightarrow> r = 0 \<or> r = - EIO \<or> end_addr \<le> start_addr \<and> r = ret
     | Some a \<Rightarrow> r \<noteq> 0 \<and> start_addr \<le> a \<and> a < end_addr)"
  using assms
proof (induction "11 * (unat end_addr - unat start_addr) + (10 - retry_count)" arbitrary: D start_addr retry_count ret rule: less_induct)
  case less
  show ?case
  proof (cases "start_addr < end_addr")
    case False
    then show ?thesis by (subst bmt_erase_loop.simps) auto
  next
    case inside: True
    let ?o = "ucast (drop_bit (unat (blk_shift D)) start_addr) :: u16"
    obtain b where b: "bops_get_mapping_block B D (uint ?o) = Some b" using mapping_returns by blast
    obtain q m where er: "nand_erase (nand_ops D) (nand D) (mapped_addr D b 0) (ucast (blk_size D)) = (q, m)" by fastforce
    let ?D = "D\<lparr>nand := m\<rparr>"
    have sD: "same_desc D ?D" by (rule accessed_same) simp
    have ih: "\<exists>r fa E'. bmt_erase_loop B E s1 end_addr k r1 = Some (r, fa, E') \<and> same_desc D E' \<and>
        (case fa of None \<Rightarrow> r = 0 \<or> r = - EIO \<or> end_addr \<le> start_addr \<and> r = ret
         | Some a \<Rightarrow> r \<noteq> 0 \<and> start_addr \<le> a \<and> a < end_addr)"
      if m: "11 * (unat end_addr - unat s1) + (10 - k) < 11 * (unat end_addr - unat start_addr) + (10 - retry_count)"
        and sE: "same_desc D E" and k: "k \<le> 10" and le: "start_addr \<le> s1" and r1: "s1 = start_addr \<or> r1 = 0" for E s1 k r1
    proof -
      have "0 < m_erasesize (bmt_mtd E)" using less(3) same_descD(1) [OF sE] by simp
      from less(1) [OF m k this less(4), of r1] obtain r fa E'
        where l: "bmt_erase_loop B E s1 end_addr k r1 = Some (r, fa, E')" and s: "same_desc E E'"
          and c: "case fa of None \<Rightarrow> r = 0 \<or> r = - EIO \<or> end_addr \<le> s1 \<and> r = r1 | Some a \<Rightarrow> r \<noteq> 0 \<and> s1 \<le> a \<and> a < end_addr"
        by blast
      have "case fa of None \<Rightarrow> r = 0 \<or> r = - EIO \<or> end_addr \<le> start_addr \<and> r = ret | Some a \<Rightarrow> r \<noteq> 0 \<and> start_addr \<le> a \<and> a < end_addr"
        using c le r1 inside by (cases fa) auto
      then show ?thesis using l same_desc_trans [OF sE s] by blast
    qed
    consider (unmapped) "b < 0" | (failed) "\<not> b < 0" "q \<noteq> 0" | (accepted) "\<not> b < 0" "q = 0" by blast
    then show ?thesis
    proof cases
      case unmapped
      then show ?thesis using inside b by (subst bmt_erase_loop.simps) simp
    next
      case failed
      obtain ok E where rm: "mtk_bmt_remap_block B ?D (ucast ?o) (word_of_int b) 0 = Some (ok, E)"
        and sE: "same_desc ?D E" using layer_remap by blast
      have eq: "bmt_erase_loop B D start_addr end_addr retry_count ret =
        (if ok \<and> retry_count < 10 then bmt_erase_loop B E start_addr end_addr (retry_count + 1) q else Some (q, Some start_addr, E))"
        using failed inside b er rm by (subst bmt_erase_loop.simps) (simp add: Let_def)
      show ?thesis
      proof (cases "ok \<and> retry_count < 10")
        case True
        then have "11 * (unat end_addr - unat start_addr) + (10 - (retry_count + 1)) < 11 * (unat end_addr - unat start_addr) + (10 - retry_count)" by arith
        from ih [OF this same_desc_trans [OF sD sE]] True show ?thesis unfolding eq by simp
      next
        case False
        then show ?thesis
          unfolding eq using same_desc_trans [OF sD sE] failed(2) inside by auto
      qed
    next
      case accepted
      let ?s = "start_addr + ucast (m_erasesize (bmt_mtd D))"
      have eq: "bmt_erase_loop B D start_addr end_addr retry_count ret = bmt_erase_loop B ?D ?s end_addr 0 0"
        using accepted inside b er by (subst bmt_erase_loop.simps) (simp add: Let_def)
      have "unat start_addr + unat (m_erasesize (bmt_mtd D)) < 2 ^ 64"
        using inside less(4) unsigned_less [of "m_erasesize (bmt_mtd D)", where ?'a = nat] by (simp add: word_less_nat_alt)
      then have u: "unat ?s = unat start_addr + unat (m_erasesize (bmt_mtd D))" by (simp add: unat_word_ariths)
      then have m: "11 * (unat end_addr - unat ?s) + (10 - 0) < 11 * (unat end_addr - unat start_addr) + (10 - retry_count)"
        using inside less(3) by (simp add: word_less_nat_alt)
      have le: "start_addr \<le> ?s" using u by (simp add: word_le_nat_alt)
      show ?thesis unfolding eq by (rule ih [OF m sD _ le]) simp_all
    qed
  qed
qed

lemma isbad_loop:
  assumes "retry_count \<le> 10"
  shows "\<exists>r E. bmt_isbad_loop B D orig_block retry_count = Some (r, E) \<and> same_desc D E \<and>
    (r = 0 \<longrightarrow> (\<exists>m b. bops_get_mapping_block B E (uint orig_block) = Some b \<and>
       nand_block_isbad (nand_ops D) m (blk_addr D (word_of_int b)) = (0, nand E)))"
  using assms
proof (induction "10 - retry_count" arbitrary: D retry_count rule: less_induct)
  case less
  obtain b where b: "bops_get_mapping_block B D (uint orig_block) = Some b" using mapping_returns by blast
  obtain q m where ib: "nand_block_isbad (nand_ops D) (nand D) (blk_addr D (word_of_int b)) = (q, m)" by fastforce
  let ?D = "D\<lparr>nand := m\<rparr>"
  have sD: "same_desc D ?D" by (rule accessed_same) simp
  obtain ok E where rm: "mtk_bmt_remap_block B ?D (ucast orig_block) (ucast (word_of_int b :: u16)) (sint (blk_size D)) = Some (ok, E)"
    and sE: "same_desc ?D E" using layer_remap by blast
  have eq: "bmt_isbad_loop B D orig_block retry_count =
    (if q = 0 then Some (q, ?D) else if ok \<and> retry_count < 10 then bmt_isbad_loop B E orig_block (retry_count + 1) else Some (q, E))"
    using b ib rm by (subst bmt_isbad_loop.simps) (simp add: Let_def)
  consider (good) "q = 0" | (again) "q \<noteq> 0" "ok \<and> retry_count < 10" | (bad) "q \<noteq> 0" "\<not> (ok \<and> retry_count < 10)" by blast
  then show ?case
  proof cases
    case good
    have "bops_get_mapping_block B ?D (uint orig_block) = Some b" using mapping_accessed [of D ?D] b by simp
    then show ?thesis using good ib sD unfolding eq by auto
  next
    case again
    have s: "same_desc D E" by (rule same_desc_trans [OF sD sE])
    have a: "blk_addr E p = blk_addr D p" for p by (simp add: blk_addr_def same_descD(8) [OF s])
    have "\<exists>r F. bmt_isbad_loop B E orig_block (retry_count + 1) = Some (r, F) \<and> same_desc E F \<and>
      (r = 0 \<longrightarrow> (\<exists>m b. bops_get_mapping_block B F (uint orig_block) = Some b \<and>
         nand_block_isbad (nand_ops E) m (blk_addr E (word_of_int b)) = (0, nand F)))"
    proof (rule less(1))
      show "10 - (retry_count + 1) < 10 - retry_count" using again by arith
    qed (use again in simp)
    then show ?thesis using again unfolding eq same_descD(2) [OF s] a by (auto intro: same_desc_trans [OF s])
  next
    case bad
    then show ?thesis unfolding eq using same_desc_trans [OF sD sE] by auto
  qed
qed

lemma markbad_returns:
  "\<exists>r E. mtk_bmt_block_markbad B D ofs = Some (r, E) \<and> same_desc D E \<and>
    (let b = the (bops_get_mapping_block B D (uint (ucast (drop_bit (unat (blk_shift D)) ofs) :: u16)))
     in if b < 0 then r = - EIO \<and> E = D
        else \<exists>m. nand_block_markbad (nand_ops D) m (mapped_addr D b 0) = (r, nand E))"
proof -
  let ?o = "ucast (drop_bit (unat (blk_shift D)) ofs) :: u16"
  obtain b where b: "bops_get_mapping_block B D (uint ?o) = Some b" using mapping_returns by blast
  obtain ok E where rm: "mtk_bmt_remap_block B D (ucast ?o) (word_of_int b) (sint (blk_size D)) = Some (ok, E)"
    and sE: "same_desc D E" using layer_remap by blast
  obtain q m where mb: "nand_block_markbad (nand_ops E) (nand E) (mapped_addr E b 0) = (q, m)" by fastforce
  have a: "mapped_addr E b 0 = mapped_addr D b 0" by (simp add: mapped_addr_def same_descD(8) [OF sE])
  have "same_desc D (E\<lparr>nand := m\<rparr>)" by (rule same_desc_trans [OF sE accessed_same]) simp
  then show ?thesis
    using b rm mb by (auto simp: mtk_bmt_block_markbad_def Let_def a same_descD(2) [OF sE])
qed

lemma bad_blocks_served:
  assumes "0 < m_erasesize (bmt_mtd D)" "unat (addr + len) + 2 ^ 32 \<le> 2 ^ 64"
  shows "wp (mtk_bmt_mtd_erase B ret D addr len) (erase_served ret D addr len)"
    "wp (mtk_bmt_block_isbad B D addr) (isbad_served B D addr)"
    "wp (mtk_bmt_block_markbad B D addr) (\<lambda>(r, E). same_desc D E)"
proof -
  show "wp (mtk_bmt_mtd_erase B ret D addr len) (erase_served ret D addr len)"
    using erase_loop [of 0 D "addr + len" "erase_start D addr" ret] assms
    by (auto simp: mtk_bmt_mtd_erase_def erase_served_def erase_start_def)
  show "wp (mtk_bmt_block_isbad B D addr) (isbad_served B D addr)"
    using isbad_loop [of 0 D "ucast (drop_bit (unat (blk_shift D)) addr)"]
    by (auto simp: mtk_bmt_block_isbad_def isbad_served_def)
  show "wp (mtk_bmt_block_markbad B D addr) (\<lambda>(r, E). same_desc D E)"
    using markbad_returns [of D addr] by auto
qed

lemma repair_returns: "\<exists>r E. mtk_bmt_debug_repair B D val = Some (r, E) \<and> same_desc D E \<and> (r = 0 \<or> r = - EIO)"
proof -
  let ?o = "debug_block D val"
  obtain b where b: "bops_get_mapping_block B D (sint ?o) = Some b" using mapping_returns by blast
  let ?E = "bops_unmap_block B D (ucast ?o)"
  obtain b' where b': "bops_get_mapping_block B ?E (sint ?o) = Some b'" using mapping_returns by blast
  obtain r F where e: "bbt_nand_erase ?E (word_of_int b') = (r, F)" by fastforce
  obtain r' G where c: "bbt_nand_copy F (word_of_int b') (word_of_int b) (ucast (blk_size F)) = (r', G)" by fastforce
  have "same_desc D ?E" by (rule unmap_same)
  moreover have "same_desc ?E G"
    by (rule accessed_same [OF accessed_trans [OF erase_accessed [OF e] copy_accessed [OF c]]])
  ultimately show ?thesis
    using b b' e c by (auto simp: mtk_bmt_debug_repair_def Let_def intro: same_desc_trans)
qed

lemma debug_marks_return:
  "\<exists>r E. mtk_bmt_debug_mark_bad B D val = Some (r, E) \<and> same_desc D E \<and> (r = 0 \<or> r = - EIO)"
  "same_desc D (snd (mtk_bmt_debug_mark_good B D val))"
proof -
  let ?o = "debug_block D val"
  obtain b where b: "bops_get_mapping_block B D (sint ?o) = Some b" using mapping_returns by blast
  obtain ok E where rm: "mtk_bmt_remap_block B D ?o (word_of_int b) (sint (blk_size D)) = Some (ok, E)"
    and sE: "same_desc D E" using layer_remap by blast
  show "\<exists>r E. mtk_bmt_debug_mark_bad B D val = Some (r, E) \<and> same_desc D E \<and> (r = 0 \<or> r = - EIO)"
    using b rm sE by (auto simp: mtk_bmt_debug_mark_bad_def Let_def)
  show "same_desc D (snd (mtk_bmt_debug_mark_good B D val))"
    by (simp add: mtk_bmt_debug_mark_good_def unmap_same)
qed

end

section \<open>What is read\<close>

text \<open>A chip that reads well: the driver fills the request from the bytes of the chip and changes nothing.\<close>

definition reads_bytes :: "'m bmt_desc \<Rightarrow> (u64 \<Rightarrow> u8) \<Rightarrow> bool" where
  "reads_bytes D byte \<longleftrightarrow> (\<forall>a q buf. ops_datbuf q = Some buf \<and> unat (ops_len q) \<le> length buf \<and> ops_ooblen q = 0 \<and> ops_oobretlen q = 0 \<longrightarrow>
     (\<exists>r. 0 \<le> r \<and> \<not> above_threshold D r \<and> nand_read_oob (nand_ops D) (nand D) a q = (r, q\<lparr>ops_retlen := ops_len q,
        ops_datbuf := Some (map (\<lambda>i. byte (a + of_nat i)) [0..<unat (ops_len q)] @ drop (unat (ops_len q)) buf)\<rparr>, nand D)))"

text \<open>Where the byte at an address of the layer is on the chip.\<close>

definition layer_addr :: "('m bmt_desc, 't) mtk_bmt_ops \<Rightarrow> 'm bmt_desc \<Rightarrow> u64 \<Rightarrow> u64" where
  "layer_addr B D a = mapped_addr D (the (bops_get_mapping_block B D (sint (blk_number D a)))) (blk_offset D a)"

definition maps_block :: "('m bmt_desc, 't) mtk_bmt_ops \<Rightarrow> 'm bmt_desc \<Rightarrow> u64 \<Rightarrow> bool" where
  "maps_block B D a \<longleftrightarrow> (case bops_get_mapping_block B D (sint (blk_number D a)) of None \<Rightarrow> False | Some b \<Rightarrow> 0 \<le> b)"

lemma layer_addr_in_block:
  assumes "bmt_blocks D" "unat (blk_offset D a) + j < unat (blk_size D)"
  shows "layer_addr B D (a + of_nat j) = layer_addr B D a + of_nat j"
  by (simp add: layer_addr_def position_in_block [OF assms])

text \<open>The state of a read that went well so far.\<close>

definition read_so_far :: "('m bmt_desc, 't) mtk_bmt_ops \<Rightarrow> 'm bmt_desc \<Rightarrow> (u64 \<Rightarrow> u8) \<Rightarrow> u64 \<Rightarrow> u8 list \<Rightarrow> mtd_oob_ops \<Rightarrow> bool" where
  "read_so_far B D byte start buf ops \<longleftrightarrow> ops_oobretlen ops = 0 \<and> ops_ooblen ops = 0 \<and> ops_retlen ops \<le> ops_len ops \<and>
     ops_datbuf ops = Some (map (\<lambda>i. byte (layer_addr B D (start + of_nat i))) [0..<unat (ops_retlen ops)] @ drop (unat (ops_retlen ops)) buf)"

lemma read_bytes_loop:
  assumes d: "reads_bytes D byte" and g: "bmt_blocks D" and l: "unat (ops_len ops) \<le> length buf" "unat (ops_len ops) < 2 ^ 32"
    and m: "\<And>i. i < unat (ops_len ops) \<Longrightarrow> maps_block B D (start + of_nat i)"
    and s: "read_so_far B D byte start buf ops" "ops_ooblen cur = 0" "ops_datbuf cur = map_option (drop (unat (ops_retlen ops))) (ops_datbuf ops)"
      "from = start + ops_retlen ops" "0 \<le> ret" "0 \<le> bf"
  shows "\<exists>r ops'. bmt_read_loop B D from ops cur retry_count ret bf = Some (r, ops', D) \<and> 0 \<le> r \<and>
    ops_len ops' = ops_len ops \<and> ops_retlen ops' = ops_len ops \<and> read_so_far B D byte start buf ops'"
  using l m s
proof (induction "unat (ops_len ops - ops_retlen ops)" arbitrary: ops cur "from" retry_count bf rule: less_induct)
  case less
  show ?case
  proof (cases "ops_left ops")
    case False
    then have "ops_retlen ops = ops_len ops" using less(5) by (simp add: ops_left_def read_so_far_def)
    then show ?thesis using False less(5,9,10) by (subst bmt_read_loop.simps) simp
  next
    case left: True
    let ?t = "unat (ops_retlen ops)"
    have lt: "ops_retlen ops < ops_len ops" using left less(5) by (simp add: ops_left_def read_so_far_def)
    have st: "transfer_state ops cur" using less(3,5,6) by (simp add: transfer_state_def read_so_far_def)
    let ?n = "m_erasesize (bmt_mtd D) - blk_offset D from"
    have es: "m_erasesize (bmt_mtd D) = blk_size D" using g by (simp add: bmt_blocks_def bmt_geometry_def)
    have off: "blk_offset D from < blk_size D" using g by (intro offset_less) (simp add: bmt_blocks_def)
    let ?q = "request_ops ops cur ?n"
    define k where "k = unat (ops_len ?q)"
    have k: "k = min (unat (blk_size D) - unat (blk_offset D from)) (unat (ops_len ops) - ?t)"
      using off lt by (simp add: k_def request_len [OF st] es unat_sub)
    have k0: "0 < k" using off lt by (simp add: k word_less_nat_alt)
    let ?X = "map (\<lambda>i. byte (layer_addr B D (start + of_nat i))) [0..<?t]"
    have db: "ops_datbuf ops = Some (?X @ drop ?t buf)" using less(5) by (simp add: read_so_far_def)
    then have qb: "ops_datbuf ?q = Some (drop ?t buf)" "ops_ooblen ?q = 0" using less(6,7) by simp_all
    have fr: "from = start + of_nat ?t" using less(8) by simp
    have "maps_block B D from" unfolding fr by (rule less(4)) (use lt in \<open>simp add: word_less_nat_alt\<close>)
    then obtain b where b: "bops_get_mapping_block B D (sint (blk_number D from)) = Some b" "0 \<le> b"
      by (auto simp: maps_block_def split: option.splits)
    let ?a = "mapped_addr D b (blk_offset D from)"
    let ?Y = "map (\<lambda>i. byte (?a + of_nat i)) [0..<k]"
    define c where "c = ?q\<lparr>ops_retlen := ops_len ?q, ops_datbuf := Some (?Y @ drop k (drop ?t buf))\<rparr>"
    have kb: "k \<le> length (drop ?t buf)" using k less(2) by simp
    have "ops_datbuf ?q = Some (drop ?t buf) \<and> unat (ops_len ?q) \<le> length (drop ?t buf) \<and> ops_ooblen ?q = 0 \<and> ops_oobretlen ?q = 0"
      using qb kb unfolding k_def by simp
    with d obtain r where r: "0 \<le> r" "\<not> above_threshold D r" and rd: "nand_read_oob (nand_ops D) (nand D) ?a ?q = (r, c, nand D)"
      unfolding reads_bytes_def c_def k_def by blast
    let ?ops = "count_ops (store_ops ops c) c"
    have eq: "bmt_read_loop B D from ops cur retry_count ret bf =
        bmt_read_loop B D (from + address_step c ?n) ?ops (advance_ops c) 0 ret (max bf r)"
      using left b r rd by (subst bmt_read_loop.simps) (simp add: Let_def)
    have qle: "ops_len ?q \<le> ops_len ops - ops_retlen ops"
      unfolding word_le_nat_alt request_len [OF st] by simp
    note room = word_room [OF less_imp_le [OF lt] qle]
    have rl: "ops_retlen ?ops = ops_retlen ops + ops_len ?q" by (simp add: count_ops_def c_def)
    have ul: "unat (ops_retlen ?ops) = ?t + k"
      unfolding rl k_def by (rule room(4))
    have "length (drop ?t buf) = k + length (drop (?t + k) buf)" "length ?Y = k" using kb by simp_all
    then have mem: "memcpy_at (?X @ drop ?t buf) ?t (?Y @ drop k (drop ?t buf)) = (?X @ ?Y) @ drop (?t + k) buf"
      by (simp add: memcpy_at_def add.commute)
    have Y: "byte (?a + of_nat i) = byte (layer_addr B D (start + of_nat (?t + i)))" if "i < k" for i
    proof -
      have "layer_addr B D (from + of_nat i) = layer_addr B D from + of_nat i"
        by (rule layer_addr_in_block [OF g]) (use that k in linarith)
      moreover have "layer_addr B D from = ?a" using b by (simp add: layer_addr_def)
      moreover have "start + of_nat (?t + i) = from + of_nat i" by (simp add: fr add.assoc)
      ultimately have "layer_addr B D (start + of_nat (?t + i)) = ?a + of_nat i" by (simp only:)
      then show ?thesis by (simp only:)
    qed
    have "[0..<?t + k] = [0..<?t] @ map (\<lambda>i. ?t + i) [0..<k]"
      using upt_add_eq_append [OF le0, of ?t k] map_add_upt [of ?t k] by (simp only: add.commute)
    then have XY: "?X @ ?Y = map (\<lambda>i. byte (layer_addr B D (start + of_nat i))) [0..<?t + k]"
      using Y by (simp del: of_nat_add)
    have db': "ops_datbuf ?ops = Some ((?X @ ?Y) @ drop (?t + k) buf)"
      using mem db by (simp add: count_ops_def store_ops_def store_buf_def c_def)
    have sf: "read_so_far B D byte start buf ?ops"
      using less(5) room(1) db' rl unfolding read_so_far_def ul XY by (simp add: count_ops_def c_def)
    have len: "ops_len ?ops = ops_len ops" by (simp add: count_ops_def)
    have al: "address_step c ?n = ops_len ?q" using k0 by (auto simp: address_step_def c_def k_def)
    have "\<exists>r' ops'. bmt_read_loop B D (from + address_step c ?n) ?ops (advance_ops c) 0 ret (max bf r) = Some (r', ops', D) \<and> 0 \<le> r' \<and>
      ops_len ops' = ops_len ?ops \<and> ops_retlen ops' = ops_len ?ops \<and> read_so_far B D byte start buf ops'"
    proof (rule less(1) [OF _ _ _ _ sf])
      show "unat (ops_len ?ops - ops_retlen ?ops) < unat (ops_len ops - ops_retlen ops)"
        unfolding len rl room(2) using k0 lt by (simp add: k_def unat_sub [OF less_imp_le [OF lt]] word_less_nat_alt)
      show "from + address_step c ?n = start + ops_retlen ?ops"
        unfolding al rl by (simp add: less(8) add.assoc)
      show "ops_datbuf (advance_ops c) = map_option (drop (unat (ops_retlen ?ops))) (ops_datbuf ?ops)"
        unfolding ul db' by (simp add: advance_ops_def c_def k_def [symmetric] add.commute)
    qed (use less(2,3,4,6,9,10) r in \<open>simp_all add: len advance_ops_def c_def\<close>)
    then show ?thesis unfolding eq len .
  qed
qed

lemma read_bytes:
  assumes "bmt_blocks D" "reads_bytes D byte" "ops_datbuf ops = Some buf" "ops_ooblen ops = 0"
    "unat (ops_len ops) \<le> length buf" "unat (ops_len ops) < 2 ^ 32"
    "\<And>i. i < unat (ops_len ops) \<Longrightarrow> maps_block B D (addr + of_nat i)"
  shows "\<exists>r ops'. mtk_bmt_read B D addr ops = Some (r, ops', D) \<and> 0 \<le> r \<and> ops_retlen ops' = ops_len ops \<and>
    ops_datbuf ops' = Some (map (\<lambda>i. byte (layer_addr B D (addr + of_nat i))) [0..<unat (ops_len ops)] @ drop (unat (ops_len ops)) buf)"
  using read_bytes_loop [of D byte "ops\<lparr>ops_retlen := 0, ops_oobretlen := 0\<rparr>" buf B addr ops addr 0 0 0] assms
  by (auto simp: mtk_bmt_read_def read_so_far_def)

section \<open>Formats that can be attached\<close>

text \<open>Reading the tables when the layer is attached settles members of the descriptor that \<open>same_desc\<close>
  holds still afterwards; these stay as they are even then. Of the device only the size changes.\<close>

definition attach_keeps :: "'m bmt_desc \<Rightarrow> 'm bmt_desc \<Rightarrow> bool" where
  "attach_keeps D E \<longleftrightarrow> (bmt_mtd E)\<lparr>m_size := 0\<rparr> = (bmt_mtd D)\<lparr>m_size := 0\<rparr> \<and> nand_ops E = nand_ops D \<and>
     pg_size E = pg_size D \<and> blk_size E = blk_size D \<and> pg_shift E = pg_shift D \<and> blk_shift E = blk_shift D \<and>
     total_blks E = total_blks D \<and> remap_range E = remap_range D \<and> bmt_sig E = bmt_sig D"

lemma attach_keeps_refl [simp]: "attach_keeps D D"
  by (simp add: attach_keeps_def)

lemma attach_keeps_trans: "attach_keeps D E \<Longrightarrow> attach_keeps E F \<Longrightarrow> attach_keeps D F"
  by (simp add: attach_keeps_def)

lemma attach_keeps_same: "same_desc D E \<Longrightarrow> attach_keeps D E"
  by (simp add: same_desc_def attach_keeps_def)

lemma attach_keeps_update [simp]:
  "attach_keeps D (E\<lparr>bbt_buf := b\<rparr>) = attach_keeps D E" "attach_keeps D (E\<lparr>bbt_found := f\<rparr>) = attach_keeps D E"
  "attach_keeps D (E\<lparr>bmt_blk_idx := i\<rparr>) = attach_keeps D E" "attach_keeps D (E\<lparr>bmt_pgs := n\<rparr>) = attach_keeps D E"
  "attach_keeps D (E\<lparr>nand := m\<rparr>) = attach_keeps D E"
  "attach_keeps D (E\<lparr>bmt_mtd := (bmt_mtd E)\<lparr>m_size := n'\<rparr>\<rparr>) = attach_keeps D E"
  by (simp_all add: attach_keeps_def)

lemma attach_keeps_erasesize: "attach_keeps D E \<Longrightarrow> m_erasesize (bmt_mtd E) = m_erasesize (bmt_mtd D)"
  by (cases "bmt_mtd D"; cases "bmt_mtd E") (simp add: attach_keeps_def)

lemma attach_keeps_blocks: "attach_keeps D E \<Longrightarrow> bmt_blocks E = bmt_blocks D"
  using attach_keeps_erasesize [of D E] by (simp add: bmt_blocks_def bmt_geometry_def attach_keeps_def)

locale bmt_format = bmt_backend B for B :: "('m bmt_desc, 't) mtk_bmt_ops" +
  assumes init_keeps: "bops_init B t D = Some (ret, E) \<Longrightarrow> attach_keeps D E"
begin

lemma init_blocks: "bops_init B t D = Some (ret, E) \<Longrightarrow> bmt_blocks E = bmt_blocks D"
  by (rule attach_keeps_blocks [OF init_keeps])

end

end
