(* ===== verification/Bmt_Attach.thy ===== *)
theory Bmt_Attach
  imports Bmt_Service
begin

text \<open>
  Attaching the layer to a device and detaching it (\<open>mtk_bmt_attach\<close>, \<open>mtk_bmt_detach\<close>): the device with
  its operations, which the layer replaces by its own and puts back, and the global \<open>bmtd\<close>, \<open>None\<close> while
  it is all zero. The formats are the argument \<open>F\<close>.
\<close>

section \<open>The device\<close>

text \<open>An operation of a device is the driver's function or the layer's.\<close>

datatype 'f handler = Driver 'f | Layer

record 'm mtd_handlers =
  h_read_oob :: "('m \<Rightarrow> u64 \<Rightarrow> mtd_oob_ops \<Rightarrow> int \<times> mtd_oob_ops \<times> 'm) handler"
  h_write_oob :: "('m \<Rightarrow> u64 \<Rightarrow> mtd_oob_ops \<Rightarrow> int \<times> mtd_oob_ops \<times> 'm) handler"
  h_erase :: "('m \<Rightarrow> u64 \<Rightarrow> u64 \<Rightarrow> int \<times> 'm) handler"
  h_block_isbad :: "('m \<Rightarrow> u64 \<Rightarrow> int \<times> 'm) handler"
  h_block_markbad :: "('m \<Rightarrow> u64 \<Rightarrow> int \<times> 'm) handler"

text \<open>\<open>dev_id\<close> stands for the address of the structure; \<open>dev_nand\<close> is the driver's state.\<close>

record 'm mtd_dev =
  dev_id :: nat
  dev_info :: "unit mtd_info"
  dev_nand :: 'm
  dev_handlers :: "'m mtd_handlers"

datatype bmt_kind = Kind_v2 | Kind_nmbm | Kind_bbt

text \<open>The properties of the device tree node, and whether the page buffer can be allocated. \<open>'t\<close> is what
  the formats read.\<close>

record 't bmt_node =
  np_bmt_v2 :: bool
  np_nmbm :: bool
  np_bbt :: bool
  np_remap_range :: "(u32 \<times> u32) list option"
  np_oobsize :: "u32 option"
  np_format :: 't
  np_alloc_fails :: bool

record 'm bmtd_global =
  g_mtd :: nat
  g_ops :: bmt_kind
  g_saved :: "'m mtd_handlers"
  g_desc :: "'m bmt_desc"

abbreviation (input) ENOSPC :: int where "ENOSPC \<equiv> 28"

section \<open>Attaching and detaching\<close>

definition layer_handlers :: "'m mtd_handlers" where
  "layer_handlers = \<lparr>h_read_oob = Layer, h_write_oob = Layer, h_erase = Layer, h_block_isbad = Layer, h_block_markbad = Layer\<rparr>"

text \<open>The functions saved; a function of the layer saved by the layer would call itself without end.\<close>

definition driver_fn :: "'f handler \<Rightarrow> 'f option" where
  "driver_fn h = (case h of Driver f \<Rightarrow> Some f | Layer \<Rightarrow> None)"

definition driver_ops :: "'m mtd_handlers \<Rightarrow> 'm bmt_nand_ops option" where
  "driver_ops H =
     do {
       r \<leftarrow> driver_fn (h_read_oob H);
       w \<leftarrow> driver_fn (h_write_oob H);
       e \<leftarrow> driver_fn (h_erase H);
       i \<leftarrow> driver_fn (h_block_isbad H);
       b \<leftarrow> driver_fn (h_block_markbad H);
       Some \<lparr>nand_read_oob = r, nand_write_oob = w, nand_erase = e, nand_block_isbad = i, nand_block_markbad = b\<rparr>
     }"

text \<open>The handlers the device has afterwards, and those saved.\<close>

definition mtk_bmt_replace_ops :: "'m mtd_dev \<Rightarrow> 'm mtd_dev \<times> 'm mtd_handlers" where
  "mtk_bmt_replace_ops dev = (dev\<lparr>dev_handlers := layer_handlers\<rparr>, dev_handlers dev)"

text \<open>\<open>total_blks << blk_shift\<close> is an \<open>int\<close>, extended to the 64 bits of the size with its sign.\<close>

definition restored_size :: "'m bmt_desc \<Rightarrow> u64" where
  "restored_size D = scast (push_bit (unat (blk_shift D)) (ucast (total_blks D)) :: u32)"

definition mtk_bmt_detach :: "'m mtd_dev \<Rightarrow> 'm bmtd_global option \<Rightarrow> 'm mtd_dev \<times> 'm bmtd_global option" where
  "mtk_bmt_detach dev g =
     (case g of
        None \<Rightarrow> (dev, g)
      | Some b \<Rightarrow>
          if g_mtd b \<noteq> dev_id dev then (dev, g)
          else (dev\<lparr>dev_handlers := g_saved b, dev_nand := nand (g_desc b),
                    dev_info := (bmt_mtd (g_desc b))\<lparr>m_size := restored_size (g_desc b)\<rparr>\<rparr>, None))"

definition bmt_kind_of :: "'t bmt_node \<Rightarrow> bmt_kind option" where
  "bmt_kind_of np =
     (if np_bmt_v2 np then Some Kind_v2
      else if np_nmbm np then Some Kind_nmbm
      else if np_bbt np then Some Kind_bbt
      else None)"

text \<open>The descriptor before \<open>init\<close>. \<open>dev\<close> has its size and its handlers already; the oob size is
  overridden before the buffer is allocated.\<close>

definition overridden :: "'t bmt_node \<Rightarrow> unit mtd_info \<Rightarrow> unit mtd_info" where
  "overridden np mtd =
     (case np_oobsize np of
        None \<Rightarrow> mtd
      | Some s \<Rightarrow> if s < m_oobsize mtd then mtd\<lparr>m_oobsize := s\<rparr> else mtd)"

definition bmt_shift :: "u32 \<Rightarrow> u16" where
  "bmt_shift sz = of_nat (ffs sz) - 1"

definition bmt_start :: "u8 list \<Rightarrow> 'm bmt_nand_ops \<Rightarrow> 't bmt_node \<Rightarrow> unit mtd_info \<Rightarrow> 'm \<Rightarrow> 'm bmt_desc" where
  "bmt_start sig N np mtd m =
     (let bs = bmt_shift (m_erasesize mtd)
      in \<lparr>bmt_mtd = mtd, nand = m, nand_ops = N, bmt_sig = sig, bbt_buf = [],
          data_buf = replicate (unat (m_writesize mtd + m_oobsize mtd)) 0xff, bbt_found = False,
          table_size = 0, pg_size = m_writesize mtd, blk_size = m_erasesize mtd,
          pg_shift = bmt_shift (m_writesize mtd), blk_shift = bs, pool_lba = 0, pool_pba = 0, bb_max = 0,
          total_blks = ucast (drop_bit (unat bs) (m_size mtd)), bmt_blk_idx = 0, bmt_pgs = 0,
          remap_range = np_remap_range np, oob_offset = 0\<rparr>)"

definition mtk_bmt_attach ::
  "(bmt_kind \<Rightarrow> ('m bmt_desc, 't) mtk_bmt_ops) \<Rightarrow> 't bmt_node option \<Rightarrow> 'm mtd_dev \<Rightarrow> 'm bmtd_global option \<Rightarrow>
   (int \<times> 'm mtd_dev \<times> 'm bmtd_global option) option" where
  "mtk_bmt_attach F node dev g =
     (if g \<noteq> None then Some (- ENOSPC, dev, g)
      else case node of
        None \<Rightarrow> Some (0, dev, g)
      | Some np \<Rightarrow>
          (case bmt_kind_of np of
             None \<Rightarrow> Some (0, dev, g)
           | Some k \<Rightarrow>
               do {
                 let (dev, saved) = mtk_bmt_replace_ops dev;
                 N \<leftarrow> driver_ops saved;
                 let dev = dev\<lparr>dev_info := overridden np (dev_info dev)\<rparr>;
                 let D = bmt_start (bops_sig (F k)) N np (dev_info dev) (dev_nand dev);
                 let G = (\<lambda>D. Some \<lparr>g_mtd = dev_id dev, g_ops = k, g_saved = saved, g_desc = D\<rparr>);
                 if np_alloc_fails np then
                   let (dev, g) = mtk_bmt_detach dev (G D) in Some (- 1, dev, g)
                 else do {
                   (ret, D) \<leftarrow> bops_init (F k) (np_format np) D;
                   let dev = dev\<lparr>dev_info := bmt_mtd D, dev_nand := nand D\<rparr>;
                   if ret \<noteq> 0 then
                     let (dev, g) = mtk_bmt_detach dev (G D) in Some (ret, dev, g)
                   else Some (0, dev, G D)
                 }
               }))"

section \<open>What attaching means\<close>

text \<open>The device whose operations are all the driver's.\<close>

definition driver_only :: "'m mtd_handlers \<Rightarrow> bool" where
  "driver_only H \<longleftrightarrow> driver_ops H \<noteq> None"

lemma driver_only_iff: "driver_only H \<longleftrightarrow> h_read_oob H \<noteq> Layer \<and> h_write_oob H \<noteq> Layer \<and> h_erase H \<noteq> Layer \<and>
    h_block_isbad H \<noteq> Layer \<and> h_block_markbad H \<noteq> Layer"
  by (auto simp: driver_only_def driver_ops_def driver_fn_def split: handler.splits)

text \<open>The block number and size of a device of \<open>2 ^ k\<close> byte blocks.\<close>

definition pow2_device :: "unit mtd_info \<Rightarrow> bool" where
  "pow2_device mtd \<longleftrightarrow> (\<exists>k < 32. m_erasesize mtd = 2 ^ k) \<and> (\<exists>k < 32. m_writesize mtd = 2 ^ k)"

lemma bmt_shift_pow2: "k < 32 \<Longrightarrow> unat (bmt_shift (2 ^ k)) = k"
  by (simp add: bmt_shift_def ffs_pow2 shift_ffs del: of_nat_Suc)

lemma overridden_simps [simp]:
  "m_erasesize (overridden np mtd) = m_erasesize mtd" "m_writesize (overridden np mtd) = m_writesize mtd"
  "m_size (overridden np mtd) = m_size mtd"
  by (simp_all add: overridden_def split: option.splits)

lemma start_blocks: "pow2_device mtd \<Longrightarrow> bmt_blocks (bmt_start sig N np mtd m)"
  by (auto simp: pow2_device_def bmt_blocks_def bmt_geometry_def bmt_start_def Let_def bmt_shift_pow2 word_less_nat_alt unat_pow2)

text \<open>What is left of the size of the device: the whole blocks, as far as their number has 16 bits.\<close>

lemma restored_size_exact:
  assumes k: "m_erasesize mtd = 2 ^ k" "k < 32" and s: "unat (m_size mtd) < 2 ^ 31" "2 ^ k dvd unat (m_size mtd)"
    and n: "unat (m_size mtd) < 2 ^ (16 + k)"
    and D: "blk_shift D = bmt_shift (m_erasesize mtd)" "total_blks D = ucast (drop_bit (unat (blk_shift D)) (m_size mtd))"
  shows "restored_size D = m_size mtd"
proof -
  let ?s = "unat (m_size mtd)" and ?x = "push_bit k (ucast (total_blks D)) :: u32"
  have b: "unat (blk_shift D) = k" by (simp add: D(1) k bmt_shift_pow2)
  have q: "?s div 2 ^ k < 2 ^ 16" using n by (simp add: power_add less_mult_imp_div_less)
  have d: "unat (drop_bit k (m_size mtd)) = ?s div 2 ^ k"
    by (simp only: unsigned_drop_bit_eq) (use unsigned_less [of "m_size mtd", where ?'a = nat] in \<open>simp add: drop_bit_eq_div take_bit_nat_eq_self\<close>)
  have "unat (total_blks D) = ?s div 2 ^ k"
    using q by (simp add: D(2) b unsigned_ucast_eq d take_bit_nat_eq_self)
  then have "unat (ucast (total_blks D) :: u32) = ?s div 2 ^ k" using q by (simp add: unsigned_ucast_eq take_bit_nat_eq_self)
  moreover have m: "?s div 2 ^ k * 2 ^ k = ?s" using s(2) by simp
  ultimately have x: "unat ?x = ?s" using s(1)
    by (simp only: unsigned_push_bit_eq) (simp add: push_bit_eq_mult take_bit_nat_eq_self)
  then have "uint ?x < 2 ^ 31" using s(1) by (metis of_nat_less_iff of_nat_numeral of_nat_power uint_nat)
  then have "sint ?x = uint ?x" by (simp only: sint_uint) (rule signed_take_bit_int_eq_self, rule order_trans [OF _ unsigned_greater_eq], simp_all)
  then have "(scast ?x :: u64) = ucast ?x" by (metis scast_eq ucast_eq)
  then have "unat (restored_size D) = ?s" using x by (simp add: restored_size_def b)
  then show ?thesis by (simp add: word_unat_eq_iff)
qed

text \<open>What the formats must do: \<open>init\<close> keeps what the layer has set.\<close>

definition formats_keep :: "(bmt_kind \<Rightarrow> ('m bmt_desc, 't) mtk_bmt_ops) \<Rightarrow> bool" where
  "formats_keep F \<longleftrightarrow> (\<forall>k t D ret E. bops_init (F k) t D = Some (ret, E) \<longrightarrow> attach_keeps D E)"

text \<open>A successful or failed attach in one place.\<close>

lemma attach_cases:
  assumes "mtk_bmt_attach F node dev None = Some (r, dev', g')" "driver_only (dev_handlers dev)"
  obtains (ignored) "r = 0" "dev' = dev" "g' = None"
  | (refused) np k N where "node = Some np" "bmt_kind_of np = Some k" "driver_ops (dev_handlers dev) = Some N" "r \<noteq> 0" "g' = None"
      "dev_handlers dev' = dev_handlers dev" "dev_id dev' = dev_id dev"
  | (attached) np k N D where "node = Some np" "bmt_kind_of np = Some k" "driver_ops (dev_handlers dev) = Some N" "r = 0"
      "bops_init (F k) (np_format np) (bmt_start (bops_sig (F k)) N np (overridden np (dev_info dev)) (dev_nand dev)) = Some (0, D)"
      "g' = Some \<lparr>g_mtd = dev_id dev, g_ops = k, g_saved = dev_handlers dev, g_desc = D\<rparr>"
      "dev' = dev\<lparr>dev_handlers := layer_handlers, dev_info := bmt_mtd D, dev_nand := nand D\<rparr>"
proof (cases "\<exists>np k. node = Some np \<and> bmt_kind_of np = Some k")
  case False
  then show ?thesis using assms(1) by (intro ignored) (auto simp: mtk_bmt_attach_def split: option.splits)
next
  case True
  then obtain np k where n: "node = Some np" "bmt_kind_of np = Some k" by blast
  obtain N where N: "driver_ops (dev_handlers dev) = Some N" using assms(2) by (auto simp: driver_only_def)
  show ?thesis
  proof (cases "np_alloc_fails np")
    case True
    then show ?thesis using assms(1) n N
      by (intro refused [OF n N]) (auto simp: mtk_bmt_attach_def mtk_bmt_replace_ops_def mtk_bmt_detach_def Let_def)
  next
    case False
    let ?D = "bmt_start (bops_sig (F k)) N np (overridden np (dev_info dev)) (dev_nand dev)"
    obtain ret D where i: "bops_init (F k) (np_format np) ?D = Some (ret, D)"
      using assms(1) n N False
      by (cases "bops_init (F k) (np_format np) ?D") (auto simp: mtk_bmt_attach_def mtk_bmt_replace_ops_def Let_def)
    show ?thesis
    proof (cases "ret = 0")
      case True
      then show ?thesis using assms(1) n N False i
        by (intro attached [OF n N]) (auto simp: mtk_bmt_attach_def mtk_bmt_replace_ops_def Let_def)
    next
      case ret: False
      then show ?thesis using assms(1) n N False i
        by (intro refused [OF n N]) (auto simp: mtk_bmt_attach_def mtk_bmt_replace_ops_def mtk_bmt_detach_def Let_def)
    qed
  qed
qed

lemma attached_desc:
  assumes "formats_keep F" "bops_init (F k) t (bmt_start sig N np (overridden np mtd) m) = Some (ret, D)"
  shows "nand_ops D = N" "blk_shift D = bmt_shift (m_erasesize mtd)"
    "total_blks D = ucast (drop_bit (unat (blk_shift D)) (m_size mtd))" "pow2_device mtd \<Longrightarrow> bmt_blocks D"
proof -
  let ?S = "bmt_start sig N np (overridden np mtd) m"
  have k: "attach_keeps ?S D" using assms unfolding formats_keep_def by blast
  then show "nand_ops D = N" "blk_shift D = bmt_shift (m_erasesize mtd)"
    "total_blks D = ucast (drop_bit (unat (blk_shift D)) (m_size mtd))"
    by (simp_all add: attach_keeps_def bmt_start_def Let_def)
  show "bmt_blocks D" if "pow2_device mtd"
  proof -
    have "pow2_device (overridden np mtd)" using that by (simp add: pow2_device_def)
    then show ?thesis using attach_keeps_blocks [OF k] start_blocks [of "overridden np mtd" sig N np m] by simp
  qed
qed

text \<open>A device of 2 GiB gets back a size in which the sign has been extended.\<close>

lemma restored_size_wraps:
  "blk_shift D = 17 \<Longrightarrow> total_blks D = 0x4000 \<Longrightarrow> restored_size D = 0xFFFFFFFF80000000"
  by (simp add: restored_size_def)

end
