(* ===== verification/Bmt_Bbt.thy ===== *)
theory Bmt_Bbt
  imports Bmt_Service
begin

text \<open>
  The table format \<open>mtk_bmt_bbt.c\<close>: two bits per block say which blocks are bad, and a logic block of
  a remap range is the good block with that index in the range. The theory shows what mapping this is
  (a permutation of the range) and what marking a block does to it.
\<close>

section \<open>The code\<close>

definition bbt_block_is_bad :: "'m bmt_desc \<Rightarrow> u16 \<Rightarrow> bool" where
  "bbt_block_is_bad D block =
     (bbt_buf D ! unat (block div 4) AND push_bit (2 * unat (block mod 4)) 3 \<noteq> 0)"

definition bbt_set_block_state :: "'m bmt_desc \<Rightarrow> u16 \<Rightarrow> bool \<Rightarrow> 'm bmt_desc" where
  "bbt_set_block_state D block bad =
     (let mask = push_bit (2 * unat (block mod 4)) 3 :: u8;
          i = unat (block div 4);
          D = D\<lparr>bbt_buf := (bbt_buf D)[i := if bad then bbt_buf D ! i OR mask else bbt_buf D ! i AND NOT mask]\<rparr>;
          (_, D) = bbt_nand_erase D (bmt_blk_idx D);
          (_, D) = write_bmt D (bmt_blk_idx D) (bbt_buf D)
      in D)"

text \<open>The two loops of \<open>get_mapping_block_index_bbt\<close>. The first results in \<open>i\<close>, \<open>bad_blocks\<close>, \<open>ofs\<close>; the
  second counts \<open>bad_blocks\<close> down and returns \<open>block\<close> when it runs out.\<close>

function bbt_skip_loop :: "'m bmt_desc \<Rightarrow> int \<Rightarrow> int \<Rightarrow> int \<Rightarrow> int \<Rightarrow> int \<times> int \<times> int" where
  "bbt_skip_loop D i e bad_blocks ofs =
     (if i < e then
        if bbt_block_is_bad D (word_of_int i) then bbt_skip_loop D (i + 1) e (bad_blocks + 1) ofs
        else if ofs \<noteq> 0 then bbt_skip_loop D (i + 1) e bad_blocks (ofs - 1)
        else (i, bad_blocks, ofs)
      else (i, bad_blocks, ofs))"
  by pat_completeness auto
termination
  by (relation "measure (\<lambda>(D, i, e, bad_blocks, ofs). nat (e - i))") auto

declare bbt_skip_loop.simps [simp del]

partial_function (option) bbt_overflow_loop :: "'m bmt_desc \<Rightarrow> int \<Rightarrow> int \<Rightarrow> int \<Rightarrow> int \<Rightarrow> int option" where
  "bbt_overflow_loop D block i bad_blocks ofs =
     (if 0 < bad_blocks then
        if \<not> bbt_block_is_bad D (word_of_int i) then bbt_overflow_loop D block (i - 1) bad_blocks ofs
        else if bad_blocks - 1 \<le> ofs then Some i
        else bbt_overflow_loop D block (i - 1) (bad_blocks - 1) ofs
      else Some block)"

definition get_mapping_block_index_bbt :: "'m bmt_desc \<Rightarrow> int \<Rightarrow> int option" where
  "get_mapping_block_index_bbt D block =
     (case mapping_block_in_range D block of
        None \<Rightarrow> Some block
      | Some (s, e) \<Rightarrow>
          let s = drop_bit (unat (blk_shift D)) s;
              e = drop_bit (unat (blk_shift D)) e;
              (i, bad_blocks, ofs) = bbt_skip_loop D s e 0 (block - s)
          in if i < e then Some i else bbt_overflow_loop D block (e - 1) bad_blocks ofs)"

definition remap_block_bbt :: "'m bmt_desc \<Rightarrow> u16 \<Rightarrow> u16 \<Rightarrow> int \<Rightarrow> (bool \<times> 'm bmt_desc) option" where
  "remap_block_bbt D block mapped_blk copy_len =
     (case mapping_block_in_range D (uint block) of
        None \<Rightarrow> Some (False, D)
      | Some _ \<Rightarrow> do {
          let D = bbt_set_block_state D mapped_blk True;
          new_blk \<leftarrow> get_mapping_block_index_bbt D (uint block);
          let (_, D) = bbt_nand_erase D (word_of_int new_blk);
          let (_, D) = (if 0 < copy_len then bbt_nand_copy D (word_of_int new_blk) mapped_blk (word_of_int copy_len)
                        else (0, D));
          Some (True, D)
        })"

definition unmap_block_bbt :: "'m bmt_desc \<Rightarrow> u16 \<Rightarrow> 'm bmt_desc" where
  "unmap_block_bbt D block = bbt_set_block_state D block False"

text \<open>\<open>oob_buf\<close> is not initialised in C: zeros stand for its contents, which are only looked at after
  a read that succeeded. \<open>''mtknand''\<close> in bytes is the signature.\<close>

definition bbt_sig :: "u8 list" where
  "bbt_sig = [0x6d, 0x74, 0x6b, 0x6e, 0x61, 0x6e, 0x64]"

function read_bbt_loop :: "'m bmt_desc \<Rightarrow> int \<Rightarrow> u8 list \<Rightarrow> int \<times> 'm bmt_desc" where
  "read_bbt_loop D i oob_buf =
     (if uint (total_blks D) - 5 \<le> i then
        let page = push_bit (unat (blk_shift D) - unat (pg_shift D)) (word_of_int i);
            (ret, dat, oob_buf, D') = bbt_nand_read D page (bbt_buf D) (ucast (pg_size D)) oob_buf 8;
            D' = D'\<lparr>bbt_buf := dat\<rparr>
        in if ret \<noteq> 0 then read_bbt_loop D' (i - 1) oob_buf
           else if oob_buf ! 0 \<noteq> 0xff then read_bbt_loop D' (i - 1) oob_buf
           else if slice 1 7 oob_buf \<noteq> bbt_sig then read_bbt_loop D' (i - 1) oob_buf
           else (0, D'\<lparr>bmt_blk_idx := word_of_int i\<rparr>)
      else (- EIO, D))"
  by pat_completeness auto
termination
  by (relation "measure (\<lambda>(D, i, oob_buf). nat (i + 6 - uint (total_blks D)))")
    (auto dest: read_accessed [THEN conjunct1, THEN accessed_same] simp: same_desc_def dest!: sym [of _ "bbt_nand_read _ _ _ _ _ _"])

declare read_bbt_loop.simps [simp del]

definition mtk_bmt_read_bbt :: "'m bmt_desc \<Rightarrow> int \<times> 'm bmt_desc" where
  "mtk_bmt_read_bbt D = read_bbt_loop D (uint (total_blks D) - 1) (replicate 8 0)"

text \<open>The first argument says whether the allocation fails.\<close>

definition mtk_bmt_init_bbt :: "bool \<Rightarrow> 'm bmt_desc \<Rightarrow> int \<times> 'm bmt_desc" where
  "mtk_bmt_init_bbt alloc_fails D =
     (let buf_size = round_up (ucast (drop_bit 2 (total_blks D))) (blk_size D) :: u32
      in if alloc_fails then (- ENOMEM, D)
         else
           let D = D\<lparr>bbt_buf := replicate (unat buf_size) 0xff,
                     bmt_mtd := (bmt_mtd D)\<lparr>m_size := m_size (bmt_mtd D) - ucast (4 * m_erasesize (bmt_mtd D))\<rparr>\<rparr>;
               (ret, D) = mtk_bmt_read_bbt D
           in if ret \<noteq> 0 then (ret, D)
              else (0, D\<lparr>bmt_pgs := buf_size div pg_size D\<rparr>))"

text \<open>What the debug file does besides printing.\<close>

definition mtk_bmt_debug_bbt :: "bool \<Rightarrow> 'm bmt_desc \<Rightarrow> u64 \<Rightarrow> int \<times> 'm bmt_desc" where
  "mtk_bmt_debug_bbt alloc_fails D val =
     (if val = 100 then
        let D = D\<lparr>bmt_blk_idx := total_blks D - 1\<rparr>;
            (_, D) = bbt_nand_erase D (bmt_blk_idx D);
            (_, D) = write_bmt D (bmt_blk_idx D) (bbt_buf D)
        in (0, D)
      else (0, D))"

definition mtk_bmt_bbt_ops :: "('m bmt_desc, bool) mtk_bmt_ops" where
  "mtk_bmt_bbt_ops =
     \<lparr>bops_sig = bbt_sig, bops_init = (\<lambda>alloc_fails D. Some (mtk_bmt_init_bbt alloc_fails D)),
      bops_remap_block = remap_block_bbt, bops_unmap_block = unmap_block_bbt,
      bops_get_mapping_block = get_mapping_block_index_bbt, bops_debug = mtk_bmt_debug_bbt\<rparr>"

section \<open>Good and bad blocks of a range\<close>

definition good_in :: "'m bmt_desc \<Rightarrow> int \<Rightarrow> int \<Rightarrow> int list" where
  "good_in D s e = filter (\<lambda>i. \<not> bbt_block_is_bad D (word_of_int i)) [s..e - 1]"

definition bad_in :: "'m bmt_desc \<Rightarrow> int \<Rightarrow> int \<Rightarrow> int list" where
  "bad_in D s e = filter (\<lambda>i. bbt_block_is_bad D (word_of_int i)) [s..e - 1]"

text \<open>The mapping the format means: good blocks first, then the bad ones, both ascending.\<close>

definition bbt_layout :: "'m bmt_desc \<Rightarrow> int \<Rightarrow> int \<Rightarrow> int list" where
  "bbt_layout D s e = good_in D s e @ bad_in D s e"

lemma set_layout [simp]: "set (bbt_layout D s e) = {s..<e}"
  by (auto simp: bbt_layout_def good_in_def bad_in_def)

lemma distinct_layout: "distinct (bbt_layout D s e)"
  by (auto simp: bbt_layout_def good_in_def bad_in_def)

lemma length_layout [simp]: "length (bbt_layout D s e) = nat (e - s)"
  using distinct_card [OF distinct_layout, of D s e] by simp

lemma layout_nth_bij: "bij_betw (\<lambda>b. bbt_layout D s e ! nat (b - s)) {s..<e} {s..<e}"
proof -
  have "bij_betw (\<lambda>b. nat (b - s)) {s..<e} {..<nat (e - s)}"
    by (rule bij_betw_byWitness [where f' = "\<lambda>k. int k + s"]) auto
  moreover have "bij_betw ((!) (bbt_layout D s e)) {..<nat (e - s)} {s..<e}"
    using bij_betw_nth [OF distinct_layout, of "{..<nat (e - s)}" D s e "{s..<e}"] by simp
  ultimately show ?thesis by (rule bij_betw_trans [unfolded comp_def])
qed

lemma in_step:
  "i < e \<Longrightarrow> good_in D i e = (if bbt_block_is_bad D (word_of_int i) then good_in D (i + 1) e else i # good_in D (i + 1) e)"
  "i < e \<Longrightarrow> bad_in D i e = (if bbt_block_is_bad D (word_of_int i) then i # bad_in D (i + 1) e else bad_in D (i + 1) e)"
  by (simp_all add: good_in_def bad_in_def upto_rec1)

lemma in_empty [simp]: "e \<le> i \<Longrightarrow> good_in D i e = []" "e \<le> i \<Longrightarrow> bad_in D i e = []"
  by (simp_all add: good_in_def bad_in_def)

lemma bad_in_last:
  "s \<le> i \<Longrightarrow> bad_in D s (i + 1) = (if bbt_block_is_bad D (word_of_int i) then bad_in D s i @ [i] else bad_in D s i)"
  by (simp add: bad_in_def upto_rec2)

section \<open>The two loops\<close>

lemma skip_loop:
  "0 \<le> ofs \<Longrightarrow> i \<le> e \<Longrightarrow> \<exists>n. bbt_skip_loop D i e b ofs =
     (if nat ofs < length (good_in D i e) then (good_in D i e ! nat ofs, n, 0)
      else (e, b + int (length (bad_in D i e)), ofs - int (length (good_in D i e))))"
proof (induction D i e b ofs rule: bbt_skip_loop.induct)
  case (1 D i e b ofs)
  show ?case
  proof (cases "i < e")
    case True
    consider (bad) "bbt_block_is_bad D (word_of_int i)" | (skip) "\<not> bbt_block_is_bad D (word_of_int i)" "ofs \<noteq> 0"
      | (found) "\<not> bbt_block_is_bad D (word_of_int i)" "ofs = 0" by blast
    then show ?thesis
    proof cases
      case bad
      then show ?thesis
        using 1(1) [OF True bad] True 1(3) by (subst bbt_skip_loop.simps) (auto simp: in_step)
    next
      case skip
      then have "nat ofs = Suc (nat (ofs - 1))" using 1(3) by simp
      then show ?thesis
        using 1(2) [OF True skip] True 1(3) skip by (subst bbt_skip_loop.simps) (auto simp: in_step)
    next
      case found
      then show ?thesis using True by (simp add: bbt_skip_loop.simps [of D i] in_step)
    qed
  next
    case False
    then show ?thesis using 1(4) by (subst bbt_skip_loop.simps) simp
  qed
qed

lemma overflow_loop:
  assumes "0 \<le> ofs" "bad_in D s (i + 1) \<noteq> []"
  shows "bbt_overflow_loop D block i (int (length (bad_in D s (i + 1)))) ofs
    = Some (bad_in D s (i + 1) ! min (nat ofs) (length (bad_in D s (i + 1)) - 1))"
  using assms(2)
proof (induction "nat (i - s)" arbitrary: i)
  case 0
  then have "i = s" by (cases "i + 1 \<le> s") auto
  then have "bad_in D s (i + 1) = [i]" "bbt_block_is_bad D (word_of_int i)"
    using 0(2) by (auto simp: bad_in_last split: if_splits)
  then show ?case using assms(1) by (subst bbt_overflow_loop.simps) simp
next
  case (Suc k)
  then have si: "s \<le> i" "nat (i - 1 - s) = k" by auto
  let ?bs = "bad_in D s i"
  show ?case
  proof (cases "bbt_block_is_bad D (word_of_int i)")
    case False
    then have e: "bad_in D s (i + 1) = ?bs" using si by (simp add: bad_in_last)
    then show ?thesis
      using Suc(1) [of "i - 1"] Suc(3) si False by (subst bbt_overflow_loop.simps) simp
  next
    case True
    then have e: "bad_in D s (i + 1) = ?bs @ [i]" using si by (simp add: bad_in_last)
    show ?thesis
    proof (cases "int (length ?bs) \<le> ofs")
      case True
      then have "min (nat ofs) (length ?bs) = length ?bs" by linarith
      then show ?thesis
        using True \<open>bbt_block_is_bad D (word_of_int i)\<close> e by (subst bbt_overflow_loop.simps) simp
    next
      case False
      then have "?bs \<noteq> []" "min (nat ofs) (length ?bs) = nat ofs" "min (nat ofs) (length ?bs - 1) = nat ofs"
        "nat ofs < length ?bs" using assms(1) by auto
      then show ?thesis
        using Suc(1) [of "i - 1"] si False \<open>bbt_block_is_bad D (word_of_int i)\<close> e
        by (subst bbt_overflow_loop.simps) (simp add: nth_append)
    qed
  qed
qed

section \<open>The mapping\<close>

text \<open>The blocks of the remap range an address lies in.\<close>

definition block_range :: "'m bmt_desc \<Rightarrow> int \<Rightarrow> int \<Rightarrow> int \<Rightarrow> bool" where
  "block_range D b s e \<longleftrightarrow> (\<exists>S E. mapping_block_in_range D b = Some (S, E) \<and>
     s = drop_bit (unat (blk_shift D)) S \<and> e = drop_bit (unat (blk_shift D)) E)"

lemma get_mapping_layout:
  assumes r: "block_range D b s e" and b: "s \<le> b" "b < e"
  shows "get_mapping_block_index_bbt D b = Some (bbt_layout D s e ! nat (b - s))"
proof -
  let ?o = "nat (b - s)" and ?g = "good_in D s e" and ?b = "bad_in D s e"
  have k: "nat (e - s) = length ?g + length ?b" using length_layout [of D s e] by (simp add: bbt_layout_def)
  have l: "?o < length ?g + length ?b" unfolding k [symmetric] using b by simp
  have "0 \<le> b - s" "s \<le> e" using b by simp_all
  from skip_loop [OF this, of D 0] obtain n where sk: "bbt_skip_loop D s e 0 (b - s) =
     (if ?o < length ?g then (?g ! ?o, n, 0) else (e, 0 + int (length ?b), (b - s) - int (length ?g)))"
    by blast
  have g: "get_mapping_block_index_bbt D b = (case bbt_skip_loop D s e 0 (b - s) of (i, bad_blocks, ofs) \<Rightarrow>
      if i < e then Some i else bbt_overflow_loop D b (e - 1) bad_blocks ofs)"
    using r by (auto simp: get_mapping_block_index_bbt_def block_range_def Let_def)
  show ?thesis
  proof (cases "?o < length ?g")
    case True
    then have "?g ! ?o < e" using nth_mem [OF True] by (auto simp: good_in_def)
    then show ?thesis using True by (simp add: g sk bbt_layout_def nth_append)
  next
    case False
    then have ne: "bad_in D s (e - 1 + 1) \<noteq> []" using l by auto
    have m: "min (nat (b - s - int (length ?g))) (length ?b - 1) = ?o - length ?g" using l False b by linarith
    have "bbt_overflow_loop D b (e - 1) (int (length ?b)) (b - s - int (length ?g)) = Some (?b ! (?o - length ?g))"
      using overflow_loop [OF _ ne, of "b - s - int (length ?g)" b] False b m
      by (simp add: nat_diff_distrib)
    then show ?thesis using False by (simp add: g sk bbt_layout_def nth_append)
  qed
qed

section \<open>Marking blocks\<close>

definition marked_buf :: "'m bmt_desc \<Rightarrow> u16 \<Rightarrow> bool \<Rightarrow> u8 list" where
  "marked_buf D p bad = (bbt_buf D)[unat (p div 4) :=
     if bad then bbt_buf D ! unat (p div 4) OR push_bit (2 * unat (p mod 4)) 3
     else bbt_buf D ! unat (p div 4) AND NOT (push_bit (2 * unat (p mod 4)) 3)]"

lemma set_state_accessed: "accessed (D\<lparr>bbt_buf := marked_buf D p bad\<rparr>) (bbt_set_block_state D p bad)"
proof -
  obtain r E where e: "bbt_nand_erase (D\<lparr>bbt_buf := marked_buf D p bad\<rparr>) (bmt_blk_idx D) = (r, E)" by fastforce
  obtain r' F where w: "write_bmt E (bmt_blk_idx E) (bbt_buf E) = (r', F)" by fastforce
  have "bbt_set_block_state D p bad = F"
    using e w by (simp add: bbt_set_block_state_def Let_def flip: marked_buf_def)
  then show ?thesis using accessed_trans [OF erase_accessed [OF e] write_bmt_accessed [OF w]] by simp
qed

lemma set_state_same_desc: "same_desc D (bbt_set_block_state D p bad)"
  by (rule same_desc_trans [OF _ accessed_same [OF set_state_accessed]]) (simp add: same_desc_def marked_buf_def)

lemma set_state_buf: "bbt_buf (bbt_set_block_state D p bad) = marked_buf D p bad"
  using accessed_tables [OF set_state_accessed [of D p bad]] by simp

lemma cell_mask:
  fixes x :: u8
  assumes "i < 4" "j < 4"
  shows "(x OR push_bit (2 * i) 3) AND push_bit (2 * j) 3 \<noteq> 0 \<longleftrightarrow> i = j \<or> x AND push_bit (2 * j) 3 \<noteq> 0"
    and "(x AND NOT (push_bit (2 * i) 3)) AND push_bit (2 * j) 3 \<noteq> 0 \<longleftrightarrow> i \<noteq> j \<and> x AND push_bit (2 * j) 3 \<noteq> 0"
proof -
  have ij: "i = 0 \<or> i = 1 \<or> i = 2 \<or> i = 3" "j = 0 \<or> j = 1 \<or> j = 2 \<or> j = 3" using assms by linarith+
  have m: "push_bit (2 * i) (3 :: u8) AND push_bit (2 * j) 3 = (if i = j then push_bit (2 * j) 3 else 0)"
    "push_bit (2 * j) (3 :: u8) \<noteq> 0"
    using ij by (elim disjE; simp)+
  have "(x OR push_bit (2 * i) 3) AND push_bit (2 * j) 3 = x AND push_bit (2 * j) 3 OR (if i = j then push_bit (2 * j) 3 else 0)"
    by (simp add: bit.conj_disj_distrib2 m)
  then show "(x OR push_bit (2 * i) 3) AND push_bit (2 * j) 3 \<noteq> 0 \<longleftrightarrow> i = j \<or> x AND push_bit (2 * j) 3 \<noteq> 0"
    using m(2) by auto
  have n: "NOT (push_bit (2 * i) (3 :: u8)) AND push_bit (2 * j) 3 = (if i = j then 0 else push_bit (2 * j) 3)"
    using ij by (elim disjE) simp_all
  show "(x AND NOT (push_bit (2 * i) 3)) AND push_bit (2 * j) 3 \<noteq> 0 \<longleftrightarrow> i \<noteq> j \<and> x AND push_bit (2 * j) 3 \<noteq> 0"
    by (simp add: and.assoc n)
qed

lemma cell_unique: "(p :: u16) div 4 = q div 4 \<Longrightarrow> p mod 4 = q mod 4 \<Longrightarrow> p = q"
  by (metis word_mod_div_equality mod_div_decomp)

text \<open>The table is an array of marks.\<close>

lemma is_bad_set:
  assumes "unat (p div 4) < length (bbt_buf D)"
  shows "bbt_block_is_bad (bbt_set_block_state D p bad) q = (if q = p then bad else bbt_block_is_bad D q)"
proof (cases "p div 4 = q div 4")
  case True
  define k where "k = unat (q div 4)"
  have k: "unat (p div 4) = k" using True by (simp add: k_def)
  have l: "unat (p mod 4) < 4" "unat (q mod 4) < 4" by (simp_all add: unat_mod)
  have i: "unat (p mod 4) = unat (q mod 4) \<longleftrightarrow> q = p"
    using cell_unique [OF True] by (metis word_unat_eq_iff)
  have h: "bbt_block_is_bad (bbt_set_block_state D p bad) q \<longleftrightarrow>
    (if bad then bbt_buf D ! k OR push_bit (2 * unat (p mod 4)) 3
     else bbt_buf D ! k AND NOT (push_bit (2 * unat (p mod 4)) 3)) AND push_bit (2 * unat (q mod 4)) 3 \<noteq> 0"
    using assms by (simp only: bbt_block_is_bad_def set_state_buf marked_buf_def k k_def [symmetric] nth_list_update_eq)
  have hq: "bbt_block_is_bad D q \<longleftrightarrow> bbt_buf D ! k AND push_bit (2 * unat (q mod 4)) 3 \<noteq> 0"
    by (simp only: bbt_block_is_bad_def k_def)
  show ?thesis
    unfolding h hq
    by (cases bad) (simp_all only: if_True if_False cell_mask [OF l] i, (cases "q = p"; simp only: simp_thms if_True if_False)+)
next
  case False
  then have "q \<noteq> p" by blast
  moreover have "unat (p div 4) \<noteq> unat (q div 4)" using False by (metis word_unat_eq_iff)
  ultimately show ?thesis by (simp only: bbt_block_is_bad_def set_state_buf marked_buf_def nth_list_update_neq) simp
qed

lemma is_bad_accessed: "accessed D E \<Longrightarrow> bbt_block_is_bad E q = bbt_block_is_bad D q"
  using accessed_tables [of D E] by (simp add: bbt_block_is_bad_def)

text \<open>A range of blocks that is handled as one by the format, inside the table.\<close>

definition remap_area :: "'m bmt_desc \<Rightarrow> int \<Rightarrow> int \<Rightarrow> bool" where
  "remap_area D s e \<longleftrightarrow> 0 \<le> s \<and> e \<le> 65536 \<and> (\<forall>b. s \<le> b \<and> b < e \<longrightarrow> block_range D b s e \<and> nat b div 4 < length (bbt_buf D))"

lemma remap_area_mapping:
  "remap_area D s e \<Longrightarrow> s \<le> b \<Longrightarrow> b < e \<Longrightarrow>
   get_mapping_block_index_bbt D b = Some (bbt_layout D s e ! nat (b - s))"
  by (rule get_mapping_layout) (auto simp: remap_area_def)

lemma remap_area_same: "same_desc D E \<Longrightarrow> remap_area D s e \<Longrightarrow> remap_area E s e"
  using in_range_same [of D E] by (auto simp: remap_area_def block_range_def same_descD [of D E])

lemma word_of_int_block: "0 \<le> i \<Longrightarrow> i < 65536 \<Longrightarrow> unat (word_of_int i :: u16) = nat i"
  by (simp add: unat_eq_nat_uint uint_word_of_int)

lemma word_of_int_inj: "0 \<le> i \<Longrightarrow> i < 65536 \<Longrightarrow> 0 \<le> j \<Longrightarrow> j < 65536 \<Longrightarrow> (word_of_int i :: u16) = word_of_int j \<longleftrightarrow> i = j"
  using word_of_int_block [of i] word_of_int_block [of j] by auto

lemma is_bad_mark:
  assumes "remap_area D s e" "s \<le> q" "q < e" "s \<le> i" "i < e"
  shows "bbt_block_is_bad (bbt_set_block_state D (word_of_int q) bad) (word_of_int i)
    = (if i = q then bad else bbt_block_is_bad D (word_of_int i))"
proof -
  have q: "0 \<le> q" "q < 65536" "0 \<le> i" "i < 65536" "nat q div 4 < length (bbt_buf D)" using assms by (auto simp: remap_area_def)
  then have "unat (word_of_int q div 4 :: u16) < length (bbt_buf D)" by (simp add: unat_div word_of_int_block)
  then show ?thesis using q by (simp add: is_bad_set word_of_int_inj)
qed

text \<open>A good block that is marked leaves the good blocks and joins the bad ones.\<close>

lemma good_in_mark:
  assumes "remap_area D s e" "q \<in> set (good_in D s e)"
  shows "good_in (bbt_set_block_state D (word_of_int q) True) s e = removeAll q (good_in D s e)"
proof -
  have q: "s \<le> q" "q < e" using assms(2) by (auto simp: good_in_def)
  have "filter (\<lambda>i. \<not> bbt_block_is_bad (bbt_set_block_state D (word_of_int q) True) (word_of_int i)) [s..e - 1]
    = filter (\<lambda>i. q \<noteq> i \<and> \<not> bbt_block_is_bad D (word_of_int i)) [s..e - 1]"
    by (rule filter_cong [OF refl]) (use is_bad_mark [OF assms(1) q] in auto)
  then show ?thesis by (simp add: good_in_def removeAll_filter_not_eq conj_commute)
qed

lemma removeAll_nth:
  "distinct xs \<Longrightarrow> k < length xs \<Longrightarrow> removeAll (xs ! k) xs = take k xs @ drop (Suc k) xs"
proof (induction xs arbitrary: k)
  case (Cons x xs)
  then show ?case by (cases k) (auto simp: removeAll_id)
qed simp

lemma bad_in_mark:
  assumes a: "remap_area D s e" and q: "q \<in> set (good_in D s e)"
  shows "bad_in (bbt_set_block_state D (word_of_int q) True) s e = insort q (bad_in D s e)"
proof (rule sorted_distinct_set_unique)
  have r: "s \<le> q" "q < e" "\<not> bbt_block_is_bad D (word_of_int q)" using q by (auto simp: good_in_def)
  show "sorted (insort q (bad_in D s e))" "distinct (insort q (bad_in D s e))"
    using r by (auto simp: sorted_insort bad_in_def distinct_insort intro: sorted_wrt_filter)
  show "sorted (bad_in (bbt_set_block_state D (word_of_int q) True) s e)"
    by (auto simp: bad_in_def intro: sorted_wrt_filter)
  show "distinct (bad_in (bbt_set_block_state D (word_of_int q) True) s e)"
    by (simp add: bad_in_def)
  show "set (bad_in (bbt_set_block_state D (word_of_int q) True) s e) = set (insort q (bad_in D s e))"
    using r is_bad_mark [OF a r(1,2)] by (auto simp: bad_in_def set_insort_key)
qed

text \<open>The mapping after the block of a logic block has been marked: nothing changes below it, the
  logic blocks that have a good block after theirs take that one, and the rest of the range is mapped
  to the bad blocks, the new one among them.\<close>

definition shifted_mapping :: "'m bmt_desc \<Rightarrow> int \<Rightarrow> int \<Rightarrow> int \<Rightarrow> int \<Rightarrow> int \<Rightarrow> int option" where
  "shifted_mapping D s e block p b =
     (if b < block then get_mapping_block_index_bbt D b
      else if nat (b + 1 - s) < length (good_in D s e) then get_mapping_block_index_bbt D (b + 1)
      else Some (insort p (bad_in D s e) ! (nat (b + 1 - s) - length (good_in D s e))))"

lemma mark_shifts:
  assumes a: "remap_area D s e" and b: "s \<le> b" "nat (b - s) < length (good_in D s e)"
    and p: "get_mapping_block_index_bbt D b = Some p" and b': "s \<le> b'" "b' < e"
  shows "get_mapping_block_index_bbt (bbt_set_block_state D (word_of_int p) True) b' = shifted_mapping D s e b p b'"
proof -
  let ?g = "good_in D s e" and ?k = "nat (b - s)" and ?j = "nat (b' - s)"
  let ?E = "bbt_set_block_state D (word_of_int p) True"
  have le: "length ?g \<le> nat (e - s)" using length_layout [of D s e] by (simp add: bbt_layout_def)
  have be: "b < e" using b le by linarith
  have pg: "p = ?g ! ?k" using remap_area_mapping [OF a b(1) be] p b(2) by (simp add: bbt_layout_def nth_append)
  then have pin: "p \<in> set ?g" using b(2) by simp
  have d: "distinct ?g" by (simp add: good_in_def)
  have lay: "bbt_layout ?E s e = (take ?k ?g @ drop (Suc ?k) ?g) @ insort p (bad_in D s e)"
    unfolding bbt_layout_def good_in_mark [OF a pin] bad_in_mark [OF a pin] using removeAll_nth [OF d b(2)] by (simp add: pg)
  have "remap_area ?E s e" by (rule remap_area_same [OF set_state_same_desc a])
  then have m: "get_mapping_block_index_bbt ?E b' = Some (bbt_layout ?E s e ! ?j)" by (rule remap_area_mapping [OF _ b'])
  have old: "get_mapping_block_index_bbt D i = Some (?g ! nat (i - s))" if "s \<le> i" "nat (i - s) < length ?g" for i
    using remap_area_mapping [OF a that(1)] that le by (simp add: bbt_layout_def nth_append)
  consider "b' < b" | "b \<le> b'" "Suc ?j < length ?g" | "b \<le> b'" "length ?g \<le> Suc ?j" by linarith
  then show ?thesis
  proof cases
    case 1
    then have "?j < ?k" using b' by simp
    then show ?thesis using 1 b(2) old [OF b'(1)] by (simp add: m lay shifted_mapping_def nth_append)
  next
    case 2
    have "nat (b' + 1 - s) = Suc ?j" "?k \<le> ?j" using 2 b' b by linarith+
    then show ?thesis
      using 2 b' b(2) old [of "b' + 1"] by (simp add: m lay shifted_mapping_def nth_append less_diff_conv)
  next
    case 3
    have "nat (b' + 1 - s) = Suc ?j" "?k \<le> ?j" using 3 b' b by linarith+
    then show ?thesis
      using 3 b(2) by (simp add: m lay shifted_mapping_def nth_append)
  qed
qed

section \<open>Remapping\<close>

lemma layout_same_marks:
  "(\<And>q. bbt_block_is_bad E q = bbt_block_is_bad D q) \<Longrightarrow> bbt_layout E s e = bbt_layout D s e"
  by (simp add: bbt_layout_def good_in_def bad_in_def)

lemma get_mapping_accessed:
  assumes "remap_area D s e" "accessed D E" "s \<le> b" "b < e"
  shows "get_mapping_block_index_bbt E b = get_mapping_block_index_bbt D b"
  using remap_area_mapping [OF assms(1,3,4)] remap_area_mapping [OF remap_area_same [OF accessed_same [OF assms(2)] assms(1)] assms(3,4)]
    layout_same_marks [of E D, OF is_bad_accessed [OF assms(2)]] by simp

lemma remap_bbt_eq:
  assumes "mapping_block_in_range D (uint block) = Some r"
    and "get_mapping_block_index_bbt (bbt_set_block_state D p True) (uint block) = Some q"
  shows "remap_block_bbt D block p copy_len = Some (True, moved_to (bbt_set_block_state D p True) (word_of_int q) p copy_len)"
  using assms by (simp add: remap_block_bbt_def moved_to_def Let_def split: prod.splits)

lemma remap_bbt_shifts:
  assumes a: "remap_area D s e" and b: "s \<le> uint block" "nat (uint block - s) < length (good_in D s e)"
    and p: "get_mapping_block_index_bbt D (uint block) = Some p"
  shows "\<exists>q E. shifted_mapping D s e (uint block) p (uint block) = Some q \<and>
    remap_block_bbt D block (word_of_int p) copy_len = Some (True, E) \<and>
    E = moved_to (bbt_set_block_state D (word_of_int p) True) (word_of_int q) (word_of_int p) copy_len \<and>
    (\<forall>b'. s \<le> b' \<and> b' < e \<longrightarrow> get_mapping_block_index_bbt E b' = shifted_mapping D s e (uint block) p b')"
proof -
  let ?E = "bbt_set_block_state D (word_of_int p) True"
  have e: "uint block < e" using b length_layout [of D s e] by (simp add: bbt_layout_def)
  have a': "remap_area ?E s e" by (rule remap_area_same [OF set_state_same_desc a])
  have m: "get_mapping_block_index_bbt ?E b' = shifted_mapping D s e (uint block) p b'" if "s \<le> b'" "b' < e" for b'
    by (rule mark_shifts [OF a b p that])
  obtain q where q: "get_mapping_block_index_bbt ?E (uint block) = Some q"
    using remap_area_mapping [OF a' b(1) e] by simp
  from a b e have "block_range D (uint block) s e" by (simp add: remap_area_def)
  then obtain r where r: "mapping_block_in_range D (uint block) = Some r" by (auto simp: block_range_def)
  have "get_mapping_block_index_bbt (moved_to ?E (word_of_int q) (word_of_int p) copy_len) b' = shifted_mapping D s e (uint block) p b'"
    if "s \<le> b'" "b' < e" for b'
    using get_mapping_accessed [OF a' moved_to_accessed that] m [OF that] by simp
  moreover have "shifted_mapping D s e (uint block) p (uint block) = Some q" using m [OF b(1) e] q by simp
  ultimately show ?thesis using remap_bbt_eq [OF r q] by blast
qed

text \<open>Without a remap range the range has no block at all.\<close>

lemma no_range_identity:
  assumes "remap_range D = None" "16 \<le> blk_shift D"
  shows "get_mapping_block_index_bbt D b = Some b"
proof -
  have "(2 :: int) ^ 16 \<le> 2 ^ unat (blk_shift D)" using assms(2) by (intro power_increasing) (auto simp: word_le_nat_alt)
  then have "uint (total_blks D) div 2 ^ unat (blk_shift D) = 0"
    using uint_lt2p [of "total_blks D"] by (intro div_pos_pos_trivial) auto
  then have "drop_bit (unat (blk_shift D)) (uint (total_blks D)) = 0" by (simp add: drop_bit_eq_div)
  then show ?thesis using assms(1)
    by (simp add: get_mapping_block_index_bbt_def in_range_none bbt_skip_loop.simps bbt_overflow_loop.simps)
qed

lemma remap_bbt_no_range:
  assumes "remap_range D = None" "16 \<le> blk_shift D"
  shows "remap_block_bbt D block p copy_len = Some (True, moved_to (bbt_set_block_state D p True) block p copy_len)"
proof -
  let ?E = "bbt_set_block_state D p True"
  have "get_mapping_block_index_bbt ?E (uint block) = Some (uint block)"
    by (rule no_range_identity) (simp_all add: assms same_descD [OF set_state_same_desc [of D p True]])
  from remap_bbt_eq [OF in_range_none [OF assms(1)] this] show ?thesis by simp
qed

section \<open>Loading the table\<close>

text \<open>Loading changes the driver's state, the table and the block it is kept in.\<close>

definition table_loaded :: "'m bmt_desc \<Rightarrow> 'm bmt_desc \<Rightarrow> bool" where
  "table_loaded D E \<longleftrightarrow> E\<lparr>nand := nand D, bbt_buf := bbt_buf D, bmt_blk_idx := bmt_blk_idx D\<rparr> = D"

lemma table_loaded_step: "table_loaded (D\<lparr>nand := m, bbt_buf := b\<rparr>) E \<Longrightarrow> table_loaded D E"
  by (cases D, cases E) (simp add: table_loaded_def)

lemma read_bbt_loop:
  assumes "read_bbt_loop D i oob = (ret, E)"
  shows "table_loaded D E \<and>
    (ret = 0 \<and> (\<exists>j. uint (total_blks D) - 5 \<le> j \<and> j \<le> i \<and> bmt_blk_idx E = word_of_int j) \<or> ret = - EIO)"
  using assms
proof (induction D i oob rule: read_bbt_loop.induct)
  case (1 D i oob)
  show ?case
  proof (cases "uint (total_blks D) - 5 \<le> i")
    case True
    let ?page = "push_bit (unat (blk_shift D) - unat (pg_shift D)) (word_of_int i) :: u32"
    obtain r dat oob' F where rd0: "bbt_nand_read D ?page (bbt_buf D) (ucast (pg_size D)) oob 8 = (r, dat, oob', F)"
      by (cases "bbt_nand_read D ?page (bbt_buf D) (ucast (pg_size D)) oob 8") auto
    define m where "m = nand F"
    have F: "F = D\<lparr>nand := m\<rparr>" unfolding m_def by (rule read_state [OF rd0])
    note rd = rd0 [unfolded F]
    let ?D = "D\<lparr>nand := m, bbt_buf := dat\<rparr>"
    have eq: "read_bbt_loop D i oob =
      (if r \<noteq> 0 \<or> oob' ! 0 \<noteq> 0xff \<or> slice 1 7 oob' \<noteq> bbt_sig then read_bbt_loop ?D (i - 1) oob'
       else (0, ?D\<lparr>bmt_blk_idx := word_of_int i\<rparr>))"
      using True rd by (subst read_bbt_loop.simps) (simp add: Let_def)
    show ?thesis
    proof (cases "r \<noteq> 0 \<or> oob' ! 0 \<noteq> 0xff \<or> slice 1 7 oob' \<noteq> bbt_sig")
      case again: True
      then have l: "read_bbt_loop ?D (i - 1) oob' = (ret, E)" using 1(4) by (simp only: eq if_True)
      have ih: "table_loaded ?D E \<and> (ret = 0 \<and> (\<exists>j. uint (total_blks ?D) - 5 \<le> j \<and> j \<le> i - 1 \<and> bmt_blk_idx E = word_of_int j) \<or> ret = - EIO)"
      proof -
        note ih = 1(1) [OF True refl refl rd [symmetric] refl refl refl _ l]
          1(2) [OF True refl refl rd [symmetric] refl refl refl _ _ l]
          1(3) [OF True refl refl rd [symmetric] refl refl refl _ _ _ l]
        consider (a) "r \<noteq> 0" | (b) "r = 0" "oob' ! 0 \<noteq> 0xff" | (c) "r = 0" "oob' ! 0 = 0xff" "slice 1 7 oob' \<noteq> bbt_sig"
          using again by blast
        then show ?thesis
        proof cases
          case a then show ?thesis by (rule ih(1))
        next
          case b then show ?thesis by (intro ih(2)) simp_all
        next
          case c then show ?thesis by (intro ih(3)) simp_all
        qed
      qed
      from ih have t: "table_loaded D E" by (blast intro: table_loaded_step)
      from ih have "ret = 0 \<and> (\<exists>j. uint (total_blks D) - 5 \<le> j \<and> j \<le> i - 1 \<and> bmt_blk_idx E = word_of_int j) \<or> ret = - EIO"
        by simp
      moreover have "j \<le> i" if "j \<le> i - 1" for j using that by simp
      ultimately show ?thesis using t by blast
    next
      case False
      then have "(ret, E) = (0, ?D\<lparr>bmt_blk_idx := word_of_int i\<rparr>)" using 1(4) by (simp only: eq if_False)
      then have "ret = 0" and E: "E = ?D\<lparr>bmt_blk_idx := word_of_int i\<rparr>" by (simp_all only: prod.inject)
      moreover have "table_loaded D E" unfolding E by (cases D) (simp add: table_loaded_def)
      moreover have "bmt_blk_idx E = word_of_int i" unfolding E by simp
      ultimately show ?thesis using True by blast
    qed
  next
    case False
    then show ?thesis using 1(4) by (subst (asm) read_bbt_loop.simps) (simp add: table_loaded_def)
  qed
qed

section \<open>The lookup on any block\<close>

text \<open>Blocks outside the range and ranges without blocks included: the lookup always returns, and what
  it returns depends on the marks only.\<close>

definition overflow_value :: "int list \<Rightarrow> int \<Rightarrow> int \<Rightarrow> int" where
  "overflow_value bs ofs block =
     (if bs = [] \<or> ofs < 0 then block else bs ! min (nat ofs) (length bs - 1))"

lemma overflow_loop_neg:
  assumes "ofs < 0"
  shows "bbt_overflow_loop D block i (int (length (bad_in D s (i + 1)))) ofs = Some block"
proof (induction "nat (i + 1 - s)" arbitrary: i)
  case 0
  then show ?case by (subst bbt_overflow_loop.simps) simp
next
  case (Suc k)
  then have si: "s \<le> i" "k = nat (i - 1 + 1 - s)" by auto
  from Suc(1) [OF si(2)] have ih: "bbt_overflow_loop D block (i - 1) (int (length (bad_in D s i))) ofs = Some block" by simp
  show ?case
    using ih assms by (subst bbt_overflow_loop.simps) (auto simp: bad_in_last [OF si(1)] bbt_overflow_loop.simps [of D block "i - 1" 0])
qed

lemma overflow_loop_value:
  "bbt_overflow_loop D block i (int (length (bad_in D s (i + 1)))) ofs = Some (overflow_value (bad_in D s (i + 1)) ofs block)"
proof (cases "bad_in D s (i + 1) = [] \<or> ofs < 0")
  case True
  then show ?thesis
  proof
    assume "bad_in D s (i + 1) = []"
    then show ?thesis by (subst bbt_overflow_loop.simps) (simp add: overflow_value_def)
  next
    assume "ofs < 0"
    then show ?thesis using overflow_loop_neg by (simp add: overflow_value_def)
  qed
next
  case False
  then show ?thesis using overflow_loop [of ofs D s i block] by (simp add: overflow_value_def)
qed

lemma skip_loop_neg:
  "ofs < 0 \<Longrightarrow> i \<le> e \<Longrightarrow> bbt_skip_loop D i e b ofs = (e, b + int (length (bad_in D i e)), ofs - int (length (good_in D i e)))"
proof (induction D i e b ofs rule: bbt_skip_loop.induct)
  case (1 D i e b ofs)
  consider (out) "i = e" | (bad) "i < e" "bbt_block_is_bad D (word_of_int i)" | (skip) "i < e" "\<not> bbt_block_is_bad D (word_of_int i)"
    using 1(4) by linarith
  then show ?case
  proof cases
    case out
    then show ?thesis by (simp add: bbt_skip_loop.simps)
  next
    case bad
    then show ?thesis using 1(1) [OF bad] 1(3) by (subst bbt_skip_loop.simps) (simp add: in_step)
  next
    case skip
    then show ?thesis using 1(2) [OF skip] 1(3) by (subst bbt_skip_loop.simps) (simp add: in_step)
  qed
qed

lemma get_mapping_value:
  "get_mapping_block_index_bbt D block = Some
    (case mapping_block_in_range D block of
       None \<Rightarrow> block
     | Some (s, e) \<Rightarrow>
         let s = drop_bit (unat (blk_shift D)) s;
             e = drop_bit (unat (blk_shift D)) e;
             ofs = block - s
         in if 0 \<le> ofs \<and> nat ofs < length (good_in D s e) then good_in D s e ! nat ofs
            else if s \<le> e then overflow_value (bad_in D s e) (ofs - int (length (good_in D s e))) block else block)"
proof (cases "mapping_block_in_range D block")
  case None
  then show ?thesis by (simp add: get_mapping_block_index_bbt_def)
next
  case (Some r)
  obtain S E where r: "r = (S, E)" by fastforce
  define s where "s = drop_bit (unat (blk_shift D)) S"
  define e where "e = drop_bit (unat (blk_shift D)) E"
  let ?o = "block - s" and ?g = "good_in D s e" and ?b = "bad_in D s e"
  have g: "get_mapping_block_index_bbt D block = (case bbt_skip_loop D s e 0 ?o of (i, bad_blocks, ofs) \<Rightarrow>
      if i < e then Some i else bbt_overflow_loop D block (e - 1) bad_blocks ofs)"
    unfolding s_def e_def using Some by (simp only: get_mapping_block_index_bbt_def r option.case prod.case Let_def)
  have over: "bbt_overflow_loop D block (e - 1) (int (length ?b)) ofs = Some (overflow_value ?b ofs block)" for ofs
    using overflow_loop_value [of D block "e - 1" s ofs] by simp
  have "get_mapping_block_index_bbt D block = Some
    (if 0 \<le> ?o \<and> nat ?o < length ?g then ?g ! nat ?o
     else if s \<le> e then overflow_value ?b (?o - int (length ?g)) block else block)"
  proof (cases "s \<le> e")
    case False
    then show ?thesis by (simp add: g bbt_skip_loop.simps bbt_overflow_loop.simps)
  next
    case True
    show ?thesis
    proof (cases "0 \<le> ?o")
      case False
      then show ?thesis using skip_loop_neg [of ?o s e D 0] True over by (simp add: g)
    next
      case o: True
      obtain n where sk: "bbt_skip_loop D s e 0 ?o =
         (if nat ?o < length ?g then (?g ! nat ?o, n, 0) else (e, 0 + int (length ?b), ?o - int (length ?g)))"
        using skip_loop [OF o True, of D 0] by blast
      have "?g ! nat ?o < e" if "nat ?o < length ?g" using nth_mem [OF that] by (auto simp: good_in_def)
      then show ?thesis using True o over by (simp add: g sk)
    qed
  qed
  then show ?thesis by (simp add: Some r Let_def flip: s_def e_def)
qed

lemma get_mapping_marks:
  assumes "same_desc D E" "\<And>q. bbt_block_is_bad E q = bbt_block_is_bad D q"
  shows "get_mapping_block_index_bbt E b = get_mapping_block_index_bbt D b"
proof -
  have "good_in E = good_in D" "bad_in E = bad_in D" by (simp_all add: fun_eq_iff good_in_def bad_in_def assms(2))
  then show ?thesis
    unfolding get_mapping_value in_range_same [OF assms(1)] same_descD(8) [OF assms(1)] by (simp only:)
qed

lemma remap_bbt_returns: "\<exists>ok E. remap_block_bbt D block p copy_len = Some (ok, E) \<and> same_desc D E"
proof (cases "mapping_block_in_range D (uint block)")
  case None
  then show ?thesis by (auto simp: remap_block_bbt_def)
next
  case (Some r)
  obtain q where "get_mapping_block_index_bbt (bbt_set_block_state D p True) (uint block) = Some q"
    unfolding get_mapping_value by blast
  from remap_bbt_eq [OF Some this] show ?thesis
    using same_desc_trans [OF set_state_same_desc accessed_same [OF moved_to_accessed]] by fastforce
qed

section \<open>The format under the layer\<close>

interpretation bbt: bmt_backend mtk_bmt_bbt_ops
proof unfold_locales
  show "\<exists>b'. bops_get_mapping_block mtk_bmt_bbt_ops D b = Some b'" for D :: "'a bmt_desc" and b
    by (simp add: mtk_bmt_bbt_ops_def get_mapping_value)
  show "\<exists>ok E. bops_remap_block mtk_bmt_bbt_ops D block p l = Some (ok, E) \<and> same_desc D E" for D :: "'a bmt_desc" and block p l
    by (simp add: mtk_bmt_bbt_ops_def remap_bbt_returns)
  show "same_desc D (bops_unmap_block mtk_bmt_bbt_ops D block)" for D :: "'a bmt_desc" and block
    by (simp add: mtk_bmt_bbt_ops_def unmap_block_bbt_def set_state_same_desc)
  show "bops_get_mapping_block mtk_bmt_bbt_ops E b = bops_get_mapping_block mtk_bmt_bbt_ops D b" if "accessed D E" for D E :: "'a bmt_desc" and b
    using get_mapping_marks [OF accessed_same [OF that] is_bad_accessed [OF that]] by (simp add: mtk_bmt_bbt_ops_def)
qed

lemma init_bbt_keeps: "mtk_bmt_init_bbt alloc_fails D = (ret, E) \<Longrightarrow> attach_keeps D E"
proof -
  have read: "attach_keeps F G" if "mtk_bmt_read_bbt F = (r, G)" for F G :: "'a bmt_desc" and r
  proof -
    have "table_loaded F G" using read_bbt_loop that unfolding mtk_bmt_read_bbt_def by blast
    then have "attach_keeps F (G\<lparr>nand := nand F, bbt_buf := bbt_buf F, bmt_blk_idx := bmt_blk_idx F\<rparr>)" by (simp add: table_loaded_def)
    then show ?thesis by simp
  qed
  assume "mtk_bmt_init_bbt alloc_fails D = (ret, E)"
  then show ?thesis
    by (auto simp: mtk_bmt_init_bbt_def Let_def attach_keeps_def split: if_splits prod.splits dest!: read)
qed

interpretation bbt_format: bmt_format mtk_bmt_bbt_ops
proof unfold_locales
  show "attach_keeps D E" if "bops_init mtk_bmt_bbt_ops t D = Some (ret, E)" for t ret and D E :: "'a bmt_desc"
    using that init_bbt_keeps by (simp add: mtk_bmt_bbt_ops_def)
qed

end
