(* ===== verification/Bmt_V2.thy ===== *)
theory Bmt_V2
  imports Bmt_Types
begin

text \<open>
  The table format \<open>mtk_bmt_v2.c\<close>: \<open>bb_tbl\<close> gives the physical block of every logic block, \<open>bmt_tbl\<close>
  the pool of spare blocks at the end of the chip, whose last entry in use says where the table itself
  is kept. Both are 16-bit integers in the byte buffer \<open>bbt_buf\<close>, as \<open>struct bbbt\<close> lays them out: three
  bytes of signature, one of version, \<open>table_size\<close> entries of \<open>bb_tbl\<close>, and the entries of \<open>bmt_tbl\<close>.
\<close>

section \<open>The tables\<close>

abbreviation (input) BBMT_VERSION :: u8 where "BBMT_VERSION \<equiv> 2"
abbreviation (input) NO_MAPPED :: u16 where "NO_MAPPED \<equiv> 0"
abbreviation (input) NORMAL_MAPPED :: u16 where "NORMAL_MAPPED \<equiv> 1"
abbreviation (input) BMT_MAPPED :: u16 where "BMT_MAPPED \<equiv> 2"
abbreviation (input) BBPOOL_RATIO :: nat where "BBPOOL_RATIO \<equiv> 2"

definition bb_tbl :: "'m bmt_desc \<Rightarrow> nat \<Rightarrow> u16" where
  "bb_tbl D i = get_le16 (bbt_buf D) (4 + 2 * i)"

definition set_bb_tbl :: "'m bmt_desc \<Rightarrow> nat \<Rightarrow> u16 \<Rightarrow> 'm bmt_desc" where
  "set_bb_tbl D i b = D\<lparr>bbt_buf := put_le16 (bbt_buf D) (4 + 2 * i) b\<rparr>"

text \<open>The offset of \<open>bmt_tbl[i]\<close>, a pair of \<open>block\<close> and \<open>mapped\<close>.\<close>

definition bmt_tbl :: "'m bmt_desc \<Rightarrow> nat \<Rightarrow> nat" where
  "bmt_tbl D i = 4 + 2 * unat (table_size D) + 4 * i"

definition bmt_block :: "'m bmt_desc \<Rightarrow> nat \<Rightarrow> u16" where
  "bmt_block D i = get_le16 (bbt_buf D) (bmt_tbl D i)"

definition bmt_mapped :: "'m bmt_desc \<Rightarrow> nat \<Rightarrow> u16" where
  "bmt_mapped D i = get_le16 (bbt_buf D) (bmt_tbl D i + 2)"

definition set_bmt_block :: "'m bmt_desc \<Rightarrow> nat \<Rightarrow> u16 \<Rightarrow> 'm bmt_desc" where
  "set_bmt_block D i b = D\<lparr>bbt_buf := put_le16 (bbt_buf D) (bmt_tbl D i) b\<rparr>"

definition set_bmt_mapped :: "'m bmt_desc \<Rightarrow> nat \<Rightarrow> u16 \<Rightarrow> 'm bmt_desc" where
  "set_bmt_mapped D i v = D\<lparr>bbt_buf := put_le16 (bbt_buf D) (bmt_tbl D i + 2) v\<rparr>"

section \<open>Scanning\<close>

text \<open>\<open>fdm\<close> is not initialised in C and only looked at after a read that succeeded.\<close>

function find_valid_block_loop :: "'m bmt_desc \<Rightarrow> u16 \<Rightarrow> int \<Rightarrow> u8 list \<Rightarrow> u16 \<times> 'm bmt_desc" where
  "find_valid_block_loop D block loop fdm =
     (if total_blks D \<le> block then (0, D)
      else
        let (ret, dat, fdm, D') = bbt_nand_read D (blk_pg D block) (data_buf D) (ucast (pg_size D)) fdm 4;
            D' = D'\<lparr>data_buf := dat\<rparr>
        in if ret \<noteq> 0 \<or> fdm ! 0 \<noteq> 0xff then
             if uint (bb_max D') \<le> loop then (0, D')
             else find_valid_block_loop D' (block + 1) (loop + 1) fdm
           else (block, D'))"
  by pat_completeness auto
termination
  by (relation "measure (\<lambda>(D, block, loop, fdm). nat (uint (bb_max D) + 1 - loop))")
    (auto dest!: read_same simp: same_descD(10))

declare find_valid_block_loop.simps [simp del]

definition find_valid_block :: "'m bmt_desc \<Rightarrow> u16 \<Rightarrow> u16 \<times> 'm bmt_desc" where
  "find_valid_block D block = find_valid_block_loop D block 0 (replicate 4 0)"

lemma find_valid_block_loop_result:
  "find_valid_block_loop D block loop fdm = (b, E) \<Longrightarrow>
   accessed D E \<and> (b = 0 \<or> block \<le> b \<and> b < total_blks D)"
proof (induction D block loop fdm rule: find_valid_block_loop.induct)
  case (1 D block loop fdm)
  show ?case
  proof (cases "total_blks D \<le> block")
    case True
    then show ?thesis using 1(2) by (simp add: find_valid_block_loop.simps)
  next
    case False
    obtain r dat fdm' F where rd: "bbt_nand_read D (blk_pg D block) (data_buf D) (ucast (pg_size D)) fdm 4 = (r, dat, fdm', F)"
      by (cases "bbt_nand_read D (blk_pg D block) (data_buf D) (ucast (pg_size D)) fdm 4") auto
    let ?D = "F\<lparr>data_buf := dat\<rparr>"
    have acc: "accessed D ?D" using read_accessed [OF rd] by simp
    have tot: "total_blks F = total_blks D" using accessed_same [OF acc] by (simp add: same_desc_def)
    have eq: "find_valid_block_loop D block loop fdm =
      (if r \<noteq> 0 \<or> fdm' ! 0 \<noteq> 0xff
       then if uint (bb_max ?D) \<le> loop then (0, ?D) else find_valid_block_loop ?D (block + 1) (loop + 1) fdm'
       else (block, ?D))"
      using False rd by (subst find_valid_block_loop.simps) (simp add: Let_def)
    show ?thesis
    proof (cases "(r \<noteq> 0 \<or> fdm' ! 0 \<noteq> 0xff) \<and> \<not> uint (bb_max ?D) \<le> loop")
      case True
      then have "find_valid_block_loop ?D (block + 1) (loop + 1) fdm' = (b, E)"
        using 1(2) unfolding eq by (simp only: if_True if_False)
      with 1(1) [OF False refl rd [symmetric] refl refl refl] True
      have *: "accessed ?D E \<and> (b = 0 \<or> block + 1 \<le> b \<and> b < total_blks ?D)" by auto
      have "unat (block + 1) = Suc (unat block)" using False by (intro unat_Suc_less [of _ "total_blks D"]) simp
      then have "block \<le> block + 1" by (simp add: word_le_nat_alt)
      with * have "b = 0 \<or> block \<le> b \<and> b < total_blks D" using tot by fastforce
      with * acc show ?thesis by (blast intro: accessed_trans)
    next
      case stop: False
      then have "b = 0 \<and> E = ?D \<or> b = block \<and> E = ?D"
        using 1(2) unfolding eq by (metis prod.inject)
      then show ?thesis
      proof
        assume "b = 0 \<and> E = ?D"
        then show ?thesis using acc by blast
      next
        assume "b = block \<and> E = ?D"
        then show ?thesis using acc False by (simp only: not_le order_refl simp_thms)
      qed
    qed
  qed
qed

lemma find_valid_block_result:
  assumes "find_valid_block D block = (b, E)"
  shows "accessed D E" and "b = 0 \<or> block \<le> b \<and> b < total_blks D"
  using find_valid_block_loop_result [OF assms [unfolded find_valid_block_def]] by simp_all

lemma same_set_tables [simp]:
  "same_desc D (set_bb_tbl D i b)" "same_desc D (set_bmt_block D i b)" "same_desc D (set_bmt_mapped D i b)"
  by (simp_all add: same_desc_def set_bb_tbl_def set_bmt_block_def set_bmt_mapped_def)

lemma find_valid_same: "(b, E) = find_valid_block D block \<Longrightarrow> same_desc D E"
  using find_valid_block_result(1) [OF sym] accessed_same by blast

text \<open>Filling \<open>bb_tbl\<close>; the last component is the loop variable when the loop is left.\<close>

function scan_main_loop :: "'m bmt_desc \<Rightarrow> nat \<Rightarrow> bool \<times> 'm bmt_desc \<times> nat" where
  "scan_main_loop D i =
     (if i < unat (pool_lba D) then
        let (b, D') = find_valid_block D (bb_tbl D (i - 1) + 1);
            D' = set_bb_tbl D' i b
        in if b = 0 then (False, D', i) else scan_main_loop D' (i + 1)
      else (True, D, i))"
  by pat_completeness auto
termination
proof (relation "measure (\<lambda>(D, i). unat (pool_lba D) - i)", simp)
  fix D :: "'m bmt_desc" and i x b D' D''
  assume "i < unat (pool_lba D)" "x = find_valid_block D (bb_tbl D (i - 1) + 1)" "(b, D') = x" "D'' = set_bb_tbl D' i b"
  then have "pool_lba D'' = pool_lba D"
    using same_descD(9) [OF same_desc_trans [OF find_valid_same same_set_tables(1)]] by blast
  then show "((D'', i + 1), (D, i)) \<in> measure (\<lambda>(D, i). unat (pool_lba D) - i)"
    using \<open>i < unat (pool_lba D)\<close> by simp
qed

text \<open>Filling \<open>bmt_tbl\<close>; the result is the number of blocks found.\<close>

function scan_pool_loop :: "'m bmt_desc \<Rightarrow> u16 \<Rightarrow> nat \<Rightarrow> nat \<times> 'm bmt_desc" where
  "scan_pool_loop D block i =
     (let (b, D') = find_valid_block D block
      in if b \<noteq> 0 then scan_pool_loop (set_bmt_mapped (set_bmt_block D' i b) i NO_MAPPED) (b + 1) (i + 1)
         else (i, D'))"
  by pat_completeness auto
termination
proof (relation "measure (\<lambda>(D, block, i). unat (total_blks D) - unat block)", simp)
  fix D :: "'m bmt_desc" and block i x b D'
  assume a: "x = find_valid_block D block" "(b, D') = x" "b \<noteq> 0"
  then have f: "find_valid_block D block = (b, D')" by simp
  let ?D = "set_bmt_mapped (set_bmt_block D' i b) i NO_MAPPED"
  have "same_desc D ?D"
    by (rule same_desc_trans [OF find_valid_same [OF f [symmetric]]], rule same_desc_trans [OF same_set_tables(2,3)])
  moreover have "block \<le> b" "b < total_blks D" using find_valid_block_result(2) [OF f] a(3) by auto
  ultimately show "((?D, b + 1, i + 1), (D, block, i)) \<in> measure (\<lambda>(D, block, i). unat (total_blks D) - unat block)"
    using unat_Suc_less [of b "total_blks D"] by (simp add: same_descD(11) word_le_nat_alt word_less_nat_alt)
qed

declare scan_main_loop.simps [simp del] scan_pool_loop.simps [simp del]

text \<open>\<open>bmt_blk_idx\<close> is stored in 16 bits before it is used as an index.\<close>

definition scan_bad_blocks :: "'m bmt_desc \<Rightarrow> int \<times> 'm bmt_desc" where
  "scan_bad_blocks D =
     (let D = set_bb_tbl D 0 0;
          (ok, D, i) = scan_main_loop D 1
      in if \<not> ok then (- 1, D)
         else
           let D = D\<lparr>pool_pba := bb_tbl D (i - 1) + 1\<rparr>
           in if uint (total_blks D) - 2 \<le> uint (pool_pba D) then (- 1, D)
              else
                let (i, D) = scan_pool_loop D (pool_pba D) 0;
                    D = D\<lparr>bmt_blk_idx := of_nat i - 1\<rparr>;
                    D = set_bmt_mapped D (unat (bmt_blk_idx D)) BMT_MAPPED
                in if i < 1 then (- 1, D) else (0, D))"

section \<open>The table on the chip\<close>

definition is_valid_bmt :: "u8 list \<Rightarrow> u8 list \<Rightarrow> bool" where
  "is_valid_bmt buf fdm \<longleftrightarrow> slice 0 3 buf = [0x42, 0x4d, 0x54] \<and> slice 1 3 fdm = [0x62, 0x6d, 0x74] \<and> buf ! 3 = BBMT_VERSION"

partial_function (option) get_bmt_index_loop :: "'m bmt_desc \<Rightarrow> nat \<Rightarrow> u16 option" where
  "get_bmt_index_loop D i =
     (if bmt_block D i \<noteq> 0 then
        if bmt_mapped D i = BMT_MAPPED then Some (of_nat i) else get_bmt_index_loop D (i + 1)
      else Some 0)"

definition get_bmt_index :: "'m bmt_desc \<Rightarrow> u16 option" where
  "get_bmt_index D = get_bmt_index_loop D 0"

definition sign_bmt :: "'m bmt_desc \<Rightarrow> 'm bmt_desc" where
  "sign_bmt D = D\<lparr>bbt_buf := (bbt_buf D)[0 := 0x42, 1 := 0x4d, 2 := 0x54, 3 := BBMT_VERSION]\<rparr>"

lemma same_sign [simp]: "same_desc D (sign_bmt D)"
  by (simp add: same_desc_def sign_bmt_def)

function upload_bmt :: "'m bmt_desc \<Rightarrow> int \<Rightarrow> u16 \<times> 'm bmt_desc" where
  "upload_bmt D n =
     (if n < 0 \<or> bmt_mapped D (nat n) = NORMAL_MAPPED then (- 1, D)
      else
        let block = bmt_block D (nat n);
            (r, D) = bbt_nand_erase D block
        in if r \<noteq> 0 then upload_bmt (set_bmt_block D (nat n) 0) (n - 1)
           else
             let D = sign_bmt D;
                 (r, D) = write_bmt D block (bbt_buf D)
             in if r \<noteq> 0 then upload_bmt (set_bmt_block D (nat n) 0) (n - 1)
                else (word_of_int n, D))"
  by pat_completeness auto
termination
  by (relation "measure (\<lambda>(D, n). nat (n + 1))") auto

declare upload_bmt.simps [simp del]

section \<open>Remapping\<close>

function pool_loop :: "'m bmt_desc \<Rightarrow> nat \<Rightarrow> u16 \<times> 'm bmt_desc" where
  "pool_loop D i =
     (if i < unat (bmt_blk_idx D) then
        if bmt_block D i \<noteq> 0 \<and> bmt_mapped D i = NO_MAPPED
        then let D = set_bmt_mapped D i NORMAL_MAPPED in (bmt_block D i, D)
        else pool_loop D (i + 1)
      else (0, D))"
  by pat_completeness auto
termination
  by (relation "measure (\<lambda>(D, i). unat (bmt_blk_idx D) - i)") auto

declare pool_loop.simps [simp del]

definition find_valid_block_in_pool :: "'m bmt_desc \<Rightarrow> u16 \<times> 'm bmt_desc" where
  "find_valid_block_in_pool D = (if bmt_blk_idx D = 0 then (0, D) else pool_loop D 0)"

definition reupload :: "'m bmt_desc \<Rightarrow> 'm bmt_desc" where
  "reupload D = (let (n, D) = upload_bmt D (uint (bmt_blk_idx D)) in D\<lparr>bmt_blk_idx := n\<rparr>)"

definition remap_block_v2 :: "'m bmt_desc \<Rightarrow> u16 \<Rightarrow> u16 \<Rightarrow> int \<Rightarrow> (bool \<times> 'm bmt_desc) option" where
  "remap_block_v2 D block mapped_block copy_len =
     (let (new_block, D) = find_valid_block_in_pool D
      in if new_block = 0 then Some (False, D)
         else
           let D = set_bb_tbl D (unat block) new_block;
               D = moved_to D new_block mapped_block copy_len
           in Some (True, reupload D))"

definition get_mapping_block_index_v2 :: "'m bmt_desc \<Rightarrow> int \<Rightarrow> int option" where
  "get_mapping_block_index_v2 D block = Some
     (if uint (pool_lba D) \<le> block then block
      else case mapping_block_in_range D block of
        None \<Rightarrow> block
      | Some _ \<Rightarrow> uint (bb_tbl D (nat block)))"

definition unmap_block_v2 :: "'m bmt_desc \<Rightarrow> u16 \<Rightarrow> 'm bmt_desc" where
  "unmap_block_v2 D block = reupload (set_bb_tbl D (unat block) block)"

section \<open>Debugging\<close>

definition main_blocks :: "'m bmt_desc \<Rightarrow> nat" where
  "main_blocks D = unat (drop_bit (unat (blk_shift D)) (m_size (bmt_mtd D)))"

text \<open>The bits set in the mask.\<close>

definition mtk_bmt_get_mapping_mask :: "'m bmt_desc \<Rightarrow> nat list" where
  "mtk_bmt_get_mapping_mask D =
     List.map_filter (\<lambda>i. if uint (bb_tbl D i) = int i then None
         else find (\<lambda>k. bb_tbl D i = bmt_block D k) [0..<unat (bmt_blk_idx D)])
       [1..<main_blocks D]"

text \<open>Command 100: entries marked as mapped that no block is mapped to become free again.\<close>

definition free_unused :: "nat list \<Rightarrow> 'm bmt_desc \<Rightarrow> nat \<Rightarrow> 'm bmt_desc" where
  "free_unused used D i =
     (if bmt_mapped D i \<noteq> NORMAL_MAPPED then D else if i \<in> set used then D else set_bmt_mapped D i NO_MAPPED)"

definition mtk_bmt_debug_v2 :: "bool \<Rightarrow> 'm bmt_desc \<Rightarrow> u64 \<Rightarrow> int \<times> 'm bmt_desc" where
  "mtk_bmt_debug_v2 alloc_fails D val =
     (if alloc_fails then (- ENOMEM, D)
      else if val = 100 then
        let used = mtk_bmt_get_mapping_mask D;
            entries = [0..<unat (bmt_blk_idx D) + 1];
            n_remap = length (filter (\<lambda>i. bmt_mapped D i = NORMAL_MAPPED \<and> i \<notin> set used) entries);
            D = foldl (free_unused used) D entries
        in (0, if n_remap \<noteq> 0 then reupload D else D)
      else (0, D))"

section \<open>Attaching\<close>

record bmt_v2_dt =
  dt_pool_size :: "u32 option"
  dt_oob_offset :: "u8 option"
  dt_table_size :: "u32 option"
  v2_alloc_fails :: bool

text \<open>The size of the buffer: \<open>sizeof (struct bbbt)\<close> and \<open>sizeof (struct bbmt)\<close> are 4.\<close>

definition v2_bufsz :: "u32 \<Rightarrow> u32 \<Rightarrow> u32" where
  "v2_bufsz table_sz page_sz = ucast (round_up (4 + ucast table_sz * 4) (ucast page_sz) :: u64)"

text \<open>Looking for a table from the last block of the chip downwards.\<close>

partial_function (option) v2_search_loop :: "'m bmt_desc \<Rightarrow> u16 \<Rightarrow> u32 \<Rightarrow> 'm bmt_desc option" where
  "v2_search_loop D block bufsz =
     (if \<not> bbt_found D \<and> pool_lba D \<le> block then
        let (ret, dat, fdm, D) = bbt_nand_read D (blk_pg D block) (bbt_buf D) (ucast bufsz) (replicate 4 0) 4;
            D = D\<lparr>bbt_buf := dat\<rparr>
        in if ret \<noteq> 0 then v2_search_loop D (block - 1) bufsz
           else if \<not> is_valid_bmt (bbt_buf D) fdm then v2_search_loop D (block - 1) bufsz
           else do {
             idx \<leftarrow> get_bmt_index D;
             let D = D\<lparr>bmt_blk_idx := idx\<rparr>;
             if idx = 0 then Some D
             else v2_search_loop (D\<lparr>bbt_found := True\<rparr>) (block - 1) bufsz
           }
      else Some D)"

text \<open>Clearing \<open>table_size\<close> entries of \<open>bmt_tbl\<close>, as far as they are inside the buffer.\<close>

definition clear_bmt_tbl :: "'m bmt_desc \<Rightarrow> 'm bmt_desc" where
  "clear_bmt_tbl D = D\<lparr>bbt_buf := map (\<lambda>k. if bmt_tbl D 0 \<le> k \<and> k < bmt_tbl D (unat (table_size D)) then 0
     else bbt_buf D ! k) [0..<length (bbt_buf D)]\<rparr>"

definition bmt_table_max :: "u32 \<Rightarrow> u32" where
  "bmt_table_max table_sz = table_sz * 2 div 100"

definition v2_sizes :: "bmt_v2_dt \<Rightarrow> 'm bmt_desc \<Rightarrow> 'm bmt_desc" where
  "v2_sizes dt D =
     (let pool_size = (case dt_pool_size dt of Some s \<Rightarrow> s | None \<Rightarrow> 80);
          offs = (case dt_oob_offset dt of Some s \<Rightarrow> s | None \<Rightarrow> 0);
          tsize = (case dt_table_size dt of Some s \<Rightarrow> s | None \<Rightarrow> 0x2000);
          pmt_block = ucast (ucast (total_blks D) - pool_size - 2) :: u16
      in D\<lparr>oob_offset := offs, table_size := tsize,
           bmt_mtd := (bmt_mtd D)\<lparr>m_size := scast (push_bit (unat (blk_shift D)) (ucast pmt_block) :: u32)\<rparr>,
           pool_lba := pmt_block + 2,
           bb_max := of_nat (unat (total_blks D) * BBPOOL_RATIO div 100),
           bmt_pgs := drop_bit (unat (pg_shift D)) (v2_bufsz tsize (pg_size D))\<rparr>)"

definition mtk_bmt_init_v2 :: "bmt_v2_dt \<Rightarrow> 'm bmt_desc \<Rightarrow> (int \<times> 'm bmt_desc) option" where
  "mtk_bmt_init_v2 dt D =
     (let D = v2_sizes dt D;
          bufsz = v2_bufsz (table_size D) (pg_size D)
      in if v2_alloc_fails dt then Some (- ENOMEM, D)
         else do {
           let D = D\<lparr>bbt_buf := replicate (unat bufsz) 0xff, bbt_found := False\<rparr>;
           D \<leftarrow> v2_search_loop D (total_blks D - 1) bufsz;
           if bbt_found D then Some (0, D)
           else if table_size D + bmt_table_max (table_size D) < ucast (total_blks D) then Some (- 1, D)
           else
             let D = clear_bmt_tbl (D\<lparr>bbt_found := True\<rparr>);
                 (r, D) = scan_bad_blocks D
             in if r \<noteq> 0 then Some (- 1, D)
                else
                  let D = reupload D
                  in Some (if bmt_blk_idx D = - 1 then - 1 else 0, D)
         })"

definition mtk_bmt_v2_ops :: "('m bmt_desc, bmt_v2_dt) mtk_bmt_ops" where
  "mtk_bmt_v2_ops =
     \<lparr>bops_sig = [0x62, 0x6d, 0x74], bops_init = mtk_bmt_init_v2, bops_remap_block = remap_block_v2,
      bops_unmap_block = unmap_block_v2, bops_get_mapping_block = get_mapping_block_index_v2,
      bops_debug = mtk_bmt_debug_v2\<rparr>"

end
