(* ===== verification/Bmt_V2_Table.thy ===== *)
theory Bmt_V2_Table
  imports Bmt_V2 Bmt_Service
begin

text \<open>
  What the operations of \<open>mtk_bmt_v2.c\<close> do to their tables: the byte buffer as two arrays, the
  invariant \<open>v2_inv\<close> (no two logic blocks share a physical block, and no entry of the pool that can
  still be handed out, nor the block of the table itself, is in use), that scanning a chip
  establishes it and remapping keeps it, and what is left of it when writing the table fails.
\<close>

section \<open>Two arrays in a buffer\<close>

definition v2_fits :: "'m bmt_desc \<Rightarrow> bool" where
  "v2_fits D \<longleftrightarrow> 1 \<le> pool_lba D \<and> unat (pool_lba D) \<le> unat (table_size D) \<and> pool_lba D \<le> total_blks D \<and>
     4 + 2 * unat (table_size D) + 4 * (unat (total_blks D) - unat (pool_lba D)) \<le> length (bbt_buf D)"

definition in_bb :: "'m bmt_desc \<Rightarrow> nat \<Rightarrow> bool" where
  "in_bb D i \<longleftrightarrow> i < unat (pool_lba D)"

definition in_pool :: "'m bmt_desc \<Rightarrow> nat \<Rightarrow> bool" where
  "in_pool D k \<longleftrightarrow> k < unat (total_blks D) - unat (pool_lba D)"

lemma fits_same: "same_desc D E \<Longrightarrow> v2_fits E = v2_fits D" "same_desc D E \<Longrightarrow> in_bb E i = in_bb D i"
  "same_desc D E \<Longrightarrow> in_pool E k = in_pool D k"
  by (simp_all add: v2_fits_def in_bb_def in_pool_def same_descD [of D E])

lemma table_size_set [simp]:
  "table_size (set_bb_tbl D i b) = table_size D" "table_size (set_bmt_block D i b) = table_size D"
  "table_size (set_bmt_mapped D i b) = table_size D" "table_size (sign_bmt D) = table_size D"
  by (simp_all add: set_bb_tbl_def set_bmt_block_def set_bmt_mapped_def sign_bmt_def)

lemma bmt_tbl_set [simp]:
  "bmt_tbl (set_bb_tbl D i b) = bmt_tbl D" "bmt_tbl (set_bmt_block D i b) = bmt_tbl D"
  "bmt_tbl (set_bmt_mapped D i b) = bmt_tbl D" "bmt_tbl (sign_bmt D) = bmt_tbl D"
  by (simp_all add: fun_eq_iff bmt_tbl_def)

lemma bb_tbl_set:
  assumes "v2_fits D" "in_bb D i"
  shows "bb_tbl (set_bb_tbl D i b) j = (if j = i then b else bb_tbl D j)"
proof (cases "j = i")
  case True
  then show ?thesis using assms by (simp add: bb_tbl_def set_bb_tbl_def v2_fits_def in_bb_def)
next
  case False
  then have "get_le16 (put_le16 (bbt_buf D) (4 + 2 * i) b) (4 + 2 * j) = get_le16 (bbt_buf D) (4 + 2 * j)"
    by (intro get_put_le16_other) arith
  then show ?thesis using False by (simp add: bb_tbl_def set_bb_tbl_def)
qed

lemma bb_tbl_set_pool [simp]:
  "j < unat (table_size D) \<Longrightarrow> bb_tbl (set_bmt_block D k b) j = bb_tbl D j"
  "j < unat (table_size D) \<Longrightarrow> bb_tbl (set_bmt_mapped D k b) j = bb_tbl D j"
  "bb_tbl (sign_bmt D) j = bb_tbl D j"
proof -
  have "get_le16 (put_le16 (bbt_buf D) (bmt_tbl D k) b) (4 + 2 * j) = get_le16 (bbt_buf D) (4 + 2 * j)"
    "get_le16 (put_le16 (bbt_buf D) (bmt_tbl D k + 2) b) (4 + 2 * j) = get_le16 (bbt_buf D) (4 + 2 * j)"
    if "j < unat (table_size D)"
    using that by (intro get_put_le16_other; simp add: bmt_tbl_def)+
  then show "bb_tbl (set_bmt_block D k b) j = bb_tbl D j" "bb_tbl (set_bmt_mapped D k b) j = bb_tbl D j"
    if "j < unat (table_size D)"
    using that by (simp_all add: bb_tbl_def set_bmt_block_def set_bmt_mapped_def)
qed (simp add: bb_tbl_def sign_bmt_def get_le16_def)

lemma pool_set_bb [simp]:
  "i < unat (table_size D) \<Longrightarrow> bmt_block (set_bb_tbl D i b) k = bmt_block D k"
  "i < unat (table_size D) \<Longrightarrow> bmt_mapped (set_bb_tbl D i b) k = bmt_mapped D k"
  by (simp_all add: bmt_block_def bmt_mapped_def) (simp_all add: set_bb_tbl_def bmt_tbl_def)

lemma pool_sign [simp]:
  "bmt_block (sign_bmt D) k = bmt_block D k" "bmt_mapped (sign_bmt D) k = bmt_mapped D k"
  by (simp_all add: bmt_block_def bmt_mapped_def) (simp_all add: sign_bmt_def bmt_tbl_def get_le16_def)

lemma pool_index: "v2_fits D \<Longrightarrow> in_pool D k \<Longrightarrow> bmt_tbl D k + 3 < length (bbt_buf D)"
  by (auto simp: v2_fits_def in_pool_def bmt_tbl_def)

lemma pool_set_block:
  assumes "v2_fits D" "in_pool D k"
  shows "bmt_block (set_bmt_block D k b) j = (if j = k then b else bmt_block D j)"
    "bmt_mapped (set_bmt_block D k b) j = bmt_mapped D j"
proof -
  have o: "get_le16 (put_le16 (bbt_buf D) (bmt_tbl D k) b) (bmt_tbl D j) = get_le16 (bbt_buf D) (bmt_tbl D j)" if "j \<noteq> k"
    using that by (intro get_put_le16_other) (simp add: bmt_tbl_def, arith)
  show "bmt_block (set_bmt_block D k b) j = (if j = k then b else bmt_block D j)"
    using pool_index [OF assms] o by (simp add: bmt_block_def) (simp add: set_bmt_block_def)
  have "get_le16 (put_le16 (bbt_buf D) (bmt_tbl D k) b) (bmt_tbl D j + 2) = get_le16 (bbt_buf D) (bmt_tbl D j + 2)"
    by (intro get_put_le16_other) (simp add: bmt_tbl_def, arith)
  then show "bmt_mapped (set_bmt_block D k b) j = bmt_mapped D j"
    by (simp add: bmt_mapped_def) (simp add: set_bmt_block_def)
qed

lemma pool_set_mapped:
  assumes "v2_fits D" "in_pool D k"
  shows "bmt_mapped (set_bmt_mapped D k b) j = (if j = k then b else bmt_mapped D j)"
    "bmt_block (set_bmt_mapped D k b) j = bmt_block D j"
proof -
  have o: "get_le16 (put_le16 (bbt_buf D) (bmt_tbl D k + 2) b) (bmt_tbl D j + 2) = get_le16 (bbt_buf D) (bmt_tbl D j + 2)" if "j \<noteq> k"
    using that by (intro get_put_le16_other) (simp add: bmt_tbl_def, arith)
  show "bmt_mapped (set_bmt_mapped D k b) j = (if j = k then b else bmt_mapped D j)"
    using pool_index [OF assms] o by (simp add: bmt_mapped_def) (simp add: set_bmt_mapped_def)
  have "get_le16 (put_le16 (bbt_buf D) (bmt_tbl D k + 2) b) (bmt_tbl D j) = get_le16 (bbt_buf D) (bmt_tbl D j)"
    by (intro get_put_le16_other) (simp add: bmt_tbl_def, arith)
  then show "bmt_block (set_bmt_mapped D k b) j = bmt_block D j"
    by (simp add: bmt_block_def) (simp add: set_bmt_mapped_def)
qed

text \<open>The two arrays as one view: what the rest of the theory compares.\<close>

definition same_view :: "'m bmt_desc \<Rightarrow> 'm bmt_desc \<Rightarrow> bool" where
  "same_view D E \<longleftrightarrow> same_desc D E \<and> bmt_blk_idx E = bmt_blk_idx D \<and>
     bb_tbl E = bb_tbl D \<and> bmt_block E = bmt_block D \<and> bmt_mapped E = bmt_mapped D"

lemma same_view_refl [simp]: "same_view D D"
  by (simp add: same_view_def)

lemma same_view_trans: "same_view D E \<Longrightarrow> same_view E F \<Longrightarrow> same_view D F"
  by (auto simp: same_view_def intro: same_desc_trans)

lemma same_view_accessed: "accessed D E \<Longrightarrow> same_view D E"
  using accessed_tables [of D E] accessed_same [of D E]
  by (simp add: same_view_def fun_eq_iff bb_tbl_def bmt_block_def bmt_mapped_def bmt_tbl_def same_descD(4) [of D E])

lemma same_view_sign [simp]: "same_view D (sign_bmt D)"
  by (simp add: same_view_def fun_eq_iff) (simp add: sign_bmt_def)

lemma view_members [simp]:
  "bb_tbl (D\<lparr>pool_pba := p\<rparr>) = bb_tbl D" "bmt_block (D\<lparr>pool_pba := p\<rparr>) = bmt_block D"
  "bmt_mapped (D\<lparr>pool_pba := p\<rparr>) = bmt_mapped D"
  "bb_tbl (D\<lparr>bmt_blk_idx := x\<rparr>) = bb_tbl D" "bmt_block (D\<lparr>bmt_blk_idx := x\<rparr>) = bmt_block D"
  "bmt_mapped (D\<lparr>bmt_blk_idx := x\<rparr>) = bmt_mapped D"
  by (simp_all add: fun_eq_iff bb_tbl_def bmt_block_def bmt_mapped_def bmt_tbl_def)

section \<open>Writing the table\<close>

text \<open>The entries above the one that could be written are lost.\<close>

definition uploaded :: "'m bmt_desc \<Rightarrow> int \<Rightarrow> u16 \<Rightarrow> 'm bmt_desc \<Rightarrow> bool" where
  "uploaded D n r E \<longleftrightarrow> same_desc D E \<and> bmt_blk_idx E = bmt_blk_idx D \<and>
     (\<forall>j < unat (table_size D). bb_tbl E j = bb_tbl D j) \<and> bmt_mapped E = bmt_mapped D \<and>
     (r = - 1 \<or> (\<exists>m. 0 \<le> m \<and> m \<le> n \<and> r = word_of_int m \<and> bmt_mapped D (nat m) \<noteq> NORMAL_MAPPED \<and>
        (\<forall>k. bmt_block E k = (if nat m < k \<and> k \<le> nat n then 0 else bmt_block D k))))"

lemma uploaded_step:
  assumes f: "v2_fits D" "in_pool D (nat n)" "0 \<le> n" and v: "same_view D F"
    and u: "uploaded (set_bmt_block F (nat n) 0) (n - 1) r E"
  shows "uploaded D n r E"
proof -
  let ?G = "set_bmt_block F (nat n) 0"
  have s: "same_desc D F" and v': "bb_tbl F = bb_tbl D" "bmt_block F = bmt_block D" "bmt_mapped F = bmt_mapped D" "bmt_blk_idx F = bmt_blk_idx D"
    using v by (auto simp: same_view_def)
  have fF: "v2_fits F" "in_pool F (nat n)" using f fits_same [OF s] by auto
  have g: "bmt_block ?G j = (if j = nat n then 0 else bmt_block D j)" "bmt_mapped ?G = bmt_mapped D"
    "bmt_blk_idx ?G = bmt_blk_idx D" for j
    using pool_set_block [OF fF, of 0] v' by (simp_all add: fun_eq_iff) (simp add: set_bmt_block_def v')
  have sG: "same_desc D ?G" using s by (rule same_desc_trans) simp
  have bb: "bb_tbl ?G j = bb_tbl D j" if "j < unat (table_size D)" for j
    using that s v' by (simp add: same_descD(4))
  have cond: "(if nat m < k \<and> k \<le> nat (n - 1) then 0 else if k = nat n then 0 else x) = (if nat m < k \<and> k \<le> nat n then 0 else x)"
    if "m \<le> n - 1" "0 \<le> m" for m k and x :: u16
  proof -
    have "nat m < nat n" "k \<le> nat (n - 1) \<longleftrightarrow> k \<le> nat n \<and> k \<noteq> nat n" using that by linarith+
    then show ?thesis by auto
  qed
  have bl: "bmt_block ?G = (\<lambda>k. if k = nat n then 0 else bmt_block D k)" using g(1) by blast
  have "r = - 1 \<or> (\<exists>m. 0 \<le> m \<and> m \<le> n \<and> r = word_of_int m \<and> bmt_mapped D (nat m) \<noteq> NORMAL_MAPPED \<and>
        (\<forall>k. bmt_block E k = (if nat m < k \<and> k \<le> nat n then 0 else bmt_block D k)))"
  proof (cases "r = - 1")
    case False
    with u obtain m where m: "0 \<le> m" "m \<le> n - 1" "r = word_of_int m" "bmt_mapped D (nat m) \<noteq> NORMAL_MAPPED"
      "\<And>k. bmt_block E k = (if nat m < k \<and> k \<le> nat (n - 1) then 0 else if k = nat n then 0 else bmt_block D k)"
      unfolding uploaded_def g(2) bl by blast
    then show ?thesis unfolding m(5) cond [OF m(2,1)] by (intro disjI2 exI [of _ m]) simp
  qed simp
  moreover have "same_desc D E" using u sG by (auto simp: uploaded_def intro: same_desc_trans)
  ultimately show ?thesis using u bb unfolding uploaded_def g(2,3) same_descD(4) [OF sG] by auto
qed

lemma upload_bmt_uploaded:
  assumes "upload_bmt D n = (r, E)" "v2_fits D" "n < 0 \<or> in_pool D (nat n)"
  shows "uploaded D n r E"
  using assms
proof (induction D n arbitrary: r E rule: upload_bmt.induct)
  case (1 D n)
  show ?case
  proof (cases "n < 0 \<or> bmt_mapped D (nat n) = NORMAL_MAPPED")
    case True
    then have "r = - 1" "E = D" using 1(3) by (auto simp: upload_bmt.simps)
    then show ?thesis by (simp add: uploaded_def)
  next
    case ok: False
    then have n: "0 \<le> n" "in_pool D (nat n)" using 1(5) by auto
    obtain q F where e: "bbt_nand_erase D (bmt_block D (nat n)) = (q, F)" by fastforce
    have vF: "same_view D F" by (rule same_view_accessed [OF erase_accessed [OF e]])
    obtain q' G where w: "write_bmt (sign_bmt F) (bmt_block D (nat n)) (bbt_buf (sign_bmt F)) = (q', G)" by fastforce
    have vG: "same_view D G"
      by (rule same_view_trans [OF vF same_view_trans [OF same_view_sign same_view_accessed [OF write_bmt_accessed [OF w]]]])
    have eq: "upload_bmt D n = (if q \<noteq> 0 then upload_bmt (set_bmt_block F (nat n) 0) (n - 1)
      else if q' \<noteq> 0 then upload_bmt (set_bmt_block G (nat n) 0) (n - 1) else (word_of_int n, G))"
      using ok e w by (subst upload_bmt.simps) (simp add: Let_def)
    have again: "uploaded D n r E" if "same_view D H" "upload_bmt (set_bmt_block H (nat n) 0) (n - 1) = (r, E)"
      "\<And>r E. upload_bmt (set_bmt_block H (nat n) 0) (n - 1) = (r, E) \<Longrightarrow> v2_fits (set_bmt_block H (nat n) 0) \<Longrightarrow>
         n - 1 < 0 \<or> in_pool (set_bmt_block H (nat n) 0) (nat (n - 1)) \<Longrightarrow> uploaded (set_bmt_block H (nat n) 0) (n - 1) r E" for H
    proof (rule uploaded_step [OF 1(4) n(2,1) that(1)], rule that(3) [OF that(2)])
      have s: "same_desc D (set_bmt_block H (nat n) 0)"
        using that(1) by (auto simp: same_view_def intro: same_desc_trans)
      show "v2_fits (set_bmt_block H (nat n) 0)" using 1(4) fits_same(1) [OF s] by simp
      have "in_pool D (nat (n - 1))" using n by (auto simp: in_pool_def)
      then show "n - 1 < 0 \<or> in_pool (set_bmt_block H (nat n) 0) (nat (n - 1))" using fits_same(3) [OF s] by simp
    qed
    consider (ce) "q \<noteq> 0" | (cw) "q = 0" "q' \<noteq> 0" | (cd) "q = 0" "q' = 0" by blast
    then show ?thesis
    proof cases
      case ce
      then show ?thesis using 1(3) eq by (intro again [OF vF] 1(1) [OF ok refl refl e [symmetric]]) simp_all
    next
      case cw
      then show ?thesis using 1(3) eq
        by (intro again [OF vG] 1(2) [OF ok refl refl e [symmetric] _ refl refl w [symmetric]]) simp_all
    next
      case cd
      then have "r = word_of_int n" "E = G" using 1(3) eq by simp_all
      then show ?thesis using vG ok n by (auto simp: uploaded_def same_view_def intro!: exI [of _ n])
    qed
  qed
qed

section \<open>The invariant\<close>

text \<open>The entries up to \<open>bmt_blk_idx\<close> are the pool; those not marked as mapped are not in use.\<close>

definition v2_mapping_ok :: "'m bmt_desc \<Rightarrow> bool" where
  "v2_mapping_ok D \<longleftrightarrow> inj_on (bb_tbl D) {..<unat (pool_lba D)} \<and> (\<forall>i < unat (pool_lba D). bb_tbl D i < total_blks D)"

definition v2_inv :: "'m bmt_desc \<Rightarrow> bool" where
  "v2_inv D \<longleftrightarrow> v2_fits D \<and> in_pool D (unat (bmt_blk_idx D)) \<and> v2_mapping_ok D \<and>
     inj_on (bmt_block D) {..unat (bmt_blk_idx D)} \<and>
     (\<forall>k \<le> unat (bmt_blk_idx D). bmt_block D k \<noteq> 0 \<and> bmt_block D k < total_blks D \<and>
        (bmt_mapped D k \<noteq> NORMAL_MAPPED \<longrightarrow> (\<forall>i < unat (pool_lba D). bb_tbl D i \<noteq> bmt_block D k)))"

lemma pool_loop_result:
  assumes "pool_loop D i = (b, E)"
  shows "E = D \<and> b = 0 \<and> (\<forall>k. i \<le> k \<and> k < unat (bmt_blk_idx D) \<longrightarrow> bmt_block D k = 0 \<or> bmt_mapped D k \<noteq> NO_MAPPED) \<or>
    (\<exists>k. i \<le> k \<and> k < unat (bmt_blk_idx D) \<and> bmt_block D k \<noteq> 0 \<and> bmt_mapped D k = NO_MAPPED \<and>
       E = set_bmt_mapped D k NORMAL_MAPPED \<and> b = bmt_block E k)"
  using assms
proof (induction D i rule: pool_loop.induct)
  case (1 D i)
  consider (out) "\<not> i < unat (bmt_blk_idx D)" | (hit) "i < unat (bmt_blk_idx D)" "bmt_block D i \<noteq> 0" "bmt_mapped D i = NO_MAPPED"
    | (miss) "i < unat (bmt_blk_idx D)" "\<not> (bmt_block D i \<noteq> 0 \<and> bmt_mapped D i = NO_MAPPED)" by blast
  then show ?case
  proof cases
    case out
    then have "E = D" "b = 0" using 1(2) by (simp_all add: pool_loop.simps)
    then show ?thesis using out by auto
  next
    case hit
    then have "E = set_bmt_mapped D i NORMAL_MAPPED" "b = bmt_block E i"
      using 1(2) by (auto simp: pool_loop.simps [of D i] Let_def)
    then show ?thesis using hit by blast
  next
    case miss
    then have "pool_loop D (i + 1) = (b, E)" using 1(2) by (subst (asm) pool_loop.simps) (simp only: if_True if_False if_not_P)
    note ih = 1(1) [OF miss this]
    have split: "i \<le> k \<longleftrightarrow> k = i \<or> i + 1 \<le> k" for k by auto
    from ih miss(2) show ?thesis unfolding split by blast
  qed
qed

lemma pool_result:
  assumes "find_valid_block_in_pool D = (b, E)"
  shows "E = D \<and> b = 0 \<and> (\<forall>k < unat (bmt_blk_idx D). bmt_block D k = 0 \<or> bmt_mapped D k \<noteq> NO_MAPPED) \<or>
    (\<exists>k < unat (bmt_blk_idx D). bmt_block D k \<noteq> 0 \<and> bmt_mapped D k = NO_MAPPED \<and>
       E = set_bmt_mapped D k NORMAL_MAPPED \<and> b = bmt_block E k)"
proof (cases "bmt_blk_idx D = 0")
  case True
  then show ?thesis using assms by (simp add: find_valid_block_in_pool_def)
next
  case False
  then show ?thesis using pool_loop_result [of D 0 b E] assms by (auto simp: find_valid_block_in_pool_def)
qed

lemma v2_inv_bb: "v2_fits D \<Longrightarrow> i < unat (pool_lba D) \<Longrightarrow> i < unat (table_size D)"
  by (simp add: v2_fits_def)

lemma v2_inv_pool: "v2_inv D \<Longrightarrow> k \<le> unat (bmt_blk_idx D) \<Longrightarrow> in_pool D k"
  by (auto simp: v2_inv_def in_pool_def)

text \<open>After the table has been written, or could not be.\<close>

lemma reupload_cases:
  assumes f: "v2_fits D" and p: "in_pool D (unat (bmt_blk_idx D))"
  obtains (lost) "bmt_blk_idx (reupload D) = - 1" "same_desc D (reupload D)"
      "\<forall>j < unat (table_size D). bb_tbl (reupload D) j = bb_tbl D j" "bmt_mapped (reupload D) = bmt_mapped D"
  | (kept) m where "m \<le> unat (bmt_blk_idx D)" "bmt_blk_idx (reupload D) = of_nat m" "same_desc D (reupload D)"
      "bmt_mapped D m \<noteq> NORMAL_MAPPED" "\<forall>j < unat (table_size D). bb_tbl (reupload D) j = bb_tbl D j"
      "bmt_mapped (reupload D) = bmt_mapped D"
      "\<forall>k. bmt_block (reupload D) k = (if m < k \<and> k \<le> unat (bmt_blk_idx D) then 0 else bmt_block D k)"
proof -
  obtain r E where u: "upload_bmt D (uint (bmt_blk_idx D)) = (r, E)" by fastforce
  have "uploaded D (uint (bmt_blk_idx D)) r E"
    by (rule upload_bmt_uploaded [OF u f]) (simp add: p)
  moreover have "reupload D = E\<lparr>bmt_blk_idx := r\<rparr>" by (simp add: reupload_def u)
  moreover have "same_desc D (E\<lparr>bmt_blk_idx := r\<rparr>) = same_desc D E" by (simp add: same_desc_def)
  ultimately have U: "same_desc D (reupload D)" "\<forall>j < unat (table_size D). bb_tbl (reupload D) j = bb_tbl D j"
    "bmt_mapped (reupload D) = bmt_mapped D" "bmt_blk_idx (reupload D) = r"
    "r = - 1 \<or> (\<exists>m. 0 \<le> m \<and> m \<le> uint (bmt_blk_idx D) \<and> r = word_of_int m \<and> bmt_mapped D (nat m) \<noteq> NORMAL_MAPPED \<and>
        (\<forall>k. bmt_block (reupload D) k = (if nat m < k \<and> k \<le> unat (bmt_blk_idx D) then 0 else bmt_block D k)))"
    by (auto simp: uploaded_def)
  from U(5) show thesis
  proof
    assume "r = - 1" then show thesis using U by (intro lost) auto
  next
    assume "\<exists>m. 0 \<le> m \<and> m \<le> uint (bmt_blk_idx D) \<and> r = word_of_int m \<and> bmt_mapped D (nat m) \<noteq> NORMAL_MAPPED \<and>
        (\<forall>k. bmt_block (reupload D) k = (if nat m < k \<and> k \<le> unat (bmt_blk_idx D) then 0 else bmt_block D k))"
    then obtain m where m: "0 \<le> m" "m \<le> uint (bmt_blk_idx D)" "r = word_of_int m" "bmt_mapped D (nat m) \<noteq> NORMAL_MAPPED"
        "\<forall>k. bmt_block (reupload D) k = (if nat m < k \<and> k \<le> unat (bmt_blk_idx D) then 0 else bmt_block D k)" by blast
    have "nat m \<le> unat (bmt_blk_idx D)" using nat_mono [OF m(2)] by simp
    moreover have "bmt_blk_idx (reupload D) = of_nat (nat m)" by (simp only: U(4) m(3) of_nat_nat [OF m(1)])
    ultimately show thesis by (rule kept [OF _ _ U(1) m(4) U(2,3) m(5)])
  qed
qed

lemma reupload_keeps:
  assumes i: "v2_inv D" and ne: "bmt_blk_idx (reupload D) \<noteq> - 1"
  shows "v2_inv (reupload D)"
proof -
  have f: "v2_fits D" and p: "in_pool D (unat (bmt_blk_idx D))" using i by (simp_all add: v2_inv_def)
  show ?thesis
  proof (cases rule: reupload_cases [OF f p])
    case 1
    then show ?thesis using ne by simp
  next
    case (2 m)
    let ?E = "reupload D"
    have T: "table_size ?E = table_size D" "pool_lba ?E = pool_lba D" "total_blks ?E = total_blks D"
      using same_descD [OF 2(3)] by auto
    have bl: "bmt_block ?E k = bmt_block D k" if "k \<le> m" for k using 2(7) that by simp
    have "unat (bmt_blk_idx ?E) = m"
      using 2(1) unsigned_less [of "bmt_blk_idx D", where ?'a = nat] by (simp add: 2(2) unat_of_nat)
    note idx = this
    have bb: "bb_tbl ?E j = bb_tbl D j" if "j < unat (pool_lba D)" for j using 2(5) that v2_inv_bb [OF f] by blast
    have "inj_on (bb_tbl ?E) {..<unat (pool_lba D)} \<longleftrightarrow> inj_on (bb_tbl D) {..<unat (pool_lba D)}"
      by (rule inj_on_cong) (simp add: bb)
    moreover have "inj_on (bmt_block ?E) {..m} \<longleftrightarrow> inj_on (bmt_block D) {..m}" by (rule inj_on_cong) (simp add: bl)
    moreover have "inj_on (bmt_block D) {..m}"
      using i 2(1) by (auto simp: v2_inv_def intro: inj_on_subset)
    moreover have "in_pool ?E m" using p 2(1) fits_same(3) [OF 2(3)] by (auto simp: in_pool_def)
    ultimately show ?thesis
      using i 2(1) fits_same(1) [OF 2(3)] by (simp add: v2_inv_def v2_mapping_ok_def idx T bb bl 2(6))
  qed
qed

text \<open>Remapping hands out a pool entry nobody uses.\<close>

definition takes_entry :: "'m bmt_desc \<Rightarrow> nat \<Rightarrow> nat \<Rightarrow> 'm bmt_desc" where
  "takes_entry D block k = set_bb_tbl (set_bmt_mapped D k NORMAL_MAPPED) block (bmt_block D k)"

lemma takes_entry_view:
  assumes i: "v2_inv D" and k: "k \<le> unat (bmt_blk_idx D)" and b: "block < unat (pool_lba D)"
  shows "same_desc D (takes_entry D block k)" "bmt_blk_idx (takes_entry D block k) = bmt_blk_idx D"
    "j < unat (pool_lba D) \<Longrightarrow> bb_tbl (takes_entry D block k) j = (if j = block then bmt_block D k else bb_tbl D j)"
    "bmt_block (takes_entry D block k) = bmt_block D"
    "bmt_mapped (takes_entry D block k) = (bmt_mapped D)(k := NORMAL_MAPPED)"
proof -
  have f: "v2_fits D" using i by (simp add: v2_inv_def)
  let ?F = "set_bmt_mapped D k NORMAL_MAPPED"
  have s: "same_desc D ?F" by simp
  have fF: "v2_fits ?F" "in_bb ?F block" using f b fits_same [OF s] by (auto simp: in_bb_def)
  note bt = v2_inv_bb [OF f]
  note pm = pool_set_mapped [OF f v2_inv_pool [OF i k]]
  show "same_desc D (takes_entry D block k)"
    unfolding takes_entry_def by (rule same_desc_trans [OF s]) simp
  show "bmt_blk_idx (takes_entry D block k) = bmt_blk_idx D"
    by (simp add: takes_entry_def set_bb_tbl_def set_bmt_mapped_def)
  show "bb_tbl (takes_entry D block k) j = (if j = block then bmt_block D k else bb_tbl D j)"
    if "j < unat (pool_lba D)"
    using bt [OF that] by (simp add: takes_entry_def bb_tbl_set [OF fF])
  show "bmt_block (takes_entry D block k) = bmt_block D"
    "bmt_mapped (takes_entry D block k) = (bmt_mapped D)(k := NORMAL_MAPPED)"
    using bt [OF b] by (simp_all add: fun_eq_iff takes_entry_def pm)
qed

lemma takes_entry_inv:
  assumes i: "v2_inv D" and k: "k \<le> unat (bmt_blk_idx D)" "bmt_mapped D k \<noteq> NORMAL_MAPPED" and b: "block < unat (pool_lba D)"
  shows "v2_inv (takes_entry D block k)"
proof -
  note v = takes_entry_view [OF i k(1) b]
  let ?E = "takes_entry D block k"
  have T: "pool_lba ?E = pool_lba D" "total_blks ?E = total_blks D" using same_descD [OF v(1)] by auto
  have free: "bb_tbl D j \<noteq> bmt_block D q" if "q \<le> unat (bmt_blk_idx D)" "bmt_mapped D q \<noteq> NORMAL_MAPPED" "j < unat (pool_lba D)" for j q
    using i that by (simp add: v2_inv_def)
  have bi: "bmt_block D q = bmt_block D k \<longleftrightarrow> q = k" if "q \<le> unat (bmt_blk_idx D)" for q
    using i that k(1) by (auto simp: v2_inv_def inj_on_def)
  have bbi: "inj_on (bb_tbl D) {..<unat (pool_lba D)}" using i by (simp add: v2_inv_def v2_mapping_ok_def)
  have "inj_on (bb_tbl ?E) {..<unat (pool_lba D)}"
  proof (rule inj_onI)
    fix x y assume "x \<in> {..<unat (pool_lba D)}" "y \<in> {..<unat (pool_lba D)}" "bb_tbl ?E x = bb_tbl ?E y"
    then show "x = y" using free [OF k] bbi by (auto simp: v(3) inj_on_def split: if_splits)
  qed
  moreover have "bb_tbl ?E j \<noteq> bmt_block D q"
    if "q \<le> unat (bmt_blk_idx D)" "q \<noteq> k" "bmt_mapped D q \<noteq> NORMAL_MAPPED" "j < unat (pool_lba D)" for j q
    using free [OF that(1,3,4)] bi [OF that(1)] that(2,4) by (simp add: v(3))
  moreover have "bb_tbl ?E j < total_blks D" if "j < unat (pool_lba D)" for j
    using i k(1) that by (simp add: v(3) v2_inv_def v2_mapping_ok_def)
  moreover have "v2_fits ?E" "in_pool ?E (unat (bmt_blk_idx D))" using i fits_same [OF v(1)] by (auto simp: v2_inv_def)
  ultimately show ?thesis
    using i by (auto simp: v2_inv_def v2_mapping_ok_def T v(2,4,5))
qed

lemma moved_view: "same_view D (moved_to D new_blk old_blk copy_len)"
  by (rule same_view_accessed [OF moved_to_accessed])

lemma v2_inv_view: "same_view D E \<Longrightarrow> v2_inv E = v2_inv D"
  by (auto simp: same_view_def v2_inv_def v2_mapping_ok_def fits_same same_descD [of D E])

lemma remap_v2_cases:
  assumes i: "v2_inv D" and b: "unat block < unat (pool_lba D)"
    and r: "remap_block_v2 D block mapped_block copy_len = Some (ok, E)"
  obtains (full) "\<not> ok" "E = D" "\<forall>k < unat (bmt_blk_idx D). bmt_mapped D k \<noteq> NO_MAPPED"
  | (taken) k F where "ok" "k < unat (bmt_blk_idx D)" "bmt_mapped D k = NO_MAPPED"
      "same_view (takes_entry D (unat block) k) F" "E = reupload F"
proof -
  obtain nb P where p: "find_valid_block_in_pool D = (nb, P)" by fastforce
  from pool_result [OF p] show thesis
  proof
    assume a: "P = D \<and> nb = 0 \<and> (\<forall>k < unat (bmt_blk_idx D). bmt_block D k = 0 \<or> bmt_mapped D k \<noteq> NO_MAPPED)"
    then have "\<not> ok" "E = D" using r p by (auto simp: remap_block_v2_def)
    moreover have "\<forall>k < unat (bmt_blk_idx D). bmt_block D k \<noteq> 0" using i by (auto simp: v2_inv_def)
    ultimately show thesis using a by (intro full) auto
  next
    assume "\<exists>k < unat (bmt_blk_idx D). bmt_block D k \<noteq> 0 \<and> bmt_mapped D k = NO_MAPPED \<and>
       P = set_bmt_mapped D k NORMAL_MAPPED \<and> nb = bmt_block P k"
    then obtain k where k: "k < unat (bmt_blk_idx D)" "bmt_block D k \<noteq> 0" "bmt_mapped D k = NO_MAPPED"
      "P = set_bmt_mapped D k NORMAL_MAPPED" "nb = bmt_block P k" by blast
    have "nb = bmt_block D k"
      using k i pool_set_mapped(2) [OF _ v2_inv_pool [OF i], of k] by (simp add: v2_inv_def)
    then have "ok" "E = reupload (moved_to (takes_entry D (unat block) k) nb mapped_block copy_len)"
      using r p k by (auto simp: remap_block_v2_def Let_def takes_entry_def)
    then show thesis using k by (intro taken [OF _ _ _ moved_view])
  qed
qed

lemma remap_v2:
  assumes i: "v2_inv D" and b: "unat block < unat (pool_lba D)"
    and r: "remap_block_v2 D block mapped_block copy_len = Some (ok, E)"
  shows "if ok then \<exists>k < unat (bmt_blk_idx D). bmt_mapped D k = NO_MAPPED \<and>
      (\<forall>j < unat (pool_lba D). bb_tbl E j = (if j = unat block then bmt_block D k else bb_tbl D j)) \<and>
      v2_mapping_ok E \<and> (bmt_blk_idx E = - 1 \<or> v2_inv E)
    else E = D \<and> (\<forall>k < unat (bmt_blk_idx D). bmt_mapped D k \<noteq> NO_MAPPED)"
proof (cases rule: remap_v2_cases [OF i b r])
  case 1
  then show ?thesis by simp
next
  case (2 k F)
  have k: "k \<le> unat (bmt_blk_idx D)" "bmt_mapped D k \<noteq> NORMAL_MAPPED" using 2 by simp_all
  note t = takes_entry_view [OF i k(1) b]
  have F: "v2_inv F" using takes_entry_inv [OF i k b] v2_inv_view [OF 2(4)] by simp
  have sF: "same_desc D F" "bb_tbl F = bb_tbl (takes_entry D (unat block) k)"
    using 2(4) t(1) by (auto simp: same_view_def intro: same_desc_trans)
  have f: "v2_fits F" "in_pool F (unat (bmt_blk_idx F))" using F by (simp_all add: v2_inv_def)
  have E: "same_desc F E" "\<forall>j < unat (table_size F). bb_tbl E j = bb_tbl F j"
    by (cases rule: reupload_cases [OF f]; simp add: 2(5))+
  have lba: "pool_lba E = pool_lba D" "pool_lba F = pool_lba D" "total_blks E = total_blks F"
    using same_descD [OF sF(1)] same_descD [OF E(1)] by auto
  have bb: "bb_tbl E j = bb_tbl F j" if "j < unat (pool_lba D)" for j
    using E(2) v2_inv_bb [OF f(1)] that lba by simp
  have "inj_on (bb_tbl E) {..<unat (pool_lba D)} \<longleftrightarrow> inj_on (bb_tbl F) {..<unat (pool_lba D)}"
    by (rule inj_on_cong) (simp add: bb)
  then have "v2_mapping_ok E" using F by (simp add: v2_inv_def v2_mapping_ok_def lba bb)
  moreover have "bmt_blk_idx E = - 1 \<or> v2_inv E" using reupload_keeps [OF F] 2(5) by auto
  moreover have "bb_tbl E j = (if j = unat block then bmt_block D k else bb_tbl D j)" if "j < unat (pool_lba D)" for j
    using bb [OF that] t(3) [OF that] by (simp add: sF(2))
  ultimately show ?thesis using 2(1-3) by auto
qed

section \<open>Finding the table again\<close>

definition v2_marked :: "'m bmt_desc \<Rightarrow> bool" where
  "v2_marked D \<longleftrightarrow> (\<forall>k \<le> unat (bmt_blk_idx D). bmt_mapped D k = BMT_MAPPED \<longleftrightarrow> k = unat (bmt_blk_idx D))"

lemma bmt_index_loop:
  assumes "i \<le> n" "\<And>k. i \<le> k \<Longrightarrow> k < n \<Longrightarrow> bmt_block D k \<noteq> 0 \<and> bmt_mapped D k \<noteq> BMT_MAPPED"
  shows "get_bmt_index_loop D i = get_bmt_index_loop D n"
  using assms
proof (induction "n - i" arbitrary: i)
  case (Suc d)
  then have "bmt_block D i \<noteq> 0 \<and> bmt_mapped D i \<noteq> BMT_MAPPED" by simp
  then have "get_bmt_index_loop D i = get_bmt_index_loop D (i + 1)" by (subst get_bmt_index_loop.simps) simp
  also have "\<dots> = get_bmt_index_loop D n" using Suc by (intro Suc(1)) auto
  finally show ?case .
qed simp

text \<open>When the last entry could not be used, the table says nowhere where it is.\<close>

lemma get_index_reupload:
  assumes i: "v2_inv D" and m: "v2_marked D" and ne: "bmt_blk_idx (reupload D) \<noteq> - 1"
  shows "get_bmt_index (reupload D) = Some (if bmt_blk_idx (reupload D) = bmt_blk_idx D then bmt_blk_idx D else 0)"
proof -
  have f: "v2_fits D" and p: "in_pool D (unat (bmt_blk_idx D))" using i by (simp_all add: v2_inv_def)
  let ?E = "reupload D" and ?n = "unat (bmt_blk_idx D)"
  show ?thesis
  proof (cases rule: reupload_cases [OF f p])
    case 1
    then show ?thesis using ne by simp
  next
    case (2 q)
    have nz: "bmt_block D k \<noteq> 0" if "k \<le> ?n" for k using i that by (simp add: v2_inv_def)
    have q: "unat (bmt_blk_idx ?E) = q"
      using 2(1) unsigned_less [of "bmt_blk_idx D", where ?'a = nat] by (simp add: 2(2) unat_of_nat)
    show ?thesis
    proof (cases "q = ?n")
      case True
      then have "bmt_block ?E k = bmt_block D k" if "k \<le> ?n" for k using 2(7) that by simp
      then have b: "bmt_block ?E k \<noteq> 0" if "k \<le> ?n" for k using nz that by simp
      have "get_bmt_index_loop ?E 0 = get_bmt_index_loop ?E ?n"
        using b m by (intro bmt_index_loop) (auto simp: 2(6) v2_marked_def)
      also have "\<dots> = Some (bmt_blk_idx D)"
        using b [of ?n] m by (subst get_bmt_index_loop.simps) (simp add: 2(6) v2_marked_def)
      finally show ?thesis using q True by (simp add: get_bmt_index_def word_unat_eq_iff)
    next
      case False
      then have lt: "q < ?n" using 2(1) by simp
      have "get_bmt_index_loop ?E 0 = get_bmt_index_loop ?E (q + 1)"
        using nz m lt by (intro bmt_index_loop) (auto simp: 2(6,7) v2_marked_def)
      also have "\<dots> = Some 0"
        using lt by (subst get_bmt_index_loop.simps) (simp add: 2(7))
      finally show ?thesis using q False by (auto simp: get_bmt_index_def)
    qed
  qed
qed

section \<open>The format under the layer\<close>

lemma upload_same: "upload_bmt D n = (r, E) \<Longrightarrow> same_desc D E"
proof (induction D n arbitrary: r E rule: upload_bmt.induct)
  case (1 D n)
  show ?case
  proof (cases "n < 0 \<or> bmt_mapped D (nat n) = NORMAL_MAPPED")
    case True
    then show ?thesis using 1(3) by (auto simp: upload_bmt.simps)
  next
    case ok: False
    obtain q F where e: "bbt_nand_erase D (bmt_block D (nat n)) = (q, F)" by fastforce
    obtain q' G where w: "write_bmt (sign_bmt F) (bmt_block D (nat n)) (bbt_buf (sign_bmt F)) = (q', G)" by fastforce
    have sF: "same_desc D F" by (rule accessed_same [OF erase_accessed [OF e]])
    have sG: "same_desc D G"
      by (rule same_desc_trans [OF sF same_desc_trans [OF same_sign accessed_same [OF write_bmt_accessed [OF w]]]])
    have eq: "upload_bmt D n = (if q \<noteq> 0 then upload_bmt (set_bmt_block F (nat n) 0) (n - 1)
      else if q' \<noteq> 0 then upload_bmt (set_bmt_block G (nat n) 0) (n - 1) else (word_of_int n, G))"
      using ok e w by (subst upload_bmt.simps) (simp add: Let_def)
    consider (ce) "q \<noteq> 0" | (cw) "q = 0" "q' \<noteq> 0" | (cd) "q = 0" "q' = 0" by blast
    then show ?thesis
    proof cases
      case ce
      then have "same_desc (set_bmt_block F (nat n) 0) E"
        using 1(3) eq by (intro 1(1) [OF ok refl refl e [symmetric]]) simp_all
      then show ?thesis by (rule same_desc_trans [OF same_desc_trans [OF sF same_set_tables(2)]])
    next
      case cw
      then have "same_desc (set_bmt_block G (nat n) 0) E"
        using 1(3) eq by (intro 1(2) [OF ok refl refl e [symmetric] _ refl refl w [symmetric]]) simp_all
      then show ?thesis by (rule same_desc_trans [OF same_desc_trans [OF sG same_set_tables(2)]])
    next
      case cd
      then show ?thesis using 1(3) eq sG by simp
    qed
  qed
qed

lemma reupload_same: "same_desc D (reupload D)"
proof -
  obtain n E where u: "upload_bmt D (uint (bmt_blk_idx D)) = (n, E)" by fastforce
  have "same_desc E (E\<lparr>bmt_blk_idx := n\<rparr>)" by (simp add: same_desc_def)
  then show ?thesis using u same_desc_trans [OF upload_same [OF u]] by (simp add: reupload_def)
qed

lemma pool_same:
  assumes "find_valid_block_in_pool D = (b, E)"
  shows "same_desc D E"
proof (cases "bmt_blk_idx D = 0")
  case False
  then have "pool_loop D 0 = (b, E)" using assms by (simp add: find_valid_block_in_pool_def)
  from pool_loop_result [OF this] show ?thesis by auto
qed (use assms in \<open>simp add: find_valid_block_in_pool_def\<close>)

lemma remap_v2_returns: "\<exists>ok E. remap_block_v2 D block p copy_len = Some (ok, E) \<and> same_desc D E"
proof -
  obtain nb F where p: "find_valid_block_in_pool D = (nb, F)" by fastforce
  let ?G = "moved_to (set_bb_tbl F (unat block) nb) nb p copy_len"
  have "same_desc F ?G" by (rule same_desc_trans [OF same_set_tables(1) accessed_same [OF moved_to_accessed]])
  then have "same_desc D (reupload ?G)" by (blast intro: same_desc_trans pool_same [OF p] reupload_same)
  then show ?thesis using p pool_same [OF p] by (auto simp: remap_block_v2_def Let_def)
qed

interpretation v2: bmt_backend mtk_bmt_v2_ops
proof unfold_locales
  show "\<exists>b'. bops_get_mapping_block mtk_bmt_v2_ops D b = Some b'" for D :: "'a bmt_desc" and b
    by (simp add: mtk_bmt_v2_ops_def get_mapping_block_index_v2_def)
  show "\<exists>ok E. bops_remap_block mtk_bmt_v2_ops D block p l = Some (ok, E) \<and> same_desc D E" for D :: "'a bmt_desc" and block p l
    by (simp add: mtk_bmt_v2_ops_def remap_v2_returns)
  show "same_desc D (bops_unmap_block mtk_bmt_v2_ops D block)" for D :: "'a bmt_desc" and block
    using same_desc_trans [OF same_set_tables(1) reupload_same] by (simp add: mtk_bmt_v2_ops_def unmap_block_v2_def)
  show "bops_get_mapping_block mtk_bmt_v2_ops E b = bops_get_mapping_block mtk_bmt_v2_ops D b" if "accessed D E" for D E :: "'a bmt_desc" and b
    using same_view_accessed [OF that] in_range_same [OF accessed_same [OF that]]
    by (auto simp: mtk_bmt_v2_ops_def get_mapping_block_index_v2_def same_view_def same_descD(9) [of D E] split: option.splits)
qed


end
