(* ===== verification/Bmt_V2_Scan.thy ===== *)
theory Bmt_V2_Scan
  imports Bmt_V2_Table
begin

text \<open>
  Scanning a chip: \<open>scan_bad_blocks\<close> establishes the invariant of the tables, and on a chip whose
  marks do not depend on when they are read it finds exactly the blocks that are not marked bad. The
  buffer of the tables is too small for what \<open>mtk_bmt_init_v2\<close> clears.
\<close>

section \<open>Ascending arrays\<close>

definition ascending :: "(nat \<Rightarrow> u16) \<Rightarrow> nat \<Rightarrow> bool" where
  "ascending f n \<longleftrightarrow> (\<forall>j k. j < k \<and> k < n \<longrightarrow> f j < f k)"

lemma ascending_extend:
  "ascending f n \<Longrightarrow> (\<And>j. j < n \<Longrightarrow> g j = f j) \<Longrightarrow> (\<And>j. j < n \<Longrightarrow> f j < g n) \<Longrightarrow> ascending g (n + 1)"
  by (auto simp: ascending_def less_Suc_eq)

lemma ascending_inj: "ascending f n \<Longrightarrow> inj_on f {..<n}"
  by (rule inj_onI) (metis ascending_def lessThan_iff nat_neq_iff order_less_irrefl)

lemma ascending_cong: "(\<And>j. j < n \<Longrightarrow> g j = f j) \<Longrightarrow> ascending g n = ascending f n"
  by (auto simp: ascending_def)

lemma ascending_ge: "ascending f n \<Longrightarrow> k < n \<Longrightarrow> unat (f 0) + k \<le> unat (f k)"
proof (induction k)
  case (Suc k)
  then have "f k < f (Suc k)" by (simp add: ascending_def)
  then show ?case using Suc by (simp add: word_less_nat_alt)
qed simp

section \<open>The marks\<close>

text \<open>The driver gives the same answer for the first page of a block whatever has happened before.\<close>

definition block_marks :: "'m bmt_desc \<Rightarrow> (u16 \<Rightarrow> bool) \<Rightarrow> bool" where
  "block_marks D good \<longleftrightarrow> (\<forall>E block fdm r d f F. same_desc D E \<longrightarrow>
     bbt_nand_read E (blk_pg E block) (data_buf E) (ucast (pg_size E)) fdm 4 = (r, d, f, F) \<longrightarrow>
     (r = 0 \<and> f ! 0 = 0xff \<longleftrightarrow> good block))"

lemma find_valid_loop_good:
  assumes "block_marks D\<^sub>0 good"
  shows "find_valid_block_loop D block loop fdm = (b, E) \<Longrightarrow> same_desc D\<^sub>0 D \<Longrightarrow> b \<noteq> 0 \<Longrightarrow>
    good b \<and> (\<forall>x. block \<le> x \<and> x < b \<longrightarrow> \<not> good x)"
proof (induction D block loop fdm rule: find_valid_block_loop.induct)
  case (1 D block loop fdm)
  show ?case
  proof (cases "total_blks D \<le> block")
    case True
    then show ?thesis using 1(2,4) by (simp add: find_valid_block_loop.simps)
  next
    case False
    obtain r dat fdm' F where rd: "bbt_nand_read D (blk_pg D block) (data_buf D) (ucast (pg_size D)) fdm 4 = (r, dat, fdm', F)"
      by (cases "bbt_nand_read D (blk_pg D block) (data_buf D) (ucast (pg_size D)) fdm 4") auto
    let ?D = "F\<lparr>data_buf := dat\<rparr>"
    have acc: "accessed D ?D" using read_accessed [OF rd] by simp
    have gd: "r = 0 \<and> fdm' ! 0 = 0xff \<longleftrightarrow> good block"
      using assms 1(3) rd unfolding block_marks_def by blast
    have eq: "find_valid_block_loop D block loop fdm =
      (if \<not> good block
       then if uint (bb_max ?D) \<le> loop then (0, ?D) else find_valid_block_loop ?D (block + 1) (loop + 1) fdm'
       else (block, ?D))"
      using False rd gd by (subst find_valid_block_loop.simps) (auto simp: Let_def)
    show ?thesis
    proof (cases "good block")
      case True
      then show ?thesis using 1(2) unfolding eq by auto
    next
      case bad: False
      then have lp: "\<not> uint (bb_max ?D) \<le> loop" "find_valid_block_loop ?D (block + 1) (loop + 1) fdm' = (b, E)"
        using 1(2,4) unfolding eq by (auto split: if_splits)
      have "r \<noteq> 0 \<or> fdm' ! 0 \<noteq> 0xff" using bad gd by blast
      from 1(1) [OF False refl rd [symmetric] refl refl refl this lp(1,2) same_desc_trans [OF 1(3) accessed_same [OF acc]] 1(4)]
      have ih: "good b \<and> (\<forall>x. block + 1 \<le> x \<and> x < b \<longrightarrow> \<not> good x)" .
      have "unat (block + 1) = Suc (unat block)" using False by (intro unat_Suc_less [of _ "total_blks D"]) simp
      then have sp: "block \<le> x \<longleftrightarrow> x = block \<or> block + 1 \<le> x" for x
        by (auto simp: word_le_nat_alt word_unat_eq_iff)
      show ?thesis unfolding sp using ih bad by blast
    qed
  qed
qed

lemma find_valid_good:
  assumes "block_marks D\<^sub>0 good" "same_desc D\<^sub>0 D" "find_valid_block D block = (b, E)" "b \<noteq> 0"
  shows "good b \<and> (\<forall>x. block \<le> x \<and> x < b \<longrightarrow> \<not> good x)"
  using find_valid_loop_good [OF assms(1) assms(3) [unfolded find_valid_block_def] assms(2,4)] .

section \<open>Filling the tables\<close>

text \<open>The first \<open>i\<close> entries of \<open>bb_tbl\<close>: ascending, and above the first one exactly the good blocks.\<close>

definition main_filled :: "(u16 \<Rightarrow> bool) option \<Rightarrow> 'm bmt_desc \<Rightarrow> nat \<Rightarrow> bool" where
  "main_filled good D i \<longleftrightarrow> bb_tbl D 0 = 0 \<and> ascending (bb_tbl D) i \<and> (\<forall>j < i. bb_tbl D j < total_blks D) \<and>
     (\<forall>g. good = Some g \<longrightarrow> (\<forall>j. 0 < j \<and> j < i \<longrightarrow> g (bb_tbl D j) \<and>
        (\<forall>x. bb_tbl D (j - 1) < x \<and> x < bb_tbl D j \<longrightarrow> \<not> g x)))"

lemma main_filled_cong:
  assumes "\<And>j. j < n \<Longrightarrow> bb_tbl E j = bb_tbl D j" "total_blks E = total_blks D" "0 < n"
  shows "main_filled good E n = main_filled good D n"
proof -
  have prev: "bb_tbl E (j - Suc 0) = bb_tbl D (j - Suc 0)" if "j < n" for j using assms(1) that by simp
  then show ?thesis
    using assms ascending_cong [of n "bb_tbl E" "bb_tbl D"] unfolding main_filled_def
    by (simp add: prev cong: conj_cong imp_cong)
qed

definition knows :: "'m bmt_desc \<Rightarrow> (u16 \<Rightarrow> bool) option \<Rightarrow> bool" where
  "knows D good \<longleftrightarrow> (\<forall>g. good = Some g \<longrightarrow> block_marks D g)"

lemma block_marks_same:
  assumes "same_desc D E" "block_marks D good"
  shows "block_marks E good"
  unfolding block_marks_def
proof (intro allI impI)
  fix F block fdm r d f G
  assume "same_desc E F" "bbt_nand_read F (blk_pg F block) (data_buf F) (ucast (pg_size F)) fdm 4 = (r, d, f, G)"
  then show "r = 0 \<and> f ! 0 = 0xff \<longleftrightarrow> good block"
    using assms(2) [unfolded block_marks_def, rule_format, OF same_desc_trans [OF assms(1)]] by blast
qed

lemma knows_same: "same_desc D E \<Longrightarrow> knows D good \<Longrightarrow> knows E good"
  by (simp add: knows_def block_marks_same)

lemma main_filled_step:
  assumes f: "v2_fits D" and i: "0 < i" "i < unat (pool_lba D)" and m: "main_filled good D i" and kn: "knows D good"
    and fv: "find_valid_block D (bb_tbl D (i - 1) + 1) = (b, E)" "b \<noteq> 0"
  shows "main_filled good (set_bb_tbl E i b) (i + 1)" "same_desc D (set_bb_tbl E i b)"
proof -
  have acc: "accessed D E" and b: "bb_tbl D (i - 1) + 1 \<le> b" "b < total_blks D"
    using find_valid_block_result [OF fv(1)] fv(2) by auto
  have s: "same_desc D E" by (rule accessed_same [OF acc])
  then show "same_desc D (set_bb_tbl E i b)" by (rule same_desc_trans) simp
  have fE: "v2_fits E" "in_bb E i" using f i(2) fits_same [OF s] by (auto simp: in_bb_def)
  have bt: "bb_tbl (set_bb_tbl E i b) j = (if j = i then b else bb_tbl D j)" for j
    using same_view_accessed [OF acc] by (simp add: bb_tbl_set [OF fE] same_view_def)
  have last: "bb_tbl D (i - 1) < total_blks D" using m i(1) by (simp add: main_filled_def)
  have gt: "x < b" if "x \<le> bb_tbl D (i - 1)" for x
    using unat_Suc_less [OF last] b(1) that by (simp add: word_less_nat_alt word_le_nat_alt)
  have asc: "bb_tbl D j \<le> bb_tbl D (i - 1)" if "j < i" for j
    using m that i(1) unfolding main_filled_def ascending_def
    by (metis One_nat_def Suc_pred le_less less_Suc_eq)
  have "ascending (bb_tbl (set_bb_tbl E i b)) (i + 1)"
    using m by (intro ascending_extend [of "bb_tbl D"]) (auto simp: bt main_filled_def gt [OF asc])
  moreover have "bb_tbl D (i - 1) < x \<longleftrightarrow> bb_tbl D (i - 1) + 1 \<le> x" for x
    using unat_Suc_less [OF last] by (simp add: word_less_nat_alt word_le_nat_alt Suc_le_eq)
  moreover have "g b \<and> (\<forall>x. bb_tbl D (i - 1) + 1 \<le> x \<and> x < b \<longrightarrow> \<not> g x)" if "good = Some g" for g
    using find_valid_good [OF _ same_desc_refl fv] kn that by (simp add: knows_def)
  moreover have "total_blks (set_bb_tbl E i b) = total_blks D"
    using s by (simp add: set_bb_tbl_def same_desc_def)
  ultimately show "main_filled good (set_bb_tbl E i b) (i + 1)"
    using m b(2) i(1) by (auto simp: main_filled_def bt less_Suc_eq)
qed

lemma scan_main_loop:
  assumes "scan_main_loop D i = (ok, E, n)" "v2_fits D" "0 < i" "i \<le> unat (pool_lba D)" "main_filled good D i" "knows D good"
  shows "same_desc D E \<and> (ok \<longrightarrow> n = unat (pool_lba D) \<and> main_filled good E n)"
  using assms
proof (induction D i rule: scan_main_loop.induct)
  case (1 D i)
  show ?case
  proof (cases "i < unat (pool_lba D)")
    case True
    obtain b F where fv: "find_valid_block D (bb_tbl D (i - 1) + 1) = (b, F)" by fastforce
    have eq: "scan_main_loop D i = (if b = 0 then (False, set_bb_tbl F i b, i) else scan_main_loop (set_bb_tbl F i b) (i + 1))"
      using True fv by (subst scan_main_loop.simps) (simp add: Let_def)
    have s: "same_desc D (set_bb_tbl F i b)"
      by (rule same_desc_trans [OF accessed_same [OF find_valid_block_result(1) [OF fv]]]) simp
    show ?thesis
    proof (cases "b = 0")
      case True
      then show ?thesis using 1(2) s unfolding eq by auto
    next
      case False
      note st = main_filled_step [OF 1(3,4) True 1(6,7) fv False]
      have "pool_lba (set_bb_tbl F i b) = pool_lba D" using same_descD(9) [OF s] .
      then have "same_desc (set_bb_tbl F i b) E \<and> (ok \<longrightarrow> n = unat (pool_lba D) \<and> main_filled good E n)"
        using 1(1) [OF True refl fv [symmetric] refl False] 1(2) False True st(1) 1(3) fits_same(1) [OF s] knows_same [OF s 1(7)]
        unfolding eq by auto
      then show ?thesis using s by (blast intro: same_desc_trans)
    qed
  next
    case False
    then show ?thesis using 1(2,5,6) by (subst (asm) scan_main_loop.simps) auto
  qed
qed

text \<open>The first \<open>i\<close> entries of \<open>bmt_tbl\<close>: ascending blocks from \<open>p\<close> up to below \<open>block\<close>, none in use.\<close>

definition pool_filled :: "'m bmt_desc \<Rightarrow> u16 \<Rightarrow> u16 \<Rightarrow> nat \<Rightarrow> bool" where
  "pool_filled D p block i \<longleftrightarrow> ascending (bmt_block D) i \<and> unat p + i \<le> unat block \<and>
     (\<forall>k < i. p \<le> bmt_block D k \<and> bmt_block D k < block \<and> bmt_block D k < total_blks D \<and> bmt_mapped D k = NO_MAPPED)"

lemma scan_pool_loop:
  assumes "scan_pool_loop D block i = (n, E)" "v2_fits D" "pool_lba D \<le> p" "pool_filled D p block i"
  shows "same_desc D E \<and> (\<forall>j < unat (table_size D). bb_tbl E j = bb_tbl D j) \<and> i \<le> n \<and> (\<exists>blk. pool_filled E p blk n)"
  using assms
proof (induction D block i rule: scan_pool_loop.induct)
  case (1 D block i)
  obtain b F where fv: "find_valid_block D block = (b, F)" by fastforce
  have acc: "accessed D F" by (rule find_valid_block_result(1) [OF fv])
  note s = accessed_same [OF acc]
  have v: "bb_tbl F = bb_tbl D" "bmt_block F = bmt_block D" "bmt_mapped F = bmt_mapped D"
    using same_view_accessed [OF acc] by (simp_all add: same_view_def)
  let ?G = "set_bmt_block F i b" and ?H = "set_bmt_mapped (set_bmt_block F i b) i NO_MAPPED"
  have eq: "scan_pool_loop D block i = (if b \<noteq> 0 then scan_pool_loop ?H (b + 1) (i + 1) else (i, F))"
    using fv by (subst scan_pool_loop.simps) (simp add: Let_def)
  show ?case
  proof (cases "b = 0")
    case True
    then have "n = i" "E = F" using 1(2) unfolding eq by auto
    then show ?thesis using 1(5) s v by (auto simp: pool_filled_def same_descD(11))
  next
    case False
    have b: "block \<le> b" "b < total_blks D" using find_valid_block_result(2) [OF fv] False by auto
    have sG: "same_desc D ?G" and sH: "same_desc D ?H"
      using same_desc_trans [OF s same_set_tables(2)] same_desc_trans [OF same_desc_trans [OF s same_set_tables(2)] same_set_tables(3)]
      by blast+
    have pi: "in_pool D i"
    proof -
      have "unat p + i \<le> unat block" using 1(5) by (simp add: pool_filled_def)
      then show ?thesis using b 1(4) by (auto simp: in_pool_def word_le_nat_alt word_less_nat_alt)
    qed
    have fF: "v2_fits F" "in_pool F i" and fG: "v2_fits ?G" "in_pool ?G i"
      using 1(3) pi fits_same [OF s] fits_same [OF sG] by auto
    have w: "bmt_block ?H k = (if k = i then b else bmt_block D k)" "bmt_mapped ?H k = (if k = i then NO_MAPPED else bmt_mapped D k)" for k
      by (simp_all add: pool_set_mapped [OF fG] pool_set_block [OF fF] v)
    have bb: "bb_tbl ?H j = bb_tbl D j" if "j < unat (table_size D)" for j
      using that v same_descD(4) [OF s] by simp
    have suc: "unat (b + 1) = Suc (unat b)" by (rule unat_Suc_less [OF b(2)])
    then have lt: "x < b \<or> x = b \<Longrightarrow> x < b + 1" for x by (auto simp: word_less_nat_alt)
    have below: "bmt_block D k < b" if "k < i" for k
      using 1(5) that b(1) by (auto simp: pool_filled_def intro: order_less_le_trans)
    have pb: "unat p + i \<le> unat block" "p \<le> block" using 1(5) by (auto simp: pool_filled_def word_le_nat_alt)
    have "ascending (bmt_block ?H) (i + 1)"
      using 1(5) below by (intro ascending_extend [of "bmt_block D"]) (auto simp: w pool_filled_def)
    moreover have "unat p + (i + 1) \<le> unat (b + 1)" using pb(1) b(1) by (simp add: suc word_le_nat_alt)
    moreover have "p \<le> bmt_block ?H k \<and> bmt_block ?H k < b + 1 \<and> bmt_block ?H k < total_blks ?H \<and> bmt_mapped ?H k = NO_MAPPED"
      if "k < i + 1" for k
      using that 1(5) below pb(2) b lt same_descD(11) [OF sH] by (auto simp: w pool_filled_def less_Suc_eq)
    ultimately have pf: "pool_filled ?H p (b + 1) (i + 1)" by (simp add: pool_filled_def)
    have "scan_pool_loop ?H (b + 1) (i + 1) = (n, E)" using 1(2) False unfolding eq by simp
    from 1(1) [OF fv [symmetric] refl False this] pf 1(3,4) fits_same(1) [OF sH] same_descD(9) [OF sH]
    have "same_desc ?H E \<and> (\<forall>j < unat (table_size ?H). bb_tbl E j = bb_tbl ?H j) \<and> i + 1 \<le> n \<and> (\<exists>blk. pool_filled E p blk n)"
      by auto
    then show ?thesis using same_desc_trans [OF sH] bb same_descD(4) [OF sH] by auto
  qed
qed

section \<open>The whole scan\<close>

lemma scan_bad_blocks:
  assumes r: "scan_bad_blocks D = (0, E)" and f: "v2_fits D" and kn: "knows D good"
  shows "same_desc D E" "v2_inv E" "v2_marked E" "main_filled good E (unat (pool_lba D))" "bb_tbl E 0 = 0"
proof -
  let ?D0 = "set_bb_tbl D 0 0"
  have lba: "0 < unat (pool_lba D)" using f by (auto simp: v2_fits_def word_le_nat_alt)
  have s0: "same_desc D ?D0" by simp
  have z: "bb_tbl ?D0 0 = 0" using f lba by (simp add: bb_tbl_set in_bb_def)
  have tot: "0 < total_blks D" using f lba by (auto simp: v2_fits_def word_le_nat_alt word_less_nat_alt)
  obtain ok D1 n where m: "scan_main_loop ?D0 1 = (ok, D1, n)" by (cases "scan_main_loop ?D0 1") auto
  have m0: "main_filled good ?D0 1"
    using tot z same_descD(11) [OF s0] by (simp add: main_filled_def ascending_def)
  from scan_main_loop [OF m] m0 f lba fits_same(1) [OF s0] same_descD(9) [OF s0] knows_same [OF s0 kn]
  have s1: "same_desc ?D0 D1" and fill: "ok \<Longrightarrow> n = unat (pool_lba D) \<and> main_filled good D1 n" by auto
  have ok: "ok" using r m by (simp add: scan_bad_blocks_def split: if_splits)
  note fill = fill [OF ok]
  let ?p = "bb_tbl D1 (n - 1) + 1"
  let ?D1 = "D1\<lparr>pool_pba := ?p\<rparr>"
  obtain c D2 where pl: "scan_pool_loop ?D1 ?p 0 = (c, D2)" by fastforce
  let ?D2 = "D2\<lparr>bmt_blk_idx := of_nat c - 1\<rparr>"
  have res: "c \<ge> 1" "E = set_bmt_mapped ?D2 (unat (of_nat c - 1 :: u16)) BMT_MAPPED"
    using r m ok pl by (auto simp: scan_bad_blocks_def Let_def split: if_splits)
  have sD1: "same_desc D D1" by (rule same_desc_trans [OF s0 s1])
  then have sD1': "same_desc D ?D1" by (simp add: same_desc_def)
  have n: "n = unat (pool_lba D)" "main_filled good D1 n" "0 < n" using fill lba by auto
  have last: "bb_tbl D1 (n - 1) < total_blks D"
    using n same_descD(11) [OF sD1] by (simp add: main_filled_def)
  have p: "unat ?p = Suc (unat (bb_tbl D1 (n - 1)))" by (rule unat_Suc_less [OF last])
  have "n - 1 \<le> unat (bb_tbl D1 (n - 1))"
    using ascending_ge [of "bb_tbl D1" n "n - 1"] n by (simp add: main_filled_def)
  then have lp: "pool_lba D \<le> ?p" using n p by (simp add: word_le_nat_alt)
  have used: "bb_tbl D1 j < ?p" if "j < n" for j
  proof -
    have "n - 1 < n" "j = n - 1 \<or> j < n - 1" using n(3) that by auto
    then have "j = n - 1 \<or> bb_tbl D1 j < bb_tbl D1 (n - 1)" using n(2) by (auto simp: main_filled_def ascending_def)
    then show ?thesis using p by (auto simp: word_less_nat_alt)
  qed
  have "pool_filled ?D1 ?p ?p 0" by (simp add: pool_filled_def ascending_def)
  from scan_pool_loop [OF pl _ _ this] f lp fits_same(1) [OF sD1'] same_descD [OF sD1']
  obtain blk where s2: "same_desc ?D1 D2" and bb2: "\<And>j. j < unat (table_size D) \<Longrightarrow> bb_tbl D2 j = bb_tbl D1 j"
    and pf: "pool_filled D2 ?p blk c" by auto
  have sD2: "same_desc D ?D2" using same_desc_trans [OF sD1' s2] by (simp add: same_desc_def)
  have tD2: "total_blks D2 = total_blks D" using same_descD(11) [OF sD2] by simp
  have ge: "unat (bmt_block D2 0) + (c - 1) \<le> unat (bmt_block D2 (c - 1))"
    using ascending_ge [of "bmt_block D2" c "c - 1"] pf res(1) by (simp add: pool_filled_def)
  have ent: "?p \<le> bmt_block D2 k" "bmt_block D2 k < total_blks D" "bmt_mapped D2 k = NO_MAPPED" if "k < c" for k
    using pf that tD2 by (simp_all add: pool_filled_def)
  have cb: "c - 1 < unat (total_blks D) - unat (pool_lba D)"
    using ge ent(1) [of 0] ent(2) [of "c - 1"] lp res(1) by (simp add: word_le_nat_alt word_less_nat_alt)
  then have "c - 1 < 2 ^ 16" using unsigned_less [of "total_blks D", where ?'a = nat] by simp
  moreover have "of_nat c - 1 = (of_nat (c - 1) :: u16)" using res(1) by (simp add: of_nat_diff)
  ultimately have idx: "unat (of_nat c - 1 :: u16) = c - 1" by (simp add: unat_of_nat)
  have fD2: "v2_fits ?D2" "in_pool ?D2 (c - 1)" using f cb fits_same [OF sD2] by (auto simp: in_pool_def)
  have E: "E = set_bmt_mapped ?D2 (c - 1) BMT_MAPPED" using res(2) by (simp only: idx)
  have sE: "same_desc D E" unfolding E by (rule same_desc_trans [OF sD2]) simp
  note T = same_descD(4,9,11) [OF sE]
  have vE: "bmt_block E k = bmt_block D2 k" "bmt_mapped E k = (if k = c - 1 then BMT_MAPPED else bmt_mapped D2 k)" for k
    using pool_set_mapped [OF fD2, of BMT_MAPPED k] by (simp_all add: E)
  have iE: "unat (bmt_blk_idx E) = c - 1" using idx by (simp add: E set_bmt_mapped_def)
  have bbE: "bb_tbl E j = bb_tbl D1 j" if "j < n" for j
  proof -
    have "j < unat (table_size D)" using that n(1) v2_inv_bb [OF f] by simp
    then show ?thesis using bb2 same_descD(4) [OF sD2] by (simp add: E)
  qed
  show "same_desc D E" by (rule sE)
  show mf: "main_filled good E (unat (pool_lba D))"
    using main_filled_cong [OF bbE, of n good] n T(3) same_descD(11) [OF sD1] by simp
  show "v2_marked E" using ent(3) res(1) by (auto simp: v2_marked_def iE vE)
  have "v2_mapping_ok E"
    using mf T by (auto simp: v2_mapping_ok_def main_filled_def ascending_inj)
  moreover have "inj_on (bmt_block E) {..c - 1}"
  proof -
    have "{..c - 1} = {..<c}" using res(1) by auto
    moreover have "inj_on (bmt_block E) {..<c} \<longleftrightarrow> inj_on (bmt_block D2) {..<c}" by (rule inj_on_cong) (simp add: vE)
    ultimately show ?thesis using pf ascending_inj by (auto simp: pool_filled_def)
  qed
  moreover have "bmt_block E k \<noteq> 0 \<and> bmt_block E k < total_blks E \<and> (\<forall>j < unat (pool_lba E). bb_tbl E j \<noteq> bmt_block E k)"
    if "k \<le> c - 1" for k
  proof -
    have k: "k < c" using that res(1) by simp
    have "?p \<noteq> 0" using p by auto
    then have "bmt_block D2 k \<noteq> 0" using ent(1) [OF k] by auto
    moreover have "bb_tbl E j \<noteq> bmt_block D2 k" if "j < n" for j
      using used [OF that] ent(1) [OF k] bbE [OF that] by auto
    ultimately show ?thesis using ent(2) [OF k] by (simp add: vE T n(1))
  qed
  moreover have "v2_fits E" "in_pool E (c - 1)" using f cb fits_same [OF sE] by (auto simp: in_pool_def)
  ultimately show "v2_inv E" by (simp add: v2_inv_def iE)
  show "bb_tbl E 0 = 0" using mf by (simp add: main_filled_def)
qed

section \<open>The size of the buffer\<close>

text \<open>The buffer has room for \<open>table_size\<close> entries of four bytes, but \<open>bb_tbl\<close> and \<open>bmt_tbl\<close> together take
  six bytes for each.\<close>

lemma unat_or_le: "unat (x OR y) \<le> unat x + unat y" for x y :: "'a::len word"
proof -
  have "uint (x OR y) \<le> uint x + uint y"
    using plus_and_or [of "uint x" "uint y"] by (simp add: unsigned_or_eq) (metis add_increasing and_nonnegative_int_iff order_refl uint_ge_0)
  then show ?thesis by (metis nat_add_distrib nat_mono uint_ge_0 unat_eq_nat_uint)
qed

lemma round_up_less: "unat (round_up x y) < unat x + unat y" if "0 < x" "0 < y" "unat x + unat y < 2 ^ LENGTH('a)" for x y :: "'a::len word"
proof -
  have "unat ((x - 1) OR (y - 1)) \<le> unat (x - 1) + unat (y - 1)" by (rule unat_or_le)
  moreover have "unat (x - 1) = unat x - 1" "unat (y - 1) = unat y - 1" using that by (simp_all add: unat_pred)
  ultimately have le: "unat ((x - 1) OR (y - 1)) \<le> unat x - 1 + (unat y - 1)" by simp
  have pos: "0 < unat x" "0 < unat y" using that by (simp_all add: word_less_nat_alt)
  show ?thesis
    using le pos that(3) by (simp add: round_up_def unat_word_ariths)
qed

lemma v2_buffer_too_small:
  assumes "0 < pg_size D" "unat (pg_size D) \<le> 2 * unat (table_size D)" "unat (table_size D) < 2 ^ 24"
  shows "unat (v2_bufsz (table_size D) (pg_size D)) < bmt_tbl D (unat (table_size D))"
proof -
  let ?x = "4 + ucast (table_size D) * 4 :: u64" and ?y = "ucast (pg_size D) :: u64"
  have x: "unat ?x = 4 + unat (table_size D) * 4"
    using assms(3) by (simp add: unat_word_ariths)
  have "unat (round_up ?x ?y) < unat ?x + unat ?y"
    using assms x by (intro round_up_less) (auto simp: word_less_nat_alt)
  then have "unat (round_up ?x ?y) < bmt_tbl D (unat (table_size D))"
    using assms(2) by (simp add: x bmt_tbl_def)
  moreover have "unat (v2_bufsz (table_size D) (pg_size D)) \<le> unat (round_up ?x ?y)"
    by (simp add: v2_bufsz_def unsigned_ucast_eq take_bit_nat_less_eq_self)
  ultimately show ?thesis by simp
qed

section \<open>What attaching leaves alone\<close>

lemma scan_main_same: "scan_main_loop D i = (ok, E, n) \<Longrightarrow> same_desc D E"
proof (induction D i rule: scan_main_loop.induct)
  case (1 D i)
  show ?case
  proof (cases "i < unat (pool_lba D)")
    case True
    obtain b F where f: "find_valid_block D (bb_tbl D (i - 1) + 1) = (b, F)" by fastforce
    let ?F = "set_bb_tbl F i b"
    have s: "same_desc D ?F" by (rule same_desc_trans [OF find_valid_same [OF f [symmetric]] same_set_tables(1)])
    have eq: "scan_main_loop D i = (if b = 0 then (False, ?F, i) else scan_main_loop ?F (i + 1))"
      using True f by (subst scan_main_loop.simps) (simp add: Let_def)
    show ?thesis
    proof (cases "b = 0")
      case False
      then have "same_desc ?F E" using 1(2) eq by (intro 1(1) [OF True refl f [symmetric] refl]) simp_all
      then show ?thesis by (rule same_desc_trans [OF s])
    qed (use 1(2) eq s in auto)
  qed (use 1(2) in \<open>simp add: scan_main_loop.simps\<close>)
qed

lemma scan_pool_same: "scan_pool_loop D block i = (n, E) \<Longrightarrow> same_desc D E"
proof (induction D block i rule: scan_pool_loop.induct)
  case (1 D block i)
  obtain b F where f: "find_valid_block D block = (b, F)" by fastforce
  let ?F = "set_bmt_mapped (set_bmt_block F i b) i NO_MAPPED"
  have s: "same_desc D F" "same_desc F ?F"
    by (rule find_valid_same [OF f [symmetric]], rule same_desc_trans [OF same_set_tables(2,3)])
  have eq: "scan_pool_loop D block i = (if b \<noteq> 0 then scan_pool_loop ?F (b + 1) (i + 1) else (i, F))"
    using f by (subst scan_pool_loop.simps) (simp add: Let_def)
  show ?case
  proof (cases "b = 0")
    case False
    then have "same_desc ?F E" using 1(2) eq by (intro 1(1) [OF refl f [symmetric]]) simp_all
    then show ?thesis by (blast intro: same_desc_trans s)
  qed (use 1(2) eq s in simp)
qed

lemma scan_same:
  assumes "scan_bad_blocks D = (r, E)"
  shows "same_desc D E"
proof -
  have u: "same_desc F (F\<lparr>pool_pba := p\<rparr>)" "same_desc F (set_bmt_mapped (F\<lparr>bmt_blk_idx := x\<rparr>) k v)" for F :: "'a bmt_desc" and p x k v
    by (simp_all add: same_desc_def set_bmt_mapped_def)
  obtain ok F n where m: "scan_main_loop (set_bb_tbl D 0 0) 1 = (ok, F, n)" by (cases "scan_main_loop (set_bb_tbl D 0 0) 1") auto
  have sF: "same_desc D F" by (rule same_desc_trans [OF same_set_tables(1) scan_main_same [OF m]])
  let ?F = "F\<lparr>pool_pba := bb_tbl F (n - 1) + 1\<rparr>"
  obtain k G where p: "scan_pool_loop ?F (pool_pba ?F) 0 = (k, G)" by fastforce
  have "same_desc ?F G" by (rule scan_pool_same [OF p])
  then have sG: "same_desc D G" by (blast intro: same_desc_trans sF u)
  show ?thesis
    using assms m p sF sG u by (auto simp: scan_bad_blocks_def Let_def split: if_splits intro: same_desc_trans)
qed

lemma search_keeps:
  assumes "v2_search_loop D block bufsz = Some E"
  shows "attach_keeps D E"
proof (rule v2_search_loop.raw_induct [where P = "\<lambda>D block bufsz E. attach_keeps D E", OF _ assms])
  fix rec :: "'a bmt_desc \<Rightarrow> u16 \<Rightarrow> u32 \<Rightarrow> 'a bmt_desc option" and D E :: "'a bmt_desc" and block :: u16 and bufsz :: u32
  assume ih: "\<And>D block bufsz E. rec D block bufsz = Some E \<Longrightarrow> attach_keeps D E"
  assume c: "(if \<not> bbt_found D \<and> pool_lba D \<le> block then
        let (ret, dat, fdm, D) = bbt_nand_read D (blk_pg D block) (bbt_buf D) (ucast bufsz) (replicate 4 0) 4;
            D = D\<lparr>bbt_buf := dat\<rparr>
        in if ret \<noteq> 0 then rec D (block - 1) bufsz
           else if \<not> is_valid_bmt (bbt_buf D) fdm then rec D (block - 1) bufsz
           else do {
             idx \<leftarrow> get_bmt_index D;
             let D = D\<lparr>bmt_blk_idx := idx\<rparr>;
             if idx = 0 then Some D
             else rec (D\<lparr>bbt_found := True\<rparr>) (block - 1) bufsz
           }
      else Some D) = Some E"
  show "attach_keeps D E"
  proof (cases "\<not> bbt_found D \<and> pool_lba D \<le> block")
    case True
    obtain ret dat fdm F where r: "bbt_nand_read D (blk_pg D block) (bbt_buf D) (ucast bufsz) (replicate 4 0) 4 = (ret, dat, fdm, F)"
      by (cases "bbt_nand_read D (blk_pg D block) (bbt_buf D) (ucast bufsz) (replicate 4 0) 4") auto
    have s: "attach_keeps D F" by (rule attach_keeps_same [OF read_same [OF r [symmetric]]])
    have k: "attach_keeps D E" if "rec G b z = Some E" "attach_keeps D G" for G b z
      by (rule attach_keeps_trans [OF that(2) ih [OF that(1)]])
    show ?thesis
      using c True r s by (auto simp: Let_def split: if_splits Option.bind_splits elim!: k)
  next
    case False
    have "Some D = Some E" using c unfolding if_not_P [OF False] .
    then show ?thesis by simp
  qed
qed

lemma init_v2_keeps:
  assumes "mtk_bmt_init_v2 dt D = Some (ret, E)"
  shows "attach_keeps D E"
proof -
  have sz: "attach_keeps D (v2_sizes dt D)" by (simp add: v2_sizes_def Let_def attach_keeps_def)
  have k: "attach_keeps D F" if "v2_search_loop ((v2_sizes dt D)\<lparr>bbt_buf := b, bbt_found := f\<rparr>) block n = Some F" for b f block n F
    by (rule attach_keeps_trans [OF _ search_keeps [OF that]]) (simp add: sz)
  have c: "attach_keeps D (clear_bmt_tbl F) = attach_keeps D F" for F :: "'a bmt_desc" by (simp add: clear_bmt_tbl_def)
  have s: "attach_keeps D G" if "scan_bad_blocks F = (r, G)" "attach_keeps D F" for F G :: "'a bmt_desc" and r
    by (rule attach_keeps_trans [OF that(2) attach_keeps_same [OF scan_same [OF that(1)]]])
  have u: "attach_keeps D (reupload F)" if "attach_keeps D F" for F :: "'a bmt_desc"
    by (rule attach_keeps_trans [OF that attach_keeps_same [OF reupload_same]])
  show ?thesis
    using assms sz by (auto simp: mtk_bmt_init_v2_def Let_def c split: if_splits Option.bind_splits prod.splits dest!: k intro!: u elim!: s)
qed

interpretation v2_format: bmt_format mtk_bmt_v2_ops
proof unfold_locales
  show "attach_keeps D E" if "bops_init mtk_bmt_v2_ops t D = Some (ret, E)" for t ret and D E :: "'a bmt_desc"
    using that init_v2_keeps by (simp add: mtk_bmt_v2_ops_def)
qed

end
