(* ===== verification/Bmt_Demo.thy ===== *)
theory Bmt_Demo
  imports Bmt_Attach Bmt_Bbt Bmt_V2_Scan
begin

text \<open>
  A small concrete chip under the layer, on which the properties are tried out: 16 blocks of two
  8-byte pages. Blocks 3 and 12 carry a bad block mark; erasing block 15 can be made to fail.
\<close>

type_synonym mem = "u64 \<Rightarrow> u8"

definition demo_oob :: "u64 \<Rightarrow> u8 list" where
  "demo_oob a = (if drop_bit 4 a \<in> {3, 12} then 0 else 0xff) # bbt_sig"

definition mem_read :: "mem \<Rightarrow> u64 \<Rightarrow> mtd_oob_ops \<Rightarrow> int \<times> mtd_oob_ops \<times> mem" where
  "mem_read m a q = (0, q\<lparr>ops_retlen := ops_len q, ops_oobretlen := ops_ooblen q,
     ops_datbuf := map_option (\<lambda>b. map (\<lambda>i. m (a + of_nat i)) [0..<unat (ops_len q)] @ drop (unat (ops_len q)) b) (ops_datbuf q),
     ops_oobbuf := map_option (\<lambda>b. take (unat (ops_ooblen q)) (demo_oob a) @ drop (unat (ops_ooblen q)) b) (ops_oobbuf q)\<rparr>, m)"

definition mem_write :: "mem \<Rightarrow> u64 \<Rightarrow> mtd_oob_ops \<Rightarrow> int \<times> mtd_oob_ops \<times> mem" where
  "mem_write m a q = (0, q\<lparr>ops_retlen := ops_len q, ops_oobretlen := ops_ooblen q\<rparr>,
     case ops_datbuf q of None \<Rightarrow> m
     | Some b \<Rightarrow> (\<lambda>x. if a \<le> x \<and> x < a + ops_len q then b ! unat (x - a) else m x))"

definition mem_erase :: "u64 set \<Rightarrow> mem \<Rightarrow> u64 \<Rightarrow> u64 \<Rightarrow> int \<times> mem" where
  "mem_erase worn m a n = (if drop_bit 4 a \<in> worn then (- EIO, m) else (0, \<lambda>x. if a \<le> x \<and> x < a + n then 0xff else m x))"

definition mem_driver :: "u64 set \<Rightarrow> mem bmt_nand_ops" where
  "mem_driver worn = \<lparr>nand_read_oob = mem_read, nand_write_oob = mem_write, nand_erase = mem_erase worn,
     nand_block_isbad = (\<lambda>m a. (if drop_bit 4 a \<in> {3, 12} then 1 else 0, m)), nand_block_markbad = (\<lambda>m a. (0, m))\<rparr>"

definition demo_mem :: mem where
  "demo_mem a = ucast a"

definition demo_mtd :: "unit mtd_info" where
  "demo_mtd = \<lparr>m_type = 4, m_flags = 0, m_size = 256, m_erasesize = 16, m_writesize = 8, m_writebufsize = 8,
     m_oobsize = 8, m_oobavail = 8, m_erasesize_shift = 4, m_writesize_shift = 3, m_erasesize_mask = 15,
     m_writesize_mask = 7, m_bitflip_threshold = 0, m_ecc_step_size = 8, m_ecc_strength = 1, m_corrected = 0,
     m_failed = 0, m_priv = ()\<rparr>"

definition demo_desc :: "u64 set \<Rightarrow> (u32 \<times> u32) list option \<Rightarrow> u8 list \<Rightarrow> mem bmt_desc" where
  "demo_desc worn rs buf = \<lparr>bmt_mtd = demo_mtd, nand = demo_mem, nand_ops = mem_driver worn, bmt_sig = [0x62, 0x6d, 0x74],
     bbt_buf = buf, data_buf = replicate 16 0xff, bbt_found = True, table_size = 16, pg_size = 8, blk_size = 16,
     pg_shift = 3, blk_shift = 4, pool_lba = 10, pool_pba = 0, bb_max = 2, total_blks = 16, bmt_blk_idx = 15,
     bmt_pgs = 1, remap_range = rs, oob_offset = 0\<rparr>"

text \<open>The table of good and bad blocks marks block 2; the range is the first eight blocks.\<close>

definition demo_bbt :: "mem bmt_desc" where
  "demo_bbt = demo_desc {} (Some [(0, 128)]) [0x30, 0, 0, 0]"

definition demo_v2 :: "u64 set \<Rightarrow> mem bmt_desc" where
  "demo_v2 worn = demo_desc worn None (replicate 60 0)"

lemma demo_scan: "fst (scan_bad_blocks (demo_v2 {})) = 0"
  by code_simp

text \<open>The driver keeps to the contracts.\<close>

lemma mem_progress: "reads_progress (mem_driver worn)" "writes_progress (mem_driver worn)"
  by (simp_all add: reads_progress_def writes_progress_def mem_driver_def mem_read_def mem_write_def transfer_ok_def)

lemma demo_desc_simps [simp]:
  "nand_ops (demo_desc worn rs buf) = mem_driver worn" "nand (demo_desc worn rs buf) = demo_mem"
  "bmt_mtd (demo_desc worn rs buf) = demo_mtd" "blk_shift (demo_desc worn rs buf) = 4"
  "pg_shift (demo_desc worn rs buf) = 3" "blk_size (demo_desc worn rs buf) = 16" "total_blks (demo_desc worn rs buf) = 16"
  "pool_lba (demo_desc worn rs buf) = 10" "table_size (demo_desc worn rs buf) = 16" "bbt_buf (demo_desc worn rs buf) = buf"
  "remap_range (demo_desc worn rs buf) = rs" "oob_offset (demo_desc worn rs buf) = 0" "pg_size (demo_desc worn rs buf) = 8"
  by (simp_all add: demo_desc_def)

lemma demo_blocks: "bmt_blocks (demo_desc worn rs buf)"
  by (simp add: bmt_blocks_def bmt_geometry_def demo_mtd_def)

lemma demo_reads: "reads_bytes (demo_desc worn rs buf) demo_mem"
proof -
  have "\<not> above_threshold (demo_desc worn rs buf) r" for r by (simp add: above_threshold_def demo_mtd_def)
  then show ?thesis
    by (auto simp: reads_bytes_def mem_driver_def mem_read_def option.map_ident)
qed

lemma demo_area: "remap_area demo_bbt 0 8"
proof -
  have "block_range demo_bbt b 0 8 \<and> nat b div 4 < 4" if "0 \<le> b" "b < 8" for b
  proof -
    from that have "b \<in> {0, 1, 2, 3, 4, 5, 6, 7}" by auto
    then show ?thesis
      by (elim insertE emptyE; simp add: block_range_def mapping_block_in_range_def demo_bbt_def)
  qed
  moreover have "length (bbt_buf demo_bbt) = 4" by (simp add: demo_bbt_def)
  ultimately show ?thesis by (simp add: remap_area_def)
qed

lemma demo_fits: "v2_fits (demo_v2 worn)"
  by (simp add: v2_fits_def demo_v2_def)

lemma demo_knows: "knows (demo_v2 worn) (Some (\<lambda>b. b \<notin> {3, 12}))"
proof -
  have "r = 0 \<and> f ! 0 = 0xff \<longleftrightarrow> block \<notin> {3, 12}"
    if s: "same_desc (demo_v2 worn) E" and r: "bbt_nand_read E (blk_pg E block) (data_buf E) (ucast (pg_size E)) fdm 4 = (r, d, f, F)" for E block fdm r d f F
  proof -
    have p: "push_bit 3 (ucast block * 2) = (push_bit 4 (ucast block) :: u32)" by (simp add: push_bit_eq_mult)
    have a: "drop_bit 4 (ucast (push_bit 3 (ucast block * 2 :: u32)) :: u64) = ucast block"
      unfolding p by (rule bit_word_eqI) (auto simp: bit_simps dest: bit_imp_le_length)
    have u: "(ucast block :: u64) = 3 \<longleftrightarrow> block = 3" "(ucast block :: u64) = 12 \<longleftrightarrow> block = 12"
      using unsigned_less [of block, where ?'a = nat] by (simp_all add: word_unat_eq_iff unsigned_ucast_eq take_bit_nat_eq_self)
    show ?thesis using r same_descD [OF s] a u
      by (simp add: demo_v2_def bbt_nand_read_def mem_driver_def mem_read_def blk_pg_def demo_oob_def buf_of_def Let_def) auto
  qed
  then show ?thesis by (auto simp: knows_def block_marks_def)
qed

lemma demo_bbt_simps [simp]: "blk_shift demo_bbt = 4" "blk_size demo_bbt = 16"
  by (simp_all add: demo_bbt_def)

lemma demo_parts: "good_in demo_bbt 0 8 = [0, 1, 3, 4, 5, 6, 7]" "bad_in demo_bbt 0 8 = [2]"
  by code_simp+

lemma demo_mapping: "0 \<le> b \<Longrightarrow> b < 8 \<Longrightarrow> get_mapping_block_index_bbt demo_bbt b = Some ([0, 1, 3, 4, 5, 6, 7, 2] ! nat b)"
  using remap_area_mapping [OF demo_area, of b] by (simp add: bbt_layout_def demo_parts)

text \<open>Format v2 without a range maps every block.\<close>

lemma v2_maps: "remap_range D = None \<Longrightarrow> maps_block mtk_bmt_v2_ops D a \<or> sint (blk_number D a) < 0"
  by (auto simp: maps_block_def mtk_bmt_v2_ops_def get_mapping_block_index_v2_def in_range_none)

text \<open>The device before the layer is attached, with the formats it is given.\<close>

definition demo_dev :: "mem mtd_dev" where
  "demo_dev = \<lparr>dev_id = 1, dev_info = demo_mtd, dev_nand = demo_mem,
     dev_handlers = \<lparr>h_read_oob = Driver mem_read, h_write_oob = Driver mem_write, h_erase = Driver (mem_erase {}),
       h_block_isbad = Driver (\<lambda>m a. (0, m)), h_block_markbad = Driver (\<lambda>m a. (0, m))\<rparr>\<rparr>"

definition demo_node :: "bool bmt_node" where
  "demo_node = \<lparr>np_bmt_v2 = False, np_nmbm = False, np_bbt = True, np_remap_range = Some [(0, 128)], np_oobsize = Some 4,
     np_format = False, np_alloc_fails = False\<rparr>"

definition demo_formats :: "bmt_kind \<Rightarrow> (mem bmt_desc, bool) mtk_bmt_ops" where
  "demo_formats k = mtk_bmt_bbt_ops"

lemma demo_formats_keep: "formats_keep demo_formats"
  using bbt_format.init_keeps by (auto simp: formats_keep_def demo_formats_def)

lemma demo_drivers: "driver_only (dev_handlers demo_dev)"
  by (simp add: driver_only_iff demo_dev_def)

lemma demo_pow2: "pow2_device (dev_info demo_dev)"
proof -
  have "m_erasesize demo_mtd = 2 ^ 4" "m_writesize demo_mtd = 2 ^ 3" by (simp_all add: demo_mtd_def)
  moreover have "(4 :: nat) < 32" "(3 :: nat) < 32" by simp_all
  ultimately show ?thesis unfolding pow2_device_def demo_dev_def by (simp only: mtd_dev.simps) blast
qed

lemma demo_attaches: "map_option (\<lambda>(r, dev, g). (r, g = None)) (mtk_bmt_attach demo_formats (Some demo_node) demo_dev None) = Some (0, False)"
  by code_simp

end
