(* ===== verification/Hnat_Types.thy ===== *)
theory Hnat_Types
  imports Nmbm_Prelude
begin

text \<open>
  Hardware NAT (\<open>mtk_hnat\<close> of the 5.4 kernel, configured for \<open>CONFIG_MEDIATEK_NETSYS_V3\<close>):
  the entries of the flow table that software shares with the packet engine, the registers, and
  the state \<open>struct mtk_hnat\<close> as far as the modelled operations use it.

  An entry of the table (\<open>struct foe_entry\<close>) is a union of packed bit field structures of up to
  32 words. It is modelled as the words it consists of, so that writing a field of one structure
  and reading a field of another one means what it means in memory. A structure is the list
  of its fields with their widths, in the order of the source; the position of a field follows
  from it by adding up (little endian: a bit field is filled from the low end of the word).
\<close>

named_theorems foe_fields \<open>positions of the fields of the flow table entries\<close>
named_theorems hnat_frame \<open>parts of the state the operations leave alone\<close>

section \<open>Bit fields\<close>

type_synonym foe_entry = "nat \<Rightarrow> u32"
type_synonym layout = "(string \<times> nat) list"

fun field_pos :: "nat \<Rightarrow> layout \<Rightarrow> string \<Rightarrow> nat \<times> nat" where
  "field_pos off [] f = (off, 0)" |
  "field_pos off ((g, w) # fs) f = (if g = f then (off, w) else field_pos (off + w) fs f)"

definition layout_bits :: "layout \<Rightarrow> nat" where
  "layout_bits L = sum_list (map snd L)"

definition get_bits :: "nat \<times> nat \<Rightarrow> foe_entry \<Rightarrow> u32" where
  "get_bits p e = take_bit (snd p) (drop_bit (fst p mod 32) (e (fst p div 32)))"

definition set_bits_at :: "nat \<times> nat \<Rightarrow> u32 \<Rightarrow> foe_entry \<Rightarrow> foe_entry" where
  "set_bits_at p v e = e(fst p div 32 :=
     (e (fst p div 32) AND NOT (push_bit (fst p mod 32) (mask (snd p))))
       OR push_bit (fst p mod 32) (take_bit (snd p) v))"

text \<open>\<open>e->L.f\<close> and \<open>e->L.f = v\<close>.\<close>

definition getf :: "layout \<Rightarrow> string \<Rightarrow> foe_entry \<Rightarrow> u32" where
  "getf L f e = get_bits (field_pos 0 L f) e"

definition setf :: "layout \<Rightarrow> string \<Rightarrow> u32 \<Rightarrow> foe_entry \<Rightarrow> foe_entry" where
  "setf L f v e = set_bits_at (field_pos 0 L f) v e"

abbreviation zero_entry :: foe_entry where
  "zero_entry \<equiv> (\<lambda>_. 0)"

text \<open>The laws of a field: it reads back what was written, cut to its width, and a write leaves
  every field alone that shares no bit with it.\<close>

lemma insert_bits_same:
  "a + w \<le> 32 \<Longrightarrow>
   take_bit w (drop_bit a (((x :: u32) AND NOT (push_bit a (mask w))) OR push_bit a (take_bit w y))) = take_bit w y"
  by (rule bit_word_eqI) (auto simp: bit_simps)

lemma insert_bits_other:
  assumes "a + w \<le> b \<or> b + v \<le> a"
  shows "take_bit w (drop_bit a (((x :: u32) AND NOT (push_bit b (mask v))) OR push_bit b (take_bit v y)))
         = take_bit w (drop_bit a x)"
proof (rule bit_word_eqI)
  fix i assume "i < LENGTH(32)"
  have "i < w \<Longrightarrow> b \<le> a + i \<Longrightarrow> a + i - b < v \<Longrightarrow> False" using assms by linarith
  then show "bit (take_bit w (drop_bit a ((x AND NOT (push_bit b (mask v))) OR push_bit b (take_bit v y)))) i
      = bit (take_bit w (drop_bit a x)) i"
    by (auto simp: bit_simps dest: bit_imp_le_length)
qed

lemma field_get_set_same:
  "fst p mod 32 + snd p \<le> 32 \<Longrightarrow> get_bits p (set_bits_at p v e) = take_bit (snd p) v"
  by (simp only: get_bits_def set_bits_at_def fun_upd_same insert_bits_same)

lemma field_get_set_other:
  assumes "fst p + snd p \<le> fst q \<or> fst q + snd q \<le> fst p"
  shows "get_bits p (set_bits_at q v e) = get_bits p e"
proof (cases "fst p div 32 = fst q div 32")
  case True
  have "fst p mod 32 + snd p \<le> fst q mod 32 \<or> fst q mod 32 + snd q \<le> fst p mod 32"
    using assms True div_mult_mod_eq [of "fst p" 32] div_mult_mod_eq [of "fst q" 32] by linarith
  then show ?thesis
    by (simp only: get_bits_def set_bits_at_def fun_upd_same True insert_bits_other)
qed (simp add: get_bits_def set_bits_at_def)

text \<open>Writing a field that lies at an offset inside the one that is read.\<close>

lemma field_get_set_inside:
  assumes "fst p div 32 = fst q div 32" "fst p \<le> fst q" "fst q + snd q \<le> fst p + snd p"
    "fst p mod 32 + snd p \<le> 32"
  shows "get_bits p (set_bits_at q v e) =
    (get_bits p e AND NOT (push_bit (fst q - fst p) (mask (snd q)))) OR push_bit (fst q - fst p) (take_bit (snd q) v)"
proof -
  have q: "fst q mod 32 = fst p mod 32 + (fst q - fst p)"
    using assms(1,2) div_mult_mod_eq [of "fst p" 32] div_mult_mod_eq [of "fst q" 32] by linarith
  define a where "a = fst p mod 32"
  define d where "d = fst q - fst p"
  have d: "d + snd q \<le> snd p" "a + snd p \<le> 32" using assms by (auto simp: d_def a_def)
  have "take_bit (snd p) (drop_bit a ((x AND NOT (push_bit (a + d) (mask (snd q)))) OR push_bit (a + d) (take_bit (snd q) v)))
     = (take_bit (snd p) (drop_bit a x) AND NOT (push_bit d (mask (snd q)))) OR push_bit d (take_bit (snd q) v)" for x :: u32
    using d by (intro bit_word_eqI) (auto simp: bit_simps)
  then show ?thesis
    by (simp only: get_bits_def set_bits_at_def fun_upd_same assms(1) q flip: a_def d_def)
qed

lemma get_bits_cong: "e' (fst p div 32) = e (fst p div 32) \<Longrightarrow> get_bits p e' = get_bits p e"
  by (simp add: get_bits_def)

lemma set_bits_word:
  "k \<noteq> fst p div 32 \<Longrightarrow> set_bits_at p v e k = e k"
  by (simp add: set_bits_at_def)

text \<open>The same for fields by name; with the positions below the side conditions are numbers.\<close>

lemma getf_setf_same [foe_fields]:
  "fst (field_pos 0 L f) mod 32 + snd (field_pos 0 L f) \<le> 32 \<Longrightarrow>
   getf L f (setf L f v e) = take_bit (snd (field_pos 0 L f)) v"
  by (simp add: getf_def setf_def field_get_set_same)

lemma getf_setf_other [foe_fields]:
  "fst (field_pos 0 L f) + snd (field_pos 0 L f) \<le> fst (field_pos 0 M g)
   \<or> fst (field_pos 0 M g) + snd (field_pos 0 M g) \<le> fst (field_pos 0 L f) \<Longrightarrow>
   getf L f (setf M g v e) = getf L f e"
  by (simp add: getf_def setf_def field_get_set_other)

lemma getf_cong: "e' (fst (field_pos 0 L f) div 32) = e (fst (field_pos 0 L f) div 32) \<Longrightarrow> getf L f e' = getf L f e"
  unfolding getf_def by (rule get_bits_cong)

lemma setf_word: "k \<noteq> fst (field_pos 0 L f) div 32 \<Longrightarrow> setf L f v e k = e k"
  by (simp add: setf_def set_bits_word)

section \<open>The structures of an entry\<close>

definition sub_layout :: "string \<Rightarrow> layout \<Rightarrow> layout" where
  "sub_layout p L = map (\<lambda>(f, w). (p @ f, w)) L"

definition hnat_bind_info_blk :: layout where
  "hnat_bind_info_blk =
     [(''time_stamp'', 8), (''sp'', 4), (''mc'', 1), (''ka'', 1), (''vlan_layer'', 3),
      (''psn'', 1), (''vpm'', 1), (''ps'', 1), (''cah'', 1), (''rmt'', 1), (''ttl'', 1),
      (''pkt_type'', 5), (''state'', 2), (''udp'', 1), (''sta'', 1)]"

definition hnat_unbind_info_blk :: layout where
  "hnat_unbind_info_blk =
     [(''time_stamp'', 8), (''sp'', 4), (''pcnt'', 8), (''ilgf'', 1), (''mc'', 1),
      (''preb'', 1), (''pkt_type'', 5), (''state'', 2), (''udp'', 1), (''sta'', 1)]"

definition hnat_info_blk2 :: layout where
  "hnat_info_blk2 =
     [(''qid'', 7), (''port_mg'', 1), (''fqos'', 1), (''dp'', 4), (''mcast'', 1),
      (''pcpl'', 1), (''mibf'', 1), (''alen'', 1), (''rxid'', 2), (''winfoi'', 1),
      (''port_ag'', 4), (''dscp'', 8)]"

definition hnat_winfo :: layout where
  "hnat_winfo =
     [(''wcid'', 16), (''bssid'', 8), (''resv'', 8)]"

definition hnat_winfo_pao :: layout where
  "hnat_winfo_pao =
     [(''usr_info'', 16), (''tid'', 4), (''is_fixedrate'', 1), (''is_prior'', 1),
      (''is_sp'', 1), (''hf'', 1), (''amsdu'', 1), (''resv'', 7)]"

definition hnat_l2_bridge :: layout where
  "hnat_l2_bridge =
     sub_layout ''bfib1.'' hnat_bind_info_blk
     @ [(''dmac_hi'', 32), (''smac_lo'', 16), (''dmac_lo'', 16), (''smac_hi'', 32),
      (''etype'', 16), (''hph'', 16), (''vlan1'', 16), (''vlan2'', 16), (''resv1'', 32),
      (''resv2'', 32)]
     @ sub_layout ''iblk2.'' hnat_info_blk2
     @ [(''resv3'', 32), (''resv4'', 24), (''act_dp'', 8), (''new_vlan1'', 16),
      (''sp_tag'', 16), (''new_dmac_hi'', 32), (''new_vlan2'', 16), (''new_dmac_lo'', 16),
      (''new_smac_hi'', 32), (''resv5'', 16), (''new_smac_lo'', 16), (''resv6'', 32)]
     @ sub_layout ''winfo.'' hnat_winfo
     @ sub_layout ''winfo_pao.'' hnat_winfo_pao"

definition hnat_ipv4_hnapt :: layout where
  "hnat_ipv4_hnapt =
     sub_layout ''bfib1.'' hnat_bind_info_blk
     @ [(''sip'', 32), (''dip'', 32), (''dport'', 16), (''sport'', 16)]
     @ sub_layout ''iblk2.'' hnat_info_blk2
     @ [(''new_sip'', 32), (''new_dip'', 32), (''new_dport'', 16), (''new_sport'', 16),
      (''m_timestamp'', 16), (''resv1'', 16), (''resv2'', 32), (''resv3_1'', 9),
      (''eg_keep_ecn'', 1), (''eg_keep_dscp'', 1), (''resv3_2'', 13), (''act_dp'', 8),
      (''vlan1'', 16), (''sp_tag'', 16), (''dmac_hi'', 32), (''vlan2'', 16),
      (''dmac_lo'', 16), (''smac_hi'', 32), (''pppoe_id'', 16), (''smac_lo'', 16),
      (''minfo'', 16), (''resv4'', 16)]
     @ sub_layout ''winfo.'' hnat_winfo
     @ sub_layout ''winfo_pao.'' hnat_winfo_pao
     @ [(''cdrt_id'', 8), (''tops_entry'', 6), (''resv5'', 2), (''tport_id'', 4),
      (''resv6'', 12)]"

definition hnat_ipv4_dslite :: layout where
  "hnat_ipv4_dslite =
     sub_layout ''bfib1.'' hnat_bind_info_blk
     @ [(''sip'', 32), (''dip'', 32), (''dport'', 16), (''sport'', 16),
      (''tunnel_sipv6_0'', 32), (''tunnel_sipv6_1'', 32), (''tunnel_sipv6_2'', 32),
      (''tunnel_sipv6_3'', 32), (''tunnel_dipv6_0'', 32), (''tunnel_dipv6_1'', 32),
      (''tunnel_dipv6_2'', 32), (''tunnel_dipv6_3'', 32), (''flow_lbl0'', 8),
      (''flow_lbl1'', 8), (''flow_lbl2'', 8), (''priority'', 8), (''hop_limit'', 8),
      (''resv2_1'', 1), (''eg_keep_ecn'', 1), (''eg_keep_cls'', 1), (''resv2_2'', 13),
      (''act_dp'', 8)]
     @ sub_layout ''iblk2.'' hnat_info_blk2
     @ [(''vlan1'', 16), (''sp_tag'', 16), (''dmac_hi'', 32), (''vlan2'', 16),
      (''dmac_lo'', 16), (''smac_hi'', 32), (''pppoe_id'', 16), (''smac_lo'', 16),
      (''minfo'', 16), (''resv3'', 16)]
     @ sub_layout ''winfo.'' hnat_winfo
     @ sub_layout ''winfo_pao.'' hnat_winfo_pao
     @ [(''cdrt_id'', 8), (''tops_entry'', 6), (''resv4'', 2), (''tport_id'', 4),
      (''resv5'', 12)]"

definition hnat_ipv4_mape :: layout where
  "hnat_ipv4_mape =
     sub_layout ''bfib1.'' hnat_bind_info_blk
     @ [(''sip'', 32), (''dip'', 32), (''dport'', 16), (''sport'', 16),
      (''tunnel_sipv6_0'', 32), (''tunnel_sipv6_1'', 32), (''tunnel_sipv6_2'', 32),
      (''tunnel_sipv6_3'', 32), (''tunnel_dipv6_0'', 32), (''tunnel_dipv6_1'', 32),
      (''tunnel_dipv6_2'', 32), (''tunnel_dipv6_3'', 32), (''flow_lbl0'', 8),
      (''flow_lbl1'', 8), (''flow_lbl2'', 8), (''priority'', 8), (''hop_limit'', 8),
      (''resv2_1'', 1), (''eg_keep_ecn'', 1), (''eg_keep_dscp'', 1), (''resv2_2'', 13),
      (''act_dp'', 8)]
     @ sub_layout ''iblk2.'' hnat_info_blk2
     @ [(''vlan1'', 16), (''sp_tag'', 16), (''dmac_hi'', 32), (''vlan2'', 16),
      (''dmac_lo'', 16), (''smac_hi'', 32), (''pppoe_id'', 16), (''smac_lo'', 16),
      (''minfo'', 16), (''resv3'', 16), (''new_sip'', 32), (''new_dip'', 32),
      (''new_dport'', 16), (''new_sport'', 16)]
     @ sub_layout ''winfo.'' hnat_winfo
     @ sub_layout ''winfo_pao.'' hnat_winfo_pao
     @ [(''cdrt_id'', 8), (''tops_entry'', 6), (''resv4'', 2), (''tport_id'', 4),
      (''resv5'', 12)]"

definition hnat_ipv6_3t_route :: layout where
  "hnat_ipv6_3t_route =
     sub_layout ''bfib1.'' hnat_bind_info_blk
     @ [(''ipv6_sip0'', 32), (''ipv6_sip1'', 32), (''ipv6_sip2'', 32), (''ipv6_sip3'', 32),
      (''ipv6_dip0'', 32), (''ipv6_dip1'', 32), (''ipv6_dip2'', 32), (''ipv6_dip3'', 32),
      (''prot'', 8), (''hph'', 24), (''resv1'', 32), (''resv2'', 32), (''resv3'', 32),
      (''resv4_1'', 9), (''eg_keep_ecn'', 1), (''eg_keep_cls'', 1), (''resv4_2'', 13),
      (''act_dp'', 8)]
     @ sub_layout ''iblk2.'' hnat_info_blk2
     @ [(''vlan1'', 16), (''sp_tag'', 16), (''dmac_hi'', 32), (''vlan2'', 16),
      (''dmac_lo'', 16), (''smac_hi'', 32), (''pppoe_id'', 16), (''smac_lo'', 16),
      (''minfo'', 16), (''resv5'', 16)]
     @ sub_layout ''winfo.'' hnat_winfo
     @ sub_layout ''winfo_pao.'' hnat_winfo_pao
     @ [(''cdrt_id'', 8), (''tops_entry'', 6), (''resv6'', 2), (''tport_id'', 4),
      (''resv7'', 12)]"

definition hnat_ipv6_5t_route :: layout where
  "hnat_ipv6_5t_route =
     sub_layout ''bfib1.'' hnat_bind_info_blk
     @ [(''ipv6_sip0'', 32), (''ipv6_sip1'', 32), (''ipv6_sip2'', 32), (''ipv6_sip3'', 32),
      (''ipv6_dip0'', 32), (''ipv6_dip1'', 32), (''ipv6_dip2'', 32), (''ipv6_dip3'', 32),
      (''dport'', 16), (''sport'', 16), (''resv1'', 32), (''resv2'', 32), (''resv3'', 32),
      (''resv4_1'', 9), (''eg_keep_ecn'', 1), (''eg_keep_cls'', 1), (''resv4_2'', 13),
      (''act_dp'', 8)]
     @ sub_layout ''iblk2.'' hnat_info_blk2
     @ [(''vlan1'', 16), (''sp_tag'', 16), (''dmac_hi'', 32), (''vlan2'', 16),
      (''dmac_lo'', 16), (''smac_hi'', 32), (''pppoe_id'', 16), (''smac_lo'', 16),
      (''minfo'', 16), (''resv5'', 16)]
     @ sub_layout ''winfo.'' hnat_winfo
     @ sub_layout ''winfo_pao.'' hnat_winfo_pao
     @ [(''cdrt_id'', 8), (''tops_entry'', 6), (''resv6'', 2), (''tport_id'', 4),
      (''resv7'', 12)]"

definition hnat_ipv6_6rd :: layout where
  "hnat_ipv6_6rd =
     sub_layout ''bfib1.'' hnat_bind_info_blk
     @ [(''ipv6_sip0'', 32), (''ipv6_sip1'', 32), (''ipv6_sip2'', 32), (''ipv6_sip3'', 32),
      (''ipv6_dip0'', 32), (''ipv6_dip1'', 32), (''ipv6_dip2'', 32), (''ipv6_dip3'', 32),
      (''dport'', 16), (''sport'', 16), (''tunnel_sipv4'', 32), (''tunnel_dipv4'', 32),
      (''hdr_chksum'', 16), (''dscp'', 8), (''ttl'', 8), (''flag'', 3), (''resv1_1'', 6),
      (''eg_keep_ecn'', 1), (''eg_keep_cls'', 1), (''eg_keep_tnl_qos'', 1),
      (''resv1_2'', 4), (''per_flow_6rd_id'', 1), (''resv2'', 7), (''act_dp'', 8)]
     @ sub_layout ''iblk2.'' hnat_info_blk2
     @ [(''vlan1'', 16), (''sp_tag'', 16), (''dmac_hi'', 32), (''vlan2'', 16),
      (''dmac_lo'', 16), (''smac_hi'', 32), (''pppoe_id'', 16), (''smac_lo'', 16),
      (''minfo'', 16), (''resv3'', 16)]
     @ sub_layout ''winfo.'' hnat_winfo
     @ sub_layout ''winfo_pao.'' hnat_winfo_pao
     @ [(''cdrt_id'', 8), (''tops_entry'', 6), (''resv4'', 2), (''tport_id'', 4),
      (''resv5'', 12)]"

definition hnat_ipv6_hnapt :: layout where
  "hnat_ipv6_hnapt =
     sub_layout ''bfib1.'' hnat_bind_info_blk
     @ [(''ipv6_sip0'', 32), (''ipv6_sip1'', 32), (''ipv6_sip2'', 32), (''ipv6_sip3'', 32),
      (''ipv6_dip0'', 32), (''ipv6_dip1'', 32), (''ipv6_dip2'', 32), (''ipv6_dip3'', 32),
      (''dport'', 16), (''sport'', 16), (''resv1'', 32), (''resv2'', 32), (''resv3'', 32),
      (''resv4'', 8), (''eg_ipv6_dir'', 1), (''eg_keep_ecn'', 1), (''eg_keep_cls'', 1),
      (''resv5'', 13), (''act_dp'', 8)]
     @ sub_layout ''iblk2.'' hnat_info_blk2
     @ [(''vlan1'', 16), (''sp_tag'', 16), (''dmac_hi'', 32), (''vlan2'', 16),
      (''dmac_lo'', 16), (''smac_hi'', 32), (''pppoe_id'', 16), (''smac_lo'', 16),
      (''minfo'', 16), (''resv6'', 16), (''new_ipv6_ip0'', 32), (''new_ipv6_ip1'', 32),
      (''new_ipv6_ip2'', 32), (''new_ipv6_ip3'', 32), (''new_dport'', 16),
      (''new_sport'', 16)]
     @ sub_layout ''winfo.'' hnat_winfo
     @ sub_layout ''winfo_pao.'' hnat_winfo_pao
     @ [(''cdrt_id'', 8), (''tops_entry'', 6), (''resv7'', 2), (''tport_id'', 4),
      (''resv8'', 12), (''resv9'', 32), (''resv10'', 32), (''resv11'', 32)]"

text \<open>The positions of the fields the operations use.\<close>

lemma hnat_bind_info_blk_pos [foe_fields]:
  "field_pos 0 hnat_bind_info_blk ''time_stamp'' = (0, 8)"
  "field_pos 0 hnat_bind_info_blk ''vlan_layer'' = (14, 3)"
  "field_pos 0 hnat_bind_info_blk ''psn'' = (17, 1)"
  "field_pos 0 hnat_bind_info_blk ''ttl'' = (22, 1)"
  "field_pos 0 hnat_bind_info_blk ''pkt_type'' = (23, 5)"
  "field_pos 0 hnat_bind_info_blk ''state'' = (28, 2)"
  "field_pos 0 hnat_bind_info_blk ''udp'' = (30, 1)"
  by code_simp+

lemma hnat_ipv4_dslite_pos [foe_fields]:
  "field_pos 0 hnat_ipv4_dslite ''sip'' = (32, 32)"
  "field_pos 0 hnat_ipv4_dslite ''dip'' = (64, 32)"
  "field_pos 0 hnat_ipv4_dslite ''tunnel_sipv6_0'' = (128, 32)"
  "field_pos 0 hnat_ipv4_dslite ''tunnel_dipv6_0'' = (256, 32)"
  by code_simp+

lemma hnat_ipv4_hnapt_pos [foe_fields]:
  "field_pos 0 hnat_ipv4_hnapt ''sip'' = (32, 32)"
  "field_pos 0 hnat_ipv4_hnapt ''dip'' = (64, 32)"
  "field_pos 0 hnat_ipv4_hnapt ''dport'' = (96, 16)"
  "field_pos 0 hnat_ipv4_hnapt ''sport'' = (112, 16)"
  "field_pos 0 hnat_ipv4_hnapt ''iblk2.qid'' = (128, 7)"
  "field_pos 0 hnat_ipv4_hnapt ''iblk2.fqos'' = (136, 1)"
  "field_pos 0 hnat_ipv4_hnapt ''iblk2.dp'' = (137, 4)"
  "field_pos 0 hnat_ipv4_hnapt ''iblk2.dscp'' = (152, 8)"
  "field_pos 0 hnat_ipv4_hnapt ''new_sip'' = (160, 32)"
  "field_pos 0 hnat_ipv4_hnapt ''new_dip'' = (192, 32)"
  "field_pos 0 hnat_ipv4_hnapt ''new_dport'' = (224, 16)"
  "field_pos 0 hnat_ipv4_hnapt ''new_sport'' = (240, 16)"
  "field_pos 0 hnat_ipv4_hnapt ''vlan1'' = (352, 16)"
  "field_pos 0 hnat_ipv4_hnapt ''sp_tag'' = (368, 16)"
  "field_pos 0 hnat_ipv4_hnapt ''dmac_hi'' = (384, 32)"
  "field_pos 0 hnat_ipv4_hnapt ''vlan2'' = (416, 16)"
  "field_pos 0 hnat_ipv4_hnapt ''dmac_lo'' = (432, 16)"
  "field_pos 0 hnat_ipv4_hnapt ''smac_hi'' = (448, 32)"
  "field_pos 0 hnat_ipv4_hnapt ''pppoe_id'' = (480, 16)"
  "field_pos 0 hnat_ipv4_hnapt ''smac_lo'' = (496, 16)"
  "field_pos 0 hnat_ipv4_hnapt ''winfo.wcid'' = (544, 16)"
  "field_pos 0 hnat_ipv4_hnapt ''winfo.bssid'' = (560, 8)"
  "field_pos 0 hnat_ipv4_hnapt ''winfo_pao.tid'' = (592, 4)"
  "field_pos 0 hnat_ipv4_hnapt ''winfo_pao.is_prior'' = (597, 1)"
  "field_pos 0 hnat_ipv4_hnapt ''tport_id'' = (624, 4)"
  by code_simp+

lemma hnat_ipv4_mape_pos [foe_fields]:
  "field_pos 0 hnat_ipv4_mape ''iblk2.dp'' = (457, 4)"
  "field_pos 0 hnat_ipv4_mape ''new_sport'' = (752, 16)"
  "field_pos 0 hnat_ipv4_mape ''winfo.wcid'' = (768, 16)"
  "field_pos 0 hnat_ipv4_mape ''winfo.bssid'' = (784, 8)"
  "field_pos 0 hnat_ipv4_mape ''winfo_pao.tid'' = (816, 4)"
  "field_pos 0 hnat_ipv4_mape ''winfo_pao.is_prior'' = (821, 1)"
  "field_pos 0 hnat_ipv4_mape ''tport_id'' = (848, 4)"
  by code_simp+

lemma hnat_ipv6_3t_route_pos [foe_fields]:
  "field_pos 0 hnat_ipv6_3t_route ''ipv6_sip0'' = (32, 32)"
  "field_pos 0 hnat_ipv6_3t_route ''ipv6_dip0'' = (160, 32)"
  by code_simp+

lemma hnat_ipv6_5t_route_pos [foe_fields]:
  "field_pos 0 hnat_ipv6_5t_route ''ipv6_sip0'' = (32, 32)"
  "field_pos 0 hnat_ipv6_5t_route ''ipv6_sip1'' = (64, 32)"
  "field_pos 0 hnat_ipv6_5t_route ''ipv6_sip2'' = (96, 32)"
  "field_pos 0 hnat_ipv6_5t_route ''ipv6_sip3'' = (128, 32)"
  "field_pos 0 hnat_ipv6_5t_route ''ipv6_dip0'' = (160, 32)"
  "field_pos 0 hnat_ipv6_5t_route ''ipv6_dip1'' = (192, 32)"
  "field_pos 0 hnat_ipv6_5t_route ''ipv6_dip2'' = (224, 32)"
  "field_pos 0 hnat_ipv6_5t_route ''ipv6_dip3'' = (256, 32)"
  "field_pos 0 hnat_ipv6_5t_route ''dport'' = (288, 16)"
  "field_pos 0 hnat_ipv6_5t_route ''sport'' = (304, 16)"
  "field_pos 0 hnat_ipv6_5t_route ''iblk2.qid'' = (448, 7)"
  "field_pos 0 hnat_ipv6_5t_route ''iblk2.fqos'' = (456, 1)"
  "field_pos 0 hnat_ipv6_5t_route ''iblk2.dp'' = (457, 4)"
  "field_pos 0 hnat_ipv6_5t_route ''iblk2.dscp'' = (472, 8)"
  "field_pos 0 hnat_ipv6_5t_route ''vlan1'' = (480, 16)"
  "field_pos 0 hnat_ipv6_5t_route ''sp_tag'' = (496, 16)"
  "field_pos 0 hnat_ipv6_5t_route ''dmac_hi'' = (512, 32)"
  "field_pos 0 hnat_ipv6_5t_route ''vlan2'' = (544, 16)"
  "field_pos 0 hnat_ipv6_5t_route ''dmac_lo'' = (560, 16)"
  "field_pos 0 hnat_ipv6_5t_route ''smac_hi'' = (576, 32)"
  "field_pos 0 hnat_ipv6_5t_route ''pppoe_id'' = (608, 16)"
  "field_pos 0 hnat_ipv6_5t_route ''smac_lo'' = (624, 16)"
  "field_pos 0 hnat_ipv6_5t_route ''winfo.wcid'' = (672, 16)"
  "field_pos 0 hnat_ipv6_5t_route ''winfo.bssid'' = (688, 8)"
  "field_pos 0 hnat_ipv6_5t_route ''winfo_pao.tid'' = (720, 4)"
  "field_pos 0 hnat_ipv6_5t_route ''winfo_pao.is_prior'' = (725, 1)"
  "field_pos 0 hnat_ipv6_5t_route ''tport_id'' = (752, 4)"
  by code_simp+

lemma hnat_ipv6_6rd_pos [foe_fields]:
  "field_pos 0 hnat_ipv6_6rd ''tunnel_sipv4'' = (320, 32)"
  "field_pos 0 hnat_ipv6_6rd ''tunnel_dipv4'' = (352, 32)"
  by code_simp+

lemma hnat_ipv6_hnapt_pos [foe_fields]:
  "field_pos 0 hnat_ipv6_hnapt ''ipv6_sip0'' = (32, 32)"
  "field_pos 0 hnat_ipv6_hnapt ''iblk2.dp'' = (457, 4)"
  "field_pos 0 hnat_ipv6_hnapt ''new_ipv6_ip0'' = (672, 32)"
  "field_pos 0 hnat_ipv6_hnapt ''new_ipv6_ip2'' = (736, 32)"
  "field_pos 0 hnat_ipv6_hnapt ''winfo.wcid'' = (832, 16)"
  "field_pos 0 hnat_ipv6_hnapt ''winfo.bssid'' = (848, 8)"
  "field_pos 0 hnat_ipv6_hnapt ''winfo_pao.tid'' = (880, 4)"
  "field_pos 0 hnat_ipv6_hnapt ''winfo_pao.is_prior'' = (885, 1)"
  "field_pos 0 hnat_ipv6_hnapt ''tport_id'' = (912, 4)"
  by code_simp+

lemma hnat_l2_bridge_pos [foe_fields]:
  "field_pos 0 hnat_l2_bridge ''dmac_hi'' = (32, 32)"
  "field_pos 0 hnat_l2_bridge ''smac_lo'' = (64, 16)"
  "field_pos 0 hnat_l2_bridge ''dmac_lo'' = (80, 16)"
  "field_pos 0 hnat_l2_bridge ''smac_hi'' = (96, 32)"
  "field_pos 0 hnat_l2_bridge ''etype'' = (128, 16)"
  "field_pos 0 hnat_l2_bridge ''vlan1'' = (160, 16)"
  "field_pos 0 hnat_l2_bridge ''vlan2'' = (176, 16)"
  "field_pos 0 hnat_l2_bridge ''new_dmac_hi'' = (384, 32)"
  "field_pos 0 hnat_l2_bridge ''new_dmac_lo'' = (432, 16)"
  "field_pos 0 hnat_l2_bridge ''new_smac_hi'' = (448, 32)"
  "field_pos 0 hnat_l2_bridge ''new_smac_lo'' = (496, 16)"
  by code_simp+

lemma hnat_unbind_info_blk_pos [foe_fields]:
  "field_pos 0 hnat_unbind_info_blk ''sta'' = (31, 1)"
  by code_simp+

section \<open>Packet types and states\<close>

text \<open>\<open>enum FoeEntryState\<close>, \<open>enum FoeIpAct\<close>, and the tests on the packet type.\<close>

abbreviation (input) INVALID :: u32 where "INVALID \<equiv> 0"
abbreviation (input) UNBIND :: u32 where "UNBIND \<equiv> 1"
abbreviation (input) BIND :: u32 where "BIND \<equiv> 2"

abbreviation (input) IPV4_HNAPT :: u32 where "IPV4_HNAPT \<equiv> 0"
abbreviation (input) IPV4_HNAT :: u32 where "IPV4_HNAT \<equiv> 1"
abbreviation (input) L2_BRIDGE :: u32 where "L2_BRIDGE \<equiv> 2"
abbreviation (input) IPV4_DSLITE :: u32 where "IPV4_DSLITE \<equiv> 3"
abbreviation (input) IPV6_3T_ROUTE :: u32 where "IPV6_3T_ROUTE \<equiv> 4"
abbreviation (input) IPV6_5T_ROUTE :: u32 where "IPV6_5T_ROUTE \<equiv> 5"
abbreviation (input) IPV6_6RD :: u32 where "IPV6_6RD \<equiv> 7"
abbreviation (input) IPV4_MAP_T :: u32 where "IPV4_MAP_T \<equiv> 8"
abbreviation (input) IPV4_MAP_E :: u32 where "IPV4_MAP_E \<equiv> 9"
abbreviation (input) IPV6_HNAPT :: u32 where "IPV6_HNAPT \<equiv> 10"
abbreviation (input) IPV6_HNAT :: u32 where "IPV6_HNAT \<equiv> 11"

abbreviation pkt_type :: "foe_entry \<Rightarrow> u32" where
  "pkt_type e \<equiv> getf hnat_bind_info_blk ''pkt_type'' e"

abbreviation foe_state :: "foe_entry \<Rightarrow> u32" where
  "foe_state e \<equiv> getf hnat_bind_info_blk ''state'' e"

definition IS_IPV4_GRP :: "foe_entry \<Rightarrow> bool" where
  "IS_IPV4_GRP e = (pkt_type e = IPV4_HNAPT \<or> pkt_type e = IPV4_HNAT)"

definition IS_IPV6_GRP :: "foe_entry \<Rightarrow> bool" where
  "IS_IPV6_GRP e = (pkt_type e \<in> {IPV6_3T_ROUTE, IPV6_5T_ROUTE, IPV6_6RD, IPV4_DSLITE,
     IPV4_MAP_E, IPV4_MAP_T, IPV6_HNAPT, IPV6_HNAT})"

definition entry_hnat_is_bound :: "foe_entry \<Rightarrow> bool" where
  "entry_hnat_is_bound e = (foe_state e = BIND)"

section \<open>Byte order\<close>

definition swab32 :: "u32 \<Rightarrow> u32" where
  "swab32 w = push_bit 24 (take_bit 8 w) OR push_bit 16 (take_bit 8 (drop_bit 8 w))
     OR push_bit 8 (take_bit 8 (drop_bit 16 w)) OR drop_bit 24 w"

definition swab16 :: "u16 \<Rightarrow> u16" where
  "swab16 w = push_bit 8 w OR drop_bit 8 w"

lemma bit_swab32:
  "i < 8 \<Longrightarrow> bit (swab32 w) i = bit w (i + 24)"
  "8 \<le> i \<Longrightarrow> i < 16 \<Longrightarrow> bit (swab32 w) i = bit w (i + 8)"
  "16 \<le> i \<Longrightarrow> i < 24 \<Longrightarrow> bit (swab32 w) i = bit w (i - 8)"
  "24 \<le> i \<Longrightarrow> i < 32 \<Longrightarrow> bit (swab32 w) i = bit w (i - 24)"
  by (auto simp: swab32_def bit_simps add.commute dest: bit_imp_le_length)

lemma swab32_swab32 [simp]: "swab32 (swab32 w) = w"
proof (rule bit_word_eqI)
  fix i assume "i < LENGTH(32)"
  then consider "i < 8" | "8 \<le> i" "i < 16" | "16 \<le> i" "i < 24" | "24 \<le> i" "i < 32" by fastforce
  then show "bit (swab32 (swab32 w)) i = bit w i"
    by cases (simp_all add: bit_swab32)
qed

lemma swab16_swab16 [simp]: "swab16 (swab16 w) = w"
proof (rule bit_word_eqI)
  fix i assume "i < LENGTH(16)"
  then consider "i < 8" | "8 \<le> i" "i < 16" by fastforce
  then show "bit (swab16 (swab16 w)) i = bit w i"
    by cases (auto simp: swab16_def bit_simps)
qed

lemma swab32_eq [simp]: "swab32 a = swab32 b \<longleftrightarrow> a = b"
  by (metis swab32_swab32)

lemma swab16_eq [simp]: "swab16 a = swab16 b \<longleftrightarrow> a = b"
  by (metis swab16_swab16)

text \<open>A MAC address is its six bytes; \<open>*(u32 *)mac\<close> and \<open>*(u16 *)&mac[4]\<close>.\<close>

type_synonym mac_addr = "u8 list"

definition mac_lo16 :: "mac_addr \<Rightarrow> u16" where
  "mac_lo16 m = ucast (m ! 4) OR push_bit 8 (ucast (m ! 5))"

end
