(* ===== verification/Hnat_Regs.thy ===== *)
theory Hnat_Regs
  imports Hnat_Types
begin

text \<open>
  Hardware NAT: the driver's state, its registers and the flow cache of the packet engine.

  What a register reads as is decided by the device, which is a parameter: a function of all
  accesses made so far (latest first) and of the register. The state keeps that history, so a
  theorem speaks of the values written and, where the code relies on a register keeping what
  was written to it, says so by the hypothesis \<open>holds\<close>.
\<close>

section \<open>Registers\<close>

datatype reg = Fe int | Ppe nat int

datatype io = Rd reg | Wr reg u32

type_synonym device = "io list \<Rightarrow> reg \<Rightarrow> u32"

section \<open>State\<close>

datatype mtk_hnat_version = MTK_HNAT_V1_1 | MTK_HNAT_V1_2 | MTK_HNAT_V1_3 | MTK_HNAT_V2 | MTK_HNAT_V3

fun version_num :: "mtk_hnat_version \<Rightarrow> nat" where
  "version_num MTK_HNAT_V1_1 = 1" |
  "version_num MTK_HNAT_V1_2 = 2" |
  "version_num MTK_HNAT_V1_3 = 3" |
  "version_num MTK_HNAT_V2 = 4" |
  "version_num MTK_HNAT_V3 = 5"

record ppe_mcast_list =
  l_vid :: u16
  l_dmac :: mac_addr
  l_mc_port :: u8

record ppe_mcast_group =
  g_vid :: u16
  g_dmac :: mac_addr
  g_if_num :: "u8 list"
  g_mc_port :: u8
  g_valid :: bool

record ppe_mcast_table =
  mtbl :: "ppe_mcast_group list"
  mlist :: "ppe_mcast_list list"
  max_entry :: nat

text \<open>What the driver has counted of a flow; the zone of the connection tracking is a number.\<close>

record hnat_accounting =
  a_bytes :: u64
  a_packets :: u64
  a_zone :: nat

text \<open>\<open>foe_table_cpu ! p\<close> is the flow table of engine \<open>p\<close>, as many entries as were allocated, none when
  the pointer is null; \<open>foe_flow ! p\<close> is the number of hash lists of flows allocated for it, \<open>acct ! p\<close> what was
  counted of each entry. The counters of the engine itself are its own memory at \<open>foe_mib_dev\<close>, read
  through registers.
  \<open>mcast_multi\<close> is the module parameter \<open>mcast_mode\<close> compared with \<open>HNAT_MCAST_MODE_MULTI\<close>.\<close>

record mtk_hnat =
  h_version :: mtk_hnat_version
  h_mcast :: bool
  mcast_multi :: bool
  h_wan :: string
  h_lan :: string
  h_lan2 :: string
  ppe_num :: nat
  foe_etry_num :: nat
  foe_table_cpu :: "foe_entry list list"
  pmcast :: "ppe_mcast_table option"
  h_io :: "io list"
  per_flow_accounting :: bool
  etry_num_cfg :: int
  foe_table_dev :: "u32 list"
  foe_flow :: "nat list"
  foe_mib_dev :: "u32 list"
  acct :: "hnat_accounting list list"

definition readl :: "device \<Rightarrow> reg \<Rightarrow> mtk_hnat \<Rightarrow> u32 \<times> mtk_hnat" where
  "readl dev r h = (dev (h_io h) r, h\<lparr>h_io := Rd r # h_io h\<rparr>)"

definition writel :: "u32 \<Rightarrow> reg \<Rightarrow> mtk_hnat \<Rightarrow> mtk_hnat" where
  "writel v r h = h\<lparr>h_io := Wr r v # h_io h\<rparr>"

definition cr_set_bits :: "device \<Rightarrow> reg \<Rightarrow> u32 \<Rightarrow> mtk_hnat \<Rightarrow> mtk_hnat" where
  "cr_set_bits dev r bs h = (let (val, h) = readl dev r h in writel (val OR bs) r h)"

definition cr_clr_bits :: "device \<Rightarrow> reg \<Rightarrow> u32 \<Rightarrow> mtk_hnat \<Rightarrow> mtk_hnat" where
  "cr_clr_bits dev r bs h = (let (val, h) = readl dev r h in writel (val AND NOT bs) r h)"

definition cr_set_field :: "device \<Rightarrow> reg \<Rightarrow> u32 \<Rightarrow> u32 \<Rightarrow> mtk_hnat \<Rightarrow> mtk_hnat" where
  "cr_set_field dev r field val h =
     (let (tv, h) = readl dev r h;
          tv = tv AND NOT field;
          tv = tv OR push_bit (ffs field - 1) val
      in writel tv r h)"

text \<open>Offsets and fields.\<close>

abbreviation (input) PPE_GLO_CFG :: int where "PPE_GLO_CFG \<equiv> 0x00"
abbreviation (input) PPE_FLOW_CFG :: int where "PPE_FLOW_CFG \<equiv> 0x04"
abbreviation (input) PPE_TB_CFG :: int where "PPE_TB_CFG \<equiv> 0x1C"
abbreviation (input) PPE_MCAST_PPSE :: int where "PPE_MCAST_PPSE \<equiv> 0x84"
abbreviation (input) PPE_CAH_CTRL :: int where "PPE_CAH_CTRL \<equiv> 0x120"
abbreviation (input) PPE_CAH_TAG_SRH :: int where "PPE_CAH_TAG_SRH \<equiv> 0x124"
abbreviation (input) PPE_CAH_LINE_RW :: int where "PPE_CAH_LINE_RW \<equiv> 0x128"
abbreviation (input) PPE_CAH_WDATA :: int where "PPE_CAH_WDATA \<equiv> 0x12C"
abbreviation (input) PPE_CAH_DBG :: int where "PPE_CAH_DBG \<equiv> 0x190"

abbreviation (input) CAH_EN :: u32 where "CAH_EN \<equiv> 0x1"
abbreviation (input) CAH_REQ :: u32 where "CAH_REQ \<equiv> 0x100"
abbreviation (input) CAH_X_MODE :: u32 where "CAH_X_MODE \<equiv> 0x200"
abbreviation (input) CAH_CMD :: u32 where "CAH_CMD \<equiv> 0x3000"
abbreviation (input) CAH_DATA_SEL :: u32 where "CAH_DATA_SEL \<equiv> 0xC0000"
abbreviation (input) TAG_SRH :: u32 where "TAG_SRH \<equiv> 0xFFFF"
abbreviation (input) LINE_RW :: u32 where "LINE_RW \<equiv> 0xFFFF"
abbreviation (input) OFFSET_RW :: u32 where "OFFSET_RW \<equiv> 0xFF0000"
abbreviation (input) SCAN_MODE :: u32 where "SCAN_MODE \<equiv> 0x30000"
abbreviation (input) CAH_DBG_BUSY :: u32 where "CAH_DBG_BUSY \<equiv> 0xF"

abbreviation (input) EBUSY :: int where "EBUSY \<equiv> 16"

abbreviation (input) MAX_PPE_CACHE_NUM :: nat where "MAX_PPE_CACHE_NUM \<equiv> 128"

section \<open>Which registers an operation touches\<close>

text \<open>The state changed by accesses to registers only, and only registers of \<open>R\<close> were written.\<close>

definition io_only :: "reg set \<Rightarrow> mtk_hnat \<Rightarrow> mtk_hnat \<Rightarrow> bool" where
  "io_only R h h' \<longleftrightarrow> (\<exists>xs. h' = h\<lparr>h_io := xs @ h_io h\<rparr> \<and> (\<forall>r v. Wr r v \<in> set xs \<longrightarrow> r \<in> R))"

lemma io_only_refl [simp]: "io_only R h h"
  unfolding io_only_def by (rule exI [of _ "[]"]) simp

lemma io_only_trans: "io_only R a b \<Longrightarrow> io_only R b c \<Longrightarrow> io_only R a c"
proof -
  assume "io_only R a b" "io_only R b c"
  then obtain xs ys where "b = a\<lparr>h_io := xs @ h_io a\<rparr>" "c = b\<lparr>h_io := ys @ h_io b\<rparr>"
      "\<forall>r v. Wr r v \<in> set xs \<longrightarrow> r \<in> R" "\<forall>r v. Wr r v \<in> set ys \<longrightarrow> r \<in> R"
    by (auto simp: io_only_def)
  then show ?thesis unfolding io_only_def by (intro exI [of _ "ys @ xs"]) auto
qed

lemma io_only_mono: "io_only R a b \<Longrightarrow> R \<subseteq> S \<Longrightarrow> io_only S a b"
  unfolding io_only_def by blast

lemma io_only_if [hnat_frame]:
  "(b \<Longrightarrow> io_only R h x) \<Longrightarrow> (\<not> b \<Longrightarrow> io_only R h y) \<Longrightarrow> io_only R h (if b then x else y)"
  by simp

lemma io_only_readl [hnat_frame]: "io_only R h h' \<Longrightarrow> io_only R h (snd (readl dev r h'))"
proof (erule io_only_trans)
  show "io_only R h' (snd (readl dev r h'))"
    unfolding io_only_def by (rule exI [of _ "[Rd r]"]) (simp add: readl_def)
qed

lemma io_only_writel [hnat_frame]: "io_only R h h' \<Longrightarrow> r \<in> R \<Longrightarrow> io_only R h (writel v r h')"
proof (erule io_only_trans)
  show "r \<in> R \<Longrightarrow> io_only R h' (writel v r h')"
    unfolding io_only_def by (rule exI [of _ "[Wr r v]"]) (simp add: writel_def)
qed

lemma io_only_cr_set_field [hnat_frame]:
  "io_only R h h' \<Longrightarrow> r \<in> R \<Longrightarrow> io_only R h (cr_set_field dev r f v h')"
proof (erule io_only_trans)
  show "r \<in> R \<Longrightarrow> io_only R h' (cr_set_field dev r f v h')"
    unfolding io_only_def cr_set_field_def readl_def writel_def Let_def case_prod_conv
    by (rule exI [of _ "[Wr r (dev (h_io h') r AND NOT f OR push_bit (ffs f - 1) v), Rd r]"]) simp
qed

lemma io_only_fields:
  assumes "io_only R h h'"
  shows "h_version h' = h_version h" "ppe_num h' = ppe_num h" "foe_etry_num h' = foe_etry_num h"
    "foe_table_cpu h' = foe_table_cpu h" "pmcast h' = pmcast h" "h_mcast h' = h_mcast h"
    "mcast_multi h' = mcast_multi h" "h_wan h' = h_wan h" "h_lan h' = h_lan h" "h_lan2 h' = h_lan2 h"
  using assms by (auto simp: io_only_def)

section \<open>Registers that keep what was written\<close>

text \<open>The bits \<open>m\<close> of register \<open>r\<close> behave as memory: they read as they were last written, and no
  access to another register and no read changes them.\<close>

definition holds :: "device \<Rightarrow> reg \<Rightarrow> u32 \<Rightarrow> bool" where
  "holds dev r m \<longleftrightarrow> (\<forall>l x. dev (x # l) r AND m = (case x of
      Wr r' v \<Rightarrow> if r' = r then v AND m else dev l r AND m
    | Rd r' \<Rightarrow> dev l r AND m))"

text \<open>What a read of the register would give now.\<close>

definition reg_now :: "device \<Rightarrow> reg \<Rightarrow> mtk_hnat \<Rightarrow> u32" where
  "reg_now dev r h = dev (h_io h) r"

lemma holds_other:
  assumes "holds dev r m" "io_only R h h'" "r \<notin> R"
  shows "reg_now dev r h' AND m = reg_now dev r h AND m"
proof -
  from assms(2) obtain xs where h': "h' = h\<lparr>h_io := xs @ h_io h\<rparr>" and R: "\<forall>r v. Wr r v \<in> set xs \<longrightarrow> r \<in> R"
    by (auto simp: io_only_def)
  have "dev (xs @ h_io h) r AND m = dev (h_io h) r AND m"
    using R
  proof (induction xs)
    case (Cons x xs)
    have "dev (x # xs @ h_io h) r AND m = dev (xs @ h_io h) r AND m"
      using assms(1,3) Cons.prems by (cases x) (auto simp: holds_def)
    with Cons.IH Cons.prems show ?case by force
  qed simp
  then show ?thesis by (simp add: reg_now_def h')
qed

lemma holds_writel: "holds dev r m \<Longrightarrow> reg_now dev r (writel v r h) AND m = v AND m"
  by (simp add: holds_def reg_now_def writel_def)

lemma holds_cr_set_field:
  "holds dev r m \<Longrightarrow> reg_now dev r (cr_set_field dev r f v h) AND m
     = ((reg_now dev r h AND NOT f) OR push_bit (ffs f - 1) v) AND m"
  by (simp add: holds_def reg_now_def writel_def readl_def cr_set_field_def)

section \<open>The flow cache\<close>

fun cah_ctrl_request_loop :: "device \<Rightarrow> nat \<Rightarrow> nat \<Rightarrow> mtk_hnat \<Rightarrow> bool \<times> mtk_hnat" where
  "cah_ctrl_request_loop dev ppe 0 h = (False, h)" |
  "cah_ctrl_request_loop dev ppe (Suc count) h =
     (let (v, h) = readl dev (Ppe ppe PPE_CAH_CTRL) h
      in if v AND CAH_REQ = 0 then (True, h) else cah_ctrl_request_loop dev ppe count h)"

definition is_cah_ctrl_request_done :: "device \<Rightarrow> nat \<Rightarrow> mtk_hnat \<Rightarrow> bool \<times> mtk_hnat" where
  "is_cah_ctrl_request_done dev ppe h =
     (if ppe \<ge> ppe_num h then (False, h) else cah_ctrl_request_loop dev ppe 1000 h)"

text \<open>The cache line that holds an entry, or -1 if there is none.\<close>

definition hnat_search_cache_line :: "device \<Rightarrow> nat \<Rightarrow> nat \<Rightarrow> mtk_hnat \<Rightarrow> int \<times> mtk_hnat" where
  "hnat_search_cache_line dev ppe tag h =
     (if ppe \<ge> ppe_num h \<or> tag \<ge> foe_etry_num h then (- EINVAL, h)
      else
        let h = cr_set_field dev (Ppe ppe PPE_CAH_TAG_SRH) TAG_SRH (of_nat tag) h;
            h = cr_set_field dev (Ppe ppe PPE_CAH_CTRL) CAH_CMD 0 h;
            h = cr_set_field dev (Ppe ppe PPE_CAH_CTRL) CAH_REQ 1 h;
            (ready, h) = is_cah_ctrl_request_done dev ppe h
        in if ready then
             let (tag_srh, h) = readl dev (Ppe ppe PPE_CAH_TAG_SRH) h
             in (if drop_bit 31 tag_srh AND 1 = 0 then -1 else uint (drop_bit 16 tag_srh AND 0x7f), h)
           else (- EBUSY, h))"

text \<open>One write command: the word in \<open>PPE_CAH_WDATA\<close> goes to the place selected before. A
  request that times out is only logged.\<close>

definition cah_write_cmd :: "device \<Rightarrow> nat \<Rightarrow> u32 \<Rightarrow> mtk_hnat \<Rightarrow> mtk_hnat" where
  "cah_write_cmd dev ppe v h =
     (let h = writel v (Ppe ppe PPE_CAH_WDATA) h;
          h = cr_set_field dev (Ppe ppe PPE_CAH_CTRL) CAH_CMD 3 h;
          h = cr_set_field dev (Ppe ppe PPE_CAH_CTRL) CAH_REQ 1 h
      in snd (is_cah_ctrl_request_done dev ppe h))"

fun write_line_data :: "device \<Rightarrow> nat \<Rightarrow> nat \<Rightarrow> u32 list \<Rightarrow> nat \<Rightarrow> mtk_hnat \<Rightarrow> mtk_hnat" where
  "write_line_data dev ppe line [] i h = h" |
  "write_line_data dev ppe line (w # ws) i h =
     (let h = cr_set_field dev (Ppe ppe PPE_CAH_LINE_RW) LINE_RW (of_nat line) h;
          h = cr_set_field dev (Ppe ppe PPE_CAH_LINE_RW) OFFSET_RW (of_nat (i div 4)) h;
          h = cr_set_field dev (Ppe ppe PPE_CAH_CTRL) CAH_DATA_SEL (of_nat (i mod 4)) h
      in write_line_data dev ppe line ws (Suc i) (cah_write_cmd dev ppe w h))"

text \<open>\<open>data\<close> is the 32 words of an entry, or NULL.\<close>

definition hnat_write_cache_line_body ::
    "device \<Rightarrow> nat \<Rightarrow> nat \<Rightarrow> u32 \<Rightarrow> u32 \<Rightarrow> u32 list option \<Rightarrow> mtk_hnat \<Rightarrow> mtk_hnat" where
  "hnat_write_cache_line_body dev ppe line tag state data h =
     (if ppe \<ge> ppe_num h \<or> line \<ge> MAX_PPE_CACHE_NUM then h
      else if state > 3 then h
      else
        let h = (case data of None \<Rightarrow> h | Some ws \<Rightarrow> write_line_data dev ppe line ws 0 h);
            h = cr_set_field dev (Ppe ppe PPE_CAH_LINE_RW) LINE_RW (of_nat line) h;
            h = cr_set_field dev (Ppe ppe PPE_CAH_LINE_RW) OFFSET_RW 0x1F h;
            h = cr_set_field dev (Ppe ppe PPE_CAH_CTRL) CAH_DATA_SEL 0 h
        in cah_write_cmd dev ppe (push_bit 16 state OR tag) h)"

text \<open>\<open>hnat_write_cache_line\<close>: table learning, scan mode and the cache are switched off around
  the write; a negative line means all lines.\<close>

fun write_lines :: "device \<Rightarrow> nat \<Rightarrow> nat \<Rightarrow> nat \<Rightarrow> u32 \<Rightarrow> u32 \<Rightarrow> u32 list option \<Rightarrow> mtk_hnat \<Rightarrow> mtk_hnat" where
  "write_lines dev ppe i 0 tag state data h = h" |
  "write_lines dev ppe i (Suc n) tag state data h =
     write_lines dev ppe (Suc i) n tag state data (hnat_write_cache_line_body dev ppe i tag state data h)"

definition cache_off :: "device \<Rightarrow> nat \<Rightarrow> mtk_hnat \<Rightarrow> u32 \<times> u32 \<times> mtk_hnat" where
  "cache_off dev ppe h =
     (let (tb, h) = readl dev (Ppe ppe PPE_TB_CFG) h;
          scan_mode = drop_bit 16 (tb AND SCAN_MODE);
          h = cr_set_field dev (Ppe ppe PPE_TB_CFG) SCAN_MODE 0 h;
          (ctrl, h) = readl dev (Ppe ppe PPE_CAH_CTRL) h;
          cah_en = ctrl AND CAH_EN;
          h = cr_set_field dev (Ppe ppe PPE_CAH_CTRL) CAH_EN 0 h
      in (scan_mode, cah_en, h))"

definition cache_back_on :: "device \<Rightarrow> nat \<Rightarrow> u32 \<Rightarrow> u32 \<Rightarrow> mtk_hnat \<Rightarrow> mtk_hnat" where
  "cache_back_on dev ppe scan_mode cah_en h =
     (let h = cr_set_field dev (Ppe ppe PPE_CAH_CTRL) CAH_EN cah_en h
      in cr_set_field dev (Ppe ppe PPE_TB_CFG) SCAN_MODE scan_mode h)"

definition hnat_write_cache_line ::
    "device \<Rightarrow> nat \<Rightarrow> int \<Rightarrow> u32 \<Rightarrow> u32 \<Rightarrow> u32 list option \<Rightarrow> mtk_hnat \<Rightarrow> int \<times> mtk_hnat" where
  "hnat_write_cache_line dev ppe line tag state data h =
     (if ppe \<ge> ppe_num h \<or> line \<ge> int MAX_PPE_CACHE_NUM then (- EINVAL, h)
      else if state > 3 then (- EINVAL, h)
      else
        let (flow_cfg, h) = readl dev (Ppe ppe PPE_FLOW_CFG) h;
            h = writel 0 (Ppe ppe PPE_FLOW_CFG) h;
            (scan_mode, cah_en, h) = cache_off dev ppe h;
            h = (if line < 0 then write_lines dev ppe 0 MAX_PPE_CACHE_NUM tag state data h
                 else hnat_write_cache_line_body dev ppe (nat line) tag state data h);
            h = cache_back_on dev ppe scan_mode cah_en h
        in (0, writel flow_cfg (Ppe ppe PPE_FLOW_CFG) h))"

text \<open>\<open>__hnat_cache_clr\<close>. The engine is idle when three reads in a row say so; after ten rounds
  the function gives up and restores the flow configuration.\<close>

fun idle_reads :: "device \<Rightarrow> nat \<Rightarrow> nat \<Rightarrow> nat \<Rightarrow> mtk_hnat \<Rightarrow> nat \<times> mtk_hnat" where
  "idle_reads dev ppe 0 idle h = (idle, h)" |
  "idle_reads dev ppe (Suc i) idle h =
     (let (v, h) = readl dev (Ppe ppe PPE_CAH_DBG) h
      in idle_reads dev ppe i (if v AND CAH_DBG_BUSY = 0 then Suc idle else idle) h)"

fun idle_wait :: "device \<Rightarrow> nat \<Rightarrow> nat \<Rightarrow> mtk_hnat \<Rightarrow> bool \<times> mtk_hnat" where
  "idle_wait dev ppe 0 h = (False, h)" |
  "idle_wait dev ppe (Suc retry) h =
     (let (idle, h) = idle_reads dev ppe 3 0 h
      in if idle \<ge> 3 then (True, h) else idle_wait dev ppe retry h)"

definition flow_keep_mask :: u32 where
  "flow_keep_mask = (let BIT = (\<lambda>n. push_bit n (1 :: u32))
     in BIT 0 OR BIT 1 OR BIT 2 OR BIT 3 OR BIT 16 OR BIT 17 OR BIT 19 OR BIT 20 OR BIT 25 OR BIT 29 OR BIT 30)"

definition hnat_cache_clr_body :: "device \<Rightarrow> nat \<Rightarrow> mtk_hnat \<Rightarrow> mtk_hnat" where
  "hnat_cache_clr_body dev ppe h =
     (if ppe \<ge> ppe_num h then h
      else
        let (flow_cfg, h) = readl dev (Ppe ppe PPE_FLOW_CFG) h;
            h = writel (flow_cfg AND flow_keep_mask) (Ppe ppe PPE_FLOW_CFG) h;
            (idle, h) = idle_wait dev ppe 10 h;
            h = (if \<not> idle then h
                 else
                   let (scan_mode, cah_en, h) = cache_off dev ppe h;
                       h = cr_set_field dev (Ppe ppe PPE_CAH_CTRL) CAH_X_MODE 1 h;
                       h = cr_set_field dev (Ppe ppe PPE_CAH_CTRL) CAH_X_MODE 0 h;
                       h = (if version_num (h_version h) \<ge> version_num MTK_HNAT_V2
                            then hnat_write_cache_line_body dev ppe 0 0x7FFF 3 None h
                            else hnat_write_cache_line_body dev ppe 0 0x3FFF 3 None h)
                   in cache_back_on dev ppe scan_mode cah_en h)
        in writel flow_cfg (Ppe ppe PPE_FLOW_CFG) h)"

definition hnat_cache_clr :: "device \<Rightarrow> nat \<Rightarrow> mtk_hnat \<Rightarrow> mtk_hnat" where
  "hnat_cache_clr dev ppe h = hnat_cache_clr_body dev ppe h"

definition hnat_cache_ebl_one :: "device \<Rightarrow> nat \<Rightarrow> int \<Rightarrow> mtk_hnat \<Rightarrow> mtk_hnat" where
  "hnat_cache_ebl_one dev ppe enable h =
     (if ppe \<ge> ppe_num h then h
      else
        let h = (if enable \<noteq> 0 then hnat_cache_clr_body dev ppe h else h)
        in cr_set_field dev (Ppe ppe PPE_CAH_CTRL) CAH_EN (of_int enable) h)"

fun cache_ebl_loop :: "device \<Rightarrow> nat \<Rightarrow> nat \<Rightarrow> int \<Rightarrow> mtk_hnat \<Rightarrow> mtk_hnat" where
  "cache_ebl_loop dev i 0 enable h = h" |
  "cache_ebl_loop dev i (Suc n) enable h = cache_ebl_loop dev (Suc i) n enable (hnat_cache_ebl_one dev i enable h)"

definition hnat_cache_ebl :: "device \<Rightarrow> int \<Rightarrow> mtk_hnat \<Rightarrow> mtk_hnat" where
  "hnat_cache_ebl dev enable h = cache_ebl_loop dev 0 (ppe_num h) enable h"

section \<open>What the cache operations do to the registers\<close>

text \<open>The registers that cache operations on engine \<open>p\<close> write.\<close>

definition cache_regs :: "nat \<Rightarrow> reg set" where
  "cache_regs p = Ppe p ` {PPE_FLOW_CFG, PPE_TB_CFG, PPE_CAH_CTRL, PPE_CAH_LINE_RW, PPE_CAH_WDATA}"

definition line_regs :: "nat \<Rightarrow> reg set" where
  "line_regs p = Ppe p ` {PPE_CAH_CTRL, PPE_CAH_LINE_RW, PPE_CAH_WDATA}"

lemma line_regs [simp]:
  "Ppe p PPE_CAH_CTRL \<in> line_regs p" "Ppe p PPE_CAH_LINE_RW \<in> line_regs p" "Ppe p PPE_CAH_WDATA \<in> line_regs p"
  by (simp_all add: line_regs_def)

lemma cache_regs [simp]:
  "Ppe p PPE_CAH_CTRL \<in> cache_regs p" "Ppe p PPE_FLOW_CFG \<in> cache_regs p" "Ppe p PPE_TB_CFG \<in> cache_regs p"
  by (simp_all add: cache_regs_def)

lemma line_cache_regs: "line_regs p \<subseteq> cache_regs p"
  by (auto simp: line_regs_def cache_regs_def)

lemma io_only_request_loop [hnat_frame]:
  "io_only R h h' \<Longrightarrow> io_only R h (snd (cah_ctrl_request_loop dev ppe n h'))"
proof (induction n arbitrary: h')
  case (Suc n)
  then show ?case
    using io_only_readl [OF Suc.prems] by (simp add: case_prod_unfold Let_def)
qed simp

lemma io_only_request_done [hnat_frame]:
  "io_only R h h' \<Longrightarrow> io_only R h (snd (is_cah_ctrl_request_done dev ppe h'))"
  by (simp add: is_cah_ctrl_request_done_def hnat_frame)

lemma io_only_write_cmd [hnat_frame]:
  "io_only (line_regs p) h h' \<Longrightarrow> io_only (line_regs p) h (cah_write_cmd dev p v h')"
  unfolding cah_write_cmd_def Let_def by (intro hnat_frame) simp_all

lemma io_only_line_data [hnat_frame]:
  "io_only (line_regs p) h h' \<Longrightarrow> io_only (line_regs p) h (write_line_data dev p line ws i h')"
proof (induction ws arbitrary: i h')
  case (Cons w ws)
  show ?case
    unfolding write_line_data.simps Let_def by (rule Cons.IH, intro hnat_frame) (simp_all add: Cons.prems)
qed simp

lemma io_only_line_body [hnat_frame]:
  assumes "io_only (line_regs p) h h'"
  shows "io_only (line_regs p) h (hnat_write_cache_line_body dev p line tag state data h')"
proof -
  have "io_only (line_regs p) h (case data of None \<Rightarrow> h' | Some ws \<Rightarrow> write_line_data dev p line ws 0 h')"
    using assms by (cases data) (simp_all add: io_only_line_data)
  with assms show ?thesis
    unfolding hnat_write_cache_line_body_def Let_def
    by (intro hnat_frame) simp_all
qed

lemma io_only_write_lines [hnat_frame]:
  "io_only (line_regs p) h h' \<Longrightarrow> io_only (line_regs p) h (write_lines dev p i n tag state data h')"
  by (induction n arbitrary: i h') (simp_all add: io_only_line_body)

lemma io_only_idle_reads [hnat_frame]:
  "io_only R h h' \<Longrightarrow> io_only R h (snd (idle_reads dev p n idle h'))"
proof (induction n arbitrary: idle h')
  case (Suc n)
  show ?case using Suc.IH [OF io_only_readl [OF Suc.prems]] by (simp add: case_prod_unfold Let_def)
qed simp

lemma io_only_idle_wait [hnat_frame]: "io_only R h h' \<Longrightarrow> io_only R h (snd (idle_wait dev p n h'))"
proof (induction n arbitrary: h')
  case (Suc n)
  then show ?case
    using io_only_idle_reads [OF Suc.prems] by (simp add: case_prod_unfold Let_def)
qed simp

lemma io_only_cache_off [hnat_frame]:
  "io_only (cache_regs p) h h' \<Longrightarrow> io_only (cache_regs p) h (snd (snd (cache_off dev p h')))"
  unfolding cache_off_def Let_def case_prod_unfold snd_conv
  by (intro hnat_frame) simp_all

lemma io_only_cache_back_on [hnat_frame]:
  "io_only (cache_regs p) h h' \<Longrightarrow> io_only (cache_regs p) h (cache_back_on dev p sm ce h')"
  unfolding cache_back_on_def Let_def by (intro hnat_frame) simp_all

lemma io_only_cache_clr [hnat_frame]:
  "io_only (cache_regs p) h h' \<Longrightarrow> io_only (cache_regs p) h (hnat_cache_clr_body dev p h')"
proof -
  assume a: "io_only (cache_regs p) h h'"
  have body: "io_only (cache_regs p) h (hnat_write_cache_line_body dev p l t st d x)" if "io_only (cache_regs p) h x"
    for l t st d x
    by (rule io_only_trans [OF that]) (rule io_only_mono [OF io_only_line_body line_cache_regs], simp)
  show ?thesis
    unfolding hnat_cache_clr_body_def Let_def case_prod_unfold
    by (intro hnat_frame body) (simp_all add: a)
qed

lemma io_only_hnat_cache_clr [hnat_frame]:
  "io_only (cache_regs p) h h' \<Longrightarrow> io_only (cache_regs p) h (hnat_cache_clr dev p h')"
  by (simp add: hnat_cache_clr_def io_only_cache_clr)

section \<open>The cache operations restore the configuration\<close>

lemma ffs_fields [simp]:
  "ffs 1 = 1" "ffs 0x100 = 9" "ffs 0x200 = 10" "ffs 0x3000 = 13" "ffs 0x30000 = 17" "ffs 0xC0000 = 19"
  by code_simp+

definition cache_device :: "device \<Rightarrow> nat \<Rightarrow> bool" where
  "cache_device dev p \<longleftrightarrow> holds dev (Ppe p PPE_FLOW_CFG) (-1) \<and> holds dev (Ppe p PPE_TB_CFG) (-1)
     \<and> holds dev (Ppe p PPE_CAH_CTRL) CAH_EN"

text \<open>The bits \<open>m\<close> of \<open>r\<close> read after the operation as before it.\<close>

definition keeps :: "device \<Rightarrow> reg \<Rightarrow> u32 \<Rightarrow> mtk_hnat \<Rightarrow> mtk_hnat \<Rightarrow> bool" where
  "keeps dev r m h h' \<longleftrightarrow> reg_now dev r h' AND m = reg_now dev r h AND m"

lemma keeps_refl [simp]: "keeps dev r m h h"
  by (simp add: keeps_def)

lemma keeps_io_only:
  "holds dev r m \<Longrightarrow> keeps dev r m h x \<Longrightarrow> io_only R x h' \<Longrightarrow> r \<notin> R \<Longrightarrow> keeps dev r m h h'"
  using holds_other by (simp add: keeps_def)

lemma keeps_trans: "keeps dev r m a b \<Longrightarrow> keeps dev r m b c \<Longrightarrow> keeps dev r m a c"
  by (simp add: keeps_def)

lemma restore_scan_mode:
  "((x AND NOT SCAN_MODE) AND NOT SCAN_MODE) OR push_bit 16 (drop_bit 16 (x AND SCAN_MODE)) = (x :: u32)"
proof (rule bit_word_eqI)
  have S: "SCAN_MODE = (push_bit 16 (mask 2) :: u32)" by code_simp
  fix i assume i: "i < LENGTH(32)"
  show "bit (((x AND NOT SCAN_MODE) AND NOT SCAN_MODE) OR push_bit 16 (drop_bit 16 (x AND SCAN_MODE))) i = bit x i"
    unfolding S using i by (auto simp: bit_simps)
qed

text \<open>Between \<open>cache_off\<close> and \<open>cache_back_on\<close> nothing may touch the table configuration nor the
  enable bit: then both registers are as before.\<close>

lemma cache_off_on:
  assumes tb: "holds dev (Ppe p PPE_TB_CFG) (-1)" and en: "holds dev (Ppe p PPE_CAH_CTRL) CAH_EN"
    and off: "cache_off dev p h = (sm, ce, h1)"
    and mid: "keeps dev (Ppe p PPE_TB_CFG) (-1) h1 h2"
  shows "keeps dev (Ppe p PPE_TB_CFG) (-1) h (cache_back_on dev p sm ce h2)"
    and "keeps dev (Ppe p PPE_CAH_CTRL) CAH_EN h (cache_back_on dev p sm ce h2)"
proof -
  let ?tb = "Ppe p PPE_TB_CFG" and ?en = "Ppe p PPE_CAH_CTRL"
  have io_tb: "reg_now dev ?tb x = reg_now dev ?tb y" if "io_only {?en} y x" for x y
    using holds_other [OF tb that] by simp
  have io_en: "reg_now dev ?en x AND CAH_EN = reg_now dev ?en y AND CAH_EN" if "io_only {?tb} y x" for x y
    using holds_other [OF en that] by simp
  have rd: "io_only R h (snd (readl dev r h))" "fst (readl dev r h) = reg_now dev r h" for R r h
    by (simp_all add: io_only_readl) (simp add: readl_def reg_now_def)
  obtain ha where ha: "ha = snd (readl dev ?tb h)" by simp
  obtain hb where hb: "hb = cr_set_field dev ?tb SCAN_MODE 0 ha" by simp
  obtain hc where hc: "hc = snd (readl dev ?en hb)" by simp
  have offs: "sm = drop_bit 16 (reg_now dev ?tb h AND SCAN_MODE)" "ce = reg_now dev ?en hb AND CAH_EN"
      "h1 = cr_set_field dev ?en CAH_EN 0 hc"
    using off by (auto simp: cache_off_def Let_def case_prod_unfold rd ha hb hc)
  have tb1: "reg_now dev ?tb h1 = reg_now dev ?tb h AND NOT SCAN_MODE"
  proof -
    have "reg_now dev ?tb h1 = reg_now dev ?tb hb"
      unfolding offs hc by (rule io_tb) (intro hnat_frame; simp)
    also have "\<dots> = reg_now dev ?tb ha AND NOT SCAN_MODE"
      using holds_cr_set_field [OF tb, of SCAN_MODE 0 ha] by (simp add: hb)
    also have "reg_now dev ?tb ha = reg_now dev ?tb h"
      unfolding ha by (rule io_tb) (simp add: rd)
    finally show ?thesis .
  qed
  have ce: "ce = reg_now dev ?en h AND CAH_EN"
    unfolding offs ha hb by (rule io_en) (intro hnat_frame; simp)
  let ?hd = "cr_set_field dev ?en CAH_EN ce h2"
  have "reg_now dev ?tb ?hd = reg_now dev ?tb h2" by (rule io_tb) (intro hnat_frame; simp)
  also have "\<dots> = reg_now dev ?tb h AND NOT SCAN_MODE" using mid tb1 by (simp add: keeps_def)
  finally have q: "reg_now dev ?tb ?hd = reg_now dev ?tb h AND NOT SCAN_MODE" .
  have f: "ffs SCAN_MODE - 1 = 16" by simp
  show "keeps dev ?tb (-1) h (cache_back_on dev p sm ce h2)"
    unfolding keeps_def cache_back_on_def Let_def
    by (simp only: holds_cr_set_field [OF tb] q offs(1) f restore_scan_mode)
  have "reg_now dev ?en (cache_back_on dev p sm ce h2) AND CAH_EN = reg_now dev ?en ?hd AND CAH_EN"
    unfolding cache_back_on_def Let_def by (rule io_en, rule io_only_cr_set_field [OF io_only_refl], simp)
  also have "\<dots> = reg_now dev ?en h AND CAH_EN"
  proof -
    have "((x AND NOT CAH_EN) OR (y AND CAH_EN)) AND CAH_EN = y AND (CAH_EN :: u32)" for x y :: u32
      by (rule bit_word_eqI) (auto simp: bit_simps bit_1_iff)
    then show ?thesis using holds_cr_set_field [OF en, of CAH_EN ce h2] by (simp add: ce)
  qed
  finally show "keeps dev ?en CAH_EN h (cache_back_on dev p sm ce h2)" by (simp add: keeps_def)
qed

lemma cache_clr_restores:
  assumes dev: "cache_device dev p"
  shows "io_only (cache_regs p) h (hnat_cache_clr dev p h)
    \<and> keeps dev (Ppe p PPE_FLOW_CFG) (-1) h (hnat_cache_clr dev p h)
    \<and> keeps dev (Ppe p PPE_TB_CFG) (-1) h (hnat_cache_clr dev p h)
    \<and> keeps dev (Ppe p PPE_CAH_CTRL) CAH_EN h (hnat_cache_clr dev p h)"
proof (cases "p \<ge> ppe_num h")
  case True
  then show ?thesis by (simp add: hnat_cache_clr_def hnat_cache_clr_body_def)
next
  case False
  let ?fl = "Ppe p PPE_FLOW_CFG" and ?tb = "Ppe p PPE_TB_CFG" and ?en = "Ppe p PPE_CAH_CTRL"
  have fl: "holds dev ?fl (-1)" and tb: "holds dev ?tb (-1)" and en: "holds dev ?en CAH_EN"
    using dev by (simp_all add: cache_device_def)
  obtain fc h1 where h1: "readl dev ?fl h = (fc, h1)" by fastforce
  let ?h2 = "writel (fc AND flow_keep_mask) ?fl h1"
  obtain idle h3 where h3: "idle_wait dev p 10 ?h2 = (idle, h3)" by fastforce
  obtain sm ce h4 where h4: "cache_off dev p h3 = (sm, ce, h4)" by (metis prod_cases3)
  let ?h5 = "cr_set_field dev ?en CAH_X_MODE 0 (cr_set_field dev ?en CAH_X_MODE 1 h4)"
  let ?h6 = "if version_num (h_version ?h5) \<ge> version_num MTK_HNAT_V2
     then hnat_write_cache_line_body dev p 0 0x7FFF 3 None ?h5
     else hnat_write_cache_line_body dev p 0 0x3FFF 3 None ?h5"
  let ?h7 = "if \<not> idle then h3 else cache_back_on dev p sm ce ?h6"
  have clr: "hnat_cache_clr dev p h = writel fc ?fl ?h7"
    using False
    by (cases idle) (simp_all add: hnat_cache_clr_def hnat_cache_clr_body_def Let_def h1 h3 h4 split del: if_split)
  have fc: "fc = reg_now dev ?fl h" and "h1 = snd (readl dev ?fl h)"
    using h1 by (auto simp: readl_def reg_now_def)
  then have to3: "io_only {?fl} h h3"
    using h3 io_only_idle_wait [of "{?fl}" h ?h2 dev p 10] by (simp add: hnat_frame)
  have mid_tb: "keeps dev ?tb (-1) h4 ?h6"
  proof (rule keeps_io_only [OF tb keeps_refl, of "line_regs p"])
    show "io_only (line_regs p) h4 ?h6" by (intro hnat_frame) simp_all
  qed (simp add: line_regs_def)
  have x: "keeps dev ?tb (-1) h h3" "keeps dev ?en CAH_EN h h3"
    by (rule keeps_io_only [OF tb keeps_refl to3] keeps_io_only [OF en keeps_refl to3], simp)+
  have to7: "keeps dev ?tb (-1) h ?h7" "keeps dev ?en CAH_EN h ?h7"
    using x keeps_trans [OF x(1) cache_off_on(1) [OF tb en h4 mid_tb]]
      keeps_trans [OF x(2) cache_off_on(2) [OF tb en h4 mid_tb]]
    by (cases idle; simp only: if_True if_False not_True_eq_False not_False_eq_True)+
  have "keeps dev ?tb (-1) h (writel fc ?fl ?h7)" "keeps dev ?en CAH_EN h (writel fc ?fl ?h7)"
    by (rule keeps_io_only [OF tb to7(1), of "{?fl}"] keeps_io_only [OF en to7(2), of "{?fl}"],
        (intro hnat_frame io_only_refl; simp), simp)+
  moreover have "keeps dev ?fl (-1) h (writel fc ?fl ?h7)"
    using holds_writel [OF fl] by (simp add: keeps_def fc)
  ultimately show ?thesis
    using io_only_hnat_cache_clr [OF io_only_refl, of p h dev] by (simp only: clr simp_thms)
qed

end
