(* ===== verification/Hnat_Entry.thy ===== *)
theory Hnat_Entry
  imports Hnat_Regs
begin

text \<open>
  Hardware NAT: the flow table. Looking an entry up by index, filling in its layer 2 part,
  comparing it with a MAC or IP address, and the operations that delete entries
  (\<open>hnat.c\<close>, \<open>hnat_debugfs.c\<close>, \<open>hnat_nf_hook.c\<close>).

  Reading or writing a table past its end is \<open>None\<close>.
\<close>

section \<open>The table\<close>

definition foe_at :: "mtk_hnat \<Rightarrow> nat \<Rightarrow> nat \<Rightarrow> foe_entry option" where
  "foe_at h p i = (if p < length (foe_table_cpu h) \<and> i < length (foe_table_cpu h ! p)
                   then Some (foe_table_cpu h ! p ! i) else None)"

definition foe_put :: "nat \<Rightarrow> nat \<Rightarrow> foe_entry \<Rightarrow> mtk_hnat \<Rightarrow> mtk_hnat" where
  "foe_put p i e h = h\<lparr>foe_table_cpu := (foe_table_cpu h)[p := (foe_table_cpu h ! p)[i := e]]\<rparr>"

abbreviation (input) DEF_ETRY_NUM :: nat where "DEF_ETRY_NUM \<equiv> 8192"

text \<open>\<open>Inr\<close> is the place of the entry, \<open>Inl\<close> the error pointer.\<close>

definition hnat_get_foe_entry :: "nat \<Rightarrow> nat \<Rightarrow> mtk_hnat \<Rightarrow> int + nat \<times> nat" where
  "hnat_get_foe_entry ppe i h =
     (if i = 0x7fff \<or> i \<ge> foe_etry_num h \<or> ppe \<ge> ppe_num h then Inl (- EINVAL) else Inr (ppe, i))"

text \<open>The entries the oldest hardware cannot use are made static, eight in every 128; the outer
  loop ends at the first multiple of 128 that is not below the table's size.\<close>

definition boundary_entry_offset :: "nat list" where
  "boundary_entry_offset = [12, 25, 38, 51, 76, 89, 102, 115]"

fun make_static :: "nat \<Rightarrow> nat list \<Rightarrow> foe_entry list \<Rightarrow> foe_entry list option" where
  "make_static base [] t = Some t" |
  "make_static base (o' # os) t =
     (if base + o' < length t
      then make_static base os (t[base + o' := setf hnat_unbind_info_blk ''sta'' 1 (t ! (base + o'))])
      else None)"

fun exclude_boundary_loop :: "nat \<Rightarrow> nat \<Rightarrow> foe_entry list \<Rightarrow> foe_entry list option" where
  "exclude_boundary_loop i 0 t = Some t" |
  "exclude_boundary_loop i (Suc n) t =
     do { t \<leftarrow> make_static (128 * i) boundary_entry_offset t; exclude_boundary_loop (Suc i) n t }"

definition exclude_boundary_entry :: "nat \<Rightarrow> foe_entry list \<Rightarrow> foe_entry list option" where
  "exclude_boundary_entry etry_num t = exclude_boundary_loop 0 ((etry_num + 127) div 128) t"

section \<open>Time stamps and the deletion of one entry\<close>

definition foe_timestamp :: "device \<Rightarrow> bool \<Rightarrow> mtk_hnat \<Rightarrow> u16 \<times> mtk_hnat" where
  "foe_timestamp dev mcast h =
     (let (v, h) = readl dev (Fe 0x10) h
      in (if mcast then ucast (v AND 0xffff)
          else if h_version h = MTK_HNAT_V2 \<or> h_version h = MTK_HNAT_V3 then ucast (v AND 0xFF)
          else ucast (v AND 0x7FFF), h))"

definition hnat_entry_delete :: "device \<Rightarrow> foe_entry \<Rightarrow> mtk_hnat \<Rightarrow> foe_entry \<times> mtk_hnat" where
  "hnat_entry_delete dev e h =
     (let e = setf hnat_bind_info_blk ''state'' INVALID e;
          (ts, h) = foe_timestamp dev False h
      in (setf hnat_bind_info_blk ''time_stamp'' (ucast ts) e, h))"

definition delete_at :: "device \<Rightarrow> nat \<Rightarrow> nat \<Rightarrow> mtk_hnat \<Rightarrow> mtk_hnat option" where
  "delete_at dev p i h = do {
     e \<leftarrow> foe_at h p i;
     let (e, h) = hnat_entry_delete dev e h;
     Some (foe_put p i e h) }"

fun delete_all_loop :: "device \<Rightarrow> nat \<Rightarrow> nat \<Rightarrow> nat \<Rightarrow> mtk_hnat \<Rightarrow> mtk_hnat option" where
  "delete_all_loop dev p i 0 h = Some h" |
  "delete_all_loop dev p i (Suc n) h = do { h \<leftarrow> delete_at dev p i h; delete_all_loop dev p (Suc i) n h }"

definition entry_delete :: "device \<Rightarrow> nat \<Rightarrow> int \<Rightarrow> mtk_hnat \<Rightarrow> (int \<times> mtk_hnat) option" where
  "entry_delete dev ppe i h =
     (if ppe \<ge> ppe_num h then Some (- EINVAL, h)
      else if i < -1 \<or> i \<ge> int (foe_etry_num h) then Some (- EINVAL, h)
      else do {
        h \<leftarrow> (if i = -1 then delete_all_loop dev ppe 0 (foe_etry_num h) h
              else delete_at dev ppe (nat i) h);
        Some (0, hnat_cache_clr dev ppe h) })"

section \<open>Layer 2 part\<close>

record flow_offload_hw_path =
  eth_dest :: mac_addr
  eth_src :: mac_addr
  pppoe_sid :: u16

definition ppe_fill_L2_info :: "foe_entry \<Rightarrow> flow_offload_hw_path \<Rightarrow> foe_entry" where
  "ppe_fill_L2_info e hp =
     (let dhi = swab32 (get_le32 (eth_dest hp) 0); dlo = ucast (swab16 (mac_lo16 (eth_dest hp)));
          shi = swab32 (get_le32 (eth_src hp) 0); slo = ucast (swab16 (mac_lo16 (eth_src hp)))
      in if pkt_type e = L2_BRIDGE then
           setf hnat_l2_bridge ''new_smac_lo'' slo (setf hnat_l2_bridge ''new_smac_hi'' shi
             (setf hnat_l2_bridge ''new_dmac_lo'' dlo (setf hnat_l2_bridge ''new_dmac_hi'' dhi e)))
         else if pkt_type e = IPV4_HNAPT \<or> pkt_type e = IPV4_HNAT then
           setf hnat_ipv4_hnapt ''pppoe_id'' (ucast (pppoe_sid hp))
             (setf hnat_ipv4_hnapt ''smac_lo'' slo (setf hnat_ipv4_hnapt ''smac_hi'' shi
               (setf hnat_ipv4_hnapt ''dmac_lo'' dlo (setf hnat_ipv4_hnapt ''dmac_hi'' dhi e))))
         else if pkt_type e \<in> {IPV4_DSLITE, IPV4_MAP_E, IPV6_6RD, IPV6_5T_ROUTE, IPV6_3T_ROUTE,
                               IPV6_HNAPT, IPV6_HNAT} then
           setf hnat_ipv6_5t_route ''pppoe_id'' (ucast (pppoe_sid hp))
             (setf hnat_ipv6_5t_route ''smac_lo'' slo (setf hnat_ipv6_5t_route ''smac_hi'' shi
               (setf hnat_ipv6_5t_route ''dmac_lo'' dlo (setf hnat_ipv6_5t_route ''dmac_hi'' dhi e))))
         else e)"

section \<open>Comparing an entry with an address\<close>

abbreviation (input) ENTRY_CMP_SRC :: u32 where "ENTRY_CMP_SRC \<equiv> 1"
abbreviation (input) ENTRY_CMP_DST :: u32 where "ENTRY_CMP_DST \<equiv> 2"
abbreviation (input) ENTRY_CMP_ANY :: u32 where "ENTRY_CMP_ANY \<equiv> 3"

definition entry_mac_cmp :: "foe_entry \<Rightarrow> mac_addr \<Rightarrow> u32 \<Rightarrow> bool" where
  "entry_mac_cmp e mac flags =
     (let L = (if IS_IPV4_GRP e then hnat_ipv4_hnapt else hnat_ipv6_5t_route);
          smac_hi = swab32 (getf L ''smac_hi'' e); smac_lo = swab16 (ucast (getf L ''smac_lo'' e));
          dmac_hi = swab32 (getf L ''dmac_hi'' e); dmac_lo = swab16 (ucast (getf L ''dmac_lo'' e))
      in if flags AND ENTRY_CMP_SRC \<noteq> 0 \<and> smac_hi = get_le32 mac 0 \<and> smac_lo = mac_lo16 mac then True
         else if flags AND ENTRY_CMP_DST \<noteq> 0 \<and> dmac_hi = get_le32 mac 0 \<and> dmac_lo = mac_lo16 mac then True
         else False)"

text \<open>The four words of an IPv6 address that start at a field; \<open>addr\<close> is the memory the caller
  points to, in network byte order.\<close>

definition addr6 :: "layout \<Rightarrow> string \<Rightarrow> foe_entry \<Rightarrow> u32 list" where
  "addr6 L f e = map (\<lambda>k. e (fst (field_pos 0 L f) div 32 + k)) [0..<4]"

definition entry_ip_cmp :: "foe_entry \<Rightarrow> bool \<Rightarrow> (nat \<Rightarrow> u32) \<Rightarrow> u32 \<Rightarrow> bool" where
  "entry_ip_cmp e is_ipv4 addr flags =
     (let t = pkt_type e;
          src = flags AND ENTRY_CMP_SRC \<noteq> 0; dst = flags AND ENTRY_CMP_DST \<noteq> 0
      in if is_ipv4 then
           let ipv4 = swab32 (addr 0);
               cmp = (\<lambda>s d. (src \<and> s = ipv4) \<or> (dst \<and> d = ipv4))
           in if t = IPV4_HNAPT \<or> t = IPV4_HNAT then
                cmp (getf hnat_ipv4_hnapt ''sip'' e) (getf hnat_ipv4_hnapt ''new_dip'' e)
              else if t = IPV4_DSLITE \<or> t = IPV4_MAP_E then
                cmp (getf hnat_ipv4_dslite ''sip'' e) (getf hnat_ipv4_dslite ''dip'' e)
              else if t = IPV6_6RD then
                cmp (getf hnat_ipv6_6rd ''tunnel_sipv4'' e) (getf hnat_ipv6_6rd ''tunnel_dipv4'' e)
              else False
         else
           let ipv6 = map (\<lambda>k. swab32 (addr k)) [0..<4];
               cmp = (\<lambda>s d. (src \<and> s = ipv6) \<or> (dst \<and> d = ipv6))
           in if t \<in> {IPV6_3T_ROUTE, IPV6_5T_ROUTE, IPV6_6RD} then
                cmp (addr6 hnat_ipv6_3t_route ''ipv6_sip0'' e) (addr6 hnat_ipv6_3t_route ''ipv6_dip0'' e)
              else if t = IPV6_HNAT \<or> t = IPV6_HNAPT then
                cmp (addr6 hnat_ipv6_hnapt ''ipv6_sip0'' e) (addr6 hnat_ipv6_hnapt ''new_ipv6_ip0'' e)
              else if t = IPV4_DSLITE \<or> t = IPV4_MAP_E then
                cmp (addr6 hnat_ipv4_dslite ''tunnel_sipv6_0'' e) (addr6 hnat_ipv4_dslite ''tunnel_dipv6_0'' e)
              else False)"

section \<open>Deleting the entries that match\<close>

definition mtk_get_wdma_tx_port :: "u32 \<Rightarrow> int" where
  "mtk_get_wdma_tx_port idx = (if idx = 0 \<or> idx = 1 \<or> idx = 2 then 3 else - EINVAL)"

definition mtk_get_wdma_rx_port :: "u32 \<Rightarrow> int" where
  "mtk_get_wdma_rx_port idx =
     (if idx = 2 then 13 else if idx = 1 then 9 else if idx = 0 then 8 else - EINVAL)"

text \<open>The loop the three functions share: all \<open>DEF_ETRY_NUM\<close> entries of an engine, the bound ones
  that match are deleted and counted.\<close>

fun delete_match_loop ::
    "device \<Rightarrow> (foe_entry \<Rightarrow> bool) \<Rightarrow> nat \<Rightarrow> nat \<Rightarrow> nat \<Rightarrow> nat \<Rightarrow> mtk_hnat \<Rightarrow> (nat \<times> mtk_hnat) option" where
  "delete_match_loop dev match p i 0 cnt h = Some (cnt, h)" |
  "delete_match_loop dev match p i (Suc n) cnt h = do {
     e \<leftarrow> foe_at h p i;
     if foe_state e = BIND \<and> match e
     then do { h \<leftarrow> delete_at dev p i h; delete_match_loop dev match p (Suc i) n (Suc cnt) h }
     else delete_match_loop dev match p (Suc i) n cnt h }"

fun delete_match_ppes ::
    "device \<Rightarrow> (foe_entry \<Rightarrow> bool) \<Rightarrow> nat \<Rightarrow> nat \<Rightarrow> nat \<Rightarrow> mtk_hnat \<Rightarrow> (nat \<times> mtk_hnat) option" where
  "delete_match_ppes dev match p 0 ret h = Some (ret, h)" |
  "delete_match_ppes dev match p (Suc n) ret h = do {
     (cnt, h) \<leftarrow> delete_match_loop dev match p 0 DEF_ETRY_NUM 0 h;
     let h = (if cnt > 0 then hnat_cache_clr dev p h else h);
     delete_match_ppes dev match (Suc p) n (ret + cnt) h }"

definition entry_delete_by_mac :: "device \<Rightarrow> mac_addr option \<Rightarrow> mtk_hnat \<Rightarrow> (nat \<times> mtk_hnat) option" where
  "entry_delete_by_mac dev mac h = (case mac of
     None \<Rightarrow> Some (0, h)
   | Some m \<Rightarrow> delete_match_ppes dev (\<lambda>e. entry_mac_cmp e m ENTRY_CMP_ANY) 0 (ppe_num h) 0 h)"

definition entry_delete_by_ip ::
    "device \<Rightarrow> bool \<Rightarrow> (nat \<Rightarrow> u32) option \<Rightarrow> mtk_hnat \<Rightarrow> (nat \<times> mtk_hnat) option" where
  "entry_delete_by_ip dev is_ipv4 addr h = (case addr of
     None \<Rightarrow> Some (0, h)
   | Some a \<Rightarrow> delete_match_ppes dev (\<lambda>e. entry_ip_cmp e is_ipv4 a ENTRY_CMP_ANY) 0 (ppe_num h) 0 h)"

definition wcid_match :: "foe_entry \<Rightarrow> u16 \<Rightarrow> u16 \<Rightarrow> int \<Rightarrow> bool" where
  "wcid_match e bssid wcid port =
     (let t = pkt_type e;
          L = (if IS_IPV4_GRP e then hnat_ipv4_hnapt
               else if t = IPV4_MAP_E \<or> t = IPV4_MAP_T then hnat_ipv4_mape
               else if t = IPV6_HNAPT \<or> t = IPV6_HNAT then hnat_ipv6_hnapt
               else hnat_ipv6_5t_route)
      in \<not> (getf L ''winfo.bssid'' e \<noteq> ucast bssid \<or> getf L ''winfo.wcid'' e \<noteq> ucast wcid
            \<or> int (unat (getf L ''iblk2.dp'' e)) \<noteq> port))"

definition entry_delete_by_bssid_wcid ::
    "device \<Rightarrow> u32 \<Rightarrow> u16 \<Rightarrow> u16 \<Rightarrow> mtk_hnat \<Rightarrow> (int \<times> mtk_hnat) option" where
  "entry_delete_by_bssid_wcid dev wdma_idx bssid wcid h =
     (let port = mtk_get_wdma_rx_port wdma_idx
      in if port < 0 then Some (- EINVAL, h)
         else do {
           (ret, h) \<leftarrow> delete_match_ppes dev (\<lambda>e. wcid_match e bssid wcid port) 0 (ppe_num h) 0 h;
           Some (int ret, h) })"

section \<open>What a deletion does to an entry\<close>

definition is_deleted :: "foe_entry \<Rightarrow> foe_entry \<Rightarrow> bool" where
  "is_deleted e e' \<longleftrightarrow> (\<exists>ts. e' = setf hnat_bind_info_blk ''time_stamp'' ts
     (setf hnat_bind_info_blk ''state'' INVALID e))"

lemma is_deleted_state: "is_deleted e e' \<Longrightarrow> foe_state e' = INVALID"
  by (auto simp: is_deleted_def foe_fields)

lemma is_deleted_word: "is_deleted e e' \<Longrightarrow> 0 < k \<Longrightarrow> e' k = e k"
  by (auto simp: is_deleted_def setf_word foe_fields)

lemma hnat_entry_delete_is_deleted: "is_deleted e (fst (hnat_entry_delete dev e h))"
  by (auto simp: is_deleted_def hnat_entry_delete_def Let_def case_prod_unfold)

text \<open>The state with other tables and more register accesses, none of them a write.\<close>

lemma foe_timestamp_state: "snd (foe_timestamp dev m h) = h\<lparr>h_io := Rd (Fe 0x10) # h_io h\<rparr>"
  by (simp add: foe_timestamp_def readl_def)

lemma hnat_entry_delete_state: "snd (hnat_entry_delete dev e h) = h\<lparr>h_io := Rd (Fe 0x10) # h_io h\<rparr>"
  by (simp add: hnat_entry_delete_def Let_def case_prod_unfold foe_timestamp_state)

text \<open>\<open>h'\<close> differs from \<open>h\<close> in the contents of the tables and by accesses to registers that
  write only registers of \<open>R\<close>.\<close>

definition io_grows :: "reg set \<Rightarrow> io list \<Rightarrow> io list \<Rightarrow> bool" where
  "io_grows R l l' \<longleftrightarrow> (\<exists>xs. l' = xs @ l \<and> (\<forall>r v. Wr r v \<in> set xs \<longrightarrow> r \<in> R))"

definition same_but_tables :: "reg set \<Rightarrow> mtk_hnat \<Rightarrow> mtk_hnat \<Rightarrow> bool" where
  "same_but_tables R h h' \<longleftrightarrow> map length (foe_table_cpu h') = map length (foe_table_cpu h)
     \<and> io_grows R (h_io h) (h_io h')
     \<and> h'\<lparr>foe_table_cpu := [], h_io := []\<rparr> = h\<lparr>foe_table_cpu := [], h_io := []\<rparr>"

lemma io_grows_refl [simp]: "io_grows R l l"
  by (simp add: io_grows_def)

lemma io_grows_trans: "io_grows R a b \<Longrightarrow> io_grows R b c \<Longrightarrow> io_grows R a c"
  unfolding io_grows_def
proof (elim exE conjE)
  fix xs ys
  assume "b = xs @ a" "c = ys @ b" "\<forall>r v. Wr r v \<in> set xs \<longrightarrow> r \<in> R" "\<forall>r v. Wr r v \<in> set ys \<longrightarrow> r \<in> R"
  then show "\<exists>xs. c = xs @ a \<and> (\<forall>r v. Wr r v \<in> set xs \<longrightarrow> r \<in> R)"
    by (intro exI [of _ "ys @ xs"]) auto
qed

lemma same_but_tables_refl [simp]: "same_but_tables R h h"
  by (simp add: same_but_tables_def)

lemma same_but_tables_trans:
  "same_but_tables R a b \<Longrightarrow> same_but_tables R b c \<Longrightarrow> same_but_tables R a c"
  by (auto simp: same_but_tables_def intro: io_grows_trans)

lemma same_but_tables_mono: "same_but_tables R a b \<Longrightarrow> R \<subseteq> S \<Longrightarrow> same_but_tables S a b"
  unfolding same_but_tables_def io_grows_def by blast

lemma same_but_tables_io: "io_only R a b \<Longrightarrow> same_but_tables R a b"
  unfolding same_but_tables_def io_grows_def io_only_def by (elim exE conjE) simp

lemma same_but_tables_fields:
  assumes "same_but_tables R h h'"
  shows "ppe_num h' = ppe_num h" "foe_etry_num h' = foe_etry_num h" "pmcast h' = pmcast h"
    "h_version h' = h_version h" "h_mcast h' = h_mcast h" "mcast_multi h' = mcast_multi h"
    "h_wan h' = h_wan h" "h_lan h' = h_lan h" "h_lan2 h' = h_lan2 h"
    "length (foe_table_cpu h') = length (foe_table_cpu h)"
proof -
  from assms have eq: "h'\<lparr>foe_table_cpu := [], h_io := []\<rparr> = h\<lparr>foe_table_cpu := [], h_io := []\<rparr>"
    by (simp add: same_but_tables_def)
  from arg_cong [OF eq, of ppe_num] show "ppe_num h' = ppe_num h" by simp
  from arg_cong [OF eq, of foe_etry_num] show "foe_etry_num h' = foe_etry_num h" by simp
  from arg_cong [OF eq, of pmcast] show "pmcast h' = pmcast h" by simp
  from arg_cong [OF eq, of h_version] show "h_version h' = h_version h" by simp
  from arg_cong [OF eq, of h_mcast] show "h_mcast h' = h_mcast h" by simp
  from arg_cong [OF eq, of mcast_multi] show "mcast_multi h' = mcast_multi h" by simp
  from arg_cong [OF eq, of h_wan] show "h_wan h' = h_wan h" by simp
  from arg_cong [OF eq, of h_lan] show "h_lan h' = h_lan h" by simp
  from arg_cong [OF eq, of h_lan2] show "h_lan2 h' = h_lan2 h" by simp
  from assms show "length (foe_table_cpu h') = length (foe_table_cpu h)"
    unfolding same_but_tables_def by (metis length_map)
qed

lemma same_but_tables_length:
  assumes "same_but_tables R h h'" "p < length (foe_table_cpu h)"
  shows "length (foe_table_cpu h' ! p) = length (foe_table_cpu h ! p)"
proof -
  have "map length (foe_table_cpu h') ! p = map length (foe_table_cpu h) ! p"
    using assms(1) by (simp add: same_but_tables_def)
  then show ?thesis using assms(2) same_but_tables_fields(10) [OF assms(1)] by simp
qed

text \<open>Deleting at a place of the table: the entry there is deleted, no other one changes.\<close>

lemma delete_at_spec:
  assumes "p < length (foe_table_cpu h)" "i < length (foe_table_cpu h ! p)"
  obtains h' e' where "delete_at dev p i h = Some h'" "is_deleted (foe_table_cpu h ! p ! i) e'"
    "foe_table_cpu h' = (foe_table_cpu h)[p := (foe_table_cpu h ! p)[i := e']]" "same_but_tables {} h h'"
proof -
  let ?e = "foe_table_cpu h ! p ! i"
  let ?d = "hnat_entry_delete dev ?e h"
  let ?h = "foe_put p i (fst ?d) (snd ?d)"
  have "delete_at dev p i h = Some ?h"
    using assms by (simp add: delete_at_def foe_at_def case_prod_unfold Let_def)
  moreover have "foe_table_cpu ?h = (foe_table_cpu h)[p := (foe_table_cpu h ! p)[i := fst ?d]]"
    by (simp add: foe_put_def hnat_entry_delete_state)
  moreover have "same_but_tables {} h ?h"
  proof -
    have "io_grows {} (h_io h) (Rd (Fe 0x10) # h_io h)"
      unfolding io_grows_def by (rule exI [of _ "[Rd (Fe 0x10)]"]) simp
    moreover have "map length ((foe_table_cpu h)[p := (foe_table_cpu h ! p)[i := fst ?d]]) = map length (foe_table_cpu h)"
      using assms(1) by (simp add: map_update list_update_same_conv)
    ultimately show ?thesis
      by (simp add: same_but_tables_def foe_put_def hnat_entry_delete_state)
  qed
  ultimately show ?thesis using that hnat_entry_delete_is_deleted by blast
qed

section \<open>Deleting the entries that match\<close>

definition hit :: "(foe_entry \<Rightarrow> bool) \<Rightarrow> foe_entry \<Rightarrow> bool" where
  "hit match e \<longleftrightarrow> foe_state e = BIND \<and> match e"

text \<open>Of the places in \<open>D\<close> those that held a hit hold the deleted entry, all else is as it was.\<close>

definition deleted_in :: "(foe_entry \<Rightarrow> bool) \<Rightarrow> (nat \<times> nat) set \<Rightarrow> mtk_hnat \<Rightarrow> mtk_hnat \<Rightarrow> bool" where
  "deleted_in match D h h' \<longleftrightarrow> (\<forall>q < length (foe_table_cpu h). \<forall>j < length (foe_table_cpu h ! q).
     if (q, j) \<in> D \<and> hit match (foe_table_cpu h ! q ! j)
     then is_deleted (foe_table_cpu h ! q ! j) (foe_table_cpu h' ! q ! j)
     else foe_table_cpu h' ! q ! j = foe_table_cpu h ! q ! j)"

lemma deleted_in_same: "foe_table_cpu h' = foe_table_cpu h \<Longrightarrow> deleted_in match {} h h'"
  by (simp add: deleted_in_def)

lemma deleted_in_seq:
  assumes "deleted_in match D h h1" "deleted_in match E h1 h2" "D \<inter> E = {}" "same_but_tables R h h1"
  shows "deleted_in match (D \<union> E) h h2"
  unfolding deleted_in_def
proof (intro allI impI)
  fix q j assume q: "q < length (foe_table_cpu h)" and j: "j < length (foe_table_cpu h ! q)"
  with assms(4) have "q < length (foe_table_cpu h1)" "j < length (foe_table_cpu h1 ! q)"
    by (simp_all add: same_but_tables_fields(10) same_but_tables_length)
  with assms(1,2) q j have
    "if (q, j) \<in> D \<and> hit match (foe_table_cpu h ! q ! j)
     then is_deleted (foe_table_cpu h ! q ! j) (foe_table_cpu h1 ! q ! j)
     else foe_table_cpu h1 ! q ! j = foe_table_cpu h ! q ! j"
    "if (q, j) \<in> E \<and> hit match (foe_table_cpu h1 ! q ! j)
     then is_deleted (foe_table_cpu h1 ! q ! j) (foe_table_cpu h2 ! q ! j)
     else foe_table_cpu h2 ! q ! j = foe_table_cpu h1 ! q ! j"
    unfolding deleted_in_def by blast+
  moreover have "(q, j) \<notin> D \<or> (q, j) \<notin> E" using assms(3) by blast
  ultimately show "if (q, j) \<in> D \<union> E \<and> hit match (foe_table_cpu h ! q ! j)
     then is_deleted (foe_table_cpu h ! q ! j) (foe_table_cpu h2 ! q ! j)
     else foe_table_cpu h2 ! q ! j = foe_table_cpu h ! q ! j"
    by (auto split: if_splits)
qed

lemma deleted_in_miss:
  "deleted_in match D h h' \<Longrightarrow> \<not> hit match (foe_table_cpu h ! p ! i) \<Longrightarrow> deleted_in match ({(p, i)} \<union> D) h h'"
proof -
  assume d: "deleted_in match D h h'" and "\<not> hit match (foe_table_cpu h ! p ! i)"
  then have "((q, j) \<in> {(p, i)} \<union> D \<and> hit match (foe_table_cpu h ! q ! j))
      = ((q, j) \<in> D \<and> hit match (foe_table_cpu h ! q ! j))" for q j
    by auto
  with d show ?thesis by (simp only: deleted_in_def)
qed

lemma deleted_in_at:
  assumes "p < length (foe_table_cpu h)" "i < length (foe_table_cpu h ! p)" "hit match (foe_table_cpu h ! p ! i)"
    "is_deleted (foe_table_cpu h ! p ! i) e'"
    "foe_table_cpu h' = (foe_table_cpu h)[p := (foe_table_cpu h ! p)[i := e']]"
  shows "deleted_in match {(p, i)} h h'"
  using assms by (auto simp: deleted_in_def nth_list_update)

definition hits :: "(foe_entry \<Rightarrow> bool) \<Rightarrow> mtk_hnat \<Rightarrow> nat \<Rightarrow> nat \<Rightarrow> nat \<Rightarrow> nat" where
  "hits match h p i n = length (filter (\<lambda>j. hit match (foe_table_cpu h ! p ! j)) [i..<i + n])"

lemma hits_Suc:
  "hits match h p i (Suc n) = (if hit match (foe_table_cpu h ! p ! i) then 1 else 0) + hits match h p (Suc i) n"
proof -
  have "[i..<i + Suc n] = i # [Suc i..<Suc i + n]" by (simp add: upt_conv_Cons del: upt_Suc)
  then show ?thesis by (simp add: hits_def del: upt_Suc)
qed

lemma hits_cong:
  "(\<And>j. i \<le> j \<Longrightarrow> j < i + n \<Longrightarrow> foe_table_cpu h' ! p ! j = foe_table_cpu h ! p ! j) \<Longrightarrow>
   hits match h' p i n = hits match h p i n"
  unfolding hits_def by (rule arg_cong [where f = length], rule filter_cong) auto

lemma delete_match_loop_spec:
  assumes "p < length (foe_table_cpu h)" "i + n \<le> length (foe_table_cpu h ! p)"
  shows "wp (delete_match_loop dev match p i n cnt h) (\<lambda>(cnt', h'). same_but_tables {} h h'
     \<and> deleted_in match ({p} \<times> {i..<i + n}) h h' \<and> cnt' = cnt + hits match h p i n)"
  using assms
proof (induction n arbitrary: i cnt h)
  case 0
  then show ?case by (simp add: deleted_in_def hits_def)
next
  case (Suc n)
  let ?T = "foe_table_cpu h"
  have i: "i < length (?T ! p)" and at: "foe_at h p i = Some (?T ! p ! i)"
    using Suc.prems by (simp_all add: foe_at_def)
  have D: "{p} \<times> {i..<i + Suc n} = {(p, i)} \<union> {p} \<times> {Suc i..<Suc i + n}" by auto
  show ?case
  proof (cases "hit match (?T ! p ! i)")
    case True
    obtain h1 e' where d: "delete_at dev p i h = Some h1" "is_deleted (?T ! p ! i) e'"
        "foe_table_cpu h1 = ?T[p := (?T ! p)[i := e']]" "same_but_tables {} h h1"
      using delete_at_spec [OF Suc.prems(1) i] .
    have hs: "hits match h1 p (Suc i) n = hits match h p (Suc i) n"
      using Suc.prems(1) by (intro hits_cong) (simp add: d(3))
    have first: "deleted_in match {(p, i)} h h1"
      using Suc.prems(1) i True d(2,3) by (rule deleted_in_at)
    have seq: "deleted_in match ({p} \<times> {i..<i + Suc n}) h h'"
      if "deleted_in match ({p} \<times> {Suc i..<Suc i + n}) h1 h'" for h'
      unfolding D by (rule deleted_in_seq [OF first that _ d(4)]) auto
    have "p < length (foe_table_cpu h1)" "Suc i + n \<le> length (foe_table_cpu h1 ! p)"
      using Suc.prems by (simp_all add: d(3))
    from Suc.IH [OF this, of "Suc cnt"]
    have "wp (delete_match_loop dev match p (Suc i) n (Suc cnt) h1) (\<lambda>(cnt', h'). same_but_tables {} h h'
        \<and> deleted_in match ({p} \<times> {i..<i + Suc n}) h h' \<and> cnt' = cnt + hits match h p i (Suc n))"
      by (rule wp_pair) (use True hs in \<open>auto simp: hits_Suc intro: same_but_tables_trans [OF d(4)]
          simp del: add_Suc_right intro!: seq\<close>)
    with True show ?thesis by (simp add: at d(1) hit_def)
  next
    case False
    from Suc.IH [OF Suc.prems(1), of "Suc i" cnt] Suc.prems(2)
    have "wp (delete_match_loop dev match p (Suc i) n cnt h) (\<lambda>(cnt', h'). same_but_tables {} h h'
        \<and> deleted_in match ({p} \<times> {Suc i..<Suc i + n}) h h' \<and> cnt' = cnt + hits match h p (Suc i) n)"
      by simp
    then have "wp (delete_match_loop dev match p (Suc i) n cnt h) (\<lambda>(cnt', h'). same_but_tables {} h h'
        \<and> deleted_in match ({p} \<times> {i..<i + Suc n}) h h' \<and> cnt' = cnt + hits match h p i (Suc n))"
      by (rule wp_pair) (use False deleted_in_miss in \<open>auto simp: D hits_Suc simp del: add_Suc_right\<close>)
    with False show ?thesis by (auto simp: at hit_def)
  qed
qed

lemma deleted_in_tables: "foe_table_cpu h1 = foe_table_cpu h2 \<Longrightarrow> deleted_in match D h h1 = deleted_in match D h h2"
  by (simp add: deleted_in_def)

lemma deleted_in_untouched:
  "deleted_in match D h h' \<Longrightarrow> (q, j) \<notin> D \<Longrightarrow> q < length (foe_table_cpu h) \<Longrightarrow> j < length (foe_table_cpu h ! q)
   \<Longrightarrow> foe_table_cpu h' ! q ! j = foe_table_cpu h ! q ! j"
  unfolding deleted_in_def by auto

lemma same_but_tables_cache_clr:
  "same_but_tables (cache_regs p) h (hnat_cache_clr dev p h) \<and> foe_table_cpu (hnat_cache_clr dev p h) = foe_table_cpu h"
  using io_only_hnat_cache_clr [OF io_only_refl, of p h dev] by (simp add: same_but_tables_io io_only_fields(4))

lemma delete_match_ppes_spec:
  assumes "p + n \<le> length (foe_table_cpu h)" "\<forall>q < p + n. DEF_ETRY_NUM \<le> length (foe_table_cpu h ! q)"
  shows "wp (delete_match_ppes dev match p n ret h) (\<lambda>(r, h').
     same_but_tables (\<Union>q \<in> {p..<p + n}. cache_regs q) h h'
     \<and> deleted_in match ({p..<p + n} \<times> {0..<DEF_ETRY_NUM}) h h'
     \<and> r = ret + (\<Sum>q = p..<p + n. hits match h q 0 DEF_ETRY_NUM))"
  using assms
proof (induction n arbitrary: p ret h)
  case 0
  then show ?case by (simp add: deleted_in_def)
next
  case (Suc n)
  let ?N = "DEF_ETRY_NUM"
  have D: "{p..<p + Suc n} \<times> {0..<?N} = {p} \<times> {0..<0 + ?N} \<union> {Suc p..<Suc p + n} \<times> {0..<?N}" by auto
  have U: "cache_regs p \<subseteq> (\<Union>q \<in> {p..<p + Suc n}. cache_regs q)"
    "(\<Union>q \<in> {Suc p..<Suc p + n}. cache_regs q) \<subseteq> (\<Union>q \<in> {p..<p + Suc n}. cache_regs q)"
    by (force intro: UN_upper)+
  have S: "(\<Sum>q = p..<p + Suc n. f q) = f p + (\<Sum>q = Suc p..<Suc p + n. f q)" for f :: "nat \<Rightarrow> nat"
    by (simp add: sum.atLeast_Suc_lessThan)
  have "p < length (foe_table_cpu h)" "0 + ?N \<le> length (foe_table_cpu h ! p)" using Suc.prems by auto
  from delete_match_loop_spec [OF this, of dev match 0]
  obtain cnt h1 where l: "delete_match_loop dev match p 0 ?N 0 h = Some (cnt, h1)" "same_but_tables {} h h1"
      "deleted_in match ({p} \<times> {0..<0 + ?N}) h h1" "cnt = hits match h p 0 ?N"
    by (auto simp: wp_iff)
  define h2 where "h2 = (if cnt > 0 then hnat_cache_clr dev p h1 else h1)"
  have T2: "foe_table_cpu h2 = foe_table_cpu h1" and h12: "same_but_tables (cache_regs p) h1 h2"
    using same_but_tables_cache_clr [of p h1 dev] by (auto simp: h2_def)
  have h02: "same_but_tables (cache_regs p) h h2"
    using same_but_tables_mono [OF l(2), of "cache_regs p"] h12 by (auto intro: same_but_tables_trans)
  have first: "deleted_in match ({p} \<times> {0..<0 + ?N}) h h2"
    using l(3) deleted_in_tables [OF T2] by simp
  have "Suc p + n \<le> length (foe_table_cpu h2)" "\<forall>q < Suc p + n. ?N \<le> length (foe_table_cpu h2 ! q)"
    using Suc.prems by (auto simp: same_but_tables_fields(10) [OF h02] same_but_tables_length [OF h02])
  note ih = Suc.IH [OF this, of "ret + cnt"]
  have hs: "hits match h2 q 0 ?N = hits match h q 0 ?N" if "q \<in> {Suc p..<Suc p + n}" for q
    using that Suc.prems by (intro hits_cong deleted_in_untouched [OF first]) (auto dest: spec [of _ q])
  have "wp (delete_match_ppes dev match (Suc p) n (ret + cnt) h2) (\<lambda>(r, h').
     same_but_tables (\<Union>q \<in> {p..<p + Suc n}. cache_regs q) h h'
     \<and> deleted_in match ({p..<p + Suc n} \<times> {0..<?N}) h h'
     \<and> r = ret + (\<Sum>q = p..<p + Suc n. hits match h q 0 ?N))"
  proof (rule wp_pair [OF ih], elim conjE, intro conjI)
    fix r h'
    assume a: "same_but_tables (\<Union>q \<in> {Suc p..<Suc p + n}. cache_regs q) h2 h'"
      and b: "deleted_in match ({Suc p..<Suc p + n} \<times> {0..<?N}) h2 h'"
      and c: "r = ret + cnt + (\<Sum>q = Suc p..<Suc p + n. hits match h2 q 0 ?N)"
    show "same_but_tables (\<Union>q \<in> {p..<p + Suc n}. cache_regs q) h h'"
      by (rule same_but_tables_trans [OF same_but_tables_mono [OF h02 U(1)] same_but_tables_mono [OF a U(2)]])
    show "deleted_in match ({p..<p + Suc n} \<times> {0..<?N}) h h'"
      unfolding D by (rule deleted_in_seq [OF first b _ h02]) auto
    show "r = ret + (\<Sum>q = p..<p + Suc n. hits match h q 0 ?N)"
      using c hs unfolding S by (simp add: l(4))
  qed
  then show ?case by (simp add: l(1) h2_def Let_def)
qed

text \<open>A table shorter than the loop bound is read past its end.\<close>

lemma delete_match_loop_overrun:
  assumes "p < length (foe_table_cpu h)" "length (foe_table_cpu h ! p) < i + n" "i \<le> length (foe_table_cpu h ! p)"
  shows "delete_match_loop dev match p i n cnt h = None"
  using assms
proof (induction n arbitrary: i cnt h)
  case (Suc n)
  show ?case
  proof (cases "i = length (foe_table_cpu h ! p)")
    case True
    then show ?thesis by (simp add: foe_at_def)
  next
    case False
    with Suc.prems have i: "i < length (foe_table_cpu h ! p)" by simp
    obtain h1 e' where d: "delete_at dev p i h = Some h1"
        "foe_table_cpu h1 = (foe_table_cpu h)[p := (foe_table_cpu h ! p)[i := e']]"
      using delete_at_spec [OF Suc.prems(1) i] by metis
    show ?thesis using Suc.IH [of h] Suc.IH [of h1] Suc.prems i by (auto simp: foe_at_def d)
  qed
qed simp

definition full_tables :: "mtk_hnat \<Rightarrow> bool" where
  "full_tables h \<longleftrightarrow> ppe_num h \<le> length (foe_table_cpu h)
     \<and> (\<forall>p < ppe_num h. DEF_ETRY_NUM \<le> length (foe_table_cpu h ! p))"

definition all_hits :: "(foe_entry \<Rightarrow> bool) \<Rightarrow> mtk_hnat \<Rightarrow> nat" where
  "all_hits match h = (\<Sum>p = 0..<ppe_num h. hits match h p 0 DEF_ETRY_NUM)"

lemma delete_match_spec:
  assumes "full_tables h"
  shows "wp (delete_match_ppes dev match 0 (ppe_num h) 0 h) (\<lambda>(r, h').
     same_but_tables (\<Union>p \<in> {0..<ppe_num h}. cache_regs p) h h'
     \<and> deleted_in match ({0..<ppe_num h} \<times> {0..<DEF_ETRY_NUM}) h h' \<and> r = all_hits match h)"
  using delete_match_ppes_spec [of 0 "ppe_num h" h dev match 0] assms
  by (simp add: full_tables_def all_hits_def)

lemma deleted_no_hit:
  assumes "deleted_in match D h h'" "(p, j) \<in> D" "p < length (foe_table_cpu h)" "j < length (foe_table_cpu h ! p)"
  shows "\<not> hit match (foe_table_cpu h' ! p ! j)"
proof (cases "hit match (foe_table_cpu h ! p ! j)")
  case True
  with assms have "is_deleted (foe_table_cpu h ! p ! j) (foe_table_cpu h' ! p ! j)"
    unfolding deleted_in_def by auto
  then show ?thesis by (simp add: hit_def is_deleted_state)
next
  case False
  with assms show ?thesis unfolding deleted_in_def by auto
qed

lemma deleted_in_hit:
  "deleted_in match D h h' \<Longrightarrow> (p, j) \<in> D \<and> hit match (foe_table_cpu h ! p ! j) \<Longrightarrow> p < length (foe_table_cpu h)
   \<Longrightarrow> j < length (foe_table_cpu h ! p) \<Longrightarrow> is_deleted (foe_table_cpu h ! p ! j) (foe_table_cpu h' ! p ! j)"
  unfolding deleted_in_def by auto

lemma deleted_in_kept:
  "deleted_in match D h h' \<Longrightarrow> \<not> hit match (foe_table_cpu h ! p ! j) \<Longrightarrow> p < length (foe_table_cpu h)
   \<Longrightarrow> j < length (foe_table_cpu h ! p) \<Longrightarrow> foe_table_cpu h' ! p ! j = foe_table_cpu h ! p ! j"
  unfolding deleted_in_def by auto

lemma entry_delete_by_mac_mac:
  "entry_delete_by_mac dev (Some mac) h
     = delete_match_ppes dev (\<lambda>e. entry_mac_cmp e mac ENTRY_CMP_ANY) 0 (ppe_num h) 0 h"
  by (simp add: entry_delete_by_mac_def)

lemma delete_match_ppes_overrun:
  assumes "p < length (foe_table_cpu h)" "length (foe_table_cpu h ! p) < DEF_ETRY_NUM"
  shows "delete_match_ppes dev match p (Suc n) ret h = None"
  using delete_match_loop_overrun [of p h 0 DEF_ETRY_NUM dev match 0] assms by simp

section \<open>Filling in and comparing MAC addresses\<close>

lemma ucast_u16_u32 [simp]: "ucast (ucast (w :: u16) :: u32) = w"
  by (rule bit_word_eqI) (auto simp: bit_simps)

lemma take_bit_16_ucast [simp]: "take_bit 16 (ucast (w :: u16) :: u32) = ucast w"
  by (rule bit_word_eqI) (auto simp: bit_simps dest: bit_imp_le_length)

lemma take_bit_32_u32 [simp]: "take_bit 32 (w :: u32) = w"
  by (rule bit_word_eqI) (auto simp: bit_simps)

lemma fill_pkt_type [simp]: "pkt_type (ppe_fill_L2_info e hp) = pkt_type e"
  by (simp add: ppe_fill_L2_info_def Let_def foe_fields)

text \<open>The addresses that were filled in are found again, except in a bridging entry: the
  comparison reads the words where an IPv6 entry has them.\<close>

lemma fill_then_cmp:
  assumes "pkt_type e \<in> {IPV4_HNAPT, IPV4_HNAT, IPV4_DSLITE, IPV4_MAP_E, IPV6_6RD, IPV6_5T_ROUTE,
      IPV6_3T_ROUTE, IPV6_HNAPT, IPV6_HNAT}"
  shows "entry_mac_cmp (ppe_fill_L2_info e hp) (eth_dest hp) ENTRY_CMP_ANY"
    and "entry_mac_cmp (ppe_fill_L2_info e hp) (eth_src hp) ENTRY_CMP_ANY"
  using assms
  by (auto simp: entry_mac_cmp_def IS_IPV4_GRP_def ppe_fill_L2_info_def Let_def foe_fields)

lemma fill_bridge_cmp:
  assumes "pkt_type e = L2_BRIDGE"
  shows "entry_mac_cmp (ppe_fill_L2_info e hp) mac flags = entry_mac_cmp e mac flags"
  using assms
  by (simp add: entry_mac_cmp_def IS_IPV4_GRP_def ppe_fill_L2_info_def Let_def foe_fields)

section \<open>The addresses an entry holds\<close>

text \<open>Independently of the comparison: the structure of each packet type, and a MAC address as the six
  bytes of its two fields, the first byte the highest. A bridging entry has its addresses under other
  names and is not among them.\<close>

definition l2_layout :: "u32 \<Rightarrow> layout option" where
  "l2_layout t = map_of [(IPV4_HNAPT, hnat_ipv4_hnapt), (IPV4_HNAT, hnat_ipv4_hnapt),
     (IPV4_DSLITE, hnat_ipv4_dslite), (IPV4_MAP_E, hnat_ipv4_mape), (IPV6_3T_ROUTE, hnat_ipv6_3t_route),
     (IPV6_5T_ROUTE, hnat_ipv6_5t_route), (IPV6_6RD, hnat_ipv6_6rd), (IPV6_HNAPT, hnat_ipv6_hnapt),
     (IPV6_HNAT, hnat_ipv6_hnapt)] t"

definition mac_of :: "u32 \<Rightarrow> u32 \<Rightarrow> mac_addr" where
  "mac_of hi lo = [ucast (drop_bit 24 hi), ucast (drop_bit 16 hi), ucast (drop_bit 8 hi), ucast hi,
     ucast (drop_bit 8 lo), ucast lo]"

definition has_mac :: "foe_entry \<Rightarrow> mac_addr \<Rightarrow> bool" where
  "has_mac e m \<longleftrightarrow> (case l2_layout (pkt_type e) of None \<Rightarrow> False
     | Some L \<Rightarrow> mac_of (getf L ''dmac_hi'' e) (getf L ''dmac_lo'' e) = take 6 m
         \<or> mac_of (getf L ''smac_hi'' e) (getf L ''smac_lo'' e) = take 6 m)"

lemma mac_of_words:
  assumes "mac_of hi lo = take 6 m"
  shows "swab32 hi = get_le32 m 0 \<and> swab16 (ucast lo) = mac_lo16 m"
proof
  have n: "m ! i = mac_of hi lo ! i" if "i < 6" for i using that by (simp add: assms)
  have b: "m ! 0 = ucast (drop_bit 24 hi)" "m ! 1 = ucast (drop_bit 16 hi)" "m ! 2 = ucast (drop_bit 8 hi)"
    "m ! 3 = ucast hi" "m ! 4 = ucast (drop_bit 8 lo)" "m ! 5 = ucast lo"
    using n [of 0] n [of 1] n [of 2] n [of 3] n [of 4] n [of 5] by (simp_all add: mac_of_def)
  have g: "get_le32 m 0 = ucast (m ! 0) OR push_bit 8 (ucast (m ! 1)) OR push_bit 16 (ucast (m ! 2))
      OR push_bit 24 (ucast (m ! 3))"
    by (simp add: get_le32_def numeral_2_eq_2 numeral_3_eq_3)
  show "swab32 hi = get_le32 m 0"
    unfolding g b
  proof (rule bit_word_eqI)
    fix i assume "i < LENGTH(32)"
    then consider "i < 8" | "8 \<le> i" "i < 16" | "16 \<le> i" "i < 24" | "24 \<le> i" "i < 32" by fastforce
    then show "bit (swab32 hi) i = bit ((ucast (ucast (drop_bit 24 hi) :: u8) :: u32) OR push_bit 8 (ucast (ucast (drop_bit 16 hi) :: u8))
        OR push_bit 16 (ucast (ucast (drop_bit 8 hi) :: u8)) OR push_bit 24 (ucast (ucast hi :: u8))) i"
      by cases (auto simp: bit_swab32 bit_simps add.commute)
  qed
  show "swab16 (ucast lo) = mac_lo16 m"
  proof (rule bit_word_eqI)
    fix i assume "i < LENGTH(16)"
    then consider "i < 8" | "8 \<le> i" "i < 16" by fastforce
    then show "bit (swab16 (ucast lo)) i = bit (mac_lo16 m) i"
      by cases (auto simp: swab16_def mac_lo16_def b bit_simps add.commute)
  qed
qed

lemma l2_fields [foe_fields]:
  "field_pos 0 hnat_ipv4_dslite ''dmac_hi'' = (512, 32)" "field_pos 0 hnat_ipv4_dslite ''dmac_lo'' = (560, 16)"
  "field_pos 0 hnat_ipv4_dslite ''smac_hi'' = (576, 32)" "field_pos 0 hnat_ipv4_dslite ''smac_lo'' = (624, 16)"
  "field_pos 0 hnat_ipv4_mape ''dmac_hi'' = (512, 32)" "field_pos 0 hnat_ipv4_mape ''dmac_lo'' = (560, 16)"
  "field_pos 0 hnat_ipv4_mape ''smac_hi'' = (576, 32)" "field_pos 0 hnat_ipv4_mape ''smac_lo'' = (624, 16)"
  "field_pos 0 hnat_ipv6_3t_route ''dmac_hi'' = (512, 32)" "field_pos 0 hnat_ipv6_3t_route ''dmac_lo'' = (560, 16)"
  "field_pos 0 hnat_ipv6_3t_route ''smac_hi'' = (576, 32)" "field_pos 0 hnat_ipv6_3t_route ''smac_lo'' = (624, 16)"
  "field_pos 0 hnat_ipv6_6rd ''dmac_hi'' = (512, 32)" "field_pos 0 hnat_ipv6_6rd ''dmac_lo'' = (560, 16)"
  "field_pos 0 hnat_ipv6_6rd ''smac_hi'' = (576, 32)" "field_pos 0 hnat_ipv6_6rd ''smac_lo'' = (624, 16)"
  "field_pos 0 hnat_ipv6_hnapt ''dmac_hi'' = (512, 32)" "field_pos 0 hnat_ipv6_hnapt ''dmac_lo'' = (560, 16)"
  "field_pos 0 hnat_ipv6_hnapt ''smac_hi'' = (576, 32)" "field_pos 0 hnat_ipv6_hnapt ''smac_lo'' = (624, 16)"
  by code_simp+

lemma has_mac_cmp: "has_mac e m \<Longrightarrow> entry_mac_cmp e m ENTRY_CMP_ANY"
  by (auto simp: has_mac_def l2_layout_def entry_mac_cmp_def IS_IPV4_GRP_def Let_def getf_def foe_fields
      dest!: mac_of_words split: if_splits)

end
