(* ===== verification/Hnat_Api.thy ===== *)
theory Hnat_Api
  imports Hnat_Entry
begin

text \<open>
  Hardware NAT: the interface for other kernel modules (\<open>hnat_api.c\<close>) and the hash by which
  the packet engine places a flow (\<open>hnat_get_ppe_hash\<close> of \<open>hnat_debugfs.c\<close>).

  Each update operation is a function on one entry, run on a copy by a common template. What
  the template relies on is the locale \<open>entry_update\<close>; every update function is an instance.
\<close>

section \<open>Status and tuple\<close>

abbreviation (input) HNAT_ALREADY_SET :: int where "HNAT_ALREADY_SET \<equiv> 1"
abbreviation (input) HNAT_SUCCESS :: int where "HNAT_SUCCESS \<equiv> 0"
abbreviation (input) HNAT_FAIL :: int where "HNAT_FAIL \<equiv> -1"
abbreviation (input) HNAT_ENTRY_NOT_FOUND :: int where "HNAT_ENTRY_NOT_FOUND \<equiv> -2"

text \<open>\<open>struct hnat_tuple\<close>; an IPv6 address is its four words.\<close>

record hnat_tuple =
  t_ppe_index :: u16
  t_hash_index :: u16
  t_ttl :: u16
  t_psn :: u16
  t_fqos :: u16
  t_qid :: u16
  t_vlan_layer :: u16
  t_dscp :: u16
  t_pkt_type :: u16
  t_is_udp :: u16
  t_fdr_en :: u16
  t_rxid :: u16
  t_fp :: u16
  t_tid :: u16
  t_is_prior :: u16
  t_dmac :: mac_addr
  t_smac :: mac_addr
  t_vlan1 :: u16
  t_vlan2 :: u16
  t_pppoe_id :: u16
  t_ing_sipv4 :: u32
  t_ing_dipv4 :: u32
  t_ing_sipv6 :: "u32 list"
  t_ing_dipv6 :: "u32 list"
  t_eg_sipv4 :: u32
  t_eg_dipv4 :: u32
  t_eg_sipv6 :: "u32 list"
  t_eg_dipv6 :: "u32 list"
  t_ing_sp :: u16
  t_ing_dp :: u16
  t_eg_sp :: u16
  t_eg_dp :: u16
  t_ing_dev :: string
  t_eg_dev :: string

section \<open>From an entry to a tuple\<close>

definition tuple_info2 :: "layout \<Rightarrow> foe_entry \<Rightarrow> hnat_tuple \<Rightarrow> hnat_tuple" where
  "tuple_info2 L e opt = opt\<lparr>
     t_fqos := (if getf L ''tport_id'' e = 1 then 1 else 0),
     t_qid := ucast (getf L ''iblk2.qid'' e),
     t_dscp := ucast (getf L ''iblk2.dscp'' e),
     t_fdr_en := ucast (getf L ''iblk2.winfoi'' e),
     t_rxid := ucast (getf L ''iblk2.rxid'' e),
     t_fp := ucast (getf L ''iblk2.dp'' e),
     t_tid := ucast (getf L ''winfo_pao.tid'' e),
     t_is_prior := ucast (getf L ''winfo_pao.is_prior'' e)\<rparr>"

definition mtk_hnat_foe_to_tuple_info_blk :: "foe_entry \<Rightarrow> hnat_tuple \<Rightarrow> hnat_tuple" where
  "mtk_hnat_foe_to_tuple_info_blk e opt =
     (let opt = opt\<lparr>t_is_udp := ucast (getf hnat_bind_info_blk ''udp'' e),
                    t_pkt_type := ucast (pkt_type e),
                    t_vlan_layer := ucast (getf hnat_bind_info_blk ''vlan_layer'' e),
                    t_psn := ucast (getf hnat_bind_info_blk ''psn'' e),
                    t_ttl := ucast (getf hnat_bind_info_blk ''ttl'' e)\<rparr>
      in if pkt_type e = IPV4_HNAPT then tuple_info2 hnat_ipv4_hnapt e opt
         else if pkt_type e = IPV6_5T_ROUTE then tuple_info2 hnat_ipv6_5t_route e opt
         else opt)"

definition mac_bytes :: "u32 \<Rightarrow> u16 \<Rightarrow> mac_addr" where
  "mac_bytes hi lo = le32 hi @ [ucast lo, ucast (drop_bit 8 lo)]"

definition mtk_hnat_foe_to_tuple_l2 :: "foe_entry \<Rightarrow> hnat_tuple \<Rightarrow> hnat_tuple" where
  "mtk_hnat_foe_to_tuple_l2 e opt =
     (let L = (if IS_IPV4_GRP e then hnat_ipv4_hnapt else hnat_ipv6_5t_route)
      in opt\<lparr>t_vlan1 := ucast (getf L ''vlan1'' e),
             t_vlan2 := ucast (getf L ''vlan2'' e),
             t_pppoe_id := ucast (getf L ''pppoe_id'' e),
             t_dmac := mac_bytes (swab32 (getf L ''dmac_hi'' e)) (swab16 (ucast (getf L ''dmac_lo'' e))),
             t_smac := mac_bytes (swab32 (getf L ''smac_hi'' e)) (swab16 (ucast (getf L ''smac_lo'' e)))\<rparr>)"

definition mtk_hnat_foe_to_tuple_l3 :: "foe_entry \<Rightarrow> hnat_tuple \<Rightarrow> hnat_tuple" where
  "mtk_hnat_foe_to_tuple_l3 e opt =
     (if pkt_type e = IPV4_HNAPT then
        opt\<lparr>t_ing_sipv4 := swab32 (getf hnat_ipv4_hnapt ''sip'' e),
            t_ing_dipv4 := swab32 (getf hnat_ipv4_hnapt ''dip'' e),
            t_eg_sipv4 := swab32 (getf hnat_ipv4_hnapt ''new_sip'' e),
            t_eg_dipv4 := swab32 (getf hnat_ipv4_hnapt ''new_dip'' e)\<rparr>
      else if pkt_type e = IPV6_5T_ROUTE then
        opt\<lparr>t_ing_sipv6 := addr6 hnat_ipv6_5t_route ''ipv6_sip0'' e,
            t_ing_dipv6 := addr6 hnat_ipv6_5t_route ''ipv6_dip0'' e,
            t_eg_sipv6 := addr6 hnat_ipv6_5t_route ''ipv6_sip0'' e,
            t_eg_dipv6 := addr6 hnat_ipv6_5t_route ''ipv6_dip0'' e\<rparr>
      else opt)"

definition mtk_hnat_foe_to_tuple_l4 :: "foe_entry \<Rightarrow> hnat_tuple \<Rightarrow> hnat_tuple" where
  "mtk_hnat_foe_to_tuple_l4 e opt =
     (if pkt_type e = IPV4_HNAPT then
        opt\<lparr>t_ing_sp := ucast (getf hnat_ipv4_hnapt ''sport'' e),
            t_ing_dp := ucast (getf hnat_ipv4_hnapt ''dport'' e),
            t_eg_sp := ucast (getf hnat_ipv4_hnapt ''new_sport'' e),
            t_eg_dp := ucast (getf hnat_ipv4_hnapt ''new_dport'' e)\<rparr>
      else if pkt_type e = IPV6_5T_ROUTE then
        opt\<lparr>t_ing_sp := ucast (getf hnat_ipv6_5t_route ''sport'' e),
            t_ing_dp := ucast (getf hnat_ipv6_5t_route ''dport'' e),
            t_eg_sp := ucast (getf hnat_ipv6_5t_route ''sport'' e),
            t_eg_dp := ucast (getf hnat_ipv6_5t_route ''dport'' e)\<rparr>
      else opt)"

definition mtk_hnat_foe_to_hnat_tuple :: "foe_entry \<Rightarrow> hnat_tuple \<Rightarrow> hnat_tuple" where
  "mtk_hnat_foe_to_hnat_tuple e opt =
     mtk_hnat_foe_to_tuple_l4 e (mtk_hnat_foe_to_tuple_l3 e (mtk_hnat_foe_to_tuple_l2 e
       (mtk_hnat_foe_to_tuple_info_blk e opt)))"

definition mtk_hnat_get_ppe_num :: "mtk_hnat \<Rightarrow> nat" where
  "mtk_hnat_get_ppe_num h = ppe_num h"

definition mtk_hnat_get_ppe_entry_num :: "mtk_hnat \<Rightarrow> nat" where
  "mtk_hnat_get_ppe_entry_num h = foe_etry_num h"

definition mtk_hnat_get_ppe_entry_by_index :: "mtk_hnat \<Rightarrow> hnat_tuple \<Rightarrow> (int \<times> hnat_tuple) option" where
  "mtk_hnat_get_ppe_entry_by_index h opt =
     (let ppe = unat (t_ppe_index opt); hash = unat (t_hash_index opt)
      in if ppe \<ge> ppe_num h \<or> hash \<ge> foe_etry_num h then Some (HNAT_FAIL, opt)
         else do {
           e \<leftarrow> foe_at h ppe hash;
           if \<not> entry_hnat_is_bound e then Some (HNAT_ENTRY_NOT_FOUND, opt)
           else Some (HNAT_SUCCESS, mtk_hnat_foe_to_hnat_tuple e opt) })"

section \<open>The hash of a flow\<close>

definition hnat_get_ppe_hash :: "u32 \<Rightarrow> foe_entry \<Rightarrow> u32" where
  "hnat_get_ppe_hash etry_num e =
     (let t = pkt_type e;
          (hv1, hv2, hv3) =
            (if t = L2_BRIDGE then
               (push_bit 16 (getf hnat_l2_bridge ''etype'' e)
                  OR (getf hnat_l2_bridge ''vlan2'' e XOR getf hnat_l2_bridge ''vlan1'' e),
                0x5a5a OR push_bit 16 (getf hnat_l2_bridge ''smac_lo'' e XOR getf hnat_l2_bridge ''dmac_lo'' e),
                getf hnat_l2_bridge ''dmac_hi'' e XOR getf hnat_l2_bridge ''smac_hi'' e)
             else if t = IPV4_HNAPT \<or> t = IPV4_HNAT \<or> t = IPV4_DSLITE then
               (push_bit 16 (getf hnat_ipv4_hnapt ''sport'' e) OR getf hnat_ipv4_hnapt ''dport'' e,
                getf hnat_ipv4_hnapt ''dip'' e,
                getf hnat_ipv4_hnapt ''sip'' e)
             else if t = IPV6_3T_ROUTE \<or> t = IPV6_5T_ROUTE \<or> t = IPV6_6RD then
               ((getf hnat_ipv6_5t_route ''ipv6_sip3'' e XOR getf hnat_ipv6_5t_route ''ipv6_dip3'' e)
                  XOR (push_bit 16 (getf hnat_ipv6_5t_route ''sport'' e) OR getf hnat_ipv6_5t_route ''dport'' e),
                (getf hnat_ipv6_5t_route ''ipv6_sip2'' e XOR getf hnat_ipv6_5t_route ''ipv6_dip2'' e)
                  XOR getf hnat_ipv6_5t_route ''ipv6_dip0'' e,
                (getf hnat_ipv6_5t_route ''ipv6_sip1'' e XOR getf hnat_ipv6_5t_route ''ipv6_dip1'' e)
                  XOR getf hnat_ipv6_5t_route ''ipv6_sip0'' e)
             else (0, 0, 0));
          hash = (hv1 AND hv2) OR (NOT hv1 AND hv3);
          hash = drop_bit 24 hash OR push_bit 8 (hash AND 0xffffff);
          hash = hash XOR (hv1 XOR hv2 XOR hv3);
          hash = hash XOR drop_bit 16 hash;
          hash = push_bit 2 hash
      in hash AND (etry_num - 1))"

text \<open>\<open>mac_id\<close> is what the kernel's device table says of a device name: the MAC its driver data
  names, or no such device.\<close>

definition mtk_hnat_calc_ppe_hash_index_by_tuple ::
    "(string \<Rightarrow> nat option) \<Rightarrow> mtk_hnat \<Rightarrow> hnat_tuple \<Rightarrow> int \<times> hnat_tuple" where
  "mtk_hnat_calc_ppe_hash_index_by_tuple mac_id h opt = (case mac_id (t_ing_dev opt) of
     None \<Rightarrow> (HNAT_FAIL, opt)
   | Some m \<Rightarrow>
     let opt = opt\<lparr>t_ppe_index := (if m = 2 \<and> ppe_num h \<ge> 3 then 2 else if m = 1 \<and> ppe_num h \<ge> 2 then 1 else 0)\<rparr>;
         e = setf hnat_bind_info_blk ''pkt_type'' (ucast (t_pkt_type opt)) zero_entry;
         finish = (\<lambda>e. (HNAT_SUCCESS, opt\<lparr>t_hash_index := ucast (hnat_get_ppe_hash (of_nat (foe_etry_num h)) e)\<rparr>))
     in if ucast (t_pkt_type opt) = IPV4_HNAPT then
          finish (setf hnat_ipv4_hnapt ''dport'' (ucast (t_ing_dp opt))
            (setf hnat_ipv4_hnapt ''sport'' (ucast (t_ing_sp opt))
              (setf hnat_ipv4_hnapt ''dip'' (t_ing_dipv4 opt) (setf hnat_ipv4_hnapt ''sip'' (t_ing_sipv4 opt) e))))
        else if ucast (t_pkt_type opt) = IPV6_5T_ROUTE then
          let s = t_ing_sipv6 opt; d = t_ing_dipv6 opt;
              e = setf hnat_ipv6_5t_route ''ipv6_sip3'' (s ! 3) (setf hnat_ipv6_5t_route ''ipv6_sip2'' (s ! 2)
                    (setf hnat_ipv6_5t_route ''ipv6_sip1'' (s ! 1) (setf hnat_ipv6_5t_route ''ipv6_sip0'' (s ! 0) e)));
              e = setf hnat_ipv6_5t_route ''ipv6_dip3'' (d ! 3) (setf hnat_ipv6_5t_route ''ipv6_dip2'' (d ! 2)
                    (setf hnat_ipv6_5t_route ''ipv6_dip1'' (d ! 1) (setf hnat_ipv6_5t_route ''ipv6_dip0'' (d ! 0) e)))
          in finish (setf hnat_ipv6_5t_route ''dport'' (ucast (t_ing_dp opt))
               (setf hnat_ipv6_5t_route ''sport'' (ucast (t_ing_sp opt)) e))
        else (HNAT_FAIL, opt))"

section \<open>Deleting and updating by index\<close>

definition mtk_hnat_delete_entry_by_index :: "device \<Rightarrow> u16 \<Rightarrow> u16 \<Rightarrow> mtk_hnat \<Rightarrow> (int \<times> mtk_hnat) option" where
  "mtk_hnat_delete_entry_by_index dev ppe hash h =
     (if unat ppe \<ge> ppe_num h \<or> unat hash \<ge> foe_etry_num h then Some (HNAT_FAIL, h)
      else do {
        h \<leftarrow> delete_at dev (unat ppe) (unat hash) h;
        Some (HNAT_SUCCESS, hnat_cache_clr dev (unat ppe) h) })"

definition hnat_update_entry_generic ::
    "device \<Rightarrow> u16 \<Rightarrow> u16 \<Rightarrow> (foe_entry \<Rightarrow> int \<times> foe_entry) \<Rightarrow> mtk_hnat \<Rightarrow> (int \<times> mtk_hnat) option" where
  "hnat_update_entry_generic dev ppe hash update_logic h =
     (if unat ppe \<ge> ppe_num h \<or> unat hash \<ge> foe_etry_num h then Some (HNAT_FAIL, h)
      else do {
        hw_entry \<leftarrow> foe_at h (unat ppe) (unat hash);
        if \<not> entry_hnat_is_bound hw_entry then Some (HNAT_ENTRY_NOT_FOUND, h)
        else
          let (ret, entry) = update_logic hw_entry;
              h = (if ret = HNAT_SUCCESS
                   then hnat_cache_clr dev (unat ppe) (foe_put (unat ppe) (unat hash) entry h)
                   else h)
          in Some (if ret = HNAT_ALREADY_SET then HNAT_SUCCESS else ret, h) })"

abbreviation (input) MTK_QDMA_TX_NUM :: u16 where "MTK_QDMA_TX_NUM \<equiv> 16"
abbreviation (input) NR_QDMA_TPORT :: u32 where "NR_QDMA_TPORT \<equiv> 1"
abbreviation (input) ETH_P_8021Q :: u32 where "ETH_P_8021Q \<equiv> 0x8100"

text \<open>The setters that write through \<open>ipv4_hnapt\<close> or \<open>ipv6_5t_route\<close>.\<close>

definition set_hqos_in :: "layout \<Rightarrow> u32 \<Rightarrow> u32 \<Rightarrow> foe_entry \<Rightarrow> int \<times> foe_entry" where
  "set_hqos_in L fqos qid e =
     (if getf L ''iblk2.fqos'' e = fqos \<and> getf L ''iblk2.qid'' e = qid then (HNAT_ALREADY_SET, e)
      else (HNAT_SUCCESS, setf L ''iblk2.qid'' qid (setf L ''iblk2.fqos'' fqos
              (setf L ''tport_id'' (if fqos \<noteq> 0 then NR_QDMA_TPORT else 0) e))))"

definition hnat_entry_set_hqos :: "u16 \<Rightarrow> u16 \<Rightarrow> foe_entry \<Rightarrow> int \<times> foe_entry" where
  "hnat_entry_set_hqos fqos qid e =
     (if qid \<ge> MTK_QDMA_TX_NUM then (HNAT_FAIL, e)
      else
        let fq = (if fqos \<noteq> 0 then 1 else 0); q = ucast (qid AND (MTK_QDMA_TX_NUM - 1))
        in if IS_IPV4_GRP e then set_hqos_in hnat_ipv4_hnapt fq q e
           else if IS_IPV6_GRP e then set_hqos_in hnat_ipv6_5t_route fq q e
           else (HNAT_FAIL, e))"

definition hnat_entry_set_dscp :: "int \<Rightarrow> foe_entry \<Rightarrow> int \<times> foe_entry" where
  "hnat_entry_set_dscp dscp e =
     (let d = (if dscp > 0 then of_int (dscp mod 256) else 0);
          put = (\<lambda>L. if getf L ''iblk2.dscp'' e = d then (HNAT_ALREADY_SET, e)
                     else (HNAT_SUCCESS, setf L ''iblk2.dscp'' d e))
      in if IS_IPV4_GRP e then put hnat_ipv4_hnapt
         else if IS_IPV6_GRP e then put hnat_ipv6_5t_route
         else (HNAT_FAIL, e))"

definition set_vlan_in :: "layout \<Rightarrow> u16 \<Rightarrow> u16 \<Rightarrow> foe_entry \<Rightarrow> int \<times> foe_entry" where
  "set_vlan_in L v1 v2 e =
     (let vlan_layer = (if v1 \<noteq> 0 then 1 else 0) + (if v2 \<noteq> 0 then 1 else 0 :: u32);
          old = getf hnat_bind_info_blk ''vlan_layer'' e
      in if old = vlan_layer \<and> getf L ''vlan1'' e = ucast v1 \<and> getf L ''vlan2'' e = ucast v2
         then (HNAT_ALREADY_SET, e)
         else
           let is_dsa = (old \<noteq> 0 \<and> getf L ''sp_tag'' e \<noteq> ETH_P_8021Q);
               e = setf hnat_bind_info_blk ''vlan_layer'' vlan_layer e;
               e = setf L ''vlan1'' (ucast v1) e;
               e = setf L ''vlan2'' (ucast v2) e
           in (HNAT_SUCCESS,
               if is_dsa then
                 if getf hnat_bind_info_blk ''vlan_layer'' e = 0
                 then setf L ''sp_tag'' (getf L ''sp_tag'' e AND NOT 0x100) (setf hnat_bind_info_blk ''vlan_layer'' 1 e)
                 else setf L ''sp_tag'' (getf L ''sp_tag'' e OR 0x100) e
               else if getf hnat_bind_info_blk ''vlan_layer'' e \<noteq> 0 then setf L ''sp_tag'' ETH_P_8021Q e
               else e))"

definition hnat_entry_set_vlan :: "u16 \<Rightarrow> u16 \<Rightarrow> foe_entry \<Rightarrow> int \<times> foe_entry" where
  "hnat_entry_set_vlan v1 v2 e =
     (if IS_IPV4_GRP e then set_vlan_in hnat_ipv4_hnapt v1 v2 e
      else if IS_IPV6_GRP e then set_vlan_in hnat_ipv6_5t_route v1 v2 e
      else (HNAT_FAIL, e))"

definition hnat_entry_set_pppoe :: "u16 \<Rightarrow> u16 \<Rightarrow> foe_entry \<Rightarrow> int \<times> foe_entry" where
  "hnat_entry_set_pppoe psn pppoe_id e =
     (let p = (if psn \<noteq> 0 then 1 else 0);
          put = (\<lambda>L. if getf hnat_bind_info_blk ''psn'' e = p \<and> getf L ''pppoe_id'' e = ucast pppoe_id
                     then (HNAT_ALREADY_SET, e)
                     else (HNAT_SUCCESS, setf hnat_bind_info_blk ''psn'' p (setf L ''pppoe_id'' (ucast pppoe_id) e)))
      in if IS_IPV4_GRP e then put hnat_ipv4_hnapt
         else if IS_IPV6_GRP e then put hnat_ipv6_5t_route
         else (HNAT_FAIL, e))"

text \<open>The setters of the Wi-Fi information write through three structures.\<close>

definition set_pao :: "string \<Rightarrow> u32 \<Rightarrow> foe_entry \<Rightarrow> int \<times> foe_entry" where
  "set_pao f v e =
     (let put = (\<lambda>L. if getf L f e = v then (HNAT_ALREADY_SET, e) else (HNAT_SUCCESS, setf L f v e))
      in if IS_IPV4_GRP e then put hnat_ipv4_hnapt
         else if pkt_type e = IPV6_HNAPT \<or> pkt_type e = IPV6_HNAT then put hnat_ipv6_hnapt
         else if IS_IPV6_GRP e then put hnat_ipv4_mape
         else (HNAT_FAIL, e))"

definition hnat_entry_set_is_prior :: "u16 \<Rightarrow> foe_entry \<Rightarrow> int \<times> foe_entry" where
  "hnat_entry_set_is_prior is_prior e = set_pao ''winfo_pao.is_prior'' (ucast (is_prior AND 0x1)) e"

definition hnat_entry_set_tid :: "u16 \<Rightarrow> foe_entry \<Rightarrow> int \<times> foe_entry" where
  "hnat_entry_set_tid tid e = set_pao ''winfo_pao.tid'' (ucast (tid AND 0xf)) e"

definition mtk_hnat_update_hqos_by_index ::
    "device \<Rightarrow> u16 \<Rightarrow> u16 \<Rightarrow> u16 \<Rightarrow> u16 \<Rightarrow> mtk_hnat \<Rightarrow> (int \<times> mtk_hnat) option" where
  "mtk_hnat_update_hqos_by_index dev ppe hash fqos qid h =
     hnat_update_entry_generic dev ppe hash (hnat_entry_set_hqos fqos qid) h"

definition mtk_hnat_update_dscp_by_index ::
    "device \<Rightarrow> u16 \<Rightarrow> u16 \<Rightarrow> int \<Rightarrow> mtk_hnat \<Rightarrow> (int \<times> mtk_hnat) option" where
  "mtk_hnat_update_dscp_by_index dev ppe hash dscp h =
     hnat_update_entry_generic dev ppe hash (hnat_entry_set_dscp dscp) h"

definition mtk_hnat_update_vlan_by_index ::
    "device \<Rightarrow> u16 \<Rightarrow> u16 \<Rightarrow> u16 \<Rightarrow> u16 \<Rightarrow> mtk_hnat \<Rightarrow> (int \<times> mtk_hnat) option" where
  "mtk_hnat_update_vlan_by_index dev ppe hash vlan1 vlan2 h =
     hnat_update_entry_generic dev ppe hash (hnat_entry_set_vlan vlan1 vlan2) h"

definition mtk_hnat_update_pppoe_by_index ::
    "device \<Rightarrow> u16 \<Rightarrow> u16 \<Rightarrow> u16 \<Rightarrow> u16 \<Rightarrow> mtk_hnat \<Rightarrow> (int \<times> mtk_hnat) option" where
  "mtk_hnat_update_pppoe_by_index dev ppe hash psn pppoe_id h =
     hnat_update_entry_generic dev ppe hash (hnat_entry_set_pppoe psn pppoe_id) h"

definition mtk_hnat_update_is_prior_by_index ::
    "device \<Rightarrow> u16 \<Rightarrow> u16 \<Rightarrow> u16 \<Rightarrow> mtk_hnat \<Rightarrow> (int \<times> mtk_hnat) option" where
  "mtk_hnat_update_is_prior_by_index dev ppe hash is_prior h =
     hnat_update_entry_generic dev ppe hash (hnat_entry_set_is_prior is_prior) h"

definition mtk_hnat_update_tid_by_index ::
    "device \<Rightarrow> u16 \<Rightarrow> u16 \<Rightarrow> u16 \<Rightarrow> mtk_hnat \<Rightarrow> (int \<times> mtk_hnat) option" where
  "mtk_hnat_update_tid_by_index dev ppe hash tid h =
     hnat_update_entry_generic dev ppe hash (hnat_entry_set_tid tid) h"

abbreviation (input) FIN_AGE :: u32 where "FIN_AGE \<equiv> 0x800"

definition mtk_hnat_get_fin_age_config :: "device \<Rightarrow> u16 \<Rightarrow> mtk_hnat \<Rightarrow> int \<times> mtk_hnat" where
  "mtk_hnat_get_fin_age_config dev ppe h =
     (if unat ppe \<ge> ppe_num h then (- EINVAL, h)
      else let (v, h) = readl dev (Ppe (unat ppe) PPE_TB_CFG) h in (if v AND FIN_AGE \<noteq> 0 then 1 else 0, h))"

definition mtk_hnat_set_fin_age_config :: "device \<Rightarrow> u16 \<Rightarrow> bool \<Rightarrow> mtk_hnat \<Rightarrow> int \<times> mtk_hnat" where
  "mtk_hnat_set_fin_age_config dev ppe enable h =
     (if unat ppe \<ge> ppe_num h then (HNAT_FAIL, h)
      else (HNAT_SUCCESS, cr_set_field dev (Ppe (unat ppe) PPE_TB_CFG) FIN_AGE (if enable then 1 else 0) h))"

section \<open>What the template relies on\<close>

text \<open>The words of an entry that the engine compares with a packet.\<close>

definition key_words :: "foe_entry \<Rightarrow> nat set" where
  "key_words e = (if IS_IPV4_GRP e then {1..3} else {1..9})"

locale entry_update =
  fixes upd :: "foe_entry \<Rightarrow> int \<times> foe_entry"
  assumes status: "fst (upd e) \<in> {HNAT_FAIL, HNAT_SUCCESS, HNAT_ALREADY_SET}"
    and state_kept: "fst (upd e) = HNAT_SUCCESS \<Longrightarrow> foe_state (snd (upd e)) = foe_state e"
    and type_kept: "fst (upd e) = HNAT_SUCCESS \<Longrightarrow> pkt_type (snd (upd e)) = pkt_type e"
    and key_kept: "fst (upd e) = HNAT_SUCCESS \<Longrightarrow> k \<in> key_words e \<Longrightarrow> snd (upd e) k = e k"
    and no_bridge: "pkt_type e = L2_BRIDGE \<Longrightarrow> fst (upd e) = HNAT_FAIL"
begin

lemma hash_kept:
  assumes "fst (upd e) = HNAT_SUCCESS"
  shows "hnat_get_ppe_hash n (snd (upd e)) = hnat_get_ppe_hash n e"
proof -
  have key: "getf L f (snd (upd e)) = getf L f e"
    if "fst (field_pos 0 L f) div 32 \<in> key_words e" for L f
    using that key_kept [OF assms] by (intro getf_cong)
  have "pkt_type e \<noteq> L2_BRIDGE" using assms no_bridge by force
  then show ?thesis
    unfolding hnat_get_ppe_hash_def Let_def type_kept [OF assms]
    by (cases "IS_IPV4_GRP e") (simp_all add: key key_words_def IS_IPV4_GRP_def foe_fields)
qed

lemma contract:
  assumes "unat ppe < length (foe_table_cpu h)" "unat hash < length (foe_table_cpu h ! unat ppe)"
  shows "wp (hnat_update_entry_generic dev ppe hash upd h) (\<lambda>(ret, h').
     ret \<in> {HNAT_SUCCESS, HNAT_FAIL, HNAT_ENTRY_NOT_FOUND}
     \<and> same_but_tables (cache_regs (unat ppe)) h h'
     \<and> (\<forall>q j. foe_at h' q j = (if q = unat ppe \<and> j = unat hash \<and> ret = HNAT_SUCCESS
            then map_option (\<lambda>e. if fst (upd e) = HNAT_SUCCESS then snd (upd e) else e) (foe_at h q j)
            else foe_at h q j)))"
proof -
  let ?p = "unat ppe" and ?i = "unat hash"
  let ?e = "foe_table_cpu h ! ?p ! ?i"
  have at: "foe_at h ?p ?i = Some ?e" using assms by (simp add: foe_at_def)
  consider (range) "?p \<ge> ppe_num h \<or> ?i \<ge> foe_etry_num h"
    | (unbound) "\<not> (?p \<ge> ppe_num h \<or> ?i \<ge> foe_etry_num h)" "\<not> entry_hnat_is_bound ?e"
    | (upd) "\<not> (?p \<ge> ppe_num h \<or> ?i \<ge> foe_etry_num h)" "entry_hnat_is_bound ?e" by blast
  then show ?thesis
  proof cases
    case upd
    show ?thesis
    proof (cases "fst (upd ?e) = HNAT_SUCCESS")
      case True
      let ?h1 = "foe_put ?p ?i (snd (upd ?e)) h"
      have h1: "same_but_tables (cache_regs ?p) h ?h1"
        using assms(1) by (simp add: same_but_tables_def foe_put_def map_update list_update_same_conv)
      have h2: "same_but_tables (cache_regs ?p) h (hnat_cache_clr dev ?p ?h1)"
        using same_but_tables_trans [OF h1] same_but_tables_cache_clr [of ?p ?h1 dev] by blast
      have "foe_at (hnat_cache_clr dev ?p ?h1) q j = foe_at ?h1 q j" for q j
        using same_but_tables_cache_clr [of ?p ?h1 dev] by (simp add: foe_at_def)
      moreover have "foe_at ?h1 q j = (if q = ?p \<and> j = ?i then Some (snd (upd ?e)) else foe_at h q j)" for q j
        using assms by (auto simp: foe_at_def foe_put_def nth_list_update)
      ultimately show ?thesis
        using upd True h2 at
        by (simp add: hnat_update_entry_generic_def case_prod_unfold Let_def)
    next
      case False
      then show ?thesis
        using upd at status [of ?e]
        by (auto simp: hnat_update_entry_generic_def case_prod_unfold Let_def)
    qed
  qed (use at in \<open>simp_all add: hnat_update_entry_generic_def\<close>)
qed

end

lemmas update_defs = hnat_entry_set_hqos_def set_hqos_in_def hnat_entry_set_dscp_def
  hnat_entry_set_vlan_def set_vlan_in_def hnat_entry_set_pppoe_def hnat_entry_set_is_prior_def
  hnat_entry_set_tid_def set_pao_def Let_def

interpretation hqos: entry_update "hnat_entry_set_hqos fqos qid" for fqos qid
  by unfold_locales
    (auto simp: update_defs foe_fields setf_word key_words_def IS_IPV4_GRP_def IS_IPV6_GRP_def)

interpretation dscp: entry_update "hnat_entry_set_dscp d" for d
  by unfold_locales
    (auto simp: update_defs foe_fields setf_word key_words_def IS_IPV4_GRP_def IS_IPV6_GRP_def)

text \<open>The VLAN setter writes four fields, whichever branch it takes.\<close>

lemma set_vlan_in_induct:
  assumes "P e" "\<And>x v. P x \<Longrightarrow> P (setf hnat_bind_info_blk ''vlan_layer'' v x)"
    "\<And>x v. P x \<Longrightarrow> P (setf L ''vlan1'' v x)" "\<And>x v. P x \<Longrightarrow> P (setf L ''vlan2'' v x)"
    "\<And>x v. P x \<Longrightarrow> P (setf L ''sp_tag'' v x)"
  shows "P (snd (set_vlan_in L v1 v2 e))"
  by (simp add: set_vlan_in_def Let_def assms)

lemma set_vlan_induct:
  assumes "P e" "\<And>x v. P x \<Longrightarrow> P (setf hnat_bind_info_blk ''vlan_layer'' v x)"
    "\<And>x v L f. L = (if IS_IPV4_GRP e then hnat_ipv4_hnapt else hnat_ipv6_5t_route) \<Longrightarrow>
       f \<in> {''vlan1'', ''vlan2'', ''sp_tag''} \<Longrightarrow> P x \<Longrightarrow> P (setf L f v x)"
  shows "P (snd (hnat_entry_set_vlan v1 v2 e))"
proof -
  have "P (snd (set_vlan_in (if IS_IPV4_GRP e then hnat_ipv4_hnapt else hnat_ipv6_5t_route) v1 v2 e))"
  proof (rule set_vlan_in_induct [where P = P])
    show "P e" by (rule assms(1))
    show "P (setf hnat_bind_info_blk ''vlan_layer'' v x)" if "P x" for x v using that by (rule assms(2))
  qed (rule assms(3) [OF refl]; simp)+
  with assms(1) show ?thesis
    by (cases "IS_IPV4_GRP e"; cases "IS_IPV6_GRP e"; simp add: hnat_entry_set_vlan_def)
qed

interpretation vlan: entry_update "hnat_entry_set_vlan v1 v2" for v1 v2
proof
  fix e
  show "fst (hnat_entry_set_vlan v1 v2 e) \<in> {HNAT_FAIL, HNAT_SUCCESS, HNAT_ALREADY_SET}"
    by (simp add: hnat_entry_set_vlan_def set_vlan_in_def Let_def)
  show "foe_state (snd (hnat_entry_set_vlan v1 v2 e)) = foe_state e"
    by (rule set_vlan_induct [where P = "\<lambda>x. foe_state x = foe_state e"]) (auto simp: foe_fields)
  show "pkt_type (snd (hnat_entry_set_vlan v1 v2 e)) = pkt_type e"
    by (rule set_vlan_induct [where P = "\<lambda>x. pkt_type x = pkt_type e"]) (auto simp: foe_fields)
  show "snd (hnat_entry_set_vlan v1 v2 e) k = e k" if "k \<in> key_words e" for k
    by (rule set_vlan_induct [where P = "\<lambda>x. x k = e k"])
      (use that in \<open>auto simp: foe_fields setf_word key_words_def split: if_splits\<close>)
  show "fst (hnat_entry_set_vlan v1 v2 e) = HNAT_FAIL" if "pkt_type e = L2_BRIDGE"
    using that by (simp add: hnat_entry_set_vlan_def IS_IPV4_GRP_def IS_IPV6_GRP_def)
qed

interpretation pppoe: entry_update "hnat_entry_set_pppoe psn pid" for psn pid
  by unfold_locales
    (auto simp: update_defs foe_fields setf_word key_words_def IS_IPV4_GRP_def IS_IPV6_GRP_def)

interpretation is_prior: entry_update "hnat_entry_set_is_prior v" for v
  by unfold_locales
    (auto simp: update_defs foe_fields setf_word key_words_def IS_IPV4_GRP_def IS_IPV6_GRP_def)

interpretation tid: entry_update "hnat_entry_set_tid v" for v
  by unfold_locales
    (auto simp: update_defs foe_fields setf_word key_words_def IS_IPV4_GRP_def IS_IPV6_GRP_def)

section \<open>Sequences of updates\<close>

datatype api_call =
    Hqos u16 u16
  | Dscp int
  | Vlan u16 u16
  | Pppoe u16 u16
  | Is_Prior u16
  | Tid u16

fun api_update :: "device \<Rightarrow> u16 \<Rightarrow> u16 \<Rightarrow> api_call \<Rightarrow> mtk_hnat \<Rightarrow> (int \<times> mtk_hnat) option" where
  "api_update dev ppe hash (Hqos fqos qid) h = mtk_hnat_update_hqos_by_index dev ppe hash fqos qid h" |
  "api_update dev ppe hash (Dscp d) h = mtk_hnat_update_dscp_by_index dev ppe hash d h" |
  "api_update dev ppe hash (Vlan v1 v2) h = mtk_hnat_update_vlan_by_index dev ppe hash v1 v2 h" |
  "api_update dev ppe hash (Pppoe psn pid) h = mtk_hnat_update_pppoe_by_index dev ppe hash psn pid h" |
  "api_update dev ppe hash (Is_Prior v) h = mtk_hnat_update_is_prior_by_index dev ppe hash v h" |
  "api_update dev ppe hash (Tid v) h = mtk_hnat_update_tid_by_index dev ppe hash v h"

fun call_upd :: "api_call \<Rightarrow> foe_entry \<Rightarrow> int \<times> foe_entry" where
  "call_upd (Hqos fqos qid) e = hnat_entry_set_hqos fqos qid e" |
  "call_upd (Dscp d) e = hnat_entry_set_dscp d e" |
  "call_upd (Vlan v1 v2) e = hnat_entry_set_vlan v1 v2 e" |
  "call_upd (Pppoe psn pid) e = hnat_entry_set_pppoe psn pid e" |
  "call_upd (Is_Prior v) e = hnat_entry_set_is_prior v e" |
  "call_upd (Tid v) e = hnat_entry_set_tid v e"

lemma call_upd_eq:
  "call_upd (Hqos a b) = hnat_entry_set_hqos a b" "call_upd (Dscp d) = hnat_entry_set_dscp d"
  "call_upd (Vlan a b) = hnat_entry_set_vlan a b" "call_upd (Pppoe a b) = hnat_entry_set_pppoe a b"
  "call_upd (Is_Prior a) = hnat_entry_set_is_prior a" "call_upd (Tid a) = hnat_entry_set_tid a"
  by (rule ext, simp)+

lemma api_update_generic: "api_update dev ppe hash c h = hnat_update_entry_generic dev ppe hash (call_upd c) h"
  by (cases c)
    (simp_all only: api_update.simps mtk_hnat_update_hqos_by_index_def mtk_hnat_update_dscp_by_index_def
      mtk_hnat_update_vlan_by_index_def mtk_hnat_update_pppoe_by_index_def
      mtk_hnat_update_is_prior_by_index_def mtk_hnat_update_tid_by_index_def call_upd_eq)

interpretation call: entry_update "call_upd c" for c
  by (cases c)
    (simp_all only: call_upd_eq hqos.entry_update_axioms dscp.entry_update_axioms vlan.entry_update_axioms
      pppoe.entry_update_axioms is_prior.entry_update_axioms tid.entry_update_axioms)

fun api_updates :: "device \<Rightarrow> (u16 \<times> u16 \<times> api_call) list \<Rightarrow> mtk_hnat \<Rightarrow> mtk_hnat option" where
  "api_updates dev [] h = Some h" |
  "api_updates dev ((ppe, hash, c) # cs) h = do { (r, h) \<leftarrow> api_update dev ppe hash c h; api_updates dev cs h }"

text \<open>Every table has as many entries as the driver says.\<close>

definition sized_tables :: "mtk_hnat \<Rightarrow> bool" where
  "sized_tables h \<longleftrightarrow> ppe_num h \<le> length (foe_table_cpu h)
     \<and> (\<forall>p < ppe_num h. length (foe_table_cpu h ! p) = foe_etry_num h)"

lemma sized_tables_kept: "sized_tables h \<Longrightarrow> same_but_tables R h h' \<Longrightarrow> sized_tables h'"
  by (auto simp: sized_tables_def same_but_tables_fields same_but_tables_length)

text \<open>The entry serves the same flow: same state, same packet type, same place.\<close>

definition same_flow :: "foe_entry \<Rightarrow> foe_entry \<Rightarrow> bool" where
  "same_flow e e' \<longleftrightarrow> foe_state e' = foe_state e \<and> pkt_type e' = pkt_type e
     \<and> (\<forall>n. hnat_get_ppe_hash n e' = hnat_get_ppe_hash n e)"

definition flows_kept :: "mtk_hnat \<Rightarrow> mtk_hnat \<Rightarrow> bool" where
  "flows_kept h h' \<longleftrightarrow> (\<forall>q j. rel_option same_flow (foe_at h q j) (foe_at h' q j))"

lemma same_flow_refl [simp]: "same_flow e e"
  by (simp add: same_flow_def)

lemma flows_kept_refl [simp]: "flows_kept h h"
  by (simp add: flows_kept_def option.rel_refl)

lemma flows_kept_trans: "flows_kept a b \<Longrightarrow> flows_kept b c \<Longrightarrow> flows_kept a c"
  unfolding flows_kept_def
proof (intro allI)
  fix q j
  assume "\<forall>q j. rel_option same_flow (foe_at a q j) (foe_at b q j)"
    "\<forall>q j. rel_option same_flow (foe_at b q j) (foe_at c q j)"
  then have "rel_option same_flow (foe_at a q j) (foe_at b q j)" "rel_option same_flow (foe_at b q j) (foe_at c q j)"
    by blast+
  then show "rel_option same_flow (foe_at a q j) (foe_at c q j)"
    by (cases "foe_at a q j"; cases "foe_at b q j"; cases "foe_at c q j") (auto simp: same_flow_def)
qed

context entry_update begin

lemma generic_keeps_flows:
  assumes "sized_tables h"
  shows "wp (hnat_update_entry_generic dev ppe hash upd h)
    (\<lambda>(ret, h'). ret \<in> {HNAT_SUCCESS, HNAT_FAIL, HNAT_ENTRY_NOT_FOUND} \<and> sized_tables h' \<and> flows_kept h h')"
proof (cases "unat ppe \<ge> ppe_num h \<or> unat hash \<ge> foe_etry_num h")
  case True
  with assms show ?thesis by (simp add: hnat_update_entry_generic_def)
next
  case False
  then have "unat ppe < length (foe_table_cpu h)" "unat hash < length (foe_table_cpu h ! unat ppe)"
    using assms by (auto simp: sized_tables_def)
  from contract [OF this, of dev] show ?thesis
  proof (rule wp_pair, elim conjE, intro conjI)
    fix ret h'
    assume at: "\<forall>q j. foe_at h' q j = (if q = unat ppe \<and> j = unat hash \<and> ret = HNAT_SUCCESS
            then map_option (\<lambda>e. if fst (upd e) = HNAT_SUCCESS then snd (upd e) else e) (foe_at h q j)
            else foe_at h q j)"
      and "same_but_tables (cache_regs (unat ppe)) h h'"
    then show "sized_tables h'" using sized_tables_kept [OF assms] by blast
    have flow: "same_flow e (snd (upd e))" if "fst (upd e) = HNAT_SUCCESS" for e
      using that by (simp add: same_flow_def state_kept type_kept hash_kept)
    show "flows_kept h h'"
      unfolding flows_kept_def at [rule_format]
      by (auto simp: option.rel_map flow intro!: option.rel_refl)
  qed
qed

end

lemma api_update_keeps_flows:
  "sized_tables h \<Longrightarrow> wp (api_update dev ppe hash c h) (\<lambda>(ret, h').
     ret \<in> {HNAT_SUCCESS, HNAT_FAIL, HNAT_ENTRY_NOT_FOUND} \<and> sized_tables h' \<and> flows_kept h h')"
  unfolding api_update_generic by (rule call.generic_keeps_flows)

lemma api_updates_keep_flows:
  "sized_tables h \<Longrightarrow> wp (api_updates dev cs h) (\<lambda>h'. sized_tables h' \<and> flows_kept h h')"
proof (induction cs arbitrary: h)
  case (Cons c cs)
  obtain ppe hash a where c: "c = (ppe, hash, a)" by (metis prod_cases3)
  have "wp (api_update dev ppe hash a h) (\<lambda>(r, h1). wp (api_updates dev cs h1) (\<lambda>h'. sized_tables h' \<and> flows_kept h h'))"
    by (rule wp_pair [OF api_update_keeps_flows [OF Cons.prems]])
      (auto intro: wp_mono [OF Cons.IH] flows_kept_trans)
  then show ?case by (simp add: c)
qed simp

section \<open>What an update is read back as\<close>

definition tuple_layout :: "foe_entry \<Rightarrow> layout" where
  "tuple_layout e = (if pkt_type e = IPV4_HNAPT then hnat_ipv4_hnapt else hnat_ipv6_5t_route)"

text \<open>What a tuple \<open>t\<close> says after a call, from the tuple \<open>old\<close> before it. Tuples have these fields for
  \<open>IPV4_HNAPT\<close> and \<open>IPV6_5T_ROUTE\<close> entries. A queue number that does not exist is refused. The rate
  limiting of a tuple is whether the port is the one of the queues, but the setter leaves an entry
  alone whose own mark \<open>iblk2.fqos\<close> and queue are as requested, whatever its port. A priority or
  traffic class is written where an IPv6 route does not have it.\<close>

fun refused_call :: "api_call \<Rightarrow> bool" where
  "refused_call (Hqos fqos qid) \<longleftrightarrow> MTK_QDMA_TX_NUM \<le> qid" |
  "refused_call _ \<longleftrightarrow> False"

fun reads_back :: "api_call \<Rightarrow> foe_entry \<Rightarrow> hnat_tuple \<Rightarrow> hnat_tuple \<Rightarrow> bool" where
  "reads_back (Hqos fqos qid) e old t = (t_qid t = qid \<and> t_fqos t =
     (if getf (tuple_layout e) ''iblk2.fqos'' e = (if fqos \<noteq> 0 then 1 else 0) \<and> t_qid old = qid
      then t_fqos old else if fqos \<noteq> 0 then 1 else 0))" |
  "reads_back (Dscp d) e old t = (t_dscp t = (if d > 0 then of_int (d mod 256) else 0))" |
  "reads_back (Vlan v1 v2) e old t = (t_vlan1 t = v1 \<and> t_vlan2 t = v2)" |
  "reads_back (Pppoe psn pid) e old t = (t_psn t = (if psn \<noteq> 0 then 1 else 0) \<and> t_pppoe_id t = pid)" |
  "reads_back (Is_Prior v) e old t =
     (t_is_prior t = (if pkt_type e = IPV4_HNAPT then v AND 1 else t_is_prior old))" |
  "reads_back (Tid v) e old t = (t_tid t = (if pkt_type e = IPV4_HNAPT then v AND 0xf else t_tid old))"

lemma tuple_fields:
  fixes opt :: hnat_tuple
  assumes "pkt_type e \<in> {IPV4_HNAPT, IPV6_5T_ROUTE}"
  defines "t \<equiv> mtk_hnat_foe_to_hnat_tuple e opt"
  shows "t_fqos t = (if getf (tuple_layout e) ''tport_id'' e = 1 then 1 else 0)"
    "t_qid t = ucast (getf (tuple_layout e) ''iblk2.qid'' e)"
    "t_dscp t = ucast (getf (tuple_layout e) ''iblk2.dscp'' e)"
    "t_vlan1 t = ucast (getf (tuple_layout e) ''vlan1'' e)"
    "t_vlan2 t = ucast (getf (tuple_layout e) ''vlan2'' e)"
    "t_psn t = ucast (getf hnat_bind_info_blk ''psn'' e)"
    "t_pppoe_id t = ucast (getf (tuple_layout e) ''pppoe_id'' e)"
    "t_is_prior t = ucast (getf (tuple_layout e) ''winfo_pao.is_prior'' e)"
    "t_tid t = ucast (getf (tuple_layout e) ''winfo_pao.tid'' e)"
  using assms(1)
  by (auto simp: t_def mtk_hnat_foe_to_hnat_tuple_def mtk_hnat_foe_to_tuple_info_blk_def
      mtk_hnat_foe_to_tuple_l2_def mtk_hnat_foe_to_tuple_l3_def mtk_hnat_foe_to_tuple_l4_def
      tuple_info2_def tuple_layout_def Let_def IS_IPV4_GRP_def)

lemma small_u16:
  assumes "v < MTK_QDMA_TX_NUM"
  shows "(v :: u16) AND 15 = v" "ucast (take_bit 7 (ucast v :: u32)) = v"
proof -
  have m: "(mask 4 :: u16) = 15" by (simp add: mask_eq_exp_minus_1)
  have v: "v AND mask 4 = v" using assms by (intro less_mask_eq) simp
  then show "v AND 15 = v" by (simp add: m)
  show "ucast (take_bit 7 (ucast v :: u32)) = v"
  proof (rule bit_word_eqI)
    fix i assume i: "i < LENGTH(16)"
    have "bit v i \<Longrightarrow> i < 4" using v by (metis bit_and_iff bit_mask_iff)
    with i show "bit (ucast (take_bit 7 (ucast v :: u32)) :: u16) i = bit v i" by (auto simp: bit_simps)
  qed
qed

lemma take_bits_u16:
  "take_bit 4 (ucast (v AND 0xf) :: u32) = ucast ((v :: u16) AND 0xf)"
  "take_bit 1 (ucast (v AND 1) :: u32) = ucast ((v :: u16) AND 1)"
proof -
  have m: "(0xf :: u16) = mask 4" by (simp add: mask_eq_exp_minus_1)
  show "take_bit 4 (ucast (v AND 0xf) :: u32) = ucast (v AND 0xf)"
    unfolding m by (rule bit_word_eqI) (auto simp: bit_simps)
  have "v AND 1 = of_bool (odd v)" by (simp add: and_one_eq mod_2_eq_odd)
  then show "take_bit 1 (ucast (v AND 1) :: u32) = ucast (v AND 1)" by (cases "odd v") simp_all
qed

text \<open>What an entry is after a call that was not refused.\<close>

definition after_call :: "api_call \<Rightarrow> foe_entry \<Rightarrow> foe_entry" where
  "after_call c e = (if fst (call_upd c e) = HNAT_SUCCESS then snd (call_upd c e) else e)"

abbreviation (input) tuple_after :: "api_call \<Rightarrow> foe_entry \<Rightarrow> hnat_tuple \<Rightarrow> hnat_tuple" where
  "tuple_after c e opt \<equiv> mtk_hnat_foe_to_hnat_tuple (after_call c e) opt"

lemma qid_eq:
  assumes "qid < MTK_QDMA_TX_NUM"
  shows "(get_bits (b, 7) e = ucast (qid :: u16)) = (ucast (get_bits (b, 7) e) = qid)"
proof
  assume "get_bits (b, 7) e = ucast qid"
  then show "ucast (get_bits (b, 7) e) = qid" by simp
next
  assume q: "ucast (get_bits (b, 7) e) = qid"
  show "get_bits (b, 7) e = ucast qid"
    unfolding q [symmetric] by (rule bit_word_eqI) (auto simp: get_bits_def bit_simps)
qed

lemma hqos_read_back:
  assumes "pkt_type e \<in> {IPV4_HNAPT, IPV6_5T_ROUTE}" and q: "qid < MTK_QDMA_TX_NUM"
  shows "reads_back (Hqos fqos qid) e (mtk_hnat_foe_to_hnat_tuple e opt) (tuple_after (Hqos fqos qid) e opt)"
proof -
  let ?e' = "after_call (Hqos fqos qid) e" and ?L = "tuple_layout e"
  have t: "pkt_type ?e' = pkt_type e"
    using hqos.type_kept [of fqos qid e] by (simp add: after_call_def)
  then have L: "tuple_layout ?e' = ?L" by (simp add: tuple_layout_def)
  define same where "same = (getf ?L ''iblk2.fqos'' e = (if fqos \<noteq> 0 then 1 else 0) \<and> getf ?L ''iblk2.qid'' e = ucast qid)"
  have call: "hnat_entry_set_hqos fqos qid e = set_hqos_in ?L (if fqos \<noteq> 0 then 1 else 0) (ucast qid) e"
    using assms by (auto simp: hnat_entry_set_hqos_def Let_def tuple_layout_def IS_IPV4_GRP_def IS_IPV6_GRP_def small_u16(1) not_le)
  have e': "?e' = (if same then e else setf ?L ''iblk2.qid'' (ucast qid) (setf ?L ''iblk2.fqos'' (if fqos \<noteq> 0 then 1 else 0)
      (setf ?L ''tport_id'' (if fqos \<noteq> 0 then 1 else 0) e)))"
    by (simp add: after_call_def call set_hqos_in_def same_def)
  have "same = (getf ?L ''iblk2.fqos'' e = (if fqos \<noteq> 0 then 1 else 0) \<and> (ucast (getf ?L ''iblk2.qid'' e) :: u16) = qid)"
    using assms(1) qid_eq [OF q] by (auto simp: same_def tuple_layout_def getf_def foe_fields)
  moreover have "(ucast (getf ?L ''iblk2.qid'' ?e') :: u16) = qid"
    using assms(1) small_u16(2) [OF q] by (auto simp: e' same_def tuple_layout_def foe_fields)
  moreover have "getf ?L ''tport_id'' ?e' = (if same then getf ?L ''tport_id'' e else if fqos \<noteq> 0 then 1 else 0)"
    using assms(1) by (auto simp: e' tuple_layout_def foe_fields)
  ultimately show ?thesis using assms(1) by (simp add: tuple_fields t L)
qed

lemma tuple_layout_kept: "pkt_type e' = pkt_type e \<Longrightarrow> tuple_layout e' = tuple_layout e"
  by (simp add: tuple_layout_def)

lemma after_call_type [simp]: "pkt_type (after_call c e) = pkt_type e"
  using call.type_kept by (simp add: after_call_def)

lemma after_call_layout [simp]: "tuple_layout (after_call c e) = tuple_layout e"
  by (rule tuple_layout_kept) simp

lemmas read_back_defs = after_call_def tuple_layout_def IS_IPV4_GRP_def IS_IPV6_GRP_def update_defs foe_fields

lemma ucast_byte: "ucast (take_bit 8 (of_int (d mod 256)) :: u32) = (of_int (d mod 256) :: u16)"
  "take_bit 8 (of_int (d mod 256) :: u32) = of_int (d mod 256)"
proof -
  have d: "d mod 256 = take_bit 8 d" by (simp add: take_bit_eq_mod)
  show "ucast (take_bit 8 (of_int (d mod 256)) :: u32) = (of_int (d mod 256) :: u16)"
    unfolding d by (rule bit_word_eqI) (auto simp: bit_simps bit_word_of_int_iff)
  show "take_bit 8 (of_int (d mod 256) :: u32) = of_int (d mod 256)"
    unfolding d by (rule bit_word_eqI) (auto simp: bit_simps bit_word_of_int_iff)
qed

lemma dscp_read_back:
  assumes "pkt_type e \<in> {IPV4_HNAPT, IPV6_5T_ROUTE}"
  shows "reads_back (Dscp d) e old (tuple_after (Dscp d) e opt)"
proof -
  have "getf (tuple_layout e) ''iblk2.dscp'' (after_call (Dscp d) e) = (if d > 0 then of_int (d mod 256) else 0)"
    using assms ucast_byte(2) [of d] by (auto simp: read_back_defs split: if_splits)
  then show ?thesis using assms ucast_byte [of d] by (auto simp: tuple_fields)
qed

lemma pppoe_read_back:
  assumes "pkt_type e \<in> {IPV4_HNAPT, IPV6_5T_ROUTE}"
  shows "reads_back (Pppoe psn pid) e old (tuple_after (Pppoe psn pid) e opt)"
proof -
  have "getf hnat_bind_info_blk ''psn'' (after_call (Pppoe psn pid) e) = (if psn \<noteq> 0 then 1 else 0)
      \<and> getf (tuple_layout e) ''pppoe_id'' (after_call (Pppoe psn pid) e) = ucast pid"
    using assms by (auto simp: read_back_defs split: if_splits)
  then show ?thesis using assms by (auto simp: tuple_fields)
qed

lemma set_vlan_in_cases:
  obtains (same) "getf L ''vlan1'' e = ucast v1" "getf L ''vlan2'' e = ucast v2" "set_vlan_in L v1 v2 e = (HNAT_ALREADY_SET, e)"
  | (set) b x where "b = setf L ''vlan2'' (ucast v2) (setf L ''vlan1'' (ucast v1) (setf hnat_bind_info_blk ''vlan_layer'' x e))"
      and "set_vlan_in L v1 v2 e = (HNAT_SUCCESS, b)
        \<or> (\<exists>t. set_vlan_in L v1 v2 e = (HNAT_SUCCESS, setf L ''sp_tag'' t b))
        \<or> (\<exists>t. set_vlan_in L v1 v2 e = (HNAT_SUCCESS, setf L ''sp_tag'' t (setf hnat_bind_info_blk ''vlan_layer'' 1 b)))"
proof -
  define x :: u32 where "x = (if v1 \<noteq> 0 then 1 else 0) + (if v2 \<noteq> 0 then 1 else 0)"
  define b where "b = setf L ''vlan2'' (ucast v2) (setf L ''vlan1'' (ucast v1) (setf hnat_bind_info_blk ''vlan_layer'' x e))"
  define dsa where "dsa = (getf hnat_bind_info_blk ''vlan_layer'' e \<noteq> 0 \<and> getf L ''sp_tag'' e \<noteq> ETH_P_8021Q)"
  define z where "z = (getf hnat_bind_info_blk ''vlan_layer'' b = 0)"
  show thesis
  proof (cases "getf hnat_bind_info_blk ''vlan_layer'' e = x \<and> getf L ''vlan1'' e = ucast v1 \<and> getf L ''vlan2'' e = ucast v2")
    case True
    then show thesis by (intro same) (simp_all add: set_vlan_in_def Let_def x_def)
  next
    case False
    have "set_vlan_in L v1 v2 e = (HNAT_SUCCESS,
        if dsa then
          if z then setf L ''sp_tag'' (getf L ''sp_tag'' b AND NOT 0x100) (setf hnat_bind_info_blk ''vlan_layer'' 1 b)
          else setf L ''sp_tag'' (getf L ''sp_tag'' b OR 0x100) b
        else if \<not> z then setf L ''sp_tag'' ETH_P_8021Q b else b)"
      unfolding set_vlan_in_def Let_def x_def [symmetric] b_def [symmetric] dsa_def [symmetric] z_def [symmetric]
      using False by (simp only: if_False)
    then show thesis
      by (intro set [OF b_def]) (cases dsa; cases z; simp; blast)
  qed
qed

lemma vlan_read_back:
  assumes "pkt_type e \<in> {IPV4_HNAPT, IPV6_5T_ROUTE}"
  shows "reads_back (Vlan v1 v2) e old (tuple_after (Vlan v1 v2) e opt)"
proof -
  have L: "hnat_entry_set_vlan v1 v2 e = set_vlan_in (tuple_layout e) v1 v2 e"
    using assms by (auto simp: hnat_entry_set_vlan_def tuple_layout_def IS_IPV4_GRP_def IS_IPV6_GRP_def)
  have "getf (tuple_layout e) ''vlan1'' (after_call (Vlan v1 v2) e) = ucast v1
      \<and> getf (tuple_layout e) ''vlan2'' (after_call (Vlan v1 v2) e) = ucast v2"
  proof (cases rule: set_vlan_in_cases [of "tuple_layout e" e v1 v2])
    case same
    then show ?thesis by (simp add: after_call_def L)
  next
    case (set b x)
    then show ?thesis
      by (elim disjE exE) (simp_all add: after_call_def L set(1) tuple_layout_def foe_fields split: if_split)
  qed
  then show ?thesis using assms by (auto simp: tuple_fields)
qed

text \<open>The Wi-Fi setters use the structure of a MAP-E entry for every IPv6 type but two, and the
  words where it has the Wi-Fi information are unused in an \<open>IPV6_5T_ROUTE\<close> entry.\<close>

lemma pao_lost:
  assumes "pkt_type e = IPV6_5T_ROUTE"
  shows "t_tid (mtk_hnat_foe_to_hnat_tuple (after_call (Tid v) e) opt) = t_tid (mtk_hnat_foe_to_hnat_tuple e opt)"
    and "t_is_prior (mtk_hnat_foe_to_hnat_tuple (after_call (Is_Prior v) e) opt)
      = t_is_prior (mtk_hnat_foe_to_hnat_tuple e opt)"
proof -
  have "getf (tuple_layout e) ''winfo_pao.tid'' (after_call (Tid v) e) = getf (tuple_layout e) ''winfo_pao.tid'' e"
    "getf (tuple_layout e) ''winfo_pao.is_prior'' (after_call (Is_Prior v) e)
     = getf (tuple_layout e) ''winfo_pao.is_prior'' e"
    using assms by (simp_all add: read_back_defs)
  then show "t_tid (mtk_hnat_foe_to_hnat_tuple (after_call (Tid v) e) opt) = t_tid (mtk_hnat_foe_to_hnat_tuple e opt)"
    "t_is_prior (mtk_hnat_foe_to_hnat_tuple (after_call (Is_Prior v) e) opt)
      = t_is_prior (mtk_hnat_foe_to_hnat_tuple e opt)"
    using assms by (simp_all add: tuple_fields)
qed

lemma pao_read_back:
  assumes "pkt_type e \<in> {IPV4_HNAPT, IPV6_5T_ROUTE}"
  shows "reads_back (Is_Prior v) e (mtk_hnat_foe_to_hnat_tuple e opt) (tuple_after (Is_Prior v) e opt)"
    "reads_back (Tid v) e (mtk_hnat_foe_to_hnat_tuple e opt) (tuple_after (Tid v) e opt)"
proof -
  have "getf (tuple_layout e) ''winfo_pao.is_prior'' (after_call (Is_Prior v) e) = ucast (v AND 1)"
    "getf (tuple_layout e) ''winfo_pao.tid'' (after_call (Tid v) e) = ucast (v AND 0xf)"
    if "pkt_type e = IPV4_HNAPT"
    using that take_bits_u16 [of v] by (auto simp: read_back_defs split: if_splits)
  then show "reads_back (Is_Prior v) e (mtk_hnat_foe_to_hnat_tuple e opt) (tuple_after (Is_Prior v) e opt)"
    "reads_back (Tid v) e (mtk_hnat_foe_to_hnat_tuple e opt) (tuple_after (Tid v) e opt)"
    using assms pao_lost [of e v opt] by (auto simp: tuple_fields)
qed

lemma read_back:
  assumes "pkt_type e \<in> {IPV4_HNAPT, IPV6_5T_ROUTE}" "\<not> refused_call c"
  shows "reads_back c e (mtk_hnat_foe_to_hnat_tuple e opt) (tuple_after c e opt)"
  using assms hqos_read_back dscp_read_back vlan_read_back pppoe_read_back pao_read_back
  by (cases c) (simp_all only: refused_call.simps not_le)

lemma call_result:
  assumes "pkt_type e \<in> {IPV4_HNAPT, IPV6_5T_ROUTE}"
  shows "refused_call c \<Longrightarrow> call_upd c e = (HNAT_FAIL, e)"
    and "\<not> refused_call c \<Longrightarrow> fst (call_upd c e) \<in> {HNAT_SUCCESS, HNAT_ALREADY_SET}"
proof -
  show "refused_call c \<Longrightarrow> call_upd c e = (HNAT_FAIL, e)" by (cases c) (simp_all add: hnat_entry_set_hqos_def)
  have v: "fst (set_vlan_in L v1 v2 e) \<in> {HNAT_SUCCESS, HNAT_ALREADY_SET}" for L v1 v2
    by (cases rule: set_vlan_in_cases [of L e v1 v2]) auto
  have t: "IS_IPV4_GRP e \<or> IS_IPV6_GRP e" "pkt_type e \<noteq> IPV6_HNAPT" "pkt_type e \<noteq> IPV6_HNAT"
    using assms(1) by (auto simp: IS_IPV4_GRP_def IS_IPV6_GRP_def)
  show "\<not> refused_call c \<Longrightarrow> fst (call_upd c e) \<in> {HNAT_SUCCESS, HNAT_ALREADY_SET}"
    using t v
    by (cases c) (auto simp: hnat_entry_set_hqos_def set_hqos_in_def hnat_entry_set_dscp_def hnat_entry_set_vlan_def
        hnat_entry_set_pppoe_def hnat_entry_set_is_prior_def hnat_entry_set_tid_def set_pao_def Let_def not_le)
qed

text \<open>An update of a bound entry, and the entry read by the same indices before and after it.\<close>

lemma update_then_get:
  assumes "sized_tables h" "unat ppe < ppe_num h" "unat hash < foe_etry_num h"
    and "foe_at h (unat ppe) (unat hash) = Some e" "entry_hnat_is_bound e"
    and "t_ppe_index opt = ppe" "t_hash_index opt = hash"
  shows "wp (api_update dev ppe hash c h) (\<lambda>(ret, h').
     ret = (if fst (call_upd c e) = HNAT_ALREADY_SET then HNAT_SUCCESS else fst (call_upd c e))
     \<and> mtk_hnat_get_ppe_entry_by_index h opt = Some (HNAT_SUCCESS, mtk_hnat_foe_to_hnat_tuple e opt)
     \<and> mtk_hnat_get_ppe_entry_by_index h' opt = Some (HNAT_SUCCESS, tuple_after c e opt))"
proof -
  let ?ret = "if fst (call_upd c e) = HNAT_ALREADY_SET then HNAT_SUCCESS else fst (call_upd c e)"
  have l: "unat ppe < length (foe_table_cpu h)" "unat hash < length (foe_table_cpu h ! unat ppe)"
    using assms(1-3) by (auto simp: sized_tables_def)
  have bound: "entry_hnat_is_bound (after_call c e)"
    using assms(5) call.state_kept [of c e] by (simp add: after_call_def entry_hnat_is_bound_def)
  have ret: "wp (hnat_update_entry_generic dev ppe hash (call_upd c) h) (\<lambda>(ret, h'). ret = ?ret)"
    using assms(2-5) by (auto simp: hnat_update_entry_generic_def case_prod_unfold Let_def)
  from ret obtain h' where run: "hnat_update_entry_generic dev ppe hash (call_upd c) h = Some (?ret, h')"
    by (auto simp only: wp_iff prod.case split_paired_Ex)
  from call.contract [OF l, of dev c, unfolded run]
  have same: "same_but_tables (cache_regs (unat ppe)) h h'"
    and "foe_at h' (unat ppe) (unat hash)
      = map_option (\<lambda>e. if fst (call_upd c e) = HNAT_SUCCESS then snd (call_upd c e) else e) (foe_at h (unat ppe) (unat hash))"
    by (simp_all add: assms(4))
  then have "foe_at h' (unat ppe) (unat hash) = Some (after_call c e)"
    by (simp add: assms(4) after_call_def)
  then show ?thesis
    unfolding api_update_generic run
    using assms(2-7) bound
    by (simp add: mtk_hnat_get_ppe_entry_by_index_def Let_def same_but_tables_fields [OF same])
qed

lemma api_read_back:
  assumes "sized_tables h" "unat ppe < ppe_num h" "unat hash < foe_etry_num h"
    and "foe_at h (unat ppe) (unat hash) = Some e" "entry_hnat_is_bound e"
    and "pkt_type e \<in> {IPV4_HNAPT, IPV6_5T_ROUTE}"
    and "t_ppe_index opt = ppe" "t_hash_index opt = hash"
  shows "wp (api_update dev ppe hash c h) (\<lambda>(ret, h'). \<exists>old t.
     mtk_hnat_get_ppe_entry_by_index h opt = Some (HNAT_SUCCESS, old)
     \<and> mtk_hnat_get_ppe_entry_by_index h' opt = Some (HNAT_SUCCESS, t)
     \<and> (if refused_call c then ret = HNAT_FAIL \<and> t = old else ret = HNAT_SUCCESS \<and> reads_back c e old t))"
proof (rule wp_pair [OF update_then_get [OF assms(1-5,7,8)]], elim conjE, intro exI conjI)
  fix ret :: int and h' :: mtk_hnat
  assume ret: "ret = (if fst (call_upd c e) = HNAT_ALREADY_SET then HNAT_SUCCESS else fst (call_upd c e))"
  show "if refused_call c then ret = HNAT_FAIL \<and> tuple_after c e opt = mtk_hnat_foe_to_hnat_tuple e opt
      else ret = HNAT_SUCCESS \<and> reads_back c e (mtk_hnat_foe_to_hnat_tuple e opt) (tuple_after c e opt)"
    using ret call_result [OF assms(6), of c] read_back [OF assms(6), of c opt]
    by (cases "refused_call c") (auto simp: after_call_def)
qed

text \<open>The rate limiting setter writes the mark of an IPv6 route; where a MAP-E entry has its own
  new source port, and an IPv6 NAPT entry the third word of the new address.\<close>

lemma hqos_hits_nat:
  assumes "fst (hnat_entry_set_hqos fqos qid e) = HNAT_SUCCESS"
  defines "e' \<equiv> snd (hnat_entry_set_hqos fqos qid e)"
  shows "pkt_type e = IPV4_MAP_E \<Longrightarrow>
      getf hnat_ipv4_mape ''new_sport'' e' = (getf hnat_ipv4_mape ''new_sport'' e AND NOT 0xf) OR (if fqos \<noteq> 0 then 1 else 0)
      \<and> getf hnat_ipv4_mape ''tport_id'' e' = getf hnat_ipv4_mape ''tport_id'' e"
    and "pkt_type e \<in> {IPV6_HNAPT, IPV6_HNAT} \<Longrightarrow>
      getf hnat_ipv6_hnapt ''new_ipv6_ip2'' e'
        = (getf hnat_ipv6_hnapt ''new_ipv6_ip2'' e AND NOT 0xf0000) OR (if fqos \<noteq> 0 then 0x10000 else 0)
      \<and> getf hnat_ipv6_hnapt ''tport_id'' e' = getf hnat_ipv6_hnapt ''tport_id'' e"
proof -
  have m: "(mask 4 :: u32) = 0xf" by (simp add: mask_eq_exp_minus_1)
  have sp: "getf hnat_ipv4_mape ''new_sport'' (setf hnat_ipv6_5t_route ''tport_id'' v x)
      = (getf hnat_ipv4_mape ''new_sport'' x AND NOT 0xf) OR take_bit 4 v" for v x
    unfolding getf_def setf_def by (subst field_get_set_inside) (simp_all add: foe_fields m)
  have ip: "getf hnat_ipv6_hnapt ''new_ipv6_ip2'' (setf hnat_ipv6_5t_route ''tport_id'' v x)
      = (getf hnat_ipv6_hnapt ''new_ipv6_ip2'' x AND NOT 0xf0000) OR push_bit 16 (take_bit 4 v)" for v x
    unfolding getf_def setf_def by (subst field_get_set_inside) (simp_all add: foe_fields m)
  define F Q :: u32 where "F = (if fqos \<noteq> 0 then 1 else 0)" and "Q = ucast (qid AND (MTK_QDMA_TX_NUM - 1))"
  have take: "take_bit 4 F = F" by (simp add: F_def)
  have e': "e' = setf hnat_ipv6_5t_route ''iblk2.qid'' Q (setf hnat_ipv6_5t_route ''iblk2.fqos'' F
      (setf hnat_ipv6_5t_route ''tport_id'' F e))" if "\<not> IS_IPV4_GRP e"
    using assms(1) that unfolding e'_def hnat_entry_set_hqos_def set_hqos_in_def Let_def F_def Q_def
    by (cases "fqos = 0") (auto split: if_split_asm)
  show "pkt_type e = IPV4_MAP_E \<Longrightarrow>
      getf hnat_ipv4_mape ''new_sport'' e' = (getf hnat_ipv4_mape ''new_sport'' e AND NOT 0xf) OR (if fqos \<noteq> 0 then 1 else 0)
      \<and> getf hnat_ipv4_mape ''tport_id'' e' = getf hnat_ipv4_mape ''tport_id'' e"
    using e' unfolding IS_IPV4_GRP_def by (simp add: sp take foe_fields) (simp add: F_def)
  show "pkt_type e \<in> {IPV6_HNAPT, IPV6_HNAT} \<Longrightarrow>
      getf hnat_ipv6_hnapt ''new_ipv6_ip2'' e'
        = (getf hnat_ipv6_hnapt ''new_ipv6_ip2'' e AND NOT 0xf0000) OR (if fqos \<noteq> 0 then 0x10000 else 0)
      \<and> getf hnat_ipv6_hnapt ''tport_id'' e' = getf hnat_ipv6_hnapt ''tport_id'' e"
  proof -
    assume "pkt_type e \<in> {IPV6_HNAPT, IPV6_HNAT}"
    then have "\<not> IS_IPV4_GRP e" by (auto simp: IS_IPV4_GRP_def)
    then show ?thesis by (simp add: e' ip take foe_fields) (simp add: F_def)
  qed
qed

end
