(* ===== verification/Hnat_Start.thy ===== *)
theory Hnat_Start
  imports Hnat_Entry
begin

text \<open>
  Hardware NAT: starting and stopping an engine (\<open>hnat_start\<close>, \<open>hnat_hw_init\<close>, \<open>hnat_stop\<close>,
  \<open>hnat_warm_init\<close> of \<open>hnat.c\<close>), and what the engine is told about its table. The allocations are
  parameters: for every size that is tried, the address or nothing.
\<close>

section \<open>Register programs\<close>

text \<open>The long sequences of register settings are lists of the three accesses of the code.\<close>

datatype reg_op = Set_Field int u32 u32 | Set_Bits int u32 | Set_Reg int u32

fun run_op :: "device \<Rightarrow> nat \<Rightarrow> reg_op \<Rightarrow> mtk_hnat \<Rightarrow> mtk_hnat" where
  "run_op dev p (Set_Field r f v) h = cr_set_field dev (Ppe p r) f v h" |
  "run_op dev p (Set_Bits r b) h = cr_set_bits dev (Ppe p r) b h" |
  "run_op dev p (Set_Reg r v) h = writel v (Ppe p r) h"

definition run_ops :: "device \<Rightarrow> nat \<Rightarrow> reg_op list \<Rightarrow> mtk_hnat \<Rightarrow> mtk_hnat" where
  "run_ops dev p ops h = fold (run_op dev p) ops h"

definition BITS :: "nat list \<Rightarrow> u32" where
  "BITS ns = fold (\<lambda>n w. w OR push_bit n 1) ns 0"

section \<open>Setting an engine up\<close>

definition TB_ENTRY_128B :: "mtk_hnat_version \<Rightarrow> u32" where
  "TB_ENTRY_128B ver = (if ver = MTK_HNAT_V3 then 0 else 1)"

abbreviation (input) PPE_IP_PROT_CHK :: int where "PPE_IP_PROT_CHK \<equiv> 0x08"
abbreviation (input) PPE_TB_BASE :: int where "PPE_TB_BASE \<equiv> 0x20"
abbreviation (input) PPE_BNDR :: int where "PPE_BNDR \<equiv> 0x28"
abbreviation (input) PPE_BIND_LMT_0 :: int where "PPE_BIND_LMT_0 \<equiv> 0x2C"
abbreviation (input) PPE_BIND_LMT_1 :: int where "PPE_BIND_LMT_1 \<equiv> 0x30"
abbreviation (input) PPE_KA :: int where "PPE_KA \<equiv> 0x34"
abbreviation (input) PPE_UNB_AGE :: int where "PPE_UNB_AGE \<equiv> 0x38"
abbreviation (input) PPE_BND_AGE_0 :: int where "PPE_BND_AGE_0 \<equiv> 0x3C"
abbreviation (input) PPE_BND_AGE_1 :: int where "PPE_BND_AGE_1 \<equiv> 0x40"
abbreviation (input) PPE_HASH_SEED :: int where "PPE_HASH_SEED \<equiv> 0x44"
abbreviation (input) PPE_DFT_CPORT :: int where "PPE_DFT_CPORT \<equiv> 0x48"
abbreviation (input) PPE_DFT_CPORT1 :: int where "PPE_DFT_CPORT1 \<equiv> 0x4C"
abbreviation (input) PPE_MIB_CFG :: int where "PPE_MIB_CFG \<equiv> 0x134"
abbreviation (input) PPE_MIB_TB_BASE :: int where "PPE_MIB_TB_BASE \<equiv> 0x138"
abbreviation (input) PPE_MIB_CAH_CTRL :: int where "PPE_MIB_CAH_CTRL \<equiv> 0x150"
abbreviation (input) PPE_SB_FIFO_DBG :: int where "PPE_SB_FIFO_DBG \<equiv> 0x170"
abbreviation (input) PPE_SBW_CTRL :: int where "PPE_SBW_CTRL \<equiv> 0x174"
abbreviation (input) TB_ETRY_NUM :: u32 where "TB_ETRY_NUM \<equiv> 0x7"

definition hash_ops :: "mtk_hnat_version \<Rightarrow> reg_op list" where
  "hash_ops ver =
    [Set_Field PPE_TB_CFG 0xC000 1,
     Set_Reg PPE_HASH_SEED 0x12345678,
     Set_Field PPE_TB_CFG 0xC0000 0,
     Set_Field PPE_TB_CFG 0x8 (TB_ENTRY_128B ver),
     Set_Field PPE_TB_CFG 0x30 3,
     Set_Reg PPE_IP_PROT_CHK 0xFFFFFFFF,
     Set_Bits PPE_FLOW_CFG (BITS [12, 13, 17, 19, 14, 10, 8, 9])]"

definition flow_ops :: "mtk_hnat_version \<Rightarrow> reg_op list" where
  "flow_ops ver =
    (if ver = MTK_HNAT_V2 \<or> ver = MTK_HNAT_V3 then [Set_Bits PPE_FLOW_CFG (BITS [21, 22])] else [])
    @ (if ver = MTK_HNAT_V3 then [Set_Bits PPE_FLOW_CFG (BITS [30, 29, 23, 24, 25])] else [])"

definition age_ops :: "reg_op list" where
  "age_ops =
    [Set_Field PPE_TB_CFG 0x80 1, Set_Field PPE_TB_CFG 0x100 1,
     Set_Field PPE_UNB_AGE 0xffff0000 1000, Set_Field PPE_UNB_AGE 0xff 3,
     Set_Field PPE_TB_CFG 0x200 1, Set_Field PPE_TB_CFG 0x400 1, Set_Field PPE_TB_CFG 0x800 1,
     Set_Field PPE_BND_AGE_0 0xffff 12, Set_Field PPE_BND_AGE_0 0xffff0000 1,
     Set_Field PPE_BND_AGE_1 0xffff0000 1, Set_Field PPE_BND_AGE_1 0xffff 7]"

definition ka_ops :: "reg_op list" where
  "ka_ops =
    [Set_Field PPE_TB_CFG 0x3000 0, Set_Field PPE_BIND_LMT_1 0xff0000 0,
     Set_Field PPE_KA 0xffff 0, Set_Field PPE_KA 0xff0000 0, Set_Field PPE_KA 0xff000000 0,
     Set_Field PPE_TB_CFG SCAN_MODE 2, Set_Field PPE_TB_CFG 0x3000 3, Set_Field PPE_TB_CFG 0x1000000 0,
     Set_Field PPE_KA 0xffff 1, Set_Field PPE_KA 0xff0000 1, Set_Field PPE_KA 0xff000000 1,
     Set_Field PPE_BIND_LMT_1 0xff0000 1]"

definition rate_ops :: "reg_op list" where
  "rate_ops =
    [Set_Field PPE_BIND_LMT_0 0x3ff 16383, Set_Field PPE_BIND_LMT_0 0x3ff0000 16383,
     Set_Field PPE_BIND_LMT_1 0x3fff 16383, Set_Field PPE_BNDR 0xffff 0x1E,
     Set_Field PPE_GLO_CFG 0x1 1, Set_Reg PPE_DFT_CPORT 0, Set_Field PPE_GLO_CFG 0x10 0,
     Set_Field PPE_GLO_CFG 0x80 1]"

definition port_ops :: "mtk_hnat_version \<Rightarrow> reg_op list" where
  "port_ops ver =
    (if ver = MTK_HNAT_V2 \<or> ver = MTK_HNAT_V3
     then [Set_Reg PPE_DFT_CPORT1 0xcb777, Set_Reg PPE_SBW_CTRL 0x7f, Set_Field PPE_GLO_CFG 0x2000000 1] else [])
    @ (if ver = MTK_HNAT_V3
       then [Set_Field PPE_SB_FIFO_DBG 0x800 1, Set_Bits PPE_GLO_CFG (BITS [20, 1]), Set_Field PPE_TB_CFG 0x4000000 1]
       else [])"

definition flow_chk_enable :: "device \<Rightarrow> nat \<Rightarrow> mtk_hnat \<Rightarrow> mtk_hnat" where
  "flow_chk_enable dev ppe h =
     (if h_version h = MTK_HNAT_V3 then
        if ppe = 0 then cr_set_field dev (Fe 0x2C) 0x10000000 1 h
        else if ppe = 1 then cr_set_field dev (Fe 0x2C) 0x20000000 1 h
        else h
      else h)"

definition mib_ops :: "reg_op list" where
  "mib_ops = [Set_Field PPE_MIB_CFG 1 1, Set_Field PPE_MIB_CFG 2 1, Set_Field PPE_MIB_CAH_CTRL 1 1]"

definition hnat_hw_init :: "device \<Rightarrow> nat \<Rightarrow> mtk_hnat \<Rightarrow> int \<times> mtk_hnat" where
  "hnat_hw_init dev ppe h =
     (if ppe \<ge> ppe_num h then (- EINVAL, h)
      else
        let ver = h_version h; mib = per_flow_accounting h;
            h = cr_set_field dev (Ppe ppe PPE_TB_CFG) TB_ETRY_NUM (of_int (etry_num_cfg h)) h;
            h = run_ops dev ppe (hash_ops ver @ flow_ops ver @ age_ops @ ka_ops @ rate_ops) h;
            h = hnat_cache_ebl_one dev ppe 1 h;
            h = run_ops dev ppe (port_ops ver) h;
            h = flow_chk_enable dev ppe h;
            h = (if mib then run_ops dev ppe mib_ops h else h)
        in (0, h))"

text \<open>The table is allocated with the size the driver has now; while that fails the size is halved.
  The count of the loop is \<open>etry_num_cfg + 1\<close>: \<open>TABLE_8K\<close> is 3.\<close>

fun map_foe_table ::
    "(nat \<Rightarrow> u32 option) \<Rightarrow> (nat \<Rightarrow> bool) \<Rightarrow> nat \<Rightarrow> nat \<Rightarrow> mtk_hnat \<Rightarrow> int \<times> mtk_hnat" where
  "map_foe_table dma flow ppe 0 h = (-1, h)" |
  "map_foe_table dma flow ppe (Suc cfg) h =
     (let none = h\<lparr>foe_table_cpu := (foe_table_cpu h)[ppe := []], foe_etry_num := foe_etry_num h div 2\<rparr>
      in case dma cfg of
        None \<Rightarrow> map_foe_table dma flow ppe cfg none
      | Some addr \<Rightarrow>
          if flow cfg then
            (int cfg, h\<lparr>foe_table_cpu := (foe_table_cpu h)[ppe := replicate (foe_etry_num h) (\<lambda>_. 0)],
                        foe_table_dev := (foe_table_dev h)[ppe := addr],
                        foe_flow := (foe_flow h)[ppe := foe_etry_num h div 4]\<rparr>)
          else map_foe_table dma flow ppe cfg (none\<lparr>foe_flow := (foe_flow h)[ppe := 0]\<rparr>))"

text \<open>\<open>memset\<close> of the table and, on the first hardware version, the entries it cannot use.\<close>

definition clear_table :: "nat \<Rightarrow> mtk_hnat \<Rightarrow> mtk_hnat option" where
  "clear_table ppe h =
     (let n = foe_etry_num h; t = foe_table_cpu h ! ppe
      in if n \<le> length t then
           let t = replicate n (\<lambda>_. 0) @ drop n t
           in map_option (\<lambda>t. h\<lparr>foe_table_cpu := (foe_table_cpu h)[ppe := t]\<rparr>)
                (if h_version h = MTK_HNAT_V1_1 then exclude_boundary_entry n t else Some t)
         else None)"

text \<open>\<open>mib\<close> and \<open>counted\<close>: the allocations for the packet counters, the engine's and the driver's.\<close>

definition no_counts :: hnat_accounting where
  "no_counts = \<lparr>a_bytes = 0, a_packets = 0, a_zone = 0\<rparr>"

definition hnat_start ::
    "device \<Rightarrow> (nat \<Rightarrow> u32 option) \<Rightarrow> (nat \<Rightarrow> bool) \<Rightarrow> u32 option \<Rightarrow> bool \<Rightarrow> nat \<Rightarrow> mtk_hnat \<Rightarrow> (int \<times> mtk_hnat) option" where
  "hnat_start dev dma flow mib counted ppe h =
     (if ppe \<ge> ppe_num h then Some (- EINVAL, h)
      else
        let (cfg, h) = map_foe_table dma flow ppe 4 h
        in if cfg < 0 then Some (-1, h)
           else do {
             h \<leftarrow> clear_table ppe (writel (foe_table_dev h ! ppe) (Ppe ppe PPE_TB_BASE) h);
             case (if per_flow_accounting h then mib else Some 0) of
               None \<Rightarrow> Some (-1, h)
             | Some addr \<Rightarrow>
                 let h = (if per_flow_accounting h
                          then writel addr (Ppe ppe PPE_MIB_TB_BASE) (h\<lparr>foe_mib_dev := (foe_mib_dev h)[ppe := addr]\<rparr>)
                          else h);
                     counts = (if counted then replicate (foe_etry_num h) no_counts else []);
                     h = (if per_flow_accounting h then h\<lparr>acct := (acct h)[ppe := counts]\<rparr> else h)
                 in if per_flow_accounting h \<and> \<not> counted then Some (-1, h)
                    else Some (0, snd (hnat_hw_init dev ppe (h\<lparr>etry_num_cfg := cfg\<rparr>))) })"

section \<open>Stopping an engine\<close>

text \<open>The port of an engine is in all four fields of the forwarding register; \<open>l4s\<close> is the global
  \<open>l4s_toggle\<close>.\<close>

definition GDM_ALL :: "u32 \<Rightarrow> u32" where
  "GDM_ALL port = push_bit 12 port OR push_bit 8 port OR push_bit 4 port OR port"

abbreviation (input) GDM_ALL_FRC_MASK :: u32 where "GDM_ALL_FRC_MASK \<equiv> 0xFFFF"

definition set_gmac_ppe_fwd :: "device \<Rightarrow> bool \<Rightarrow> nat \<Rightarrow> bool \<Rightarrow> mtk_hnat \<Rightarrow> mtk_hnat" where
  "set_gmac_ppe_fwd dev l4s port enable h =
     (let r = Fe (if port = 1 then 0x500 else if port = 2 then 0x1500 else 0x540)
      in if enable then
           (if l4s then cr_set_field dev r GDM_ALL_FRC_MASK (GDM_ALL 10) h
            else if ppe_num h \<ge> 3 \<and> port = 15 then cr_set_field dev r GDM_ALL_FRC_MASK (GDM_ALL 0xC) h
            else if ppe_num h \<ge> 2 \<and> port = 2 then cr_set_field dev r GDM_ALL_FRC_MASK (GDM_ALL 4) h
            else cr_set_field dev r GDM_ALL_FRC_MASK (GDM_ALL 3) h)
         else
           let (val, h) = readl dev r h;
               h = (if ppe_num h \<ge> 2 \<and> (val AND GDM_ALL_FRC_MASK = GDM_ALL 4 \<or> val AND GDM_ALL_FRC_MASK = GDM_ALL 0xC)
                    then cr_set_field dev r GDM_ALL_FRC_MASK (GDM_ALL 0) h else h)
           in if val AND GDM_ALL_FRC_MASK = GDM_ALL 3 then cr_set_field dev r GDM_ALL_FRC_MASK (GDM_ALL 0) h else h)"

text \<open>\<open>polls\<close>: how often the register is read within the second the code waits.\<close>

fun ppe_busy_loop :: "device \<Rightarrow> nat \<Rightarrow> nat \<Rightarrow> mtk_hnat \<Rightarrow> int \<times> mtk_hnat" where
  "ppe_busy_loop dev ppe 0 h = (-1, h)" |
  "ppe_busy_loop dev ppe (Suc polls) h =
     (let (r, h) = readl dev (Ppe ppe PPE_GLO_CFG) h
      in if r AND push_bit 31 1 = 0 then (0, h) else ppe_busy_loop dev ppe polls h)"

definition ppe_busy_wait :: "device \<Rightarrow> nat \<Rightarrow> nat \<Rightarrow> mtk_hnat \<Rightarrow> int \<times> mtk_hnat" where
  "ppe_busy_wait dev polls ppe h = (if ppe \<ge> ppe_num h then (- EINVAL, h) else ppe_busy_loop dev ppe polls h)"

text \<open>The release of the flow nodes (\<open>hnat_flow_entry_teardown_all\<close>) has no part in the state.\<close>

definition hnat_stop :: "device \<Rightarrow> bool \<Rightarrow> nat \<Rightarrow> nat \<Rightarrow> mtk_hnat \<Rightarrow> mtk_hnat option" where
  "hnat_stop dev l4s polls ppe h =
     (if ppe \<ge> ppe_num h then Some h
      else do {
        let h = set_gmac_ppe_fwd dev l4s 1 False h;
        let h = set_gmac_ppe_fwd dev l4s 2 False h;
        let h = set_gmac_ppe_fwd dev l4s 15 False h;
        let h = hnat_cache_ebl_one dev ppe 0 h;
        h \<leftarrow> (if foe_table_cpu h ! ppe \<noteq> [] then delete_all_loop dev ppe 0 (foe_etry_num h) h else Some h);
        let h = cr_set_field dev (Ppe ppe PPE_GLO_CFG) 1 0 h;
        let h = cr_set_field dev (Ppe ppe PPE_TB_CFG) SCAN_MODE 0 h;
        let h = cr_set_field dev (Ppe ppe PPE_TB_CFG) 0x3000 0 h;
        let h = snd (ppe_busy_wait dev polls ppe h);
        let h = cr_clr_bits dev (Ppe ppe PPE_FLOW_CFG) (BITS [13, 12, 17, 20, 14, 10, 8, 9, 2, 1]) h;
        let h = (if h_version h = MTK_HNAT_V2 \<or> h_version h = MTK_HNAT_V3
                 then cr_clr_bits dev (Ppe ppe PPE_FLOW_CFG) (BITS [21, 22]) h else h);
        let h = (if h_version h = MTK_HNAT_V3
                 then cr_clr_bits dev (Ppe ppe PPE_FLOW_CFG) (BITS [30, 29, 23, 24, 25]) h else h);
        let h = run_ops dev ppe (map (\<lambda>f. Set_Field PPE_TB_CFG f 0) [0x80, 0x100, 0x200, 0x400, 0x800]) h;
        let h = writel 0 (Ppe ppe PPE_TB_BASE) (h\<lparr>foe_table_cpu := (foe_table_cpu h)[ppe := []]\<rparr>);
        Some (if per_flow_accounting h
              then (writel 0 (Ppe ppe PPE_MIB_TB_BASE) h)\<lparr>acct := (acct h)[ppe := []]\<rparr> else h) })"

section \<open>Starting again after a reset of the chip\<close>

definition mtk_set_ppe_pse_port_state :: "device \<Rightarrow> nat \<Rightarrow> bool \<Rightarrow> mtk_hnat \<Rightarrow> int \<times> mtk_hnat" where
  "mtk_set_ppe_pse_port_state dev ppe up h =
     (let down = (if up then 0 else 1 :: u32)
      in if ppe = 0 then (0, cr_set_field dev (Fe 0) (push_bit 8 (push_bit 3 1)) down h)
         else if ppe = 1 then (0, cr_set_field dev (Fe 0) (push_bit 8 (push_bit 4 1)) down h)
         else if ppe = 2 then (0, cr_set_field dev (Fe 0x24) (push_bit (0xC - 8) 1) down h)
         else (- EINVAL, h))"

fun warm_init_loop :: "device \<Rightarrow> nat \<Rightarrow> nat \<Rightarrow> mtk_hnat \<Rightarrow> mtk_hnat option" where
  "warm_init_loop dev ppe 0 h = Some h" |
  "warm_init_loop dev ppe (Suc n) h = do {
     h \<leftarrow> clear_table ppe (writel (foe_table_dev h ! ppe) (Ppe ppe PPE_TB_BASE) h);
     let h = (if per_flow_accounting h then writel (foe_mib_dev h ! ppe) (Ppe ppe PPE_MIB_TB_BASE) h else h);
     warm_init_loop dev (Suc ppe) n (snd (hnat_hw_init dev ppe h)) }"

fun pse_ports_down :: "device \<Rightarrow> nat list \<Rightarrow> mtk_hnat \<Rightarrow> mtk_hnat" where
  "pse_ports_down dev [] h = h" |
  "pse_ports_down dev (i # is) h =
     pse_ports_down dev is (if i \<ge> ppe_num h then snd (mtk_set_ppe_pse_port_state dev i False h) else h)"

definition hnat_warm_init :: "device \<Rightarrow> bool \<Rightarrow> mtk_hnat \<Rightarrow> (int \<times> mtk_hnat) option" where
  "hnat_warm_init dev l4s h = do {
     h \<leftarrow> warm_init_loop dev 0 (ppe_num h) h;
     let h = pse_ports_down dev [0, 1, 2] h;
     let h = set_gmac_ppe_fwd dev l4s 1 True h;
     let h = set_gmac_ppe_fwd dev l4s 2 True h;
     Some (0, set_gmac_ppe_fwd dev l4s 15 True h) }"

section \<open>What the engine is told about its table\<close>

text \<open>Which settings leave the bits \<open>m\<close> of a register alone.\<close>

fun op_spares :: "int \<Rightarrow> u32 \<Rightarrow> reg_op \<Rightarrow> bool" where
  "op_spares r m (Set_Field r' f v) = (r' \<noteq> r \<or> f AND m = 0 \<and> push_bit (ffs f - 1) v AND m = 0)" |
  "op_spares r m (Set_Bits r' b) = (r' \<noteq> r \<or> b AND m = 0)" |
  "op_spares r m (Set_Reg r' v) = (r' \<noteq> r)"

lemma and_not_or_spared: "f AND m = 0 \<Longrightarrow> v AND m = 0 \<Longrightarrow> (x AND NOT f OR v) AND m = x AND (m :: u32)"
proof (rule bit_word_eqI)
  fix i
  assume "f AND m = 0" "v AND m = 0"
  then have "\<not> bit (f AND m) i" "\<not> bit (v AND m) i" by simp_all
  then show "bit ((x AND NOT f OR v) AND m) i \<longleftrightarrow> bit (x AND m) i"
    by (auto simp: bit_and_iff bit_or_iff bit_not_iff dest: bit_imp_le_length)
qed

lemma run_op_keeps:
  assumes "holds dev (Ppe p r) m" "op_spares r m op"
  shows "keeps dev (Ppe p r) m h (run_op dev p op h)"
proof (cases op)
  case (Set_Field r' f v)
  show ?thesis
  proof (cases "r' = r")
    case True
    with assms(2) Set_Field show ?thesis
      by (simp add: keeps_def holds_cr_set_field [OF assms(1)] and_not_or_spared)
  next
    case False
    then show ?thesis
      using keeps_io_only [OF assms(1) keeps_refl io_only_cr_set_field [OF io_only_refl], of "Ppe p r'" "{Ppe p r'}"]
      by (simp add: Set_Field)
  qed
next
  case (Set_Bits r' b)
  let ?h = "snd (readl dev (Ppe p r') h)" and ?v = "dev (h_io h) (Ppe p r')"
  have w: "cr_set_bits dev (Ppe p r') b h = writel (?v OR b) (Ppe p r') ?h"
    by (simp add: cr_set_bits_def readl_def)
  have io: "io_only {Ppe p r'} h (writel (?v OR b) (Ppe p r') ?h)" by (intro hnat_frame) simp_all
  show ?thesis
  proof (cases "r' = r")
    case True
    with assms(2) Set_Bits have "(?v OR b) AND m = ?v AND m"
      using and_not_or_spared [of 0 m b ?v] by simp
    moreover have "reg_now dev (Ppe p r) (run_op dev p op h) AND m = (?v OR b) AND m"
      using holds_writel [OF assms(1), of "?v OR b" ?h] by (simp only: True Set_Bits run_op.simps w [unfolded True])
    moreover have "?v = reg_now dev (Ppe p r) h" by (simp add: reg_now_def True)
    ultimately show ?thesis by (simp only: keeps_def)
  next
    case False
    then show ?thesis using keeps_io_only [OF assms(1) keeps_refl io] by (simp add: Set_Bits w)
  qed
next
  case (Set_Reg r' v)
  with assms(2) show ?thesis
    using keeps_io_only [OF assms(1) keeps_refl io_only_writel [OF io_only_refl], of "Ppe p r'" "{Ppe p r'}"] by simp
qed

lemma run_ops_keeps:
  assumes "holds dev (Ppe p r) m" "list_all (op_spares r m) ops"
  shows "keeps dev (Ppe p r) m h (run_ops dev p ops h)"
  using assms(2)
proof (induction ops arbitrary: h)
  case (Cons op ops)
  have "keeps dev (Ppe p r) m (run_op dev p op h) (run_ops dev p ops (run_op dev p op h))"
    using Cons by simp
  moreover have "keeps dev (Ppe p r) m h (run_op dev p op h)" using Cons.prems run_op_keeps [OF assms(1)] by simp
  ultimately show ?case unfolding run_ops_def fold_simps o_apply by (rule keeps_trans [rotated])
qed (simp add: run_ops_def)

lemma ffs_tb_fields [simp]:
  "ffs 0x8 = 4" "ffs 0x30 = 5" "ffs 0x80 = 8" "ffs 0x400 = 11" "ffs 0x800 = 12" "ffs 0xC000 = 15"
  "ffs 0x1000000 = 25" "ffs 0x4000000 = 27"
  by code_simp+

lemma init_ops_spare:
  "list_all (op_spares PPE_TB_CFG 7) (hash_ops ver @ flow_ops ver @ age_ops @ ka_ops @ rate_ops)"
  "list_all (op_spares PPE_TB_CFG 7) (port_ops ver)" "list_all (op_spares PPE_TB_CFG 7) mib_ops"
  by (simp_all add: hash_ops_def flow_ops_def age_ops_def ka_ops_def rate_ops_def port_ops_def mib_ops_def TB_ENTRY_128B_def)

text \<open>Switching the cache on leaves the table configuration as it is.\<close>

lemma cache_ebl_keeps:
  assumes "cache_device dev p"
  shows "keeps dev (Ppe p PPE_TB_CFG) (- 1) h (hnat_cache_ebl_one dev p e h)"
proof -
  let ?tb = "Ppe p PPE_TB_CFG"
  have tb: "holds dev ?tb (- 1)" using assms by (simp add: cache_device_def)
  have "keeps dev ?tb (- 1) h (hnat_cache_clr_body dev p h)"
    using cache_clr_restores [OF assms] by (simp add: hnat_cache_clr_def)
  then have "keeps dev ?tb (- 1) h (if e \<noteq> 0 then hnat_cache_clr_body dev p h else h)" by simp
  from keeps_io_only [OF tb this io_only_cr_set_field [OF io_only_refl], of "Ppe p PPE_CAH_CTRL" "{Ppe p PPE_CAH_CTRL}"]
  show ?thesis by (simp add: hnat_cache_ebl_one_def Let_def)
qed

lemma holds_sub: "holds dev r (- 1) \<Longrightarrow> holds dev r m"
  unfolding holds_def by (auto split: io.split)

lemma keeps_sub: "keeps dev r (- 1) h h' \<Longrightarrow> keeps dev r m h h'"
  by (simp add: keeps_def)

lemma io_only_fe [simp]: "io_only {Fe 0x2C} h (flow_chk_enable dev p h)"
  by (simp add: flow_chk_enable_def hnat_frame)

text \<open>After the initialisation the table configuration has the size that the driver recorded.\<close>

lemma hw_init_etry_num:
  assumes "cache_device dev p" "p < ppe_num h" "0 \<le> etry_num_cfg h" "etry_num_cfg h < 8"
  shows "reg_now dev (Ppe p PPE_TB_CFG) (snd (hnat_hw_init dev p h)) AND 7 = of_int (etry_num_cfg h)"
proof -
  let ?tb = "Ppe p PPE_TB_CFG" and ?c = "of_int (etry_num_cfg h) :: u32" and ?ver = "h_version h"
  have tb: "holds dev ?tb (- 1)" and tb7: "holds dev ?tb 7"
    using assms(1) holds_sub by (auto simp: cache_device_def)
  define h1 where "h1 = cr_set_field dev ?tb TB_ETRY_NUM ?c h"
  define h2 where "h2 = run_ops dev p (hash_ops ?ver @ flow_ops ?ver @ age_ops @ ka_ops @ rate_ops) h1"
  define h3 where "h3 = hnat_cache_ebl_one dev p 1 h2"
  define h4 where "h4 = run_ops dev p (port_ops ?ver) h3"
  define h5 where "h5 = flow_chk_enable dev p h4"
  define h6 where "h6 = (if per_flow_accounting h then run_ops dev p mib_ops h5 else h5)"
  have init: "snd (hnat_hw_init dev p h) = h6"
    using assms(2) by (simp add: hnat_hw_init_def Let_def h1_def h2_def h3_def h4_def h5_def h6_def)
  have "keeps dev ?tb 7 h1 h2" unfolding h2_def by (rule run_ops_keeps [OF tb7 init_ops_spare(1)])
  moreover have "keeps dev ?tb 7 h2 h3" unfolding h3_def by (rule keeps_sub [OF cache_ebl_keeps [OF assms(1)]])
  moreover have "keeps dev ?tb 7 h3 h4" unfolding h4_def by (rule run_ops_keeps [OF tb7 init_ops_spare(2)])
  moreover have "keeps dev ?tb 7 h4 h5"
    unfolding h5_def by (rule keeps_io_only [OF tb7 keeps_refl io_only_fe]) simp
  moreover have "keeps dev ?tb 7 h5 h6"
    unfolding h6_def using run_ops_keeps [OF tb7 init_ops_spare(3)] by simp
  ultimately have "keeps dev ?tb 7 h1 h6" using keeps_trans by blast
  moreover have "reg_now dev ?tb h1 AND 7 = ?c"
  proof -
    have f: "ffs 7 = 1" by code_simp
    have "?c AND 7 = ?c"
    proof -
      have "etry_num_cfg h \<in> {0, 1, 2, 3, 4, 5, 6, 7}" using assms(3,4) by auto
      then show ?thesis by auto
    qed
    moreover have "((x AND NOT m) OR v) AND m = v AND m" for x v m :: u32
      by (rule bit_word_eqI) (auto simp: bit_and_iff bit_or_iff bit_not_iff dest: bit_imp_le_length)
    moreover have "reg_now dev ?tb h1 AND 7 = (reg_now dev ?tb h AND NOT 7 OR push_bit (ffs 7 - 1) ?c) AND 7"
      unfolding h1_def by (rule holds_cr_set_field [OF tb7])
    ultimately show ?thesis by (simp only: f diff_self_eq_0 push_bit_0_id id_apply)
  qed
  ultimately show ?thesis by (simp add: init keeps_def)
qed

section \<open>The size of the table\<close>

lemma map_foe_table_spec:
  assumes "map_foe_table dma flow p n h = (cfg, h')" "0 \<le> cfg" "p < length (foe_table_cpu h)"
  shows "cfg < int n \<and> ppe_num h' = ppe_num h \<and> foe_etry_num h' = foe_etry_num h div 2 ^ (n - 1 - nat cfg)
    \<and> foe_table_cpu h' = (foe_table_cpu h)[p := replicate (foe_etry_num h') (\<lambda>_. 0)] \<and> h_version h' = h_version h
    \<and> per_flow_accounting h' = per_flow_accounting h"
  using assms
proof (induction n arbitrary: h)
  case (Suc n)
  let ?x = "h\<lparr>foe_table_cpu := (foe_table_cpu h)[p := []], foe_etry_num := foe_etry_num h div 2\<rparr>"
  have rest: "cfg < int (Suc n) \<and> ppe_num h' = ppe_num h \<and> foe_etry_num h' = foe_etry_num h div 2 ^ (Suc n - 1 - nat cfg)
      \<and> foe_table_cpu h' = (foe_table_cpu h)[p := replicate (foe_etry_num h') (\<lambda>_. 0)] \<and> h_version h' = h_version h
      \<and> per_flow_accounting h' = per_flow_accounting h"
    if "map_foe_table dma flow p n x = (cfg, h')" "ppe_num x = ppe_num h" "foe_etry_num x = foe_etry_num h div 2"
      "foe_table_cpu x = (foe_table_cpu h)[p := []]" "h_version x = h_version h"
      "per_flow_accounting x = per_flow_accounting h" for x
  proof -
    have i: "cfg < int n \<and> ppe_num h' = ppe_num x \<and> foe_etry_num h' = foe_etry_num x div 2 ^ (n - 1 - nat cfg)
      \<and> foe_table_cpu h' = (foe_table_cpu x)[p := replicate (foe_etry_num h') (\<lambda>_. 0)] \<and> h_version h' = h_version x
      \<and> per_flow_accounting h' = per_flow_accounting x"
      using Suc.prems(2,3) that(1,4) by (intro Suc.IH) simp_all
    then have "Suc n - 1 - nat cfg = Suc (n - 1 - nat cfg)" using Suc.prems(2) by linarith
    with i that(2-6) show ?thesis by (simp add: div_mult2_eq)
  qed
  show ?case
    using Suc.prems(1,2) rest by (auto simp: Let_def split: option.splits if_splits)
qed simp

lemma make_static_length: "make_static b os t = Some t' \<Longrightarrow> length t' = length t"
  by (induction os arbitrary: t) (auto split: if_splits)

lemma exclude_boundary_length: "exclude_boundary_loop i n t = Some t' \<Longrightarrow> length t' = length t"
  by (induction n arbitrary: i t) (auto simp: bind_eq_Some_conv dest: make_static_length)

lemma clear_table_spec:
  assumes "clear_table p h = Some h'" "p < length (foe_table_cpu h)"
  shows "\<exists>t. h' = h\<lparr>foe_table_cpu := (foe_table_cpu h)[p := t]\<rparr> \<and> length t = length (foe_table_cpu h ! p)"
  using assms exclude_boundary_length
  by (fastforce simp: clear_table_def Let_def exclude_boundary_entry_def split: if_splits)

text \<open>Setting up touches nothing but registers.\<close>

lemma run_op_io: "io_only UNIV h (run_op dev p op h)"
proof (cases op)
  case (Set_Bits r b)
  have "cr_set_bits dev (Ppe p r) b h = writel (dev (h_io h) (Ppe p r) OR b) (Ppe p r) (snd (readl dev (Ppe p r) h))"
    by (simp add: cr_set_bits_def readl_def)
  then show ?thesis by (simp add: Set_Bits hnat_frame)
qed (simp_all add: hnat_frame)

lemma run_ops_io: "io_only UNIV h (run_ops dev p ops h)"
proof (induction ops arbitrary: h)
  case (Cons op ops)
  from Cons [of "run_op dev p op h"] show ?case
    unfolding run_ops_def fold_simps by (rule io_only_trans [OF run_op_io])
qed (simp add: run_ops_def)

lemma cache_ebl_io: "io_only UNIV h (hnat_cache_ebl_one dev p e h)"
proof -
  have "io_only (cache_regs p) h (hnat_cache_ebl_one dev p e h)"
    unfolding hnat_cache_ebl_one_def Let_def by (intro hnat_frame) simp_all
  then show ?thesis by (rule io_only_mono) simp
qed

lemma hw_init_io: "io_only UNIV h (snd (hnat_hw_init dev p h))"
proof (cases "p \<ge> ppe_num h")
  case False
  let ?ops = "hash_ops (h_version h) @ flow_ops (h_version h) @ age_ops @ ka_ops @ rate_ops"
  define h1 where "h1 = cr_set_field dev (Ppe p PPE_TB_CFG) TB_ETRY_NUM (of_int (etry_num_cfg h)) h"
  define h4 where "h4 = run_ops dev p (port_ops (h_version h)) (hnat_cache_ebl_one dev p 1 (run_ops dev p ?ops h1))"
  define h5 where "h5 = flow_chk_enable dev p h4"
  have "io_only UNIV h h1" unfolding h1_def by (intro hnat_frame) simp_all
  then have "io_only UNIV h h4"
    unfolding h4_def using io_only_trans run_ops_io cache_ebl_io by meson
  moreover have "io_only UNIV h4 h5" unfolding h5_def by (rule io_only_mono [OF io_only_fe]) simp
  moreover have "io_only UNIV h5 (if per_flow_accounting h then run_ops dev p mib_ops h5 else h5)"
    by (simp add: run_ops_io)
  ultimately have "io_only UNIV h (if per_flow_accounting h then run_ops dev p mib_ops h5 else h5)"
    using io_only_trans by blast
  moreover have "snd (hnat_hw_init dev p h) = (if per_flow_accounting h then run_ops dev p mib_ops h5 else h5)"
    using False by (simp add: hnat_hw_init_def Let_def h1_def h4_def h5_def)
  ultimately show ?thesis by (simp only:)
qed (simp add: hnat_hw_init_def)

lemma etry_num_cfg_io: "io_only R h h' \<Longrightarrow> etry_num_cfg h' = etry_num_cfg h"
  by (auto simp: io_only_def)

lemma hnat_start_spec:
  assumes start: "hnat_start dev dma flow mib counted p h = Some (0, h')"
    and dev: "cache_device dev p" and p: "p < length (foe_table_cpu h)"
  shows "\<exists>cfg \<le> 3. reg_now dev (Ppe p PPE_TB_CFG) h' AND 7 = of_nat cfg \<and> etry_num_cfg h' = int cfg
    \<and> foe_etry_num h' = foe_etry_num h div 2 ^ (3 - cfg) \<and> length (foe_table_cpu h' ! p) = foe_etry_num h'
    \<and> length (foe_table_cpu h') = length (foe_table_cpu h)
    \<and> (\<forall>q. q \<noteq> p \<longrightarrow> foe_table_cpu h' ! q = foe_table_cpu h ! q) \<and> ppe_num h' = ppe_num h"
proof -
  obtain cfg h1 where m: "map_foe_table dma flow p 4 h = (cfg, h1)" by fastforce
  have n: "p < ppe_num h" and cfg: "0 \<le> cfg"
    using start m by (auto simp: hnat_start_def split: if_splits)
  note ms = map_foe_table_spec [OF m cfg p]
  let ?w = "writel (foe_table_dev h1 ! p) (Ppe p PPE_TB_BASE) h1"
  obtain h2 where h2: "clear_table p ?w = Some h2"
    using start m n cfg by (auto simp: hnat_start_def Let_def bind_eq_Some_conv)
  obtain h3 where h3: "h' = snd (hnat_hw_init dev p (h3\<lparr>etry_num_cfg := cfg\<rparr>))" "ppe_num h3 = ppe_num h2"
      "foe_table_cpu h3 = foe_table_cpu h2" "foe_etry_num h3 = foe_etry_num h2"
    using start m n cfg h2
    by (cases mib) (auto simp: hnat_start_def Let_def writel_def split: if_splits)
  obtain t where t: "h2 = ?w\<lparr>foe_table_cpu := (foe_table_cpu ?w)[p := t]\<rparr>" "length t = length (foe_table_cpu ?w ! p)"
    using clear_table_spec [OF h2] ms p by (auto simp: writel_def)
  have len: "length t = foe_etry_num h1" using t(2) ms p by (simp add: writel_def)
  have p3: "p < ppe_num (h3\<lparr>etry_num_cfg := cfg\<rparr>)" using n ms h3(2) t(1) by (simp add: writel_def)
  note io = hw_init_io [of "h3\<lparr>etry_num_cfg := cfg\<rparr>" dev p]
  have "reg_now dev (Ppe p PPE_TB_CFG) h' AND 7 = of_int cfg"
    using hw_init_etry_num [OF dev p3] cfg ms by (simp add: h3(1))
  moreover obtain c where "cfg = int c" using cfg by (rule nonneg_int_cases)
  moreover have "etry_num_cfg h' = cfg" using etry_num_cfg_io [OF io] by (simp add: h3(1))
  moreover have "foe_table_cpu h' = (foe_table_cpu h)[p := t]" "foe_etry_num h' = foe_etry_num h1" "ppe_num h' = ppe_num h"
    using io_only_fields(2-4) [OF io] h3 t(1) ms by (simp_all add: writel_def)
  ultimately show ?thesis
    using ms len p by (intro exI [of _ c]) auto
qed

end
