(* ===== verification/Hnat_Mib.thy ===== *)
theory Hnat_Mib
  imports Hnat_Api Hnat_Start
begin

text \<open>
  Hardware NAT: the packet counters (\<open>read_mib\<close>, \<open>hnat_nf_acct_update\<close>, \<open>hnat_get_count\<close>,
  \<open>get_ppe_mib\<close> of \<open>hnat_debugfs.c\<close> and the two calls of \<open>hnat_api.c\<close> that report them).

  The engine clears a counter when it is read, so the driver adds up what it reads and adds the
  same to the kernel's connection tracking, of which the state here is what the code uses: a
  lookup and the counters of the connections that have some.
\<close>

section \<open>Reading the counters of the engine\<close>

abbreviation (input) ETIMEDOUT :: int where "ETIMEDOUT \<equiv> 110"
abbreviation (input) PPE_MIB_SER_CR :: int where "PPE_MIB_SER_CR \<equiv> 0x13C"
abbreviation (input) PPE_MIB_SER_R0 :: int where "PPE_MIB_SER_R0 \<equiv> 0x140"
abbreviation (input) PPE_MIB_SER_R1 :: int where "PPE_MIB_SER_R1 \<equiv> 0x144"
abbreviation (input) PPE_MIB_SER_R2 :: int where "PPE_MIB_SER_R2 \<equiv> 0x148"
abbreviation (input) PPE_MIB_SER_R3 :: int where "PPE_MIB_SER_R3 \<equiv> 0x14C"
abbreviation (input) BIT_MIB_BUSY :: u32 where "BIT_MIB_BUSY \<equiv> 0x10000"

text \<open>\<open>polls\<close>: how often \<open>readx_poll_timeout_atomic\<close> reads the register within its 10 ms.\<close>

fun mib_poll :: "device \<Rightarrow> nat \<Rightarrow> nat \<Rightarrow> mtk_hnat \<Rightarrow> int \<times> mtk_hnat" where
  "mib_poll dev ppe 0 h = (- ETIMEDOUT, h)" |
  "mib_poll dev ppe (Suc polls) h =
     (let (val, h) = readl dev (Ppe ppe PPE_MIB_SER_CR) h
      in if val AND BIT_MIB_BUSY = 0 then (0, h) else mib_poll dev ppe polls h)"

definition read_mib :: "device \<Rightarrow> nat \<Rightarrow> nat \<Rightarrow> nat \<Rightarrow> mtk_hnat \<Rightarrow> (int + u64 \<times> u64) \<times> mtk_hnat" where
  "read_mib dev polls ppe index h =
     (if ppe \<ge> ppe_num h then (Inl (- EINVAL), h)
      else
        let h = writel (of_nat index OR push_bit 16 1) (Ppe ppe PPE_MIB_SER_CR) h;
            (ret, h) = mib_poll dev ppe polls h
        in if ret < 0 then (Inl ret, h)
           else
             let (r0, h) = readl dev (Ppe ppe PPE_MIB_SER_R0) h;
                 (r1, h) = readl dev (Ppe ppe PPE_MIB_SER_R1) h;
                 (r2, h) = readl dev (Ppe ppe PPE_MIB_SER_R2) h
             in if h_version h = MTK_HNAT_V3 then
                  let (r3, h) = readl dev (Ppe ppe PPE_MIB_SER_R3) h
                  in (Inr (ucast r0 + push_bit 32 (ucast r1), ucast r2 + push_bit 32 (ucast r3)), h)
                else
                  (Inr (ucast r0 + push_bit 32 (ucast (r1 AND 0xffff)),
                        ucast (drop_bit 16 (r1 AND 0xffff0000)) + push_bit 16 (ucast (r2 AND 0xffffff))), h))"

section \<open>Connection tracking\<close>

text \<open>A tuple of the connection tracking; an IPv4 address is the first of four words.\<close>

record nf_tuple =
  n_l3num :: nat
  n_src :: "u32 list"
  n_dst :: "u32 list"
  n_sport :: u16
  n_dport :: u16
  n_protonum :: nat

text \<open>\<open>ct_hash\<close> is \<open>nf_conntrack_find_get\<close>: zone and tuple to a connection and a direction;
  \<open>ct_counter\<close> is \<open>nf_conn_acct_find\<close>: bytes and packets per direction.\<close>

record nf_conntrack =
  ct_hash :: "nat \<Rightarrow> nf_tuple \<Rightarrow> (nat \<times> nat) option"
  ct_counter :: "nat \<Rightarrow> (nat \<Rightarrow> u64 \<times> u64) option"

definition nf_acct_add :: "nat \<times> nat \<Rightarrow> u64 \<Rightarrow> u64 \<Rightarrow> nf_conntrack \<Rightarrow> nf_conntrack" where
  "nf_acct_add k bytes packets ct =
     (case ct_counter ct (fst k) of
        None \<Rightarrow> ct
      | Some counter \<Rightarrow> ct\<lparr>ct_counter := (ct_counter ct)(fst k \<mapsto>
          counter(snd k := (fst (counter (snd k)) + bytes, snd (counter (snd k)) + packets)))\<rparr>)"

definition nf_acct_tuple :: "foe_entry \<Rightarrow> nf_tuple option" where
  "nf_acct_tuple e =
     (let proto = (if getf hnat_bind_info_blk ''udp'' e \<noteq> 0 then 17 else 6); t = pkt_type e
      in if t \<in> {IPV4_HNAT, IPV4_HNAPT, IPV4_DSLITE, IPV4_MAP_T, IPV4_MAP_E} then
           Some \<lparr>n_l3num = 2,
                 n_src = [swab32 (getf hnat_ipv4_hnapt ''sip'' e), 0, 0, 0],
                 n_dst = [swab32 (getf hnat_ipv4_hnapt ''dip'' e), 0, 0, 0],
                 n_sport = swab16 (ucast (getf hnat_ipv4_hnapt ''sport'' e)),
                 n_dport = swab16 (ucast (getf hnat_ipv4_hnapt ''dport'' e)), n_protonum = proto\<rparr>
         else if t \<in> {IPV6_6RD, IPV6_HNAT, IPV6_HNAPT, IPV6_3T_ROUTE, IPV6_5T_ROUTE} then
           Some \<lparr>n_l3num = 10,
                 n_src = map swab32 (addr6 hnat_ipv6_5t_route ''ipv6_sip0'' e),
                 n_dst = map swab32 (addr6 hnat_ipv6_5t_route ''ipv6_dip0'' e),
                 n_sport = swab16 (ucast (getf hnat_ipv6_5t_route ''sport'' e)),
                 n_dport = swab16 (ucast (getf hnat_ipv6_5t_route ''dport'' e)), n_protonum = proto\<rparr>
         else None)"

section \<open>Adding up\<close>

definition acct_at :: "mtk_hnat \<Rightarrow> nat \<Rightarrow> nat \<Rightarrow> hnat_accounting option" where
  "acct_at h p i = (if p < length (acct h) \<and> i < length (acct h ! p) then Some (acct h ! p ! i) else None)"

definition acct_put :: "nat \<Rightarrow> nat \<Rightarrow> hnat_accounting \<Rightarrow> mtk_hnat \<Rightarrow> mtk_hnat" where
  "acct_put p i a h = h\<lparr>acct := (acct h)[p := (acct h ! p)[i := a]]\<rparr>"

definition hnat_nf_acct_update ::
    "nat \<Rightarrow> nat \<Rightarrow> u64 \<Rightarrow> u64 \<Rightarrow> mtk_hnat \<Rightarrow> nf_conntrack \<Rightarrow> (int \<times> nf_conntrack) option" where
  "hnat_nf_acct_update ppe index bytes packets h ct = do {
     e \<leftarrow> foe_at h ppe index;
     a \<leftarrow> acct_at h ppe index;
     Some (case nf_acct_tuple e of
         None \<Rightarrow> (- EINVAL, ct)
       | Some t \<Rightarrow> (case ct_hash ct (a_zone a) t of
             None \<Rightarrow> (0, ct)
           | Some k \<Rightarrow> (0, nf_acct_add k bytes packets ct))) }"

text \<open>Nothing is returned for the null pointer, what was read otherwise (\<open>diff\<close>).\<close>

definition hnat_get_count ::
    "device \<Rightarrow> nat \<Rightarrow> nat \<Rightarrow> nat \<Rightarrow> mtk_hnat \<Rightarrow> nf_conntrack \<Rightarrow> ((u64 \<times> u64) option \<times> mtk_hnat \<times> nf_conntrack) option" where
  "hnat_get_count dev polls ppe index h ct =
     (if ppe \<ge> ppe_num h then Some (None, h, ct)
      else if index \<ge> foe_etry_num h then Some (None, h, ct)
      else if \<not> per_flow_accounting h then Some (None, h, ct)
      else case read_mib dev polls ppe index h of
        (Inl err, h) \<Rightarrow> Some (None, h, ct)
      | (Inr (bytes, packets), h) \<Rightarrow> do {
          a \<leftarrow> acct_at h ppe index;
          let h = acct_put ppe index (a\<lparr>a_bytes := a_bytes a + bytes, a_packets := a_packets a + packets\<rparr>) h;
          (_, ct) \<leftarrow> hnat_nf_acct_update ppe index bytes packets h ct;
          Some (Some (bytes, packets), h, ct) })"

section \<open>Reporting\<close>

definition get_ppe_mib ::
    "device \<Rightarrow> nat \<Rightarrow> nat \<Rightarrow> int \<Rightarrow> mtk_hnat \<Rightarrow> nf_conntrack \<Rightarrow> (int \<times> (u64 \<times> u64) option \<times> mtk_hnat \<times> nf_conntrack) option" where
  "get_ppe_mib dev polls ppe index h ct =
     (if ppe \<ge> ppe_num h then Some (- EINVAL, None, h, ct)
      else if index < 0 \<or> index \<ge> int (foe_etry_num h) then Some (- EINVAL, None, h, ct)
      else do {
        (diff, h, ct) \<leftarrow> hnat_get_count dev polls ppe (nat index) h ct;
        if diff = None then Some (-1, None, h, ct)
        else do {
          e \<leftarrow> foe_at h ppe (nat index);
          if foe_state e \<noteq> BIND then Some (-1, None, h, ct)
          else do {
            a \<leftarrow> acct_at h ppe (nat index);
            Some (0, Some (a_bytes a, a_packets a), h, ct) } } })"

definition is_entry_binding :: "nat \<Rightarrow> int \<Rightarrow> mtk_hnat \<Rightarrow> int option" where
  "is_entry_binding ppe index h =
     (if ppe \<ge> ppe_num h then Some (- EINVAL)
      else if index < 0 \<or> index \<ge> int (foe_etry_num h) then Some (- EINVAL)
      else do { e \<leftarrow> foe_at h ppe (nat index); Some (if foe_state e = BIND then 1 else 0) })"

text \<open>\<open>given\<close>: both pointers for the results are there. What is stored is bytes and packets.\<close>

definition mtk_hnat_get_mib_count_by_index ::
    "device \<Rightarrow> nat \<Rightarrow> u16 \<Rightarrow> u16 \<Rightarrow> bool \<Rightarrow> mtk_hnat \<Rightarrow> nf_conntrack
      \<Rightarrow> (int \<times> (u64 \<times> u64) option \<times> mtk_hnat \<times> nf_conntrack) option" where
  "mtk_hnat_get_mib_count_by_index dev polls ppe hash given h ct =
     (if unat ppe \<ge> ppe_num h \<or> unat hash \<ge> foe_etry_num h then Some (HNAT_FAIL, None, h, ct)
      else if \<not> per_flow_accounting h then Some (HNAT_FAIL, None, h, ct)
      else if \<not> given then Some (HNAT_FAIL, None, h, ct)
      else do {
        e \<leftarrow> foe_at h (unat ppe) (unat hash);
        if \<not> entry_hnat_is_bound e then Some (HNAT_ENTRY_NOT_FOUND, None, h, ct)
        else do {
          (diff, h, ct) \<leftarrow> hnat_get_count dev polls (unat ppe) (unat hash) h ct;
          Some (HNAT_SUCCESS, Some (case diff of None \<Rightarrow> (0, 0) | Some d \<Rightarrow> d), h, ct) } })"

text \<open>The two arrays of the caller, bytes and packets by engine and entry.\<close>

type_synonym counts = "nat \<Rightarrow> nat \<Rightarrow> u64 \<times> u64"

definition count_put :: "nat \<Rightarrow> nat \<Rightarrow> u64 \<times> u64 \<Rightarrow> counts \<Rightarrow> counts" where
  "count_put p i v cnts = cnts(p := (cnts p)(i := v))"

fun all_mib_loop ::
    "device \<Rightarrow> (nat \<Rightarrow> nat \<Rightarrow> nat) \<Rightarrow> (nat \<times> nat) list \<Rightarrow> u32 \<times> counts \<times> mtk_hnat \<times> nf_conntrack
      \<Rightarrow> (u32 \<times> counts \<times> mtk_hnat \<times> nf_conntrack) option" where
  "all_mib_loop dev polls [] s = Some s" |
  "all_mib_loop dev polls ((p, i) # cells) (bind_cnt, cnts, h, ct) = do {
     e \<leftarrow> foe_at h p i;
     if \<not> entry_hnat_is_bound e then all_mib_loop dev polls cells (bind_cnt, cnts, h, ct)
     else do {
       (diff, h, ct) \<leftarrow> hnat_get_count dev (polls p i) p i h ct;
       let cnts = (case diff of None \<Rightarrow> cnts | Some d \<Rightarrow> count_put p i d cnts);
       all_mib_loop dev polls cells (bind_cnt + 1, cnts, h, ct) } }"

definition all_cells :: "mtk_hnat \<Rightarrow> (nat \<times> nat) list" where
  "all_cells h = List.product [0..<ppe_num h] [0..<foe_etry_num h]"

definition mtk_hnat_get_all_mib_counts ::
    "device \<Rightarrow> (nat \<Rightarrow> nat \<Rightarrow> nat) \<Rightarrow> counts option \<Rightarrow> mtk_hnat \<Rightarrow> nf_conntrack
      \<Rightarrow> (u32 \<times> counts option \<times> mtk_hnat \<times> nf_conntrack) option" where
  "mtk_hnat_get_all_mib_counts dev polls out h ct =
     (if \<not> per_flow_accounting h then Some (0, out, h, ct)
      else case out of
        None \<Rightarrow> Some (0, out, h, ct)
      | Some cnts \<Rightarrow> do {
          (n, cnts, h, ct) \<leftarrow> all_mib_loop dev polls (all_cells h) (0, cnts, h, ct);
          Some (n, Some cnts, h, ct) })"

section \<open>What counting leaves alone\<close>

lemma io_only_mib_poll [hnat_frame]: "io_only R h h' \<Longrightarrow> io_only R h (snd (mib_poll dev ppe n h'))"
proof (induction n arbitrary: h')
  case (Suc n)
  then show ?case using io_only_readl [OF Suc.prems] by (simp add: case_prod_unfold Let_def)
qed simp

lemma io_only_read_mib:
  assumes "io_only R h h'" and "Ppe ppe PPE_MIB_SER_CR \<in> R"
  shows "io_only R h (snd (read_mib dev polls ppe index h'))"
  unfolding read_mib_def using assms
  by (auto simp: case_prod_unfold Let_def intro!: hnat_frame)

text \<open>Counting changes nothing but the numbers counted; the zones stay.\<close>

definition same_but_counts :: "mtk_hnat \<Rightarrow> mtk_hnat \<Rightarrow> bool" where
  "same_but_counts h h' \<longleftrightarrow> h'\<lparr>h_io := [], acct := []\<rparr> = h\<lparr>h_io := [], acct := []\<rparr>
     \<and> map (map a_zone) (acct h') = map (map a_zone) (acct h)"

lemma same_but_counts_refl [simp]: "same_but_counts h h"
  by (simp add: same_but_counts_def)

lemma same_but_counts_trans: "same_but_counts a b \<Longrightarrow> same_but_counts b c \<Longrightarrow> same_but_counts a c"
  by (simp add: same_but_counts_def)

lemma same_but_counts_io: "io_only R h h' \<Longrightarrow> same_but_counts h h'"
  by (auto simp: io_only_def same_but_counts_def)

lemma same_but_counts_fields:
  assumes "same_but_counts h h'"
  shows "ppe_num h' = ppe_num h" "foe_etry_num h' = foe_etry_num h" "foe_table_cpu h' = foe_table_cpu h"
    "per_flow_accounting h' = per_flow_accounting h"
proof -
  from assms have eq: "h'\<lparr>h_io := [], acct := []\<rparr> = h\<lparr>h_io := [], acct := []\<rparr>"
    by (simp add: same_but_counts_def)
  from arg_cong [OF eq, of ppe_num] show "ppe_num h' = ppe_num h" by simp
  from arg_cong [OF eq, of foe_etry_num] show "foe_etry_num h' = foe_etry_num h" by simp
  from arg_cong [OF eq, of foe_table_cpu] show "foe_table_cpu h' = foe_table_cpu h" by simp
  from arg_cong [OF eq, of per_flow_accounting] show "per_flow_accounting h' = per_flow_accounting h" by simp
qed

lemma same_but_counts_zone:
  assumes "same_but_counts h h'"
  shows "map_option a_zone (acct_at h' p i) = map_option a_zone (acct_at h p i)"
proof -
  have z: "map (map a_zone) (acct h') = map (map a_zone) (acct h)" using assms by (simp add: same_but_counts_def)
  then have l: "length (acct h') = length (acct h)" by (metis length_map)
  show ?thesis
  proof (cases "p < length (acct h)")
    case True
    then have p: "map a_zone (acct h' ! p) = map a_zone (acct h ! p)" using z l by (metis nth_map)
    then have "length (acct h' ! p) = length (acct h ! p)" by (metis length_map)
    moreover have "i < length (acct h ! p) \<Longrightarrow> a_zone (acct h' ! p ! i) = a_zone (acct h ! p ! i)"
      using p calculation by (metis nth_map)
    ultimately show ?thesis using True l by (simp add: acct_at_def)
  qed (simp add: acct_at_def l)
qed

section \<open>The books\<close>

text \<open>Bytes and packets are added up together, modulo \<open>2 ^ 64\<close>.\<close>

definition padd :: "u64 \<times> u64 \<Rightarrow> u64 \<times> u64 \<Rightarrow> u64 \<times> u64" where
  "padd a b = (fst a + fst b, snd a + snd b)"

lemma padd_zero [simp]: "padd a (0, 0) = a" "padd (0, 0) a = a"
  by (simp_all add: padd_def)

lemma padd_assoc: "padd (padd a b) c = padd a (padd b c)"
  by (simp add: padd_def add.assoc)

definition cadd :: "counts \<Rightarrow> counts \<Rightarrow> counts" where
  "cadd r s = (\<lambda>p i. padd (r p i) (s p i))"

definition no_report :: counts where
  "no_report = (\<lambda>p i. (0, 0))"

text \<open>The total of an entry, the counter of a connection and direction, and the connection and
  direction the entry belongs to.\<close>

definition counted :: "mtk_hnat \<Rightarrow> nat \<Rightarrow> nat \<Rightarrow> u64 \<times> u64" where
  "counted h p i = (case acct_at h p i of None \<Rightarrow> (0, 0) | Some a \<Rightarrow> (a_bytes a, a_packets a))"

definition tracked :: "nf_conntrack \<Rightarrow> nat \<times> nat \<Rightarrow> (u64 \<times> u64) option" where
  "tracked ct k = map_option (\<lambda>counter. counter (snd k)) (ct_counter ct (fst k))"

definition nf_target :: "mtk_hnat \<Rightarrow> nf_conntrack \<Rightarrow> nat \<Rightarrow> nat \<Rightarrow> (nat \<times> nat) option" where
  "nf_target h ct p i = do {
     e \<leftarrow> foe_at h p i; z \<leftarrow> map_option a_zone (acct_at h p i); t \<leftarrow> nf_acct_tuple e; ct_hash ct z t }"

text \<open>What a report owes the connection and direction \<open>k\<close>.\<close>

definition due :: "counts \<Rightarrow> mtk_hnat \<Rightarrow> nf_conntrack \<Rightarrow> nat \<times> nat \<Rightarrow> u64 \<times> u64" where
  "due r h ct k =
     (let cs = {c \<in> set (all_cells h). nf_target h ct (fst c) (snd c) = Some k}
      in (\<Sum>c \<in> cs. fst (r (fst c) (snd c)), \<Sum>c \<in> cs. snd (r (fst c) (snd c))))"

text \<open>The report \<open>r\<close> has been booked: each counted grew by what is reported of its entry, each
  tracked connection by what is reported of its entries, and nothing else changed.\<close>

definition booked :: "counts \<Rightarrow> mtk_hnat \<Rightarrow> nf_conntrack \<Rightarrow> mtk_hnat \<Rightarrow> nf_conntrack \<Rightarrow> bool" where
  "booked r h ct h' ct' \<longleftrightarrow> same_but_counts h h' \<and> ct_hash ct' = ct_hash ct
     \<and> (\<forall>p i. counted h' p i = padd (counted h p i) (r p i))
     \<and> (\<forall>k. tracked ct' k = map_option (\<lambda>c. padd c (due r h ct k)) (tracked ct k))"

lemma nf_target_kept:
  "same_but_counts h h' \<Longrightarrow> ct_hash ct' = ct_hash ct \<Longrightarrow> nf_target h' ct' = nf_target h ct"
  by (intro ext) (simp add: nf_target_def foe_at_def same_but_counts_fields same_but_counts_zone)

lemma due_kept: "same_but_counts h h' \<Longrightarrow> ct_hash ct' = ct_hash ct \<Longrightarrow> due r h' ct' = due r h ct"
  by (intro ext) (simp add: due_def nf_target_kept [of h h' ct' ct] all_cells_def same_but_counts_fields [of h h'])

lemma due_cadd: "due (cadd r s) h ct k = padd (due r h ct k) (due s h ct k)"
  by (simp add: due_def cadd_def padd_def sum.distrib Let_def)

lemma due_none [simp]: "due no_report h ct k = (0, 0)"
  by (simp add: due_def no_report_def)

lemma booked_refl: "booked no_report h ct h ct"
  by (simp add: booked_def option.map_id0 [unfolded id_def]) (simp add: no_report_def)

lemma booked_trans:
  assumes "booked r a x b y" "booked s b y c z"
  shows "booked (cadd r s) a x c z"
proof -
  have k: "same_but_counts a b" "ct_hash y = ct_hash x" using assms(1) by (simp_all add: booked_def)
  have d: "due s b y = due s a x" by (rule due_kept [OF k])
  show ?thesis
    using assms
    by (auto simp: booked_def d due_cadd [unfolded cadd_def] cadd_def padd_assoc option.map_comp o_def intro: same_but_counts_trans)
qed

lemma booked_io:
  assumes "io_only R h h'"
  shows "booked no_report h ct h' ct"
proof -
  have "acct h' = acct h" using assms by (auto simp: io_only_def)
  then show ?thesis
    using booked_refl [of h ct] same_but_counts_io [OF assms] by (simp add: booked_def counted_def acct_at_def)
qed

section \<open>Counting books what it reports\<close>

definition counted_tables :: "mtk_hnat \<Rightarrow> bool" where
  "counted_tables h \<longleftrightarrow> (\<forall>p < ppe_num h. \<forall>i < foe_etry_num h. foe_at h p i \<noteq> None \<and> acct_at h p i \<noteq> None)"

lemma counted_tables_kept:
  assumes "counted_tables h" "same_but_counts h h'"
  shows "counted_tables h'"
proof -
  have "acct_at h' p i \<noteq> None \<longleftrightarrow> acct_at h p i \<noteq> None" for p i
    using same_but_counts_zone [OF assms(2), of p i] by (metis option.map_disc_iff)
  moreover have "foe_at h' p i = foe_at h p i" for p i
    by (simp add: foe_at_def same_but_counts_fields [OF assms(2)])
  ultimately show ?thesis
    using assms(1) by (simp only: counted_tables_def same_but_counts_fields [OF assms(2)] simp_thms)
qed

lemma counted_tables_at:
  assumes "counted_tables h" "p < ppe_num h" "i < foe_etry_num h"
  obtains e a where "foe_at h p i = Some e" "acct_at h p i = Some a"
  using assms unfolding counted_tables_def by blast

lemma due_one:
  assumes "p < ppe_num h" "i < foe_etry_num h"
  shows "due (count_put p i v no_report) h ct k = (if nf_target h ct p i = Some k then v else (0, 0))"
proof -
  define A where "A = {c \<in> set (all_cells h). nf_target h ct (fst c) (snd c) = Some k}"
  have A: "finite A" "(p, i) \<in> A \<longleftrightarrow> nf_target h ct p i = Some k"
    using assms by (auto simp: A_def all_cells_def)
  have r: "count_put p i v no_report (fst c) (snd c) = (if c = (p, i) then v else (0, 0))" for c
    by (cases c) (simp add: count_put_def no_report_def)
  have "(\<Sum>c \<in> A. fst (count_put p i v no_report (fst c) (snd c))) = (if (p, i) \<in> A then fst v else 0)"
    "(\<Sum>c \<in> A. snd (count_put p i v no_report (fst c) (snd c))) = (if (p, i) \<in> A then snd v else 0)"
    using A(1) by (simp_all add: r if_distrib sum.delta cong: if_cong)
  then show ?thesis by (simp add: due_def A(2) Let_def flip: A_def)
qed

lemma tracked_add:
  "tracked (nf_acct_add k b n ct) k' = map_option (\<lambda>c. if k' = k then padd c (b, n) else c) (tracked ct k')"
  by (cases k; cases k'; cases "ct_counter ct (fst k)"; cases "fst k' = fst k")
    (auto simp: tracked_def nf_acct_add_def padd_def option.map_id0 [unfolded id_def] split: option.split)

lemma nf_update_target:
  assumes "foe_at h p i = Some e" "acct_at h p i = Some a"
  shows "\<exists>r. hnat_nf_acct_update p i b n h ct
    = Some (r, case nf_target h ct p i of None \<Rightarrow> ct | Some k \<Rightarrow> nf_acct_add k b n ct)"
  using assms by (auto simp: hnat_nf_acct_update_def nf_target_def split: option.splits)

lemma acct_put_counts:
  fixes b n :: u64
  assumes "acct_at h p i = Some a"
  defines "h' \<equiv> acct_put p i (a\<lparr>a_bytes := a_bytes a + b, a_packets := a_packets a + n\<rparr>) h"
  shows "same_but_counts h h'" "counted h' q j = padd (counted h q j) (count_put p i (b, n) no_report q j)"
proof -
  from assms have i: "p < length (acct h)" "i < length (acct h ! p)" "acct h ! p ! i = a"
    by (auto simp: acct_at_def split: if_splits)
  then have z: "(map a_zone (acct h ! p))[i := a_zone a] = map a_zone (acct h ! p)"
    by (metis list_update_id nth_map)
  show "same_but_counts h h'"
    using i by (simp add: same_but_counts_def h'_def acct_put_def map_update list_update_same_conv z)
  show "counted h' q j = padd (counted h q j) (count_put p i (b, n) no_report q j)"
    using i by (auto simp: counted_def acct_at_def h'_def acct_put_def count_put_def no_report_def padd_def nth_list_update)
qed

lemma booked_put:
  fixes b n :: u64
  assumes "acct_at h p i = Some a" "p < ppe_num h" "i < foe_etry_num h"
  shows "booked (count_put p i (b, n) no_report) h ct
    (acct_put p i (a\<lparr>a_bytes := a_bytes a + b, a_packets := a_packets a + n\<rparr>) h)
    (case nf_target h ct p i of None \<Rightarrow> ct | Some k \<Rightarrow> nf_acct_add k b n ct)"
proof -
  have "ct_hash (nf_acct_add k b n ct) = ct_hash ct" for k
    by (simp add: nf_acct_add_def split: option.split)
  then show ?thesis
    using acct_put_counts [OF assms(1)]
    by (cases "nf_target h ct p i") (auto simp: booked_def due_one [OF assms(2,3)] tracked_add option.map_id0 [unfolded id_def] intro!: option.map_cong)
qed

lemma get_count_booked:
  assumes "counted_tables h"
  shows "wp (hnat_get_count dev polls p i h ct) (\<lambda>(d, h', ct').
    booked (case d of None \<Rightarrow> no_report | Some v \<Rightarrow> count_put p i v no_report) h ct h' ct'
    \<and> (d \<noteq> None \<longrightarrow> per_flow_accounting h))"
proof (cases "p \<ge> ppe_num h \<or> i \<ge> foe_etry_num h \<or> \<not> per_flow_accounting h")
  case False
  obtain x h1 where x: "read_mib dev polls p i h = (x, h1)" by fastforce
  have io: "io_only {Ppe p PPE_MIB_SER_CR} h h1"
    using io_only_read_mib [OF io_only_refl [of "{Ppe p PPE_MIB_SER_CR}" h], of p dev polls i] by (simp add: x)
  show ?thesis
  proof (cases x)
    case (Inl err)
    with False x booked_io [OF io] show ?thesis by (simp add: hnat_get_count_def)
  next
    case (Inr v)
    obtain b n where v: "v = (b, n)" by fastforce
    have n1: "p < ppe_num h1" "i < foe_etry_num h1"
      using False io_only_fields(2,3) [OF io] by simp_all
    obtain e a where ea: "foe_at h1 p i = Some e" "acct_at h1 p i = Some a"
      using counted_tables_at [OF counted_tables_kept [OF assms same_but_counts_io [OF io]] n1] .
    let ?a = "a\<lparr>a_bytes := a_bytes a + b, a_packets := a_packets a + n\<rparr>"
    note bp = booked_put [OF ea(2) n1, of b n ct]
    have k: "same_but_counts h1 (acct_put p i ?a h1)" by (rule acct_put_counts(1) [OF ea(2)])
    have "foe_at (acct_put p i ?a h1) p i = Some e"
      using ea(1) by (auto simp: foe_at_def acct_put_def split: if_splits)
    moreover obtain a' where "acct_at (acct_put p i ?a h1) p i = Some a'"
      using same_but_counts_zone [OF k, of p i] ea(2) by auto
    ultimately obtain r where "hnat_nf_acct_update p i b n (acct_put p i ?a h1) ct
        = Some (r, case nf_target h1 ct p i of None \<Rightarrow> ct | Some k \<Rightarrow> nf_acct_add k b n ct)"
      using nf_update_target nf_target_kept [OF k refl] by metis
    with False x ea(2) booked_trans [OF booked_io [OF io] bp] show ?thesis
      by (simp add: hnat_get_count_def Inr v cadd_def no_report_def)
  qed
qed (auto simp: hnat_get_count_def booked_refl)

text \<open>The call that reads all counters visits each entry once. Where the arrays of the caller were
  clear they hold afterwards what was booked; the count is the number of bound entries.\<close>

definition bound_cell :: "mtk_hnat \<Rightarrow> nat \<times> nat \<Rightarrow> bool" where
  "bound_cell h c \<longleftrightarrow> (case foe_at h (fst c) (snd c) of None \<Rightarrow> False | Some e \<Rightarrow> entry_hnat_is_bound e)"

definition reports :: "(nat \<times> nat) list \<Rightarrow> u32 \<Rightarrow> counts \<Rightarrow> mtk_hnat \<Rightarrow> nf_conntrack
    \<Rightarrow> u32 \<times> counts \<times> mtk_hnat \<times> nf_conntrack \<Rightarrow> bool" where
  "reports cells n cnts h ct = (\<lambda>(n', cnts', h', ct'). n' = n + of_nat (length (filter (bound_cell h) cells))
     \<and> (\<exists>r. booked r h ct h' ct'
       \<and> (\<forall>p i. (p, i) \<notin> set cells \<longrightarrow> r p i = (0, 0) \<and> cnts' p i = cnts p i)
       \<and> (\<forall>p i. cnts p i = (0, 0) \<longrightarrow> r p i = cnts' p i)))"

lemma reports_refl: "reports [] n cnts h ct (n, cnts, h, ct)"
  using booked_refl [of h ct] by (auto simp: reports_def no_report_def intro!: exI [of _ no_report])

lemma cells_kept:
  assumes "same_but_counts h h'"
  shows "bound_cell h' = bound_cell h" "all_cells h' = all_cells h"
  by (simp_all add: fun_eq_iff bound_cell_def foe_at_def all_cells_def same_but_counts_fields [OF assms])

lemma reports_step:
  assumes b: "booked (case d of None \<Rightarrow> no_report | Some v \<Rightarrow> count_put p i v no_report) h ct h1 ct1"
    and r: "reports cells (n + 1) (case d of None \<Rightarrow> cnts | Some v \<Rightarrow> count_put p i v cnts) h1 ct1 s"
    and c: "(p, i) \<notin> set cells" "bound_cell h (p, i)"
  shows "reports ((p, i) # cells) n cnts h ct s"
proof -
  obtain n' cnts' h' ct' where s: "s = (n', cnts', h', ct')" by (metis prod_cases4)
  let ?R = "case d of None \<Rightarrow> no_report | Some v \<Rightarrow> count_put p i v no_report"
  let ?c = "case d of None \<Rightarrow> cnts | Some v \<Rightarrow> count_put p i v cnts"
  have "same_but_counts h h1" using b by (simp add: booked_def)
  note k = cells_kept [OF this]
  have R: "(q, j) \<noteq> (p, i) \<Longrightarrow> ?R q j = (0, 0) \<and> ?c q j = cnts q j"
      "cnts p i = (0, 0) \<Longrightarrow> ?R p i = ?c p i" for q j
    by (cases d; auto simp: no_report_def count_put_def)+
  from r obtain r where r: "booked r h1 ct1 h' ct'" "n' = n + 1 + of_nat (length (filter (bound_cell h) cells))"
      "\<And>p i. (p, i) \<notin> set cells \<Longrightarrow> r p i = (0, 0) \<and> cnts' p i = ?c p i"
      "\<And>p i. ?c p i = (0, 0) \<Longrightarrow> r p i = cnts' p i"
    unfolding reports_def s k by blast
  note pi = r(3) [OF c(1)]
  have out: "(q, j) \<notin> set ((p, i) # cells) \<Longrightarrow> cadd ?R r q j = (0, 0) \<and> cnts' q j = cnts q j" for q j
    using R(1) [of q j] r(3) [of q j] by (simp add: cadd_def)
  have zero: "cnts q j = (0, 0) \<Longrightarrow> cadd ?R r q j = cnts' q j" for q j
    using R(1) [of q j] R(2) r(4) [of q j] pi by (cases "(q, j) = (p, i)") (simp_all add: cadd_def)
  from c(2) have "n' = n + of_nat (length (filter (bound_cell h) ((p, i) # cells)))" by (simp add: r(2))
  with booked_trans [OF b r(1)] out zero show ?thesis unfolding reports_def s by blast
qed

lemma all_loop_reports:
  assumes "counted_tables h" "distinct cells" "set cells \<subseteq> set (all_cells h)"
  shows "wp (all_mib_loop dev polls cells (n, cnts, h, ct)) (reports cells n cnts h ct)"
  using assms
proof (induction cells arbitrary: n cnts h ct)
  case Nil
  show ?case by (simp add: reports_refl)
next
  case (Cons c cells)
  obtain p i where c: "c = (p, i)" by fastforce
  have pi: "p < ppe_num h" "i < foe_etry_num h" "(p, i) \<notin> set cells"
    using Cons.prems(2,3) by (auto simp: c all_cells_def)
  obtain e where e: "foe_at h p i = Some e" using counted_tables_at [OF Cons.prems(1) pi(1,2)] .
  show ?case
  proof (cases "entry_hnat_is_bound e")
    case False
    then have "reports cells n cnts h ct s \<Longrightarrow> reports (c # cells) n cnts h ct s" for s
      using e by (auto simp: reports_def c bound_cell_def)
    with Cons.IH [OF Cons.prems(1), of n cnts ct] Cons.prems e False show ?thesis
      by (auto simp: c elim: wp_mono)
  next
    case True
    have rest: "wp (all_mib_loop dev polls cells (n + 1, case d of None \<Rightarrow> cnts | Some v \<Rightarrow> count_put p i v cnts, h1, ct1))
        (reports (c # cells) n cnts h ct)"
      if b: "booked (case d of None \<Rightarrow> no_report | Some v \<Rightarrow> count_put p i v no_report) h ct h1 ct1" for d h1 ct1
    proof -
      have k: "same_but_counts h h1" using b by (simp add: booked_def)
      have "bound_cell h (p, i)" using e True by (simp add: bound_cell_def)
      note step = reports_step [OF b _ pi(3) this]
      have "distinct cells" "set cells \<subseteq> set (all_cells h1)" using Cons.prems cells_kept [OF k] by simp_all
      note ih = Cons.IH [OF counted_tables_kept [OF Cons.prems(1) k] this]
      show ?thesis unfolding c by (rule wp_mono [OF ih]) (rule step)
    qed
    have "wp (hnat_get_count dev (polls p i) p i h ct) (\<lambda>(d, h1, ct1). wp (all_mib_loop dev polls cells
        (n + 1, case d of None \<Rightarrow> cnts | Some v \<Rightarrow> count_put p i v cnts, h1, ct1)) (reports (c # cells) n cnts h ct))"
      by (rule wp_mono [OF get_count_booked [OF Cons.prems(1)]]) (simp only: case_prod_unfold rest)
    then show ?thesis by (simp add: c e True case_prod_unfold)
  qed
qed

section \<open>Any sequence of calls\<close>

text \<open>A caller that asks for one entry or, with clear arrays, for all of them; the report of a call
  is what it was told, of a sequence of calls the sum.\<close>

datatype count_request = One_Count u16 u16 nat | All_Counts "nat \<Rightarrow> nat \<Rightarrow> nat"

fun count_call :: "device \<Rightarrow> count_request \<Rightarrow> mtk_hnat \<Rightarrow> nf_conntrack \<Rightarrow> (counts \<times> mtk_hnat \<times> nf_conntrack) option" where
  "count_call dev (One_Count ppe hash polls) h ct = do {
     (ret, v, h, ct) \<leftarrow> mtk_hnat_get_mib_count_by_index dev polls ppe hash True h ct;
     Some (case v of None \<Rightarrow> no_report | Some d \<Rightarrow> count_put (unat ppe) (unat hash) d no_report, h, ct) }" |
  "count_call dev (All_Counts polls) h ct = do {
     (n, out, h, ct) \<leftarrow> mtk_hnat_get_all_mib_counts dev polls (Some no_report) h ct;
     Some (case out of None \<Rightarrow> no_report | Some cnts \<Rightarrow> cnts, h, ct) }"

fun count_calls ::
    "device \<Rightarrow> count_request list \<Rightarrow> mtk_hnat \<Rightarrow> nf_conntrack \<Rightarrow> (counts \<times> mtk_hnat \<times> nf_conntrack) option" where
  "count_calls dev [] h ct = Some (no_report, h, ct)" |
  "count_calls dev (c # cs) h ct = do {
     (r, h, ct) \<leftarrow> count_call dev c h ct;
     (s, h, ct) \<leftarrow> count_calls dev cs h ct;
     Some (cadd r s, h, ct) }"

lemma count_put_zero: "count_put p i (0, 0) no_report = no_report"
  by (simp add: count_put_def no_report_def fun_upd_idem)

lemma one_count_booked:
  assumes "counted_tables h"
  shows "wp (count_call dev (One_Count ppe hash polls) h ct) (\<lambda>(r, h', ct'). booked r h ct h' ct')"
proof (cases "unat ppe \<ge> ppe_num h \<or> unat hash \<ge> foe_etry_num h \<or> \<not> per_flow_accounting h")
  case True
  then show ?thesis by (auto simp: mtk_hnat_get_mib_count_by_index_def booked_refl)
next
  case False
  then obtain e where e: "foe_at h (unat ppe) (unat hash) = Some e"
    using counted_tables_at [OF assms, of "unat ppe" "unat hash"] by force
  have "booked (case Some (case d of None \<Rightarrow> (0, 0) | Some v \<Rightarrow> v) of None \<Rightarrow> no_report
      | Some v \<Rightarrow> count_put (unat ppe) (unat hash) v no_report) h ct h1 ct1"
    if "booked (case d of None \<Rightarrow> no_report | Some v \<Rightarrow> count_put (unat ppe) (unat hash) v no_report) h ct h1 ct1" for d h1 ct1
    using that by (cases d) (simp_all add: count_put_zero)
  with wp_mono [OF get_count_booked [OF assms, of dev polls "unat ppe" "unat hash" ct]]
  have "wp (hnat_get_count dev polls (unat ppe) (unat hash) h ct) (\<lambda>(d, h1, ct1).
      booked (count_put (unat ppe) (unat hash) (case d of None \<Rightarrow> (0, 0) | Some v \<Rightarrow> v) no_report) h ct h1 ct1)"
    by (simp add: case_prod_unfold)
  with False e show ?thesis
    by (simp add: mtk_hnat_get_mib_count_by_index_def booked_refl case_prod_unfold)
qed

lemma all_cells_distinct: "distinct (all_cells h)"
  by (simp add: all_cells_def distinct_product)

lemma all_counts_booked:
  assumes "counted_tables h"
  shows "wp (count_call dev (All_Counts polls) h ct) (\<lambda>(r, h', ct'). booked r h ct h' ct')"
proof (cases "per_flow_accounting h")
  case True
  have book: "booked cnts' h ct h' ct'" if rep: "reports (all_cells h) 0 no_report h ct (n', cnts', h', ct')" for n' cnts' h' ct'
  proof -
    from rep obtain r where "booked r h ct h' ct'" "\<And>p i. no_report p i = (0, 0) \<Longrightarrow> r p i = cnts' p i"
      unfolding reports_def case_prod_conv by blast
    moreover from this(2) have "r = cnts'" by (simp add: fun_eq_iff no_report_def)
    ultimately show ?thesis by simp
  qed
  have "wp (all_mib_loop dev polls (all_cells h) (0, no_report, h, ct)) (\<lambda>(n', cnts', h', ct'). booked cnts' h ct h' ct')"
    by (rule wp_mono [OF all_loop_reports [OF assms all_cells_distinct subset_refl]]) (auto intro: book)
  with True show ?thesis by (simp add: mtk_hnat_get_all_mib_counts_def case_prod_unfold)
qed (simp add: mtk_hnat_get_all_mib_counts_def booked_refl)

lemma count_calls_booked:
  "counted_tables h \<Longrightarrow> wp (count_calls dev cs h ct) (\<lambda>(r, h', ct'). booked r h ct h' ct')"
proof (induction cs arbitrary: h ct)
  case (Cons c cs)
  have one: "wp (count_call dev c h ct) (\<lambda>(r, h', ct'). booked r h ct h' ct')"
    using one_count_booked [OF Cons.prems] all_counts_booked [OF Cons.prems] by (cases c) (simp_all only:)
  have "wp (count_calls dev cs h1 ct1) (\<lambda>(s, h', ct'). booked (cadd r s) h ct h' ct')" if b: "booked r h ct h1 ct1" for r h1 ct1
  proof -
    have "same_but_counts h h1" using b by (simp add: booked_def)
    from Cons.IH [OF counted_tables_kept [OF Cons.prems this], of ct1] show ?thesis
      by (rule wp_mono) (auto intro: booked_trans [OF b])
  qed
  then have "wp (count_call dev c h ct) (\<lambda>(r, h1, ct1). wp (count_calls dev cs h1 ct1) (\<lambda>(s, h', ct'). booked (cadd r s) h ct h' ct'))"
    by (intro wp_mono [OF one]) auto
  then show ?case by (simp add: case_prod_unfold)
qed (simp add: booked_refl)

section \<open>What the engine holds\<close>

text \<open>From the history \<open>l\<close> on, as long as registers are only read, the engine shows \<open>b\<close> bytes and
  \<open>n\<close> packets: 64 bits each in the last version, 48 and 40 bits before.\<close>

definition mib_word :: "mtk_hnat_version \<Rightarrow> nat \<Rightarrow> nat \<Rightarrow> nat \<Rightarrow> nat" where
  "mib_word ver b n k =
     (if ver = MTK_HNAT_V3 then [b mod 2 ^ 32, b div 2 ^ 32, n mod 2 ^ 32, n div 2 ^ 32] ! k
      else [b mod 2 ^ 32, b div 2 ^ 32 + 2 ^ 16 * (n mod 2 ^ 16), n div 2 ^ 16, 0] ! k)"

definition mib_fits :: "mtk_hnat_version \<Rightarrow> nat \<Rightarrow> nat \<Rightarrow> bool" where
  "mib_fits ver b n \<longleftrightarrow> (if ver = MTK_HNAT_V3 then b < 2 ^ 64 \<and> n < 2 ^ 64 else b < 2 ^ 48 \<and> n < 2 ^ 40)"

definition mib_latched :: "device \<Rightarrow> nat \<Rightarrow> mtk_hnat_version \<Rightarrow> nat \<Rightarrow> nat \<Rightarrow> io list \<Rightarrow> bool" where
  "mib_latched dev p ver b n l \<longleftrightarrow> (\<forall>rs. \<forall>k < 4.
     dev (map Rd rs @ l) (Ppe p (PPE_MIB_SER_R0 + 4 * int k)) = of_nat (mib_word ver b n k))"

lemma ucast_of_nat: "m < 2 ^ 32 \<Longrightarrow> (ucast (of_nat m :: u32) :: u64) = of_nat m"
  by (simp add: unsigned_of_nat take_bit_nat_eq_self)

lemma join_words:
  assumes "b < 2 ^ 64"
  shows "(ucast (of_nat (b mod 2 ^ 32) :: u32) :: u64) + push_bit 32 (ucast (of_nat (b div 2 ^ 32) :: u32)) = of_nat b"
proof -
  have "b div 2 ^ 32 < 2 ^ 32" using assms by (simp add: div_less_iff_less_mult flip: power_add)
  then have "(ucast (of_nat (b mod 2 ^ 32) :: u32) :: u64) + push_bit 32 (ucast (of_nat (b div 2 ^ 32) :: u32))
      = of_nat (b mod 2 ^ 32 + b div 2 ^ 32 * 2 ^ 32)"
    by (simp only: ucast_of_nat push_bit_eq_mult of_nat_add of_nat_mult of_nat_power of_nat_numeral mod_less_divisor
        zero_less_power zero_less_numeral)
  then show ?thesis by (simp only: mod_mult_div_eq mult.commute)
qed

lemma split_word:
  assumes "b < 2 ^ 48" "n < 2 ^ 40"
  defines "r1 \<equiv> of_nat (b div 2 ^ 32 + 2 ^ 16 * (n mod 2 ^ 16)) :: u32"
  shows "r1 AND 0xffff = of_nat (b div 2 ^ 32)" "drop_bit 16 (r1 AND 0xffff0000) = of_nat (n mod 2 ^ 16)"
    "(of_nat (n div 2 ^ 16) :: u32) AND 0xffffff = of_nat (n div 2 ^ 16)"
proof -
  have eq: "w = of_nat m" if "unat w = m" for w :: u32 and m using that by auto
  have s: "b div 2 ^ 32 < 2 ^ 16" "n div 2 ^ 16 < 2 ^ 24" "n mod 2 ^ 16 < 2 ^ 16"
    using assms(1,2) by (simp_all add: div_less_iff_less_mult flip: power_add)
  have lt: "b div 2 ^ 32 + 2 ^ 16 * (n mod 2 ^ 16) < 2 ^ 32" using s(1,3) by simp
  have r1: "unat r1 = b div 2 ^ 32 + 2 ^ 16 * (n mod 2 ^ 16)" 
    using lt by (simp add: r1_def unsigned_of_nat take_bit_nat_eq_self del: of_nat_add of_nat_mult)
  have m: "0xffff = (mask 16 :: u32)" "0xffffff = (mask 24 :: u32)" by (simp_all add: mask_eq_exp_minus_1)
  have "unat (r1 AND 0xffff) = b div 2 ^ 32"
    using s(1) by (simp add: m unsigned_take_bit_eq r1 take_bit_nat_def flip: take_bit_eq_mask)
  then show "r1 AND 0xffff = of_nat (b div 2 ^ 32)" by (rule eq)
  have k: "0xffff0000 = (push_bit 16 (mask 16) :: u32)" by (simp add: mask_eq_exp_minus_1)
  have d: "drop_bit 16 (r1 AND 0xffff0000) = drop_bit 16 r1"
    unfolding k by (rule bit_word_eqI) (auto simp: bit_simps dest: bit_imp_le_length)
  have "unat (drop_bit 16 r1) = n mod 2 ^ 16"
    using s(1) by (simp add: unat_drop_bit_eq r1 drop_bit_nat_def)
  then show "drop_bit 16 (r1 AND 0xffff0000) = of_nat (n mod 2 ^ 16)" unfolding d by (rule eq)
  have "unat (of_nat (n div 2 ^ 16) :: u32) = n div 2 ^ 16" using s(2) by (simp add: unsigned_of_nat take_bit_nat_eq_self)
  then have "unat ((of_nat (n div 2 ^ 16) :: u32) AND 0xffffff) = n div 2 ^ 16"
    using s(2) by (simp add: m unsigned_take_bit_eq take_bit_nat_eq_self flip: take_bit_eq_mask)
  then show "(of_nat (n div 2 ^ 16) :: u32) AND 0xffffff = of_nat (n div 2 ^ 16)" by (rule eq)
qed

lemma join_packets:
  assumes "n < 2 ^ 40"
  shows "(ucast (of_nat (n mod 2 ^ 16) :: u32) :: u64) + push_bit 16 (ucast (of_nat (n div 2 ^ 16) :: u32)) = of_nat n"
proof -
  have "n div 2 ^ 16 < 2 ^ 24" using assms by (simp add: div_less_iff_less_mult flip: power_add)
  then have lt: "n div 2 ^ 16 < 2 ^ 32" "n mod 2 ^ 16 < 2 ^ 32" by (simp_all add: order.strict_trans1 [OF mod_less_eq_dividend])
  then have "(ucast (of_nat (n mod 2 ^ 16) :: u32) :: u64) + push_bit 16 (ucast (of_nat (n div 2 ^ 16) :: u32))
      = of_nat (n mod 2 ^ 16 + n div 2 ^ 16 * 2 ^ 16)"
    by (simp only: ucast_of_nat push_bit_eq_mult of_nat_add of_nat_mult of_nat_power of_nat_numeral)
  then show ?thesis by (simp only: mod_mult_div_eq mult.commute)
qed

text \<open>The driver reads what the engine holds.\<close>

lemma mib_poll_io:
  assumes "mib_poll dev p polls (writel v (Ppe p PPE_MIB_SER_CR) h) = (ret, h2)"
  shows "io_only {Ppe p PPE_MIB_SER_CR} h h2"
proof -
  have "io_only {Ppe p PPE_MIB_SER_CR} h (snd (mib_poll dev p polls (writel v (Ppe p PPE_MIB_SER_CR) h)))"
    by (intro hnat_frame) simp_all
  then show ?thesis by (simp add: assms)
qed

lemma read_mib_value:
  assumes "p < ppe_num h"
    and "mib_poll dev p polls (writel (of_nat i OR push_bit 16 1) (Ppe p PPE_MIB_SER_CR) h) = (0, h2)"
    and "mib_latched dev p (h_version h) b n (h_io h2)" "mib_fits (h_version h) b n"
  shows "fst (read_mib dev polls p i h) = Inr (of_nat b, of_nat n)"
proof -
  have v: "h_version h2 = h_version h" by (rule io_only_fields(1) [OF mib_poll_io [OF assms(2)]])
  have "dev (map Rd rs @ h_io h2) (Ppe p (PPE_MIB_SER_R0 + 4 * int k)) = of_nat (mib_word (h_version h) b n k)"
    if "k < 4" for rs k
    using assms(3) that by (simp add: mib_latched_def)
  note r = this [of 0 "[]"] this [of 1 "[Ppe p PPE_MIB_SER_R0]"]
    this [of 2 "[Ppe p PPE_MIB_SER_R1, Ppe p PPE_MIB_SER_R0]"]
    this [of 3 "[Ppe p PPE_MIB_SER_R2, Ppe p PPE_MIB_SER_R1, Ppe p PPE_MIB_SER_R0]"]
  show ?thesis
  proof (cases "h_version h = MTK_HNAT_V3")
    case True
    then have "b < 2 ^ 64" "n < 2 ^ 64" using assms(4) by (simp_all add: mib_fits_def)
    with assms(1,2) r True v show ?thesis
      by (simp add: read_mib_def readl_def Let_def mib_word_def join_words [simplified])
  next
    case False
    then have f: "b < 2 ^ 48" "n < 2 ^ 40" using assms(4) by (simp_all add: mib_fits_def)
    then have "b < 2 ^ 64" by simp
    note j = join_words [OF this] join_packets [OF f(2)]
    define r1 :: u32 where "r1 = of_nat (b div 2 ^ 32 + 2 ^ 16 * (n mod 2 ^ 16))"
    note w = split_word [OF f, folded r1_def]
    have "of_nat (mib_word (h_version h) b n 0) = (of_nat (b mod 2 ^ 32) :: u32)"
        "of_nat (mib_word (h_version h) b n 1) = r1"
        "of_nat (mib_word (h_version h) b n 2) = (of_nat (n div 2 ^ 16) :: u32)"
      using False by (simp_all only: mib_word_def if_False r1_def) simp_all
    note r = r(1-3) [unfolded this]
    show ?thesis
      using assms(1,2) r False v
      by (simp add: read_mib_def readl_def Let_def w [simplified] j [simplified])
  qed
qed

lemma mib_poll_result: "fst (mib_poll dev p polls h) = 0 \<or> fst (mib_poll dev p polls h) = - ETIMEDOUT"
  by (induction polls arbitrary: h) (simp_all add: case_prod_unfold Let_def)

text \<open>Asking for the counts of a bound entry: what the engine holds if it answers; success and zero
  for both if it stays busy.\<close>

lemma mib_count_contract:
  assumes "counted_tables h" "per_flow_accounting h" "unat ppe < ppe_num h" "unat hash < foe_etry_num h"
    and "foe_at h (unat ppe) (unat hash) = Some e" "entry_hnat_is_bound e"
    and poll: "mib_poll dev (unat ppe) polls (writel (of_nat (unat hash) OR push_bit 16 1) (Ppe (unat ppe) PPE_MIB_SER_CR) h) = (ret, h2)"
  shows "wp (mtk_hnat_get_mib_count_by_index dev polls ppe hash True h ct) (\<lambda>(r, v, h', ct'). r = HNAT_SUCCESS
    \<and> (\<forall>b n. ret = 0 \<and> mib_latched dev (unat ppe) (h_version h) b n (h_io h2) \<and> mib_fits (h_version h) b n
        \<longrightarrow> v = Some (of_nat b, of_nat n))
    \<and> (ret \<noteq> 0 \<longrightarrow> v = Some (0, 0) \<and> acct h' = acct h \<and> ct' = ct))"
proof -
  let ?p = "unat ppe" and ?i = "unat hash"
  have booked: "wp (hnat_get_count dev polls ?p ?i h ct) (\<lambda>_. True)"
    by (rule wp_mono [OF get_count_booked [OF assms(1)]]) simp
  show ?thesis
  proof (cases "ret = 0")
    case True
    have "wp (hnat_get_count dev polls ?p ?i h ct) (\<lambda>(d, h', ct').
        \<forall>b n. mib_latched dev ?p (h_version h) b n (h_io h2) \<and> mib_fits (h_version h) b n \<longrightarrow> d = Some (of_nat b, of_nat n))"
      using booked read_mib_value [OF assms(3) poll [unfolded True]] assms(2-4)
      by (cases "read_mib dev polls ?p ?i h"; cases "fst (read_mib dev polls ?p ?i h)")
        (auto simp: hnat_get_count_def wp_iff bind_eq_Some_conv Let_def)
    from wp_mono [OF this] show ?thesis
      using assms(2-6) True by (simp add: mtk_hnat_get_mib_count_by_index_def case_prod_unfold)
  next
    case False
    then have "ret < 0" using mib_poll_result [of dev ?p polls] poll by (metis fst_conv neg_less_0_iff_less zero_less_numeral)
    then have "read_mib dev polls ?p ?i h = (Inl ret, h2)" using assms(3) poll by (simp add: read_mib_def Let_def)
    moreover have "acct h2 = acct h" using mib_poll_io [OF poll] by (auto simp: io_only_def)
    ultimately show ?thesis
      using assms(2-6) False by (simp add: mtk_hnat_get_mib_count_by_index_def hnat_get_count_def)
  qed
qed

end
