(* ===== verification/Hnat_Mode.thy ===== *)
theory Hnat_Mode
  imports Hnat_Start
begin

text \<open>
  Hardware NAT: the hash mode (\<open>set_hash_simple_mode\<close> of \<open>hnat_debugfs.c\<close>). Changing it clears the
  tables and what was counted.
\<close>

section \<open>The hash mode\<close>

abbreviation (input) HASH_DBG :: u32 where "HASH_DBG \<equiv> 0x600000"

fun hash_mode_loop :: "device \<Rightarrow> int \<Rightarrow> nat \<Rightarrow> nat \<Rightarrow> mtk_hnat \<Rightarrow> mtk_hnat option" where
  "hash_mode_loop dev mode ppe 0 h = Some h" |
  "hash_mode_loop dev mode ppe (Suc n) h = do {
     h \<leftarrow> clear_table ppe (cr_set_field dev (Ppe ppe PPE_TB_CFG) HASH_DBG (of_int mode) h);
     h \<leftarrow> (if \<not> per_flow_accounting h then Some h
          else if foe_etry_num h \<le> length (acct h ! ppe)
          then Some (h\<lparr>acct := (acct h)[ppe := replicate (foe_etry_num h) no_counts @ drop (foe_etry_num h) (acct h ! ppe)]\<rparr>)
          else None);
     hash_mode_loop dev mode (Suc ppe) n h }"

definition set_hash_simple_mode :: "device \<Rightarrow> bool \<Rightarrow> int \<Rightarrow> mtk_hnat \<Rightarrow> (int \<times> mtk_hnat) option" where
  "set_hash_simple_mode dev l4s mode h =
     (if mode < 0 \<or> mode > 6 then Some (- EINVAL, h)
      else do {
        let h = set_gmac_ppe_fwd dev l4s 1 False h;
        let h = set_gmac_ppe_fwd dev l4s 2 False h;
        let h = set_gmac_ppe_fwd dev l4s 15 False h;
        h \<leftarrow> hash_mode_loop dev mode 0 (ppe_num h) h;
        let h = hnat_cache_ebl dev 1 h;
        let h = set_gmac_ppe_fwd dev l4s 1 True h;
        let h = set_gmac_ppe_fwd dev l4s 2 True h;
        Some (0, set_gmac_ppe_fwd dev l4s 15 True h) })"

section \<open>What the hash mode leaves behind\<close>

lemma clear_table_io: "clear_table p h = Some h' \<Longrightarrow> h_io h' = h_io h \<and> ppe_num h' = ppe_num h"
  by (auto simp: clear_table_def Let_def split: if_splits)

text \<open>The mode is written over two bits of the configuration, and all of its bits are written.\<close>

lemma hash_mode_loop_field:
  assumes "hash_mode_loop dev mode p n h = Some h'" and "holds dev (Ppe q PPE_TB_CFG) (- 1)"
  shows "ppe_num h' = ppe_num h \<and> reg_now dev (Ppe q PPE_TB_CFG) h' =
    (if p \<le> q \<and> q < p + n then (reg_now dev (Ppe q PPE_TB_CFG) h AND NOT HASH_DBG) OR push_bit 21 (of_int mode)
     else reg_now dev (Ppe q PPE_TB_CFG) h)"
  using assms(1)
proof (induction n arbitrary: p h)
  case (Suc n)
  let ?tb = "Ppe q PPE_TB_CFG" and ?s = "cr_set_field dev (Ppe p PPE_TB_CFG) HASH_DBG (of_int mode) h"
  from Suc.prems obtain h1 h2 where h1: "clear_table p ?s = Some h1"
    and h2: "hash_mode_loop dev mode (Suc p) n h2 = Some h'" "h_io h2 = h_io h1" "ppe_num h2 = ppe_num h1"
    by (fastforce simp: bind_eq_Some_conv split: if_splits)
  have r: "reg_now dev ?tb h2 = reg_now dev ?tb ?s" "ppe_num h2 = ppe_num ?s"
    using clear_table_io [OF h1] h2 by (simp_all add: reg_now_def)
  have n: "ppe_num ?s = ppe_num h" by (simp add: cr_set_field_def readl_def writel_def)
  have f: "ffs HASH_DBG = 22" by code_simp
  have "reg_now dev ?tb ?s = (if q = p then (reg_now dev ?tb h AND NOT HASH_DBG) OR push_bit 21 (of_int mode)
      else reg_now dev ?tb h)"
  proof (cases "q = p")
    case True
    with holds_cr_set_field [OF assms(2), of HASH_DBG "of_int mode" h] show ?thesis by (simp add: f)
  next
    case False
    then show ?thesis
      using holds_other [OF assms(2) io_only_cr_set_field [OF io_only_refl], of "Ppe p PPE_TB_CFG" "{Ppe p PPE_TB_CFG}"] by simp
  qed
  with Suc.IH [OF h2(1)] r n show ?case by auto
qed auto

lemma gmac_io: "io_only (range Fe) h (set_gmac_ppe_fwd dev l4s port enable h)"
  unfolding set_gmac_ppe_fwd_def Let_def case_prod_unfold by (intro hnat_frame) simp_all

lemma gmac_keeps:
  assumes "holds dev (Ppe q r) (- 1)"
  shows "reg_now dev (Ppe q r) (set_gmac_ppe_fwd dev l4s port enable h) = reg_now dev (Ppe q r) h"
    "ppe_num (set_gmac_ppe_fwd dev l4s port enable h) = ppe_num h"
proof -
  have "Ppe q r \<notin> range Fe" by auto
  from holds_other [OF assms gmac_io this]
  show "reg_now dev (Ppe q r) (set_gmac_ppe_fwd dev l4s port enable h) = reg_now dev (Ppe q r) h" by simp
qed (rule io_only_fields(2) [OF gmac_io])

lemma cache_loop_keeps:
  assumes "cache_device dev q"
  shows "reg_now dev (Ppe q PPE_TB_CFG) (cache_ebl_loop dev i n e h) = reg_now dev (Ppe q PPE_TB_CFG) h
    \<and> ppe_num (cache_ebl_loop dev i n e h) = ppe_num h"
proof (induction n arbitrary: i h)
  case (Suc n)
  have tb: "holds dev (Ppe q PPE_TB_CFG) (- 1)" using assms by (simp add: cache_device_def)
  have io: "io_only (cache_regs i) h (hnat_cache_ebl_one dev i e h)"
    unfolding hnat_cache_ebl_one_def Let_def by (intro hnat_frame) simp_all
  have "reg_now dev (Ppe q PPE_TB_CFG) (hnat_cache_ebl_one dev i e h) = reg_now dev (Ppe q PPE_TB_CFG) h"
  proof (cases "i = q")
    case True
    then show ?thesis using cache_ebl_keeps [OF assms, of h e] by (simp add: keeps_def)
  next
    case False
    then have "Ppe q PPE_TB_CFG \<notin> cache_regs i" by (auto simp: cache_regs_def)
    from holds_other [OF tb io this] show ?thesis by simp
  qed
  with Suc.IH [of "Suc i" "hnat_cache_ebl_one dev i e h"] io_only_fields(2) [OF io] show ?case by simp
qed simp

lemma hash_mode_field:
  assumes "set_hash_simple_mode dev l4s mode h = Some (0, h')" and dev: "cache_device dev q" and "q < ppe_num h"
  shows "0 \<le> mode \<and> mode \<le> 6 \<and> ppe_num h' = ppe_num h \<and> reg_now dev (Ppe q PPE_TB_CFG) h'
    = (reg_now dev (Ppe q PPE_TB_CFG) h AND NOT HASH_DBG) OR push_bit 21 (of_int mode)"
proof -
  have tb: "holds dev (Ppe q PPE_TB_CFG) (- 1)" using dev by (simp add: cache_device_def)
  define h1 where "h1 = set_gmac_ppe_fwd dev l4s 15 False (set_gmac_ppe_fwd dev l4s 2 False (set_gmac_ppe_fwd dev l4s 1 False h))"
  note g = gmac_keeps [OF tb]
  from assms(1) have m: "0 \<le> mode" "mode \<le> 6" by (auto simp: set_hash_simple_mode_def split: if_splits)
  with assms(1) obtain h2 where l: "hash_mode_loop dev mode 0 (ppe_num h1) h1 = Some h2"
    and h': "h' = set_gmac_ppe_fwd dev l4s 15 True (set_gmac_ppe_fwd dev l4s 2 True
        (set_gmac_ppe_fwd dev l4s 1 True (hnat_cache_ebl dev 1 h2)))"
    by (auto simp: set_hash_simple_mode_def Let_def bind_eq_Some_conv h1_def)
  from hash_mode_loop_field [OF l tb] assms(3) m show ?thesis
    by (simp add: h' h1_def g hnat_cache_ebl_def cache_loop_keeps [OF dev])
qed

text \<open>Three bits of mode in a field of two: once a mode from 4 on was set, its top bit stays.\<close>

lemma hash_mode_sticks:
  assumes one: "set_hash_simple_mode dev l4s a h = Some (0, h1)" and "4 \<le> a"
    and two: "set_hash_simple_mode dev l4s b h1 = Some (0, h2)"
    and dev: "cache_device dev q" and q: "q < ppe_num h"
  shows "drop_bit 21 (reg_now dev (Ppe q PPE_TB_CFG) h2) AND 7 = (of_int b OR 4 :: u32)"
proof -
  note f1 = hash_mode_field [OF one dev q]
  then have q1: "q < ppe_num h1" using q by simp
  note f2 = hash_mode_field [OF two dev q1]
  define x where "x = reg_now dev (Ppe q PPE_TB_CFG) h"
  have m: "HASH_DBG = (push_bit 21 (mask 2) :: u32)" "(7 :: u32) = mask 3"
    by (simp_all add: mask_eq_exp_minus_1)
  define f :: u32 where "f = 4"
  have b4: "bit f n \<longleftrightarrow> n = 2" for n
    using bit_push_bit_iff [of 2 "1 :: u32" n] by (auto simp: f_def bit_1_iff)
  have r: "drop_bit 21 (((y AND NOT HASH_DBG) OR push_bit 21 w)) AND 7 = ((drop_bit 21 y AND f) OR w) AND (7 :: u32)" for y w :: u32
    unfolding m by (rule bit_word_eqI) (auto simp: bit_simps b4 dest: bit_imp_le_length)
  have s: "drop_bit 21 ((x AND NOT HASH_DBG) OR push_bit 21 w) AND f = (drop_bit 21 x OR w) AND f" for w :: u32
    unfolding m by (rule bit_word_eqI) (auto simp: bit_simps b4 dest: bit_imp_le_length)
  have "a \<in> {4, 5, 6}" "b \<in> {0, 1, 2, 3, 4, 5, 6}" using f1 f2 assms(2) by auto
  then have A: "(y OR of_int a) AND f = f" and B: "(f OR of_int b) AND 7 = (of_int b OR 4 :: u32)" for y :: u32
    by (auto simp: f_def bit.conj_disj_distrib2)
  have "reg_now dev (Ppe q PPE_TB_CFG) h1 = (x AND NOT HASH_DBG) OR push_bit 21 (of_int a)"
    using f1 by (simp only: x_def)
  with f2 have "reg_now dev (Ppe q PPE_TB_CFG) h2
      = (((x AND NOT HASH_DBG) OR push_bit 21 (of_int a)) AND NOT HASH_DBG) OR push_bit 21 (of_int b)"
    by (simp only:)
  then show ?thesis by (simp only: r s A B)
qed

end
