(* ===== verification/Hnat_Skb.thy ===== *)
theory Hnat_Skb
  imports Hnat_Api
begin

text \<open>
  Hardware NAT: the updates by packet (\<open>hnat_get_idx_from_skb\<close> and the calls with \<open>_by_skb\<close> of
  \<open>hnat_api.c\<close>). The engine leaves a descriptor in the headroom of each packet it hands to
  the kernel (\<open>struct hnat_desc\<close> of \<open>nf_hnat_mtk.h\<close>); a driver that got a packet back may use it to
  change the flow the packet belongs to.
\<close>

section \<open>The descriptor\<close>

text \<open>A socket buffer: the headroom and the words in it. The fields of the descriptor that cross a
  word are not read here.\<close>

record sk_buff =
  skb_headroom :: nat
  skb_head :: "nat \<Rightarrow> u32"

definition hnat_desc :: layout where
  "hnat_desc =
     [(''entry'', 15), (''filled'', 3), (''crsn'', 5), (''resv1'', 3), (''sport'', 4), (''resv2'', 1), (''alg'', 1),
      (''iface'', 8), (''wdmaid'', 2), (''rxid'', 2), (''wcid'', 16), (''bssid'', 8), (''usr_info'', 16), (''tid'', 4),
      (''is_fixedrate'', 1), (''is_prior'', 1), (''is_sp'', 1), (''hf'', 1), (''amsdu'', 1), (''tops'', 6),
      (''is_decap'', 1), (''cdrt'', 8), (''is_decrypt'', 1), (''resv3'', 3), (''magic_tag_protect'', 16)]"

lemma hnat_desc_pos [foe_fields]:
  "field_pos 0 hnat_desc ''entry'' = (0, 15)" "field_pos 0 hnat_desc ''crsn'' = (18, 5)"
  "field_pos 0 hnat_desc ''sport'' = (26, 4)" "field_pos 0 hnat_desc ''alg'' = (31, 1)"
  "field_pos 0 hnat_desc ''magic_tag_protect'' = (112, 16)"
  by code_simp+

abbreviation (input) HNAT_MAGIC_TAG :: u32 where "HNAT_MAGIC_TAG \<equiv> 0x6789"
abbreviation (input) FOE_INFO_LEN :: nat where "FOE_INFO_LEN \<equiv> 16"
abbreviation (input) HIT_BIND_KEEPALIVE_DUP_OLD_HDR :: u32 where "HIT_BIND_KEEPALIVE_DUP_OLD_HDR \<equiv> 0x15"
abbreviation (input) NR_GMAC2_PORT :: u32 where "NR_GMAC2_PORT \<equiv> 2"
abbreviation (input) NR_GMAC3_PORT :: u32 where "NR_GMAC3_PORT \<equiv> 15"

definition skb_hnat_entry :: "sk_buff \<Rightarrow> u16" where
  "skb_hnat_entry skb = ucast (getf hnat_desc ''entry'' (skb_head skb))"

definition is_magic_tag_valid :: "sk_buff \<Rightarrow> bool" where
  "is_magic_tag_valid skb \<longleftrightarrow> getf hnat_desc ''magic_tag_protect'' (skb_head skb) = HNAT_MAGIC_TAG"

definition IS_SPACE_AVAILABLE_HEAD :: "sk_buff \<Rightarrow> bool" where
  "IS_SPACE_AVAILABLE_HEAD skb \<longleftrightarrow> skb_headroom skb \<ge> FOE_INFO_LEN"

definition skb_hnat_is_hashed :: "mtk_hnat \<Rightarrow> sk_buff \<Rightarrow> bool" where
  "skb_hnat_is_hashed h skb \<longleftrightarrow> skb_hnat_entry skb \<noteq> 0x7fff \<and> unat (skb_hnat_entry skb) < foe_etry_num h"

definition skb_hnat_ppe :: "mtk_hnat \<Rightarrow> sk_buff \<Rightarrow> u16" where
  "skb_hnat_ppe h skb =
     (let sport = getf hnat_desc ''sport'' (skb_head skb)
      in if sport = NR_GMAC3_PORT \<and> ppe_num h \<ge> 3 then 2
         else if sport = NR_GMAC2_PORT \<and> ppe_num h \<ge> 2 then 1 else 0)"

text \<open>Nothing is returned for \<open>HNAT_FAIL\<close>.\<close>

definition hnat_get_idx_from_skb :: "mtk_hnat \<Rightarrow> sk_buff option \<Rightarrow> (u16 \<times> u16) option" where
  "hnat_get_idx_from_skb h skb =
     (case skb of
        None \<Rightarrow> None
      | Some skb \<Rightarrow>
          if getf hnat_desc ''alg'' (skb_head skb) \<noteq> 0 \<or> \<not> is_magic_tag_valid skb \<or> \<not> IS_SPACE_AVAILABLE_HEAD skb
             \<or> \<not> skb_hnat_is_hashed h skb then None
          else if getf hnat_desc ''crsn'' (skb_head skb) \<noteq> HIT_BIND_KEEPALIVE_DUP_OLD_HDR then None
          else Some (skb_hnat_ppe h skb, skb_hnat_entry skb))"

section \<open>The updates\<close>

definition mtk_hnat_update_hqos_by_skb ::
    "device \<Rightarrow> sk_buff option \<Rightarrow> u16 \<Rightarrow> u16 \<Rightarrow> mtk_hnat \<Rightarrow> (int \<times> mtk_hnat) option" where
  "mtk_hnat_update_hqos_by_skb dev skb fqos qid h =
     (case hnat_get_idx_from_skb h skb of
        None \<Rightarrow> Some (HNAT_FAIL, h)
      | Some (ppe, hash) \<Rightarrow> mtk_hnat_update_hqos_by_index dev ppe hash fqos qid h)"

definition mtk_hnat_update_dscp_by_skb ::
    "device \<Rightarrow> sk_buff option \<Rightarrow> int \<Rightarrow> mtk_hnat \<Rightarrow> (int \<times> mtk_hnat) option" where
  "mtk_hnat_update_dscp_by_skb dev skb dscp h =
     (case hnat_get_idx_from_skb h skb of
        None \<Rightarrow> Some (HNAT_FAIL, h)
      | Some (ppe, hash) \<Rightarrow> mtk_hnat_update_dscp_by_index dev ppe hash dscp h)"

definition mtk_hnat_update_vlan_by_skb ::
    "device \<Rightarrow> sk_buff option \<Rightarrow> u16 \<Rightarrow> u16 \<Rightarrow> mtk_hnat \<Rightarrow> (int \<times> mtk_hnat) option" where
  "mtk_hnat_update_vlan_by_skb dev skb vlan1 vlan2 h =
     (case hnat_get_idx_from_skb h skb of
        None \<Rightarrow> Some (HNAT_FAIL, h)
      | Some (ppe, hash) \<Rightarrow> mtk_hnat_update_vlan_by_index dev ppe hash vlan1 vlan2 h)"

definition mtk_hnat_update_pppoe_by_skb ::
    "device \<Rightarrow> sk_buff option \<Rightarrow> u16 \<Rightarrow> u16 \<Rightarrow> mtk_hnat \<Rightarrow> (int \<times> mtk_hnat) option" where
  "mtk_hnat_update_pppoe_by_skb dev skb psn pppoe_id h =
     (case hnat_get_idx_from_skb h skb of
        None \<Rightarrow> Some (HNAT_FAIL, h)
      | Some (ppe, hash) \<Rightarrow> mtk_hnat_update_pppoe_by_index dev ppe hash psn pppoe_id h)"

definition mtk_hnat_update_is_prior_by_skb ::
    "device \<Rightarrow> sk_buff option \<Rightarrow> u16 \<Rightarrow> mtk_hnat \<Rightarrow> (int \<times> mtk_hnat) option" where
  "mtk_hnat_update_is_prior_by_skb dev skb is_prior h =
     (case hnat_get_idx_from_skb h skb of
        None \<Rightarrow> Some (HNAT_FAIL, h)
      | Some (ppe, hash) \<Rightarrow> mtk_hnat_update_is_prior_by_index dev ppe hash is_prior h)"

definition mtk_hnat_update_tid_by_skb ::
    "device \<Rightarrow> sk_buff option \<Rightarrow> u16 \<Rightarrow> mtk_hnat \<Rightarrow> (int \<times> mtk_hnat) option" where
  "mtk_hnat_update_tid_by_skb dev skb tid h =
     (case hnat_get_idx_from_skb h skb of
        None \<Rightarrow> Some (HNAT_FAIL, h)
      | Some (ppe, hash) \<Rightarrow> mtk_hnat_update_tid_by_index dev ppe hash tid h)"

section \<open>A packet changes its own flow only\<close>

text \<open>The six calls as one, as for the calls by index.\<close>

fun skb_update :: "device \<Rightarrow> sk_buff option \<Rightarrow> api_call \<Rightarrow> mtk_hnat \<Rightarrow> (int \<times> mtk_hnat) option" where
  "skb_update dev skb (Hqos fqos qid) h = mtk_hnat_update_hqos_by_skb dev skb fqos qid h" |
  "skb_update dev skb (Dscp d) h = mtk_hnat_update_dscp_by_skb dev skb d h" |
  "skb_update dev skb (Vlan v1 v2) h = mtk_hnat_update_vlan_by_skb dev skb v1 v2 h" |
  "skb_update dev skb (Pppoe psn pid) h = mtk_hnat_update_pppoe_by_skb dev skb psn pid h" |
  "skb_update dev skb (Is_Prior v) h = mtk_hnat_update_is_prior_by_skb dev skb v h" |
  "skb_update dev skb (Tid v) h = mtk_hnat_update_tid_by_skb dev skb v h"

lemma skb_update_index:
  "skb_update dev skb c h = (case hnat_get_idx_from_skb h skb of
     None \<Rightarrow> Some (HNAT_FAIL, h) | Some (ppe, hash) \<Rightarrow> api_update dev ppe hash c h)"
  by (cases c; cases "hnat_get_idx_from_skb h skb")
    (auto simp: mtk_hnat_update_hqos_by_skb_def mtk_hnat_update_dscp_by_skb_def mtk_hnat_update_vlan_by_skb_def
      mtk_hnat_update_pppoe_by_skb_def mtk_hnat_update_is_prior_by_skb_def mtk_hnat_update_tid_by_skb_def)

text \<open>The packet was handed up to keep the flow at \<open>j\<close> of engine \<open>q\<close> alive, and says so in a valid
  descriptor. Packets of the third port (15) belong to the third engine and those of the second (2)
  to the second, if there is one; all others to the first.\<close>

definition keeps_alive :: "mtk_hnat \<Rightarrow> sk_buff \<Rightarrow> nat \<Rightarrow> nat \<Rightarrow> bool" where
  "keeps_alive h skb q j \<longleftrightarrow> getf hnat_desc ''crsn'' (skb_head skb) = HIT_BIND_KEEPALIVE_DUP_OLD_HDR
     \<and> getf hnat_desc ''alg'' (skb_head skb) = 0
     \<and> getf hnat_desc ''magic_tag_protect'' (skb_head skb) = HNAT_MAGIC_TAG
     \<and> j = unat (getf hnat_desc ''entry'' (skb_head skb))
     \<and> q \<le> 2 \<and> (q = 2 \<longleftrightarrow> getf hnat_desc ''sport'' (skb_head skb) = 15 \<and> 3 \<le> ppe_num h)
     \<and> (q = 1 \<longleftrightarrow> getf hnat_desc ''sport'' (skb_head skb) = 2 \<and> 2 \<le> ppe_num h)"

lemma skb_index_in_range:
  assumes "hnat_get_idx_from_skb h skb = Some (ppe, hash)" "0 < ppe_num h"
  shows "unat ppe < ppe_num h" "unat hash < foe_etry_num h" "\<exists>s. skb = Some s \<and> keeps_alive h s (unat ppe) (unat hash)"
proof -
  from assms(1) obtain s where s: "skb = Some s" "ppe = skb_hnat_ppe h s" "hash = skb_hnat_entry s"
      "skb_hnat_is_hashed h s" "is_magic_tag_valid s" "getf hnat_desc ''alg'' (skb_head s) = 0"
      "getf hnat_desc ''crsn'' (skb_head s) = HIT_BIND_KEEPALIVE_DUP_OLD_HDR"
    by (auto simp: hnat_get_idx_from_skb_def split: option.splits if_splits)
  show "unat ppe < ppe_num h" using assms(2) by (auto simp: s(2) skb_hnat_ppe_def Let_def)
  show "unat hash < foe_etry_num h" using s(3,4) by (simp add: skb_hnat_is_hashed_def)
  have "getf hnat_desc ''entry'' e = take_bit 15 (e 0)" for e :: "nat \<Rightarrow> u32"
    by (simp add: getf_def get_bits_def foe_fields)
  then have "unat (skb_hnat_entry s) = unat (getf hnat_desc ''entry'' (skb_head s))"
    by (simp add: skb_hnat_entry_def unsigned_ucast_eq unsigned_take_bit_eq)
  with s show "\<exists>s. skb = Some s \<and> keeps_alive h s (unat ppe) (unat hash)"
    by (auto simp: keeps_alive_def is_magic_tag_valid_def skb_hnat_ppe_def Let_def)
qed

lemma skb_update_own_flow:
  assumes "sized_tables h" "0 < ppe_num h"
  shows "wp (skb_update dev skb c h) (\<lambda>(ret, h'). sized_tables h' \<and> flows_kept h h'
    \<and> (\<forall>q j. foe_at h' q j \<noteq> foe_at h q j \<longrightarrow> ret = HNAT_SUCCESS \<and> (\<exists>s. skb = Some s \<and> keeps_alive h s q j)))"
proof (cases "hnat_get_idx_from_skb h skb")
  case None
  then show ?thesis using assms by (simp add: skb_update_index)
next
  case (Some ix)
  obtain ppe hash where ix: "ix = (ppe, hash)" by fastforce
  note range = skb_index_in_range [OF Some [unfolded ix] assms(2)]
  then have "unat ppe < length (foe_table_cpu h)" "unat hash < length (foe_table_cpu h ! unat ppe)"
    using assms by (auto simp: sized_tables_def)
  from wp_conj [OF call.contract [OF this, of dev c] api_update_keeps_flows [OF assms(1), of dev ppe hash c, unfolded api_update_generic]]
  show ?thesis
    unfolding skb_update_index Some ix option.case case_prod_conv api_update_generic
    by (rule wp_mono) (use range(3) in \<open>auto split: if_splits\<close>)
qed

end
