(* ===== verification/Hnat_Mcast.thy ===== *)
theory Hnat_Mcast
  imports Hnat_Entry
begin

text \<open>
  Hardware NAT: multicast groups (\<open>hnat_mcast.c\<close>). The driver listens to the bridge's MDB messages.
  In the mode \<open>multi\<close> it keeps a table of groups, one hardware register pair for each, with a
  counter for every port; in both modes it keeps a list of groups with a set of ports, from which
  the unicast mode decides whether a flow may be bound.

  The network devices are a parameter, a map from interface indices. The messages are what the
  netlink functions of the kernel find in a socket buffer. \<open>pmcast = None\<close> is the null pointer, and an
  operation that would follow it is \<open>None\<close>.
\<close>

section \<open>The environment\<close>

text \<open>\<open>nd_path_mac_id\<close>: the port of the device that \<open>ndo_flow_offload_check\<close> of the driver names, when
  the driver has that operation.\<close>

record net_device =
  nd_name :: string
  nd_mac_id :: int
  nd_path_mac_id :: "int option"

type_synonym netns = "u32 \<Rightarrow> net_device option"

text \<open>\<open>mdb_addr\<close> are the four words of the address union, as they are in memory.\<close>

record br_mdb_entry =
  mdb_ifindex :: u32
  mdb_vid :: u16
  mdb_addr :: "nat \<Rightarrow> u32"
  mdb_proto :: u16

abbreviation (input) ETH_P_IP :: u16 where "ETH_P_IP \<equiv> 0x0800"
abbreviation (input) ETH_P_IPV6 :: u16 where "ETH_P_IPV6 \<equiv> 0x86DD"
abbreviation (input) RTM_NEWMDB :: u16 where "RTM_NEWMDB \<equiv> 84"
abbreviation (input) RTM_DELMDB :: u16 where "RTM_DELMDB \<equiv> 85"

abbreviation (input) MCAST_TO_GDMA3 :: nat where "MCAST_TO_GDMA3 \<equiv> 0"
abbreviation (input) MCAST_TO_PDMA :: nat where "MCAST_TO_PDMA \<equiv> 1"
abbreviation (input) MCAST_TO_GDMA1 :: nat where "MCAST_TO_GDMA1 \<equiv> 2"
abbreviation (input) MCAST_TO_GDMA2 :: nat where "MCAST_TO_GDMA2 \<equiv> 3"
abbreviation (input) MAX_MCAST_ENTRY :: nat where "MAX_MCAST_ENTRY \<equiv> 64"
abbreviation (input) MAX_MCAST_PORT :: nat where "MAX_MCAST_PORT \<equiv> 5"

definition name_starts :: "string \<Rightarrow> net_device \<Rightarrow> bool" where
  "name_starts p d \<longleftrightarrow> take (length p) (nd_name d) = p"

definition IS_BOND :: "net_device \<Rightarrow> bool" where
  "IS_BOND d \<longleftrightarrow> name_starts ''bond'' d"

definition IS_ETH_GRP :: "mtk_hnat \<Rightarrow> net_device \<Rightarrow> bool" where
  "IS_ETH_GRP h d \<longleftrightarrow> name_starts (h_lan h) d \<or> IS_BOND d \<or> name_starts (h_lan2 h) d \<or> name_starts (h_wan h) d"

definition IS_DSA_LAN :: "net_device \<Rightarrow> bool" where
  "IS_DSA_LAN d \<longleftrightarrow> name_starts ''lan'' d"

text \<open>The port of the packet engine behind a device; \<open>None\<close> is the negative port of an unknown one.\<close>

definition mcast_port :: "mtk_hnat \<Rightarrow> net_device \<Rightarrow> nat option" where
  "mcast_port h d =
     (if IS_ETH_GRP h d \<and> \<not> IS_DSA_LAN d then
        let mac_id = (case nd_path_mac_id d of Some m \<Rightarrow> m | None \<Rightarrow> nd_mac_id d)
        in if mac_id = 0 then Some MCAST_TO_GDMA1
           else if mac_id = 1 then Some MCAST_TO_GDMA2
           else if mac_id = 2 then Some MCAST_TO_GDMA3
           else None
      else Some MCAST_TO_PDMA)"

definition get_mac_from_mdb_entry :: "br_mdb_entry \<Rightarrow> mac_addr option" where
  "get_mac_from_mdb_entry m =
     (if swab16 (mdb_proto m) = ETH_P_IP then
        let ip = swab32 (mdb_addr m 0)
        in Some [0x01, 0x00, 0x5e, ucast (drop_bit 16 ip AND 0x7F), ucast (drop_bit 8 ip AND 0xFF), ucast (ip AND 0xFF)]
      else if swab16 (mdb_proto m) = ETH_P_IPV6 then
        let ip = swab32 (mdb_addr m 3)
        in Some [0x33, 0x33, ucast (drop_bit 24 ip AND 0xFF), ucast (drop_bit 16 ip AND 0xFF),
                 ucast (drop_bit 8 ip AND 0xFF), ucast (ip AND 0xFF)]
      else None)"

section \<open>The table of groups and its registers\<close>

text \<open>The index of the first free entry or of the group, whichever comes first; -1 when there is
  neither.\<close>

fun mcast_entry_loop :: "ppe_mcast_group list \<Rightarrow> u16 \<Rightarrow> mac_addr \<Rightarrow> nat \<Rightarrow> nat \<Rightarrow> int" where
  "mcast_entry_loop t vid dmac i 0 = -1" |
  "mcast_entry_loop t vid dmac i (Suc n) =
     (if g_valid (t ! i) then
        if g_vid (t ! i) = vid \<and> g_dmac (t ! i) = dmac then int i
        else mcast_entry_loop t vid dmac (Suc i) n
      else int i)"

definition mcast_entry_get :: "ppe_mcast_table \<Rightarrow> u16 \<Rightarrow> mac_addr \<Rightarrow> int" where
  "mcast_entry_get P vid dmac = mcast_entry_loop (mtbl P) vid dmac 0 (max_entry P)"

definition mcast_reg_h :: "nat \<Rightarrow> nat \<Rightarrow> reg" where
  "mcast_reg_h ppe i = Ppe ppe (if i < 0x10 then 0x8C + int i * 8 else - 0x200 + 4 + (int i - 0x10) * 8)"

definition mcast_reg_l :: "nat \<Rightarrow> nat \<Rightarrow> reg" where
  "mcast_reg_l ppe i = Ppe ppe (if i < 0x10 then 0x88 + int i * 8 else - 0x200 + (int i - 0x10) * 8)"

definition DMAC_TO_HI16 :: "mac_addr \<Rightarrow> u16" where
  "DMAC_TO_HI16 d = push_bit 8 (ucast (d ! 0)) OR ucast (d ! 1)"

definition DMAC_TO_LO32 :: "mac_addr \<Rightarrow> u32" where
  "DMAC_TO_LO32 d = push_bit 24 (ucast (d ! 2)) OR push_bit 16 (ucast (d ! 3))
     OR push_bit 8 (ucast (d ! 4)) OR ucast (d ! 5)"

text \<open>\<open>struct ppe_mcast_h\<close> with the two fields that are set: five bits of ports from bit 15, two bits
  of address prefix from bit 20.\<close>

definition ppe_mcast_h :: "u8 \<Rightarrow> u32 \<Rightarrow> u32" where
  "ppe_mcast_h mc_px_en mc_mpre_sel =
     push_bit 15 (take_bit 5 (ucast mc_px_en)) OR push_bit 20 (take_bit 2 mc_mpre_sel)"

definition set_hnat_mtbl :: "ppe_mcast_group \<Rightarrow> nat \<Rightarrow> nat \<Rightarrow> mtk_hnat \<Rightarrow> int \<times> mtk_hnat" where
  "set_hnat_mtbl g ppe i h =
     (if ppe \<ge> ppe_num h then (- EINVAL, h)
      else if DMAC_TO_HI16 (g_dmac g) \<noteq> 0x0100 \<and> DMAC_TO_HI16 (g_dmac g) \<noteq> 0x3333 then (- EINVAL, h)
      else
        let sel = (if DMAC_TO_HI16 (g_dmac g) = 0x0100 then 0 else 1);
            h = writel (ppe_mcast_h (g_mc_port g) sel) (mcast_reg_h ppe i) h
        in (0, writel (DMAC_TO_LO32 (g_dmac g)) (mcast_reg_l ppe i) h))"

definition clr_hnat_mtbl :: "nat \<Rightarrow> nat \<Rightarrow> mtk_hnat \<Rightarrow> mtk_hnat" where
  "clr_hnat_mtbl ppe i h =
     (if ppe \<ge> ppe_num h then h
      else writel 0 (mcast_reg_l ppe i) (writel 0 (mcast_reg_h ppe i) h))"

fun set_mtbl_loop :: "ppe_mcast_group \<Rightarrow> nat \<Rightarrow> nat \<Rightarrow> nat \<Rightarrow> mtk_hnat \<Rightarrow> mtk_hnat" where
  "set_mtbl_loop g i ppe 0 h = h" |
  "set_mtbl_loop g i ppe (Suc n) h = set_mtbl_loop g i (Suc ppe) n (snd (set_hnat_mtbl g ppe i h))"

fun clr_mtbl_loop :: "nat \<Rightarrow> nat \<Rightarrow> nat \<Rightarrow> mtk_hnat \<Rightarrow> mtk_hnat" where
  "clr_mtbl_loop i ppe 0 h = h" |
  "clr_mtbl_loop i ppe (Suc n) h = clr_mtbl_loop i (Suc ppe) n (clr_hnat_mtbl ppe i h)"

fun ports_of_loop :: "u8 list \<Rightarrow> nat \<Rightarrow> u8 \<Rightarrow> u8" where
  "ports_of_loop [] i m = m" |
  "ports_of_loop (c # cs) i m = ports_of_loop cs (Suc i) (if c > 0 then m OR push_bit i 1 else m)"

definition empty_group :: ppe_mcast_group where
  "empty_group = \<lparr>g_vid = 0, g_dmac = replicate 6 0, g_if_num = replicate MAX_MCAST_PORT 0, g_mc_port = 0, g_valid = False\<rparr>"

text \<open>The second half of \<open>hnat_mcast_table_update\<close>: the ports of a valid group are computed anew, and
  the registers of all engines set or cleared.\<close>

definition mcast_group_write :: "nat \<Rightarrow> ppe_mcast_group \<Rightarrow> mtk_hnat \<Rightarrow> ppe_mcast_group \<times> mtk_hnat" where
  "mcast_group_write i g h =
     (if g_valid g then
        let g = g\<lparr>g_mc_port := ports_of_loop (g_if_num g) 0 0\<rparr>
        in if g_mc_port g = 0 then (empty_group, clr_mtbl_loop i 0 (ppe_num h) h)
           else (g, set_mtbl_loop g i 0 (ppe_num h) h)
      else (g, h))"

definition put_group :: "nat \<Rightarrow> ppe_mcast_group \<Rightarrow> mtk_hnat \<Rightarrow> mtk_hnat" where
  "put_group i g h = h\<lparr>pmcast := map_option (\<lambda>P. P\<lparr>mtbl := (mtbl P)[i := g]\<rparr>) (pmcast h)\<rparr>"

definition hnat_mcast_table_update ::
    "netns \<Rightarrow> u16 \<Rightarrow> br_mdb_entry \<Rightarrow> mtk_hnat \<Rightarrow> (int \<times> mtk_hnat) option" where
  "hnat_mcast_table_update net ty m h =
     (case net (mdb_ifindex m) of None \<Rightarrow> Some (- ENODEV, h) | Some d \<Rightarrow>
      case get_mac_from_mdb_entry m of None \<Rightarrow> Some (- EINVAL, h) | Some dmac \<Rightarrow>
      case pmcast h of None \<Rightarrow> None | Some P \<Rightarrow>
        let i = mcast_entry_get P (mdb_vid m) dmac in
        if i = -1 then Some (-1, h)
        else
          let i = nat i;
              g = (mtbl P ! i)\<lparr>g_dmac := dmac\<rparr>;
              h = put_group i g h
          in case mcast_port h d of None \<Rightarrow> Some (-1, h) | Some port \<Rightarrow>
             if ty \<noteq> RTM_NEWMDB \<and> ty \<noteq> RTM_DELMDB then Some (-1, h)
             else
               let g = (if ty = RTM_NEWMDB
                        then g\<lparr>g_if_num := (g_if_num g)[port := g_if_num g ! port + 1], g_vid := mdb_vid m, g_valid := True\<rparr>
                        else if g_valid g then g\<lparr>g_if_num := (g_if_num g)[port := g_if_num g ! port - 1]\<rparr>
                        else g);
                   (g, h) = mcast_group_write i g h
               in Some (0, put_group i g h))"

section \<open>The list of groups\<close>

fun mcast_list_find :: "ppe_mcast_list list \<Rightarrow> mac_addr \<Rightarrow> u16 \<Rightarrow> ppe_mcast_list option" where
  "mcast_list_find [] dmac vid = None" |
  "mcast_list_find (e # l) dmac vid =
     (if l_dmac e = dmac \<and> l_vid e = vid then Some e else mcast_list_find l dmac vid)"

definition hnat_mcast_get_mc_port :: "mac_addr \<Rightarrow> u16 \<Rightarrow> mtk_hnat \<Rightarrow> u8 option" where
  "hnat_mcast_get_mc_port dmac vid h =
     (case pmcast h of None \<Rightarrow> None | Some P \<Rightarrow> map_option l_mc_port (mcast_list_find (mlist P) dmac vid))"

definition hnat_mcast_list_find :: "mac_addr \<Rightarrow> u16 \<Rightarrow> mtk_hnat \<Rightarrow> ppe_mcast_list option" where
  "hnat_mcast_list_find dmac vid h =
     (case pmcast h of None \<Rightarrow> None | Some P \<Rightarrow> mcast_list_find (mlist P) dmac vid)"

text \<open>The node that was found, through its pointer: changed in place or taken out.\<close>

fun list_replace :: "ppe_mcast_list list \<Rightarrow> mac_addr \<Rightarrow> u16 \<Rightarrow> u8 \<Rightarrow> ppe_mcast_list list" where
  "list_replace [] dmac vid p = []" |
  "list_replace (e # l) dmac vid p =
     (if l_dmac e = dmac \<and> l_vid e = vid then e\<lparr>l_mc_port := p\<rparr> # l else e # list_replace l dmac vid p)"

fun list_del :: "ppe_mcast_list list \<Rightarrow> mac_addr \<Rightarrow> u16 \<Rightarrow> ppe_mcast_list list" where
  "list_del [] dmac vid = []" |
  "list_del (e # l) dmac vid =
     (if l_dmac e = dmac \<and> l_vid e = vid then l else e # list_del l dmac vid)"

definition put_list :: "ppe_mcast_list list \<Rightarrow> mtk_hnat \<Rightarrow> mtk_hnat" where
  "put_list l h = h\<lparr>pmcast := map_option (\<lambda>P. P\<lparr>mlist := l\<rparr>) (pmcast h)\<rparr>"

definition hnat_mcast_list_del_all :: "mtk_hnat \<Rightarrow> mtk_hnat" where
  "hnat_mcast_list_del_all h = (case pmcast h of None \<Rightarrow> h | Some P \<Rightarrow> put_list [] h)"

definition IS_MCAST_PORT_GDM :: "u8 \<Rightarrow> bool" where
  "IS_MCAST_PORT_GDM p \<longleftrightarrow> p = push_bit MCAST_TO_GDMA1 1 \<or> p = push_bit MCAST_TO_GDMA2 1 \<or> p = push_bit MCAST_TO_GDMA3 1"

text \<open>A packet: its destination and its VLAN tag, when it has one.\<close>

definition hnat_is_mcast_uni :: "(mac_addr \<times> u16 option) option \<Rightarrow> mtk_hnat \<Rightarrow> bool" where
  "hnat_is_mcast_uni skb h =
     (case skb of None \<Rightarrow> False | Some (h_dest, tci) \<Rightarrow>
        let vid = (case tci of Some t \<Rightarrow> t AND 0x0fff | None \<Rightarrow> 0)
        in case hnat_mcast_get_mc_port h_dest vid h of None \<Rightarrow> False | Some p \<Rightarrow> IS_MCAST_PORT_GDM p)"

text \<open>\<open>alloc\<close>: whether \<open>kmalloc\<close> gives a node.\<close>

definition hnat_mcast_list_update ::
    "device \<Rightarrow> netns \<Rightarrow> bool \<Rightarrow> u16 \<Rightarrow> br_mdb_entry \<Rightarrow> mtk_hnat \<Rightarrow> (int \<times> mtk_hnat) option" where
  "hnat_mcast_list_update dev net alloc ty m h =
     (case net (mdb_ifindex m) of None \<Rightarrow> Some (- ENODEV, h) | Some d \<Rightarrow>
      case get_mac_from_mdb_entry m of None \<Rightarrow> Some (- EINVAL, h) | Some dmac \<Rightarrow>
      case mcast_port h d of None \<Rightarrow> Some (-1, h) | Some port \<Rightarrow>
      case pmcast h of None \<Rightarrow> None | Some P \<Rightarrow>
        let vid = mdb_vid m;
            finish = (\<lambda>h. do { (_, h) \<leftarrow> entry_delete_by_mac dev (Some dmac) h; Some (0, h) })
        in if ty = RTM_NEWMDB then
             (case hnat_mcast_list_find dmac vid h of
                None \<Rightarrow> if alloc then finish (put_list (mlist P @ [\<lparr>l_vid = vid, l_dmac = dmac, l_mc_port = push_bit port 1\<rparr>]) h)
                        else Some (- ENOMEM, h)
              | Some e \<Rightarrow> finish (put_list (list_replace (mlist P) dmac vid (l_mc_port e OR push_bit port 1)) h))
           else if ty = RTM_DELMDB then
             (case hnat_mcast_list_find dmac vid h of
                None \<Rightarrow> finish h
              | Some e \<Rightarrow>
                  let p = l_mc_port e AND NOT (push_bit port 1)
                  in if p = 0 then finish (put_list (list_del (mlist P) dmac vid) h)
                     else finish (put_list (list_replace (mlist P) dmac vid p) h))
           else Some (-1, h))"

section \<open>Messages\<close>

text \<open>A buffer of the queue: not a netlink message, without the MDB attribute, without an entry in
  it, with an entry but no information, or complete.\<close>

datatype mdb_msg = Msg_Bad | No_Mdb | No_Mdb_Entry | No_Entry_Info | Mdb u16 br_mdb_entry bool

fun hnat_mcast_nlmsg_handler :: "device \<Rightarrow> netns \<Rightarrow> mdb_msg list \<Rightarrow> mtk_hnat \<Rightarrow> mtk_hnat option" where
  "hnat_mcast_nlmsg_handler dev net [] h = Some h" |
  "hnat_mcast_nlmsg_handler dev net (Mdb ty m alloc # q) h = do {
     h \<leftarrow> (if h_mcast h \<and> mcast_multi h then map_option snd (hnat_mcast_table_update net ty m h) else Some h);
     (_, h) \<leftarrow> hnat_mcast_list_update dev net alloc ty m h;
     hnat_mcast_nlmsg_handler dev net q h }" |
  "hnat_mcast_nlmsg_handler dev net (_ # q) h = hnat_mcast_nlmsg_handler dev net q h"

section \<open>Ageing, enabling and disabling\<close>

definition mcast_too_old :: "foe_entry \<Rightarrow> u16 \<Rightarrow> bool" where
  "mcast_too_old e foe_ts =
     (let e_ts = int (unat (getf hnat_ipv4_hnapt ''m_timestamp'' e AND 0xffff));
          ts = int (unat foe_ts);
          ts = (if ts - e_ts > 0x3000 then int (unat (NOT foe_ts)) else ts)
      in \<bar>ts - e_ts\<bar> > 20)"

fun check_timestamp_loop :: "device \<Rightarrow> nat \<Rightarrow> nat \<Rightarrow> nat \<Rightarrow> mtk_hnat \<Rightarrow> mtk_hnat option" where
  "check_timestamp_loop dev p i 0 h = Some h" |
  "check_timestamp_loop dev p i (Suc n) h = do {
     e \<leftarrow> foe_at h p i;
     h \<leftarrow> (if getf hnat_bind_info_blk ''sta'' e = 1 then
             let (foe_ts, h) = foe_timestamp dev True h
             in if mcast_too_old e foe_ts then map_option snd (entry_delete dev p (int i) h) else Some h
           else Some h);
     check_timestamp_loop dev p (Suc i) n h }"

fun check_timestamp_ppes :: "device \<Rightarrow> nat \<Rightarrow> nat \<Rightarrow> mtk_hnat \<Rightarrow> mtk_hnat option" where
  "check_timestamp_ppes dev p 0 h = Some h" |
  "check_timestamp_ppes dev p (Suc n) h = do {
     h \<leftarrow> check_timestamp_loop dev p 0 (foe_etry_num h) h;
     check_timestamp_ppes dev (Suc p) n h }"

definition hnat_mcast_check_timestamp :: "device \<Rightarrow> mtk_hnat \<Rightarrow> mtk_hnat option" where
  "hnat_mcast_check_timestamp dev h = check_timestamp_ppes dev 0 (ppe_num h) h"

abbreviation (input) MCAST_TB_EN :: u32 where "MCAST_TB_EN \<equiv> 0x80"

definition mcast_hw_enable :: "device \<Rightarrow> nat \<Rightarrow> mtk_hnat \<Rightarrow> mtk_hnat" where
  "mcast_hw_enable dev ppe h =
     (let h = cr_set_field dev (Ppe ppe PPE_GLO_CFG) MCAST_TB_EN 1 h;
          h = cr_set_field dev (Ppe ppe PPE_MCAST_PPSE) 0xf 0 h;
          h = cr_set_field dev (Ppe ppe PPE_MCAST_PPSE) 0xf0 1 h;
          h = cr_set_field dev (Ppe ppe PPE_MCAST_PPSE) 0xf00 2 h;
          h = cr_set_field dev (Ppe ppe PPE_MCAST_PPSE) 0xf000 5 h
      in cr_set_field dev (Ppe ppe PPE_MCAST_PPSE) 0xf0000 15 h)"

text \<open>\<open>mem\<close>, \<open>queue\<close>, \<open>sock\<close>: whether the allocation, the work queue and the netlink socket were had.
  The timer that the third hardware version starts has no part in the state.\<close>

definition hnat_mcast_enable :: "device \<Rightarrow> bool \<Rightarrow> bool \<Rightarrow> bool \<Rightarrow> nat \<Rightarrow> mtk_hnat \<Rightarrow> int \<times> mtk_hnat" where
  "hnat_mcast_enable dev mem queue sock ppe h =
     (if ppe \<ge> ppe_num h then (- EINVAL, h)
      else case pmcast h of
        Some P \<Rightarrow> (0, mcast_hw_enable dev ppe h)
      | None \<Rightarrow>
          if \<not> mem \<or> \<not> queue \<or> \<not> sock then (-1, h)
          else
            let P = \<lparr>mtbl = replicate MAX_MCAST_ENTRY empty_group, mlist = [],
                     max_entry = (if h_version h = MTK_HNAT_V1_1 then 0x10 else MAX_MCAST_ENTRY)\<rparr>
            in (0, mcast_hw_enable dev ppe (h\<lparr>pmcast := Some P\<rparr>)))"

fun mcast_disable_loop :: "device \<Rightarrow> nat \<Rightarrow> nat \<Rightarrow> mtk_hnat \<Rightarrow> mtk_hnat" where
  "mcast_disable_loop dev p 0 h = h" |
  "mcast_disable_loop dev p (Suc n) h =
     mcast_disable_loop dev (Suc p) n (cr_set_field dev (Ppe p PPE_GLO_CFG) MCAST_TB_EN 0 h)"

text \<open>\<open>pending\<close>: the messages that \<open>flush_work\<close> waits for.\<close>

definition hnat_mcast_disable :: "device \<Rightarrow> netns \<Rightarrow> mdb_msg list \<Rightarrow> mtk_hnat \<Rightarrow> (int \<times> mtk_hnat) option" where
  "hnat_mcast_disable dev net pending h =
     (case pmcast h of None \<Rightarrow> Some (- EINVAL, h) | Some P \<Rightarrow> do {
        let h = mcast_disable_loop dev 0 (ppe_num h) h;
        h \<leftarrow> hnat_mcast_nlmsg_handler dev net pending h;
        let h = hnat_mcast_list_del_all h;
        Some (0, h\<lparr>pmcast := None\<rparr>) })"

text \<open>Changing the mode through the debug file; all bound flows are dropped first.\<close>

fun foe_clear_loop :: "device \<Rightarrow> nat \<Rightarrow> nat \<Rightarrow> mtk_hnat \<Rightarrow> mtk_hnat option" where
  "foe_clear_loop dev p 0 h = Some h" |
  "foe_clear_loop dev p (Suc n) h = do {
     let h = cr_set_field dev (Ppe p PPE_TB_CFG) 0x30 2 h;
     (cnt, h) \<leftarrow> delete_match_loop dev (\<lambda>_. True) p 0 (foe_etry_num h) 0 h;
     let h = (if cnt > 0 then hnat_cache_clr dev p h else h);
     foe_clear_loop dev (Suc p) n h }"

definition foe_clear_all_bind_entries :: "device \<Rightarrow> mtk_hnat \<Rightarrow> mtk_hnat option" where
  "foe_clear_all_bind_entries dev h = foe_clear_loop dev 0 (ppe_num h) h"

definition mcast_mode_set :: "device \<Rightarrow> bool \<Rightarrow> mtk_hnat \<Rightarrow> mtk_hnat option" where
  "mcast_mode_set dev multi h =
     (if mcast_multi h \<noteq> multi
      then do { h \<leftarrow> foe_clear_all_bind_entries dev h; Some (h\<lparr>mcast_multi := multi\<rparr>) }
      else Some h)"

end
