(* ===== verification/Hnat_Mcast_List.thy ===== *)
theory Hnat_Mcast_List
  imports Hnat_Mcast
begin

text \<open>
  Hardware NAT: what the list of multicast groups means. The list is a map from a group (its MAC
  address and VLAN) to the set of its ports, and handling MDB messages is joining and leaving.
  The locale \<open>message_service\<close> is the contract of a message handler with an abstract state; the
  handler of the driver is an instance.
\<close>

section \<open>Message handlers\<close>

locale message_service =
  fixes handle :: "'m list \<Rightarrow> 's \<Rightarrow> 's option" and spec :: "'m \<Rightarrow> 'a \<Rightarrow> 'a"
    and inv :: "'s \<Rightarrow> bool" and abstr :: "'s \<Rightarrow> 'a"
  assumes handle_Nil: "handle [] s = Some s"
    and handle_Cons: "handle (m # ms) s = Option.bind (handle [m] s) (handle ms)"
    and step: "inv s \<Longrightarrow> wp (handle [m] s) (\<lambda>t. inv t \<and> abstr t = spec m (abstr s))"
begin

lemma service: "inv s \<Longrightarrow> wp (handle ms s) (\<lambda>t. inv t \<and> abstr t = fold spec ms (abstr s))"
proof (induction ms arbitrary: s)
  case Nil
  then show ?case by (simp add: handle_Nil)
next
  case (Cons m ms)
  have "wp (handle [m] s) (\<lambda>t. wp (handle ms t) (\<lambda>u. inv u \<and> abstr u = fold spec (m # ms) (abstr s)))"
  proof (rule wp_mono [OF step [OF Cons.prems]])
    fix t
    assume "inv t \<and> abstr t = spec m (abstr s)"
    then show "wp (handle ms t) (\<lambda>u. inv u \<and> abstr u = fold spec (m # ms) (abstr s))"
      using Cons.IH [of t] by simp
  qed
  then show ?case by (subst handle_Cons) simp
qed

lemma service_append:
  "handle (ms @ ns) s = Option.bind (handle ms s) (handle ns)"
proof (induction ms arbitrary: s)
  case (Cons m ms)
  have "handle (ms @ ns) = (\<lambda>t. Option.bind (handle ms t) (handle ns))"
    by (rule ext) (rule Cons.IH)
  then have "handle (m # ms @ ns) s = Option.bind (handle [m] s) (\<lambda>t. Option.bind (handle ms t) (handle ns))"
    by (subst handle_Cons) simp
  also have "\<dots> = Option.bind (handle (m # ms) s) (handle ns)"
    by (subst handle_Cons [of m ms]) (simp add: Option.bind_assoc)
  finally show ?case by simp
qed (simp add: handle_Nil)

end

section \<open>The list as a map\<close>

type_synonym group_key = "mac_addr \<times> u16"

definition port_set :: "u8 \<Rightarrow> nat set" where
  "port_set p = {i. bit p i}"

definition list_groups :: "ppe_mcast_list list \<Rightarrow> group_key \<Rightarrow> nat set" where
  "list_groups l k = (case mcast_list_find l (fst k) (snd k) of None \<Rightarrow> {} | Some e \<Rightarrow> port_set (l_mc_port e))"

definition list_ok :: "ppe_mcast_list list \<Rightarrow> bool" where
  "list_ok l \<longleftrightarrow> distinct (map (\<lambda>e. (l_dmac e, l_vid e)) l) \<and> (\<forall>e \<in> set l. l_mc_port e \<noteq> 0)"

lemma port_set_empty [simp]: "port_set p = {} \<longleftrightarrow> p = 0"
  by (auto simp: port_set_def intro: bit_word_eqI)

lemma port_set_inject: "port_set p = port_set q \<longleftrightarrow> p = q"
  by (auto simp: port_set_def set_eq_iff intro: bit_word_eqI)

lemma port_set_single: "i < 8 \<Longrightarrow> port_set (push_bit i 1) = {i}"
  by (auto simp: port_set_def bit_simps)

lemma port_set_pow [simp]: "i < 8 \<Longrightarrow> port_set (2 ^ i) = {i}"
  using port_set_single by simp

lemma port_set_or: "port_set (p OR q) = port_set p \<union> port_set q"
  by (auto simp: port_set_def bit_simps)

lemma port_set_and_not: "port_set (p AND NOT q) = port_set p - port_set q"
  by (auto simp: port_set_def bit_simps dest: bit_imp_le_length)

lemma find_append:
  "mcast_list_find (l @ [e]) d v = (case mcast_list_find l d v of Some x \<Rightarrow> Some x
     | None \<Rightarrow> if l_dmac e = d \<and> l_vid e = v then Some e else None)"
  by (induction l) auto

lemma find_replace:
  "mcast_list_find (list_replace l d v p) d' v' = (if d' = d \<and> v' = v
     then map_option (\<lambda>e. e\<lparr>l_mc_port := p\<rparr>) (mcast_list_find l d v) else mcast_list_find l d' v')"
  by (induction l) auto

lemma find_None: "mcast_list_find l d v = None \<longleftrightarrow> (d, v) \<notin> (\<lambda>e. (l_dmac e, l_vid e)) ` set l"
  by (induction l) auto

lemma find_Some: "mcast_list_find l d v = Some e \<Longrightarrow> e \<in> set l \<and> l_dmac e = d \<and> l_vid e = v"
  by (induction l) (auto split: if_splits)

lemma find_del:
  "distinct (map (\<lambda>e. (l_dmac e, l_vid e)) l) \<Longrightarrow> mcast_list_find (list_del l d v) d' v' =
     (if d' = d \<and> v' = v then None else mcast_list_find l d' v')"
  by (induction l) (auto simp: find_None image_iff)

lemma keys_replace: "map (\<lambda>e. (l_dmac e, l_vid e)) (list_replace l d v p) = map (\<lambda>e. (l_dmac e, l_vid e)) l"
  by (induction l) auto

lemma set_replace: "e \<in> set (list_replace l d v p) \<Longrightarrow> e \<in> set l \<or> l_mc_port e = p"
  by (induction l) (auto split: if_splits)

lemma set_del: "set (list_del l d v) \<subseteq> set l"
  by (induction l) auto

lemma distinct_del:
  "distinct (map (\<lambda>e. (l_dmac e, l_vid e)) l) \<Longrightarrow> distinct (map (\<lambda>e. (l_dmac e, l_vid e)) (list_del l d v))"
  using set_del by (induction l) (fastforce simp: image_iff)+

text \<open>Joining and leaving, on the list.\<close>

lemma list_join_new:
  assumes "list_ok l" "mcast_list_find l d v = None" "i < 8"
  shows "list_ok (l @ [\<lparr>l_vid = v, l_dmac = d, l_mc_port = push_bit i 1\<rparr>])"
    and "list_groups (l @ [\<lparr>l_vid = v, l_dmac = d, l_mc_port = push_bit i 1\<rparr>])
       = (list_groups l)((d, v) := insert i (list_groups l (d, v)))"
proof -
  have "push_bit i (1 :: u8) \<noteq> 0" using port_set_single [OF assms(3)] by (metis insert_not_empty port_set_empty)
  then show "list_ok (l @ [\<lparr>l_vid = v, l_dmac = d, l_mc_port = push_bit i 1\<rparr>])"
    using assms(1,2) by (auto simp: list_ok_def find_None)
  show "list_groups (l @ [\<lparr>l_vid = v, l_dmac = d, l_mc_port = push_bit i 1\<rparr>])
       = (list_groups l)((d, v) := insert i (list_groups l (d, v)))"
    using assms(2,3) by (auto simp: list_groups_def fun_eq_iff find_append port_set_single split: option.split)
qed

lemma list_replace_groups:
  assumes "list_ok l" "mcast_list_find l d v = Some e" "p \<noteq> 0"
  shows "list_ok (list_replace l d v p)"
    and "list_groups (list_replace l d v p) = (list_groups l)((d, v) := port_set p)"
proof -
  show "list_ok (list_replace l d v p)"
    using assms(1,3) set_replace by (fastforce simp: list_ok_def keys_replace)
  show "list_groups (list_replace l d v p) = (list_groups l)((d, v) := port_set p)"
    using assms(2) by (auto simp: list_groups_def fun_eq_iff find_replace)
qed

lemma list_del_groups:
  assumes "list_ok l"
  shows "list_ok (list_del l d v)" and "list_groups (list_del l d v) = (list_groups l)((d, v) := {})"
  using assms set_del by (fastforce simp: list_ok_def distinct_del, auto simp: list_ok_def list_groups_def fun_eq_iff find_del)

section \<open>Joining and leaving a group\<close>

text \<open>What a message is about: the group and the port; none when the device, the protocol or the
  port is not known.\<close>

definition mdb_target :: "netns \<Rightarrow> mtk_hnat \<Rightarrow> br_mdb_entry \<Rightarrow> (group_key \<times> nat) option" where
  "mdb_target net h m = do {
     d \<leftarrow> net (mdb_ifindex m); dmac \<leftarrow> get_mac_from_mdb_entry m; port \<leftarrow> mcast_port h d;
     Some ((dmac, mdb_vid m), port) }"

fun group_step :: "netns \<Rightarrow> mtk_hnat \<Rightarrow> mdb_msg \<Rightarrow> (group_key \<Rightarrow> nat set) \<Rightarrow> group_key \<Rightarrow> nat set" where
  "group_step net h (Mdb ty m alloc) G = (case mdb_target net h m of
     None \<Rightarrow> G
   | Some (k, port) \<Rightarrow>
       if ty = RTM_NEWMDB \<and> (alloc \<or> G k \<noteq> {}) then G(k := insert port (G k))
       else if ty = RTM_DELMDB then G(k := G k - {port})
       else G)" |
  "group_step net h _ G = G"

lemma mcast_port_less: "mcast_port h d = Some i \<Longrightarrow> i < 5"
  by (auto simp: mcast_port_def Let_def split: if_splits option.splits)

definition same_names :: "mtk_hnat \<Rightarrow> mtk_hnat \<Rightarrow> bool" where
  "same_names h h' \<longleftrightarrow> h_wan h' = h_wan h \<and> h_lan h' = h_lan h \<and> h_lan2 h' = h_lan2 h"

lemma same_names_port: "same_names h h' \<Longrightarrow> mcast_port h' d = mcast_port h d"
  by (simp add: same_names_def mcast_port_def IS_ETH_GRP_def)

lemma same_names_target: "same_names h h' \<Longrightarrow> mdb_target net h' = mdb_target net h"
  by (simp add: mdb_target_def fun_eq_iff same_names_port)

lemma same_names_step: "same_names h h' \<Longrightarrow> group_step net h' msg G = group_step net h msg G"
  by (cases msg) (simp_all add: same_names_target)

section \<open>One message\<close>

text \<open>No bound entry of a routed packet type, of those the driver searches, holds the address.\<close>

definition no_flow_to :: "mac_addr \<Rightarrow> mtk_hnat \<Rightarrow> bool" where
  "no_flow_to d h \<longleftrightarrow> (\<forall>p < ppe_num h. \<forall>j < DEF_ETRY_NUM.
     \<not> (foe_state (foe_table_cpu h ! p ! j) = BIND \<and> has_mac (foe_table_cpu h ! p ! j) d))"

lemma no_hit_no_mac: "\<not> hit (\<lambda>e. entry_mac_cmp e d ENTRY_CMP_ANY) e \<Longrightarrow> \<not> (foe_state e = BIND \<and> has_mac e d)"
  using has_mac_cmp by (auto simp: hit_def)

abbreviation all_cache_regs :: "mtk_hnat \<Rightarrow> reg set" where
  "all_cache_regs h \<equiv> (\<Union>p \<in> {0..<ppe_num h}. cache_regs p)"

lemma full_tables_cong: "same_but_tables R h h' \<Longrightarrow> full_tables h \<Longrightarrow> full_tables h'"
  unfolding full_tables_def by (auto simp: same_but_tables_fields same_but_tables_length)

lemma delete_by_mac_drops:
  assumes "full_tables h"
  shows "wp (entry_delete_by_mac dev (Some d) h) (\<lambda>(r, h').
    same_but_tables (all_cache_regs h) h h' \<and> no_flow_to d h')"
  unfolding entry_delete_by_mac_mac
proof (rule wp_pair [OF delete_match_spec [OF assms]], elim conjE, intro conjI)
  fix r h'
  assume s: "same_but_tables (all_cache_regs h) h h'"
    and d: "deleted_in (\<lambda>e. entry_mac_cmp e d ENTRY_CMP_ANY) ({0..<ppe_num h} \<times> {0..<DEF_ETRY_NUM}) h h'"
  show "no_flow_to d h'"
    unfolding no_flow_to_def same_but_tables_fields [OF s]
  proof (intro allI impI no_hit_no_mac deleted_no_hit [OF d])
    fix p j assume "p < ppe_num h" "j < DEF_ETRY_NUM"
    with assms show "(p, j) \<in> {0..<ppe_num h} \<times> {0..<DEF_ETRY_NUM}" "p < length (foe_table_cpu h)"
      "j < length (foe_table_cpu h ! p)"
      by (auto simp: full_tables_def)
  qed
qed

text \<open>The outcome of a list update: the list is \<open>l\<close>, and no flow is left to the address in \<open>dropped\<close>.\<close>

definition list_outcome :: "netns \<Rightarrow> mtk_hnat \<Rightarrow> mdb_msg \<Rightarrow> mac_addr option \<Rightarrow> mtk_hnat \<Rightarrow> bool" where
  "list_outcome net h msg dropped h' \<longleftrightarrow> (\<exists>P l. pmcast h = Some P \<and> list_ok l
     \<and> list_groups l = group_step net h msg (list_groups (mlist P))
     \<and> same_but_tables (all_cache_regs h) (put_list l h) h'
     \<and> (\<forall>d. dropped = Some d \<longrightarrow> no_flow_to d h'))"

lemma finish_outcome:
  assumes "full_tables h" "pmcast h = Some P" "list_ok l"
    "list_groups l = group_step net h msg (list_groups (mlist P))"
  shows "wp (Option.bind (entry_delete_by_mac dev (Some d) (put_list l h)) (\<lambda>(_, h). Some (0, h)))
    (\<lambda>(r, h'). list_outcome net h msg (Some d) h')"
proof -
  have "full_tables (put_list l h)" using assms(1) by (simp add: full_tables_def put_list_def)
  from delete_by_mac_drops [OF this, of dev d]
  have "wp (entry_delete_by_mac dev (Some d) (put_list l h)) (\<lambda>(r, h'). list_outcome net h msg (Some d) h')"
    by (rule wp_pair) (use assms in \<open>auto simp: list_outcome_def put_list_def\<close>)
  then show ?thesis by (auto simp: wp_iff)
qed

lemma put_list_same: "pmcast h = Some P \<Longrightarrow> put_list (mlist P) h = h"
  by (simp add: put_list_def)

lemma no_change_outcome:
  assumes "pmcast h = Some P" "list_ok (mlist P)" "group_step net h msg (list_groups (mlist P)) = list_groups (mlist P)"
  shows "list_outcome net h msg None h"
  unfolding list_outcome_def using assms put_list_same [OF assms(1)]
  by (intro exI [of _ P] exI [of _ "mlist P"]) simp

lemma leave_ports:
  "port_set (p AND NOT (push_bit i 1)) = port_set p - {i}" if "i < 8"
  using that by (simp add: port_set_and_not)

lemma list_update_spec:
  assumes "full_tables h" "pmcast h = Some P" "list_ok (mlist P)"
  shows "wp (hnat_mcast_list_update dev net alloc ty m h) (\<lambda>(r, h').
    list_outcome net h (Mdb ty m alloc) (if r = 0 then get_mac_from_mdb_entry m else None) h')"
proof (cases "mdb_target net h m")
  case None
  then show ?thesis
    using no_change_outcome [OF assms(2,3)] assms(2)
    by (auto simp: hnat_mcast_list_update_def mdb_target_def bind_eq_None_conv split: option.splits)
next
  case (Some kp)
  then obtain d dmac port where t: "net (mdb_ifindex m) = Some d" "get_mac_from_mdb_entry m = Some dmac"
      "mcast_port h d = Some port" "kp = ((dmac, mdb_vid m), port)"
    by (auto simp: mdb_target_def bind_eq_Some_conv)
  have port: "port < 8" using mcast_port_less [OF t(3)] by simp
  let ?v = "mdb_vid m" and ?G = "list_groups (mlist P)"
  note finish = finish_outcome [OF assms(1,2), of _ net "Mdb ty m alloc" dev dmac]
  have fin: "wp (Option.bind (entry_delete_by_mac dev (Some dmac) (put_list l h)) (\<lambda>(_, h). Some (0, h)))
      (\<lambda>(r, h'). list_outcome net h (Mdb ty m alloc) (if r = 0 then Some dmac else None) h')"
    if "list_ok l" "list_groups l = group_step net h (Mdb ty m alloc) ?G" for l
    using finish [OF that] by (auto simp: wp_iff Option.bind_eq_Some_conv)
  consider (join) "ty = RTM_NEWMDB" | (leave) "ty = RTM_DELMDB" | (other) "ty \<noteq> RTM_NEWMDB" "ty \<noteq> RTM_DELMDB" by blast
  then show ?thesis
  proof cases
    case join
    show ?thesis
    proof (cases "mcast_list_find (mlist P) dmac ?v")
      case None
      then have G: "?G (dmac, ?v) = {}" by (simp add: list_groups_def)
      note new = list_join_new [OF assms(3) None port]
      have "list_groups (mlist P @ [\<lparr>l_vid = ?v, l_dmac = dmac, l_mc_port = push_bit port 1\<rparr>])
          = group_step net h (Mdb ty m alloc) ?G" if alloc
        using that join by (simp add: new(2) Some t(4) del: push_bit_of_1)
      note new_fin = fin [OF new(1) this]
      show ?thesis
      proof (cases alloc)
        case True
        with None join new_fin show ?thesis
          by (simp add: hnat_mcast_list_update_def t assms(2) hnat_mcast_list_find_def Let_def del: push_bit_of_1)
      next
        case False
        then show ?thesis
          using None join no_change_outcome [OF assms(2,3)]
          by (simp add: hnat_mcast_list_update_def t assms(2) hnat_mcast_list_find_def Some G Let_def)
      qed
    next
      case (Some e)
      then have G: "?G (dmac, ?v) = port_set (l_mc_port e)" by (simp add: list_groups_def)
      have e: "l_mc_port e \<noteq> 0" using assms(3) find_Some [OF Some] by (simp add: list_ok_def)
      let ?p = "l_mc_port e OR push_bit port 1"
      have p: "port_set ?p = insert port (port_set (l_mc_port e))" using port by (simp add: port_set_or)
      then have "?p \<noteq> 0" by (metis insert_not_empty port_set_empty)
      note rep = list_replace_groups [OF assms(3) Some this]
      have "list_groups (list_replace (mlist P) dmac ?v ?p) = group_step net h (Mdb ty m alloc) ?G"
        using join e p by (simp add: rep(2) \<open>mdb_target net h m = Some kp\<close> t(4) G del: push_bit_of_1)
      from fin [OF rep(1) this] Some join show ?thesis
        by (simp add: hnat_mcast_list_update_def t assms(2) hnat_mcast_list_find_def Let_def del: push_bit_of_1)
    qed
  next
    case leave
    show ?thesis
    proof (cases "mcast_list_find (mlist P) dmac ?v")
      case None
      then have "?G (dmac, ?v) = {}" by (simp add: list_groups_def)
      then have "list_groups (mlist P) = group_step net h (Mdb ty m alloc) ?G"
        using leave by (simp add: Some t(4) fun_upd_idem)
      from fin [OF assms(3) this] None leave put_list_same [OF assms(2)] show ?thesis
        by (simp add: hnat_mcast_list_update_def t assms(2) hnat_mcast_list_find_def Let_def)
    next
      case (Some e)
      then have G: "?G (dmac, ?v) = port_set (l_mc_port e)" by (simp add: list_groups_def)
      let ?p = "l_mc_port e AND NOT (push_bit port 1)"
      have step: "group_step net h (Mdb ty m alloc) ?G = ?G((dmac, ?v) := port_set ?p)"
        using leave by (simp add: \<open>mdb_target net h m = Some kp\<close> t(4) G leave_ports [OF port] del: push_bit_of_1)
      show ?thesis
      proof (cases "?p = 0")
        case True
        then have "port_set ?p = {}" by (simp only: port_set_empty)
        with step have "list_groups (list_del (mlist P) dmac ?v) = group_step net h (Mdb ty m alloc) ?G"
          by (simp only: list_del_groups(2) [OF assms(3)])
        from fin [OF list_del_groups(1) [OF assms(3)] this] Some leave True show ?thesis
          by (simp add: hnat_mcast_list_update_def t assms(2) hnat_mcast_list_find_def Let_def del: push_bit_of_1)
      next
        case False
        note rep = list_replace_groups [OF assms(3) Some False]
        from fin [OF rep(1)] rep(2) step Some leave False show ?thesis
          by (simp add: hnat_mcast_list_update_def t assms(2) hnat_mcast_list_find_def Let_def del: push_bit_of_1)
      qed
    qed
  next
    case other
    then show ?thesis
      using no_change_outcome [OF assms(2,3)] by (simp add: hnat_mcast_list_update_def t assms(2) Let_def Some)
  qed
qed

end
