(* ===== verification/Hnat_Mcast_Table.thy ===== *)
theory Hnat_Mcast_Table
  imports Hnat_Mcast
begin

text \<open>
  Hardware NAT: the table of multicast groups and its registers. After every update the registers
  of all engines show what the table says, a cleared pair for every free entry; which entry a
  group has, and what becomes of the table when a group is left.
\<close>

section \<open>The registers of the groups\<close>

definition mcast_device :: "device \<Rightarrow> bool" where
  "mcast_device dev \<longleftrightarrow> (\<forall>p i. holds dev (mcast_reg_h p i) (- 1) \<and> holds dev (mcast_reg_l p i) (- 1))"

definition group_regs :: "nat \<Rightarrow> nat \<Rightarrow> reg set" where
  "group_regs p i = {mcast_reg_h p i, mcast_reg_l p i}"

lemma mcast_reg_inject:
  assumes "i < 64" "j < 64"
  shows "mcast_reg_h p i = mcast_reg_h q j \<longleftrightarrow> p = q \<and> i = j"
    and "mcast_reg_l p i = mcast_reg_l q j \<longleftrightarrow> p = q \<and> i = j"
    and "mcast_reg_h p i \<noteq> mcast_reg_l q j" "mcast_reg_l q j \<noteq> mcast_reg_h p i"
  using assms unfolding mcast_reg_h_def mcast_reg_l_def reg.inject by (auto split: if_splits) presburger+

lemma group_regs_other:
  assumes "i < 64" "j < 64" "(p, i) \<noteq> (q, j)"
  shows "mcast_reg_h p i \<notin> group_regs q j" "mcast_reg_l p i \<notin> group_regs q j"
  using assms by (auto simp: group_regs_def mcast_reg_inject)

lemma mcast_unchanged:
  assumes "mcast_device dev" "io_only R h h'"
  shows "mcast_reg_h p i \<notin> R \<Longrightarrow> reg_now dev (mcast_reg_h p i) h' = reg_now dev (mcast_reg_h p i) h"
    and "mcast_reg_l p i \<notin> R \<Longrightarrow> reg_now dev (mcast_reg_l p i) h' = reg_now dev (mcast_reg_l p i) h"
  using holds_other [OF _ assms(2), of dev _ "- 1"] assms(1) by (force simp: mcast_device_def)+

text \<open>The pairs of group \<open>i\<close> of the engines \<open>p .. p + n - 1\<close> were written with \<open>v\<close> and \<open>l\<close>.\<close>

definition pairs_written :: "device \<Rightarrow> u32 \<Rightarrow> u32 \<Rightarrow> nat \<Rightarrow> nat \<Rightarrow> nat \<Rightarrow> mtk_hnat \<Rightarrow> mtk_hnat \<Rightarrow> bool" where
  "pairs_written dev v l i p n h h' \<longleftrightarrow> io_only (\<Union>q \<in> {p..<p + n}. group_regs q i) h h'
     \<and> (\<forall>q \<in> {p..<p + n}. reg_now dev (mcast_reg_h q i) h' = v \<and> reg_now dev (mcast_reg_l q i) h' = l)"

lemma pairs_written_Suc:
  assumes "mcast_device dev" "i < 64"
    and "pairs_written dev v l i (Suc p) n (writel l (mcast_reg_l p i) (writel v (mcast_reg_h p i) h)) h'"
  shows "pairs_written dev v l i p (Suc n) h h'"
proof -
  let ?h = "writel l (mcast_reg_l p i) (writel v (mcast_reg_h p i) h)"
  have D: "{p..<p + Suc n} = {p} \<union> {Suc p..<Suc p + n}" by auto
  have io: "io_only (group_regs p i) h ?h" by (intro hnat_frame) (simp_all add: group_regs_def)
  have io': "io_only (\<Union>q \<in> {Suc p..<Suc p + n}. group_regs q i) ?h h'"
    using assms(3) by (simp add: pairs_written_def)
  have "reg_now dev (mcast_reg_l p i) ?h = l"
    using holds_writel [of dev "mcast_reg_l p i" "- 1" l] assms(1) by (simp add: mcast_device_def)
  moreover have "reg_now dev (mcast_reg_h p i) ?h = v"
  proof -
    have "reg_now dev (mcast_reg_h p i) ?h = reg_now dev (mcast_reg_h p i) (writel v (mcast_reg_h p i) h)"
      by (rule mcast_unchanged(1) [OF assms(1) io_only_writel [OF io_only_refl, of _ "{mcast_reg_l p i}"]])
        (simp_all add: mcast_reg_inject assms(2))
    then show ?thesis
      using holds_writel [of dev "mcast_reg_h p i" "- 1" v] assms(1) by (simp add: mcast_device_def)
  qed
  moreover have "mcast_reg_h p i \<notin> (\<Union>q \<in> {Suc p..<Suc p + n}. group_regs q i)"
      "mcast_reg_l p i \<notin> (\<Union>q \<in> {Suc p..<Suc p + n}. group_regs q i)"
    using group_regs_other [OF assms(2,2)] by auto
  ultimately have "reg_now dev (mcast_reg_h p i) h' = v \<and> reg_now dev (mcast_reg_l p i) h' = l"
    using mcast_unchanged [OF assms(1) io'] by simp
  moreover have "io_only (\<Union>q \<in> {p..<p + Suc n}. group_regs q i) h h'"
    unfolding D using io_only_trans [OF io_only_mono [OF io] io_only_mono [OF io']] by (simp add: subset_iff)
  ultimately show ?thesis
    using assms(3) unfolding pairs_written_def D by blast
qed

lemma pairs_written_0: "pairs_written dev v l i p 0 h h"
  by (simp add: pairs_written_def)

definition prefix_ok :: "mac_addr \<Rightarrow> bool" where
  "prefix_ok d \<longleftrightarrow> DMAC_TO_HI16 d = 0x0100 \<or> DMAC_TO_HI16 d = 0x3333"

definition group_h :: "ppe_mcast_group \<Rightarrow> u32" where
  "group_h g = (if g_valid g then ppe_mcast_h (g_mc_port g) (if DMAC_TO_HI16 (g_dmac g) = 0x0100 then 0 else 1) else 0)"

definition group_l :: "ppe_mcast_group \<Rightarrow> u32" where
  "group_l g = (if g_valid g then DMAC_TO_LO32 (g_dmac g) else 0)"

lemma writel_ppe_num [simp]: "ppe_num (writel v r h) = ppe_num h"
  by (simp add: writel_def)

lemma set_loop_written:
  assumes "mcast_device dev" "i < 64" "prefix_ok (g_dmac g)" "g_valid g" "p + n \<le> ppe_num h"
  shows "pairs_written dev (group_h g) (group_l g) i p n h (set_mtbl_loop g i p n h)"
  using assms(5)
proof (induction n arbitrary: p h)
  case (Suc n)
  have "snd (set_hnat_mtbl g p i h) = writel (group_l g) (mcast_reg_l p i) (writel (group_h g) (mcast_reg_h p i) h)"
    using assms(3,4) Suc.prems by (auto simp: set_hnat_mtbl_def prefix_ok_def group_h_def group_l_def Let_def)
  with Suc.IH [of "Suc p" "snd (set_hnat_mtbl g p i h)"] Suc.prems show ?case
    by (simp add: pairs_written_Suc [OF assms(1,2)])
qed (simp add: pairs_written_0)

lemma clr_loop_written:
  assumes "mcast_device dev" "i < 64" "p + n \<le> ppe_num h"
  shows "pairs_written dev 0 0 i p n h (clr_mtbl_loop i p n h)"
  using assms(3)
proof (induction n arbitrary: p h)
  case (Suc n)
  have "clr_hnat_mtbl p i h = writel 0 (mcast_reg_l p i) (writel 0 (mcast_reg_h p i) h)"
    using Suc.prems by (simp add: clr_hnat_mtbl_def)
  with Suc.IH [of "Suc p" "clr_hnat_mtbl p i h"] Suc.prems show ?case
    by (simp add: pairs_written_Suc [OF assms(1,2)])
qed (simp add: pairs_written_0)

section \<open>The table\<close>

text \<open>A group of the table: its address is a multicast address, its ports are those with a nonzero
  counter, and there is one. A free entry has no counts.\<close>

definition group_ok :: "ppe_mcast_group \<Rightarrow> bool" where
  "group_ok g \<longleftrightarrow> length (g_if_num g) = MAX_MCAST_PORT
     \<and> (\<not> g_valid g \<longrightarrow> g_if_num g = replicate MAX_MCAST_PORT 0)
     \<and> (g_valid g \<longrightarrow> prefix_ok (g_dmac g) \<and> g_mc_port g = ports_of_loop (g_if_num g) 0 0 \<and> g_mc_port g \<noteq> 0)"

definition table_ok :: "ppe_mcast_table \<Rightarrow> bool" where
  "table_ok P \<longleftrightarrow> length (mtbl P) = MAX_MCAST_ENTRY \<and> max_entry P \<le> MAX_MCAST_ENTRY \<and> (\<forall>g \<in> set (mtbl P). group_ok g)"

text \<open>The registers of every engine show the table.\<close>

definition mirrored :: "device \<Rightarrow> ppe_mcast_table \<Rightarrow> mtk_hnat \<Rightarrow> bool" where
  "mirrored dev P h \<longleftrightarrow> (\<forall>p < ppe_num h. \<forall>i < MAX_MCAST_ENTRY.
     reg_now dev (mcast_reg_h p i) h = group_h (mtbl P ! i) \<and> reg_now dev (mcast_reg_l p i) h = group_l (mtbl P ! i))"

lemma mirrored_put:
  assumes "mcast_device dev" "mirrored dev P h" "length (mtbl P) = 64" "i < 64"
    and "pairs_written dev (group_h g) (group_l g) i 0 (ppe_num h) h h'"
  shows "mirrored dev (P\<lparr>mtbl := (mtbl P)[i := g]\<rparr>) h'"
  unfolding mirrored_def
proof (intro allI impI)
  fix p j assume "p < ppe_num h'" and j: "j < (64 :: nat)"
  have io: "io_only (\<Union>q \<in> {0..<0 + ppe_num h}. group_regs q i) h h'"
    using assms(5) by (simp add: pairs_written_def)
  then have p: "p < ppe_num h" using \<open>p < ppe_num h'\<close> io_only_fields(2) by simp
  let ?t = "mtbl (P\<lparr>mtbl := (mtbl P)[i := g]\<rparr>)"
  show "reg_now dev (mcast_reg_h p j) h' = group_h (?t ! j) \<and> reg_now dev (mcast_reg_l p j) h' = group_l (?t ! j)"
  proof (cases "j = i")
    case True
    then show ?thesis using assms(3-5) p by (simp add: pairs_written_def)
  next
    case False
    then have "mcast_reg_h p j \<notin> (\<Union>q \<in> {0..<0 + ppe_num h}. group_regs q i)"
        "mcast_reg_l p j \<notin> (\<Union>q \<in> {0..<0 + ppe_num h}. group_regs q i)"
      using group_regs_other [OF j assms(4)] by auto
    then have "reg_now dev (mcast_reg_h p j) h' = reg_now dev (mcast_reg_h p j) h"
        "reg_now dev (mcast_reg_l p j) h' = reg_now dev (mcast_reg_l p j) h"
      using mcast_unchanged [OF assms(1) io] by blast+
    with False p j assms(2) show ?thesis by (simp add: mirrored_def)
  qed
qed

text \<open>Where an update writes: the entry is in range, and holds the group or is free.\<close>

lemma mcast_entry_loop_range:
  "mcast_entry_loop t vid d i n = -1 \<or> (\<exists>j. mcast_entry_loop t vid d i n = int j \<and> i \<le> j \<and> j < i + n
     \<and> (\<not> g_valid (t ! j) \<or> g_vid (t ! j) = vid \<and> g_dmac (t ! j) = d))"
proof (induction n arbitrary: i)
  case (Suc n)
  from Suc.IH [of "Suc i"] show ?case by (auto simp: not_le intro: exI [of _ i])
qed simp

lemma mdb_mac_prefix: "get_mac_from_mdb_entry m = Some d \<Longrightarrow> prefix_ok d"
  by (auto simp: get_mac_from_mdb_entry_def Let_def prefix_ok_def DMAC_TO_HI16_def split: if_splits)

section \<open>One update\<close>

lemma group_write_spec:
  assumes "mcast_device dev" "i < 64" "prefix_ok (g_dmac g)" "length (g_if_num g) = MAX_MCAST_PORT"
    and "\<not> g_valid g \<longrightarrow> g_if_num g = replicate MAX_MCAST_PORT 0" "mcast_group_write i g h = (g', h')"
  shows "group_ok g'" "pmcast h' = pmcast h" "io_only (\<Union>q \<in> {0..<ppe_num h}. group_regs q i) h h'"
    and "g_valid g \<Longrightarrow> pairs_written dev (group_h g') (group_l g') i 0 (ppe_num h) h h'"
    and "\<not> g_valid g \<Longrightarrow> g' = g \<and> h' = h"
proof -
  let ?g = "g\<lparr>g_mc_port := ports_of_loop (g_if_num g) 0 0\<rparr>"
  consider (free) "\<not> g_valid g" "g' = g" "h' = h"
    | (gone) "g_valid g" "g' = empty_group" "h' = clr_mtbl_loop i 0 (ppe_num h) h"
    | (used) "g_valid g" "g_mc_port ?g \<noteq> 0" "g' = ?g" "h' = set_mtbl_loop ?g i 0 (ppe_num h) h"
    using assms(6) by (auto simp: mcast_group_write_def Let_def split: if_splits)
  then have "group_ok g' \<and> (g_valid g \<longrightarrow> pairs_written dev (group_h g') (group_l g') i 0 (ppe_num h) h h')
      \<and> (\<not> g_valid g \<longrightarrow> g' = g \<and> h' = h)"
  proof cases
    case gone
    then show ?thesis
      using clr_loop_written [OF assms(1,2), of 0 "ppe_num h" h]
      by (simp add: group_ok_def empty_group_def group_h_def group_l_def)
  next
    case used
    then show ?thesis
      using set_loop_written [OF assms(1,2), of ?g 0 "ppe_num h" h] assms(3,4) by (simp add: group_ok_def)
  qed (use assms(4,5) in \<open>simp add: group_ok_def\<close>)
  then show "group_ok g'" and p: "g_valid g \<Longrightarrow> pairs_written dev (group_h g') (group_l g') i 0 (ppe_num h) h h'"
    and f: "\<not> g_valid g \<Longrightarrow> g' = g \<and> h' = h" by blast+
  show io: "io_only (\<Union>q \<in> {0..<ppe_num h}. group_regs q i) h h'"
    using p f by (cases "g_valid g") (auto simp: pairs_written_def)
  show "pmcast h' = pmcast h" by (rule io_only_fields(5) [OF io])
qed

lemma put_group_simps:
  "pmcast h = Some P \<Longrightarrow> pmcast (put_group i g h) = Some (P\<lparr>mtbl := (mtbl P)[i := g]\<rparr>)"
  "ppe_num (put_group i g h) = ppe_num h" "h_io (put_group i g h) = h_io h"
  "reg_now dev r (put_group i g h) = reg_now dev r h"
  "same_but_tables R (put_group i g h) h' \<longleftrightarrow> same_but_tables R (put_group i g h) h'"
  by (simp_all add: put_group_def reg_now_def)

lemma io_only_pmcast: "io_only R a b \<Longrightarrow> io_only R (a\<lparr>pmcast := x\<rparr>) (b\<lparr>pmcast := x\<rparr>)"
  unfolding io_only_def by (elim exE conjE) (intro exI conjI, simp_all)

lemma mirrored_io: "h_io h' = h_io h \<Longrightarrow> ppe_num h' = ppe_num h \<Longrightarrow> mirrored dev P h' = mirrored dev P h"
  by (simp add: mirrored_def reg_now_def)

lemma mirrored_same:
  assumes "mirrored dev P h" "length (mtbl P) = 64" "group_h g = group_h (mtbl P ! i)" "group_l g = group_l (mtbl P ! i)"
  shows "mirrored dev (P\<lparr>mtbl := (mtbl P)[i := g]\<rparr>) h"
  unfolding mirrored_def
proof (intro allI impI)
  fix p j assume "p < ppe_num h" "j < (64 :: nat)"
  with assms show "reg_now dev (mcast_reg_h p j) h = group_h (mtbl (P\<lparr>mtbl := (mtbl P)[i := g]\<rparr>) ! j)
      \<and> reg_now dev (mcast_reg_l p j) h = group_l (mtbl (P\<lparr>mtbl := (mtbl P)[i := g]\<rparr>) ! j)"
    by (cases "j = i") (simp_all add: mirrored_def)
qed

lemma table_ok_put: "table_ok P \<Longrightarrow> group_ok g \<Longrightarrow> table_ok (P\<lparr>mtbl := (mtbl P)[i := g]\<rparr>)"
  using set_update_subset_insert [of "mtbl P" i g] by (auto simp: table_ok_def)

text \<open>What an update leaves: a table whose groups are well formed and which the registers show, the
  list as it was, and no other register written.\<close>

definition all_group_regs :: "mtk_hnat \<Rightarrow> reg set" where
  "all_group_regs h = (\<Union>q \<in> {0..<ppe_num h}. \<Union>i \<in> {0..<64}. group_regs q i)"

definition table_kept :: "device \<Rightarrow> ppe_mcast_table \<Rightarrow> mtk_hnat \<Rightarrow> mtk_hnat \<Rightarrow> bool" where
  "table_kept dev P h h' \<longleftrightarrow> (\<exists>P'. table_ok P' \<and> mirrored dev P' h' \<and> mlist P' = mlist P
     \<and> io_only (all_group_regs h) (h\<lparr>pmcast := Some P'\<rparr>) h')"

lemma table_kept_same:
  assumes "pmcast h = Some P" "table_ok P" "mirrored dev P h"
  shows "table_kept dev P h h"
proof -
  have same: "h\<lparr>pmcast := Some P\<rparr> = h" using assms(1) by simp
  show ?thesis unfolding table_kept_def by (intro exI [of _ P]) (simp add: same assms(2,3))
qed

lemma table_update_spec:
  assumes "mcast_device dev" "pmcast h = Some P" "table_ok P" "mirrored dev P h"
  shows "wp (hnat_mcast_table_update net ty m h) (\<lambda>(r, h'). table_kept dev P h h')"
proof (cases "\<exists>d dmac. net (mdb_ifindex m) = Some d \<and> get_mac_from_mdb_entry m = Some dmac
    \<and> mcast_entry_get P (mdb_vid m) dmac \<noteq> -1")
  case False
  then show ?thesis
    using table_kept_same [OF assms(2-4)] assms(2)
    by (auto simp: hnat_mcast_table_update_def Let_def split: option.splits)
next
  case True
  then obtain d dmac where t: "net (mdb_ifindex m) = Some d" "get_mac_from_mdb_entry m = Some dmac"
      "mcast_entry_get P (mdb_vid m) dmac \<noteq> -1" by blast
  then obtain i where i: "mcast_entry_get P (mdb_vid m) dmac = int i" "i < 64"
      "\<not> g_valid (mtbl P ! i) \<or> g_vid (mtbl P ! i) = mdb_vid m \<and> g_dmac (mtbl P ! i) = dmac"
    using mcast_entry_loop_range [of "mtbl P" "mdb_vid m" dmac 0 "max_entry P"] assms(3)
    by (auto simp: mcast_entry_get_def table_ok_def)
  have old: "group_ok (mtbl P ! i)" and len: "length (mtbl P) = 64" using assms(3) i(2) by (auto simp: table_ok_def)
  let ?g = "(mtbl P ! i)\<lparr>g_dmac := dmac\<rparr>"
  let ?h = "put_group i ?g h" and ?P = "P\<lparr>mtbl := (mtbl P)[i := ?g]\<rparr>"
  have pre: "prefix_ok dmac" using t(2) by (rule mdb_mac_prefix)
  have gok: "group_ok ?g" using old pre by (auto simp: group_ok_def)
  have P1: "table_ok ?P" "pmcast ?h = Some ?P" "mlist ?P = mlist P"
    using table_ok_put [OF assms(3) gok] assms(2) by (simp_all add: put_group_simps)
  have M1: "mirrored dev ?P h"
    using mirrored_same [OF assms(4) len, of ?g i] i(3) by (auto simp: group_h_def group_l_def)
  then have M2: "mirrored dev ?P ?h" using mirrored_io [of ?h h] by (simp add: put_group_simps)
  have h1: "?h = h\<lparr>pmcast := Some ?P\<rparr>" using assms(2) by (simp add: put_group_def)
  have kept1: "table_kept dev P h ?h"
    unfolding table_kept_def using P1 M2 by (intro exI [of _ ?P]) (simp add: h1)
  have last: "table_kept dev P h (put_group i g' h')"
    if w: "mcast_group_write i g ?h = (g', h')" "prefix_ok (g_dmac g)" "length (g_if_num g) = 5"
      and v: "\<not> g_valid g \<Longrightarrow> \<not> g_valid ?g \<and> g_if_num g = replicate 5 0" for g g' h'
  proof -
    have "\<not> g_valid g \<longrightarrow> g_if_num g = replicate 5 0" using v by blast
    note s = group_write_spec [OF assms(1) i(2) w(2,3) this w(1)]
    let ?P' = "P\<lparr>mtbl := (mtbl P)[i := g']\<rparr>"
    have eq: "?P\<lparr>mtbl := (mtbl ?P)[i := g']\<rparr> = ?P'" by simp
    have "pmcast h' = Some ?P" by (simp only: s(2) P1(2))
    then have p': "put_group i g' h' = h'\<lparr>pmcast := Some ?P'\<rparr>" by (simp add: put_group_def [of i g' h'])
    have "mirrored dev ?P' h'"
    proof (cases "g_valid g")
      case True
      then show ?thesis
        using mirrored_put [OF assms(1) M2 _ i(2) s(4)] len by (simp add: eq)
    next
      case False
      then show ?thesis
        using mirrored_same [OF M2, of g' i] s(5) v len i(2) by (simp add: group_h_def group_l_def)
    qed
    moreover have "ppe_num h' = ppe_num ?h" using s(3) by (rule io_only_fields(2))
    ultimately have "mirrored dev ?P' (put_group i g' h')"
      using mirrored_io [of "put_group i g' h'" h'] by (simp add: put_group_simps)
    moreover have "io_only (all_group_regs h) (h\<lparr>pmcast := Some ?P'\<rparr>) (put_group i g' h')"
    proof -
      have "io_only (\<Union>q \<in> {0..<ppe_num h}. group_regs q i) (?h\<lparr>pmcast := Some ?P'\<rparr>) (h'\<lparr>pmcast := Some ?P'\<rparr>)"
        using s(3) by (intro io_only_pmcast) (simp add: put_group_simps)
      moreover have "(\<Union>q \<in> {0..<ppe_num h}. group_regs q i) \<subseteq> all_group_regs h"
        using i(2) unfolding all_group_regs_def by (intro UN_mono UN_upper) simp_all
      ultimately show ?thesis using io_only_mono by (simp add: p' h1)
    qed
    ultimately show ?thesis
      unfolding table_kept_def using table_ok_put [OF assms(3) s(1)] by (intro exI [of _ ?P']) simp
  qed
  have upd: "wp (Some (case mcast_group_write i g ?h of (g, h) \<Rightarrow> (0 :: int, put_group i g h)))
      (\<lambda>(r, h'). table_kept dev P h h')"
    if "g_dmac g = dmac" "length (g_if_num g) = 5" "\<not> g_valid g \<Longrightarrow> \<not> g_valid ?g \<and> g_if_num g = replicate 5 0" for g
    using last [of g] that pre by (simp add: case_prod_unfold)
  have len5: "length (g_if_num (mtbl P ! i)) = 5" using old by (simp add: group_ok_def)
  show ?thesis
  proof (cases "mcast_port ?h d")
    case None
    then show ?thesis using kept1 t i(1) assms(2) by (simp add: hnat_mcast_table_update_def Let_def)
  next
    case (Some port)
    let ?new = "?g\<lparr>g_if_num := (g_if_num ?g)[port := g_if_num ?g ! port + 1], g_vid := mdb_vid m, g_valid := True\<rparr>"
    let ?old = "?g\<lparr>g_if_num := (g_if_num ?g)[port := g_if_num ?g ! port - 1]\<rparr>"
    have "wp (Some (case mcast_group_write i (if ty = RTM_NEWMDB then ?new else if g_valid ?g then ?old else ?g) ?h of
        (g, h) \<Rightarrow> (0 :: int, put_group i g h))) (\<lambda>(r, h'). table_kept dev P h h')"
      by (rule upd) (use old in \<open>auto simp: len5 group_ok_def split: if_splits\<close>)
    then show ?thesis
      using kept1 t i(1) assms(2) Some by (simp add: hnat_mcast_table_update_def Let_def case_prod_unfold)
  qed
qed

end
