(* ===== verification/Hnat_Mcast_Service.thy ===== *)
theory Hnat_Mcast_Service
  imports Hnat_Mcast_List Hnat_Mcast_Table
begin

text \<open>
  Hardware NAT: handling MDB messages, whatever they are. The invariant \<open>mcast_inv\<close> holds after
  every message; the list of groups is what joining and leaving make of it, and in the table mode
  the registers show the table.
\<close>

section \<open>The invariant\<close>

text \<open>\<open>h0\<close> is a state with the same interface names.\<close>

definition mcast_inv :: "device \<Rightarrow> mtk_hnat \<Rightarrow> mtk_hnat \<Rightarrow> bool" where
  "mcast_inv dev h0 h \<longleftrightarrow> mcast_device dev \<and> same_names h0 h \<and> full_tables h
     \<and> (\<exists>P. pmcast h = Some P \<and> list_ok (mlist P) \<and> table_ok P \<and> mirrored dev P h)"

definition mcast_groups :: "mtk_hnat \<Rightarrow> group_key \<Rightarrow> nat set" where
  "mcast_groups h = (case pmcast h of None \<Rightarrow> \<lambda>k. {} | Some P \<Rightarrow> list_groups (mlist P))"

lemma same_names_io: "io_only R (h\<lparr>pmcast := x\<rparr>) h' \<Longrightarrow> same_names h h'"
  by (auto simp: io_only_def same_names_def)

lemma same_names_tables: "same_but_tables R (put_list l h) h' \<Longrightarrow> same_names h h'"
  using same_but_tables_fields(7-9) [of R "put_list l h" h'] by (simp add: same_names_def put_list_def)

lemma same_names_trans: "same_names a b \<Longrightarrow> same_names b c \<Longrightarrow> same_names a c"
  by (simp add: same_names_def)

lemma full_tables_io: "io_only R (h\<lparr>pmcast := x\<rparr>) h' \<Longrightarrow> full_tables h' = full_tables h"
  by (auto simp: io_only_def full_tables_def)

lemma cache_regs_other: "i < 64 \<Longrightarrow> mcast_reg_h p i \<notin> all_cache_regs h" "i < 64 \<Longrightarrow> mcast_reg_l p i \<notin> all_cache_regs h"
  by (auto simp: cache_regs_def mcast_reg_h_def mcast_reg_l_def split: if_splits)

lemma mirrored_tables:
  assumes "mcast_device dev" "same_but_tables (all_cache_regs h) h1 h'" "mirrored dev P h1"
  shows "mirrored dev P h'"
proof -
  let ?h = "h1\<lparr>h_io := h_io h'\<rparr>"
  have io: "io_only (all_cache_regs h) h1 ?h"
    using assms(2) unfolding same_but_tables_def io_grows_def io_only_def by (elim exE conjE, intro exI conjI) simp_all
  have "mirrored dev P ?h"
    unfolding mirrored_def
  proof (intro allI impI)
    fix p i assume "p < ppe_num ?h" and i: "i < (64 :: nat)"
    then have "reg_now dev (mcast_reg_h p i) h1 = group_h (mtbl P ! i) \<and> reg_now dev (mcast_reg_l p i) h1 = group_l (mtbl P ! i)"
      using assms(3) by (simp add: mirrored_def)
    then show "reg_now dev (mcast_reg_h p i) ?h = group_h (mtbl P ! i) \<and> reg_now dev (mcast_reg_l p i) ?h = group_l (mtbl P ! i)"
      using mcast_unchanged [OF assms(1) io] cache_regs_other [OF i] by simp
  qed
  then show ?thesis
    using mirrored_io [of h' ?h] same_but_tables_fields(1) [OF assms(2)] by simp
qed

section \<open>One message\<close>

lemma table_part:
  assumes "mcast_inv dev h0 h"
  shows "wp (if h_mcast h \<and> mcast_multi h then map_option snd (hnat_mcast_table_update net ty m h) else Some h)
    (\<lambda>h1. mcast_inv dev h0 h1 \<and> mcast_groups h1 = mcast_groups h)"
proof -
  from assms obtain P where i: "mcast_device dev" "same_names h0 h" "full_tables h" "pmcast h = Some P"
      "list_ok (mlist P)" "table_ok P" "mirrored dev P h"
    by (auto simp: mcast_inv_def)
  obtain r h1 where u: "hnat_mcast_table_update net ty m h = Some (r, h1)" "table_kept dev P h h1"
    using table_update_spec [OF i(1,4,6,7), of net ty m] by (auto simp: wp_iff)
  then obtain P' where P': "table_ok P'" "mirrored dev P' h1" "mlist P' = mlist P"
      "io_only (all_group_regs h) (h\<lparr>pmcast := Some P'\<rparr>) h1"
    by (auto simp: table_kept_def)
  then have "pmcast h1 = Some P'" using io_only_fields(5) by fastforce
  then have "mcast_inv dev h0 h1 \<and> mcast_groups h1 = mcast_groups h"
    using P' i same_names_trans [OF i(2) same_names_io [OF P'(4)]] full_tables_io [OF P'(4)]
    by (simp add: mcast_inv_def mcast_groups_def)
  with u(1) assms show ?thesis by simp
qed

lemma list_part:
  assumes "mcast_inv dev h0 h"
  shows "wp (hnat_mcast_list_update dev net alloc ty m h) (\<lambda>(r, h').
    mcast_inv dev h0 h' \<and> mcast_groups h' = group_step net h0 (Mdb ty m alloc) (mcast_groups h)
    \<and> (\<forall>d. r = 0 \<and> get_mac_from_mdb_entry m = Some d \<longrightarrow> no_flow_to d h'))"
proof -
  from assms obtain P where i: "mcast_device dev" "same_names h0 h" "full_tables h" "pmcast h = Some P"
      "list_ok (mlist P)" "table_ok P" "mirrored dev P h"
    by (auto simp: mcast_inv_def)
  show ?thesis
  proof (rule wp_pair [OF list_update_spec [OF i(3-5)]])
    fix r h'
    assume o: "list_outcome net h (Mdb ty m alloc) (if r = 0 then get_mac_from_mdb_entry m else None) h'"
    then obtain l where l: "list_ok l" "list_groups l = group_step net h (Mdb ty m alloc) (list_groups (mlist P))"
        "same_but_tables (all_cache_regs h) (put_list l h) h'"
      using i(4) by (auto simp: list_outcome_def)
    have drop: "\<forall>d. r = 0 \<and> get_mac_from_mdb_entry m = Some d \<longrightarrow> no_flow_to d h'"
      using o by (auto simp: list_outcome_def)
    have pm: "pmcast h' = Some (P\<lparr>mlist := l\<rparr>)"
      using same_but_tables_fields(3) [OF l(3)] i(4) by (simp add: put_list_def)
    have "mirrored dev (P\<lparr>mlist := l\<rparr>) (put_list l h)"
      using i(7) by (simp add: mirrored_def reg_now_def put_list_def)
    then have "mirrored dev (P\<lparr>mlist := l\<rparr>) h'" using mirrored_tables [OF i(1) l(3)] by simp
    moreover have "full_tables h'"
      using full_tables_cong [OF l(3)] i(3) by (simp add: full_tables_def put_list_def)
    moreover have "table_ok (P\<lparr>mlist := l\<rparr>)" using i(6) by (simp add: table_ok_def)
    moreover have "mcast_groups h' = group_step net h0 (Mdb ty m alloc) (mcast_groups h)"
      unfolding mcast_groups_def pm i(4) option.case same_names_step [OF i(2), symmetric] l(2) [symmetric] by simp
    ultimately show "mcast_inv dev h0 h' \<and> mcast_groups h' = group_step net h0 (Mdb ty m alloc) (mcast_groups h)
        \<and> (\<forall>d. r = 0 \<and> get_mac_from_mdb_entry m = Some d \<longrightarrow> no_flow_to d h')"
      using drop l(1) pm i(1) same_names_trans [OF i(2) same_names_tables [OF l(3)]]
      by (simp add: mcast_inv_def)
  qed
qed

lemma message_step:
  assumes "mcast_inv dev h0 h"
  shows "wp (hnat_mcast_nlmsg_handler dev net [msg] h)
    (\<lambda>h'. mcast_inv dev h0 h' \<and> mcast_groups h' = group_step net h0 msg (mcast_groups h))"
proof (cases msg)
  case (Mdb ty m alloc)
  obtain h1 where h1: "(if h_mcast h \<and> mcast_multi h then map_option snd (hnat_mcast_table_update net ty m h) else Some h) = Some h1"
      "mcast_inv dev h0 h1" "mcast_groups h1 = mcast_groups h"
    using table_part [OF assms, of net ty m] by (auto simp: wp_iff)
  obtain r h2 where h2: "hnat_mcast_list_update dev net alloc ty m h1 = Some (r, h2)" "mcast_inv dev h0 h2"
      "mcast_groups h2 = group_step net h0 msg (mcast_groups h)"
    using list_part [OF h1(2), of net alloc ty m] by (auto simp: wp_iff Mdb h1(3))
  have "hnat_mcast_nlmsg_handler dev net [msg] h = Some h2"
    unfolding Mdb hnat_mcast_nlmsg_handler.simps h1(1) by (simp add: h2(1))
  with h2(2,3) show ?thesis by simp
qed (use assms in simp_all)

lemma handler_Cons:
  "hnat_mcast_nlmsg_handler dev net (msg # q) h
     = Option.bind (hnat_mcast_nlmsg_handler dev net [msg] h) (hnat_mcast_nlmsg_handler dev net q)"
  by (cases msg) (simp_all add: case_prod_unfold)

interpretation mcast: message_service "hnat_mcast_nlmsg_handler dev net" "group_step net h0" "mcast_inv dev h0" mcast_groups
  for dev net h0
  by unfold_locales (simp, rule handler_Cons, rule message_step)

section \<open>Enabling\<close>

lemma port_set_GDM: "IS_MCAST_PORT_GDM p \<longleftrightarrow> port_set p \<in> {{0}, {2}, {3}}"
proof -
  have "port_set p = {i} \<longleftrightarrow> p = push_bit i 1" if "i < 8" for i
    using port_set_inject [of p "push_bit i 1"] port_set_single [OF that] by simp
  from this [of 0] this [of 2] this [of 3] show ?thesis by (auto simp: IS_MCAST_PORT_GDM_def)
qed

text \<open>Whether a packet to a group may be bound in the unicast mode.\<close>

lemma mcast_uni_groups:
  "hnat_is_mcast_uni (Some (d, tci)) h \<longleftrightarrow>
     mcast_groups h (d, case tci of Some t \<Rightarrow> t AND 0x0fff | None \<Rightarrow> 0) \<in> {{0}, {2}, {3}}"
  unfolding hnat_is_mcast_uni_def hnat_mcast_get_mc_port_def mcast_groups_def list_groups_def port_set_GDM Let_def
  by (simp split: option.split)

text \<open>A table that was just allocated, on registers that are clear.\<close>

definition mcast_clear :: "device \<Rightarrow> mtk_hnat \<Rightarrow> bool" where
  "mcast_clear dev h \<longleftrightarrow> (\<forall>p < ppe_num h. \<forall>i < MAX_MCAST_ENTRY.
     reg_now dev (mcast_reg_h p i) h = 0 \<and> reg_now dev (mcast_reg_l p i) h = 0)"

definition mcast_hw_regs :: "nat \<Rightarrow> reg set" where
  "mcast_hw_regs p = {Ppe p PPE_GLO_CFG, Ppe p PPE_MCAST_PPSE}"

lemma io_only_hw_enable: "io_only (mcast_hw_regs p) h (mcast_hw_enable dev p h)"
  unfolding mcast_hw_enable_def Let_def by (intro hnat_frame) (simp_all add: mcast_hw_regs_def)

lemma hw_regs_other: "i < 64 \<Longrightarrow> mcast_reg_h q i \<notin> mcast_hw_regs p" "i < 64 \<Longrightarrow> mcast_reg_l q i \<notin> mcast_hw_regs p"
  by (auto simp: mcast_hw_regs_def mcast_reg_h_def mcast_reg_l_def split: if_splits)

lemma enable_inv:
  assumes "mcast_device dev" "full_tables h" "pmcast h = None" "mcast_clear dev h" "ppe < ppe_num h"
    and "hnat_mcast_enable dev True True True ppe h = (r, h')"
  shows "r = 0" "mcast_inv dev h h'" "mcast_groups h' = (\<lambda>k. {})"
proof -
  let ?P = "\<lparr>mtbl = replicate MAX_MCAST_ENTRY empty_group, mlist = [],
    max_entry = (if h_version h = MTK_HNAT_V1_1 then 0x10 else MAX_MCAST_ENTRY)\<rparr>"
  have e: "r = 0" "h' = mcast_hw_enable dev ppe (h\<lparr>pmcast := Some ?P\<rparr>)"
    using assms(3,5,6) by (simp_all add: hnat_mcast_enable_def)
  from e(1) show "r = 0" .
  have io: "io_only (mcast_hw_regs ppe) (h\<lparr>pmcast := Some ?P\<rparr>) h'" unfolding e(2) by (rule io_only_hw_enable)
  have pm: "pmcast h' = Some ?P" and pn: "ppe_num h' = ppe_num h"
    using io_only_fields(2,5) [OF io] by simp_all
  have ok: "table_ok ?P" by (simp add: table_ok_def group_ok_def empty_group_def)
  have "mirrored dev ?P h'"
    unfolding mirrored_def
  proof (intro allI impI)
    fix p i assume "p < ppe_num h'" and i: "i < (64 :: nat)"
    then have "reg_now dev (mcast_reg_h p i) (h\<lparr>pmcast := Some ?P\<rparr>) = 0"
        "reg_now dev (mcast_reg_l p i) (h\<lparr>pmcast := Some ?P\<rparr>) = 0"
      using assms(4) pn by (simp_all add: mcast_clear_def reg_now_def)
    with i show "reg_now dev (mcast_reg_h p i) h' = group_h (mtbl ?P ! i) \<and> reg_now dev (mcast_reg_l p i) h' = group_l (mtbl ?P ! i)"
      using mcast_unchanged [OF assms(1) io] hw_regs_other [OF i]
      by (simp add: group_h_def group_l_def empty_group_def)
  qed
  with ok pm show "mcast_inv dev h h'"
    using assms(1,2) full_tables_io [OF io] same_names_io [OF io] by (simp add: mcast_inv_def list_ok_def)
  show "mcast_groups h' = (\<lambda>k. {})" using pm by (simp add: mcast_groups_def list_groups_def fun_eq_iff)
qed

end
