(* ===== verification/Hnat_Mcast_Counts.thy ===== *)
theory Hnat_Mcast_Counts
  imports Hnat_Mcast_Table Hnat_Mcast_List
begin

text \<open>
  Hardware NAT: the table of multicast groups as a map from groups to counters. While the groups
  fill the table from its start without a gap, an update counts a port of its group up or down; an
  update never reaches a group behind a gap.
\<close>

section \<open>The counters of a group\<close>

definition is_group :: "group_key \<Rightarrow> ppe_mcast_group \<Rightarrow> bool" where
  "is_group k g \<longleftrightarrow> g_valid g \<and> g_dmac g = fst k \<and> g_vid g = snd k"

definition table_counts :: "ppe_mcast_table \<Rightarrow> group_key \<Rightarrow> u8 list" where
  "table_counts P k = (case List.find (is_group k) (take (max_entry P) (mtbl P)) of
     None \<Rightarrow> replicate MAX_MCAST_PORT 0 | Some g \<Rightarrow> g_if_num g)"

definition has_group :: "ppe_mcast_table \<Rightarrow> group_key \<Rightarrow> bool" where
  "has_group P k \<longleftrightarrow> (\<exists>i < max_entry P. is_group k (mtbl P ! i))"

text \<open>The first \<open>n\<close> entries are in use, for different groups, and the others are free.\<close>

definition packed :: "nat \<Rightarrow> ppe_mcast_table \<Rightarrow> bool" where
  "packed n P \<longleftrightarrow> n \<le> max_entry P \<and> (\<forall>i < max_entry P. g_valid (mtbl P ! i) \<longleftrightarrow> i < n)
     \<and> (\<forall>i < n. \<forall>j < n. \<forall>k. is_group k (mtbl P ! i) \<longrightarrow> is_group k (mtbl P ! j) \<longrightarrow> i = j)"

lemma find_update_hit:
  assumes "i < length t" "\<And>j. j < length t \<Longrightarrow> j \<noteq> i \<Longrightarrow> \<not> f (t ! j)"
  shows "List.find f (t[i := g]) = (if f g then Some g else None)"
proof (cases "f g")
  case True
  have "\<exists>j. j < length (t[i := g]) \<and> f (t[i := g] ! j) \<and> g = t[i := g] ! j \<and> (\<forall>l < j. \<not> f (t[i := g] ! l))"
    using assms True by (intro exI [of _ i]) (simp add: nth_list_update)
  with True show ?thesis by (simp add: find_Some_iff)
next
  case False
  then show ?thesis
    using assms by (auto simp: find_None_iff in_set_conv_nth nth_list_update split: if_splits)
qed

lemma find_update_miss:
  "\<not> f (t ! i) \<Longrightarrow> \<not> f g \<Longrightarrow> List.find f (t[i := g]) = List.find f t"
proof (induction t arbitrary: i)
  case (Cons x t)
  then show ?case by (cases i) auto
qed simp

lemma find_hit:
  assumes "i < length t" "f (t ! i)" "\<And>j. j < length t \<Longrightarrow> j \<noteq> i \<Longrightarrow> \<not> f (t ! j)"
  shows "List.find f t = Some (t ! i)"
  using find_update_hit [where f = f and t = t and i = i and g = "t ! i"] assms by simp

section \<open>Which entry an update takes\<close>

lemma entry_loop_stops:
  assumes "i \<le> j" "j < i + n" "\<not> g_valid (t ! j)"
  shows "\<exists>l \<le> j. mcast_entry_loop t vid d i n = int l"
  using assms
proof (induction n arbitrary: i)
  case (Suc n)
  show ?case
  proof (cases "i = j")
    case True
    then show ?thesis using Suc.prems(3) by (intro exI [of _ j]) simp
  next
    case False
    with Suc.IH [of "Suc i"] Suc.prems show ?thesis by (auto intro: exI [of _ i])
  qed
qed simp

lemma entry_loop_skip:
  assumes "\<And>l. i \<le> l \<Longrightarrow> l < i + n \<Longrightarrow> g_valid (t ! l) \<and> \<not> is_group (d, vid) (t ! l)"
  shows "mcast_entry_loop t vid d i (n + m) = mcast_entry_loop t vid d (i + n) m"
  using assms
proof (induction n arbitrary: i)
  case (Suc n)
  have "g_valid (t ! i) \<and> \<not> is_group (d, vid) (t ! i)" using Suc.prems by simp
  moreover have "mcast_entry_loop t vid d (Suc i) (n + m) = mcast_entry_loop t vid d (Suc i + n) m"
    using Suc.prems by (intro Suc.IH) auto
  ultimately show ?case by (auto simp: is_group_def)
qed simp

lemma entry_packed_hit:
  assumes "packed n P" "i < n" "is_group (d, v) (mtbl P ! i)"
  shows "mcast_entry_get P v d = int i"
proof -
  have "g_valid (mtbl P ! l) \<and> \<not> is_group (d, v) (mtbl P ! l)" if "l < i" for l
    using assms that unfolding packed_def by (metis less_imp_neq less_trans order_less_le_trans)
  then have "mcast_entry_loop (mtbl P) v d 0 (i + (max_entry P - i)) = mcast_entry_loop (mtbl P) v d (0 + i) (max_entry P - i)"
    by (intro entry_loop_skip) simp_all
  moreover have "max_entry P - i = Suc (max_entry P - Suc i)" and le: "i \<le> max_entry P"
    using assms(1,2) by (auto simp: packed_def)
  ultimately show ?thesis using assms(3) by (simp add: mcast_entry_get_def is_group_def)
qed

lemma entry_packed_miss:
  assumes "packed n P" "\<not> has_group P (d, v)"
  shows "mcast_entry_get P v d = (if n < max_entry P then int n else -1)"
proof -
  have n: "n \<le> max_entry P" using assms(1) by (simp add: packed_def)
  have "g_valid (mtbl P ! l) \<and> \<not> is_group (d, v) (mtbl P ! l)" if "l < n" for l
    using assms that n by (auto simp: packed_def has_group_def)
  then have "mcast_entry_loop (mtbl P) v d 0 (n + (max_entry P - n)) = mcast_entry_loop (mtbl P) v d (0 + n) (max_entry P - n)"
    by (intro entry_loop_skip) simp_all
  moreover have "mcast_entry_loop (mtbl P) v d n (max_entry P - n) = (if n < max_entry P then int n else -1)"
  proof (cases "n < max_entry P")
    case True
    then have "max_entry P - n = Suc (max_entry P - Suc n)" "\<not> g_valid (mtbl P ! n)"
      using assms(1) by (simp_all add: packed_def)
    with True show ?thesis by simp
  qed simp
  ultimately show ?thesis using n by (simp add: mcast_entry_get_def)
qed

section \<open>The result of an update\<close>

lemma pmcast_group_write [simp]: "pmcast (snd (mcast_group_write i g h)) = pmcast h"
proof -
  have c: "pmcast (clr_mtbl_loop i p n h) = pmcast h" for p n h
    by (induction n arbitrary: p h) (simp_all add: clr_hnat_mtbl_def writel_def)
  have s: "pmcast (set_mtbl_loop g i p n h) = pmcast h" for g p n h
    by (induction n arbitrary: p h) (simp_all add: set_hnat_mtbl_def writel_def Let_def)
  show ?thesis by (simp add: mcast_group_write_def Let_def c s)
qed

lemma ports_of_loop_0:
  "i + length cs \<le> 8 \<Longrightarrow> ports_of_loop cs i m = 0 \<longleftrightarrow> m = 0 \<and> (\<forall>c \<in> set cs. c = 0)"
proof (induction cs arbitrary: i m)
  case (Cons c cs)
  have "m OR push_bit i 1 \<noteq> 0"
    using Cons.prems port_set_or [of m "push_bit i 1"] port_set_single [of i] port_set_empty [of "m OR push_bit i 1"]
    by (simp del: port_set_empty)
  with Cons.IH [of "Suc i"] Cons.prems show ?case by (auto simp: word_greater_zero_iff)
qed simp

text \<open>The group after the ports were computed: it is cleared when no counter is left.\<close>

lemma group_write_counts:
  assumes "length (g_if_num g) = MAX_MCAST_PORT" "is_group k g"
  shows "(if is_group k (fst (mcast_group_write i g h)) then g_if_num (fst (mcast_group_write i g h))
      else replicate MAX_MCAST_PORT 0) = g_if_num g"
    and "is_group k' (fst (mcast_group_write i g h)) \<Longrightarrow> k' = k"
proof -
  have "ports_of_loop (g_if_num g) 0 0 = 0 \<Longrightarrow> g_if_num g = replicate MAX_MCAST_PORT 0"
    using ports_of_loop_0 [of 0 "g_if_num g" 0] assms(1) by (intro replicate_eqI) simp_all
  with assms show "(if is_group k (fst (mcast_group_write i g h)) then g_if_num (fst (mcast_group_write i g h))
      else replicate MAX_MCAST_PORT 0) = g_if_num g"
    by (auto simp: mcast_group_write_def Let_def is_group_def empty_group_def)
  show "is_group k' (fst (mcast_group_write i g h)) \<Longrightarrow> k' = k"
    using assms(2) by (auto simp: mcast_group_write_def Let_def is_group_def empty_group_def prod_eq_iff split: if_splits)
qed

lemma counts_put:
  assumes "i < max_entry P" "max_entry P \<le> length (mtbl P)"
    and "\<And>j. j < max_entry P \<Longrightarrow> j \<noteq> i \<Longrightarrow> \<not> is_group k (mtbl P ! j)"
    and "\<And>k'. is_group k' (mtbl P ! i) \<Longrightarrow> k' = k" "\<And>k'. is_group k' g \<Longrightarrow> k' = k"
  shows "table_counts (P\<lparr>mtbl := (mtbl P)[i := g]\<rparr>)
    = (table_counts P)(k := (if is_group k g then g_if_num g else replicate MAX_MCAST_PORT 0))"
proof
  fix k'
  let ?t = "take (max_entry P) (mtbl P)"
  have t: "take (max_entry P) ((mtbl P)[i := g]) = ?t[i := g]" by (rule take_update_swap)
  show "table_counts (P\<lparr>mtbl := (mtbl P)[i := g]\<rparr>) k'
      = ((table_counts P)(k := (if is_group k g then g_if_num g else replicate MAX_MCAST_PORT 0))) k'"
  proof (cases "k' = k")
    case True
    have "List.find (is_group k) (?t[i := g]) = (if is_group k g then Some g else None)"
      using assms(1-3) by (intro find_update_hit) simp_all
    then show ?thesis by (simp add: True table_counts_def t)
  next
    case False
    then have "\<not> is_group k' (?t ! i)" "\<not> is_group k' g" using assms(1) assms(4,5) [of k'] by auto
    then have "List.find (is_group k') (?t[i := g]) = List.find (is_group k') ?t" by (rule find_update_miss)
    with False show ?thesis by (simp add: table_counts_def t)
  qed
qed

text \<open>What counting a port up or down does to the counters.\<close>

definition bump :: "u16 \<Rightarrow> nat \<Rightarrow> u8 list \<Rightarrow> u8 list" where
  "bump ty port c = (if ty = RTM_NEWMDB then c[port := c ! port + 1] else c[port := c ! port - 1])"

lemma target_Some:
  assumes "mdb_target net h m = Some ((dmac, v), port)"
  obtains d where "net (mdb_ifindex m) = Some d" "get_mac_from_mdb_entry m = Some dmac" "mdb_vid m = v"
    "\<And>i g. mcast_port (put_group i g h) d = Some port"
proof -
  from assms obtain d where d: "net (mdb_ifindex m) = Some d" "get_mac_from_mdb_entry m = Some dmac" "mdb_vid m = v"
      "mcast_port h d = Some port"
    by (auto simp: mdb_target_def bind_eq_Some_conv)
  have "mcast_port (put_group i g h) d = Some port" for i g
    using same_names_port [of h "put_group i g h" d] d(4) by (simp add: same_names_def put_group_def)
  with d that show thesis by blast
qed

lemma update_at:
  assumes "pmcast h = Some P" "mdb_target net h m = Some ((dmac, v), port)" "mcast_entry_get P v dmac = int i"
    and "ty = RTM_NEWMDB \<or> ty = RTM_DELMDB" "length (g_if_num (mtbl P ! i)) = MAX_MCAST_PORT"
    and "ty = RTM_NEWMDB \<or> g_valid (mtbl P ! i)" "g_valid (mtbl P ! i) \<Longrightarrow> is_group (dmac, v) (mtbl P ! i)"
  shows "\<exists>h' g'. hnat_mcast_table_update net ty m h = Some (0, h') \<and> pmcast h' = Some (P\<lparr>mtbl := (mtbl P)[i := g']\<rparr>)
    \<and> (if is_group (dmac, v) g' then g_if_num g' else replicate MAX_MCAST_PORT 0) = bump ty port (g_if_num (mtbl P ! i))
    \<and> (\<forall>k. is_group k g' \<longrightarrow> k = (dmac, v))"
proof -
  obtain d where t: "net (mdb_ifindex m) = Some d" "get_mac_from_mdb_entry m = Some dmac" "mdb_vid m = v"
      "\<And>j g. mcast_port (put_group j g h) d = Some port"
    using target_Some [OF assms(2)] by blast
  let ?g = "(mtbl P ! i)\<lparr>g_dmac := dmac\<rparr>"
  let ?h = "put_group i ?g h"
  define g where "g = (if ty = RTM_NEWMDB
    then ?g\<lparr>g_if_num := (g_if_num ?g)[port := g_if_num ?g ! port + 1], g_vid := v, g_valid := True\<rparr>
    else ?g\<lparr>g_if_num := (g_if_num ?g)[port := g_if_num ?g ! port - 1]\<rparr>)"
  have g: "is_group (dmac, v) g" "g_if_num g = bump ty port (g_if_num (mtbl P ! i))" "length (g_if_num g) = MAX_MCAST_PORT"
    using assms(5-7) by (auto simp: g_def is_group_def bump_def)
  let ?w = "mcast_group_write i g ?h"
  have "hnat_mcast_table_update net ty m h = Some (0, put_group i (fst ?w) (snd ?w))"
    using assms(1,3,4,6) t by (auto simp: hnat_mcast_table_update_def Let_def g_def case_prod_unfold)
  moreover have "pmcast (put_group i (fst ?w) (snd ?w)) = Some (P\<lparr>mtbl := (mtbl P)[i := fst ?w]\<rparr>)"
    using assms(1) by (simp add: put_group_def)
  ultimately show ?thesis
    using group_write_counts(1) [OF g(3,1), where i = i and h = "?h"] group_write_counts(2) [OF g(3,1), where i = i and h = "?h"] g(2)
    by (intro exI [of _ "put_group i (fst ?w) (snd ?w)"] exI [of _ "fst ?w"]) simp
qed

lemma packed_unique:
  assumes "packed n P" "i < n" "is_group k (mtbl P ! i)" "j < max_entry P" "j \<noteq> i"
  shows "\<not> is_group k (mtbl P ! j)"
  using assms by (auto simp: packed_def is_group_def)

lemma packed_put:
  assumes "packed n P" "max_entry P \<le> length (mtbl P)" "i < max_entry P" "i < n \<or> i = n"
    and "is_group k g" "\<forall>k'. is_group k' g \<longrightarrow> k' = k"
    and "\<And>j. j < max_entry P \<Longrightarrow> j \<noteq> i \<Longrightarrow> \<not> is_group k (mtbl P ! j)"
  shows "packed (if i < n then n else Suc n) (P\<lparr>mtbl := (mtbl P)[i := g]\<rparr>)"
proof -
  let ?t = "(mtbl P)[i := g]" and ?n = "if i < n then n else Suc n"
  have n: "?n \<le> max_entry P" and g: "g_valid g" using assms(1,3,5) by (auto simp: packed_def is_group_def)
  have v: "g_valid (?t ! j) \<longleftrightarrow> j < ?n" if "j < max_entry P" for j
    using assms(1-4) g that by (cases "j = i") (auto simp: packed_def)
  have "a = b" if "a < ?n" "b < ?n" "is_group k' (?t ! a)" "is_group k' (?t ! b)" for a b k'
  proof -
    have lt: "a < max_entry P" "b < max_entry P" using that n by auto
    show ?thesis
    proof (cases "a = i \<or> b = i")
      case True
      then have "is_group k' g" using assms(2,3) that(3,4) by auto
      then have "k' = k" using assms(6) by blast
      then have "j = i" if "j < max_entry P" "is_group k' (?t ! j)" for j using assms(7) [of j] that by (cases "j = i") auto
      then show ?thesis using lt that(3,4) by blast
    next
      case False
      then have "a < n" "b < n" using that(1,2) assms(4) by (auto split: if_splits)
      moreover have "is_group k' (mtbl P ! a)" "is_group k' (mtbl P ! b)" using False that(3,4) by simp_all
      ultimately show ?thesis using assms(1) unfolding packed_def by blast
    qed
  qed
  with n v show ?thesis by (simp add: packed_def)
qed

lemma update_counts:
  assumes "pmcast h = Some P" "table_ok P" "packed n P" "mdb_target net h m = Some (k, port)"
    and "ty = RTM_NEWMDB \<and> (has_group P k \<or> n < max_entry P) \<or> ty = RTM_DELMDB \<and> has_group P k"
  shows "\<exists>h' P'. hnat_mcast_table_update net ty m h = Some (0, h') \<and> pmcast h' = Some P'
    \<and> table_counts P' = (table_counts P)(k := bump ty port (table_counts P k))
    \<and> (bump ty port (table_counts P k) \<noteq> replicate MAX_MCAST_PORT 0 \<longrightarrow> packed (if has_group P k then n else Suc n) P')"
proof -
  obtain dmac v where k: "k = (dmac, v)" by (cases k)
  have len: "length (mtbl P) = 64" "max_entry P \<le> 64" and ok: "\<And>i. i < 64 \<Longrightarrow> group_ok (mtbl P ! i)"
    using assms(2) by (simp_all add: table_ok_def)
  have "\<exists>i. i < max_entry P \<and> mcast_entry_get P v dmac = int i
      \<and> (g_valid (mtbl P ! i) \<longrightarrow> is_group k (mtbl P ! i)) \<and> (has_group P k \<longrightarrow> is_group k (mtbl P ! i))
      \<and> (\<forall>j < max_entry P. j \<noteq> i \<longrightarrow> \<not> is_group k (mtbl P ! j)) \<and> (if has_group P k then i < n else i = n)"
  proof (cases "has_group P k")
    case True
    then obtain i where i: "i < max_entry P" "is_group k (mtbl P ! i)" by (auto simp: has_group_def)
    then have "i < n" using assms(3) by (auto simp: packed_def is_group_def)
    with i show ?thesis
      using entry_packed_hit [OF assms(3), of i dmac v] packed_unique [OF assms(3)] by (intro exI [of _ i]) (auto simp: k True [unfolded k])
  next
    case False
    with assms(5) have n: "n < max_entry P" by blast
    with False show ?thesis
      using entry_packed_miss [OF assms(3), of dmac v] assms(3)
      by (intro exI [of _ n]) (auto simp: k packed_def has_group_def)
  qed
  then obtain i where i: "i < max_entry P" "mcast_entry_get P v dmac = int i"
      "g_valid (mtbl P ! i) \<Longrightarrow> is_group k (mtbl P ! i)" "has_group P k \<Longrightarrow> is_group k (mtbl P ! i)"
      "\<And>j. j < max_entry P \<Longrightarrow> j \<noteq> i \<Longrightarrow> \<not> is_group k (mtbl P ! j)" "if has_group P k then i < n else i = n" by blast
  have len5: "length (g_if_num (mtbl P ! i)) = 5" using ok [of i] i(1) len(2) by (simp add: group_ok_def)
  have "ty = RTM_NEWMDB \<or> g_valid (mtbl P ! i)" using assms(5) i(4) by (auto simp: is_group_def)
  moreover have "ty = RTM_NEWMDB \<or> ty = RTM_DELMDB" using assms(5) by blast
  ultimately obtain h' g' where u: "hnat_mcast_table_update net ty m h = Some (0, h')"
      "pmcast h' = Some (P\<lparr>mtbl := (mtbl P)[i := g']\<rparr>)"
      "(if is_group k g' then g_if_num g' else replicate 5 0) = bump ty port (g_if_num (mtbl P ! i))"
      "\<forall>k'. is_group k' g' \<longrightarrow> k' = k"
    using update_at [OF assms(1) assms(4) [unfolded k] i(2) _ len5, of ty] i(3) unfolding k by blast
  have at: "is_group k' (mtbl P ! i) \<Longrightarrow> k' = k" for k'
    using i(3) by (auto simp: is_group_def prod_eq_iff)
  have le: "max_entry P \<le> length (mtbl P)" using len by simp
  have "table_counts P = (table_counts P)(k := (if is_group k (mtbl P ! i) then g_if_num (mtbl P ! i) else replicate 5 0))"
    using counts_put [OF i(1) le i(5) at, of "mtbl P ! i"] at by simp
  then have "table_counts P k = (if is_group k (mtbl P ! i) then g_if_num (mtbl P ! i) else replicate 5 0)"
    by (metis fun_upd_same)
  then have "table_counts P k = g_if_num (mtbl P ! i)"
    using i(1,3) ok [of i] len(2) by (auto simp: group_ok_def)
  moreover have "packed (if has_group P k then n else Suc n) (P\<lparr>mtbl := (mtbl P)[i := g']\<rparr>)" if "is_group k g'"
  proof (cases "has_group P k")
    case True
    with i(6) have "i < n" by simp
    with True packed_put [OF assms(3) le i(1) _ that u(4) i(5)] show ?thesis by simp
  next
    case False
    with i(6) have "i = n" by simp
    with False packed_put [OF assms(3) le i(1) _ that u(4) i(5)] show ?thesis by simp
  qed
  moreover have "table_counts (P\<lparr>mtbl := (mtbl P)[i := g']\<rparr>) = (table_counts P)(k := bump ty port (g_if_num (mtbl P ! i)))"
    using counts_put [OF i(1) le i(5) at, of g'] u(3,4) by simp
  moreover have "bump ty port (g_if_num (mtbl P ! i)) \<noteq> replicate 5 0 \<Longrightarrow> is_group k g'"
    using u(3) by presburger
  ultimately show ?thesis using u(1,2)
    by (intro exI [of _ h'] exI [of _ "P\<lparr>mtbl := (mtbl P)[i := g']\<rparr>"] conjI impI) simp_all
qed

section \<open>A group behind a gap\<close>

text \<open>An update takes an entry not behind the first free one: a group further back keeps its
  counters, whatever is joined or left.\<close>

lemma update_before_gap:
  assumes "pmcast h = Some P" "length (mtbl P) = 64" "j < max_entry P" "\<not> g_valid (mtbl P ! j)" "j < i"
  shows "wp (hnat_mcast_table_update net ty m h) (\<lambda>(r, h'). \<exists>P'. pmcast h' = Some P' \<and> mtbl P' ! i = mtbl P ! i)"
proof -
  have l: "\<exists>l \<le> j. mcast_entry_get P vid d = int l" for vid d
    unfolding mcast_entry_get_def using assms(3,4) by (intro entry_loop_stops) simp_all
  show ?thesis
  proof (cases "\<exists>d dmac. net (mdb_ifindex m) = Some d \<and> get_mac_from_mdb_entry m = Some dmac")
    case False
    then show ?thesis using assms(1) by (auto simp: hnat_mcast_table_update_def split: option.splits)
  next
    case True
    then obtain d dmac k where "net (mdb_ifindex m) = Some d" "get_mac_from_mdb_entry m = Some dmac"
        "mcast_entry_get P (mdb_vid m) dmac = int k" "k \<le> j"
      using l by blast
    with assms show ?thesis
      by (auto simp: hnat_mcast_table_update_def Let_def put_group_simps case_prod_unfold split: option.split)
  qed
qed

end
