(* ===== verification/Hnat_Demo.thy ===== *)
theory Hnat_Demo
  imports Hnat_Mib Hnat_Mode Hnat_Skb Hnat_Mcast_Service Hnat_Mcast_Counts
begin

text \<open>
  A small concrete engine, on which the properties are tried out: registers that are memory, one
  flow table with a bound flow at index 5, an interface \<open>eth0\<close> on the first port and an IPv4 group.
\<close>

fun mem_dev :: device where
  "mem_dev [] r = 0" |
  "mem_dev (Rd r' # l) r = mem_dev l r" |
  "mem_dev (Wr r' v # l) r = (if r' = r then v else mem_dev l r)"

lemma mem_holds: "holds mem_dev r m"
  unfolding holds_def
proof (intro allI)
  fix l x
  show "mem_dev (x # l) r AND m = (case x of Rd r' \<Rightarrow> mem_dev l r AND m
      | Wr r' v \<Rightarrow> if r' = r then v AND m else mem_dev l r AND m)"
    by (cases x) simp_all
qed

lemma mem_devices: "cache_device mem_dev p" "mcast_device mem_dev"
  by (simp_all add: cache_device_def mcast_device_def mem_holds)

definition demo_path :: flow_offload_hw_path where
  "demo_path = \<lparr>eth_dest = [2, 0, 0, 0, 0, 1], eth_src = [2, 0, 0, 0, 0, 2], pppoe_sid = 0\<rparr>"

definition demo_flow :: "u32 \<Rightarrow> foe_entry" where
  "demo_flow t = setf hnat_bind_info_blk ''state'' BIND (setf hnat_bind_info_blk ''pkt_type'' t zero_entry)"

lemma demo_flow [simp]:
  "foe_state (demo_flow t) = BIND" "t < 32 \<Longrightarrow> pkt_type (demo_flow t) = t"
proof -
  show "foe_state (demo_flow t) = BIND" by (simp add: demo_flow_def foe_fields)
  have m: "(mask 5 :: u32) = 31" by (simp add: mask_eq_exp_minus_1)
  assume "t < 32"
  then have "t AND mask 5 = t" by (intro less_mask_eq) simp
  then have "take_bit 5 t = t" by (simp add: take_bit_eq_mask)
  then show "pkt_type (demo_flow t) = t" by (simp add: demo_flow_def foe_fields)
qed

definition demo_hnat :: "foe_entry \<Rightarrow> mtk_hnat" where
  "demo_hnat e = \<lparr>h_version = MTK_HNAT_V3, h_mcast = True, mcast_multi = True, h_wan = ''eth1'', h_lan = ''eth0'',
     h_lan2 = ''eth2'', ppe_num = 1, foe_etry_num = 8192, foe_table_cpu = [(replicate 8192 zero_entry)[5 := e]],
     pmcast = None, h_io = [], per_flow_accounting = False, etry_num_cfg = 3, foe_table_dev = [0], foe_flow = [2048],
     foe_mib_dev = [0],
     acct = [replicate 8192 no_counts]\<rparr>"

lemma demo_flow_tables: "full_tables (demo_hnat e)" "sized_tables (demo_hnat e)" "foe_at (demo_hnat e) 0 5 = Some e"
  by (simp_all add: full_tables_def sized_tables_def foe_at_def demo_hnat_def)

definition demo_tuple :: hnat_tuple where
  "demo_tuple = \<lparr>
    t_ppe_index = 0, t_hash_index = 5, t_ttl = 0, t_psn = 0, t_fqos = 0, t_qid = 0, t_vlan_layer = 0,
    t_dscp = 0, t_pkt_type = 0, t_is_udp = 0, t_fdr_en = 0, t_rxid = 0, t_fp = 0, t_tid = 0,
    t_is_prior = 0, t_dmac = replicate 6 0, t_smac = replicate 6 0, t_vlan1 = 0, t_vlan2 = 0,
    t_pppoe_id = 0, t_ing_sipv4 = 0, t_ing_dipv4 = 0, t_ing_sipv6 = replicate 4 0,
    t_ing_dipv6 = replicate 4 0, t_eg_sipv4 = 0, t_eg_dipv4 = 0, t_eg_sipv6 = replicate 4 0,
    t_eg_dipv6 = replicate 4 0, t_ing_sp = 0, t_ing_dp = 0, t_eg_sp = 0, t_eg_dp = 0,
    t_ing_dev = ''eth0'', t_eg_dev = ''eth0''\<rparr>"

text \<open>A flow that the driver has put on another port than that of the queues, with the mark and a queue.\<close>

definition demo_other_port :: foe_entry where
  "demo_other_port = setf hnat_ipv4_hnapt ''tport_id'' 5 (setf hnat_ipv4_hnapt ''iblk2.fqos'' 1
     (setf hnat_ipv4_hnapt ''iblk2.qid'' 3 (demo_flow IPV4_HNAPT)))"

lemma demo_other_port:
  "pkt_type demo_other_port = IPV4_HNAPT" "entry_hnat_is_bound demo_other_port"
  "getf hnat_ipv4_hnapt ''iblk2.fqos'' demo_other_port = 1" "getf hnat_ipv4_hnapt ''iblk2.qid'' demo_other_port = 3"
  "getf hnat_ipv4_hnapt ''tport_id'' demo_other_port = 5"
  by code_simp+

lemma demo_other_tuple:
  "t_fqos (mtk_hnat_foe_to_hnat_tuple demo_other_port opt) = 0" "t_qid (mtk_hnat_foe_to_hnat_tuple demo_other_port opt) = 3"
  by (simp_all add: tuple_fields tuple_layout_def demo_other_port)

lemma demo_get:
  "entry_hnat_is_bound e \<Longrightarrow>
   mtk_hnat_get_ppe_entry_by_index (demo_hnat e) demo_tuple = Some (HNAT_SUCCESS, mtk_hnat_foe_to_hnat_tuple e demo_tuple)"
  using demo_flow_tables(3) [of e]
  by (simp add: mtk_hnat_get_ppe_entry_by_index_def demo_tuple_def Let_def) (simp add: demo_hnat_def)

section \<open>Multicast\<close>

definition demo_netns :: netns where
  "demo_netns i = (if i = 2 then Some \<lparr>nd_name = ''eth0'', nd_mac_id = 0, nd_path_mac_id = None\<rparr> else None)"

text \<open>The group 239.1.2.3 on VLAN 1.\<close>

definition demo_mdb :: br_mdb_entry where
  "demo_mdb = \<lparr>mdb_ifindex = 2, mdb_vid = 1, mdb_addr = (\<lambda>_. 0x030201EF), mdb_proto = 0x0008\<rparr>"

definition demo_key :: group_key where
  "demo_key = ([1, 0, 0x5e, 1, 2, 3], 1)"

lemma demo_mac: "get_mac_from_mdb_entry demo_mdb = Some (fst demo_key)"
  by code_simp

lemma demo_target:
  assumes "h_lan h = ''eth0''"
  shows "mdb_target demo_netns h demo_mdb = Some (demo_key, 2)"
  using demo_mac
  by (simp add: mdb_target_def demo_netns_def demo_mdb_def demo_key_def mcast_port_def IS_ETH_GRP_def IS_DSA_LAN_def
      name_starts_def assms)

lemma demo_clear: "mcast_clear mem_dev (demo_hnat e)"
  by (simp add: mcast_clear_def reg_now_def demo_hnat_def)

definition demo_mcast :: mtk_hnat where
  "demo_mcast = snd (hnat_mcast_enable mem_dev True True True 0 (demo_hnat zero_entry))"

lemma demo_enabled:
  "hnat_mcast_enable mem_dev True True True 0 (demo_hnat zero_entry) = (0, demo_mcast)"
  "mcast_inv mem_dev (demo_hnat zero_entry) demo_mcast" "mcast_groups demo_mcast = (\<lambda>k. {})"
proof -
  have p: "pmcast (demo_hnat zero_entry) = None" "0 < ppe_num (demo_hnat zero_entry)" by (simp_all add: demo_hnat_def)
  obtain r where e: "hnat_mcast_enable mem_dev True True True 0 (demo_hnat zero_entry) = (r, demo_mcast)"
    unfolding demo_mcast_def by (metis prod.collapse)
  note i = enable_inv [OF mem_devices(2) demo_flow_tables(1) p(1) demo_clear p(2) e]
  show "hnat_mcast_enable mem_dev True True True 0 (demo_hnat zero_entry) = (0, demo_mcast)" using e i(1) by simp
  show "mcast_inv mem_dev (demo_hnat zero_entry) demo_mcast" "mcast_groups demo_mcast = (\<lambda>k. {})" by (rule i)+
qed

text \<open>A table with the group in the second place and nothing in the first.\<close>

definition demo_group :: ppe_mcast_group where
  "demo_group = \<lparr>g_vid = 1, g_dmac = fst demo_key, g_if_num = [0, 0, 1, 0, 0], g_mc_port = 4, g_valid = True\<rparr>"

definition demo_gap :: mtk_hnat where
  "demo_gap = (demo_hnat zero_entry)\<lparr>pmcast := Some \<lparr>mtbl = (replicate 64 empty_group)[1 := demo_group], mlist = [],
     max_entry = 64\<rparr>\<rparr>"

definition demo_free :: ppe_mcast_table where
  "demo_free = \<lparr>mtbl = replicate 64 empty_group, mlist = [], max_entry = 64\<rparr>"

lemma demo_free: "table_ok demo_free" "packed 0 demo_free" "table_counts demo_free demo_key = replicate 5 0"
proof -
  show "table_ok demo_free" by (simp add: table_ok_def demo_free_def group_ok_def empty_group_def)
  show "packed 0 demo_free" by (simp add: packed_def demo_free_def empty_group_def)
  have "List.find (is_group demo_key) (take 64 (replicate 64 empty_group)) = None"
    by (simp add: find_None_iff is_group_def empty_group_def)
  then show "table_counts demo_free demo_key = replicate 5 0" by (simp add: table_counts_def demo_free_def)
qed

section \<open>Starting\<close>

text \<open>A start in which the first allocation fails and the second succeeds.\<close>

abbreviation (input) demo_dma :: "nat \<Rightarrow> u32 option" where
  "demo_dma \<equiv> (\<lambda>cfg. if cfg = 3 then None else Some 0x40000000)"

lemma demo_engine_start:
  "\<exists>h'. hnat_start mem_dev demo_dma (\<lambda>_. True) None False 0 (demo_hnat zero_entry) = Some (0, h')"
proof -
  let ?h = "demo_hnat zero_entry"
  have n4: "(4 :: nat) = Suc (Suc 2)" by simp
  have four: "map_foe_table demo_dma (\<lambda>_. True) 0 4 h = (2, h\<lparr>foe_etry_num := foe_etry_num h div 2,
      foe_table_cpu := (foe_table_cpu h)[0 := [], 0 := replicate (foe_etry_num h div 2) zero_entry],
      foe_table_dev := (foe_table_dev h)[0 := 0x40000000], foe_flow := (foe_flow h)[0 := foe_etry_num h div 2 div 4]\<rparr>)" for h
    unfolding n4 map_foe_table.simps Let_def by (simp add: numeral_2_eq_2)
  show ?thesis
    unfolding hnat_start_def four clear_table_def
    by (simp add: demo_hnat_def writel_def Let_def split: if_split)
qed

section \<open>Counters and packets\<close>

text \<open>An engine that is never busy and holds 1500 bytes and one packet for every entry.\<close>

definition mib_dev :: device where
  "mib_dev l r = (if r = Ppe 0 PPE_MIB_SER_R0 then 1500 else if r = Ppe 0 PPE_MIB_SER_R2 then 1 else 0)"

definition demo_counting :: mtk_hnat where
  "demo_counting = (demo_hnat (demo_flow IPV4_HNAPT))\<lparr>per_flow_accounting := True\<rparr>"

definition demo_conntrack :: nf_conntrack where
  "demo_conntrack = \<lparr>ct_hash = (\<lambda>z t. Some (0, 0)), ct_counter = (\<lambda>c. Some (\<lambda>dir. (0, 0)))\<rparr>"

lemma demo_counting_tables: "counted_tables demo_counting"
  by (simp add: counted_tables_def foe_at_def acct_at_def demo_counting_def demo_hnat_def)

lemma demo_counting_fields:
  "per_flow_accounting demo_counting" "unat (0 :: u16) < ppe_num demo_counting" "unat (5 :: u16) < foe_etry_num demo_counting"
  "foe_at demo_counting (unat (0 :: u16)) (unat (5 :: u16)) = Some (demo_flow IPV4_HNAPT)"
  "entry_hnat_is_bound (demo_flow IPV4_HNAPT)"
  by (simp_all add: demo_counting_def demo_hnat_def foe_at_def entry_hnat_is_bound_def)

lemma mib_dev_latched:
  "mib_latched mib_dev (unat (0 :: u16)) (h_version demo_counting) 1500 1 l \<and> mib_fits (h_version demo_counting) 1500 1"
proof -
  have "mib_word MTK_HNAT_V3 1500 1 k = (if k = 0 then 1500 else if k = 2 then 1 else 0)" if "k < 4" for k
  proof -
    from that consider "k = 0" | "k = 1" | "k = 2" | "k = 3" by linarith
    then show ?thesis by cases (simp_all add: mib_word_def)
  qed
  then show ?thesis by (simp add: mib_latched_def mib_fits_def mib_dev_def demo_counting_def demo_hnat_def)
qed

text \<open>A packet the engine handed up for the flow at index 5.\<close>

definition demo_skb :: sk_buff where
  "demo_skb = \<lparr>skb_headroom = 32, skb_head = setf hnat_desc ''entry'' 5 (setf hnat_desc ''crsn'' 0x15
     (setf hnat_desc ''magic_tag_protect'' 0x6789 zero_entry))\<rparr>"

lemma demo_skb:
  "getf hnat_desc ''entry'' (skb_head demo_skb) = 5" "getf hnat_desc ''crsn'' (skb_head demo_skb) = 0x15"
  "getf hnat_desc ''sport'' (skb_head demo_skb) = 0" "getf hnat_desc ''alg'' (skb_head demo_skb) = 0"
  "getf hnat_desc ''magic_tag_protect'' (skb_head demo_skb) = 0x6789" "skb_headroom demo_skb = 32"
  by code_simp+

lemma demo_skb_index: "hnat_get_idx_from_skb (demo_hnat e) (Some demo_skb) = Some (0, 5)"
  by (simp add: hnat_get_idx_from_skb_def demo_skb is_magic_tag_valid_def IS_SPACE_AVAILABLE_HEAD_def
      skb_hnat_is_hashed_def skb_hnat_entry_def skb_hnat_ppe_def demo_hnat_def)

end
