(* ===== verification/Spec2Isabelle.thy ===== *)
theory Spec2Isabelle
  imports Nmbm_Demo Bmt_Demo Hnat_Demo
begin

text \<open>
  The MediaTek bad-block layers of this repository, between the NAND driver and the MTD users, and the
  driver of the hardware NAT engine.

  \<^bold>\<open>The program.\<close> NMBM (NAND mapped-block management) hides bad NAND blocks behind logic blocks. A chip
  is divided into data blocks, a management area and a signature block at its end; the management
  area holds two copies of an information table (block states and the logic-to-physical mapping) and
  the spare blocks. \<open>nmbm-core.c\<close> (under \<open>linux-mediatek-5.4/generic/files-5.4/drivers/mtd/nmbm/\<close>)
  keeps the tables and does every access to the chip through the function pointers of
  \<open>struct nmbm_lower_device\<close>; \<open>nmbm-mtd.c\<close> fills these from an MTD device below and registers an MTD
  device above, whose operations take a device lock and call the core. On the newer kernels \<open>mtk_bmt\<close>
  (under \<open>linux-mediatek-6.12/generic/files/drivers/mtd/nand/\<close>) does the same job inside the NAND core:
  \<open>mtk_bmt.c\<close> replaces the operations of the MTD device by its own, which translate every block and
  remap the ones that fail, and calls a table format through \<open>struct mtk_bmt_ops\<close>: \<open>mtk_bmt_v2.c\<close> (a pool
  of spare blocks and two arrays), \<open>mtk_bmt_bbt.c\<close> (two bits per block) or \<open>mtk_bmt_nmbm.c\<close> (the tables of
  NMBM).

  The hardware NAT driver (\<open>mtk_hnat\<close>, under
  \<open>linux-mediatek-5.4/mediatek/files-5.4/drivers/net/ethernet/mediatek/mtk_hnat/\<close>) keeps, for every packet
  engine (PPE), a table of flow entries in memory that the engine reads through a cache. \<open>hnat.c\<close> sets the
  engines up, works the cache and drops entries by MAC or IP address; \<open>hnat_api.c\<close> lets other drivers read
  and change entries by index or by packet and read the packet counters; \<open>hnat_mcast.c\<close> follows the MDB messages of the bridge and tells the engines
  which ports a multicast group has. The netfilter hooks that bind flows are the users of all this.

  \<^bold>\<open>The theories.\<close>
  \<^item> \<open>Nmbm_Prelude\<close>: weakest preconditions of runs that may not return (\<open>wp\<close>), byte buffers,
    little-endian encodings, 64-bit arithmetic, and the locale \<open>contract\<close>: an invariant and a relation
    that all operations of a component keep to.
  \<^item> \<open>Nmbm_Types\<close>: \<open>nmbm-private.h\<close> and \<open>nmbm.h\<close> as records, with the on-flash encodings.
  \<^item> \<open>Nmbm_Chip\<close>: the page and block operations with their retries, and \<open>lower_call\<close> /
    \<open>chip_evolves\<close>: which lower device calls an operation may have made.
  \<^item> \<open>Nmbm_State_Table\<close>: the packed block states (locale \<open>block_table\<close>, interpreted on the code's
    accessors), block walks, the bad block scan, the initial mapping, and \<open>worn\<close>: what wear may change.
  \<^item> \<open>Nmbm_Write\<close>: erase-and-check, signature, read and verified write of management data.
  \<^item> \<open>Nmbm_Info_Table\<close>: the table image, rebuilding, rescuing and updating the two copies.
  \<^item> \<open>Nmbm_Runtime\<close>: the invariant \<open>run_inv\<close> of an attached instance, the relation \<open>runs\<close>, and mapping
    a block to a spare block. \<open>Nmbm_Attach\<close>: sizes, signature search, creating and loading tables.
    \<open>Nmbm_Logic\<close>: erase, read, write and bad-block calls by logic address. \<open>Nmbm_Service\<close>: these calls as
    a state machine. \<open>Nmbm_Read\<close>: the pages a read goes through and what it makes of their results.
    \<open>Nmbm_Verify\<close>: what a verified write leaves on the chip. \<open>Nmbm_Saved\<close>: that the copy of a table stays on
    the chip while an update goes on, so that a successful update leaves the tables there.
    \<open>Nmbm_Erased\<close>: the first attach.
  \<^item> \<open>Nmbm_Mtd\<close>, \<open>Nmbm_Mtd_Service\<close>: \<open>nmbm-mtd.c\<close>, its device lock and what its operations promise.
  \<^item> \<open>Bmt_Types\<close>: \<open>struct bmt_desc\<close>, the wrappers of \<open>mtk_bmt.h\<close>, copying a block, the remap range; \<open>same_desc\<close>
    and \<open>accessed\<close>: what an operation leaves alone. \<open>Bmt_Core\<close>: the operations of \<open>mtk_bmt.c\<close> and its debug
    commands. \<open>Bmt_Service\<close>: the locale \<open>bmt_backend\<close>, what the layer needs of a table format, with what
    the layer then promises of reads, writes, erases and bad-block calls, and \<open>bmt_format\<close>, which adds
    what \<open>init\<close> must keep. \<open>Bmt_Attach\<close>: \<open>mtk_bmt_attach\<close> and \<open>mtk_bmt_detach\<close> on the device and the global \<open>bmtd\<close>.
  \<^item> \<open>Bmt_Bbt\<close>: \<open>mtk_bmt_bbt.c\<close>, the permutation its mapping is and what marking a block does to it.
    \<open>Bmt_V2\<close>: \<open>mtk_bmt_v2.c\<close>; \<open>Bmt_V2_Table\<close>: its byte buffer as two arrays, the invariant \<open>v2_inv\<close> and
    remapping; \<open>Bmt_V2_Scan\<close>: scanning a chip. Both formats interpret the two locales.
  \<^item> \<open>Hnat_Types\<close>: a flow entry is 32 words; the packed structures of \<open>hnat.h\<close> are layouts, lists of fields
    with widths, and reading a field after writing another follows from their positions. \<open>Hnat_Regs\<close>: the
    driver state \<open>mtk_hnat\<close>, register accesses with their history, and the flow cache (\<open>cache_clr_restores\<close>: clearing
    it leaves the configuration as it was). \<open>Hnat_Entry\<close>: the flow table, filling in and comparing MAC
    addresses, and the functions that delete entries. \<open>Hnat_Api\<close>: tuples, hashes and the updates; the locale
    \<open>entry_update\<close> is the contract of a setter and is interpreted for all six and for a call of any of them.
    \<open>Hnat_Start\<close>: starting and stopping an engine, the register settings as lists.
  \<^item> \<open>Hnat_Skb\<close>: the descriptor in front of a packet (\<open>nf_hnat_mtk.h\<close>) and the updates by packet, which reach the
    setters through the index it holds. \<open>Hnat_Mib\<close>: the packet counters of \<open>hnat_debugfs.c\<close> and \<open>hnat_api.c\<close>; \<open>booked\<close>
    is what a report must have done to the totals and to the connection tracking, and calls compose by adding their
    reports. \<open>Hnat_Mode\<close>: the hash mode, with \<open>hash_mode_sticks\<close>: its top bit is never cleared.
  \<^item> \<open>Hnat_Mcast\<close>: \<open>hnat_mcast.c\<close>. \<open>Hnat_Mcast_List\<close>: the list of groups as a map, and the locale
    \<open>message_service\<close>, the contract of a message handler with an abstract state. \<open>Hnat_Mcast_Table\<close>: the table of
    groups and its registers. \<open>Hnat_Mcast_Service\<close>: the invariant, one message, and the instance of the
    locale. \<open>Hnat_Mcast_Counts\<close>: the table as a map to counters, and its gaps.
  \<^item> \<open>Hnat_Demo\<close>: a concrete engine and group. \<open>Mtd_Device\<close>: the structures of the MTD core; \<open>Nmbm_Demo\<close>, \<open>Bmt_Demo\<close>: concrete chips on which the
    properties are instantiated.

  \<^bold>\<open>How the code is modelled.\<close> The instance is a record of the C structure's fields; every operation
  takes it and returns it updated. The lower device is a parameter: its functions take and return the
  device state, with any result and any contents. Widths are those of the code (\<open>u16\<close>, \<open>u32\<close>, \<open>u64\<close>), so
  its wrap-arounds are there; \<open>int\<close> stands for C \<open>int\<close> where the code only compares small numbers.
  Loops that need not end are \<open>partial_function (option)\<close> and their theorems are total: \<open>wp m Q\<close> says
  that \<open>m\<close> returns and that its result satisfies \<open>Q\<close>. The checksum function \<open>crc\<close> is a parameter (the
  kernel's \<open>crc32_le\<close>); where the code computes it piecewise the property asks that it be incremental.

  \<open>struct bmt_desc\<close> is one record with the driver's state and saved functions in it; the buffers the C code
  points to are lists, and a read or write outside a list stands for one outside the object.

  What a hardware NAT register reads as is a function \<open>dev\<close> of all accesses so far; \<open>holds\<close> says of some bits
  that they are memory, \<open>mib_latched\<close> that the counter registers show given counts while they are only read,
  and \<open>cache_device\<close> and \<open>mcast_device\<close> that those are which the code relies on. The layout is
  the one of \<open>CONFIG_MEDIATEK_NETSYS_V3\<close> on a little-endian machine. Locks are taken around every change of
  an entry, and the functions are modelled as running one after the other.

  \<^bold>\<open>Hypotheses.\<close> \<open>geom\<close>, \<open>sized\<close> and \<open>image_ok\<close> are what \<open>nmbm_init_structure\<close> establishes (C14) for a
  device that passes \<open>nmbm_check_lower_members\<close> and has the size of a NAND chip (\<open>sane\<close>); \<open>run_inv\<close> is
  established by creating the management data (C12, C13) and kept by every call (C1). \<open>good_chip\<close> says
  that a chip reads back its pages and that a call changes pages of the block it is addressed to only
  (C9). \<open>reads_progress\<close> and
  \<open>writes_progress\<close> say that an MTD driver moves no more than asked and not nothing when it succeeds;
  \<open>bmt_geometry\<close> and \<open>bmt_blocks\<close> are established by attaching (C28), \<open>v2_inv\<close> by a scan (C26). Ranges are asked
  not to wrap around the address space, which the code does not check itself. \<open>sized_tables\<close> says that the flow
  tables have \<open>foe_etry_num\<close> entries and \<open>full_tables\<close> that they have the default 8192, which the functions that
  delete by address need (C37 says when a start gives less); \<open>mcast_clear\<close>, that the registers of the
  groups are zero when the table is enabled, is their state after a reset; \<open>mcast_inv\<close> is established there
  and kept (C34, C33). \<open>counted_tables\<close> says that each entry has a counter, as
  allocated at the start. How often a busy register is read within its time is the parameter \<open>polls\<close>; the
  connection tracking of the kernel is a lookup that does not change and the counters it has.

  \<^bold>\<open>Not modelled.\<close> Log output (only whether a message is printed, and at which level), memory
  allocation failure beyond its error return, the debug files, sysfs and device tree plumbing, module
  registration, and \<open>WATCHDOG_RESET\<close>. \<open>mtk_bmt_nmbm.c\<close> is a copy of
  \<open>nmbm-core.c\<close> and not modelled a second time: attaching takes its operations as a parameter. The debugfs
  files of \<open>mtk_bmt.c\<close> (their commands are). Of the hardware NAT driver: the netfilter hooks, the debugfs and
  the manual API files, which work on socket buffers and text, the flow nodes of \<open>foe_flow\<close>,
  callbacks, probing and timers. The rest of the repository (the Ethernet, switch and PHY drivers, user space tools,
  build recipes) is register sequences, vendored code and glue, and is not modelled.
\<close>

section \<open>Running an attached instance\<close>

text \<open>
  C1: an attached instance stays consistent whatever is called on it. After any sequence of erase,
  read, write, panic write and mark-bad calls, each of which may fail, the invariant of the tables
  still holds, no block has recovered from being bad, no block has become good, the state of the
  signature block and of those above it is untouched, and no call to the lower device that changes
  the chip has addressed a block outside those below the signature block.
\<close>

theorem api_runs_safe:
  assumes "run_inv ni" and "(api_step crc)\<^sup>*\<^sup>* ni n"
  shows "run_inv n \<and>
    (\<forall>a. nmbm_get_block_state ni a = BLOCK_ST_BAD \<longrightarrow> nmbm_get_block_state n a = BLOCK_ST_BAD) \<and>
    (\<forall>a. nmbm_get_block_state n a = BLOCK_ST_GOOD \<longrightarrow> nmbm_get_block_state ni a = BLOCK_ST_GOOD) \<and>
    (\<forall>a. signature_ba ni \<le> a \<longrightarrow> nmbm_get_block_state n a = nmbm_get_block_state ni a) \<and>
    (lower_call (lower ni) (in_blocks ni {..<signature_ba ni}))\<^sup>*\<^sup>* (chip ni) (chip n)"
proof -
  have r: "runs ni n" by (rule api_steps_runs [OF assms])
  show ?thesis
    using runs_keep(4) [OF r]
    by (intro conjI allI impI; (simp add: below_signature_def)?)
      (rule runs_inv [OF r], erule runs_keep(1) [OF r], erule runs_keep(2) [OF r], erule runs_keep(3) [OF r])
qed

theorem api_runs_safe_witness:
  "run_inv (set_chip (blank_flash(0 := Some (replicate 64 7))) demo_instance)"
proof -
  have "api_step demo_crc demo_instance (set_chip (blank_flash(0 := Some (replicate 64 7))) demo_instance)"
    by (rule api_write_page [OF demo_write])
  then show ?thesis using api_runs_safe [OF demo_inv(1) r_into_rtranclp] by blast
qed

text \<open>
  C2: erasing a range either is refused without touching anything, or leaves every logic block of
  the range mapped, or fails with \<open>-EIO\<close> at the first logic block for which there is no block, of
  which it reports the address. It always returns, and the mapping of other logic blocks is kept.
\<close>

theorem erase_block_range_contract:
  assumes "run_inv ni" and "unat addr + unat sz < 2 ^ 64"
  shows "wp (nmbm_erase_block_range crc ni addr sz) (\<lambda>(ret, failed, n).
    if protected ni \<noteq> 0 \<or> has_flag ni NMBM_F_READ_ONLY then ret = - EROFS \<and> failed = None \<and> n = ni
    else if ba2addr ni (data_block_count ni) \<le> addr \<or> ba2addr ni (data_block_count ni) < addr + sz
    then ret = - EINVAL \<and> failed = None \<and> n = ni
    else if sz = 0 then ret = 0 \<and> failed = None \<and> n = ni
    else erase_range_result ni (addr2ba ni addr) (addr2ba ni (addr + sz - 1)) ret failed n)"
  by (rule erase_block_range_wp [OF assms])

theorem erase_block_range_contract_witness:
  "wp (nmbm_erase_block_range demo_crc demo_instance 2048 4096) (\<lambda>(ret, failed, n).
    erase_range_result demo_instance 1 2 ret failed n)"
proof -
  have "addr2ba demo_instance 2048 = 1" "addr2ba demo_instance 6143 = 2"
    "ba2addr demo_instance (data_block_count demo_instance) = 491520" "protected demo_instance = 0"
    "\<not> has_flag demo_instance NMBM_F_READ_ONLY"
    by (simp_all add: addr2ba_def ba2addr_def demo_instance_def has_flag_def)
  then show ?thesis
    using erase_block_range_contract [OF demo_inv(1), of 2048 4096 demo_crc] by simp
qed

text \<open>
  Writing a range always returns. When it is not refused it reports how much has been written:
  all of it with result 0, or less with \<open>-EIO\<close>; the mapping is not changed and the invariant is kept.
\<close>

theorem write_range_contract:
  assumes "run_inv ni" and "unat addr + unat sz < 2 ^ 64"
  shows "wp (nmbm_write_range crc ni addr sz data mode) (\<lambda>(ret, retlen, n).
    if protected ni \<noteq> 0 \<or> has_flag ni NMBM_F_READ_ONLY then ret = - EROFS \<and> retlen = None \<and> n = ni
    else if ba2addr ni (data_block_count ni) \<le> addr \<or> ba2addr ni (data_block_count ni) < addr + sz
    then ret = - EINVAL \<and> retlen = None \<and> n = ni
    else if sz = 0 then ret = 0 \<and> retlen = None \<and> n = ni
    else runs ni n \<and> block_mapping n = block_mapping ni \<and>
      (\<exists>len. retlen = Some len \<and> (ret = 0 \<and> len = sz \<or> ret = - EIO \<and> len < sz)))"
  by (rule write_range_wp [OF assms])

theorem write_range_contract_witness:
  "wp (nmbm_write_range demo_crc demo_instance 100 200 (replicate 200 7) NMBM_MODE_PLACE_OOB) (\<lambda>(ret, retlen, n).
    runs demo_instance n)"
proof -
  have "ba2addr demo_instance (data_block_count demo_instance) = 491520" "protected demo_instance = 0"
    "\<not> has_flag demo_instance NMBM_F_READ_ONLY"
    by (simp_all add: ba2addr_def demo_instance_def has_flag_def)
  then show ?thesis
    using write_range_contract [OF demo_inv(1), of 100 200 demo_crc "replicate 200 7" NMBM_MODE_PLACE_OOB]
    by (auto elim!: wp_mono)
qed

text \<open>
  C3: a read returns, byte for byte, what the mapping makes of the chip: byte \<open>i\<close> of the result is
  the byte of the page that holds logic address \<open>addr + i\<close> in the physical block its logic block is
  mapped to. Only the scratch page differs afterwards.
\<close>

theorem read_range_bytes:
  assumes "geom ni" and "reads_pages (lower ni) page" and "protected ni = 0" and "sz \<noteq> 0"
    and "addr < ba2addr ni (data_block_count ni)" and "\<not> ba2addr ni (data_block_count ni) < addr + sz"
    and "unat addr + unat sz < 2 ^ 64" and "length data = unat sz"
    and "\<And>x. addr - range_leading ni addr \<le> x \<Longrightarrow> x < addr + sz \<Longrightarrow> readable ni x"
  shows "\<exists>pc. nmbm_read_range ni addr sz data mode =
     Some (0, map (\<lambda>i. logic_byte ni page (addr + of_nat i)) [0..<unat sz], Some sz, ni\<lparr>page_cache := pc\<rparr>)"
  by (rule read_range_reads [OF assms])

theorem read_range_bytes_witness:
  "\<exists>pc. nmbm_read_range demo_instance 100 5 [0, 0, 0, 0, 0] NMBM_MODE_PLACE_OOB =
     Some (0, [0xff, 0xff, 0xff, 0xff, 0xff], Some 5, demo_instance\<lparr>page_cache := pc\<rparr>)"
proof -
  have b: "logic_byte demo_instance flash_page x = 0xff" if "x \<in> {100, 101, 102, 103, 104}" for x
  proof -
    have "range_leading demo_instance x \<in> {36, 37, 38, 39, 40}"
      using that by (auto simp: range_leading_def demo_instance_def)
    then have "unat (range_leading demo_instance x) < 64" by auto
    then show ?thesis by (simp add: logic_byte_def Let_def demo_instance_def flash_page_def blank_flash_def nth_replicate)
  qed
  have l: "ba2addr demo_instance (data_block_count demo_instance) = 491520" "protected demo_instance = 0"
    by (simp_all add: ba2addr_def demo_instance_def)
  have "\<exists>pc. nmbm_read_range demo_instance 100 5 [0, 0, 0, 0, 0] NMBM_MODE_PLACE_OOB =
     Some (0, map (\<lambda>i. logic_byte demo_instance flash_page (100 + of_nat i)) [0..<unat (5 :: u64)], Some 5,
       demo_instance\<lparr>page_cache := pc\<rparr>)"
    by (rule read_range_bytes [OF demo_inv(2)])
      (auto simp: demo_pages l intro!: demo_readable elim: order_less_trans)
  then show ?thesis by (simp add: b upt_rec)
qed

text \<open>
  C4: marking a logic block bad is refused, or unmaps exactly that block: from then on the block
  counts as bad, whatever happened to the writes below, and the call itself returns 0.
\<close>

theorem mark_bad_block_contract:
  assumes "run_inv ni"
  shows "wp (nmbm_mark_bad_block crc ni addr) (\<lambda>(ret, n). let lb = addr2ba ni addr in
    if protected ni \<noteq> 0 \<or> has_flag ni NMBM_F_READ_ONLY then ret = - EROFS \<and> n = ni
    else if ba2addr ni (data_block_count ni) \<le> addr then ret = - EINVAL \<and> n = ni
    else ret = 0 \<and> runs ni n \<and> same_others lb ni n \<and> \<not> mapped n lb \<and> nmbm_check_bad_block n addr = 1)"
  by (rule mark_bad_block_wp [OF assms])

theorem mark_bad_block_contract_witness:
  "wp (nmbm_mark_bad_block demo_crc demo_instance 4096) (\<lambda>(ret, n). ret = 0 \<and> nmbm_check_bad_block n 4096 = 1)"
proof -
  have "ba2addr demo_instance (data_block_count demo_instance) = 491520" "protected demo_instance = 0"
    "\<not> has_flag demo_instance NMBM_F_READ_ONLY"
    by (simp_all add: ba2addr_def demo_instance_def has_flag_def)
  then show ?thesis
    using mark_bad_block_contract [OF demo_inv(1), of demo_crc 4096] by (auto simp: Let_def elim!: wp_mono)
qed

text \<open>
  C5: mapping a logic block to a spare block takes the highest good block of the spare area and
  changes nothing else but the top of that area; when it fails there is no spare block, and from
  then on there is none to be taken.
\<close>

theorem map_block_contract:
  assumes "spare_ok ni" and "unat lb < length (block_mapping ni)"
  shows "wp (nmbm_map_block crc ni lb) (\<lambda>(ok, n). spares ni n \<and>
    (ok \<longrightarrow> (\<exists>pb. next_spare ni pb \<and> n = take_spare ni lb pb)) \<and>
    (\<not> ok \<longrightarrow> (\<forall>pb. \<not> next_spare ni pb) \<and> block_mapping n = block_mapping ni \<and>
       mapping_blocks_top_ba n = mapping_blocks_ba n))"
  by (rule map_block_wp [OF assms])

theorem map_block_contract_witness:
  "wp (nmbm_map_block demo_crc demo_instance 7) (\<lambda>(ok, n). spares demo_instance n)"
  using map_block_contract [OF demo_spare_ok, of 7 demo_crc] by (auto simp: demo_instance_def elim!: wp_mono)

text \<open>
  C6: as long as the block at the top of the spare area is good, taking a spare block keeps the
  mapping free of duplicates: no two logic blocks share a physical block, and none of the blocks
  still to be taken is in use.
\<close>

theorem map_block_distinct:
  assumes "run_inv ni" and "mapping_distinct ni" and "spares_unused ni" and "lb < data_block_count ni"
    and "mapping_blocks_ba ni < mapping_blocks_top_ba ni"
    and "nmbm_get_block_state ni (mapping_blocks_top_ba ni) = BLOCK_ST_GOOD"
  shows "wp (nmbm_map_block crc ni lb) (\<lambda>(ok, n). ok \<and> mapping_distinct n \<and> spares_unused n \<and>
    block_mapping n ! unat lb = mapping_blocks_top_ba ni)"
proof -
  let ?top = "mapping_blocks_top_ba ni"
  have "next_spare ni ?top" using assms(5,6) by (auto simp: next_spare_def)
  moreover have "spare_ok ni" using assms(1) by (simp add: run_inv_def)
  ultimately have "nmbm_map_block crc ni lb = Some (True, take_spare ni lb ?top)" by (rule map_block_takes [rotated])
  then show ?thesis
    using take_top_distinct [OF assms(2,3,1,4,5)] run_inv_index [OF assms(1,4)] by (simp add: take_spare_def)
qed

theorem map_block_distinct_witness:
  "wp (nmbm_map_block demo_crc demo_instance 7) (\<lambda>(ok, n). ok \<and> mapping_distinct n \<and> spares_unused n \<and>
    block_mapping n ! 7 = 254)"
proof -
  have e: "(of_nat i :: u32) = of_nat j \<longleftrightarrow> i = j" if "i < 240" "j < 240" for i j
    using that by (simp add: word_unat_eq_iff unat_of_nat)
  have d: "mapping_distinct demo_instance" by (simp add: mapping_distinct_def demo_instance_def e)
  have u: "spares_unused demo_instance"
    by (auto simp: spares_unused_def demo_instance_def word_le_nat_alt unat_of_nat)
  have "nmbm_get_block_state demo_instance 254 = BLOCK_ST_GOOD" by (simp add: demo_instance_def demo_state)
  then show ?thesis
    using map_block_distinct [OF demo_inv(1) d u, of 7 demo_crc] by (simp add: demo_instance_def)
qed

text \<open>
  C7: when that block is not good, the mapping does not stay free of duplicates. The block found
  below the top is taken, but the top goes down by one only, so that the next logic block to be
  remapped gets the same physical block.
\<close>

theorem map_block_duplicates:
  assumes "spare_ok ni" and "next_spare ni pb" and "pb < mapping_blocks_top_ba ni"
    and "unat lb < length (block_mapping ni)" and "unat lb' < length (block_mapping ni)" and "lb \<noteq> lb'"
  shows "\<exists>n n'. nmbm_map_block crc ni lb = Some (True, n) \<and> nmbm_map_block crc n lb' = Some (True, n') \<and>
    block_mapping n' ! unat lb = pb \<and> block_mapping n' ! unat lb' = pb"
  by (rule map_block_twice [OF assms])

text \<open>On the demonstration chip with block 254 bad from the factory.\<close>

theorem map_block_duplicates_witness:
  "\<exists>n n'. nmbm_map_block demo_crc demo_bad_top 3 = Some (True, n) \<and> nmbm_map_block demo_crc n 5 = Some (True, n') \<and>
    block_mapping n' ! 3 = 253 \<and> block_mapping n' ! 5 = 253"
proof -
  have r: "runs demo_instance demo_bad_top"
    unfolding demo_bad_top_def by (rule runs_set_state [OF demo_inv(1)]) (simp_all add: demo_instance_def)
  then have s: "spare_ok demo_bad_top" using runs_inv by (auto simp: run_inv_def)
  have t: "in_table demo_instance 254" by (simp add: in_table_def demo_instance_def)
  have st: "nmbm_get_block_state demo_bad_top 254 = BLOCK_ST_BAD"
    using get_set_same [OF t, of BLOCK_ST_BAD] by (simp add: demo_bad_top_def)
  have st': "nmbm_get_block_state demo_bad_top 253 = BLOCK_ST_GOOD"
    by (simp add: demo_bad_top_def get_set_other demo_instance_def demo_state)
  have only: "x = 254" if "253 < x" "x \<le> (254 :: u32)" for x
    using that by (simp add: word_less_nat_alt word_le_nat_alt word_unat_eq_iff)
  have "next_spare demo_bad_top 253"
    unfolding next_spare_def
  proof (intro conjI allI impI)
    fix x assume "253 < x \<and> x \<le> mapping_blocks_top_ba demo_bad_top"
    then have "x = 254" by (intro only) (simp_all add: demo_bad_top_def demo_instance_def)
    with st show "nmbm_get_block_state demo_bad_top x \<noteq> BLOCK_ST_GOOD" by simp
  qed (use st' in \<open>simp_all add: demo_bad_top_def demo_instance_def\<close>)
  from map_block_duplicates [OF s this, of 3 5 demo_crc] show ?thesis
    by (simp add: demo_bad_top_def demo_instance_def)
qed

text \<open>
  C8: the exact outcome of a read. It always returns and changes neither the tables nor the contents
  of the chip. A refused read (protected, out of range, nothing to read) does nothing and reports no
  length. Any other goes through the pages of the range in order, and there are the results of
  reading these pages, an input/output error where a page has no usable block: the first that is an
  error other than an ECC error ends the read, is its result, and the length reported is that of the
  pages before it; when no page fails so, all pages have been read, the length is the whole length,
  and the result is the ECC error if a page had one, else the largest number of bitflips.
\<close>

theorem read_range_contract:
  assumes "geom ni"
  shows "wp (nmbm_read_range ni addr sz data mode) (\<lambda>(ret, data', retlen, n). chip_evolves {} ni n \<and>
    (case retlen of
       None \<Rightarrow> n = ni \<and> data' = data \<and>
         (if protected ni \<noteq> 0 then ret = - EROFS
          else if ba2addr ni (data_block_count ni) \<le> addr \<or> ba2addr ni (data_block_count ni) < addr + sz
          then ret = - EINVAL else sz = 0 \<and> ret = 0)
     | Some len \<Rightarrow> protected ni = 0 \<and> addr < ba2addr ni (data_block_count ni) \<and>
         addr + sz \<le> ba2addr ni (data_block_count ni) \<and> sz \<noteq> 0 \<and> read_range_exact mode ni addr sz ret len n))"
  by (rule read_range_exact_wp [OF assms])

theorem read_range_contract_witness:
  "wp (nmbm_read_range demo_instance 100 200 (replicate 200 0) NMBM_MODE_RAW) (\<lambda>(ret, data, retlen, n).
     \<exists>len. retlen = Some len \<and> read_range_exact NMBM_MODE_RAW demo_instance 100 200 ret len n)"
proof -
  have "ba2addr demo_instance 240 = 491520" by (simp add: ba2addr_def demo_instance_def)
  then show ?thesis
    using read_range_contract [OF demo_inv(2), of 100 200 "replicate 200 0" NMBM_MODE_RAW]
    by (auto simp: demo_instance_def elim!: wp_mono split: option.splits)
qed

section \<open>The information tables\<close>



text \<open>
  C10: the image of the information table can be read back. It passes both header checks of the load
  path, and the two tables found at its offsets are the ones in memory; the write count goes up by
  one exactly when something had changed.
\<close>

theorem info_table_image_roundtrip:
  assumes "image_ok ni" and "crc_incremental crc"
    and "nmbm_generate_info_table_cache crc ni = (changed, n)"
  shows "nmbm_check_header crc (info_table_cache n) (info_table_size ni) \<and>
    nmbm_check_info_table_header ni (info_table_cache n) \<and>
    write_count (decode_info_table_header (info_table_cache n)) = write_count (info_table ni) + (if changed then 1 else 0) \<and>
    image_state_table ni (info_table_cache n) = block_state ni \<and>
    image_mapping_table ni (info_table_cache n) = block_mapping ni"
  using generate_image [OF assms] by blast

theorem info_table_image_roundtrip_witness:
  "image_mapping_table demo_fresh (info_table_cache (snd (nmbm_generate_info_table_cache demo_crc demo_fresh)))
     = block_mapping demo_fresh"
  using info_table_image_roundtrip [OF _ demo_crc_incremental, of demo_fresh
      "fst (nmbm_generate_info_table_cache demo_crc demo_fresh)" "snd (nmbm_generate_info_table_cache demo_crc demo_fresh)"]
    demo_start(3) by (simp add: demo_fresh_def)

text \<open>
  A header whose checksum has been filled in passes the check, whatever follows it; the checksum
  is computed with the checksum field itself cleared.
\<close>

theorem checksum_accepted:
  assumes "crc_incremental crc" and "hdr_size h \<le> sz" and "16 \<le> hdr_size h"
  shows "nmbm_check_header crc (nmbm_update_checksum crc (encode_header h @ r)) sz"
  by (rule update_checksum_check [OF assms])

theorem checksum_accepted_witness:
  "nmbm_check_header demo_crc (nmbm_update_checksum demo_crc
     (encode_header \<lparr>magic = 1, version = 2, hdr_size = 20, checksum = 9\<rparr> @ [1, 2, 3, 4])) 20"
  by (rule checksum_accepted [OF demo_crc_incremental]) simp_all

text \<open>
  A signature can be decoded from its on-flash form, whatever follows it on the page.\<close>

theorem signature_roundtrip:
  assumes "length (sig_padding s) = 7"
  shows "decode_signature (encode_signature s @ c) = s"
  by (rule decode_encode_signature [OF assms])

theorem signature_roundtrip_witness: "decode_signature (encode_signature demo_signature @ [0xff]) = demo_signature"
  by (rule signature_roundtrip) (simp add: demo_signature_def)

text \<open>
  C11: writing management data to a block with \<open>nmbn_write_verify_data\<close> always returns, touches that
  block only, and when it reports success the data is on the chip: every byte of the range reads as
  the byte of the buffer, across page boundaries and however many tries a page took, on any chip
  where writing a page changes that page only.
\<close>

theorem verified_write_on_chip:
  assumes g: "geom ni" and p: "reads_pages (lower ni) page" and w: "writes_pages (lower ni) page"
    and sz: "sz \<le> erasesize (lower ni)" and len: "unat sz \<le> length data"
  shows "wp (nmbn_write_verify_data ni (ba2addr ni ba) data sz) (\<lambda>(ok, n). worn {ba} ni n \<and>
    (ok \<longrightarrow> (\<forall>i < unat sz. phys_byte n page (ba2addr ni ba + of_nat i) = data ! i)))"
  by (rule write_verify_bytes [OF assms])

theorem verified_write_on_chip_witness:
  "wp (nmbn_write_verify_data demo_instance (ba2addr demo_instance 3) (map of_nat [0..<150]) 150) (\<lambda>(ok, n).
    ok \<longrightarrow> phys_byte n flash_page (ba2addr demo_instance 3 + of_nat 149) = 149)"
  using verified_write_on_chip [OF demo_inv(2), of flash_page 150 "map of_nat [0..<150]" 3] demo_pages
  by (auto elim!: wp_mono dest!: spec [of _ 149])

text \<open>
  Writing a copy of a table always returns and touches only blocks of the range it is given. On
  success it reports where the copy starts and ends: inside the range, at or above the start, and
  not empty.
\<close>

theorem write_mgmt_range_contract:
  assumes "geom ni" and "limit \<le> block_count ni" and "sz \<noteq> 0"
  shows "wp (nmbm_write_mgmt_range ni ba limit data sz)
    (\<lambda>x. worn {ba..<limit} ni (snd x) \<and> (\<forall>s e. fst x = Some (s, e) \<longrightarrow> ba \<le> s \<and> s < e \<and> e \<le> limit))"
  by (rule write_mgmt_range_wp [OF assms order_refl])

theorem write_mgmt_range_contract_witness:
  "wp (nmbm_write_mgmt_range demo_instance 240 248 (replicate 1152 0) 1152)
    (\<lambda>x. worn {240..<248} demo_instance (snd x) \<and> (\<forall>s e. fst x = Some (s, e) \<longrightarrow> 240 \<le> s \<and> s < e \<and> e \<le> 248))"
  by (rule write_mgmt_range_contract [OF demo_inv(2)]) (simp_all add: demo_instance_def word_le_nat_alt)

section \<open>Attaching\<close>

text \<open>
  C12: attaching to an erased chip with \<open>NMBM_F_CREATE\<close> always returns, with \<open>-ENODEV\<close> or with an
  instance that satisfies the run time invariant: the search for a signature finds none, and the
  management data that is created is laid out consistently.
\<close>

theorem attach_erased:
  assumes "fst (nmbm_check_lower_members nld)" and "sane nld"
    and "flags nld AND NMBM_F_CREATE \<noteq> 0" and "flags nld AND NMBM_F_READ_ONLY = 0"
    and "erased (zero_instance nld)"
  shows "wp (nmbm_attach crc level nld (zero_instance nld)) (\<lambda>(ret, n). ret = - ENODEV \<or> ret = 0 \<and> run_inv n)"
  by (rule attach_erased_wp [OF assms])

theorem attach_erased_witness:
  "wp (nmbm_attach demo_crc NMBM_LOG_INFO (demo_device blank_flash) (zero_instance (demo_device blank_flash)))
    (\<lambda>(ret, n). ret = - ENODEV \<or> ret = 0 \<and> run_inv n)"
proof (rule attach_erased)
  show "erased (zero_instance (demo_device blank_flash))"
    by (simp add: erased_def zero_instance_def chip_def)
      (simp add: demo_device_def flash_read_def flash_page_def blank_flash_def)
qed (simp_all add: demo_checks)

text \<open>
  C13: creating the management data of a chip always returns, and when it succeeds on a writable chip
  the instance satisfies the run time invariant and maps no more logic blocks than there are blocks
  below the management area.
\<close>

theorem create_new_contract:
  assumes "sized ni" and "checked (lower ni)" and "sane (lower ni)"
  shows "wp (nmbm_create_new crc ni) (\<lambda>(ok, n). ok \<and> \<not> has_flag ni NMBM_F_READ_ONLY \<longrightarrow>
    run_inv n \<and> data_block_count n \<le> mgmt_start_ba n)"
  by (rule wp_mono [OF create_new_wp [OF assms]]) (auto simp: create_inv_def)

theorem create_new_contract_witness:
  "wp (nmbm_create_new demo_crc demo_fresh) (\<lambda>(ok, n). ok \<longrightarrow> run_inv n)"
  using create_new_contract [of demo_fresh demo_crc] demo_start check_lower_members_checked(1) [OF demo_checks(1)]
  by (auto simp: demo_fresh_def demo_checks has_flag_def elim!: wp_mono)

text \<open>
  C14: for a device that passes \<open>nmbm_check_lower_members\<close>, is no larger than NAND chips are and has a
  spare area no larger than its page, the sizes that the code goes on to use do not wrap in 32 bits:
  the masks and shifts agree with the sizes, the table image has room for the header and the two
  tables one after the other, the raw sizes of a page and of a block are the exact ones, every buffer
  has the length the code uses it with, the page buffer included, and the memory that
  \<open>nmbm_calc_structure_size\<close> asks for is what the instance and its buffers take up. The raw size of the
  whole chip, which nothing reads, is only right modulo \<open>2 ^ 32\<close>.
\<close>

theorem init_structure_sizes:
  assumes "nmbm_check_lower_members nld = (True, l)" and "sane l" and "lower ni = l"
    and "oobsize l \<le> writesize l" and "unat (erasesize l) \<le> 2 ^ 30" and "unat sizeof_instance < 2 ^ 32"
  shows "sized (nmbm_init_structure ni) \<and> image_ok (nmbm_init_structure ni) \<and>
    raw_sized (nmbm_init_structure ni) \<and> fits_memory sizeof_instance (nmbm_init_structure ni) \<and>
    lower (nmbm_init_structure ni) = l"
  using init_structure_sized [of ni] init_structure_raw [of ni] init_structure_memory [of ni sizeof_instance]
    check_lower_members_checked(1) [OF assms(1)] assms(2-) by simp

theorem init_structure_sizes_witness:
  "length (page_cache (nmbm_init_structure (zero_instance (demo_device blank_flash)))) = 80"
  using init_structure_sizes [OF demo_checks, where ni = "zero_instance (demo_device blank_flash)" and sizeof_instance = 400]
  by (simp add: zero_instance_def raw_sized_def)

text \<open>
  The search for the signature always returns and changes nothing but the scratch page. The block
  it reports exists.
\<close>

theorem find_signature_contract:
  assumes "sized ni" and "checked (lower ni)" and "sane (lower ni)"
  shows "wp (nmbm_find_signature crc ni) (\<lambda>x. worn {} ni (snd x) \<and>
    (\<forall>sig a. fst x = Some (sig, a) \<longrightarrow> a < block_count ni))"
  by (rule find_signature_wp [OF assms])

theorem find_signature_contract_witness:
  "wp (nmbm_find_signature demo_crc demo_fresh) (\<lambda>x. worn {} demo_fresh (snd x))"
  using find_signature_contract [of demo_fresh demo_crc] demo_start check_lower_members_checked(1) [OF demo_checks(1)]
  by (auto simp: demo_fresh_def demo_checks elim!: wp_mono)

text \<open>
  C15: the initial mapping lists the blocks below the management area that are not bad, in ascending
  order, and maps nothing beyond them; their number is the number of logic blocks.
\<close>

theorem build_mapping_table_ascending:
  assumes "mgmt_start_ba ni \<le> block_count ni" and "length (block_mapping ni) = unat (block_count ni)"
  shows "nmbm_build_mapping_table ni =
    (let us = filter (\<lambda>ba. nmbm_get_block_state ni ba \<noteq> BLOCK_ST_BAD) (map of_nat [0..<unat (mgmt_start_ba ni)])
     in ni\<lparr>data_block_count := of_nat (length us),
           block_mapping := us @ replicate (unat (block_count ni) - length us) (-1)\<rparr>)"
  using build_mapping_table_eq [OF assms] by (simp add: usable_blocks_def)

theorem build_mapping_table_ascending_witness:
  "block_mapping (nmbm_build_mapping_table demo_instance) = map of_nat [0..<240] @ replicate 16 (-1)"
proof -
  have m: "mgmt_start_ba demo_instance = 240" "block_count demo_instance = 256" "length (block_mapping demo_instance) = 256"
    by (simp_all add: demo_instance_def)
  have "filter (\<lambda>ba. nmbm_get_block_state demo_instance ba \<noteq> BLOCK_ST_BAD) (map of_nat [0..<240]) = map of_nat [0..<240]"
    by (rule filter_True) (auto simp: demo_instance_def demo_state unat_of_nat)
  then show ?thesis
    using build_mapping_table_ascending [of demo_instance] by (simp add: m Let_def)
qed

section \<open>Block states\<close>

text \<open>
  C16: the packed table of block states is an array of two-bit cells.\<close>

theorem block_state_array:
  assumes "in_table ni a"
  shows "nmbm_get_block_state (set_block_state ni a s) b = (if a = b then s AND 3 else nmbm_get_block_state ni b)"
  by (rule state_table.get_put [OF assms])

theorem block_state_array_witness:
  "nmbm_get_block_state (set_block_state demo_instance 17 BLOCK_ST_NEED_REMAP) 17 = BLOCK_ST_NEED_REMAP \<and>
   nmbm_get_block_state (set_block_state demo_instance 17 BLOCK_ST_NEED_REMAP) 18 = BLOCK_ST_GOOD"
  using block_state_array [of demo_instance 17] by (simp add: in_table_def demo_instance_def demo_state)

text \<open>
  Walking upwards over \<open>count\<close> good blocks ends at the good block with that index, counted from the
  starting block, if there is one below the limit, and fails otherwise.
\<close>

theorem block_walk_finds:
  assumes "0 \<le> sint count"
  shows "nmbm_block_walk ni True ba count limit =
    (let gs = filter (\<lambda>a. nmbm_get_block_state ni a = BLOCK_ST_GOOD) (map of_nat [unat ba..<unat (walk_limit ni limit)])
     in if unat count < length gs then Some (gs ! unat count) else None)"
  using block_walk_asc_spec [OF assms, of ni ba limit] by (simp add: nmbm_block_walk_def good_asc_def)

theorem block_walk_finds_witness: "nmbm_block_walk demo_instance True 3 2 10 = Some 5"
proof -
  have "walk_limit demo_instance 10 = 10" by (simp add: walk_limit_def demo_instance_def word_le_nat_alt)
  then show ?thesis
    using block_walk_finds [of 2 demo_instance 3 10] by (simp add: upt_rec demo_instance_def demo_state)
qed

section \<open>The MTD device\<close>

text \<open>
  C17: an OOB read or write on a ready device returns, with the device ready again and the invariant
  of the instance below kept, for every combination of data and OOB buffers and lengths: the loops
  over the pages end.
\<close>

theorem mtd_oob_served:
  assumes "api_keeps_shape api" and "mtd_inv api nm" and "nm_state nm = FL_READY"
    and "unat addr + unat (ops_len ops) < 2 ^ 64"
  shows "wp (nmbm_mtd_read_oob api nm addr ops) (\<lambda>(ret, ops', n). mtd_served api nm n) \<and>
    wp (nmbm_mtd_write_oob api crc nm addr ops) (\<lambda>(ret, ops', n). mtd_served api nm n)"
  using mtd_read_oob_wp [OF assms(1-3)] mtd_write_oob_wp [OF assms] by blast

theorem mtd_oob_served_witness:
  "wp (nmbm_mtd_write_oob demo_api demo_crc demo_nm 100
      \<lparr>ops_mode = MTD_OPS_AUTO_OOB, ops_len = 70, ops_retlen = 0, ops_ooblen = 20, ops_oobretlen = 0,
       ops_ooboffs = 2, ops_datbuf = Some (replicate 70 1), ops_oobbuf = Some (replicate 20 2)\<rparr>)
    (\<lambda>(ret, ops', n). mtd_served demo_api demo_nm n)"
  using mtd_oob_served [OF demo_api_shape demo_mtd_inv, of 100
      "\<lparr>ops_mode = MTD_OPS_AUTO_OOB, ops_len = 70, ops_retlen = 0, ops_ooblen = 20, ops_oobretlen = 0,
       ops_ooboffs = 2, ops_datbuf = Some (replicate 70 1), ops_oobbuf = Some (replicate 20 2)\<rparr>" demo_crc]
  by simp

text \<open>
  C18: the same for erasing, whose result is 0 or \<open>-EIO\<close> and which names a failing address only
  with an error, and for marking a block bad.\<close>

theorem mtd_erase_markbad_served:
  assumes "api_keeps_shape api" and "mtd_inv api nm" and "nm_state nm = FL_READY"
    and "unat addr + unat len < 2 ^ 64"
  shows "wp (nmbm_mtd_erase crc nm addr len) (\<lambda>(ret, failed, n). mtd_served api nm n \<and>
      (ret = 0 \<or> ret = - EIO) \<and> (ret = 0 \<longrightarrow> failed = None)) \<and>
    wp (nmbm_mtd_block_markbad crc nm addr) (\<lambda>(ret, n). mtd_served api nm n)"
  using mtd_erase_wp [OF assms] mtd_block_markbad_wp [OF assms(1-3)] by blast

theorem mtd_erase_markbad_served_witness:
  "wp (nmbm_mtd_erase demo_crc demo_nm 2048 4096) (\<lambda>(ret, failed, n). mtd_served demo_api demo_nm n)"
  using mtd_erase_markbad_served [OF demo_api_shape demo_mtd_inv, of 2048 4096 demo_crc]
  by (auto elim!: wp_mono)

text \<open>
  A panic write keeps the invariant, but its result is 0 whatever happened. On a protected device
  nothing is written at all, and the caller is still told that the first piece was.
\<close>

theorem mtd_panic_write_hides_failure:
  assumes "protected (nm_ni nm) \<noteq> 0" and "len \<noteq> 0"
  shows "wp (nmbm_mtd_panic_write crc nm to len buf) (\<lambda>(ret, retlen, n). ret = 0 \<and> nm_ni n = nm_ni nm \<and>
    retlen = min len (ucast (m_writesize (nm_lower_mtd nm) - mtd_page_col (nm_lower_mtd nm) to)))"
  using assms
  by (simp add: nmbm_mtd_panic_write_def)
    (subst mtd_panic_write_loop.simps, auto simp: Let_def nmbm_panic_write_single_page_def min_def)

theorem mtd_panic_write_hides_failure_witness:
  "wp (nmbm_mtd_panic_write demo_crc (demo_nm\<lparr>nm_ni := (nm_ni demo_nm)\<lparr>protected := 1\<rparr>\<rparr>) 0 10 (replicate 10 7))
    (\<lambda>(ret, retlen, n). ret = 0 \<and> retlen = 10)"
proof -
  let ?nm = "demo_nm\<lparr>nm_ni := (nm_ni demo_nm)\<lparr>protected := 1\<rparr>\<rparr>"
  have "nm_lower_mtd ?nm = demo_lower_mtd"
    by (simp add: nm_lower_mtd_def demo_nm_def chip_def probe_lower_device_def)
  moreover have "m_writesize demo_lower_mtd = 64" "mtd_page_col demo_lower_mtd 0 = 0"
    by (simp_all add: demo_lower_mtd_def mtd_page_col_def)
  ultimately show ?thesis
    using mtd_panic_write_hides_failure [of ?nm 10 demo_crc 0 "replicate 10 7"]
    by (auto simp: min_def word_le_nat_alt elim!: wp_mono)
qed

text \<open>
  Page-wise reads and writes cannot reach beyond 4 GiB: the mask that aligns the address is 32
  bits wide, and so is its complement, so that an address and the one 4 GiB above it are the same.
\<close>

theorem mtd_oob_address_wraps:
  "nmbm_mtd_read_data api nm (addr + 2 ^ 32) ops mode = nmbm_mtd_read_data api nm addr ops mode \<and>
   nmbm_mtd_write_data api crc nm (addr + 2 ^ 32) ops mode = nmbm_mtd_write_data api crc nm addr ops mode"
proof -
  have low: "(addr + 2 ^ 32) AND ucast (m :: u32) = addr AND ucast m" for m
  proof -
    have "ucast m AND mask 32 = (ucast m :: u64)" by (rule bit_word_eqI) (auto simp: bit_simps dest: bit_imp_le_length)
    then have e: "x AND ucast m = take_bit 32 x AND ucast m" for x :: u64
      by (simp add: take_bit_eq_mask) (metis and.assoc and.commute)
    have "unat (addr + 2 ^ 32) mod 2 ^ 32 = unat addr mod 2 ^ 32"
      by (simp add: unat_word_ariths mod_mod_cancel)
    then have "take_bit 32 (addr + 2 ^ 32) = take_bit 32 addr"
      by (simp only: word_unat_eq_iff unsigned_take_bit_eq) (simp only: take_bit_eq_mod)
    then show ?thesis using e [of "addr + 2 ^ 32"] e [of addr] by simp
  qed
  show ?thesis
    by (simp add: nmbm_mtd_read_data_def nmbm_mtd_write_data_def mtd_page_addr_def mtd_page_col_def low [simplified] Let_def)
qed

text \<open>
  C19: no two threads use the device at the same time, except that it may be suspended twice.\<close>

theorem device_mutual_exclusion:
  assumes "lock_step\<^sup>*\<^sup>* lock_init s" and "threads s t = Holds st" and "threads s u = Holds st'" and "t \<noteq> u"
  shows "st = FL_PM_SUSPENDED \<and> st' = FL_PM_SUSPENDED"
  using lock_invD(2) [OF lock_inv_reachable [OF assms(1)]] assms(2-4) by metis

text \<open>Two threads that have suspended the device one after the other.\<close>

lemma demo_two_suspended:
  "lock_step\<^sup>*\<^sup>* lock_init (lock_init\<lparr>lock_state := FL_PM_SUSPENDED,
     threads := (\<lambda>_. Idle)(0 := Holds FL_PM_SUSPENDED, 1 := Holds FL_PM_SUSPENDED)\<rparr>)"
proof -
  let ?P = FL_PM_SUSPENDED
  have "lock_step lock_init (lock_init\<lparr>threads := (\<lambda>_. Idle)(0 := Wants ?P)\<rparr>)"
    using lock_step.call [of lock_init 0 ?P] by (simp add: lock_init_def)
  moreover have "lock_step (lock_init\<lparr>threads := (\<lambda>_. Idle)(0 := Wants ?P)\<rparr>)
      (lock_init\<lparr>lock_state := ?P, threads := (\<lambda>_. Idle)(0 := Holds ?P)\<rparr>)"
    using lock_step.take [of "lock_init\<lparr>threads := (\<lambda>_. Idle)(0 := Wants ?P)\<rparr>" 0 ?P ?P]
    by (simp add: lock_init_def try_get_device_def)
  moreover have "lock_step (lock_init\<lparr>lock_state := ?P, threads := (\<lambda>_. Idle)(0 := Holds ?P)\<rparr>)
      (lock_init\<lparr>lock_state := ?P, threads := (\<lambda>_. Idle)(0 := Holds ?P, 1 := Wants ?P)\<rparr>)"
    using lock_step.call [of "lock_init\<lparr>lock_state := ?P, threads := (\<lambda>_. Idle)(0 := Holds ?P)\<rparr>" 1 ?P]
    by (simp add: lock_init_def)
  moreover have "lock_step (lock_init\<lparr>lock_state := ?P, threads := (\<lambda>_. Idle)(0 := Holds ?P, 1 := Wants ?P)\<rparr>)
      (lock_init\<lparr>lock_state := ?P, threads := (\<lambda>_. Idle)(0 := Holds ?P, 1 := Holds ?P)\<rparr>)"
    using lock_step.take [of "lock_init\<lparr>lock_state := ?P, threads := (\<lambda>_. Idle)(0 := Holds ?P, 1 := Wants ?P)\<rparr>" 1 ?P ?P]
    by (simp add: lock_init_def try_get_device_def)
  ultimately show ?thesis by (meson converse_rtranclp_into_rtranclp rtranclp.rtrancl_refl)
qed

theorem device_mutual_exclusion_witness:
  "threads (lock_init\<lparr>lock_state := FL_PM_SUSPENDED,
     threads := (\<lambda>_. Idle)(0 := Holds FL_PM_SUSPENDED, 1 := Holds FL_PM_SUSPENDED)\<rparr>) 0 = Holds FL_PM_SUSPENDED"
  using device_mutual_exclusion [OF demo_two_suspended, of 0 FL_PM_SUSPENDED 1 FL_PM_SUSPENDED] by simp

text \<open>
  C20: no wake-up is lost: while a thread sleeps there is another one that holds the device, and, unless
  it holds it suspended, when that one releases the device the sleeper goes back to trying.
\<close>

theorem device_no_lost_wakeup:
  assumes "lock_step\<^sup>*\<^sup>* lock_init s" and "threads s t = Sleeps st"
  shows "\<exists>u. u \<noteq> t \<and> threads s u = Holds (lock_state s) \<and>
    (lock_state s \<noteq> FL_PM_SUSPENDED \<longrightarrow>
      (\<exists>s'. lock_step s s' \<and> lock_state s' = FL_READY \<and> threads s' t = Wants st))"
proof -
  note inv = lock_inv_reachable [OF assms(1)]
  obtain u where u: "threads s u = Holds (lock_state s)"
    using lock_invD(6) [OF inv lock_invD(3) [OF inv assms(2)]] by blast
  then have ne: "u \<noteq> t" using assms(2) by auto
  have "\<exists>s'. lock_step s s' \<and> lock_state s' = FL_READY \<and> threads s' t = Wants st" if "lock_state s \<noteq> FL_PM_SUSPENDED"
    using lock_step.release [OF u that] ne assms(2) by (intro exI conjI) (assumption, simp_all add: wake_def)
  with u ne show ?thesis by blast
qed

definition demo_sleeper :: dev_lock where
  "demo_sleeper = lock_init\<lparr>lock_state := FL_READING,
     threads := (\<lambda>_. Idle)(0 := Holds FL_READING, 1 := Sleeps FL_WRITING)\<rparr>"

lemma demo_sleeper_reachable: "lock_step\<^sup>*\<^sup>* lock_init demo_sleeper"
proof -
  let ?s = "\<lambda>st m. lock_init\<lparr>lock_state := st, threads := m\<rparr>" and ?i = "\<lambda>_ :: nat. Idle"
  have "lock_step lock_init (?s FL_READY (?i(0 := Wants FL_READING)))"
    using lock_step.call [of lock_init 0 FL_READING] by (simp add: lock_init_def)
  moreover have "lock_step (?s FL_READY (?i(0 := Wants FL_READING))) (?s FL_READING (?i(0 := Holds FL_READING)))"
    using lock_step.take [of "?s FL_READY (?i(0 := Wants FL_READING))" 0 FL_READING FL_READING]
    by (simp add: lock_init_def try_get_device_def)
  moreover have "lock_step (?s FL_READING (?i(0 := Holds FL_READING)))
      (?s FL_READING (?i(0 := Holds FL_READING, 1 := Wants FL_WRITING)))"
    using lock_step.call [of "?s FL_READING (?i(0 := Holds FL_READING))" 1 FL_WRITING] by (simp add: lock_init_def)
  moreover have "lock_step (?s FL_READING (?i(0 := Holds FL_READING, 1 := Wants FL_WRITING))) demo_sleeper"
    using lock_step.sleep [of "?s FL_READING (?i(0 := Holds FL_READING, 1 := Wants FL_WRITING))" 1 FL_WRITING]
    by (simp add: lock_init_def try_get_device_def demo_sleeper_def)
  ultimately show ?thesis by (meson converse_rtranclp_into_rtranclp rtranclp.rtrancl_refl)
qed

theorem device_no_lost_wakeup_witness:
  "\<exists>s'. lock_step demo_sleeper s' \<and> lock_state s' = FL_READY \<and> threads s' 1 = Wants FL_WRITING"
proof -
  have "threads demo_sleeper 1 = Sleeps FL_WRITING" "lock_state demo_sleeper \<noteq> FL_PM_SUSPENDED"
    by (simp_all add: demo_sleeper_def)
  then show ?thesis using device_no_lost_wakeup [OF demo_sleeper_reachable, of 1 FL_WRITING] by blast
qed

text \<open>
  Removing a device leaves one more entry on the list of devices, instead of one less.\<close>

theorem remove_grows_list:
  assumes "run_inv (nm_ni nm)"
  shows "wp (nmbm_remove crc 0 nm devs) (\<lambda>(ret, devs'). ret = 0 \<and> length devs' = Suc (length devs) \<and> set devs \<subseteq> set devs')"
proof -
  have "wp (nmbm_detach crc (nm_ni nm)) (\<lambda>(ret, n). True)"
    using runs_update [OF assms, of crc] by (auto simp: nmbm_detach_def elim!: wp_mono)
  then show ?thesis by (auto simp: nmbm_remove_def elim!: wp_mono)
qed

theorem remove_grows_list_witness:
  "wp (nmbm_remove demo_crc 0 demo_nm [demo_nm]) (\<lambda>(ret, devs). ret = 0 \<and> length devs = 2)"
  using remove_grows_list [of demo_nm demo_crc "[demo_nm]"] demo_mtd_inv(1)
  by (auto simp: mtd_inv_def elim!: wp_mono)

section \<open>The block layer of the newer kernels\<close>

text \<open>
  C21: reading through \<open>mtk_bmt_read\<close> on a chip that reads well gives, byte for byte, what the block
  mapping makes of the chip, over any number of blocks; nothing of the state changes, the length is
  reported in full, and the rest of the caller's buffer is left alone. The table format is arbitrary.
\<close>

theorem bmt_read_bytes:
  assumes "bmt_blocks D" and "reads_bytes D byte" and "ops_datbuf ops = Some buf" and "ops_ooblen ops = 0"
    and "unat (ops_len ops) \<le> length buf" and "unat (ops_len ops) < 2 ^ 32"
    and "\<forall>i < unat (ops_len ops). maps_block B D (addr + of_nat i)"
  shows "\<exists>r ops'. mtk_bmt_read B D addr ops = Some (r, ops', D) \<and> 0 \<le> r \<and> ops_retlen ops' = ops_len ops \<and>
    ops_datbuf ops' = Some (map (\<lambda>i. byte (layer_addr B D (addr + of_nat i))) [0..<unat (ops_len ops)] @ drop (unat (ops_len ops)) buf)"
  using read_bytes [of D byte ops buf B addr] assms by blast

definition demo_read :: mtd_oob_ops where
  "demo_read = \<lparr>ops_mode = MTD_OPS_PLACE_OOB, ops_len = 6, ops_retlen = 0, ops_ooblen = 0, ops_oobretlen = 0,
     ops_ooboffs = 0, ops_datbuf = Some (replicate 8 0), ops_oobbuf = None\<rparr>"

theorem bmt_read_bytes_witness:
  "\<exists>r ops'. mtk_bmt_read mtk_bmt_bbt_ops demo_bbt 29 demo_read = Some (r, ops', demo_bbt) \<and>
     ops_datbuf ops' = Some [29, 30, 31, 48, 49, 50, 0, 0]"
proof -
  have lay: "maps_block mtk_bmt_bbt_ops demo_bbt (29 + of_nat i) \<and>
      layer_addr mtk_bmt_bbt_ops demo_bbt (29 + of_nat i) = (if i < 3 then 29 + of_nat i else 45 + of_nat i)" if "i < 6" for i
  proof -
    have "i = 0 \<or> i = 1 \<or> i = 2 \<or> i = 3 \<or> i = 4 \<or> i = 5" using that by linarith
    then show ?thesis
      by (elim disjE; simp add: maps_block_def layer_addr_def blk_number_def blk_offset_def mapped_addr_def mtk_bmt_bbt_ops_def demo_mapping)
  qed
  have "map (\<lambda>i. demo_mem (layer_addr mtk_bmt_bbt_ops demo_bbt (29 + of_nat i))) [0..<6]
      = map (\<lambda>i. demo_mem (if i < 3 then 29 + of_nat i else 45 + of_nat i)) [0..<6]"
    using lay by (intro map_cong) auto
  also have "\<dots> = [29, 30, 31, 48, 49, 50]" by (simp add: upt_rec demo_mem_def)
  finally have bytes: "map (\<lambda>i. demo_mem (layer_addr mtk_bmt_bbt_ops demo_bbt (29 + of_nat i))) [0..<6] = [29, 30, 31, 48, 49, 50]" .
  have "bmt_blocks demo_bbt" "reads_bytes demo_bbt demo_mem" by (simp_all add: demo_bbt_def demo_blocks demo_reads)
  moreover have two: "replicate 2 (0 :: u8) = [0, 0]" by (simp add: numeral_2_eq_2)
  ultimately show ?thesis
    using lay bmt_read_bytes [of demo_bbt demo_mem demo_read "replicate 8 0" mtk_bmt_bbt_ops 29]
    by (auto simp: demo_read_def bytes two)
qed

text \<open>
  C22: reading and writing through the layer return on both formats for every driver that makes progress,
  whatever it fails at: every block is remapped and tried at most ten times over. The whole request has
  been served, data and spare bytes, unless an error is reported, and more than was asked for is never
  reported.
\<close>

theorem bmt_transfers_return:
  assumes "reads_progress (nand_ops D)" and "writes_progress (nand_ops D)" and "bmt_geometry D"
    and "unat (ops_len ops) < 2 ^ 32"
  shows "transfer_served D ops (mtk_bmt_read mtk_bmt_bbt_ops D addr ops) \<and> transfer_served D ops (mtk_bmt_write mtk_bmt_bbt_ops D addr ops) \<and>
    transfer_served D ops (mtk_bmt_read mtk_bmt_v2_ops D addr ops) \<and> transfer_served D ops (mtk_bmt_write mtk_bmt_v2_ops D addr ops)"
  using bbt.transfers_served [OF assms(3,4)] v2.transfers_served [OF assms(3,4)] assms(1,2) by blast

theorem bmt_transfers_return_witness:
  "transfer_served (demo_v2 {15}) demo_read (mtk_bmt_write mtk_bmt_v2_ops (demo_v2 {15}) 29 demo_read)"
  using bmt_transfers_return [of "demo_v2 {15}" demo_read 29] mem_progress demo_blocks
  by (simp add: demo_v2_def bmt_blocks_def demo_read_def)

text \<open>
  C23: erasing a range, asking whether a block is bad and marking one bad return on both formats. An
  erase names a failing address only with an error, inside the range; without one its result is 0,
  \<open>-EIO\<close> for a block that is mapped nowhere, or, for an empty range, whatever the uninitialised
  \<open>ret\<close> holds. A block reported good is one the driver has called good under the mapping that is left.
\<close>

theorem bmt_erase_bad_return:
  assumes "0 < m_erasesize (bmt_mtd D)" and "unat (addr + len) + 2 ^ 32 \<le> 2 ^ 64"
  shows "wp (mtk_bmt_mtd_erase mtk_bmt_bbt_ops ret D addr len) (erase_served ret D addr len) \<and>
    wp (mtk_bmt_mtd_erase mtk_bmt_v2_ops ret D addr len) (erase_served ret D addr len) \<and>
    wp (mtk_bmt_block_isbad mtk_bmt_bbt_ops D addr) (isbad_served mtk_bmt_bbt_ops D addr) \<and>
    wp (mtk_bmt_block_isbad mtk_bmt_v2_ops D addr) (isbad_served mtk_bmt_v2_ops D addr) \<and>
    wp (mtk_bmt_block_markbad mtk_bmt_bbt_ops D addr) (\<lambda>(r, E). same_desc D E) \<and>
    wp (mtk_bmt_block_markbad mtk_bmt_v2_ops D addr) (\<lambda>(r, E). same_desc D E)"
  using bbt.bad_blocks_served [OF assms] v2.bad_blocks_served [OF assms] by blast

theorem bmt_erase_bad_return_witness:
  "wp (mtk_bmt_mtd_erase mtk_bmt_v2_ops 7 (demo_v2 {15}) 32 48) (erase_served 7 (demo_v2 {15}) 32 48)"
  using bmt_erase_bad_return [of "demo_v2 {15}" 32 48 7] by (simp add: demo_v2_def demo_mtd_def)

text \<open>
  C24: the mapping of the table of good and bad blocks is a permutation of every remap range: the good
  blocks in ascending order, then the bad ones. The search loops of \<open>get_mapping_block_index_bbt\<close>
  always end and compute exactly this.
\<close>

theorem bbt_mapping_permutes:
  assumes "remap_area D s e"
  shows "(\<forall>b \<in> {s..<e}. get_mapping_block_index_bbt D b =
      Some ((filter (\<lambda>i. \<not> bbt_block_is_bad D (word_of_int i)) [s..e - 1] @
             filter (\<lambda>i. bbt_block_is_bad D (word_of_int i)) [s..e - 1]) ! nat (b - s))) \<and>
    bij_betw (\<lambda>b. the (get_mapping_block_index_bbt D b)) {s..<e} {s..<e}"
proof
  show m: "\<forall>b \<in> {s..<e}. get_mapping_block_index_bbt D b =
      Some ((filter (\<lambda>i. \<not> bbt_block_is_bad D (word_of_int i)) [s..e - 1] @
             filter (\<lambda>i. bbt_block_is_bad D (word_of_int i)) [s..e - 1]) ! nat (b - s))"
    using remap_area_mapping [OF assms] by (simp add: bbt_layout_def good_in_def bad_in_def)
  have "bij_betw (\<lambda>b. bbt_layout D s e ! nat (b - s)) {s..<e} {s..<e}" by (rule layout_nth_bij)
  then show "bij_betw (\<lambda>b. the (get_mapping_block_index_bbt D b)) {s..<e} {s..<e}"
    by (rule bij_betw_cong [THEN iffD1, rotated]) (simp add: m bbt_layout_def good_in_def bad_in_def)
qed

theorem bbt_mapping_permutes_witness:
  "bij_betw (\<lambda>b. the (get_mapping_block_index_bbt demo_bbt b)) {0..<8} {0..<8} \<and>
   get_mapping_block_index_bbt demo_bbt 2 = Some 3 \<and> get_mapping_block_index_bbt demo_bbt 7 = Some 2"
  using bbt_mapping_permutes [OF demo_area] by (simp add: demo_mapping)

text \<open>
  C25: remapping a logic block of this format that has a good block. It erases the block the mapping
  gives after the old one is marked, and copies \<open>copy_len\<close> bytes into it. That is the block of the
  \<^emph>\<open>next\<close> logic block, as long as there is another good one, else the lowest bad block. The logic
  blocks below keep their blocks; each one from this on takes the block of its successor as long as
  that is a good block; the rest of the range is mapped to the bad blocks in ascending order, the
  block given up among them.
\<close>

theorem bbt_remap_takes_next:
  assumes "remap_area D s e" and "s \<le> uint block" and "nat (uint block - s) < length (good_in D s e)"
    and "get_mapping_block_index_bbt D (uint block) = Some p"
  shows "\<exists>q E. shifted_mapping D s e (uint block) p (uint block) = Some q \<and>
    remap_block_bbt D block (word_of_int p) copy_len = Some (True, E) \<and>
    E = moved_to (bbt_set_block_state D (word_of_int p) True) (word_of_int q) (word_of_int p) copy_len \<and>
    (\<forall>b'. s \<le> b' \<and> b' < e \<longrightarrow> get_mapping_block_index_bbt E b' =
       (if b' < uint block then get_mapping_block_index_bbt D b'
        else if nat (b' + 1 - s) < length (good_in D s e) then get_mapping_block_index_bbt D (b' + 1)
        else Some (insort p (bad_in D s e) ! (nat (b' + 1 - s) - length (good_in D s e)))))"
  using remap_bbt_shifts [OF assms, of copy_len] by (simp only: shifted_mapping_def)

theorem bbt_remap_takes_next_witness:
  "\<exists>E. remap_block_bbt demo_bbt 1 1 16 = Some (True, E) \<and>
     map (get_mapping_block_index_bbt demo_bbt) [0..7] = map Some [0, 1, 3, 4, 5, 6, 7, 2] \<and>
     map (get_mapping_block_index_bbt E) [0..7] = map Some [0, 3, 4, 5, 6, 7, 1, 2]"
proof -
  have "[0..7] = [0, 1, 2, 3, 4, 5, 6, 7 :: int]" by code_simp
  then show ?thesis
    using bbt_remap_takes_next [OF demo_area, of 1 1 16] by (auto simp: demo_parts demo_mapping)
qed

text \<open>
  Without a remap range the format remaps nothing: on blocks of 64 KiB and more every block is
  mapped to itself, marked bad or not, and remapping a block marks it and erases it.
\<close>

theorem bbt_no_range_never_remaps:
  assumes "remap_range D = None" and "16 \<le> blk_shift D"
  shows "get_mapping_block_index_bbt D b = Some b \<and>
    remap_block_bbt D block p copy_len = Some (True, moved_to (bbt_set_block_state D p True) block p copy_len)"
  using no_range_identity [OF assms] remap_bbt_no_range [OF assms] by simp

theorem bbt_no_range_never_remaps_witness:
  "get_mapping_block_index_bbt (demo_bbt\<lparr>remap_range := None, blk_shift := 17\<rparr>) 2 = Some 2 \<and>
   bbt_block_is_bad demo_bbt 2"
  using bbt_no_range_never_remaps [of "demo_bbt\<lparr>remap_range := None, blk_shift := 17\<rparr>" 2]
  by (simp add: bbt_block_is_bad_def) (simp add: demo_bbt_def)

text \<open>
  C26: a scan that succeeds leaves tables that satisfy the invariant (no physical block serves two
  logic blocks, none in use can be handed out) with the table's own entry marked; above block 0, which
  is always mapped to itself, the logic blocks get exactly the good blocks in ascending order.
\<close>

theorem v2_scan_finds_blocks:
  assumes "scan_bad_blocks D = (0, E)" and "v2_fits D" and "block_marks D good"
  shows "v2_inv E \<and> v2_marked E \<and> bb_tbl E 0 = 0 \<and>
    (\<forall>j. 0 < j \<and> j < unat (pool_lba D) \<longrightarrow> good (bb_tbl E j) \<and> bb_tbl E (j - 1) < bb_tbl E j \<and>
       (\<forall>x. bb_tbl E (j - 1) < x \<and> x < bb_tbl E j \<longrightarrow> \<not> good x))"
proof -
  have "knows D (Some good)" using assms(3) by (simp add: knows_def)
  note sc = scan_bad_blocks [OF assms(1,2) this]
  have "bb_tbl E (j - 1) < bb_tbl E j" if "0 < j" "j < unat (pool_lba D)" for j
    using sc(4) that by (simp add: main_filled_def ascending_def)
  with sc show ?thesis by (auto simp: main_filled_def)
qed

theorem v2_scan_finds_blocks_witness:
  "\<exists>E. scan_bad_blocks (demo_v2 {}) = (0, E) \<and> v2_inv E \<and> bb_tbl E 0 = 0 \<and> (\<forall>j. 0 < j \<and> j < 10 \<longrightarrow> bb_tbl E j \<notin> {3, 12})"
proof -
  obtain E where E: "scan_bad_blocks (demo_v2 {}) = (0, E)" using demo_scan by (metis prod.collapse)
  have "block_marks (demo_v2 {}) (\<lambda>b. b \<notin> {3, 12})" using demo_knows by (simp add: knows_def)
  from v2_scan_finds_blocks [OF E demo_fits this] E show ?thesis by (simp add: demo_v2_def)
qed

text \<open>
  C27: remapping in format v2 takes a free entry of the pool for the logic block and keeps the mapping
  of every other one; no two logic blocks ever share a physical block. It fails, changing nothing,
  exactly when no entry is free. The whole invariant is kept unless the table could not be written at
  all, when \<open>bmt_blk_idx\<close> is left at 65535.
\<close>

theorem v2_remap_contract:
  assumes "v2_inv D" and "unat block < unat (pool_lba D)"
  shows "\<exists>ok E. remap_block_v2 D block mapped_block copy_len = Some (ok, E) \<and>
    (if ok then \<exists>k < unat (bmt_blk_idx D). bmt_mapped D k = NO_MAPPED \<and>
        (\<forall>j < unat (pool_lba D). bb_tbl E j = (if j = unat block then bmt_block D k else bb_tbl D j)) \<and>
        v2_mapping_ok E \<and> (bmt_blk_idx E = - 1 \<or> v2_inv E)
      else E = D \<and> (\<forall>k < unat (bmt_blk_idx D). bmt_mapped D k \<noteq> NO_MAPPED))"
proof -
  obtain ok E where r: "remap_block_v2 D block mapped_block copy_len = Some (ok, E)"
    using remap_v2_returns [of D block mapped_block copy_len] by blast
  from r remap_v2 [OF assms r] show ?thesis by blast
qed

theorem v2_remap_contract_witness:
  "\<exists>ok E. remap_block_v2 (snd (scan_bad_blocks (demo_v2 {}))) 5 7 16 = Some (ok, E) \<and> ok \<and> v2_mapping_ok E"
proof -
  obtain D where D: "scan_bad_blocks (demo_v2 {}) = (0, D)" using demo_scan by (metis prod.collapse)
  note sc = scan_bad_blocks [OF D demo_fits demo_knows]
  have lba: "pool_lba D = 10" using same_descD(9) [OF sc(1)] by (simp add: demo_v2_def)
  have "bmt_mapped (snd (scan_bad_blocks (demo_v2 {}))) 0 = NO_MAPPED \<and> 0 < unat (bmt_blk_idx (snd (scan_bad_blocks (demo_v2 {}))))"
    by code_simp
  then have free: "bmt_mapped D 0 = NO_MAPPED" "0 < unat (bmt_blk_idx D)" using D by simp_all
  from v2_remap_contract [OF sc(2), of 5 7 16] free show ?thesis
    by (auto simp: lba D split: if_splits)
qed

text \<open>
  After the table had to be written to another block than its own, because that one cannot be
  erased or written any more, no entry says where the table is: \<open>get_bmt_index\<close> gives 0 and the next
  boot takes the table for broken and scans the chip anew, without the remapped blocks.
\<close>

theorem v2_table_lost:
  assumes "v2_inv D" and "v2_marked D" and "bmt_blk_idx (reupload D) \<noteq> - 1" and "bmt_blk_idx (reupload D) \<noteq> bmt_blk_idx D"
  shows "get_bmt_index (reupload D) = Some 0"
  using get_index_reupload [OF assms(1-3)] assms(4) by simp

theorem v2_table_lost_witness:
  "get_bmt_index (reupload (snd (scan_bad_blocks (demo_v2 {15})))) = Some 0"
proof -
  have "fst (scan_bad_blocks (demo_v2 {15})) = 0" by code_simp
  then obtain D where D: "scan_bad_blocks (demo_v2 {15}) = (0, D)" by (metis prod.collapse)
  note sc = scan_bad_blocks [OF D demo_fits demo_knows]
  have "bmt_blk_idx (reupload (snd (scan_bad_blocks (demo_v2 {15})))) \<noteq> - 1 \<and>
      bmt_blk_idx (reupload (snd (scan_bad_blocks (demo_v2 {15})))) \<noteq> bmt_blk_idx (snd (scan_bad_blocks (demo_v2 {15})))"
    by code_simp
  then show ?thesis using v2_table_lost [OF sc(2,3)] D by simp
qed

text \<open>
  C28: the descriptor of an attached device is well formed: block size, shift and erase size agree, the
  operations saved are the driver's, those of the device are the layer's; and remapping and unmapping
  on either format keep it so.
\<close>

theorem bmt_attach_well_formed:
  assumes "formats_keep F" and "driver_only (dev_handlers dev)" and "pow2_device (dev_info dev)"
    and "mtk_bmt_attach F node dev None = Some (r, dev', Some b)"
  shows "bmt_blocks (g_desc b) \<and> driver_ops (g_saved b) = Some (nand_ops (g_desc b)) \<and>
    g_saved b = dev_handlers dev \<and> dev_handlers dev' = layer_handlers \<and>
    (\<forall>block p n ok E. remap_block_bbt (g_desc b) block p n = Some (ok, E) \<or> remap_block_v2 (g_desc b) block p n = Some (ok, E) \<or>
       unmap_block_bbt (g_desc b) block = E \<or> unmap_block_v2 (g_desc b) block = E \<longrightarrow> bmt_blocks E)"
proof (rule attach_cases [OF assms(4,2)])
  fix np k N D
  assume N: "driver_ops (dev_handlers dev) = Some N"
    and i: "bops_init (F k) (np_format np) (bmt_start (bops_sig (F k)) N np (overridden np (dev_info dev)) (dev_nand dev)) = Some (0, D)"
    and g: "Some b = Some \<lparr>g_mtd = dev_id dev, g_ops = k, g_saved = dev_handlers dev, g_desc = D\<rparr>"
    and d: "dev' = dev\<lparr>dev_handlers := layer_handlers, dev_info := bmt_mtd D, dev_nand := nand D\<rparr>"
  note a = attached_desc [of F k, OF assms(1) i]
  have ok: "bmt_blocks D" by (rule a(4) [OF assms(3)])
  have "bmt_blocks E" if "remap_block_bbt D block p n = Some (x, E) \<or> remap_block_v2 D block p n = Some (x, E) \<or>
       unmap_block_bbt D block = E \<or> unmap_block_v2 D block = E" for block p n x E
    using that remap_bbt_returns [of D block p n] remap_v2_returns [of D block p n] bbt.unmap_same [of D block] v2.unmap_same [of D block] ok
    by (auto simp: mtk_bmt_bbt_ops_def mtk_bmt_v2_ops_def blocks_same)
  then show ?thesis using ok N g d a(1) by simp
qed simp_all

theorem bmt_attach_well_formed_witness:
  "\<exists>dev' b. mtk_bmt_attach demo_formats (Some demo_node) demo_dev None = Some (0, dev', Some b) \<and> bmt_blocks (g_desc b)"
proof -
  obtain dev' b where a: "mtk_bmt_attach demo_formats (Some demo_node) demo_dev None = Some (0, dev', Some b)"
    using demo_attaches by auto
  then show ?thesis using bmt_attach_well_formed [OF demo_formats_keep demo_drivers demo_pow2 a] by blast
qed

text \<open>
  C29: attaching either leaves the device with its own operations, or replaces all five of them; then no
  second device can be attached, and detaching puts all five back and clears \<open>bmtd\<close>. The size is put
  back exactly for a chip of less than 2 GiB with at most 65535 whole blocks.
\<close>

theorem bmt_attach_detach:
  assumes "driver_only (dev_handlers dev)" and "mtk_bmt_attach F node dev None = Some (r, dev', g')"
  shows "case g' of
      None \<Rightarrow> dev_handlers dev' = dev_handlers dev
    | Some b \<Rightarrow> r = 0 \<and> dev_handlers dev' = layer_handlers \<and>
        (\<forall>node' dev''. mtk_bmt_attach F node' dev'' (Some b) = Some (- ENOSPC, dev'', Some b)) \<and>
        (\<exists>dev''. mtk_bmt_detach dev' (Some b) = (dev'', None) \<and> dev_handlers dev'' = dev_handlers dev \<and>
          (\<forall>k. formats_keep F \<and> m_erasesize (dev_info dev) = 2 ^ k \<and> k < 32 \<and> 2 ^ k dvd unat (m_size (dev_info dev)) \<and>
             unat (m_size (dev_info dev)) < 2 ^ 31 \<and> unat (m_size (dev_info dev)) < 2 ^ (16 + k) \<longrightarrow>
             m_size (dev_info dev'') = m_size (dev_info dev)))"
proof (rule attach_cases [OF assms(2,1)])
  fix np k N D
  assume "r = 0" and i: "bops_init (F k) (np_format np) (bmt_start (bops_sig (F k)) N np (overridden np (dev_info dev)) (dev_nand dev)) = Some (0, D)"
    and "g' = Some \<lparr>g_mtd = dev_id dev, g_ops = k, g_saved = dev_handlers dev, g_desc = D\<rparr>"
    and "dev' = dev\<lparr>dev_handlers := layer_handlers, dev_info := bmt_mtd D, dev_nand := nand D\<rparr>"
  moreover have "restored_size D = m_size (dev_info dev)"
    if "formats_keep F \<and> m_erasesize (dev_info dev) = 2 ^ e \<and> e < 32 \<and> 2 ^ e dvd unat (m_size (dev_info dev)) \<and>
      unat (m_size (dev_info dev)) < 2 ^ 31 \<and> unat (m_size (dev_info dev)) < 2 ^ (16 + e)" for e
    using that attached_desc(2,3) [of F k, OF _ i] by (intro restored_size_exact) auto
  ultimately show ?thesis by (simp add: mtk_bmt_attach_def mtk_bmt_detach_def) blast
qed simp_all

theorem bmt_attach_detach_witness:
  "\<exists>dev' b dev''. mtk_bmt_attach demo_formats (Some demo_node) demo_dev None = Some (0, dev', Some b) \<and>
     mtk_bmt_detach dev' (Some b) = (dev'', None) \<and> dev_handlers dev'' = dev_handlers demo_dev \<and> m_size (dev_info dev'') = 256"
proof -
  obtain dev' b where a: "mtk_bmt_attach demo_formats (Some demo_node) demo_dev None = Some (0, dev', Some b)"
    using demo_attaches by auto
  have "m_erasesize (dev_info demo_dev) = 2 ^ 4 \<and> (2 :: nat) ^ 4 dvd unat (m_size (dev_info demo_dev)) \<and> m_size (dev_info demo_dev) = 256"
    by (simp add: demo_dev_def demo_mtd_def)
  then show ?thesis using bmt_attach_detach [OF demo_drivers a] demo_formats_keep a by (fastforce dest: spec [of _ 4])
qed

section \<open>Hardware NAT: the flow table\<close>

text \<open>
  C30: deleting by MAC address or IP address always returns, counts the bound entries that match and
  marks exactly these as invalid, leaving their keys; every other entry is untouched, and no register
  was written but those of the flow caches. After deleting by MAC address no bound entry of a routed
  packet type holds the address, read where the structure of its type has the two addresses. Bridging
  entries are searched at other words, and one with the address may stay.
\<close>

theorem hnat_delete_contract:
  assumes "full_tables h"
  shows "wp (entry_delete_by_mac dev (Some mac) h) (\<lambda>(n, h'). n = all_hits (\<lambda>e. entry_mac_cmp e mac ENTRY_CMP_ANY) h
      \<and> no_flow_to mac h' \<and> same_but_tables (all_cache_regs h) h h'
      \<and> deleted_in (\<lambda>e. entry_mac_cmp e mac ENTRY_CMP_ANY) ({0..<ppe_num h} \<times> {0..<DEF_ETRY_NUM}) h h')
    \<and> wp (entry_delete_by_ip dev is_ipv4 (Some ip) h) (\<lambda>(n, h').
        n = all_hits (\<lambda>e. entry_ip_cmp e is_ipv4 ip ENTRY_CMP_ANY) h \<and> same_but_tables (all_cache_regs h) h h'
        \<and> deleted_in (\<lambda>e. entry_ip_cmp e is_ipv4 ip ENTRY_CMP_ANY) ({0..<ppe_num h} \<times> {0..<DEF_ETRY_NUM}) h h')"
proof -
  note spec = delete_match_spec [OF assms]
  have "wp (entry_delete_by_mac dev (Some mac) h) (\<lambda>(n, h'). n = all_hits (\<lambda>e. entry_mac_cmp e mac ENTRY_CMP_ANY) h
      \<and> no_flow_to mac h' \<and> same_but_tables (all_cache_regs h) h h'
      \<and> deleted_in (\<lambda>e. entry_mac_cmp e mac ENTRY_CMP_ANY) ({0..<ppe_num h} \<times> {0..<DEF_ETRY_NUM}) h h')"
    using wp_conj [OF delete_by_mac_drops [OF assms, of dev mac] spec [of dev "\<lambda>e. entry_mac_cmp e mac ENTRY_CMP_ANY",
        folded entry_delete_by_mac_mac]]
    by (auto simp: wp_iff)
  then show ?thesis using spec [of dev "\<lambda>e. entry_ip_cmp e is_ipv4 ip ENTRY_CMP_ANY"]
    by (auto simp: wp_iff entry_delete_by_ip_def)
qed

theorem hnat_delete_contract_witness:
  "wp (entry_delete_by_mac mem_dev (Some (eth_src demo_path)) (demo_hnat (demo_flow IPV4_HNAPT)))
     (\<lambda>(n, h'). no_flow_to (eth_src demo_path) h')"
  using hnat_delete_contract [OF demo_flow_tables(1), of mem_dev "eth_src demo_path" "demo_flow IPV4_HNAPT" True "\<lambda>_. 0"]
  by (auto simp: wp_iff)

text \<open>
  C36: a flow that was bound with the two MAC addresses of a path is dropped when the driver is asked
  to forget either address, for every packet type it fills in but one: in a bridging entry the
  comparison reads words in which an IPv6 entry has its addresses, so that the entry stays unless
  those happen to match.
\<close>

theorem hnat_bound_then_forgotten:
  assumes "full_tables h" and "p < ppe_num h" and "i < DEF_ETRY_NUM"
    and "foe_table_cpu h ! p ! i = ppe_fill_L2_info e hp" and "foe_state (ppe_fill_L2_info e hp) = BIND"
    and "mac \<in> {eth_dest hp, eth_src hp}"
  shows "wp (entry_delete_by_mac dev (Some mac) h) (\<lambda>(n, h').
    (pkt_type e \<in> {IPV4_HNAPT, IPV4_HNAT, IPV4_DSLITE, IPV4_MAP_E, IPV6_6RD, IPV6_5T_ROUTE, IPV6_3T_ROUTE,
        IPV6_HNAPT, IPV6_HNAT} \<longrightarrow> foe_state (foe_table_cpu h' ! p ! i) = INVALID)
    \<and> (pkt_type e = L2_BRIDGE \<and> \<not> entry_mac_cmp e mac ENTRY_CMP_ANY \<longrightarrow>
        foe_table_cpu h' ! p ! i = ppe_fill_L2_info e hp))"
proof -
  let ?f = "\<lambda>e. entry_mac_cmp e mac ENTRY_CMP_ANY"
  have lt: "p < length (foe_table_cpu h)" "i < length (foe_table_cpu h ! p)"
    using assms(1-3) by (auto simp: full_tables_def intro: less_le_trans)
  show ?thesis
    unfolding entry_delete_by_mac_mac
  proof (rule wp_pair [OF delete_match_spec [OF assms(1)]], elim conjE, intro conjI impI)
    fix n h'
    assume d: "deleted_in ?f ({0..<ppe_num h} \<times> {0..<DEF_ETRY_NUM}) h h'"
    show "foe_state (foe_table_cpu h' ! p ! i) = INVALID"
      if t: "pkt_type e \<in> {IPV4_HNAPT, IPV4_HNAT, IPV4_DSLITE, IPV4_MAP_E, IPV6_6RD, IPV6_5T_ROUTE, IPV6_3T_ROUTE,
        IPV6_HNAPT, IPV6_HNAT}"
    proof -
      have "hit ?f (foe_table_cpu h ! p ! i)"
        using fill_then_cmp [OF t, of hp] assms(4-6) by (auto simp: hit_def)
      then have "is_deleted (foe_table_cpu h ! p ! i) (foe_table_cpu h' ! p ! i)"
        using deleted_in_hit [OF d _ lt] assms(2,3) by simp
      then show ?thesis by (rule is_deleted_state)
    qed
    show "foe_table_cpu h' ! p ! i = ppe_fill_L2_info e hp" if b: "pkt_type e = L2_BRIDGE \<and> \<not> ?f e"
    proof -
      have "\<not> hit ?f (foe_table_cpu h ! p ! i)" using b assms(4) by (simp add: hit_def fill_bridge_cmp)
      then show ?thesis using deleted_in_kept [OF d _ lt] assms(4) by simp
    qed
  qed
qed

theorem hnat_bound_then_forgotten_witness:
  "wp (entry_delete_by_mac mem_dev (Some (eth_src demo_path)) (demo_hnat (ppe_fill_L2_info (demo_flow IPV4_HNAPT) demo_path)))
     (\<lambda>(n, h'). foe_state (foe_table_cpu h' ! 0 ! 5) = INVALID)
   \<and> wp (entry_delete_by_mac mem_dev (Some (eth_src demo_path)) (demo_hnat (ppe_fill_L2_info (demo_flow L2_BRIDGE) demo_path)))
     (\<lambda>(n, h'). foe_table_cpu h' ! 0 ! 5 = ppe_fill_L2_info (demo_flow L2_BRIDGE) demo_path)"
proof -
  have at: "foe_table_cpu (demo_hnat e) ! 0 ! 5 = e" "0 < ppe_num (demo_hnat e)" for e by (simp_all add: demo_hnat_def)
  have b: "foe_state (ppe_fill_L2_info (demo_flow t) demo_path) = BIND" if "t = IPV4_HNAPT \<or> t = L2_BRIDGE" for t
    using that demo_flow(1) [of t] by (auto simp: ppe_fill_L2_info_def Let_def foe_fields)
  have c: "\<not> entry_mac_cmp (demo_flow L2_BRIDGE) (eth_src demo_path) ENTRY_CMP_ANY" by code_simp
  show ?thesis
    using hnat_bound_then_forgotten [OF demo_flow_tables(1) at(2) _ at(1) b, of IPV4_HNAPT "eth_src demo_path" mem_dev]
      hnat_bound_then_forgotten [OF demo_flow_tables(1) at(2) _ at(1) b, of L2_BRIDGE "eth_src demo_path" mem_dev] c
    by (auto simp: wp_iff)
qed

section \<open>Hardware NAT: the API\<close>

text \<open>
  C31: calls of the update functions, in any order and with any arguments, always return, keep the
  tables and never change which flow an entry serves: its state, its packet type and the place its
  key hashes to.
\<close>

theorem hnat_updates_keep_flows:
  assumes "sized_tables h"
  shows "wp (api_updates dev cs h) (\<lambda>h'. sized_tables h' \<and> (\<forall>q j. rel_option same_flow (foe_at h q j) (foe_at h' q j)))"
  using api_updates_keep_flows [OF assms, of dev cs] by (simp add: flows_kept_def)

theorem hnat_updates_keep_flows_witness:
  "wp (api_updates mem_dev [(0, 5, Hqos 1 3), (0, 5, Vlan 7 0), (0, 6, Dscp 46)] (demo_hnat (demo_flow IPV4_HNAPT)))
     (\<lambda>h'. rel_option same_flow (Some (demo_flow IPV4_HNAPT)) (foe_at h' 0 5))"
  by (rule wp_mono [OF hnat_updates_keep_flows [OF demo_flow_tables(2)]]) (metis demo_flow_tables(3))

text \<open>
  C32: what an update of a bound \<open>IPV4_HNAPT\<close> or \<open>IPV6_5T_ROUTE\<close> entry makes of the tuple that is read
  of the entry, before and after it. A queue number that does not exist is refused and changes
  nothing. Any other update succeeds: DSCP, the two VLAN tags, PPPoE and the queue read back as set;
  rate limiting reads back as set unless the entry already had the requested mark and queue, when
  its port, and what the tuple says, stay; the Wi-Fi priority and traffic class read back as set from
  an \<open>IPV4_HNAPT\<close> entry, and are unchanged in the tuple of an \<open>IPV6_5T_ROUTE\<close> entry.
\<close>

theorem hnat_update_read_back:
  assumes "sized_tables h" and "unat ppe < ppe_num h" and "unat hash < foe_etry_num h"
    and "foe_at h (unat ppe) (unat hash) = Some e" and "entry_hnat_is_bound e"
    and "pkt_type e \<in> {IPV4_HNAPT, IPV6_5T_ROUTE}"
    and "t_ppe_index opt = ppe" and "t_hash_index opt = hash"
  shows "wp (api_update dev ppe hash c h) (\<lambda>(ret, h'). \<exists>old t.
     mtk_hnat_get_ppe_entry_by_index h opt = Some (HNAT_SUCCESS, old)
     \<and> mtk_hnat_get_ppe_entry_by_index h' opt = Some (HNAT_SUCCESS, t)
     \<and> (if refused_call c then ret = HNAT_FAIL \<and> t = old else ret = HNAT_SUCCESS \<and> reads_back c e old t))"
  by (rule api_read_back [OF assms])

theorem hnat_update_read_back_witness:
  "wp (api_update mem_dev 0 5 (Vlan 7 0) (demo_hnat (demo_flow IPV4_HNAPT))) (\<lambda>(ret, h').
     ret = HNAT_SUCCESS \<and> (\<exists>t. mtk_hnat_get_ppe_entry_by_index h' demo_tuple = Some (HNAT_SUCCESS, t) \<and> t_vlan1 t = 7))
   \<and> wp (api_update mem_dev 0 5 (Hqos 1 3) (demo_hnat demo_other_port)) (\<lambda>(ret, h').
     ret = HNAT_SUCCESS \<and> (\<exists>t. mtk_hnat_get_ppe_entry_by_index h' demo_tuple = Some (HNAT_SUCCESS, t) \<and> t_fqos t = 0))"
proof
  have n: "unat (0 :: u16) < ppe_num (demo_hnat e)" "unat (5 :: u16) < foe_etry_num (demo_hnat e)"
    "foe_at (demo_hnat e) (unat (0 :: u16)) (unat (5 :: u16)) = Some e"
    "t_ppe_index demo_tuple = 0" "t_hash_index demo_tuple = 5" for e
    using demo_flow_tables(3) by (simp_all add: demo_hnat_def demo_tuple_def)
  note rb = hnat_update_read_back [OF demo_flow_tables(2) n(1-3) _ _ n(4,5)]
  have t: "IPV4_HNAPT \<in> {IPV4_HNAPT, IPV6_5T_ROUTE}" "entry_hnat_is_bound (demo_flow IPV4_HNAPT)"
    by (simp_all add: entry_hnat_is_bound_def)
  show "wp (api_update mem_dev 0 5 (Vlan 7 0) (demo_hnat (demo_flow IPV4_HNAPT))) (\<lambda>(ret, h').
     ret = HNAT_SUCCESS \<and> (\<exists>t. mtk_hnat_get_ppe_entry_by_index h' demo_tuple = Some (HNAT_SUCCESS, t) \<and> t_vlan1 t = 7))"
    by (rule wp_mono [OF rb [OF t(2)]]) (use t in auto)
  show "wp (api_update mem_dev 0 5 (Hqos 1 3) (demo_hnat demo_other_port)) (\<lambda>(ret, h').
     ret = HNAT_SUCCESS \<and> (\<exists>t. mtk_hnat_get_ppe_entry_by_index h' demo_tuple = Some (HNAT_SUCCESS, t) \<and> t_fqos t = 0))"
    by (rule wp_mono [OF rb [OF demo_other_port(2)]])
      (auto simp: demo_other_port demo_other_tuple demo_get tuple_layout_def)
qed

text \<open>
  Rate limiting a flow writes the port field where a five-tuple entry has it. In a MAP-E entry that
  is the low half byte of the new source port, in an IPv6 NAT entry a part of the new address: the
  translation of the flow is changed, and the field that was meant is not.
\<close>

theorem hnat_hqos_changes_nat:
  assumes "fst (hnat_entry_set_hqos fqos qid e) = HNAT_SUCCESS"
  shows "(pkt_type e = IPV4_MAP_E \<longrightarrow>
      getf hnat_ipv4_mape ''new_sport'' (snd (hnat_entry_set_hqos fqos qid e))
        = (getf hnat_ipv4_mape ''new_sport'' e AND NOT 0xf) OR (if fqos \<noteq> 0 then 1 else 0)
      \<and> getf hnat_ipv4_mape ''tport_id'' (snd (hnat_entry_set_hqos fqos qid e)) = getf hnat_ipv4_mape ''tport_id'' e)
    \<and> (pkt_type e \<in> {IPV6_HNAPT, IPV6_HNAT} \<longrightarrow>
      getf hnat_ipv6_hnapt ''new_ipv6_ip2'' (snd (hnat_entry_set_hqos fqos qid e))
        = (getf hnat_ipv6_hnapt ''new_ipv6_ip2'' e AND NOT 0xf0000) OR (if fqos \<noteq> 0 then 0x10000 else 0)
      \<and> getf hnat_ipv6_hnapt ''tport_id'' (snd (hnat_entry_set_hqos fqos qid e)) = getf hnat_ipv6_hnapt ''tport_id'' e)"
  using hqos_hits_nat [OF assms] by blast

theorem hnat_hqos_changes_nat_witness:
  "getf hnat_ipv4_mape ''new_sport'' (snd (hnat_entry_set_hqos 1 3 (demo_flow IPV4_MAP_E))) = 1"
proof -
  have "fst (hnat_entry_set_hqos 1 3 (demo_flow IPV4_MAP_E)) = HNAT_SUCCESS"
    "getf hnat_ipv4_mape ''new_sport'' (demo_flow IPV4_MAP_E) = 0" "pkt_type (demo_flow IPV4_MAP_E) = IPV4_MAP_E"
    by code_simp+
  with hnat_hqos_changes_nat [of 1 3 "demo_flow IPV4_MAP_E"] show ?thesis by simp
qed

section \<open>Hardware NAT: starting an engine\<close>

text \<open>
  C37: when an engine was started, the size its table configuration register says is the one recorded,
  and the table has as many entries as the driver's count, which was halved once for every size that
  could not be allocated; the tables of the other engines are as before. The two agree when the
  count was the default one before: it is not set back for the next engine, whose register then says
  more than was allocated. And once the table of the first engine is smaller than the default,
  forgetting a MAC address runs past its end.
\<close>

theorem hnat_start_table_size:
  assumes "hnat_start dev dma flow mib acct_ok p h = Some (0, h')" and "cache_device dev p"
    and "p < length (foe_table_cpu h)"
  shows "\<exists>cfg \<le> 3. reg_now dev (Ppe p PPE_TB_CFG) h' AND 7 = of_nat cfg \<and> etry_num_cfg h' = int cfg
    \<and> foe_etry_num h' = foe_etry_num h div 2 ^ (3 - cfg) \<and> length (foe_table_cpu h' ! p) = foe_etry_num h'
    \<and> (foe_etry_num h = DEF_ETRY_NUM \<longrightarrow> length (foe_table_cpu h' ! p) = 1024 * 2 ^ cfg)
    \<and> (\<forall>q. q \<noteq> p \<longrightarrow> foe_table_cpu h' ! q = foe_table_cpu h ! q)
    \<and> (p = 0 \<and> foe_etry_num h' < DEF_ETRY_NUM \<longrightarrow> entry_delete_by_mac dev' (Some mac) h' = None)"
proof -
  obtain cfg where c: "cfg \<le> 3" "reg_now dev (Ppe p PPE_TB_CFG) h' AND 7 = of_nat cfg" "etry_num_cfg h' = int cfg"
      "foe_etry_num h' = foe_etry_num h div 2 ^ (3 - cfg)" "length (foe_table_cpu h' ! p) = foe_etry_num h'"
      "length (foe_table_cpu h') = length (foe_table_cpu h)" "\<forall>q. q \<noteq> p \<longrightarrow> foe_table_cpu h' ! q = foe_table_cpu h ! q"
      "ppe_num h' = ppe_num h"
    using hnat_start_spec [OF assms] by blast
  have n: "0 < ppe_num h" using assms(1) by (auto simp: hnat_start_def split: if_splits)
  have "cfg \<in> {0, 1, 2, 3}" using c(1) by auto
  then have "DEF_ETRY_NUM div 2 ^ (3 - cfg) = 1024 * 2 ^ cfg" by auto
  moreover have "entry_delete_by_mac dev' (Some mac) h' = None" if "p = 0" "foe_etry_num h' < DEF_ETRY_NUM"
  proof -
    have "ppe_num h' = Suc (ppe_num h' - 1)" using n c(8) by simp
    moreover have "length (foe_table_cpu h' ! 0) < DEF_ETRY_NUM" "0 < length (foe_table_cpu h')"
      using that c(5,6) assms(3) by simp_all
    ultimately show ?thesis
      using delete_match_ppes_overrun [of 0 h'] by (metis entry_delete_by_mac_mac)
  qed
  ultimately show ?thesis using c by (intro exI [of _ cfg]) simp
qed

theorem hnat_start_table_size_witness:
  "\<exists>h'. hnat_start mem_dev demo_dma (\<lambda>_. True) None False 0 (demo_hnat zero_entry) = Some (0, h')
     \<and> length (foe_table_cpu h' ! 0) = foe_etry_num h'"
proof -
  obtain h' where s: "hnat_start mem_dev demo_dma (\<lambda>_. True) None False 0 (demo_hnat zero_entry) = Some (0, h')"
    using demo_engine_start by blast
  have "0 < length (foe_table_cpu (demo_hnat zero_entry))" by (simp add: demo_hnat_def)
  from hnat_start_table_size [OF s mem_devices(1) this, of mem_dev "[]"] s show ?thesis by blast
qed

section \<open>Hardware NAT: multicast groups\<close>

text \<open>
  C33: whatever MDB messages arrive, they are handled, and the list of groups is then what joining and
  leaving make of it, each group with the set of its ports; a packet may be bound in the unicast mode
  exactly when its group has one port and that is a GDM port. The invariant of the multicast state
  holds again.
\<close>

theorem mcast_list_refines:
  assumes "mcast_inv dev h0 h"
  shows "wp (hnat_mcast_nlmsg_handler dev net msgs h) (\<lambda>h'. mcast_inv dev h0 h'
    \<and> mcast_groups h' = fold (group_step net h0) msgs (mcast_groups h)
    \<and> (\<forall>d tci. hnat_is_mcast_uni (Some (d, tci)) h' \<longleftrightarrow>
        fold (group_step net h0) msgs (mcast_groups h) (d, case tci of Some t \<Rightarrow> t AND 0x0fff | None \<Rightarrow> 0) \<in> {{0}, {2}, {3}}))"
  by (rule wp_mono [OF mcast.service [OF assms]]) (simp add: mcast_uni_groups)

theorem mcast_list_refines_witness:
  "wp (hnat_mcast_nlmsg_handler mem_dev demo_netns [Mdb 84 demo_mdb True] demo_mcast)
     (\<lambda>h'. hnat_is_mcast_uni (Some (fst demo_key, Some 1)) h')"
proof -
  have t: "mdb_target demo_netns (demo_hnat zero_entry) demo_mdb = Some (demo_key, 2)"
    by (rule demo_target) (simp add: demo_hnat_def)
  have "fold (group_step demo_netns (demo_hnat zero_entry)) [Mdb 84 demo_mdb True] (mcast_groups demo_mcast) demo_key = {2}"
    by (simp add: demo_enabled(3) t)
  moreover have "demo_key = (fst demo_key, (1 :: u16) AND 0x0fff)" by (simp add: demo_key_def)
  ultimately show ?thesis
    using mcast_list_refines [OF demo_enabled(2), of demo_netns "[Mdb 84 demo_mdb True]"]
    by (auto simp: wp_iff simp del: hnat_mcast_nlmsg_handler.simps group_step.simps)
qed

text \<open>
  C34: from the moment the multicast table is enabled on clear registers, and after any MDB messages,
  the register pairs of every engine show the table: the ports and the address prefix of each group
  in use and the rest of its address, and zero for every entry that is free. Every group in use has a
  multicast address and a port.
\<close>

theorem mcast_registers_mirror:
  assumes "mcast_device dev" and "full_tables h" and "pmcast h = None" and "mcast_clear dev h" and "ppe < ppe_num h"
    and "hnat_mcast_enable dev True True True ppe h = (r, h1)"
  shows "wp (hnat_mcast_nlmsg_handler dev net msgs h1) (\<lambda>h'. \<exists>P. pmcast h' = Some P
    \<and> (\<forall>g \<in> set (mtbl P). group_ok g)
    \<and> (\<forall>p < ppe_num h'. \<forall>i < MAX_MCAST_ENTRY. let g = mtbl P ! i in
        reg_now dev (mcast_reg_h p i) h' = (if g_valid g
          then ppe_mcast_h (g_mc_port g) (if DMAC_TO_HI16 (g_dmac g) = 0x0100 then 0 else 1) else 0)
        \<and> reg_now dev (mcast_reg_l p i) h' = (if g_valid g then DMAC_TO_LO32 (g_dmac g) else 0)))"
  by (rule wp_mono [OF mcast.service [OF enable_inv(2) [OF assms]]])
    (auto simp: mcast_inv_def mirrored_def table_ok_def group_h_def group_l_def Let_def)

theorem mcast_registers_mirror_witness:
  "wp (hnat_mcast_nlmsg_handler mem_dev demo_netns [Mdb 84 demo_mdb True, Msg_Bad, Mdb 85 demo_mdb True] demo_mcast)
     (\<lambda>h'. \<exists>P. pmcast h' = Some P \<and> (\<forall>g \<in> set (mtbl P). group_ok g))"
proof -
  have p: "pmcast (demo_hnat zero_entry) = None" "0 < ppe_num (demo_hnat zero_entry)" by (simp_all add: demo_hnat_def)
  show ?thesis
    by (rule wp_mono [OF mcast_registers_mirror [OF mem_devices(2) demo_flow_tables(1) p(1) demo_clear p(2) demo_enabled(1)]]) blast
qed

text \<open>
  C35: while the groups fill the table from its start without a gap, a join counts the port of its
  group up and a leave counts it down, modulo 256, and no other group changes; a group without a
  counter left is taken out. The table stays without a gap when the group stays in it.
\<close>

theorem mcast_table_counts:
  assumes "pmcast h = Some P" and "table_ok P" and "packed n P" and "mdb_target net h m = Some (k, port)"
    and "ty = RTM_NEWMDB \<and> (has_group P k \<or> n < max_entry P) \<or> ty = RTM_DELMDB \<and> has_group P k"
  shows "\<exists>h' P'. hnat_mcast_table_update net ty m h = Some (0, h') \<and> pmcast h' = Some P'
    \<and> table_counts P' = (table_counts P)(k := (table_counts P k)[port :=
        (if ty = RTM_NEWMDB then table_counts P k ! port + 1 else table_counts P k ! port - 1)])
    \<and> (table_counts P' k \<noteq> replicate MAX_MCAST_PORT 0 \<longrightarrow> packed (if has_group P k then n else Suc n) P')"
proof -
  obtain h' P' where u: "hnat_mcast_table_update net ty m h = Some (0, h')" "pmcast h' = Some P'"
      "table_counts P' = (table_counts P)(k := bump ty port (table_counts P k))"
      "bump ty port (table_counts P k) \<noteq> replicate MAX_MCAST_PORT 0 \<longrightarrow> packed (if has_group P k then n else Suc n) P'"
    using update_counts [OF assms] by blast
  then show ?thesis by (intro exI [of _ h'] exI [of _ P']) (auto simp: bump_def)
qed

theorem mcast_table_counts_witness:
  "\<exists>h' P'. hnat_mcast_table_update demo_netns 84 demo_mdb ((demo_hnat zero_entry)\<lparr>pmcast := Some demo_free\<rparr>) = Some (0, h')
     \<and> pmcast h' = Some P' \<and> table_counts P' demo_key = [0, 0, 1, 0, 0]"
proof -
  let ?h = "(demo_hnat zero_entry)\<lparr>pmcast := Some demo_free\<rparr>"
  have "mdb_target demo_netns ?h demo_mdb = Some (demo_key, 2)" by (rule demo_target) (simp add: demo_hnat_def)
  moreover have "pmcast ?h = Some demo_free" "0 < max_entry demo_free" by (simp_all add: demo_free_def)
  moreover have "(replicate 5 0)[2 := (replicate 5 0 ! 2 :: u8) + 1] = [0, 0, 1, 0, 0]" by code_simp
  ultimately show ?thesis
    using mcast_table_counts [of ?h demo_free 0 demo_netns demo_mdb demo_key 2 84] demo_free by auto
qed

text \<open>
  An entry of the table that lies behind a free one is out of reach: no join and no leave changes
  it, so that a group which got there stays, with its counters, when all its members have left.
\<close>

theorem mcast_leave_lost:
  assumes "pmcast h = Some P" and "length (mtbl P) = MAX_MCAST_ENTRY" and "j < max_entry P"
    and "\<not> g_valid (mtbl P ! j)" and "j < i"
  shows "wp (hnat_mcast_table_update net ty m h) (\<lambda>(r, h'). \<exists>P'. pmcast h' = Some P' \<and> mtbl P' ! i = mtbl P ! i)"
  by (rule update_before_gap [OF assms])

theorem mcast_leave_lost_witness:
  "mdb_target demo_netns demo_gap demo_mdb = Some (demo_key, 2) \<and> is_group demo_key demo_group
   \<and> wp (hnat_mcast_table_update demo_netns 85 demo_mdb demo_gap) (\<lambda>(r, h'). \<exists>P'. pmcast h' = Some P' \<and> mtbl P' ! 1 = demo_group)"
proof -
  let ?P = "\<lparr>mtbl = (replicate 64 empty_group)[1 := demo_group], mlist = [], max_entry = 64\<rparr>"
  have "pmcast demo_gap = Some ?P" "\<not> g_valid (mtbl ?P ! 0)" "mtbl ?P ! 1 = demo_group"
    by (simp_all add: demo_gap_def empty_group_def)
  with mcast_leave_lost [of demo_gap ?P 0 1 demo_netns 85 demo_mdb]
  have "wp (hnat_mcast_table_update demo_netns 85 demo_mdb demo_gap) (\<lambda>(r, h'). \<exists>P'. pmcast h' = Some P' \<and> mtbl P' ! 1 = demo_group)"
    by simp
  moreover have "mdb_target demo_netns demo_gap demo_mdb = Some (demo_key, 2)"
    by (rule demo_target) (simp add: demo_gap_def demo_hnat_def)
  moreover have "is_group demo_key demo_group" by (simp add: is_group_def demo_group_def demo_key_def)
  ultimately show ?thesis by blast
qed

section \<open>Hardware NAT: packet counters and updates by packet\<close>

text \<open>
  C38: no byte and no packet is lost or counted twice. After any calls that ask for the counts of one
  entry or of all, the total the driver keeps of each entry has grown by exactly what was reported of
  it, the counter of each tracked connection and direction by exactly what was reported of the entries
  that belong to it, all modulo \<open>2 ^ 64\<close>, and nothing else has changed. The calls always return,
  whatever the engine answers and however often it stays busy.
\<close>

theorem hnat_counts_booked:
  assumes "counted_tables h"
  shows "wp (count_calls dev cs h ct) (\<lambda>(r, h', ct'). same_but_counts h h'
    \<and> (\<forall>p i. counted h' p i = padd (counted h p i) (r p i))
    \<and> (\<forall>k. tracked ct' k = map_option (\<lambda>c. padd c (due r h ct k)) (tracked ct k)))"
  by (rule wp_mono [OF count_calls_booked [OF assms]]) (auto simp: booked_def)

theorem hnat_counts_booked_witness:
  "wp (count_calls mib_dev [One_Count 0 5 1, All_Counts (\<lambda>_ _. 1), One_Count 0 5 0] demo_counting demo_conntrack)
     (\<lambda>(r, h', ct'). counted h' 0 5 = r 0 5)"
proof -
  have "counted demo_counting 0 5 = (0, 0)"
    by (simp add: counted_def acct_at_def demo_counting_def demo_hnat_def no_counts_def)
  with wp_mono [OF hnat_counts_booked [OF demo_counting_tables, of mib_dev
      "[One_Count 0 5 1, All_Counts (\<lambda>_ _. 1), One_Count 0 5 0]" demo_conntrack]]
  show ?thesis by (simp add: case_prod_unfold del: count_calls.simps)
qed

text \<open>
  C39: asking for the counts of a bound entry gives the bytes and packets the engine holds when it
  answers in time, in each of the two register formats. When the engine stays busy the call reports
  success all the same, with zero for both, and nothing is counted.
\<close>

theorem hnat_mib_count_contract:
  assumes "counted_tables h" and "per_flow_accounting h" and "unat ppe < ppe_num h" and "unat hash < foe_etry_num h"
    and "foe_at h (unat ppe) (unat hash) = Some e" and "entry_hnat_is_bound e"
    and "mib_poll dev (unat ppe) polls
      (writel (of_nat (unat hash) OR push_bit 16 1) (Ppe (unat ppe) PPE_MIB_SER_CR) h) = (ret, h2)"
  shows "wp (mtk_hnat_get_mib_count_by_index dev polls ppe hash True h ct) (\<lambda>(r, v, h', ct'). r = HNAT_SUCCESS
    \<and> (\<forall>b n. ret = 0 \<and> mib_latched dev (unat ppe) (h_version h) b n (h_io h2) \<and> mib_fits (h_version h) b n
        \<longrightarrow> v = Some (of_nat b, of_nat n))
    \<and> (ret \<noteq> 0 \<longrightarrow> v = Some (0, 0) \<and> acct h' = acct h \<and> ct' = ct))"
  by (rule mib_count_contract [OF assms])

theorem hnat_mib_count_contract_witness:
  "wp (mtk_hnat_get_mib_count_by_index mib_dev 1 0 5 True demo_counting demo_conntrack)
     (\<lambda>(r, v, h', ct'). r = HNAT_SUCCESS \<and> v = Some (1500, 1))
   \<and> wp (mtk_hnat_get_mib_count_by_index mem_dev 1 0 5 True demo_counting demo_conntrack)
     (\<lambda>(r, v, h', ct'). r = HNAT_SUCCESS \<and> v = Some (0, 0))"
proof
  note d = demo_counting_tables demo_counting_fields
  let ?w = "writel (of_nat (unat (5 :: u16)) OR push_bit 16 1) (Ppe (unat (0 :: u16)) PPE_MIB_SER_CR) demo_counting"
  have "fst (mib_poll mib_dev (unat (0 :: u16)) 1 ?w) = 0" by (simp add: readl_def mib_dev_def)
  then obtain h2 where poll: "mib_poll mib_dev (unat (0 :: u16)) 1 ?w = (0, h2)" by (metis prod.collapse)
  have "wp (mtk_hnat_get_mib_count_by_index mib_dev 1 0 5 True demo_counting demo_conntrack)
      (\<lambda>(r, v, h', ct'). r = HNAT_SUCCESS \<and> v = Some (of_nat 1500, of_nat 1))"
    by (rule wp_mono [OF hnat_mib_count_contract [OF d poll]])
      (simp only: case_prod_unfold, use mib_dev_latched in blast)
  then show "wp (mtk_hnat_get_mib_count_by_index mib_dev 1 0 5 True demo_counting demo_conntrack)
      (\<lambda>(r, v, h', ct'). r = HNAT_SUCCESS \<and> v = Some (1500, 1))" by simp
  have "fst (mib_poll mem_dev (unat (0 :: u16)) 1 ?w) \<noteq> 0" by (simp add: readl_def writel_def)
  then obtain ret h3 where poll: "mib_poll mem_dev (unat (0 :: u16)) 1 ?w = (ret, h3)" "ret \<noteq> 0" by (metis prod.collapse)
  show "wp (mtk_hnat_get_mib_count_by_index mem_dev 1 0 5 True demo_counting demo_conntrack)
      (\<lambda>(r, v, h', ct'). r = HNAT_SUCCESS \<and> v = Some (0, 0))"
    by (rule wp_mono [OF hnat_mib_count_contract [OF d poll(1)]])
      (simp only: case_prod_unfold, use poll(2) in blast)
qed

text \<open>
  C40: whatever packet a driver passes to an update by packet, the call stays inside the tables and
  keeps every flow, and an entry changes only if the call succeeds and the packet is one that the
  engine handed up to keep alive the flow in this very entry.
\<close>

theorem hnat_skb_own_flow:
  assumes "sized_tables h" and "0 < ppe_num h"
  shows "wp (skb_update dev skb c h) (\<lambda>(ret, h'). sized_tables h' \<and> flows_kept h h'
    \<and> (\<forall>q j. foe_at h' q j \<noteq> foe_at h q j \<longrightarrow> ret = HNAT_SUCCESS \<and> (\<exists>s. skb = Some s \<and> keeps_alive h s q j)))"
  by (rule skb_update_own_flow [OF assms])

theorem hnat_skb_own_flow_witness:
  "hnat_get_idx_from_skb (demo_hnat (demo_flow IPV4_HNAPT)) (Some demo_skb) = Some (0, 5)
   \<and> wp (skb_update mem_dev (Some demo_skb) (Dscp 46) (demo_hnat (demo_flow IPV4_HNAPT)))
     (\<lambda>(ret, h'). \<forall>q j. foe_at h' q j \<noteq> foe_at (demo_hnat (demo_flow IPV4_HNAPT)) q j \<longrightarrow> q = 0 \<and> j = 5)"
proof
  let ?h = "demo_hnat (demo_flow IPV4_HNAPT)"
  have "keeps_alive ?h demo_skb q j \<Longrightarrow> q = 0 \<and> j = 5" for q j
    by (auto simp: keeps_alive_def demo_skb)
  moreover have "0 < ppe_num ?h" by (simp add: demo_hnat_def)
  ultimately show "wp (skb_update mem_dev (Some demo_skb) (Dscp 46) ?h)
      (\<lambda>(ret, h'). \<forall>q j. foe_at h' q j \<noteq> foe_at ?h q j \<longrightarrow> q = 0 \<and> j = 5)"
    by (intro wp_mono [OF hnat_skb_own_flow [OF demo_flow_tables(2)]]) auto
  show "hnat_get_idx_from_skb ?h (Some demo_skb) = Some (0, 5)" by (rule demo_skb_index)
qed

end
